(* ===== verification/Prelude.thy ===== *)
theory Prelude
  imports Complex_Main "HOL-Library.AList"
begin

text \<open>
  Shared vocabulary of the development: collections of simplification rules, the
  insertion-ordered association lists that stand for JavaScript \<open>Map\<close>s and plain
  objects, list helpers for the array methods the sources use, and the generic
  machine locale under which every event-driven component (connection, publisher,
  consumer, segment builder) gets its invariants.
\<close>

named_theorems js_simps \<open>evaluation rules of the JavaScript value model\<close>
named_theorems cmd_simps \<open>rules about command logs\<close>

section \<open>Objects and maps in insertion order\<close>

text \<open>
  A JavaScript \<open>Map\<close> (and a plain object with string keys) iterates in insertion
  order, and setting an existing key keeps its place. \<open>AList.update\<close> does exactly
  that, so objects are association lists with distinct keys.
\<close>

type_synonym ('k, 'v) jsmap = "('k \<times> 'v) list"

abbreviation jsget :: "('k, 'v) jsmap \<Rightarrow> 'k \<Rightarrow> 'v option" where
  "jsget m k \<equiv> map_of m k"

abbreviation jsset :: "'k \<Rightarrow> 'v \<Rightarrow> ('k, 'v) jsmap \<Rightarrow> ('k, 'v) jsmap" where
  "jsset k v m \<equiv> AList.update k v m"

abbreviation jshas :: "('k, 'v) jsmap \<Rightarrow> 'k \<Rightarrow> bool" where
  "jshas m k \<equiv> map_of m k \<noteq> None"

lemma jsget_jsset [simp, js_simps]:
  "jsget (jsset k v m) k' = (if k' = k then Some v else jsget m k')"
  by (simp add: update_conv)

lemma keys_jsset_distinct [simp, intro]:
  "distinct (map fst m) \<Longrightarrow> distinct (map fst (jsset k v m))"
  by (rule distinct_update)

lemma jsget_jsset_idem:
  "jsset k v' (jsset k v m) = jsset k v' m"
  by (induction m) auto

section \<open>Array helpers\<close>

text \<open>\<open>find_index\<close> is \<open>Array.prototype.findIndex\<close> with the -1 answer as \<open>None\<close>.\<close>

fun find_index :: "('a \<Rightarrow> bool) \<Rightarrow> 'a list \<Rightarrow> nat option" where
  "find_index P [] = None"
| "find_index P (x # xs) = (if P x then Some 0 else map_option Suc (find_index P xs))"

lemma find_index_Some:
  "find_index P xs = Some i \<Longrightarrow> i < length xs \<and> P (xs ! i) \<and> (\<forall>j < i. \<not> P (xs ! j))"
proof (induction xs arbitrary: i)
  case Nil
  then show ?case by simp
next
  case (Cons x xs)
  show ?case
  proof (cases "P x")
    case True
    with Cons.prems show ?thesis by auto
  next
    case False
    with Cons.prems obtain k where k: "find_index P xs = Some k" "i = Suc k" by auto
    with Cons.IH [of k] False show ?thesis
      by (auto simp: nth_Cons less_Suc_eq_0_disj split: nat.splits)
  qed
qed

lemma find_index_None: "find_index P xs = None \<longleftrightarrow> (\<forall>x \<in> set xs. \<not> P x)"
  by (induction xs) auto

text \<open>\<open>remove_at\<close> is \<open>splice(i, 1)\<close>, \<open>insert_at\<close> is \<open>splice(i, 0, x)\<close>.\<close>

definition remove_at :: "nat \<Rightarrow> 'a list \<Rightarrow> 'a list" where
  "remove_at i xs = take i xs @ drop (Suc i) xs"

definition insert_at :: "nat \<Rightarrow> 'a \<Rightarrow> 'a list \<Rightarrow> 'a list" where
  "insert_at i x xs = take i xs @ x # drop i xs"

lemma set_remove_at: "set (remove_at i xs) \<subseteq> set xs"
  unfolding remove_at_def by (auto dest: in_set_takeD in_set_dropD)

lemma length_remove_at: "i < length xs \<Longrightarrow> length (remove_at i xs) = length xs - 1"
  by (simp add: remove_at_def)

lemma set_insert_at: "set (insert_at i x xs) = insert x (set xs)"
  unfolding insert_at_def using append_take_drop_id [of i xs]
  by (metis Un_insert_right list.simps(15) set_append)

lemma map_remove_at: "map f (remove_at i xs) = remove_at i (map f xs)"
  by (simp add: remove_at_def take_map drop_map)

lemma distinct_remove_at: "distinct xs \<Longrightarrow> distinct (remove_at i xs)"
  by (simp add: remove_at_def set_take_disj_set_drop_if_distinct)

text \<open>Add to the end of a list that models a JavaScript \<open>Set\<close> in insertion order.\<close>

definition set_add :: "'a \<Rightarrow> 'a list \<Rightarrow> 'a list" where
  "set_add x xs = (if x \<in> set xs then xs else xs @ [x])"

lemma set_set_add [simp]: "set (set_add x xs) = insert x (set xs)"
  by (auto simp: set_add_def)

lemma distinct_set_add [simp]: "distinct xs \<Longrightarrow> distinct (set_add x xs)"
  by (simp add: set_add_def)

text \<open>
  \<open>for (let i = 0; i < xs.length; i += n)\<close> with \<open>xs.slice(i, i + n)\<close>: the array in parts of \<open>n\<close>.
\<close>

function chunks :: "nat \<Rightarrow> 'a list \<Rightarrow> 'a list list" where
  "chunks n xs = (if n = 0 \<or> xs = [] then [] else take n xs # chunks n (drop n xs))"
  by auto
termination by (relation "measure (\<lambda>(n, xs). length xs)") auto

declare chunks.simps [simp del]

lemma chunks_Nil [simp]: "chunks n [] = []"
  by (simp add: chunks.simps)

lemma concat_chunks [simp]: "0 < n \<Longrightarrow> concat (chunks n xs) = xs"
  by (induction n xs rule: chunks.induct) (subst chunks.simps, auto)

lemma chunk_sizes: "c \<in> set (chunks n xs) \<Longrightarrow> 0 < length c \<and> length c \<le> n"
  by (induction n xs rule: chunks.induct) (subst (asm) chunks.simps, auto split: if_splits)

lemma length_chunks: "0 < n \<Longrightarrow> length (chunks n xs) = (length xs + n - 1) div n"
proof (induction n xs rule: chunks.induct)
  case (1 n xs)
  show ?case
  proof (cases "xs = []")
    case False
    with 1 have IH: "length (chunks n (drop n xs)) = (length xs - n + n - 1) div n" by simp
    have "length (chunks n xs) = Suc (length (chunks n (drop n xs)))" using 1 False by (subst chunks.simps) simp
    also have "\<dots> = (length xs + n - 1) div n"
    proof (cases "n \<le> length xs")
      case True
      then have "length xs + n - 1 = (length xs - n + n - 1) + n" using 1(2) by simp
      then show ?thesis using IH 1(2) by (metis add.commute div_add_self1 less_not_refl2 plus_1_eq_Suc)
    next
      case less: False
      then have "(length xs - n + n - 1) div n = 0" using 1(2) by simp
      moreover have "(length xs + n - 1) div n = 1"
        using less False by (cases xs) (auto intro!: div_nat_eqI)
      ultimately show ?thesis using IH by simp
    qed
    finally show ?thesis .
  qed (use 1 in \<open>simp add: div_eq_0_iff\<close>)
qed

section \<open>Programs with state and exceptions\<close>

text \<open>
  An \<open>async\<close> function over a state: it ends with a value or with a thrown message, and with the
  state it has reached either way.
\<close>

type_synonym ('s, 'a) prog = "'s \<Rightarrow> (string + 'a) \<times> 's"

definition prog_ret :: "'a \<Rightarrow> ('s, 'a) prog" where
  "prog_ret x s = (Inr x, s)"

definition prog_throw :: "string \<Rightarrow> ('s, 'a) prog" where
  "prog_throw e s = (Inl e, s)"

definition prog_then :: "('s, 'a) prog \<Rightarrow> ('a \<Rightarrow> ('s, 'b) prog) \<Rightarrow> ('s, 'b) prog" where
  "prog_then m f s = (case m s of (Inl e, s') \<Rightarrow> (Inl e, s') | (Inr x, s') \<Rightarrow> f x s')"

definition prog_lift :: "string + 'a \<Rightarrow> ('s, 'a) prog" where
  "prog_lift r s = (r, s)"

definition prog_set :: "('s \<Rightarrow> 's) \<Rightarrow> ('s, unit) prog" where
  "prog_set f s = (Inr (), f s)"

lemma prog_then_Inr:
  "prog_then m f s = (Inr y, s') \<longleftrightarrow> (\<exists>x t. m s = (Inr x, t) \<and> f x t = (Inr y, s'))"
  by (auto simp: prog_then_def split: sum.splits prod.splits)

lemma prog_ret_Inr: "prog_ret x s = (Inr y, s') \<longleftrightarrow> y = x \<and> s' = s"
  by (auto simp: prog_ret_def)

lemma prog_throw_Inr: "prog_throw e s = (Inr y, s') \<longleftrightarrow> False"
  by (simp add: prog_throw_def)

lemma prog_lift_Inr: "prog_lift r s = (Inr y, s') \<longleftrightarrow> r = Inr y \<and> s' = s"
  by (auto simp: prog_lift_def)

lemma prog_set_Inr: "prog_set f s = (Inr y, s') \<longleftrightarrow> s' = f s"
  by (auto simp: prog_set_def)

lemmas prog_Inr = prog_then_Inr prog_ret_Inr prog_throw_Inr prog_lift_Inr prog_set_Inr
lemmas prog_defs = prog_then_def prog_ret_def prog_throw_def prog_lift_def prog_set_def

section \<open>Machines and their invariants\<close>

text \<open>
  A component that reacts to events is a step function over its state. The locale is
  the contract between such a component and its clients: an invariant that holds
  initially and that every event keeps. Its lemmas lift the invariant to runs and to
  every prefix of a run.
\<close>

locale machine =
  fixes init :: 's
    and step :: "'e \<Rightarrow> 's \<Rightarrow> 's"
    and inv :: "'s \<Rightarrow> bool"
  assumes inv_init: "inv init"
    and inv_step: "inv s \<Longrightarrow> inv (step e s)"
begin

lemma inv_fold_from: "inv s \<Longrightarrow> inv (fold step es s)"
  by (induction es arbitrary: s) (auto intro: inv_step)

lemma inv_run: "inv (fold step es init)"
  by (rule inv_fold_from [OF inv_init])

lemma inv_prefix: "inv (fold step (take n es) init)"
  by (rule inv_run)

end

end
