(* ===== verification/JsValue.thy ===== *)
theory JsValue
  imports Prelude
begin

text \<open>
  The part of the JavaScript value model the sources use: numbers, dynamic values,
  truthiness, \<open>Number(s)\<close> and \<open>parseInt(s, 10)\<close> on strings, and the string methods
  \<open>split\<close>, \<open>includes\<close>, \<open>startsWith\<close>, \<open>trim\<close>, \<open>toLowerCase\<close>, \<open>indexOf\<close>.
  A string is a list of 8-bit code units; components for which wider code units
  matter (SMS encoding) use their own type. A finite number is its real value: the
  rounding of binary64 is not modelled, its overflow to infinity is.
\<close>

section \<open>Numbers\<close>

datatype jsnum = Fin real | PosInf | NegInf | NaN

text \<open>
  Reals at or beyond \<open>2^1024 - 2^970\<close> round to infinity in binary64.
\<close>

definition js_huge :: real where
  "js_huge = 2 ^ 1024 - 2 ^ 970"

definition js_finite :: "real \<Rightarrow> bool" where
  "js_finite x \<longleftrightarrow> \<bar>x\<bar> < js_huge"

definition to_jsnum :: "real \<Rightarrow> jsnum" where
  "to_jsnum x = (if js_finite x then Fin x else if 0 < x then PosInf else NegInf)"

lemma js_huge_pos: "0 < js_huge"
  by (simp add: js_huge_def)

text \<open>Evaluation: most numbers are far from the bound.\<close>

lemma js_finite_code [code]: "js_finite x = (if \<bar>x\<bar> \<le> 9007199254740992 then True else \<bar>x\<bar> < js_huge)"
proof -
  have "(9007199254740992::real) < js_huge" by (simp add: js_huge_def)
  then show ?thesis by (auto simp: js_finite_def)
qed

text \<open>The comparison \<open>a >= b\<close> of two numbers: false as soon as one is \<open>NaN\<close>.\<close>

fun js_ge :: "jsnum \<Rightarrow> jsnum \<Rightarrow> bool" where
  "js_ge NaN _ = False"
| "js_ge _ NaN = False"
| "js_ge PosInf _ = True"
| "js_ge _ NegInf = True"
| "js_ge NegInf _ = False"
| "js_ge _ PosInf = False"
| "js_ge (Fin x) (Fin y) = (x \<ge> y)"

fun is_finite :: "jsnum \<Rightarrow> bool" where
  "is_finite (Fin _) = True"
| "is_finite _ = False"

section \<open>Dynamic values\<close>

datatype jsval =
    JUndefined
  | JNull
  | JBool bool
  | JNum jsnum
  | JStr string
  | JBuf string
  | JArr "jsval list"
  | JObj "(string \<times> jsval) list"

fun truthy :: "jsval \<Rightarrow> bool" where
  "truthy JUndefined = False"
| "truthy JNull = False"
| "truthy (JBool b) = b"
| "truthy (JNum n) = (case n of Fin x \<Rightarrow> x \<noteq> 0 | NaN \<Rightarrow> False | _ \<Rightarrow> True)"
| "truthy (JStr s) = (s \<noteq> [])"
| "truthy (JBuf _) = True"
| "truthy (JArr _) = True"
| "truthy (JObj _) = True"

text \<open>\<open>a ?? b\<close> and \<open>a || b\<close>, both values already evaluated.\<close>

definition js_nullish :: "jsval \<Rightarrow> bool" where
  "js_nullish v \<longleftrightarrow> v = JUndefined \<or> v = JNull"

definition js_coalesce :: "jsval \<Rightarrow> jsval \<Rightarrow> jsval" where
  "js_coalesce a b = (if js_nullish a then b else a)"

definition js_or :: "jsval \<Rightarrow> jsval \<Rightarrow> jsval" where
  "js_or a b = (if truthy a then a else b)"

text \<open>Reading an own property of an object: a missing key reads \<open>undefined\<close>.\<close>

definition obj_get :: "(string \<times> jsval) list \<Rightarrow> string \<Rightarrow> jsval" where
  "obj_get m k = (case map_of m k of None \<Rightarrow> JUndefined | Some v \<Rightarrow> v)"

lemma obj_get_jsset [simp, js_simps]:
  "obj_get (jsset k v m) k' = (if k' = k then v else obj_get m k')"
  by (simp add: obj_get_def)

lemma obj_get_delete [simp, js_simps]:
  "obj_get (AList.delete k m) k' = (if k' = k then JUndefined else obj_get m k')"
  by (simp add: obj_get_def delete_conv)

section \<open>Characters and string methods\<close>

text \<open>
  JavaScript white space among the 8-bit code units: tab, line feed, vertical tab,
  form feed, carriage return, space and the no-break space.
\<close>

definition is_js_space :: "char \<Rightarrow> bool" where
  "is_js_space c \<longleftrightarrow> (let n = (of_char c :: nat) in n \<in> {9, 10, 11, 12, 13, 32, 160})"

definition is_digit :: "char \<Rightarrow> bool" where
  "is_digit c \<longleftrightarrow> (let n = (of_char c :: nat) in 48 \<le> n \<and> n \<le> 57)"

definition digit_val :: "char \<Rightarrow> nat" where
  "digit_val c = (of_char c :: nat) - 48"

definition js_trim_start :: "string \<Rightarrow> string" where
  "js_trim_start s = dropWhile is_js_space s"

definition js_trim :: "string \<Rightarrow> string" where
  "js_trim s = rev (dropWhile is_js_space (rev (js_trim_start s)))"

fun starts_with :: "string \<Rightarrow> string \<Rightarrow> bool" where
  "starts_with [] _ = True"
| "starts_with (p # ps) (c # cs) = (p = c \<and> starts_with ps cs)"
| "starts_with (p # ps) [] = False"

text \<open>\<open>s.includes(p)\<close>: some suffix of \<open>s\<close> starts with \<open>p\<close>.\<close>

fun str_includes :: "string \<Rightarrow> string \<Rightarrow> bool" where
  "str_includes [] p = (p = [])"
| "str_includes (c # cs) p = (starts_with p (c # cs) \<or> str_includes cs p)"

text \<open>
  Lower case of the Latin-1 letters: A to Z, and the accented capitals except the
  multiplication sign.
\<close>

definition lower_char :: "char \<Rightarrow> char" where
  "lower_char c = (let n = (of_char c :: nat) in
     if (65 \<le> n \<and> n \<le> 90) \<or> (192 \<le> n \<and> n \<le> 222 \<and> n \<noteq> 215) then char_of (n + 32) else c)"

definition to_lower :: "string \<Rightarrow> string" where
  "to_lower s = map lower_char s"

text \<open>\<open>s.split(c)\<close> for a one-character separator: always at least one part.\<close>

fun split_on :: "char \<Rightarrow> string \<Rightarrow> string list" where
  "split_on d [] = [[]]"
| "split_on d (c # cs) =
     (if c = d then [] # split_on d cs
      else (case split_on d cs of [] \<Rightarrow> [[c]] | p # ps \<Rightarrow> (c # p) # ps))"

fun join :: "string \<Rightarrow> string list \<Rightarrow> string" where
  "join sep [] = []"
| "join sep [x] = x"
| "join sep (x # y # zs) = x @ sep @ join sep (y # zs)"

lemma split_on_nonempty [simp]: "split_on d s \<noteq> []"
  by (induction s) (auto split: list.splits)

lemma split_on_join: "join [d] (split_on d s) = s"
proof (induction s)
  case Nil
  then show ?case by simp
next
  case (Cons c cs)
  obtain p ps where p: "split_on d cs = p # ps"
    by (cases "split_on d cs") auto
  with Cons show ?case
    by (cases ps) auto
qed

lemma split_on_no_sep: "p \<in> set (split_on d s) \<Longrightarrow> d \<notin> set p"
  by (induction s arbitrary: p) (auto split: if_splits list.splits)

lemma starts_with_prefix: "starts_with p s \<longleftrightarrow> (\<exists>t. s = p @ t)"
  by (induction p s rule: starts_with.induct) auto

lemma str_includes_iff: "str_includes s p \<longleftrightarrow> (\<exists>a b. s = a @ p @ b)"
proof (induction s)
  case Nil
  then show ?case by auto
next
  case (Cons c cs)
  have "(\<exists>a b. c # cs = a @ p @ b) \<longleftrightarrow>
        (\<exists>b. c # cs = p @ b) \<or> (\<exists>a b. cs = a @ p @ b)"
    by (metis append_Cons append_Nil list.exhaust list.inject)
  with Cons show ?case by (simp add: starts_with_prefix)
qed

lemma to_lower_append [simp]: "to_lower (a @ b) = to_lower a @ to_lower b"
  by (simp add: to_lower_def)

section \<open>Decimal output\<close>

text \<open>\<open>String(n)\<close> of a non-negative integer.\<close>

definition digit_char :: "nat \<Rightarrow> char" where
  "digit_char d = char_of (48 + d)"

fun show_nat :: "nat \<Rightarrow> string" where
  "show_nat n = (if n < 10 then [digit_char n] else show_nat (n div 10) @ [digit_char (n mod 10)])"

declare show_nat.simps [simp del]

definition digits_val :: "string \<Rightarrow> nat" where
  "digits_val s = foldl (\<lambda>a c. 10 * a + digit_val c) 0 s"

lemma digit_char_is_digit [simp]: "d < 10 \<Longrightarrow> is_digit (digit_char d)"
  by (simp add: is_digit_def digit_char_def)

lemma digit_val_digit_char [simp]: "d < 10 \<Longrightarrow> digit_val (digit_char d) = d"
  by (simp add: digit_val_def digit_char_def)

lemma digits_val_snoc: "digits_val (s @ [c]) = 10 * digits_val s + digit_val c"
  by (simp add: digits_val_def)

lemma digits_val_show_nat [simp]: "digits_val (show_nat n) = n"
proof (induction n rule: show_nat.induct)
  case (1 n)
  show ?case
  proof (cases "n < 10")
    case True
    then show ?thesis by (subst show_nat.simps) (simp add: digits_val_def)
  next
    case False
    with 1 show ?thesis by (subst show_nat.simps) (simp add: digits_val_snoc)
  qed
qed

lemma show_nat_digits: "\<forall>c \<in> set (show_nat n). is_digit c"
proof (induction n rule: show_nat.induct)
  case (1 n)
  then show ?case by (subst show_nat.simps) auto
qed

lemma show_nat_nonempty [simp]: "show_nat n \<noteq> []"
  by (subst show_nat.simps) simp

lemma show_nat_inj: "show_nat m = show_nat n \<Longrightarrow> m = n"
  by (metis digits_val_show_nat)

definition show_int :: "int \<Rightarrow> string" where
  "show_int i = (if i < 0 then CHR ''-'' # show_nat (nat (- i)) else show_nat (nat i))"

section \<open>Number(s) and parseInt(s, 10)\<close>

text \<open>
  The grammar of \<open>StringNumericLiteral\<close>: optional white space around an empty
  text (0), a signed decimal literal with fraction and exponent, a signed
  \<open>Infinity\<close>, or an unsigned hexadecimal, octal or binary integer.
\<close>

definition span :: "('a \<Rightarrow> bool) \<Rightarrow> 'a list \<Rightarrow> 'a list \<times> 'a list" where
  "span P xs = (takeWhile P xs, dropWhile P xs)"

definition all_digits :: "string \<Rightarrow> bool" where
  "all_digits s \<longleftrightarrow> s \<noteq> [] \<and> list_all is_digit s"

fun parse_exponent :: "string \<Rightarrow> int option" where
  "parse_exponent [] = Some 0"
| "parse_exponent (c # r) =
     (if c = CHR ''e'' \<or> c = CHR ''E'' then
        (case r of
           [] \<Rightarrow> None
         | s # ds \<Rightarrow>
             if s = CHR ''-'' then (if all_digits ds then Some (- int (digits_val ds)) else None)
             else if s = CHR ''+'' then (if all_digits ds then Some (int (digits_val ds)) else None)
             else if all_digits r then Some (int (digits_val r)) else None)
      else None)"

definition scale10 :: "nat \<Rightarrow> int \<Rightarrow> real" where
  "scale10 m e = (if 0 \<le> e then real m * 10 ^ nat e else real m / 10 ^ nat (- e))"

definition parse_udecimal :: "string \<Rightarrow> real option" where
  "parse_udecimal s =
     (let (ip, r1) = span is_digit s;
          (fp, r2) = (case r1 of [] \<Rightarrow> ([], [])
                      | c # r \<Rightarrow> if c = CHR ''.'' then span is_digit r else ([], r1))
      in if ip = [] \<and> fp = [] then None
         else map_option (\<lambda>e. scale10 (digits_val (ip @ fp)) (e - int (length fp)))
                (parse_exponent r2))"

definition radix_digit :: "char \<Rightarrow> nat option" where
  "radix_digit c = (let n = (of_char c :: nat) in
     if 48 \<le> n \<and> n \<le> 57 then Some (n - 48)
     else if 97 \<le> n \<and> n \<le> 102 then Some (n - 87)
     else if 65 \<le> n \<and> n \<le> 70 then Some (n - 55) else None)"

definition parse_radix :: "nat \<Rightarrow> string \<Rightarrow> real option" where
  "parse_radix b s =
     (if s \<noteq> [] \<and> list_all (\<lambda>c. case radix_digit c of None \<Rightarrow> False | Some d \<Rightarrow> d < b) s
      then Some (real (foldl (\<lambda>a c. b * a + the (radix_digit c)) 0 s)) else None)"

definition num_of_option :: "real option \<Rightarrow> jsnum" where
  "num_of_option r = (case r of None \<Rightarrow> NaN | Some x \<Rightarrow> to_jsnum x)"

definition parse_unsigned :: "string \<Rightarrow> jsnum" where
  "parse_unsigned s = (if s = ''Infinity'' then PosInf else num_of_option (parse_udecimal s))"

fun js_neg :: "jsnum \<Rightarrow> jsnum" where
  "js_neg (Fin x) = Fin (- x)"
| "js_neg PosInf = NegInf"
| "js_neg NegInf = PosInf"
| "js_neg NaN = NaN"

definition js_Number :: "string \<Rightarrow> jsnum" where
  "js_Number str =
     (let s = js_trim str in
      if s = [] then Fin 0
      else if starts_with ''0x'' s \<or> starts_with ''0X'' s then num_of_option (parse_radix 16 (drop 2 s))
      else if starts_with ''0o'' s \<or> starts_with ''0O'' s then num_of_option (parse_radix 8 (drop 2 s))
      else if starts_with ''0b'' s \<or> starts_with ''0B'' s then num_of_option (parse_radix 2 (drop 2 s))
      else if hd s = CHR ''-'' then js_neg (parse_unsigned (tl s))
      else if hd s = CHR ''+'' then parse_unsigned (tl s)
      else parse_unsigned s)"

text \<open>\<open>parseInt(s, 10)\<close>: skip leading white space, a sign, then the longest run of digits.\<close>

definition parse_int10 :: "string \<Rightarrow> jsnum" where
  "parse_int10 str =
     (let s = js_trim_start str;
          (neg, r) = (case s of [] \<Rightarrow> (False, [])
                      | c # cs \<Rightarrow> if c = CHR ''-'' then (True, cs)
                                 else if c = CHR ''+'' then (False, cs) else (False, s));
          ds = takeWhile is_digit r
      in if ds = [] then NaN
         else let v = to_jsnum (real (digits_val ds)) in (if neg then js_neg v else v))"

text \<open>Evaluation rules for literals: numbers of ordinary size are finite.\<close>

lemma to_jsnum_small [js_simps]:
  "\<bar>x\<bar> \<le> 2 ^ 53 \<Longrightarrow> to_jsnum x = Fin x"
proof -
  assume "\<bar>x\<bar> \<le> 2 ^ 53"
  moreover have "(2::real) ^ 53 < js_huge" by (simp add: js_huge_def)
  ultimately show ?thesis by (simp add: to_jsnum_def js_finite_def)
qed

lemmas js_num_eval = js_Number_def parse_int10_def js_trim_def js_trim_start_def is_js_space_def
  is_digit_def digit_val_def digits_val_def parse_unsigned_def num_of_option_def parse_udecimal_def
  span_def all_digits_def scale10_def parse_radix_def radix_digit_def to_jsnum_small Let_def

lemma js_Number_examples:
  "js_Number '' 12 '' = Fin 12" "js_Number '''' = Fin 0" "js_Number ''1.5e1'' = Fin 15"
  "js_Number ''-3'' = Fin (-3)" "js_Number ''2x'' = NaN" "js_Number ''0x1F'' = Fin 31"
  "js_Number ''Infinity'' = PosInf" "parse_int10 ''42abc'' = Fin 42" "parse_int10 ''x'' = NaN"
  by (simp_all add: js_num_eval)

section \<open>Numbers as text\<close>

text \<open>The text of a number: decimal for integers below \<open>10 ^ 21\<close>; the argument stands for the
  exponent and fraction formats.\<close>

definition num_str :: "(real \<Rightarrow> string) \<Rightarrow> real \<Rightarrow> string" where
  "num_str fracStr x = (if of_int \<lfloor>x\<rfloor> = x \<and> \<bar>x\<bar> < 10 ^ 21 then show_int \<lfloor>x\<rfloor> else fracStr x)"

fun jsnum_str :: "(real \<Rightarrow> string) \<Rightarrow> jsnum \<Rightarrow> string" where
  "jsnum_str fracStr (Fin x) = num_str fracStr x"
| "jsnum_str fracStr PosInf = ''Infinity''"
| "jsnum_str fracStr NegInf = ''-Infinity''"
| "jsnum_str fracStr NaN = ''NaN''"

end
