(* ===== verification/Retry.thy ===== *)
theory Retry
  imports JsValue
begin

text \<open>
  \<open>packages/messaging/src/retry.ts\<close>: the exponential backoff shared by the
  connection (reconnect and initial connect) and the consumer (retry of a failed
  message). The locale is the contract both rely on; \<open>computeBackoffMs\<close> is shown to
  satisfy it, and the clients use only the locale's facts.
\<close>

definition computeBackoffMs :: "real \<Rightarrow> real \<Rightarrow> real \<Rightarrow> real" where
  "computeBackoffMs attempt baseMs maxMs =
     (if baseMs \<le> 0 then 0
      else if maxMs < baseMs then maxMs
      else if attempt < 1 then baseMs
      else let multiplier = 2 powr (attempt - 1) in
           if \<not> js_finite multiplier then maxMs
           else let computed = baseMs * multiplier in
                if \<not> js_finite computed then maxMs
                else min computed maxMs)"

text \<open>What a client of a backoff may assume, and what follows for a whole series.\<close>

locale backoff_policy =
  fixes delay :: "real \<Rightarrow> real \<Rightarrow> real \<Rightarrow> real"
  assumes delay_nonneg: "0 \<le> m \<Longrightarrow> 0 \<le> delay k b m"
    and delay_le: "0 \<le> m \<Longrightarrow> delay k b m \<le> m"
    and delay_mono: "0 \<le> m \<Longrightarrow> k \<le> k' \<Longrightarrow> delay k b m \<le> delay k' b m"
begin

lemma total_delay_le:
  assumes "0 \<le> m"
  shows "(\<Sum>k \<leftarrow> ks. delay k b m) \<le> real (length ks) * m"
  using assms by (induction ks) (auto simp: algebra_simps intro: add_mono delay_le)

lemma total_delay_nonneg:
  assumes "0 \<le> m"
  shows "0 \<le> (\<Sum>k \<leftarrow> ks. delay k b m)"
  using assms by (induction ks) (auto intro: add_nonneg_nonneg delay_nonneg)

end

lemma computeBackoffMs_le:
  assumes "0 \<le> m" shows "computeBackoffMs k b m \<le> m"
  using assms by (simp add: computeBackoffMs_def Let_def)

lemma computeBackoffMs_nonneg:
  assumes "0 \<le> m" shows "0 \<le> computeBackoffMs k b m"
  using assms by (simp add: computeBackoffMs_def Let_def)

lemma powr2_ge_1: "1 \<le> k \<Longrightarrow> (1::real) \<le> 2 powr (k - 1)"
  by (rule ge_one_powr_ge_zero) auto

lemma powr2_mono: "k \<le> k' \<Longrightarrow> (2::real) powr (k - 1) \<le> 2 powr (k' - 1)"
  by simp

lemma computeBackoffMs_ge_base:
  assumes "0 < b" "b \<le> m" shows "b \<le> computeBackoffMs k b m"
proof (cases "k < 1")
  case True
  with assms show ?thesis by (simp add: computeBackoffMs_def)
next
  case False
  then have "b * 1 \<le> b * 2 powr (k - 1)"
    using assms powr2_ge_1 [of k] by (intro mult_left_mono) auto
  with False assms show ?thesis by (simp add: computeBackoffMs_def Let_def)
qed

text \<open>Overflow is upward closed: a later attempt that is finite makes the earlier one finite.\<close>

lemma js_finite_antimono: "0 \<le> x \<Longrightarrow> x \<le> y \<Longrightarrow> js_finite y \<Longrightarrow> js_finite x"
  by (simp add: js_finite_def)

lemma computeBackoffMs_mono:
  assumes "0 \<le> m" "k \<le> k'"
  shows "computeBackoffMs k b m \<le> computeBackoffMs k' b m"
proof (cases "b \<le> 0 \<or> m < b")
  case True
  then show ?thesis by (auto simp: computeBackoffMs_def)
next
  case False
  then have b: "0 < b" "b \<le> m" by auto
  show ?thesis
  proof (cases "k < 1")
    case True
    with b have "computeBackoffMs k b m = b" by (simp add: computeBackoffMs_def)
    with computeBackoffMs_ge_base [OF b] show ?thesis by simp
  next
    case k: False
    let ?p = "(2::real) powr (k - 1)" and ?q = "(2::real) powr (k' - 1)"
    have pq: "?p \<le> ?q" using powr2_mono [OF assms(2)] .
    have bpq: "b * ?p \<le> b * ?q" using pq b by simp
    show ?thesis
    proof (cases "js_finite ?q \<and> js_finite (b * ?q)")
      case True
      then have "js_finite ?p" "js_finite (b * ?p)"
        using js_finite_antimono [OF _ pq] js_finite_antimono [OF _ bpq] b by auto
      with True k assms b show ?thesis
        using min.mono [OF bpq order.refl [of m]] by (simp add: computeBackoffMs_def Let_def)
    next
      case False
      then have "computeBackoffMs k' b m = m"
        using k assms b by (auto simp: computeBackoffMs_def Let_def)
      with computeBackoffMs_le [OF assms(1)] show ?thesis by simp
    qed
  qed
qed

interpretation retry: backoff_policy computeBackoffMs
  by unfold_locales (fact computeBackoffMs_nonneg computeBackoffMs_le computeBackoffMs_mono)+

text \<open>Result: from attempt 1 on, with a base of at least a millisecond and a finite cap, the
  delay is exactly the doubled base capped at the maximum: both overflow guards of the
  code (the multiplier and the product) only ever return what the formula would.\<close>

theorem computeBackoffMs_exact:
  assumes "1 \<le> b" "b \<le> m" "js_finite m" "1 \<le> k"
  shows "computeBackoffMs k b m = min (b * 2 powr (k - 1)) m"
proof -
  let ?p = "2 powr (k - 1)"
  have p: "1 \<le> ?p" using powr2_ge_1 [OF assms(4)] .
  have bp: "?p \<le> b * ?p" using p assms(1) mult_right_mono [of 1 b ?p] by simp
  have m: "m < js_huge" using assms by (simp add: js_finite_def)
  show ?thesis
  proof (cases "js_finite ?p \<and> js_finite (b * ?p)")
    case True
    with assms show ?thesis by (simp add: computeBackoffMs_def Let_def)
  next
    case False
    moreover have "\<bar>?p\<bar> = ?p" "\<bar>b * ?p\<bar> = b * ?p" using p bp by linarith+
    ultimately have "js_huge \<le> ?p \<or> js_huge \<le> b * ?p"
      unfolding js_finite_def by (metis not_le)
    with bp have "js_huge \<le> b * ?p" by linarith
    with m have "m \<le> b * ?p" by linarith
    with False assms show ?thesis by (auto simp: computeBackoffMs_def Let_def)
  qed
qed

theorem computeBackoffMs_exact_witness:
  "computeBackoffMs 4 1000 30000 = 8000 \<and> computeBackoffMs 2000 1000 30000 = 30000"
proof -
  have fin: "js_finite 30000" by (simp add: js_finite_def js_huge_def)
  have "computeBackoffMs 4 1000 30000 = min (1000 * 2 powr (4 - 1)) 30000"
    by (rule computeBackoffMs_exact) (use fin in auto)
  moreover have "computeBackoffMs 2000 1000 30000 = min (1000 * 2 powr (2000 - 1)) 30000"
    by (rule computeBackoffMs_exact) (use fin in auto)
  moreover have "(2::real) powr (5 - 0) \<le> 2 powr (2000 - 1)"
    by (rule powr_mono) simp_all
  then have "(30000::real) \<le> 1000 * 2 powr (2000 - 1)" by simp
  ultimately show ?thesis by (simp add: min_def)
qed

end
