(* ===== verification/Connection.thy ===== *)
theory Connection
  imports Retry
begin

text \<open>
  \<open>packages/messaging/src/connection.ts\<close>: the class \<open>AmqpConnection\<close>. Its fields are
  the record; every stretch of code between two \<open>await\<close>s, and every timer or socket
  callback, is one atomic function; an event says which of them runs next and, where
  it resumes after an \<open>await\<close> on amqplib, what amqplib answered. The broker
  connections amqplib opens are numbered in the order they are opened. Besides the
  source's fields the record keeps what the event loop and the environment hold: the
  armed timers, the reconnect calls that wait for amqplib, the callers that wait for
  the shared connect promise, and the log of outside effects.
\<close>

section \<open>State\<close>

record retry_config =
  rc_baseMs :: "real option"
  rc_maxMs :: "real option"
  rc_maxInitialRetries :: "nat option"

record resolved_retry =
  rr_baseMs :: real
  rr_maxMs :: real
  rr_maxInitialRetries :: nat

definition resolve_retry :: "retry_config \<Rightarrow> resolved_retry" where
  "resolve_retry c = \<lparr>
     rr_baseMs = (case rc_baseMs c of None \<Rightarrow> 1000 | Some x \<Rightarrow> x),
     rr_maxMs = (case rc_maxMs c of None \<Rightarrow> 30000 | Some x \<Rightarrow> x),
     rr_maxInitialRetries = (case rc_maxInitialRetries c of None \<Rightarrow> 5 | Some n \<Rightarrow> n)\<rparr>"

datatype conn_error = ConnectionClosedError | AmqpConnectError string | UndefinedError

datatype connect_phase = AwaitConnect nat | Sleeping nat

datatype conn_out =
    ConnectCall
  | SleepFor real
  | ArmTimer nat real
  | CloseConn nat
  | Notify nat
  | ReplyConn nat
  | ReplyErr conn_error

record amqp_connection =
  ac_conn :: "nat option"
  ac_connPromise :: "connect_phase option"
  ac_closed :: bool
  ac_reconnectAttempt :: nat
  ac_reconnectTimer :: "nat option"
  ac_reconnectPending :: bool
  ac_listeners :: "nat list"
  ac_retry :: resolved_retry
  ac_waiters :: nat
  ac_armed :: "nat list"
  ac_attempting :: nat
  ac_dispatched :: "nat list"
  ac_opened :: nat
  ac_nextTimer :: nat
  ac_out :: "conn_out list"

definition new_connection :: "retry_config \<Rightarrow> amqp_connection" where
  "new_connection c = \<lparr> ac_conn = None, ac_connPromise = None, ac_closed = False,
     ac_reconnectAttempt = 0, ac_reconnectTimer = None, ac_reconnectPending = False,
     ac_listeners = [], ac_retry = resolve_retry c, ac_waiters = 0, ac_armed = [],
     ac_attempting = 0, ac_dispatched = [], ac_opened = 0, ac_nextTimer = 0, ac_out = [] \<rparr>"

definition emit :: "conn_out list \<Rightarrow> amqp_connection \<Rightarrow> amqp_connection" where
  "emit os s = s\<lparr>ac_out := ac_out s @ os\<rparr>"

definition backoff_of :: "amqp_connection \<Rightarrow> nat \<Rightarrow> real" where
  "backoff_of s n = computeBackoffMs (real n) (rr_baseMs (ac_retry s)) (rr_maxMs (ac_retry s))"

section \<open>Operations\<close>

definition getConnection :: "amqp_connection \<Rightarrow> amqp_connection" where
  "getConnection s =
     (if ac_closed s then emit [ReplyErr ConnectionClosedError] s
      else case ac_conn s of
        Some c \<Rightarrow> emit [ReplyConn c] s
      | None \<Rightarrow>
          (case ac_connPromise s of
             Some _ \<Rightarrow> s\<lparr>ac_waiters := Suc (ac_waiters s)\<rparr>
           | None \<Rightarrow>
               if rr_maxInitialRetries (ac_retry s) = 0 then emit [ReplyErr UndefinedError] s
               else emit [ConnectCall] (s\<lparr>ac_connPromise := Some (AwaitConnect 0), ac_waiters := 1\<rparr>)))"

text \<open>
  One iteration of the loop of \<open>connectWithInitialRetry\<close> after \<open>connectRedacted\<close>
  settles: success binds the events, resets the counter, and resolves the shared
  promise, whose continuation stores the connection; a failure sleeps and tries again
  while attempts are left, else the last error rejects every waiter.
\<close>

definition initialConnected :: "amqp_connection \<Rightarrow> amqp_connection" where
  "initialConnected s =
     (case ac_connPromise s of
        Some (AwaitConnect i) \<Rightarrow>
          emit (replicate (ac_waiters s) (ReplyConn (ac_opened s)))
            (s\<lparr>ac_conn := Some (ac_opened s), ac_opened := Suc (ac_opened s),
               ac_reconnectAttempt := 0, ac_connPromise := None, ac_waiters := 0\<rparr>)
      | _ \<Rightarrow> s)"

definition initialFailed :: "string \<Rightarrow> amqp_connection \<Rightarrow> amqp_connection" where
  "initialFailed err s =
     (case ac_connPromise s of
        Some (AwaitConnect i) \<Rightarrow>
          (if Suc i < rr_maxInitialRetries (ac_retry s)
           then emit [SleepFor (backoff_of s (Suc i))] (s\<lparr>ac_connPromise := Some (Sleeping i)\<rparr>)
           else emit (replicate (ac_waiters s) (ReplyErr (AmqpConnectError err)))
                  (s\<lparr>ac_connPromise := None, ac_waiters := 0\<rparr>))
      | _ \<Rightarrow> s)"

definition sleepDone :: "amqp_connection \<Rightarrow> amqp_connection" where
  "sleepDone s =
     (case ac_connPromise s of
        Some (Sleeping i) \<Rightarrow> emit [ConnectCall] (s\<lparr>ac_connPromise := Some (AwaitConnect (Suc i))\<rparr>)
      | _ \<Rightarrow> s)"

definition scheduleReconnect :: "amqp_connection \<Rightarrow> amqp_connection" where
  "scheduleReconnect s =
     (if ac_reconnectPending s then s
      else let n = Suc (ac_reconnectAttempt s); t = ac_nextTimer s in
        emit [ArmTimer t (backoff_of s n)]
          (s\<lparr>ac_reconnectPending := True, ac_reconnectAttempt := n, ac_reconnectTimer := Some t,
             ac_armed := ac_armed s @ [t], ac_nextTimer := Suc t\<rparr>))"

text \<open>
  The callback bound to \<open>close\<close> and \<open>error\<close> of connection \<open>c\<close>; \<open>markLost\<close> is its
  assignments before the test of \<open>closed\<close>.
\<close>

definition markLost :: "nat \<Rightarrow> amqp_connection \<Rightarrow> amqp_connection" where
  "markLost c s = s\<lparr>ac_dispatched := c # ac_dispatched s,
                    ac_conn := (if ac_conn s = Some c then None else ac_conn s)\<rparr>"

definition handleLoss :: "nat \<Rightarrow> amqp_connection \<Rightarrow> amqp_connection" where
  "handleLoss c s =
     (if \<not> c < ac_opened s \<or> c \<in> set (ac_dispatched s) then s
      else let s1 = markLost c s
           in if \<not> ac_closed s1 then scheduleReconnect s1 else s1)"

definition reconnectTimerFires :: "nat \<Rightarrow> amqp_connection \<Rightarrow> amqp_connection" where
  "reconnectTimerFires t s =
     (if t \<notin> set (ac_armed s) then s
      else let s1 = s\<lparr>ac_armed := removeAll t (ac_armed s), ac_reconnectTimer := None,
                      ac_reconnectPending := False\<rparr>
           in if ac_closed s1 then s1
              else emit [ConnectCall] (s1\<lparr>ac_attempting := Suc (ac_attempting s1)\<rparr>))"

definition fireReconnectListeners :: "amqp_connection \<Rightarrow> amqp_connection" where
  "fireReconnectListeners s = emit (map Notify (ac_listeners s)) s"

definition reconnectSucceeded :: "amqp_connection \<Rightarrow> amqp_connection" where
  "reconnectSucceeded s =
     (if ac_attempting s = 0 then s
      else let c = ac_opened s;
               s1 = s\<lparr>ac_attempting := ac_attempting s - 1, ac_opened := Suc c\<rparr>
           in if ac_closed s1 then emit [CloseConn c] s1
              else fireReconnectListeners (s1\<lparr>ac_conn := Some c, ac_reconnectAttempt := 0\<rparr>))"

definition reconnectFailed :: "amqp_connection \<Rightarrow> amqp_connection" where
  "reconnectFailed s =
     (if ac_attempting s = 0 then s
      else let s1 = s\<lparr>ac_attempting := ac_attempting s - 1\<rparr>
           in if ac_closed s1 then s1 else scheduleReconnect s1)"

definition closeConnection :: "amqp_connection \<Rightarrow> amqp_connection" where
  "closeConnection s =
     (if ac_closed s then s
      else let s1 = s\<lparr>ac_closed := True\<rparr>;
               s2 = (case ac_reconnectTimer s1 of
                       None \<Rightarrow> s1
                     | Some t \<Rightarrow> s1\<lparr>ac_armed := removeAll t (ac_armed s1), ac_reconnectTimer := None\<rparr>);
               c = ac_conn s2;
               s3 = s2\<lparr>ac_conn := None\<rparr>
           in case c of None \<Rightarrow> s3 | Some k \<Rightarrow> emit [CloseConn k] s3)"

definition onReconnect :: "nat \<Rightarrow> amqp_connection \<Rightarrow> amqp_connection" where
  "onReconnect cb s = s\<lparr>ac_listeners := ac_listeners s @ [cb]\<rparr>"

section \<open>The machine\<close>

datatype conn_event =
    GetConnection
  | InitialConnected
  | InitialFailed string
  | SleepDone
  | Lost nat
  | ReconnectTimerFires nat
  | ReconnectSucceeded
  | ReconnectFailed
  | CloseConnection
  | OnReconnect nat

fun conn_step :: "conn_event \<Rightarrow> amqp_connection \<Rightarrow> amqp_connection" where
  "conn_step GetConnection s = getConnection s"
| "conn_step InitialConnected s = initialConnected s"
| "conn_step (InitialFailed e) s = initialFailed e s"
| "conn_step SleepDone s = sleepDone s"
| "conn_step (Lost c) s = handleLoss c s"
| "conn_step (ReconnectTimerFires t) s = reconnectTimerFires t s"
| "conn_step ReconnectSucceeded s = reconnectSucceeded s"
| "conn_step ReconnectFailed s = reconnectFailed s"
| "conn_step CloseConnection s = closeConnection s"
| "conn_step (OnReconnect cb) s = onReconnect cb s"

abbreviation conn_run :: "retry_config \<Rightarrow> conn_event list \<Rightarrow> amqp_connection" where
  "conn_run c es \<equiv> fold conn_step es (new_connection c)"

lemmas conn_op_defs = getConnection_def initialConnected_def initialFailed_def sleepDone_def
  scheduleReconnect_def markLost_def handleLoss_def reconnectTimerFires_def fireReconnectListeners_def
  reconnectSucceeded_def reconnectFailed_def closeConnection_def onReconnect_def emit_def
  new_connection_def

section \<open>The invariant\<close>

text \<open>
  The timer handle and the event loop agree, so at most one reconnect timer is armed;
  a pending reconnect of an open object always has its timer; a closed object has
  none; the current connection is one that was opened and not reported lost; the
  initial-connect loop stays within its bound; and an open object that lost a
  connection and has none is on its way to a new one.
\<close>

definition timer_ok :: "nat list \<Rightarrow> nat option \<Rightarrow> bool \<Rightarrow> bool \<Rightarrow> bool" where
  "timer_ok armed timer pending isClosed \<longleftrightarrow>
     armed = (case timer of None \<Rightarrow> [] | Some t \<Rightarrow> [t]) \<and>
     (timer \<noteq> None \<longrightarrow> pending \<and> \<not> isClosed) \<and>
     (pending \<and> \<not> isClosed \<longrightarrow> timer \<noteq> None)"

definition timer_inv :: "amqp_connection \<Rightarrow> bool" where
  "timer_inv s \<longleftrightarrow>
     timer_ok (ac_armed s) (ac_reconnectTimer s) (ac_reconnectPending s) (ac_closed s)"

fun loop_ok :: "connect_phase option \<Rightarrow> nat \<Rightarrow> bool" where
  "loop_ok None m = True"
| "loop_ok (Some (AwaitConnect i)) m = (i < m)"
| "loop_ok (Some (Sleeping i)) m = (Suc i < m)"

definition loop_inv :: "amqp_connection \<Rightarrow> bool" where
  "loop_inv s \<longleftrightarrow> loop_ok (ac_connPromise s) (rr_maxInitialRetries (ac_retry s))"

definition recovery_ok :: "nat option \<Rightarrow> nat list \<Rightarrow> nat \<Rightarrow> bool \<Rightarrow> nat option \<Rightarrow> nat \<Rightarrow> bool" where
  "recovery_ok conn dispatched opened isClosed timer attempting \<longleftrightarrow>
     (\<forall>c. conn = Some c \<longrightarrow> c < opened \<and> c \<notin> set dispatched) \<and>
     (\<forall>c \<in> set dispatched. c < opened) \<and>
     (\<not> isClosed \<and> conn = None \<and> dispatched \<noteq> [] \<longrightarrow> timer \<noteq> None \<or> 0 < attempting)"

definition recovery_inv :: "amqp_connection \<Rightarrow> bool" where
  "recovery_inv s \<longleftrightarrow> recovery_ok (ac_conn s) (ac_dispatched s) (ac_opened s) (ac_closed s)
     (ac_reconnectTimer s) (ac_attempting s)"

definition conn_inv :: "amqp_connection \<Rightarrow> bool" where
  "conn_inv s \<longleftrightarrow> timer_inv s \<and> loop_inv s \<and> recovery_inv s"

text \<open>Each operation keeps each part; the parts that do not read the log ignore \<open>emit\<close>.\<close>

lemma inv_emit [simp]:
  "timer_inv (emit os s) = timer_inv s" "loop_inv (emit os s) = loop_inv s"
  "recovery_inv (emit os s) = recovery_inv s"
  by (simp_all add: timer_inv_def loop_inv_def recovery_inv_def emit_def)

lemma timer_inv_schedule: "timer_inv s \<Longrightarrow> \<not> ac_closed s \<Longrightarrow> timer_inv (scheduleReconnect s)"
  by (cases "ac_reconnectTimer s")
    (simp_all add: scheduleReconnect_def timer_inv_def timer_ok_def emit_def Let_def)

lemma markLost_frame [simp]:
  "timer_inv (markLost c s) = timer_inv s" "loop_inv (markLost c s) = loop_inv s"
  "ac_closed (markLost c s) = ac_closed s" "ac_opened (markLost c s) = ac_opened s"
  "ac_dispatched (markLost c s) = c # ac_dispatched s" "ac_attempting (markLost c s) = ac_attempting s"
  "ac_reconnectTimer (markLost c s) = ac_reconnectTimer s"
  "ac_conn (markLost c s) = (if ac_conn s = Some c then None else ac_conn s)"
  by (simp_all add: markLost_def timer_inv_def loop_inv_def)

lemma attempting_frame [simp]:
  "timer_inv (s\<lparr>ac_attempting := n\<rparr>) = timer_inv s" "loop_inv (s\<lparr>ac_attempting := n\<rparr>) = loop_inv s"
  by (simp_all add: timer_inv_def loop_inv_def)

lemma timer_inv_step: "timer_inv s \<Longrightarrow> timer_inv (conn_step e s)"
proof (cases e)
  case (Lost c)
  assume "timer_inv s"
  with Lost show ?thesis by (simp add: handleLoss_def Let_def timer_inv_schedule)
next
  case (ReconnectTimerFires t)
  assume "timer_inv s"
  with ReconnectTimerFires show ?thesis
    by (cases "ac_reconnectTimer s")
      (simp_all add: reconnectTimerFires_def timer_inv_def timer_ok_def emit_def Let_def)
next
  case ReconnectFailed
  assume "timer_inv s"
  with ReconnectFailed show ?thesis by (simp add: reconnectFailed_def Let_def timer_inv_schedule)
next
  case CloseConnection
  assume "timer_inv s"
  with CloseConnection show ?thesis
    by (cases "ac_reconnectTimer s")
      (simp_all add: closeConnection_def timer_inv_def timer_ok_def emit_def Let_def split: option.split)
qed (auto simp: getConnection_def initialConnected_def initialFailed_def sleepDone_def
      fireReconnectListeners_def reconnectSucceeded_def onReconnect_def emit_def timer_inv_def Let_def
      split: option.split connect_phase.split)

lemma loop_inv_schedule [simp]: "loop_inv (scheduleReconnect s) = loop_inv s"
  by (simp add: scheduleReconnect_def loop_inv_def emit_def Let_def)

lemma loop_inv_step: "loop_inv s \<Longrightarrow> loop_inv (conn_step e s)"
proof (cases e)
  case (Lost c)
  assume "loop_inv s"
  with Lost show ?thesis by (simp add: handleLoss_def Let_def)
next
  case ReconnectFailed
  assume "loop_inv s"
  with ReconnectFailed show ?thesis by (simp add: reconnectFailed_def Let_def)
next
  case CloseConnection
  assume "loop_inv s"
  with CloseConnection show ?thesis
    by (simp add: loop_inv_def closeConnection_def emit_def Let_def split: option.split)
next
  case (ReconnectTimerFires t)
  assume "loop_inv s"
  with ReconnectTimerFires show ?thesis
    by (simp add: loop_inv_def reconnectTimerFires_def emit_def Let_def)
next
  case ReconnectSucceeded
  assume "loop_inv s"
  with ReconnectSucceeded show ?thesis
    by (simp add: loop_inv_def reconnectSucceeded_def fireReconnectListeners_def emit_def Let_def)
qed (cases "(ac_connPromise s, rr_maxInitialRetries (ac_retry s))" rule: loop_ok.cases;
     simp add: getConnection_def initialConnected_def initialFailed_def sleepDone_def
       onReconnect_def emit_def loop_inv_def split: option.split)+

text \<open>
  Scheduling is what restores the recovery clause: whatever the connection, afterwards
  a reconnect timer is armed.
\<close>

lemma schedule_arms:
  "timer_inv s \<Longrightarrow> \<not> ac_closed s \<Longrightarrow> ac_reconnectTimer (scheduleReconnect s) \<noteq> None"
  by (simp add: scheduleReconnect_def timer_inv_def timer_ok_def emit_def Let_def)

lemma schedule_frame [simp]:
  "ac_conn (scheduleReconnect s) = ac_conn s" "ac_dispatched (scheduleReconnect s) = ac_dispatched s"
  "ac_attempting (scheduleReconnect s) = ac_attempting s"
  "ac_opened (scheduleReconnect s) = ac_opened s" "ac_closed (scheduleReconnect s) = ac_closed s"
  by (simp_all add: scheduleReconnect_def emit_def Let_def)

lemma recovery_ok_set:
  "recovery_ok c d n cl t a \<Longrightarrow> recovery_ok (Some n) d (Suc n) cl t' a'"
  by (auto simp: recovery_ok_def less_Suc_eq)

lemma recovery_ok_more:
  "recovery_ok c d n cl t a \<Longrightarrow> \<not> cl \<Longrightarrow> t' \<noteq> None \<or> 0 < a' \<Longrightarrow> recovery_ok c d n cl t' a'"
  by (auto simp: recovery_ok_def)

lemma recovery_ok_closed:
  "recovery_ok c d n cl t a \<Longrightarrow> recovery_ok None d n True t' a'"
  "recovery_ok c d n True t a \<Longrightarrow> n \<le> n' \<Longrightarrow> recovery_ok c d n' True t' a'"
  by (fastforce simp: recovery_ok_def)+

lemma recovery_inv_step:
  assumes "timer_inv s" "recovery_inv s"
  shows "recovery_inv (conn_step e s)"
proof (cases e)
  case (Lost c)
  have "\<not> ac_closed s \<Longrightarrow> ac_reconnectTimer (scheduleReconnect (markLost c s)) \<noteq> None"
    using schedule_arms [of "markLost c s"] assms(1) by simp
  with Lost assms(2) show ?thesis
    by (cases "ac_conn s = Some c")
      (auto simp: handleLoss_def Let_def recovery_inv_def recovery_ok_def)
next
  case ReconnectFailed
  let ?s1 = "s\<lparr>ac_attempting := ac_attempting s - 1\<rparr>"
  have "\<not> ac_closed s \<Longrightarrow> ac_reconnectTimer (scheduleReconnect ?s1) \<noteq> None"
    using schedule_arms [of ?s1] assms(1) by simp
  with ReconnectFailed assms(2) show ?thesis
    by (auto simp: reconnectFailed_def Let_def recovery_inv_def
        intro: recovery_ok_more recovery_ok_closed(2) [OF _ order.refl])
next
  case ReconnectSucceeded
  with assms(2) show ?thesis
    using recovery_ok_set recovery_ok_closed(2)
    by (simp add: reconnectSucceeded_def fireReconnectListeners_def emit_def Let_def recovery_inv_def)
      fastforce
next
  case InitialConnected
  with assms(2) show ?thesis
    by (simp add: initialConnected_def emit_def recovery_inv_def recovery_ok_set
        split: option.split connect_phase.split)
next
  case CloseConnection
  with assms(2) show ?thesis
    by (auto simp: closeConnection_def emit_def Let_def recovery_inv_def recovery_ok_closed
        split: option.split)
next
  case (ReconnectTimerFires t)
  with assms(2) show ?thesis
    by (auto simp: reconnectTimerFires_def emit_def Let_def recovery_inv_def
        intro: recovery_ok_more recovery_ok_closed(2) [OF _ order.refl])
qed (use assms(2) in \<open>auto simp: getConnection_def initialFailed_def sleepDone_def
      onReconnect_def emit_def recovery_inv_def split: option.split connect_phase.split\<close>)

lemma conn_inv_new: "conn_inv (new_connection c)"
  by (simp add: conn_inv_def timer_inv_def timer_ok_def loop_inv_def recovery_inv_def recovery_ok_def new_connection_def)

interpretation connm: machine "new_connection c" conn_step conn_inv for c
  by unfold_locales
    (fact conn_inv_new, simp add: conn_inv_def timer_inv_step loop_inv_step recovery_inv_step)

section \<open>Properties\<close>

lemma inv_recovers:
  assumes "timer_inv s" "recovery_inv s" "\<not> ac_closed s" "ac_dispatched s \<noteq> []" "ac_conn s = None"
  shows "(\<exists>t. ac_armed s = [t] \<and> ac_reconnectTimer s = Some t) \<or> 0 < ac_attempting s"
  using assms
  by (cases "ac_reconnectTimer s") (simp_all add: timer_inv_def timer_ok_def recovery_inv_def recovery_ok_def)


definition default_retry :: retry_config where
  "default_retry = \<lparr>rc_baseMs = None, rc_maxMs = None, rc_maxInitialRetries = None\<rparr>"


text \<open>
  After \<open>close()\<close> with no initial connect in flight the object stays disconnected:
  \<open>quiet\<close> is kept by every event.
\<close>

definition quiet :: "amqp_connection \<Rightarrow> bool" where
  "quiet s \<longleftrightarrow> ac_closed s \<and> ac_conn s = None \<and> ac_connPromise s = None \<and> ac_armed s = []"

lemma quiet_step: "quiet s \<Longrightarrow> quiet (conn_step e s)"
  by (cases e) (simp_all add: quiet_def conn_op_defs Let_def split: option.split)

lemma quiet_fold: "quiet s \<Longrightarrow> quiet (fold conn_step es s)"
  by (induction es arbitrary: s) (simp_all add: quiet_step)

lemma quiet_close:
  assumes "conn_inv s" "ac_connPromise s = None" "\<not> ac_closed s"
  shows "quiet (closeConnection s)"
  using assms
  by (cases "ac_reconnectTimer s")
    (auto simp: quiet_def closeConnection_def emit_def Let_def conn_inv_def timer_inv_def timer_ok_def
      recovery_inv_def split: option.split)

text \<open>Result: \<open>close()\<close> on an open object with no initial connect in flight is final: after
  any further events (late reconnect answers, socket events, new callers) it holds no
  connection and no reconnect timer.\<close>

theorem close_is_final:
  assumes "\<not> ac_closed (conn_run c es)" "ac_connPromise (conn_run c es) = None"
  shows "let s = fold conn_step (CloseConnection # es') (conn_run c es) in
           ac_closed s \<and> ac_conn s = None \<and> ac_armed s = []"
proof -
  have "quiet (closeConnection (conn_run c es))"
    using assms connm.inv_run by (intro quiet_close) auto
  then have "quiet (fold conn_step es' (closeConnection (conn_run c es)))"
    by (rule quiet_fold)
  then show ?thesis by (simp add: quiet_def Let_def)
qed

theorem close_is_final_witness:
  "ac_conn (fold conn_step [CloseConnection, Lost 0, GetConnection]
     (conn_run default_retry [GetConnection, InitialConnected])) = None"
  using close_is_final [of "[GetConnection, InitialConnected]" default_retry "[Lost 0, GetConnection]"]
  by (simp add: Let_def conn_op_defs resolve_retry_def default_retry_def)

text \<open>
  The hypothesis on the initial connect is needed. \<open>attemptReconnect\<close> looks at \<open>closed\<close>
  after its \<open>await\<close>, \<open>getConnection\<close> does not: a connection that arrives after \<open>close()\<close>
  is stored, and nothing ever closes it.
\<close>

definition leaked :: "amqp_connection \<Rightarrow> bool" where
  "leaked s \<longleftrightarrow> ac_closed s \<and> 0 < ac_opened s \<and> CloseConn 0 \<notin> set (ac_out s)"

lemma leaked_step: "leaked s \<Longrightarrow> leaked (conn_step e s)"
  by (cases e) (auto simp: leaked_def conn_op_defs Let_def split: option.split connect_phase.split)

lemma leaked_fold: "leaked s \<Longrightarrow> leaked (fold conn_step es s)"
  by (induction es arbitrary: s) (simp_all add: leaked_step)

text \<open>Result: a \<open>close()\<close> that overtakes the initial connect leaks the connection: whatever
  happens afterwards, the connection opened for the waiting caller is never closed,
  although the object reports itself closed.\<close>

theorem close_during_connect_leaks:
  "let s = fold conn_step es (conn_run default_retry [GetConnection, CloseConnection, InitialConnected]) in
     ac_closed s \<and> 0 < ac_opened s \<and> CloseConn 0 \<notin> set (ac_out s)"
proof -
  have "leaked (conn_run default_retry [GetConnection, CloseConnection, InitialConnected])"
    by (simp add: leaked_def conn_op_defs Let_def resolve_retry_def default_retry_def)
  from leaked_fold [OF this, of es] show ?thesis by (simp add: leaked_def Let_def)
qed

section \<open>The initial connect and its bound\<close>

definition sleeps :: "conn_out list \<Rightarrow> real list" where
  "sleeps os = concat (map (\<lambda>x. case x of SleepFor d \<Rightarrow> [d] | _ \<Rightarrow> []) os)"

definition connect_calls :: "conn_out list \<Rightarrow> nat" where
  "connect_calls os = length (filter (\<lambda>x. x = ConnectCall) os)"

lemma log_append [simp]:
  "sleeps (a @ b) = sleeps a @ sleeps b" "connect_calls (a @ b) = connect_calls a + connect_calls b"
  by (simp_all add: sleeps_def connect_calls_def)

lemma log_cons [simp]:
  "sleeps (ConnectCall # a) = sleeps a" "sleeps (SleepFor d # a) = d # sleeps a"
  "sleeps (ReplyErr x # a) = sleeps a"
  "connect_calls (ConnectCall # a) = Suc (connect_calls a)" "connect_calls (SleepFor d # a) = connect_calls a"
  "connect_calls (ReplyErr x # a) = connect_calls a" "sleeps [] = []" "connect_calls [] = 0"
  by (simp_all add: sleeps_def connect_calls_def)

definition all_fail :: "string list \<Rightarrow> conn_event list" where
  "all_fail errs = concat (map (\<lambda>e. [InitialFailed e, SleepDone]) errs)"

lemma initial_exhausts_from:
  assumes "ac_connPromise s = Some (AwaitConnect i)" "errs \<noteq> []" "ac_waiters s = 1"
    and "i + length errs = rr_maxInitialRetries (ac_retry s)"
  shows "let s' = fold conn_step (all_fail errs) s in
     ac_connPromise s' = None \<and> ac_conn s' = ac_conn s \<and>
     last (ac_out s') = ReplyErr (AmqpConnectError (last errs)) \<and>
     connect_calls (ac_out s') = connect_calls (ac_out s) + (length errs - 1) \<and>
     sleeps (ac_out s') = sleeps (ac_out s) @ map (backoff_of s) [Suc i ..< i + length errs]"
  using assms
proof (induction errs arbitrary: s i)
  case Nil
  then show ?case by simp
next
  case (Cons e errs)
  show ?case
  proof (cases errs)
    case Nil
    with Cons.prems show ?thesis
      by (simp add: all_fail_def initialFailed_def sleepDone_def emit_def)
  next
    case (Cons e' errs')
    let ?s = "sleepDone (initialFailed e s)"
    have st: "ac_connPromise ?s = Some (AwaitConnect (Suc i))" "ac_waiters ?s = 1"
      "ac_retry ?s = ac_retry s" "ac_conn ?s = ac_conn s"
      "ac_out ?s = ac_out s @ [SleepFor (backoff_of s (Suc i)), ConnectCall]"
      using Cons.prems Cons by (simp_all add: initialFailed_def sleepDone_def emit_def)
    have bo: "backoff_of ?s = backoff_of s" by (simp add: backoff_of_def st fun_eq_iff)
    have len: "Suc i + length errs = rr_maxInitialRetries (ac_retry ?s)"
      using Cons.prems by (simp add: st)
    have "[Suc i ..< i + length (e # errs)] = Suc i # [Suc (Suc i) ..< Suc i + length errs]"
      using Cons upt_conv_Cons [of "Suc i" "i + length (e # errs)"] by simp
    with Cons.IH [OF st(1) _ st(2) len] Cons bo show ?thesis
      by (simp add: all_fail_def st Let_def)
  qed
qed

text \<open>Result: a first \<open>getConnection()\<close> whose every attempt fails makes exactly
  \<open>maxInitialRetries\<close> connect calls, sleeps the backoff of attempts 1, 2, ... between
  them, never longer in total than the cap times their number, and rejects with the
  last error, leaving no connect in flight.\<close>

theorem initial_connect_exhausts:
  assumes "length errs = rr_maxInitialRetries (resolve_retry c)" "errs \<noteq> []"
    and "0 \<le> rr_maxMs (resolve_retry c)"
  shows "let s = conn_run c (GetConnection # all_fail errs) in
     connect_calls (ac_out s) = rr_maxInitialRetries (resolve_retry c) \<and>
     sleeps (ac_out s) = map (backoff_of s) [1 ..< length errs] \<and>
     sum_list (sleeps (ac_out s)) \<le> real (length errs - 1) * rr_maxMs (resolve_retry c) \<and>
     last (ac_out s) = ReplyErr (AmqpConnectError (last errs)) \<and>
     ac_connPromise s = None \<and> ac_conn s = None"
proof -
  let ?u = "getConnection (new_connection c)" and ?s = "conn_run c (GetConnection # all_fail errs)"
  let ?r = "resolve_retry c"
  have st: "ac_connPromise ?u = Some (AwaitConnect 0)" "ac_waiters ?u = 1" "ac_conn ?u = None"
    "ac_out ?u = [ConnectCall]" "ac_retry ?u = ?r"
    using assms length_greater_0_conv [of errs] by (simp_all add: getConnection_def new_connection_def emit_def)
  have run: "ac_connPromise ?s = None" "ac_conn ?s = None"
    "last (ac_out ?s) = ReplyErr (AmqpConnectError (last errs))"
    "connect_calls (ac_out ?s) = 1 + (length errs - 1)"
    "sleeps (ac_out ?s) = map (backoff_of ?u) [1 ..< length errs]"
    using initial_exhausts_from [of ?u 0 errs] st assms by (simp_all add: Let_def)
  have keep: "ac_retry (fold conn_step (all_fail es) v) = ac_retry v" for es v
    by (induction es arbitrary: v)
      (simp_all add: all_fail_def initialFailed_def sleepDone_def emit_def
        split: option.split connect_phase.split)
  then have "backoff_of ?s = backoff_of ?u" by (simp add: backoff_of_def fun_eq_iff)
  moreover have "backoff_of ?u = (\<lambda>n. computeBackoffMs (real n) (rr_baseMs ?r) (rr_maxMs ?r))"
    by (simp add: backoff_of_def st(5) fun_eq_iff)
  then have "sum_list (map (backoff_of ?u) [1 ..< length errs])
      \<le> real (length errs - 1) * rr_maxMs ?r"
    using retry.total_delay_le [of "rr_maxMs ?r" "rr_baseMs ?r" "map real [1 ..< length errs]"] assms
    by (simp add: o_def)
  ultimately show ?thesis
    using run assms length_greater_0_conv [of errs] by (simp add: Let_def)
qed

theorem initial_connect_exhausts_witness:
  "last (ac_out (conn_run default_retry (GetConnection # all_fail [''a'', ''b'', ''c'', ''d'', ''e''])))
     = ReplyErr (AmqpConnectError ''e'')"
  using initial_connect_exhausts [of "[''a'', ''b'', ''c'', ''d'', ''e'']" default_retry]
  by (simp add: Let_def resolve_retry_def default_retry_def)

end
