(* ===== verification/Consumer.thy ===== *)
theory Consumer
  imports Retry
begin

text \<open>
  \<open>packages/messaging/src/consumer.ts\<close> (class \<open>AmqpConsumer\<close>) with the option and
  context types of \<open>types.ts\<close> and the exchange names of \<open>exchanges.ts\<close>. The state holds
  the source's fields and what is suspended at an \<open>await\<close>: handler calls and
  publish confirmations by their in-flight token, the channel set-up of \<open>consume()\<close> and
  of \<open>reestablish()\<close>, and the phase of \<open>doShutdown\<close>. Channels are numbered as they are
  opened; a dead channel makes amqplib's \<open>ack\<close>, \<open>nack\<close> and \<open>publish\<close> throw. Every outside
  call is logged. \<open>JSON.parse\<close> on the payload is a parameter.
\<close>

section \<open>Exchanges, options, messages\<close>

definition EXCHANGES :: "(string \<times> string) list" where
  "EXCHANGES = [(''email'', ''bms.email''), (''events'', ''bms.events''), (''leads'', ''bms.leads''),
     (''campaigns'', ''bms.campaigns''), (''triggers'', ''bms.triggers''), (''push'', ''bms.push''),
     (''whatsapp'', ''bms.whatsapp''), (''sms'', ''bms.sms''), (''tags'', ''bms.tags''),
     (''analytics'', ''bms.analytics'')]"

definition DLX :: string where
  "DLX = ''bms.dlx''"

datatype handler_result = HAck | HNack | HRequeue | HVoid

text \<open>How a handler call settles; a thrown value is given by \<open>errorToString\<close> of it.\<close>

datatype handler_outcome = Returned handler_result | Threw string | ThrewUndefined

record consumer_options =
  co_exchange :: string
  co_routingKey :: string
  co_queue :: string
  co_prefetch :: "nat option"
  co_maxRetries :: "real option"
  co_backoffBaseMs :: "real option"
  co_backoffMaxMs :: "real option"

type_synonym headers = "(string \<times> jsval) list"

record message =
  m_routingKey :: string
  m_content :: string
  m_headers :: headers
  m_contentType :: "string option"
  m_deliveryMode :: "nat option"

record message_context =
  mc_attempt :: real
  mc_headers :: headers
  mc_routingKey :: string
  mc_queue :: string

record publication =
  p_exchange :: string
  p_routingKey :: string
  p_content :: string
  p_persistent :: bool
  p_contentType :: string
  p_headers :: headers

section \<open>Pure helpers\<close>

definition DEFAULT_PREFETCH :: nat where "DEFAULT_PREFETCH = 10"
definition DEFAULT_MAX_RETRIES :: real where "DEFAULT_MAX_RETRIES = 5"
definition DEFAULT_BACKOFF_BASE_MS :: real where "DEFAULT_BACKOFF_BASE_MS = 1000"
definition DEFAULT_BACKOFF_MAX_MS :: real where "DEFAULT_BACKOFF_MAX_MS = 60000"

definition dflt :: "'a option \<Rightarrow> 'a \<Rightarrow> 'a" where
  "dflt x d = (case x of None \<Rightarrow> d | Some v \<Rightarrow> v)"

lemma dflt_simps [simp]: "dflt None d = d" "dflt (Some v) d = v"
  by (simp_all add: dflt_def)

definition parseAttempt :: "headers \<Rightarrow> real" where
  "parseAttempt h =
     (case obj_get h ''x-bms-attempt'' of
        JNum (Fin x) \<Rightarrow> if x \<ge> 1 then x else 1
      | JStr s \<Rightarrow> (case js_Number s of Fin n \<Rightarrow> if n \<ge> 1 then n else 1 | _ \<Rightarrow> 1)
      | _ \<Rightarrow> 1)"

definition firstErrorOf :: "headers \<Rightarrow> string option" where
  "firstErrorOf h = (case obj_get h ''x-bms-first-error'' of JStr s \<Rightarrow> Some s | _ \<Rightarrow> None)"

text \<open>A \<open>JBuf\<close> carries the text its bytes decode to.\<close>

fun coerceValue :: "jsval \<Rightarrow> jsval" where
  "coerceValue (JBuf t) = JStr t"
| "coerceValue (JArr vs) = JArr (map coerceValue vs)"
| "coerceValue v = v"

definition coerceHeaders :: "headers \<Rightarrow> headers" where
  "coerceHeaders h = map (\<lambda>(k, v). (k, coerceValue v)) h"

definition wasPersistent :: "message \<Rightarrow> bool" where
  "wasPersistent m \<longleftrightarrow> m_deliveryMode m = Some 2"

definition retryHeaders :: "headers \<Rightarrow> real \<Rightarrow> string \<Rightarrow> string \<Rightarrow> headers" where
  "retryHeaders h n firstError lastError =
     jsset ''x-bms-last-error'' (JStr lastError)
       (jsset ''x-bms-first-error'' (JStr firstError)
         (jsset ''x-bms-attempt'' (JNum (Fin n)) h))"

definition republication :: "consumer_options \<Rightarrow> message \<Rightarrow> real \<Rightarrow> string \<Rightarrow> string \<Rightarrow> publication" where
  "republication opts m nextAttempt firstError lastError =
     \<lparr>p_exchange = co_exchange opts, p_routingKey = m_routingKey m, p_content = m_content m,
      p_persistent = wasPersistent m, p_contentType = dflt (m_contentType m) ''application/json'',
      p_headers = retryHeaders (m_headers m) nextAttempt firstError lastError\<rparr>"

definition exhaustedPublication :: "message \<Rightarrow> real \<Rightarrow> string \<Rightarrow> string \<Rightarrow> publication" where
  "exhaustedPublication m attempt firstError lastError =
     \<lparr>p_exchange = DLX, p_routingKey = m_routingKey m, p_content = m_content m,
      p_persistent = wasPersistent m, p_contentType = dflt (m_contentType m) ''application/json'',
      p_headers = retryHeaders (m_headers m) attempt firstError lastError\<rparr>"

definition parseFailurePublication :: "message \<Rightarrow> string \<Rightarrow> publication" where
  "parseFailurePublication m err =
     \<lparr>p_exchange = DLX, p_routingKey = m_routingKey m, p_content = m_content m,
      p_persistent = wasPersistent m,
      p_contentType = dflt (m_contentType m) ''application/octet-stream'',
      p_headers = jsset ''x-bms-parse-error'' (JStr err) (m_headers m)\<rparr>"

definition retryDelay :: "consumer_options \<Rightarrow> real \<Rightarrow> real" where
  "retryDelay opts attempt = computeBackoffMs (attempt + 1)
     (dflt (co_backoffBaseMs opts) DEFAULT_BACKOFF_BASE_MS)
     (dflt (co_backoffMaxMs opts) DEFAULT_BACKOFF_MAX_MS)"

section \<open>State\<close>

datatype chan_cmd =
    AssertExchange string
  | AssertQueue string
  | BindQueue string string string
  | SetPrefetch nat
  | StartConsume string

text \<open>
  Log entries. A settlement names the channel it is sent on, the in-flight token of the
  \<open>handleMessage\<close> call that sends it, and the channel its message was delivered on.
\<close>

datatype con_out =
    ChanCmd nat chan_cmd
  | CallHandler nat jsval message_context
  | AckOut nat nat nat
  | NackOut nat nat nat bool
  | PublishRetry nat publication
  | PublishDlq nat publication
  | ArmRetry nat real
  | CancelConsume nat string
  | CloseChan nat
  | CloseConn
  | ConsumeRejected
  | UnhandledRejection nat

text \<open>What a \<open>handleMessage\<close> call is suspended at.\<close>

datatype inflight =
    InHandler message nat consumer_options real "string option"
  | InParseDlq nat
  | InExhaustedDlq nat

datatype chan_setup = AwaitChannel | AwaitConfirmChannel nat | AwaitCmds nat "chan_cmd list"

datatype shutdown_phase = ShCancel | ShDrain | ShCloseChannel | ShClosePublish | ShCloseConn | ShDone

record active_consume =
  a_options :: consumer_options
  a_consumeTag :: "string option"

record retry_timer =
  rt_message :: message
  rt_next :: real
  rt_first :: string
  rt_last :: string

record amqp_consumer =
  con_channel :: "nat option"
  con_publishChannel :: "nat option"
  con_active :: "active_consume option"
  con_inFlight :: "nat list"
  con_timers :: "(nat \<times> retry_timer) list"
  con_shuttingDown :: bool
  con_closed :: bool
  con_drainResolver :: bool
  con_reestablishing :: bool
  con_reconnectRegistered :: bool
  con_tasks :: "(nat \<times> inflight) list"
  con_setup :: "chan_setup option"
  con_reestablish :: "chan_setup option"
  con_shutdown :: "shutdown_phase option"
  con_dead :: "nat list"
  con_nextChan :: nat
  con_nextToken :: nat
  con_nextTimer :: nat
  con_out :: "con_out list"

definition new_consumer :: amqp_consumer where
  "new_consumer = \<lparr> con_channel = None, con_publishChannel = None, con_active = None,
     con_inFlight = [], con_timers = [], con_shuttingDown = False, con_closed = False,
     con_drainResolver = False, con_reestablishing = False, con_reconnectRegistered = False,
     con_tasks = [], con_setup = None, con_reestablish = None, con_shutdown = None,
     con_dead = [], con_nextChan = 0, con_nextToken = 0, con_nextTimer = 0, con_out = [] \<rparr>"

definition cemit :: "con_out \<Rightarrow> amqp_consumer \<Rightarrow> amqp_consumer" where
  "cemit x s = s\<lparr>con_out := con_out s @ [x]\<rparr>"

section \<open>Settling a delivery\<close>

definition safeAck :: "nat \<Rightarrow> nat \<Rightarrow> amqp_consumer \<Rightarrow> amqp_consumer" where
  "safeAck tok origin s =
     (case con_channel s of None \<Rightarrow> s
      | Some ch \<Rightarrow> if ch \<in> set (con_dead s) then s else cemit (AckOut ch tok origin) s)"

definition safeNack :: "nat \<Rightarrow> nat \<Rightarrow> bool \<Rightarrow> amqp_consumer \<Rightarrow> amqp_consumer" where
  "safeNack tok origin requeue s =
     (case con_channel s of None \<Rightarrow> s
      | Some ch \<Rightarrow> if ch \<in> set (con_dead s) then s else cemit (NackOut ch tok origin requeue) s)"

section \<open>Shutdown\<close>

text \<open>
  \<open>doShutdown\<close> after the drain: close the channel, then the publish channel, then the
  connection, skipping what is not there; each close is awaited and its failure
  swallowed, so the next part starts however it settles.
\<close>

definition closeConnPart :: "amqp_consumer \<Rightarrow> amqp_consumer" where
  "closeConnPart s = cemit CloseConn (s\<lparr>con_shutdown := Some ShCloseConn\<rparr>)"

definition closePublishPart :: "amqp_consumer \<Rightarrow> amqp_consumer" where
  "closePublishPart s =
     (case con_publishChannel s of
        Some p \<Rightarrow> cemit (CloseChan p) (s\<lparr>con_shutdown := Some ShClosePublish\<rparr>)
      | None \<Rightarrow> closeConnPart s)"

definition closeChannelPart :: "amqp_consumer \<Rightarrow> amqp_consumer" where
  "closeChannelPart s =
     (case con_channel s of
        Some ch \<Rightarrow> cemit (CloseChan ch) (s\<lparr>con_shutdown := Some ShCloseChannel\<rparr>)
      | None \<Rightarrow> closePublishPart s)"

definition waitForDrain :: "amqp_consumer \<Rightarrow> amqp_consumer" where
  "waitForDrain s =
     (if con_inFlight s = [] \<and> con_timers s = [] then closeChannelPart s
      else s\<lparr>con_drainResolver := True, con_shutdown := Some ShDrain\<rparr>)"

definition callDrainResolver :: "amqp_consumer \<Rightarrow> amqp_consumer" where
  "callDrainResolver s =
     (if con_drainResolver s \<and> con_inFlight s = [] \<and> con_timers s = []
      then closeChannelPart (s\<lparr>con_drainResolver := False\<rparr>) else s)"

definition drainTimeout :: "amqp_consumer \<Rightarrow> amqp_consumer" where
  "drainTimeout s =
     (if con_shutdown s = Some ShDrain
      then closeChannelPart (s\<lparr>con_drainResolver := False, con_timers := []\<rparr>) else s)"

definition shutdown :: "amqp_consumer \<Rightarrow> amqp_consumer" where
  "shutdown s =
     (if con_shutdown s \<noteq> None then s
      else let s1 = s\<lparr>con_shuttingDown := True\<rparr> in
        (case (con_channel s1, Option.bind (con_active s1) a_consumeTag) of
           (Some ch, Some tag) \<Rightarrow> cemit (CancelConsume ch tag) (s1\<lparr>con_shutdown := Some ShCancel\<rparr>)
         | _ \<Rightarrow> waitForDrain s1))"

text \<open>An awaited call of \<open>doShutdown\<close> has settled, one way or the other.\<close>

definition shutdownResume :: "amqp_consumer \<Rightarrow> amqp_consumer" where
  "shutdownResume s =
     (case con_shutdown s of
        Some ShCancel \<Rightarrow> waitForDrain s
      | Some ShCloseChannel \<Rightarrow> closePublishPart (s\<lparr>con_channel := None\<rparr>)
      | Some ShClosePublish \<Rightarrow> closeConnPart (s\<lparr>con_publishChannel := None\<rparr>)
      | Some ShCloseConn \<Rightarrow> s\<lparr>con_closed := True, con_shutdown := Some ShDone\<rparr>
      | _ \<Rightarrow> s)"

section \<open>Handling a message\<close>

text \<open>The \<open>finally\<close> of \<open>handleMessage\<close>.\<close>

definition finishHandling :: "nat \<Rightarrow> amqp_consumer \<Rightarrow> amqp_consumer" where
  "finishHandling tok s =
     callDrainResolver (s\<lparr>con_inFlight := removeAll tok (con_inFlight s),
                          con_tasks := AList.delete tok (con_tasks s)\<rparr>)"

text \<open>
  Publish to the dead-letter exchange and acknowledge once the broker confirms. With no
  publish channel nothing is published and the message is acknowledged; on a dead
  publish channel \<open>publish\<close> throws, and the rejection leaves \<open>handleMessage\<close>.
\<close>

definition publishDlqThenAck ::
  "nat \<Rightarrow> nat \<Rightarrow> publication \<Rightarrow> inflight \<Rightarrow> amqp_consumer \<Rightarrow> amqp_consumer" where
  "publishDlqThenAck tok origin p wait s =
     (case con_publishChannel s of
        None \<Rightarrow> finishHandling tok (safeAck tok origin s)
      | Some pc \<Rightarrow>
          if pc \<in> set (con_dead s) then finishHandling tok (cemit (UnhandledRejection tok) s)
          else cemit (PublishDlq pc p) (s\<lparr>con_tasks := AList.update tok wait (con_tasks s)\<rparr>))"

text \<open>From entry to the first \<open>await\<close>: register, parse, call the handler.\<close>

definition handleMessage ::
  "(string \<Rightarrow> string + jsval) \<Rightarrow> nat \<Rightarrow> message \<Rightarrow> amqp_consumer \<Rightarrow> amqp_consumer" where
  "handleMessage parse origin m s =
     (case (con_active s, con_channel s) of
        (Some act, Some ch) \<Rightarrow>
          (let tok = con_nextToken s; opts = a_options act;
               s1 = s\<lparr>con_nextToken := Suc tok, con_inFlight := con_inFlight s @ [tok]\<rparr>;
               attempt = parseAttempt (m_headers m) in
           (case parse (m_content m) of
              Inl err \<Rightarrow> publishDlqThenAck tok origin (parseFailurePublication m err) (InParseDlq origin) s1
            | Inr payload \<Rightarrow>
                cemit (CallHandler tok payload
                    \<lparr>mc_attempt = attempt, mc_headers = coerceHeaders (m_headers m),
                     mc_routingKey = m_routingKey m, mc_queue = co_queue opts\<rparr>)
                  (s1\<lparr>con_tasks := AList.update tok
                        (InHandler m origin opts attempt (firstErrorOf (m_headers m))) (con_tasks s1)\<rparr>)))
      | _ \<Rightarrow> s)"

definition retryOrDlq ::
  "nat \<Rightarrow> message \<Rightarrow> nat \<Rightarrow> real \<Rightarrow> string option \<Rightarrow> string \<Rightarrow> consumer_options \<Rightarrow> amqp_consumer \<Rightarrow> amqp_consumer"
where
  "retryOrDlq tok m origin attempt firstError errorMsg opts s =
     (let preservedFirstError = dflt firstError errorMsg in
      if attempt \<ge> dflt (co_maxRetries opts) DEFAULT_MAX_RETRIES
      then publishDlqThenAck tok origin
             (exhaustedPublication m attempt preservedFirstError errorMsg) (InExhaustedDlq origin) s
      else let s1 = safeAck tok origin s; t = con_nextTimer s1 in
        finishHandling tok
          (cemit (ArmRetry t (retryDelay opts attempt))
            (s1\<lparr>con_nextTimer := Suc t,
                con_timers := con_timers s1 @
                  [(t, \<lparr>rt_message = m, rt_next = attempt + 1,
                        rt_first = preservedFirstError, rt_last = errorMsg\<rparr>)]\<rparr>)))"

text \<open>The handler's promise settles.\<close>

definition handlerSettled :: "nat \<Rightarrow> handler_outcome \<Rightarrow> amqp_consumer \<Rightarrow> amqp_consumer" where
  "handlerSettled tok r s =
     (case map_of (con_tasks s) tok of
        Some (InHandler m origin opts attempt firstError) \<Rightarrow>
          (case r of
             Threw e \<Rightarrow> retryOrDlq tok m origin attempt firstError e opts s
           | Returned HRequeue \<Rightarrow> finishHandling tok (safeNack tok origin True s)
           | Returned HNack \<Rightarrow>
               retryOrDlq tok m origin attempt firstError ''handler returned nack'' opts s
           | Returned HAck \<Rightarrow> finishHandling tok (safeAck tok origin s)
           | Returned HVoid \<Rightarrow> finishHandling tok (safeAck tok origin s)
           | ThrewUndefined \<Rightarrow> finishHandling tok (safeAck tok origin s))
      | _ \<Rightarrow> s)"

text \<open>\<open>waitForConfirms()\<close> of a dead-letter publication settles.\<close>

definition dlqConfirmed :: "nat \<Rightarrow> bool \<Rightarrow> amqp_consumer \<Rightarrow> amqp_consumer" where
  "dlqConfirmed tok ok s =
     (case map_of (con_tasks s) tok of
        Some (InParseDlq origin) \<Rightarrow>
          finishHandling tok (if ok then safeAck tok origin s else cemit (UnhandledRejection tok) s)
      | Some (InExhaustedDlq origin) \<Rightarrow>
          finishHandling tok (if ok then safeAck tok origin s else cemit (UnhandledRejection tok) s)
      | _ \<Rightarrow> s)"

text \<open>
  The retry timer fires: deregister, let the drain look, and republish unless the
  consumer is shutting down. The confirmation of a retry changes nothing, whatever it is.
\<close>

definition republishForRetry :: "retry_timer \<Rightarrow> amqp_consumer \<Rightarrow> amqp_consumer" where
  "republishForRetry rt s =
     (case (con_active s, con_publishChannel s) of
        (Some act, Some pc) \<Rightarrow>
          if pc \<in> set (con_dead s) then s
          else cemit (PublishRetry pc (republication (a_options act) (rt_message rt)
                        (rt_next rt) (rt_first rt) (rt_last rt))) s
      | _ \<Rightarrow> s)"

definition retryTimerFires :: "nat \<Rightarrow> amqp_consumer \<Rightarrow> amqp_consumer" where
  "retryTimerFires t s =
     (case map_of (con_timers s) t of
        None \<Rightarrow> s
      | Some rt \<Rightarrow>
          let s1 = callDrainResolver (s\<lparr>con_timers := AList.delete t (con_timers s)\<rparr>) in
          if con_closed s1 \<or> con_shuttingDown s1 then s1 else republishForRetry rt s1)"

section \<open>Channel set-up\<close>

definition topologyCmds :: "consumer_options \<Rightarrow> chan_cmd list" where
  "topologyCmds opts =
     [AssertExchange (co_exchange opts), AssertExchange DLX,
      AssertQueue (co_queue opts), AssertQueue (co_queue opts @ ''.dlq''),
      BindQueue (co_queue opts) (co_exchange opts) (co_routingKey opts),
      BindQueue (co_queue opts @ ''.dlq'') DLX (co_routingKey opts),
      SetPrefetch (dflt (co_prefetch opts) DEFAULT_PREFETCH),
      StartConsume (co_queue opts)]"

text \<open>
  The awaits of the set-up, shared by \<open>consume()\<close> and \<open>reestablish()\<close>: the channel, the
  confirm channel, then the commands one by one. \<open>SetupMore\<close> is the next suspension,
  \<open>SetupFinished\<close> the return of \<open>channel.consume\<close>.
\<close>

datatype setup_result = SetupMore chan_setup amqp_consumer | SetupFinished amqp_consumer

definition setupResume :: "consumer_options \<Rightarrow> chan_setup \<Rightarrow> amqp_consumer \<Rightarrow> setup_result" where
  "setupResume opts st s =
     (case st of
        AwaitChannel \<Rightarrow>
          SetupMore (AwaitConfirmChannel (con_nextChan s)) (s\<lparr>con_nextChan := Suc (con_nextChan s)\<rparr>)
      | AwaitConfirmChannel ch \<Rightarrow>
          SetupMore (AwaitCmds ch (topologyCmds opts))
            (cemit (ChanCmd ch (hd (topologyCmds opts)))
              (s\<lparr>con_channel := Some ch, con_publishChannel := Some (con_nextChan s),
                 con_nextChan := Suc (con_nextChan s)\<rparr>))
      | AwaitCmds ch cmds \<Rightarrow>
          (case tl cmds of
             [] \<Rightarrow> SetupFinished s
           | c # cs \<Rightarrow> SetupMore (AwaitCmds ch (c # cs)) (cemit (ChanCmd ch c) s)))"

definition consume :: "consumer_options \<Rightarrow> amqp_consumer \<Rightarrow> amqp_consumer" where
  "consume opts s =
     (if con_closed s \<or> con_shuttingDown s then cemit ConsumeRejected s
      else if con_active s \<noteq> None then cemit ConsumeRejected s
      else s\<lparr>con_active := Some \<lparr>a_options = opts, a_consumeTag = None\<rparr>, con_setup := Some AwaitChannel\<rparr>)"

definition setConsumeTag :: "string \<Rightarrow> amqp_consumer \<Rightarrow> amqp_consumer" where
  "setConsumeTag tag s =
     s\<lparr>con_active := map_option (\<lambda>a. a\<lparr>a_consumeTag := Some tag\<rparr>) (con_active s)\<rparr>"

text \<open>The awaited amqplib call of \<open>consume()\<close> settles; a failure rejects the call.\<close>

definition consumeResume :: "bool \<Rightarrow> string \<Rightarrow> amqp_consumer \<Rightarrow> amqp_consumer" where
  "consumeResume ok tag s =
     (case (con_setup s, con_active s) of
        (Some st, Some act) \<Rightarrow>
          if \<not> ok then cemit ConsumeRejected (s\<lparr>con_setup := None\<rparr>)
          else (case setupResume (a_options act) st s of
                  SetupMore st' s' \<Rightarrow> s'\<lparr>con_setup := Some st'\<rparr>
                | SetupFinished s' \<Rightarrow>
                    (setConsumeTag tag s')\<lparr>con_setup := None, con_reconnectRegistered := True\<rparr>)
      | _ \<Rightarrow> s)"

definition reestablish :: "amqp_consumer \<Rightarrow> amqp_consumer" where
  "reestablish s =
     (if \<not> con_reconnectRegistered s \<or> con_reestablishing s then s
      else if con_active s = None \<or> con_closed s \<or> con_shuttingDown s then s
      else s\<lparr>con_reestablishing := True, con_reestablish := Some AwaitChannel\<rparr>)"

definition reestablishResume :: "bool \<Rightarrow> string \<Rightarrow> amqp_consumer \<Rightarrow> amqp_consumer" where
  "reestablishResume ok tag s =
     (case (con_reestablish s, con_active s) of
        (Some st, Some act) \<Rightarrow>
          if \<not> ok then s\<lparr>con_reestablish := None, con_reestablishing := False\<rparr>
          else (case setupResume (a_options act) st s of
                  SetupMore st' s' \<Rightarrow> s'\<lparr>con_reestablish := Some st'\<rparr>
                | SetupFinished s' \<Rightarrow>
                    (callDrainResolver ((setConsumeTag tag s')\<lparr>con_inFlight := []\<rparr>))
                      \<lparr>con_reestablish := None, con_reestablishing := False\<rparr>)
      | _ \<Rightarrow> s)"

section \<open>The machine\<close>

datatype con_event =
    Consume consumer_options
  | ConsumeResume bool string
  | Deliver nat message
  | HandlerSettled nat handler_outcome
  | DlqConfirmed nat bool
  | RetryTimerFires nat
  | Reconnected
  | ReestablishResume bool string
  | Shutdown
  | ShutdownResume
  | DrainTimeout
  | ChannelDies nat

fun con_step :: "(string \<Rightarrow> string + jsval) \<Rightarrow> con_event \<Rightarrow> amqp_consumer \<Rightarrow> amqp_consumer" where
  "con_step parse (Consume opts) s = consume opts s"
| "con_step parse (ConsumeResume ok tag) s = consumeResume ok tag s"
| "con_step parse (Deliver origin m) s = handleMessage parse origin m s"
| "con_step parse (HandlerSettled tok r) s = handlerSettled tok r s"
| "con_step parse (DlqConfirmed tok ok) s = dlqConfirmed tok ok s"
| "con_step parse (RetryTimerFires t) s = retryTimerFires t s"
| "con_step parse Reconnected s = reestablish s"
| "con_step parse (ReestablishResume ok tag) s = reestablishResume ok tag s"
| "con_step parse Shutdown s = shutdown s"
| "con_step parse ShutdownResume s = shutdownResume s"
| "con_step parse DrainTimeout s = drainTimeout s"
| "con_step parse (ChannelDies ch) s = s\<lparr>con_dead := ch # con_dead s\<rparr>"

abbreviation con_run :: "(string \<Rightarrow> string + jsval) \<Rightarrow> con_event list \<Rightarrow> amqp_consumer" where
  "con_run parse es \<equiv> fold (con_step parse) es new_consumer"

lemmas con_shutdown_defs = closeConnPart_def closePublishPart_def closeChannelPart_def
  waitForDrain_def callDrainResolver_def drainTimeout_def shutdown_def shutdownResume_def cemit_def

lemmas con_handle_defs = safeAck_def safeNack_def finishHandling_def publishDlqThenAck_def
  handleMessage_def retryOrDlq_def handlerSettled_def dlqConfirmed_def republishForRetry_def
  retryTimerFires_def cemit_def

lemmas con_setup_defs = setupResume_def consume_def setConsumeTag_def consumeResume_def
  reestablish_def reestablishResume_def cemit_def

section \<open>Settlement: at most once, and never without the dead-letter confirmation\<close>

fun is_settle :: "nat \<Rightarrow> con_out \<Rightarrow> bool" where
  "is_settle tok (AckOut _ t _) = (t = tok)"
| "is_settle tok (NackOut _ t _ _) = (t = tok)"
| "is_settle tok _ = False"

definition settles :: "nat \<Rightarrow> amqp_consumer \<Rightarrow> nat" where
  "settles tok s = length (filter (is_settle tok) (con_out s))"

text \<open>What the rest of the code does not touch: frame rules for tasks, tokens, settlements.\<close>

definition bookkeeping :: "amqp_consumer \<Rightarrow> (nat \<rightharpoonup> inflight) \<times> nat \<times> (nat \<Rightarrow> nat)" where
  "bookkeeping s = (map_of (con_tasks s), con_nextToken s, \<lambda>tok. settles tok s)"

lemma book_cemit [simp]:
  "(\<And>tok. \<not> is_settle tok x) \<Longrightarrow> bookkeeping (cemit x s) = bookkeeping s"
  by (simp add: bookkeeping_def settles_def cemit_def)

lemma book_fields [simp]:
  "bookkeeping (s\<lparr>con_shutdown := a\<rparr>) = bookkeeping s"
  "bookkeeping (s\<lparr>con_channel := b\<rparr>) = bookkeeping s"
  "bookkeeping (s\<lparr>con_publishChannel := b\<rparr>) = bookkeeping s"
  "bookkeeping (s\<lparr>con_drainResolver := c\<rparr>) = bookkeeping s"
  "bookkeeping (s\<lparr>con_timers := d\<rparr>) = bookkeeping s"
  "bookkeeping (s\<lparr>con_inFlight := e\<rparr>) = bookkeeping s"
  "bookkeeping (s\<lparr>con_shuttingDown := c\<rparr>) = bookkeeping s"
  "bookkeeping (s\<lparr>con_closed := c\<rparr>) = bookkeeping s"
  "bookkeeping (s\<lparr>con_active := f\<rparr>) = bookkeeping s"
  "bookkeeping (s\<lparr>con_setup := g\<rparr>) = bookkeeping s"
  "bookkeeping (s\<lparr>con_reestablish := g\<rparr>) = bookkeeping s"
  "bookkeeping (s\<lparr>con_reestablishing := c\<rparr>) = bookkeeping s"
  "bookkeeping (s\<lparr>con_reconnectRegistered := c\<rparr>) = bookkeeping s"
  "bookkeeping (s\<lparr>con_nextChan := n\<rparr>) = bookkeeping s"
  "bookkeeping (s\<lparr>con_nextTimer := n\<rparr>) = bookkeeping s"
  "bookkeeping (s\<lparr>con_dead := h\<rparr>) = bookkeeping s"
  by (simp_all add: bookkeeping_def settles_def)

lemma book_nextToken:
  "bookkeeping (s\<lparr>con_nextToken := n\<rparr>) = (map_of (con_tasks s), n, \<lambda>tok. settles tok s)"
  by (simp add: bookkeeping_def settles_def)

lemma book_shutdown_parts [simp]:
  "bookkeeping (closeConnPart s) = bookkeeping s"
  "bookkeeping (closePublishPart s) = bookkeeping s"
  "bookkeeping (closeChannelPart s) = bookkeeping s"
  "bookkeeping (waitForDrain s) = bookkeeping s"
  "bookkeeping (callDrainResolver s) = bookkeeping s"
  by (simp_all add: closeConnPart_def closePublishPart_def closeChannelPart_def waitForDrain_def
      callDrainResolver_def split: option.split)

lemma book_quiet_ops [simp]:
  "bookkeeping (drainTimeout s) = bookkeeping s"
  "bookkeeping (shutdown s) = bookkeeping s"
  "bookkeeping (shutdownResume s) = bookkeeping s"
  "bookkeeping (republishForRetry rt s) = bookkeeping s"
  "bookkeeping (retryTimerFires t s) = bookkeeping s"
  "bookkeeping (consume opts s) = bookkeeping s"
  "bookkeeping (reestablish s) = bookkeeping s"
  by (simp_all add: drainTimeout_def shutdown_def shutdownResume_def republishForRetry_def
      retryTimerFires_def consume_def reestablish_def Let_def split: option.split shutdown_phase.split)

lemma book_setup [simp]:
  "setupResume opts st s = SetupMore st' s' \<Longrightarrow> bookkeeping s' = bookkeeping s"
  "setupResume opts st s = SetupFinished s' \<Longrightarrow> bookkeeping s' = bookkeeping s"
  by (auto simp: setupResume_def split: chan_setup.splits list.splits)

lemma book_setup_ops [simp]:
  "bookkeeping (consumeResume ok tag s) = bookkeeping s"
  "bookkeeping (reestablishResume ok tag s) = bookkeeping s"
  by (simp_all add: consumeResume_def reestablishResume_def setConsumeTag_def
      split: option.split setup_result.split)

text \<open>
  The settlement invariant on the bookkeeping: nothing is settled twice, a suspended
  call is not settled yet, and no token of the future is.
\<close>

fun settle_ok :: "(nat \<rightharpoonup> inflight) \<times> nat \<times> (nat \<Rightarrow> nat) \<Rightarrow> bool" where
  "settle_ok (tasks, next, n) \<longleftrightarrow>
     (\<forall>tok. n tok \<le> 1) \<and> (\<forall>tok. tasks tok \<noteq> None \<longrightarrow> n tok = 0 \<and> tok < next) \<and>
     (\<forall>tok. next \<le> tok \<longrightarrow> n tok = 0)"

fun gone :: "nat \<Rightarrow> (nat \<rightharpoonup> inflight) \<times> nat \<times> (nat \<Rightarrow> nat) \<Rightarrow> bool" where
  "gone t (tasks, next, n) \<longleftrightarrow> tasks t = None \<and> t < next \<and> n t = 0"

lemma book_safe:
  "\<exists>k \<le> 1. bookkeeping (safeAck tok origin s) =
     (map_of (con_tasks s), con_nextToken s, (\<lambda>t. settles t s)(tok := settles tok s + k))"
  "\<exists>k \<le> 1. bookkeeping (safeNack tok origin q s) =
     (map_of (con_tasks s), con_nextToken s, (\<lambda>t. settles t s)(tok := settles tok s + k))"
  by (auto simp: safeAck_def safeNack_def bookkeeping_def settles_def cemit_def fun_eq_iff
      split: option.split intro: exI [of _ 0] exI [of _ 1])

lemma book_finish:
  "bookkeeping (finishHandling tok s) =
     (case bookkeeping s of (tasks, next, n) \<Rightarrow> (tasks(tok := None), next, n))"
  by (simp add: finishHandling_def) (simp add: bookkeeping_def settles_def delete_conv')

text \<open>
  The abstract machine of settlements that the consumer refines: a call starts (and may
  be dropped on the spot), waits on, or ends with at most one settlement.
\<close>

type_synonym book = "(nat \<rightharpoonup> inflight) \<times> nat \<times> (nat \<Rightarrow> nat)"

inductive book_step :: "book \<Rightarrow> book \<Rightarrow> bool" where
  idle: "book_step b b"
| ends: "tasks tok \<noteq> None \<Longrightarrow> k \<le> 1 \<Longrightarrow>
    book_step (tasks, next, n) (tasks(tok := None), next, n(tok := n tok + k))"
| waits: "tasks tok \<noteq> None \<Longrightarrow> book_step (tasks, next, n) (tasks(tok \<mapsto> w), next, n)"
| starts: "book_step (tasks, next, n) (tasks(next \<mapsto> w), Suc next, n)"
| drops: "k \<le> 1 \<Longrightarrow> book_step (tasks, next, n) (tasks(next := None), Suc next, n(next := n next + k))"

inductive_cases book_stepE: "book_step b b'"

definition ended :: "book \<Rightarrow> nat \<Rightarrow> book \<Rightarrow> bool" where
  "ended b tok b' \<longleftrightarrow> (\<exists>k \<le> 1. case b of (tasks, next, n) \<Rightarrow>
     b' = (tasks(tok := None), next, n(tok := n tok + k)))"

lemma endedI: "k \<le> 1 \<Longrightarrow> b' = (tasks(tok := None), next, n(tok := n tok + k)) \<Longrightarrow>
  ended (tasks, next, n) tok b'"
  by (auto simp: ended_def)

lemma ended_finish: "ended (bookkeeping s) tok (bookkeeping (finishHandling tok s))"
  by (cases "bookkeeping s") (auto simp: book_finish ended_def intro: exI [of _ 0])

lemma ended_finish_safe:
  "ended (bookkeeping s) tok (bookkeeping (finishHandling tok (safeAck tok origin s)))"
  "ended (bookkeeping s) tok (bookkeeping (finishHandling tok (safeNack tok origin q s)))"
  using book_safe(1) [of tok origin s] book_safe(2) [of tok origin q s]
  by (auto simp: bookkeeping_def [of s] book_finish intro: endedI)

lemma book_publishDlq:
  "ended (bookkeeping s) tok (bookkeeping (publishDlqThenAck tok origin p w s)) \<or>
   bookkeeping (publishDlqThenAck tok origin p w s) =
     (case bookkeeping s of (tasks, next, n) \<Rightarrow> (tasks(tok \<mapsto> w), next, n))"
proof (cases "con_publishChannel s")
  case None
  then show ?thesis by (simp add: publishDlqThenAck_def ended_finish_safe)
next
  case (Some pc)
  show ?thesis
  proof (cases "pc \<in> set (con_dead s)")
    case True
    with Some show ?thesis
      using ended_finish [of "cemit (UnhandledRejection tok) s" tok]
      by (simp add: publishDlqThenAck_def)
  next
    case False
    with Some show ?thesis
      by (simp add: publishDlqThenAck_def) (simp add: bookkeeping_def settles_def update_conv')
  qed
qed

lemma book_retryOrDlq:
  "ended (bookkeeping s) tok (bookkeeping (retryOrDlq tok m origin a f e opts s)) \<or>
   (\<exists>w. bookkeeping (retryOrDlq tok m origin a f e opts s) =
     (case bookkeeping s of (tasks, next, n) \<Rightarrow> (tasks(tok \<mapsto> w), next, n)))"
proof (cases "a \<ge> dflt (co_maxRetries opts) DEFAULT_MAX_RETRIES")
  case True
  then show ?thesis
    using book_publishDlq [of s tok origin] by (simp add: retryOrDlq_def Let_def) blast
next
  case False
  have "bookkeeping (finishHandling tok (cemit (ArmRetry t d) (u\<lparr>con_nextTimer := x, con_timers := y\<rparr>)))
      = bookkeeping (finishHandling tok u)" for t d x y u
    by (simp add: book_finish)
  with False show ?thesis
    using ended_finish_safe(1) [of s tok origin] by (simp add: retryOrDlq_def Let_def)
qed

lemma ended_step: "ended b tok b' \<Longrightarrow> fst b tok \<noteq> None \<Longrightarrow> book_step b b'"
  by (auto simp: ended_def intro: book_step.ends)

lemma book_refines: "book_step (bookkeeping s) (bookkeeping (con_step parse e s))"
proof (cases e)
  case (HandlerSettled tok r)
  show ?thesis
  proof (cases "map_of (con_tasks s) tok")
    case None
    with HandlerSettled show ?thesis by (simp add: handlerSettled_def book_step.idle)
  next
    case (Some t)
    then have dom: "fst (bookkeeping s) tok \<noteq> None" by (simp add: bookkeeping_def)
    have ro: "book_step (bookkeeping s) (bookkeeping (retryOrDlq tok m origin a f e opts s))"
      for m origin a f e opts
      using book_retryOrDlq [of s tok m origin a f e opts]
    proof
      assume "ended (bookkeeping s) tok (bookkeeping (retryOrDlq tok m origin a f e opts s))"
      then show ?thesis using dom by (rule ended_step)
    next
      assume "\<exists>w. bookkeeping (retryOrDlq tok m origin a f e opts s) =
        (case bookkeeping s of (tasks, next, n) \<Rightarrow> (tasks(tok \<mapsto> w), next, n))"
      then show ?thesis using dom by (cases "bookkeeping s") (auto simp: book_step.waits)
    qed
    show ?thesis
      using HandlerSettled Some ro ended_step [OF ended_finish_safe(1) dom]
        ended_step [OF ended_finish_safe(2) dom]
      by (simp add: handlerSettled_def book_step.idle
          split: inflight.split handler_outcome.split handler_result.split)
  qed
next
  case (DlqConfirmed tok ok)
  show ?thesis
  proof (cases "map_of (con_tasks s) tok")
    case None
    with DlqConfirmed show ?thesis by (simp add: dlqConfirmed_def book_step.idle)
  next
    case (Some t)
    then have dom: "fst (bookkeeping s) tok \<noteq> None" by (simp add: bookkeeping_def)
    have "ended (bookkeeping s) tok (bookkeeping (finishHandling tok (cemit (UnhandledRejection tok) s)))"
      using ended_finish [of "cemit (UnhandledRejection tok) s" tok] by simp
    with DlqConfirmed Some show ?thesis
      using ended_step [OF ended_finish_safe(1) dom] ended_step [OF _ dom]
      by (simp add: dlqConfirmed_def book_step.idle split: inflight.split)
  qed
next
  case (Deliver origin m)
  let ?tok = "con_nextToken s"
  let ?s1 = "s\<lparr>con_nextToken := Suc ?tok, con_inFlight := con_inFlight s @ [?tok]\<rparr>"
  have "book_step (bookkeeping s) (bookkeeping (publishDlqThenAck ?tok origin p w ?s1))" for p w
    using book_publishDlq [of ?s1 ?tok origin p w]
      book_step.drops [of _ "map_of (con_tasks s)" ?tok "\<lambda>t. settles t s"]
    by (auto simp: book_nextToken ended_def bookkeeping_def [of s] intro: book_step.starts)
  then show ?thesis
    using Deliver
    by (simp add: handleMessage_def Let_def book_step.idle split: option.split sum.split)
      (simp add: bookkeeping_def settles_def update_conv' book_step.starts)
qed (simp_all add: book_step.idle)

text \<open>The abstract machine keeps both invariants, hence so does the consumer.\<close>

lemma settle_ok_book_step: "book_step b b' \<Longrightarrow> settle_ok b \<Longrightarrow> settle_ok b'"
  by (induction rule: book_step.induct) (auto split: if_splits)

lemma gone_book_step: "book_step b b' \<Longrightarrow> gone t b \<Longrightarrow> gone t b'"
  by (induction rule: book_step.induct) auto

lemma settle_ok_new: "settle_ok (bookkeeping new_consumer)"
  by (simp add: bookkeeping_def settles_def new_consumer_def)

interpretation conm: machine new_consumer "con_step parse" "\<lambda>s. settle_ok (bookkeeping s)" for parse
  by unfold_locales (rule settle_ok_new, rule settle_ok_book_step [OF book_refines])

lemma gone_run: "gone t (bookkeeping s) \<Longrightarrow> gone t (bookkeeping (fold (con_step parse) es s))"
  by (induction es arbitrary: s) (auto dest: gone_book_step [OF book_refines])


text \<open>C33: a message bound for the dead-letter queue is acknowledged only on the broker's
  confirmation: until it arrives the message is unsettled, and if the publication is
  refused it stays unsettled for ever, so that the broker still owns it.\<close>

theorem dead_letter_confirmed_before_ack:
  assumes "map_of (con_tasks (con_run parse es)) tok \<in> {Some (InExhaustedDlq o'), Some (InParseDlq o')}"
  shows "settles tok (con_run parse es) = 0 \<and>
     settles tok (fold (con_step parse) (DlqConfirmed tok False # es') (con_run parse es)) = 0"
proof -
  let ?s = "con_run parse es"
  have ok: "settle_ok (bookkeeping ?s)" by (rule conm.inv_run)
  then have zero: "settles tok ?s = 0" "tok < con_nextToken ?s"
    using assms by (auto simp: bookkeeping_def)
  have "bookkeeping (dlqConfirmed tok False ?s) =
      ((map_of (con_tasks ?s))(tok := None), con_nextToken ?s, \<lambda>t. settles t ?s)"
    using assms by (auto simp: dlqConfirmed_def book_finish) (simp_all add: bookkeeping_def)
  then have "gone tok (bookkeeping (con_step parse (DlqConfirmed tok False) ?s))"
    using zero by simp
  then have "gone tok (bookkeeping (fold (con_step parse) (DlqConfirmed tok False # es') ?s))"
    using gone_run by simp
  then show ?thesis using zero by (simp add: bookkeeping_def)
qed

section \<open>Failing messages\<close>

lemma parseAttempt_retryHeaders [simp]:
  "1 \<le> n \<Longrightarrow> parseAttempt (retryHeaders h n f l) = n"
  by (simp add: parseAttempt_def retryHeaders_def)

lemma firstErrorOf_retryHeaders [simp]: "firstErrorOf (retryHeaders h n f l) = Some f"
  by (simp add: firstErrorOf_def retryHeaders_def)

lemma parseAttempt_ge_1: "1 \<le> parseAttempt h"
  by (simp add: parseAttempt_def split: jsval.split jsnum.split)

text \<open>
  The publications a message causes whose handler fails with one error per delivery:
  the broker is a function from a publication to the delivery it becomes.
\<close>

fun failure_chain ::
  "consumer_options \<Rightarrow> (publication \<Rightarrow> message) \<Rightarrow> message \<Rightarrow> string list \<Rightarrow> publication list" where
  "failure_chain opts broker m [] = []"
| "failure_chain opts broker m (e # es) =
     (let a = parseAttempt (m_headers m); f = dflt (firstErrorOf (m_headers m)) e in
      if a \<ge> dflt (co_maxRetries opts) DEFAULT_MAX_RETRIES then [exhaustedPublication m a f e]
      else let p = republication opts m (a + 1) f e in p # failure_chain opts broker (broker p) es)"

text \<open>The machine publishes just these: the two branches of a failed handler call.\<close>

definition live :: "amqp_consumer \<Rightarrow> nat \<Rightarrow> nat \<Rightarrow> bool" where
  "live s ch pc \<longleftrightarrow> con_channel s = Some ch \<and> con_publishChannel s = Some pc \<and>
     ch \<notin> set (con_dead s) \<and> pc \<notin> set (con_dead s) \<and> \<not> con_shuttingDown s \<and> \<not> con_closed s \<and>
     \<not> con_drainResolver s"

text \<open>Result: a handler that throws makes the consumer either (attempts left) acknowledge,
  arm a timer with the exponential delay and, when it fires, republish the same content
  to the work exchange with the attempt counted up, the first error preserved and the
  last error replaced, or (attempts used up) publish to the dead-letter exchange and
  acknowledge nothing yet.\<close>

theorem handler_failure_effects:
  assumes "map_of (con_tasks s) tok = Some (InHandler m origin opts a f)" "live s ch pc"
    and "con_active s = Some act" "a_options act = opts" "map_of (con_timers s) (con_nextTimer s) = None"
  shows "let s1 = con_step parse (HandlerSettled tok (Threw e)) s;
             s2 = con_step parse (RetryTimerFires (con_nextTimer s)) s1 in
     if a \<ge> dflt (co_maxRetries opts) DEFAULT_MAX_RETRIES
     then con_out s1 = con_out s @ [PublishDlq pc (exhaustedPublication m a (dflt f e) e)]
     else con_out s1 = con_out s @ [AckOut ch tok origin,
              ArmRetry (con_nextTimer s) (computeBackoffMs (a + 1)
                (dflt (co_backoffBaseMs opts) DEFAULT_BACKOFF_BASE_MS)
                (dflt (co_backoffMaxMs opts) DEFAULT_BACKOFF_MAX_MS))] \<and>
          con_out s2 = con_out s1 @ [PublishRetry pc (republication opts m (a + 1) (dflt f e) e)]"
  using assms
  by (simp add: live_def handlerSettled_def retryOrDlq_def publishDlqThenAck_def safeAck_def
      finishHandling_def callDrainResolver_def retryTimerFires_def republishForRetry_def cemit_def
      retryDelay_def Let_def map_add_def)

lemma failure_chain_from:
  assumes "\<And>p. m_headers (broker p) = p_headers p" "co_maxRetries opts = Some (real N)"
    and "parseAttempt (m_headers m) = real k" "1 \<le> k" "k \<le> N" "length es = Suc (N - k)"
    and "firstErrorOf (m_headers m) = fe"
  shows "let ps = failure_chain opts broker m es in
     length ps = length es \<and>
     (\<forall>i < N - k. p_exchange (ps ! i) = co_exchange opts \<and>
        p_headers (ps ! i) = retryHeaders (p_headers (ps ! i)) (real (k + i + 1)) (dflt fe (es ! 0)) (es ! i)) \<and>
     p_exchange (ps ! (N - k)) = DLX \<and>
     parseAttempt (p_headers (ps ! (N - k))) = real N \<and>
     firstErrorOf (p_headers (ps ! (N - k))) = Some (dflt fe (es ! 0)) \<and>
     obj_get (p_headers (ps ! (N - k))) ''x-bms-last-error'' = JStr (last es)"
  using assms
proof (induction es arbitrary: m k fe)
  case Nil
  then show ?case by simp
next
  case (Cons e es)
  show ?case
  proof (cases "k = N")
    case True
    with Cons.prems show ?thesis
      by (simp add: Let_def exhaustedPublication_def) (simp add: retryHeaders_def)
  next
    case False
    let ?f = "dflt fe e"
    let ?p = "republication opts m (real (Suc k)) ?f e"
    have hd: "p_headers ?p = retryHeaders (m_headers m) (real (Suc k)) ?f e"
      by (simp add: republication_def)
    have Nk: "N - k = Suc (N - Suc k)" using False Cons.prems by simp
    have es: "es \<noteq> []" using Cons.prems Nk by auto
    have chain: "failure_chain opts broker m (e # es) = ?p # failure_chain opts broker (broker ?p) es"
      using Cons.prems False by (simp add: Let_def add.commute)
    have idem: "retryHeaders (retryHeaders h n x y) n x y = retryHeaders h n x y" for h n x y
      by (simp add: retryHeaders_def update_triv)
    have IH: "let ps = failure_chain opts broker (broker ?p) es in
       length ps = length es \<and>
       (\<forall>i < N - Suc k. p_exchange (ps ! i) = co_exchange opts \<and>
          p_headers (ps ! i) = retryHeaders (p_headers (ps ! i)) (real (Suc k + i + 1)) ?f (es ! i)) \<and>
       p_exchange (ps ! (N - Suc k)) = DLX \<and>
       parseAttempt (p_headers (ps ! (N - Suc k))) = real N \<and>
       firstErrorOf (p_headers (ps ! (N - Suc k))) = Some ?f \<and>
       obj_get (p_headers (ps ! (N - Suc k))) ''x-bms-last-error'' = JStr (last es)"
      using Cons.IH [of "broker ?p" "Suc k" "Some ?f"] Cons.prems False Nk hd by simp
    show ?thesis
      unfolding chain Nk
      using IH es by (auto simp: Let_def less_Suc_eq_0_disj hd idem republication_def)
  qed
qed

definition demo_options :: "nat \<Rightarrow> consumer_options" where
  "demo_options n = \<lparr>co_exchange = ''bms.email'', co_routingKey = ''email.send'', co_queue = ''q'',
     co_prefetch = None, co_maxRetries = Some (real n), co_backoffBaseMs = None, co_backoffMaxMs = None\<rparr>"

definition demo_message :: message where
  "demo_message = \<lparr>m_routingKey = ''email.send'', m_content = ''{}'', m_headers = [],
     m_contentType = None, m_deliveryMode = Some 2\<rparr>"

definition demo_broker :: "publication \<Rightarrow> message" where
  "demo_broker p = \<lparr>m_routingKey = p_routingKey p, m_content = p_content p, m_headers = p_headers p,
     m_contentType = Some (p_contentType p), m_deliveryMode = (if p_persistent p then Some 2 else Some 1)\<rparr>"

text \<open>Evaluation of the set-up: the machine connected on channel 0 with publish channel 1.\<close>

abbreviation demo_parse :: "string \<Rightarrow> string + jsval" where
  "demo_parse \<equiv> \<lambda>_. Inr JNull"

definition connected_events :: "nat \<Rightarrow> con_event list" where
  "connected_events n = Consume (demo_options n) # replicate 10 (ConsumeResume True ''tag'')"

definition exhausting_events :: "con_event list" where
  "exhausting_events = connected_events 1 @ [Deliver 0 demo_message, HandlerSettled 0 (Threw ''boom'')]"

text \<open>\<open>dead_letter_confirmed_before_ack\<close> on a consumer that tries each message once.\<close>

theorem dead_letter_confirmed_before_ack_witness:
  "settles 0 (con_run demo_parse exhausting_events) = 0 \<and>
   settles 0 (fold (con_step demo_parse) (DlqConfirmed 0 False # [Shutdown, ShutdownResume])
     (con_run demo_parse exhausting_events)) = 0"
proof -
  have "map_of (con_tasks (con_run demo_parse exhausting_events)) 0 = Some (InExhaustedDlq 0)"
    by (simp add: exhausting_events_def connected_events_def new_consumer_def con_setup_defs
        con_handle_defs topologyCmds_def numeral_eq_Suc demo_message_def parseAttempt_def obj_get_def
        firstErrorOf_def Let_def demo_options_def)
  then show ?thesis
    using dead_letter_confirmed_before_ack [of demo_parse exhausting_events 0 0
        "[Shutdown, ShutdownResume]"] by blast
qed

text \<open>\<open>handler_failure_effects\<close> at work on the connected consumer.\<close>

theorem handler_failure_effects_witness:
  "let s = con_run demo_parse (connected_events 3 @ [Deliver 0 demo_message]) in
     con_out (con_step demo_parse (RetryTimerFires 0) (con_step demo_parse (HandlerSettled 0 (Threw ''boom'')) s))
       = con_out s @ [AckOut 0 0 0, ArmRetry 0 (computeBackoffMs 2 1000 60000),
           PublishRetry 1 (republication (demo_options 3) demo_message 2 ''boom'' ''boom'')]"
proof -
  define u where "u = con_run demo_parse (connected_events 3 @ [Deliver 0 demo_message])"
  have s: "map_of (con_tasks u) 0 = Some (InHandler demo_message 0 (demo_options 3) 1 None)"
    "live u 0 1" "con_active u = Some \<lparr>a_options = demo_options 3, a_consumeTag = Some ''tag''\<rparr>"
    "map_of (con_timers u) (con_nextTimer u) = None" "con_nextTimer u = 0"
    by (simp_all add: u_def connected_events_def new_consumer_def con_setup_defs con_handle_defs
        topologyCmds_def numeral_eq_Suc live_def demo_message_def parseAttempt_def obj_get_def
        firstErrorOf_def Let_def)
  have a: "a_options \<lparr>a_options = demo_options 3, a_consumeTag = Some ''tag''\<rparr> = demo_options 3" by simp
  have o': "co_maxRetries (demo_options 3) = Some 3" "co_backoffBaseMs (demo_options 3) = None"
    "co_backoffMaxMs (demo_options 3) = None"
    by (simp_all add: demo_options_def)
  from handler_failure_effects [OF s(1-3) a s(4), of demo_parse "''boom''"]
  show ?thesis unfolding u_def [symmetric]
    by (simp del: con_step.simps add: Let_def s(5) o' DEFAULT_BACKOFF_BASE_MS_def DEFAULT_BACKOFF_MAX_MS_def)
qed



section \<open>Shutdown\<close>

definition closing :: "amqp_consumer \<Rightarrow> bool" where
  "closing s \<longleftrightarrow> con_shutdown s \<in> {Some ShCloseChannel, Some ShClosePublish, Some ShCloseConn, Some ShDone}"

text \<open>What a step may change about the drain: the phase starts closing only when drained.\<close>

definition drained :: "amqp_consumer \<Rightarrow> bool" where
  "drained s \<longleftrightarrow> con_inFlight s = [] \<and> con_timers s = []"

lemma drained_parts [simp]:
  "drained (closeChannelPart s) = drained s" "drained (cemit x s) = drained s"
  "drained (s\<lparr>con_drainResolver := b\<rparr>) = drained s" "drained (s\<lparr>con_shutdown := ph\<rparr>) = drained s"
  "drained (s\<lparr>con_reestablish := r\<rparr>) = drained s" "drained (s\<lparr>con_reestablishing := b\<rparr>) = drained s"
  by (simp_all add: drained_def closeChannelPart_def closePublishPart_def closeConnPart_def cemit_def
      split: option.split)

lemma closing_parts [simp]:
  "closing (cemit x s) = closing s" "closing (s\<lparr>con_reestablish := r\<rparr>) = closing s"
  "closing (s\<lparr>con_reestablishing := b\<rparr>) = closing s" "closing (s\<lparr>con_inFlight := f\<rparr>) = closing s"
  "closing (s\<lparr>con_tasks := t\<rparr>) = closing s" "closing (s\<lparr>con_timers := u\<rparr>) = closing s"
  "closing (s\<lparr>con_nextTimer := n\<rparr>) = closing s" "closing (s\<lparr>con_nextToken := n\<rparr>) = closing s"
  "closing (s\<lparr>con_shuttingDown := b\<rparr>) = closing s" "closing (setConsumeTag tag s) = closing s"
  "closing (safeAck tok o' s) = closing s" "closing (safeNack tok o' b s) = closing s"
  "closing (republishForRetry rt s) = closing s" "drained (republishForRetry rt s) = drained s"
  by (simp_all add: closing_def drained_def cemit_def setConsumeTag_def safeAck_def safeNack_def
      republishForRetry_def split: option.split)

lemma callDrain_closing: "closing (callDrainResolver s) \<Longrightarrow> closing s \<or> drained (callDrainResolver s)"
  by (auto simp: callDrainResolver_def drained_def [of s])

lemma waitForDrain_closing: "closing (waitForDrain s) \<Longrightarrow> drained (waitForDrain s)"
  by (auto simp: waitForDrain_def drained_def [of s] closing_def)

lemma finish_closing:
  "closing (finishHandling tok s) \<Longrightarrow> closing s \<or> drained (finishHandling tok s)"
  using callDrain_closing by (fastforce simp: finishHandling_def)

lemma publishDlq_closing:
  "closing (publishDlqThenAck tok o' p w s) \<Longrightarrow> closing s \<or> drained (publishDlqThenAck tok o' p w s)"
  using finish_closing by (fastforce simp: publishDlqThenAck_def split: option.splits if_splits)

lemma retryOrDlq_closing:
  "closing (retryOrDlq tok m o' a f e opts s) \<Longrightarrow> closing s \<or> drained (retryOrDlq tok m o' a f e opts s)"
  using publishDlq_closing finish_closing by (fastforce simp: retryOrDlq_def Let_def split: if_splits)

lemma safe_parts [simp]:
  "con_shutdown (safeAck tok o' s) = con_shutdown s" "con_shutdown (safeNack tok o' b s) = con_shutdown s"
  "con_shuttingDown (safeAck tok o' s) = con_shuttingDown s"
  by (simp_all add: safeAck_def safeNack_def cemit_def split: option.split)

lemma setup_closing:
  "setupResume opts st s = SetupMore st' s' \<Longrightarrow> closing s' = closing s"
  "setupResume opts st s = SetupFinished s' \<Longrightarrow> closing s' = closing s"
  by (auto simp: setupResume_def closing_def cemit_def split: chan_setup.splits list.splits)

lemma closing_fields [simp]:
  "closing (s\<lparr>con_active := a\<rparr>) = closing s" "closing (s\<lparr>con_setup := g\<rparr>) = closing s"
  "closing (s\<lparr>con_reconnectRegistered := b\<rparr>) = closing s" "closing (s\<lparr>con_dead := d\<rparr>) = closing s"
  by (simp_all add: closing_def)

lemma shutdownResume_closing:
  "closing (shutdownResume s) \<Longrightarrow> closing s \<or> drained (shutdownResume s)"
  using waitForDrain_closing [of s]
  by (auto simp: shutdownResume_def closing_def split: option.splits shutdown_phase.splits)

lemma shutdown_closing: "closing (shutdown s) \<Longrightarrow> closing s \<or> drained (shutdown s)"
  using waitForDrain_closing [of "s\<lparr>con_shuttingDown := True\<rparr>"]
  by (auto simp: shutdown_def Let_def split: option.splits if_splits)
     (simp_all add: closing_def cemit_def)

lemma handleMessage_closing:
  "closing (handleMessage parse o' m s) \<Longrightarrow> closing s \<or> drained (handleMessage parse o' m s)"
  by (auto simp: handleMessage_def Let_def split: option.splits sum.splits dest: publishDlq_closing)

lemma handlerSettled_closing:
  "closing (handlerSettled tok r s) \<Longrightarrow> closing s \<or> drained (handlerSettled tok r s)"
  by (auto simp: handlerSettled_def split: option.splits inflight.splits handler_outcome.splits
      handler_result.splits dest: retryOrDlq_closing finish_closing)

lemma dlqConfirmed_closing:
  "closing (dlqConfirmed tok ok s) \<Longrightarrow> closing s \<or> drained (dlqConfirmed tok ok s)"
  by (auto simp: dlqConfirmed_def split: option.splits inflight.splits if_splits dest: finish_closing)

lemma retryTimerFires_closing:
  "closing (retryTimerFires t s) \<Longrightarrow> closing s \<or> drained (retryTimerFires t s)"
  by (auto simp: retryTimerFires_def Let_def split: option.splits if_splits dest: callDrain_closing)

lemma setup_ops_closing:
  "closing (consumeResume ok tag s) \<Longrightarrow> closing s \<or> drained (consumeResume ok tag s)"
  "closing (reestablishResume ok tag s) \<Longrightarrow> closing s \<or> drained (reestablishResume ok tag s)"
  using setup_closing
  by (auto simp: consumeResume_def reestablishResume_def split: option.splits setup_result.splits if_splits
      dest!: callDrain_closing)

lemma quiet_closing:
  "closing (consume opts s) \<Longrightarrow> closing s \<or> drained (consume opts s)"
  "closing (reestablish s) \<Longrightarrow> closing s \<or> drained (reestablish s)"
  "closing (s\<lparr>con_dead := d\<rparr>) \<Longrightarrow> closing s \<or> drained (s\<lparr>con_dead := d\<rparr>)"
  by (auto simp: consume_def reestablish_def split: if_splits)

lemmas step_closing = shutdown_closing shutdownResume_closing handleMessage_closing
  handlerSettled_closing dlqConfirmed_closing retryTimerFires_closing setup_ops_closing
  quiet_closing

text \<open>Result: the consumer starts to close its channels only when nothing is in flight and no retry
  is pending, unless the drain time-out has passed.\<close>

theorem closes_only_when_drained:
  assumes "\<not> closing s" "e \<noteq> DrainTimeout" "closing (con_step parse e s)"
  shows "con_inFlight (con_step parse e s) = [] \<and> con_timers (con_step parse e s) = []"
proof -
  have "closing s \<or> drained (con_step parse e s)"
    using assms(2,3) by (cases e) (simp_all only: con_step.simps step_closing, simp_all)
  then show ?thesis using assms(1) by (simp add: drained_def)
qed

theorem closes_only_when_drained_witness:
  "let s = con_run demo_parse (exhausting_events @ [Shutdown, ShutdownResume]) in
     con_inFlight s = [0] \<and> con_inFlight (con_step demo_parse (DlqConfirmed 0 True) s) = []"
proof -
  define u where "u = con_run demo_parse (exhausting_events @ [Shutdown, ShutdownResume])"
  have "\<not> closing u \<and> closing (con_step demo_parse (DlqConfirmed 0 True) u) \<and> con_inFlight u = [0]"
    by (simp add: u_def exhausting_events_def connected_events_def new_consumer_def con_setup_defs
        con_handle_defs con_shutdown_defs topologyCmds_def numeral_eq_Suc demo_message_def
        parseAttempt_def obj_get_def firstErrorOf_def Let_def demo_options_def closing_def)
  then show ?thesis
    using closes_only_when_drained [of u "DlqConfirmed 0 True" demo_parse]
    by (simp add: u_def Let_def del: con_step.simps)
qed

section \<open>Retries and shutdown\<close>

fun is_retry_pub :: "con_out \<Rightarrow> bool" where
  "is_retry_pub (PublishRetry _ _) = True"
| "is_retry_pub _ = False"

definition retry_view :: "amqp_consumer \<Rightarrow> bool \<times> con_out list" where
  "retry_view s = (con_shuttingDown s, filter is_retry_pub (con_out s))"

lemma view_cemit [simp]: "\<not> is_retry_pub x \<Longrightarrow> retry_view (cemit x s) = retry_view s"
  by (simp add: retry_view_def cemit_def)

lemma view_fields [simp]:
  "retry_view (s\<lparr>con_shutdown := a\<rparr>) = retry_view s"
  "retry_view (s\<lparr>con_channel := b\<rparr>) = retry_view s"
  "retry_view (s\<lparr>con_publishChannel := b\<rparr>) = retry_view s"
  "retry_view (s\<lparr>con_drainResolver := c\<rparr>) = retry_view s"
  "retry_view (s\<lparr>con_timers := d\<rparr>) = retry_view s"
  "retry_view (s\<lparr>con_inFlight := e\<rparr>) = retry_view s"
  "retry_view (s\<lparr>con_closed := c\<rparr>) = retry_view s"
  "retry_view (s\<lparr>con_active := f\<rparr>) = retry_view s"
  "retry_view (s\<lparr>con_setup := g\<rparr>) = retry_view s"
  "retry_view (s\<lparr>con_reestablish := g\<rparr>) = retry_view s"
  "retry_view (s\<lparr>con_reestablishing := c\<rparr>) = retry_view s"
  "retry_view (s\<lparr>con_reconnectRegistered := c\<rparr>) = retry_view s"
  "retry_view (s\<lparr>con_nextChan := n\<rparr>) = retry_view s"
  "retry_view (s\<lparr>con_nextTimer := n\<rparr>) = retry_view s"
  "retry_view (s\<lparr>con_nextToken := n\<rparr>) = retry_view s"
  "retry_view (s\<lparr>con_tasks := t\<rparr>) = retry_view s"
  "retry_view (s\<lparr>con_dead := h\<rparr>) = retry_view s"
  by (simp_all add: retry_view_def)

lemma view_parts [simp]:
  "retry_view (closeConnPart s) = retry_view s" "retry_view (closePublishPart s) = retry_view s"
  "retry_view (closeChannelPart s) = retry_view s" "retry_view (waitForDrain s) = retry_view s"
  "retry_view (callDrainResolver s) = retry_view s" "retry_view (finishHandling tok s) = retry_view s"
  "retry_view (safeAck tok o' s) = retry_view s" "retry_view (safeNack tok o' q s) = retry_view s"
  by (simp_all add: closeConnPart_def closePublishPart_def closeChannelPart_def waitForDrain_def
      callDrainResolver_def finishHandling_def safeAck_def safeNack_def split: option.split)

lemma view_publishDlq [simp]: "retry_view (publishDlqThenAck tok o' p w s) = retry_view s"
  by (simp add: publishDlqThenAck_def split: option.split)

lemma view_ops [simp]:
  "retry_view (retryOrDlq tok m o' a f e opts s) = retry_view s"
  "retry_view (drainTimeout s) = retry_view s" "retry_view (shutdownResume s) = retry_view s"
  "retry_view (consume opts s) = retry_view s" "retry_view (reestablish s) = retry_view s"
  "retry_view (dlqConfirmed tok ok s) = retry_view s"
  by (simp_all add: retryOrDlq_def drainTimeout_def shutdownResume_def consume_def reestablish_def
      dlqConfirmed_def Let_def split: option.split shutdown_phase.split inflight.split)

lemma view_setup [simp]:
  "setupResume opts st s = SetupMore st' s' \<Longrightarrow> retry_view s' = retry_view s"
  "setupResume opts st s = SetupFinished s' \<Longrightarrow> retry_view s' = retry_view s"
  by (auto simp: setupResume_def split: chan_setup.splits list.splits)

lemma view_handling [simp]:
  "retry_view (handleMessage parse o' m s) = retry_view s"
  "retry_view (handlerSettled tok r s) = retry_view s"
  "retry_view (consumeResume ok tag s) = retry_view s"
  "retry_view (reestablishResume ok tag s) = retry_view s"
  by (simp_all add: handleMessage_def handlerSettled_def consumeResume_def reestablishResume_def
      setConsumeTag_def Let_def split: option.split sum.split inflight.split handler_outcome.split
      handler_result.split setup_result.split)

lemma view_timer:
  "fst (retry_view s) \<Longrightarrow> retry_view (retryTimerFires t s) = retry_view s"
proof -
  have "con_shuttingDown u" if "retry_view u = retry_view s" "fst (retry_view s)" for u
    using that by (metis fst_conv retry_view_def)
  then show "fst (retry_view s) \<Longrightarrow> ?thesis"
    by (simp add: retryTimerFires_def Let_def split: option.split)
qed

lemma view_step: "fst (retry_view s) \<Longrightarrow> retry_view (con_step parse e s) = retry_view s"
proof (cases e)
  case Shutdown
  assume "fst (retry_view s)"
  then have "retry_view (s\<lparr>con_shuttingDown := True\<rparr>) = retry_view s" by (simp add: retry_view_def)
  with Shutdown show ?thesis by (simp add: shutdown_def Let_def split: option.split)
qed (simp_all add: view_timer)

lemma view_run: "fst (retry_view s) \<Longrightarrow> retry_view (fold (con_step parse) es s) = retry_view s"
  by (induction es arbitrary: s) (simp_all add: view_step)

definition retry_pending_at_shutdown :: "con_event list" where
  "retry_pending_at_shutdown =
     connected_events 3 @ [Deliver 0 demo_message, HandlerSettled 0 (Threw ''boom''), Shutdown]"

text \<open>Result: a message whose retry is pending when the shutdown begins is lost: it is already
  acknowledged, and whatever happens afterwards it is never republished, although the drain waits
  for its timer.\<close>

theorem pending_retry_lost_at_shutdown:
  "AckOut 0 0 0 \<in> set (con_out (con_run demo_parse retry_pending_at_shutdown)) \<and>
   map fst (con_timers (con_run demo_parse retry_pending_at_shutdown)) = [0] \<and>
   filter is_retry_pub (con_out (fold (con_step demo_parse) es
     (con_run demo_parse retry_pending_at_shutdown))) = []"
proof -
  let ?u = "con_run demo_parse retry_pending_at_shutdown"
  have u: "AckOut 0 0 0 \<in> set (con_out ?u) \<and> map fst (con_timers ?u) = [0] \<and>
      retry_view ?u = (True, [])"
    by (simp add: retry_view_def retry_pending_at_shutdown_def connected_events_def new_consumer_def
        con_setup_defs con_handle_defs con_shutdown_defs topologyCmds_def numeral_eq_Suc
        demo_message_def parseAttempt_def obj_get_def firstErrorOf_def Let_def demo_options_def
        DEFAULT_MAX_RETRIES_def)
  then have "retry_view (fold (con_step demo_parse) es ?u) = (True, [])"
    using view_run [of ?u] by simp
  with u show ?thesis by (simp add: retry_view_def)
qed

definition stale_events :: "con_event list" where
  "stale_events = connected_events 3 @ Deliver 0 demo_message # ChannelDies 0 # Reconnected #
     replicate 10 (ReestablishResume True ''tag2'') @ [HandlerSettled 0 (Returned HAck)]"

text \<open>Result: after a reconnect the acknowledgement of a handler that started before it is sent on
  the new channel, with the delivery tag of the old one.\<close>

theorem stale_ack_on_new_channel:
  "AckOut 2 0 0 \<in> set (con_out (con_run demo_parse stale_events))"
proof -
  define u where "u = con_run demo_parse (connected_events 3 @ [Deliver 0 demo_message])"
  have u: "map_of (con_tasks u) 0 = Some (InHandler demo_message 0 (demo_options 3) 1 None)"
    "con_reconnectRegistered u" "\<not> con_reestablishing u" "\<not> con_closed u" "\<not> con_shuttingDown u"
    "con_active u = Some \<lparr>a_options = demo_options 3, a_consumeTag = Some ''tag''\<rparr>"
    "con_nextChan u = 2" "con_dead u = []"
    by (simp_all add: u_def connected_events_def new_consumer_def con_setup_defs con_handle_defs
        topologyCmds_def numeral_eq_Suc demo_message_def parseAttempt_def obj_get_def
        firstErrorOf_def Let_def)
  have "con_run demo_parse stale_events =
      fold (con_step demo_parse) (ChannelDies 0 # Reconnected #
        replicate 10 (ReestablishResume True ''tag2'') @ [HandlerSettled 0 (Returned HAck)]) u"
    by (simp add: stale_events_def u_def)
  then show ?thesis
    using u by (simp add: con_setup_defs topologyCmds_def numeral_eq_Suc callDrainResolver_def
        closeChannelPart_def closePublishPart_def closeConnPart_def handlerSettled_def
        finishHandling_def safeAck_def split: option.split)
qed

end
