(* ===== verification/SafeEvaluator.thy ===== *)
theory SafeEvaluator
  imports JsValue
begin

text \<open>
  \<open>message-trigger/src/utils/safe-evaluator.ts\<close>: the evaluation of conditional steps without
  \<open>eval\<close>. The loose comparisons of JavaScript are written out on \<open>jsval\<close>; two objects
  compared with \<open>==\<close> come from different JSON texts and are never the same object. The
  parameter \<open>fracStr\<close> is the text of a fractional or huge number.
\<close>

section \<open>Loose comparison\<close>

text \<open>Text of a value, and \<open>ToPrimitive\<close>: an array joins its elements, an object has a fixed text.\<close>

fun to_str :: "(real \<Rightarrow> string) \<Rightarrow> jsval \<Rightarrow> string" where
  "to_str fs JUndefined = ''undefined''"
| "to_str fs JNull = ''null''"
| "to_str fs (JBool b) = (if b then ''true'' else ''false'')"
| "to_str fs (JNum n) = jsnum_str fs n"
| "to_str fs (JStr s) = s"
| "to_str fs (JBuf s) = s"
| "to_str fs (JArr vs) = join '','' (map (\<lambda>v. if js_nullish v then [] else to_str fs v) vs)"
| "to_str fs (JObj _) = ''[object Object]''"

fun is_object :: "jsval \<Rightarrow> bool" where
  "is_object (JBuf _) = True"
| "is_object (JArr _) = True"
| "is_object (JObj _) = True"
| "is_object _ = False"

definition to_primitive :: "(real \<Rightarrow> string) \<Rightarrow> jsval \<Rightarrow> jsval" where
  "to_primitive fs v = (if is_object v then JStr (to_str fs v) else v)"

fun to_number :: "jsval \<Rightarrow> jsnum" where
  "to_number JUndefined = NaN"
| "to_number JNull = Fin 0"
| "to_number (JBool b) = Fin (if b then 1 else 0)"
| "to_number (JNum n) = n"
| "to_number (JStr s) = js_Number s"
| "to_number _ = NaN"

definition num_eq :: "jsnum \<Rightarrow> jsnum \<Rightarrow> bool" where
  "num_eq a b \<longleftrightarrow> a \<noteq> NaN \<and> a = b"

text \<open>\<open>a == b\<close> on primitives, then with the object conversions.\<close>

fun prim_eq :: "jsval \<Rightarrow> jsval \<Rightarrow> bool" where
  "prim_eq (JStr a) (JStr b) = (a = b)"
| "prim_eq a b = (if js_nullish a \<or> js_nullish b then js_nullish a \<and> js_nullish b
                  else num_eq (to_number a) (to_number b))"

definition loose_eq :: "(real \<Rightarrow> string) \<Rightarrow> jsval \<Rightarrow> jsval \<Rightarrow> bool" where
  "loose_eq fs a b =
     (if is_object a \<and> is_object b then False
      else if js_nullish a \<or> js_nullish b then js_nullish a \<and> js_nullish b
      else prim_eq (to_primitive fs a) (to_primitive fs b))"

fun num_less :: "jsnum \<Rightarrow> jsnum \<Rightarrow> bool option" where
  "num_less NaN _ = None"
| "num_less _ NaN = None"
| "num_less (Fin a) (Fin b) = Some (a < b)"
| "num_less (Fin a) PosInf = Some True"
| "num_less (Fin a) NegInf = Some False"
| "num_less PosInf _ = Some False"
| "num_less NegInf NegInf = Some False"
| "num_less NegInf _ = Some True"

fun str_less :: "string \<Rightarrow> string \<Rightarrow> bool" where
  "str_less _ [] = False"
| "str_less [] (_ # _) = True"
| "str_less (a # as) (b # bs) =
     ((of_char a :: nat) < of_char b \<or> (a = b \<and> str_less as bs))"

text \<open>The abstract relational comparison: undefined when a NaN is involved.\<close>

fun prim_less :: "jsval \<Rightarrow> jsval \<Rightarrow> bool option" where
  "prim_less (JStr a) (JStr b) = Some (str_less a b)"
| "prim_less a b = num_less (to_number a) (to_number b)"

definition js_less :: "(real \<Rightarrow> string) \<Rightarrow> jsval \<Rightarrow> jsval \<Rightarrow> bool option" where
  "js_less fs a b = prim_less (to_primitive fs a) (to_primitive fs b)"

section \<open>The evaluator\<close>

datatype atom_op = AndOp | OrOp

record condition_atom =
  at_op :: "atom_op option"
  at_value :: bool

definition PROTOTYPE_KEYS :: "string list" where
  "PROTOTYPE_KEYS = [''__proto__'', ''prototype'', ''constructor'']"

text \<open>The loop of \<open>evaluateAtoms\<close> over \<open>orResult\<close>, \<open>andGroup\<close> and \<open>firstInGroup\<close>.\<close>

fun eval_atoms :: "condition_atom list \<Rightarrow> bool \<Rightarrow> bool \<Rightarrow> bool \<Rightarrow> bool" where
  "eval_atoms [] orResult andGroup firstInGroup = (orResult \<or> andGroup)"
| "eval_atoms (a # as) orResult andGroup firstInGroup =
     (if at_op a = Some OrOp then eval_atoms as (orResult \<or> andGroup) (at_value a) False
      else eval_atoms as orResult (if firstInGroup then at_value a else andGroup \<and> at_value a) False)"

definition evaluateAtoms :: "condition_atom list \<Rightarrow> bool" where
  "evaluateAtoms atoms = (if atoms = [] then True else eval_atoms atoms False True True)"

definition applyComparison :: "(real \<Rightarrow> string) \<Rightarrow> jsval \<Rightarrow> string \<Rightarrow> jsval \<Rightarrow> string + bool" where
  "applyComparison fs left op right =
     (if op = ''='' \<or> op = ''=='' then Inr (loose_eq fs left right)
      else if op = ''!='' then Inr (\<not> loose_eq fs left right)
      else if op = ''<'' then Inr (js_less fs left right = Some True)
      else if op = ''>'' then Inr (js_less fs right left = Some True)
      else if op = ''<='' then Inr (js_less fs right left = Some False)
      else if op = ''>='' then Inr (js_less fs left right = Some False)
      else if op = ''iLike'' then
        Inr (case (left, right) of (JStr l, JStr r) \<Rightarrow> str_includes l r | _ \<Rightarrow> False)
      else Inl (''Unsupported comparison operator: '' @ op))"

text \<open>Own properties: the keys of an object; the indices of an array, and its length.\<close>

definition array_index :: "string \<Rightarrow> nat option" where
  "array_index key = (if all_digits key \<and> show_nat (digits_val key) = key then Some (digits_val key) else None)"

fun own_prop :: "jsval \<Rightarrow> string \<Rightarrow> jsval option" where
  "own_prop (JObj m) key = map_of m key"
| "own_prop (JArr vs) key =
     (if key = ''length'' then Some (JNum (Fin (real (length vs))))
      else case array_index key of None \<Rightarrow> None | Some i \<Rightarrow> if i < length vs then Some (vs ! i) else None)"
| "own_prop _ _ = None"

fun get_keys :: "string list \<Rightarrow> jsval \<Rightarrow> jsval" where
  "get_keys [] current = current"
| "get_keys (key # keys) current =
     (if js_nullish current then JUndefined
      else if List.member PROTOTYPE_KEYS key then JUndefined
      else if \<not> is_object current then JUndefined
      else case own_prop current key of None \<Rightarrow> JUndefined | Some v \<Rightarrow> get_keys keys v)"

definition safeGetPath :: "jsval \<Rightarrow> string \<Rightarrow> jsval" where
  "safeGetPath obj path = (if path = [] then JUndefined else get_keys (split_on (CHR ''.'') path) obj)"

definition safeOwnProp :: "jsval \<Rightarrow> string \<Rightarrow> jsval" where
  "safeOwnProp obj key =
     (if js_nullish obj \<or> \<not> is_object obj then JUndefined
      else if List.member PROTOTYPE_KEYS key then JUndefined
      else case own_prop obj key of None \<Rightarrow> JUndefined | Some v \<Rightarrow> v)"

definition hasSafeOwnProp :: "jsval \<Rightarrow> string \<Rightarrow> bool" where
  "hasSafeOwnProp obj key \<longleftrightarrow>
     \<not> js_nullish obj \<and> is_object obj \<and> \<not> List.member PROTOTYPE_KEYS key \<and> own_prop obj key \<noteq> None"

definition ALLOWED_CLICKHOUSE_OPERATORS :: "string list" where
  "ALLOWED_CLICKHOUSE_OPERATORS = [''='', ''!='', ''<'', ''>'', ''<='', ''>='']"

definition assertAllowedClickhouseOperator :: "(real \<Rightarrow> string) \<Rightarrow> jsval \<Rightarrow> string + string" where
  "assertAllowedClickhouseOperator fs op =
     (case op of
        JStr s \<Rightarrow> if List.member ALLOWED_CLICKHOUSE_OPERATORS s then Inr s
                  else Inl (''Disallowed ClickHouse operator: '' @ s)
      | _ \<Rightarrow> Inl (''Disallowed ClickHouse operator: '' @ to_str fs op))"

section \<open>The date pattern\<close>

text \<open>A pattern and its matcher: the rests of the text after each way to match a prefix.\<close>

datatype pattern =
    OneOf "char list"
  | Digits nat nat
  | Seq "pattern list"
  | Either "pattern list"
  | Maybe pattern

fun rests :: "pattern \<Rightarrow> string \<Rightarrow> string list"
  and rests_seq :: "pattern list \<Rightarrow> string \<Rightarrow> string list"
  and rests_either :: "pattern list \<Rightarrow> string \<Rightarrow> string list" where
  "rests (OneOf cs) s = (case s of [] \<Rightarrow> [] | c # r \<Rightarrow> if List.member cs c then [r] else [])"
| "rests (Digits lo hi) s =
     map (\<lambda>n. drop n s) (filter (\<lambda>n. n \<le> length s \<and> list_all is_digit (take n s)) [lo..<Suc hi])"
| "rests (Seq ps) s = rests_seq ps s"
| "rests (Either ps) s = rests_either ps s"
| "rests (Maybe p) s = s # rests p s"
| "rests_seq [] s = [s]"
| "rests_seq (p # ps) s = concat (map (rests_seq ps) (rests p s))"
| "rests_either [] s = []"
| "rests_either (p # ps) s = rests p s @ rests_either ps s"

definition matches :: "pattern \<Rightarrow> string \<Rightarrow> bool" where
  "matches p s \<longleftrightarrow> List.member (rests p s) []"

definition ISO_DATE_RE :: pattern where
  "ISO_DATE_RE =
     Seq [Digits 4 4, OneOf ''-'', Digits 2 2, OneOf ''-'', Digits 2 2,
       Maybe (Seq [OneOf '' T'', Digits 2 2, OneOf '':'', Digits 2 2,
         Maybe (Seq [OneOf '':'', Digits 2 2, Maybe (Seq [OneOf ''.'', Digits 1 9])]),
         Maybe (Either [OneOf ''Z'', Seq [OneOf ''+-'', Digits 2 2, Maybe (OneOf '':''), Digits 2 2]])])]"

definition assertIsoDate :: "(real \<Rightarrow> string) \<Rightarrow> jsval \<Rightarrow> string \<Rightarrow> string + string" where
  "assertIsoDate fs value fieldName =
     (case value of
        JStr s \<Rightarrow> if matches ISO_DATE_RE s then Inr s
                  else Inl (''Invalid date for '' @ fieldName @ '': '' @ s)
      | _ \<Rightarrow> Inl (''Invalid date for '' @ fieldName @ '': '' @ to_str fs value))"

definition assertSafeKey :: "string \<Rightarrow> string \<Rightarrow> string + string" where
  "assertSafeKey key fieldName =
     (if key = [] \<or> List.member PROTOTYPE_KEYS key
      then Inl (''Unsafe key for '' @ fieldName @ '': '' @ key) else Inr key)"

section \<open>Properties\<close>

text \<open>The groups that the \<open>or\<close> atoms open.\<close>

fun and_groups :: "condition_atom list \<Rightarrow> bool list list" where
  "and_groups [] = [[]]"
| "and_groups (a # as) =
     (case and_groups as of
        [] \<Rightarrow> [[at_value a]]
      | g # gs \<Rightarrow> if at_op a = Some OrOp then [] # (at_value a # g) # gs else (at_value a # g) # gs)"

abbreviation any_group :: "bool list list \<Rightarrow> bool" where
  "any_group \<equiv> list_ex (list_all (\<lambda>b. b))"

lemma and_groups_nonempty: "and_groups as \<noteq> []"
  by (induction as) (auto split: list.split)

lemma eval_atoms_groups:
  "eval_atoms as orResult andGroup False =
     (orResult \<or> (andGroup \<and> list_all (\<lambda>b. b) (hd (and_groups as))) \<or> any_group (tl (and_groups as)))"
proof (induction as arbitrary: orResult andGroup)
  case (Cons a as)
  obtain g gs where "and_groups as = g # gs" using and_groups_nonempty by (cases "and_groups as") auto
  with Cons show ?case by (cases "at_op a = Some OrOp") auto
qed simp

text \<open>C39: the left-to-right evaluation has the usual precedence: it holds exactly when all atoms of
  some group hold, where each \<open>or\<close> atom opens a group; with no atom it holds.\<close>

theorem evaluateAtoms_dnf: "evaluateAtoms atoms = any_group (and_groups atoms)"
proof (cases atoms)
  case Nil
  then show ?thesis by (simp add: evaluateAtoms_def)
next
  case (Cons a as)
  obtain g gs where "and_groups as = g # gs" using and_groups_nonempty by (cases "and_groups as") auto
  with Cons show ?thesis
    by (cases "at_op a = Some OrOp") (auto simp: evaluateAtoms_def eval_atoms_groups)
qed

text \<open>Allowed characters of a pattern.\<close>

fun pattern_chars :: "pattern \<Rightarrow> char \<Rightarrow> bool" where
  "pattern_chars (OneOf cs) c \<longleftrightarrow> c \<in> set cs"
| "pattern_chars (Digits lo hi) c \<longleftrightarrow> is_digit c"
| "pattern_chars (Seq ps) c \<longleftrightarrow> list_ex (\<lambda>p. pattern_chars p c) ps"
| "pattern_chars (Either ps) c \<longleftrightarrow> list_ex (\<lambda>p. pattern_chars p c) ps"
| "pattern_chars (Maybe p) c \<longleftrightarrow> pattern_chars p c"

lemma rests_chars:
  "r \<in> set (rests p s) \<Longrightarrow> \<exists>u. s = u @ r \<and> (\<forall>c \<in> set u. pattern_chars p c)"
  "r \<in> set (rests_seq ps s) \<Longrightarrow> \<exists>u. s = u @ r \<and> (\<forall>c \<in> set u. list_ex (\<lambda>p. pattern_chars p c) ps)"
  "r \<in> set (rests_either ps s) \<Longrightarrow> \<exists>u. s = u @ r \<and> (\<forall>c \<in> set u. list_ex (\<lambda>p. pattern_chars p c) ps)"
proof (induction p s and ps s and ps s arbitrary: r and r and r rule: rests_rests_seq_rests_either.induct)
  case (1 cs s)
  then show ?case by (cases s) (auto split: if_splits intro: exI [of _ "[_]"])
next
  case (2 lo hi s)
  then obtain n where "r = drop n s" "list_all is_digit (take n s)" by auto
  then show ?case by (intro exI [of _ "take n s"]) (auto simp: list_all_iff)
next
  case (7 p ps s)
  then obtain m where "m \<in> set (rests p s)" "r \<in> set (rests_seq ps m)" by auto
  with 7 obtain u v where "s = u @ m" "m = v @ r" "\<forall>c \<in> set u. pattern_chars p c"
      "\<forall>c \<in> set v. list_ex (\<lambda>p. pattern_chars p c) ps" by metis
  then show ?case by (intro exI [of _ "u @ v"]) auto
next
  case (9 p ps s)
  then show ?case by fastforce
qed (fastforce intro: exI [of _ "[]"])+

text \<open>Result: what passes the date check is harmless in a query: only digits and the characters
  \<open>- T Z : . +\<close> and the space, so no quote, backslash or semicolon.\<close>

theorem assertIsoDate_safe:
  assumes "assertIsoDate fs v f = Inr d"
  shows "v = JStr d \<and> list_all (\<lambda>c. is_digit c \<or> List.member ''-T Z:.+'' c) d"
proof -
  have v: "v = JStr d" "matches ISO_DATE_RE d"
    using assms by (auto simp: assertIsoDate_def split: jsval.splits if_splits)
  then have "[] \<in> set (rests ISO_DATE_RE d)" by (simp add: matches_def)
  from rests_chars(1) [OF this] have "\<forall>c \<in> set d. pattern_chars ISO_DATE_RE c" by auto
  then have "list_all (\<lambda>c. is_digit c \<or> List.member ''-T Z:.+'' c) d"
    by (auto simp: ISO_DATE_RE_def list_all_iff)
  with v show ?thesis by simp
qed

theorem assertIsoDate_safe_witness:
  "assertIsoDate (\<lambda>_. []) (JStr ''2026-05-01 10:30:00.5Z'') ''f'' = Inr ''2026-05-01 10:30:00.5Z'' \<and>
   list_all (\<lambda>c. is_digit c \<or> List.member ''-T Z:.+'' c) ''2026-05-01 10:30:00.5Z''"
proof -
  have "assertIsoDate (\<lambda>_. []) (JStr ''2026-05-01 10:30:00.5Z'') ''f'' = Inr ''2026-05-01 10:30:00.5Z''"
    by (simp add: assertIsoDate_def matches_def ISO_DATE_RE_def is_digit_def upt_rec numeral_eq_Suc)
  with assertIsoDate_safe [OF this] show ?thesis by blast
qed

text \<open>A chain of own properties that avoids the prototype keys.\<close>

inductive reaches :: "jsval \<Rightarrow> string list \<Rightarrow> jsval \<Rightarrow> bool" where
  here: "reaches v [] v"
| into: "own_prop v key = Some w \<Longrightarrow> \<not> List.member PROTOTYPE_KEYS key \<Longrightarrow> reaches w keys u \<Longrightarrow>
    reaches v (key # keys) u"

inductive_simps reaches_simps: "reaches v [] u" "reaches v (key # keys) u"

lemma own_prop_object: "own_prop v key = Some w \<Longrightarrow> is_object v \<and> \<not> js_nullish v"
  by (cases v) (auto simp: js_nullish_def)

lemma get_keys_reaches: "reaches v keys u \<Longrightarrow> get_keys keys v = u"
  by (induction rule: reaches.induct) (auto dest: own_prop_object)

lemma reaches_get_keys: "get_keys keys v \<noteq> JUndefined \<Longrightarrow> reaches v keys (get_keys keys v)"
  by (induction keys v rule: get_keys.induct) (auto simp: reaches_simps split: if_splits option.splits)

text \<open>Result: the safe path lookup reads own properties only and never a prototype key: a value other
  than \<open>undefined\<close> is found exactly at the end of such a chain.\<close>

theorem safeGetPath_own_only:
  "(safeGetPath obj path = v \<and> v \<noteq> JUndefined) =
   (path \<noteq> [] \<and> reaches obj (split_on (CHR ''.'') path) v \<and> v \<noteq> JUndefined)"
  using get_keys_reaches reaches_get_keys by (auto simp: safeGetPath_def)

end
