(* ===== verification/Engine.thy ===== *)
theory Engine
  imports SafeEvaluator
begin

text \<open>
  The automation engine, \<open>message-trigger/src\<close>: data of \<open>interfaces.ts\<close>, the routing of
  \<open>providers/queue/queue.publisher.ts\<close>, \<open>handlers/activesteps.handler.ts\<close>, and the effects an
  execution of a step has. Settings are JSON values, as in the source, where they are
  \<open>any\<close>. An execution returns its result or its error together with the log of the
  effects so far; what it reads (Redis keys, the database, random numbers, the clock,
  whether a queue accepts a message) is given by an environment.
\<close>

section \<open>Data\<close>

datatype step_type =
    EMAIL | END | WAIT | CONDITIONAL_TIME | ADD_TAG | REMOVE_TAG | CONDITIONAL | SPLIT
  | WEB_PUSH | SMS | WHATSAPP | TESTAB | UPDATE_CUSTOM_FIELD | HTTP_REQUEST | MOBILE_PUSH
  | RANDOM_MESSAGE | RANDOM_WEB_PUSH | RANDOM_MOBILE_PUSH | CONTACT_TRANSFER | REMOVE_AUTOMATION
  | OtherType string

datatype step = Step
  (st_id: jsval) (st_type: step_type) (st_settings: jsval) (st_isTestabMode: bool)
  (st_child: "step list option")

definition step_type_str :: "step_type \<Rightarrow> string" where
  "step_type_str t = (case t of
     EMAIL \<Rightarrow> ''email'' | END \<Rightarrow> ''end'' | WAIT \<Rightarrow> ''wait'' | CONDITIONAL_TIME \<Rightarrow> ''conditionalTime''
   | ADD_TAG \<Rightarrow> ''addTag'' | REMOVE_TAG \<Rightarrow> ''removeTag'' | CONDITIONAL \<Rightarrow> ''conditional''
   | SPLIT \<Rightarrow> ''split'' | WEB_PUSH \<Rightarrow> ''webPush'' | SMS \<Rightarrow> ''sms'' | WHATSAPP \<Rightarrow> ''whatsapp''
   | TESTAB \<Rightarrow> ''testAB'' | UPDATE_CUSTOM_FIELD \<Rightarrow> ''updateCustomField''
   | HTTP_REQUEST \<Rightarrow> ''httpRequest'' | MOBILE_PUSH \<Rightarrow> ''mobilePush''
   | RANDOM_MESSAGE \<Rightarrow> ''randomMessage'' | RANDOM_WEB_PUSH \<Rightarrow> ''randomWebPush''
   | RANDOM_MOBILE_PUSH \<Rightarrow> ''randomMobilePush'' | CONTACT_TRANSFER \<Rightarrow> ''contactTransfer''
   | REMOVE_AUTOMATION \<Rightarrow> ''removeAutomation'' | OtherType s \<Rightarrow> s)"

record contact =
  ct_id :: jsval
  ct_accountId :: jsval
  ct_email :: string
  ct_uuid :: jsval

record automation =
  au_id :: jsval
  au_name :: string
  au_title :: string
  au_type :: jsval
  au_isRateLimit :: jsval
  au_triggers :: jsval
  au_steps :: "step list"

record lead_state_message =
  ls_id :: jsval
  ls_accountId :: jsval
  ls_timeZone :: "string option"
  ls_automation :: automation
  ls_activeStepId :: string
  ls_activeEmailId :: "real option"
  ls_contact :: contact
  ls_tagName :: jsval
  ls_startedAt :: jsval
  ls_leadId :: jsval
  ls_messageIdEmail1 :: jsval

record send_message =
  sm_startedAt :: jsval
  sm_automationId :: jsval
  sm_automationName :: string
  sm_automationType :: jsval
  sm_isRateLimit :: jsval
  sm_applyFrequency :: jsval
  sm_utmContent :: string
  sm_accountId :: jsval
  sm_emailId :: jsval
  sm_message :: jsval
  sm_isTestabMode :: bool
  sm_utmCampaign :: string
  sm_contact :: contact
  sm_next :: lead_state_message

datatype payload =
    PNext lead_state_message
  | PSendEmail send_message
  | PSendNotification send_message
  | PTag string jsval
  | PStepProcess jsval step
  | PHttpRequest lead_state_message

text \<open>Effects: AMQP publications, BullMQ jobs with their delay, internal events, Redis writes,
  calls of the database and of HTTP
  (operation, address, headers, body), tracker lines.\<close>

datatype eng_out =
    AmqpPublish string string payload
  | QueueAdd string payload real
  | InternalEvent string "(string \<times> jsval) list" jsval
  | RedisSet string string
  | RedisDel "string list"
  | HttpCall string string jsval jsval
  | SetCustomField jsval jsval
  | TrackerLine string

type_synonym 'a eng = "(string + 'a) \<times> eng_out list"

record engine_env =
  ev_process :: "string \<Rightarrow> string option"
  ev_accepts :: "string \<Rightarrow> bool"
  ev_redisGet :: "string \<Rightarrow> string option"
  ev_random :: "nat \<Rightarrow> nat"
  ev_hour :: "string \<Rightarrow> real"
  ev_hoursUntil :: "string \<Rightarrow> real \<Rightarrow> real"
  ev_dateDaysAgo :: "string \<Rightarrow> jsval \<Rightarrow> string"
  ev_msDaysAgo :: "string \<Rightarrow> jsval \<Rightarrow> jsnum"
  ev_msOf :: "string \<Rightarrow> jsval \<Rightarrow> jsnum"
  ev_isoString :: "jsval \<Rightarrow> string option"
  ev_contact :: "jsval option"
  ev_lead :: "jsval \<Rightarrow> jsval option"
  ev_events :: "string \<Rightarrow> (string \<times> jsval) list \<Rightarrow> nat option"
  ev_message :: "jsval \<Rightarrow> jsval option"
  ev_http :: "string \<Rightarrow> jsval \<Rightarrow> bool"
  ev_fracStr :: "real \<Rightarrow> string"

section \<open>Sequencing\<close>

definition ret :: "'a \<Rightarrow> 'a eng" where
  "ret x = (Inr x, [])"

definition throw :: "string \<Rightarrow> 'a eng" where
  "throw e = (Inl e, [])"

definition out :: "eng_out \<Rightarrow> unit eng" where
  "out x = (Inr (), [x])"

definition andThen :: "'a eng \<Rightarrow> ('a \<Rightarrow> 'b eng) \<Rightarrow> 'b eng" where
  "andThen m f = (case m of
     (Inl e, os) \<Rightarrow> (Inl e, os)
   | (Inr x, os) \<Rightarrow> (case f x of (r, os') \<Rightarrow> (r, os @ os')))"

definition catchError :: "'a eng \<Rightarrow> (string \<Rightarrow> 'a eng) \<Rightarrow> 'a eng" where
  "catchError m h = (case m of
     (Inl e, os) \<Rightarrow> (case h e of (r, os') \<Rightarrow> (r, os @ os'))
   | (Inr x, os) \<Rightarrow> (Inr x, os))"

definition lift :: "string + 'a \<Rightarrow> 'a eng" where
  "lift r = (r, [])"

text \<open>Reading a property: of \<open>undefined\<close> and \<open>null\<close> it throws.\<close>

definition get :: "jsval \<Rightarrow> string \<Rightarrow> jsval" where
  "get v k = (case own_prop v k of None \<Rightarrow> JUndefined | Some x \<Rightarrow> x)"

definition read_prop :: "jsval \<Rightarrow> string \<Rightarrow> string + jsval" where
  "read_prop v k = (if js_nullish v then Inl ''TypeError'' else Inr (get v k))"

definition sumThen :: "string + 'a \<Rightarrow> ('a \<Rightarrow> string + 'b) \<Rightarrow> string + 'b" where
  "sumThen r f = (case r of Inl e \<Rightarrow> Inl e | Inr x \<Rightarrow> f x)"

text \<open>The entries a spread \<open>{...v}\<close> copies.\<close>

fun spread :: "jsval \<Rightarrow> (string \<times> jsval) list" where
  "spread (JObj m) = m"
| "spread (JArr vs) = zip (map show_nat [0..<length vs]) vs"
| "spread (JStr cs) = zip (map show_nat [0..<length cs]) (map (\<lambda>c. JStr [c]) cs)"
| "spread _ = []"

definition with_props :: "(string \<times> jsval) list \<Rightarrow> (string \<times> jsval) list \<Rightarrow> (string \<times> jsval) list" where
  "with_props base new = fold (\<lambda>(k, v) m. jsset k v m) new base"

section \<open>Queues (\<open>queue.publisher.ts\<close>)\<close>

definition topic_name :: "engine_env \<Rightarrow> string \<Rightarrow> string \<Rightarrow> string" where
  "topic_name env var dflt' = (case ev_process env var of Some (c # cs) \<Rightarrow> c # cs | _ \<Rightarrow> dflt')"

definition queueMap :: "engine_env \<Rightarrow> (string \<times> string) list" where
  "queueMap env = fold (\<lambda>(k, v) m. jsset k v m)
     [(topic_name env ''TOPIC_NAME_MESSAGE_TRIGGER'' ''message-trigger'', ''message-trigger''),
      (topic_name env ''TOPIC_NAME_HTTP_REQUEST'' ''http-request'', ''http-request''),
      (topic_name env ''TOPIC_NAME_TAG_PROCESS'' ''tag-process'', ''tag-process'')] []"

definition amqpRoutes :: "engine_env \<Rightarrow> (string \<times> (string \<times> string)) list" where
  "amqpRoutes env = fold (\<lambda>(k, v) m. jsset k v m)
     [(topic_name env ''TOPIC_NAME_SEND_EMAIL'' ''send-email'', (''bms.email'', ''email.send'')),
      (topic_name env ''TOPIC_NAME_SEND_PUSH'' ''send-push'', (''bms.push'', ''push.send'')),
      (topic_name env ''TOPIC_NAME_SEND_TWILIO'' ''send-twilio'', (''bms.sms'', ''sms.send'')),
      (topic_name env ''TOPIC_NAME_SEND_WHATSAPP'' ''send-whatsapp'', (''bms.whatsapp'', ''whatsapp.send'')),
      (topic_name env ''TOPIC_NAME_EVENT_PROCESS'' ''event-process'', (''bms.events'', ''event.received.internal''))] []"

definition amqp_configured :: "engine_env \<Rightarrow> bool" where
  "amqp_configured env \<longleftrightarrow> ev_process env ''AMQP_URL'' \<noteq> None \<and> ev_process env ''AMQP_URL'' \<noteq> Some []"

text \<open>The topic is the value of an environment variable, so it may be missing.\<close>

definition sendAsyncMessage :: "engine_env \<Rightarrow> string option \<Rightarrow> payload \<Rightarrow> unit eng" where
  "sendAsyncMessage env topic p =
     (case Option.bind topic (map_of (amqpRoutes env)) of
        Some (exchange, routingKey) \<Rightarrow>
          if \<not> amqp_configured env then throw ''AMQP_URL is required to publish''
          else if ev_accepts env exchange then out (AmqpPublish exchange routingKey p)
          else throw ''publish failed''
      | None \<Rightarrow>
          (case Option.bind topic (map_of (queueMap env)) of
             None \<Rightarrow> throw ''No queue mapped for topic/queue''
           | Some q \<Rightarrow> if ev_accepts env q then out (QueueAdd q p 0) else throw ''queue failed''))"

definition sendInternalEvent :: "engine_env \<Rightarrow> string \<Rightarrow> (string \<times> jsval) list \<Rightarrow> jsval \<Rightarrow> unit eng" where
  "sendInternalEvent env event props messageId =
     (if ev_accepts env (if amqp_configured env then ''bms.events'' else ''event-process'')
      then out (InternalEvent event props messageId) else throw ''publish failed'')"

definition scheduleDelayed :: "engine_env \<Rightarrow> payload \<Rightarrow> real \<Rightarrow> step_type \<Rightarrow> unit eng" where
  "scheduleDelayed env p waitForMinutes t =
     (let q = (if t = CONDITIONAL_TIME then ''queueCondition'' else ''queueTimer'') in
      if ev_accepts env q then out (QueueAdd q p (max 0 (waitForMinutes * 60 * 1000)))
      else throw ''queue failed'')"

section \<open>The next message (\<open>activesteps.handler.ts\<close>)\<close>

definition end_step :: step where
  "end_step = Step (JNum (Fin 0)) END (JObj []) False (Some [])"

definition next_steps :: "step \<Rightarrow> step list" where
  "next_steps s = (case st_child s of Some (c # cs) \<Rightarrow> c # cs | _ \<Rightarrow> [end_step])"

definition createNextLeadStateMessage ::
  "(real \<Rightarrow> string) \<Rightarrow> lead_state_message \<Rightarrow> step \<Rightarrow> lead_state_message" where
  "createNextLeadStateMessage fs m s =
     m\<lparr>ls_automation := (ls_automation m)\<lparr>au_steps := next_steps s\<rparr>,
       ls_activeStepId := to_str fs (st_id (hd (next_steps s)))\<rparr>"

definition sendNext :: "engine_env \<Rightarrow> lead_state_message \<Rightarrow> unit eng" where
  "sendNext env next = sendAsyncMessage env (ev_process env ''TOPIC_NAME_MESSAGE_TRIGGER'') (PNext next)"

text \<open>A failure of the internal event is swallowed.\<close>

definition processStepToInternalEvent :: "engine_env \<Rightarrow> (string \<times> jsval) list \<Rightarrow> unit eng" where
  "processStepToInternalEvent env props =
     catchError (sendInternalEvent env ''step'' props
       (if truthy (obj_get props ''messageId'') then obj_get props ''messageId'' else JUndefined))
       (\<lambda>_. ret ())"

definition step_props :: "step \<Rightarrow> (string \<times> jsval) list \<Rightarrow> (string \<times> jsval) list" where
  "step_props s extra = with_props (spread (st_settings s))
     (extra @ [(''stepId'', st_id s), (''stepType'', JStr (step_type_str (st_type s)))])"

section \<open>Rules of the sequencing\<close>

lemma andThen_simps [simp]:
  "andThen (Inr x, os) f = (fst (f x), os @ snd (f x))"
  "andThen (Inl e, os) f = (Inl e, os)"
  by (simp_all add: andThen_def split: prod.split)

lemma andThen_basic [simp]:
  "andThen (ret x) f = f x" "andThen (throw e) f = throw e"
  by (simp_all add: ret_def throw_def)

lemma catchError_simps [simp]:
  "catchError (Inr x, os) h = (Inr x, os)"
  "catchError (Inl e, os) h = (fst (h e), os @ snd (h e))"
  by (simp_all add: catchError_def split: prod.split)

lemma fst_basic [simp]: "fst (ret x) = Inr x" "fst (throw e) = Inl e" "fst (lift r) = r" "fst (out x') = Inr ()"
  by (simp_all add: ret_def throw_def lift_def out_def)

lemma sumThen_Inr: "sumThen r f = Inr y \<longleftrightarrow> (\<exists>x. r = Inr x \<and> f x = Inr y)"
  by (cases r) (simp_all add: sumThen_def)

text \<open>The steps of the messages an effect carries on to: what a consumer of it hands back to the
  engine in the end.\<close>

definition carries :: "payload \<Rightarrow> step list list" where
  "carries p = (case p of
     PSendEmail s \<Rightarrow> [au_steps (ls_automation (sm_next s))]
   | PSendNotification s \<Rightarrow> [au_steps (ls_automation (sm_next s))]
   | PNext m \<Rightarrow> [au_steps (ls_automation m)]
   | _ \<Rightarrow> [])"

fun continuation :: "eng_out \<Rightarrow> step list list" where
  "continuation (AmqpPublish _ _ p) = carries p"
| "continuation (QueueAdd _ p _) = carries p"
| "continuation _ = []"

definition continuations :: "eng_out list \<Rightarrow> step list list" where
  "continuations os = concat (map continuation os)"

lemma continuations_simps [simp]:
  "continuations [] = []" "continuations (x # os) = continuation x @ continuations os"
  "continuations (os @ os') = continuations os @ continuations os'"
  by (simp_all add: continuations_def)

text \<open>An execution that carries nothing on, and one that, if it succeeds, carries on exactly these.\<close>

definition silent :: "'a eng \<Rightarrow> bool" where
  "silent m \<longleftrightarrow> continuations (snd m) = []"

definition carries_on :: "'a eng \<Rightarrow> step list list \<Rightarrow> bool" where
  "carries_on m ms \<longleftrightarrow> (\<forall>x. fst m = Inr x \<longrightarrow> continuations (snd m) = ms) \<and>
     (\<forall>e. fst m = Inl e \<longrightarrow> continuations (snd m) = [])"

lemma silent_basic [simp]:
  "silent (ret x)" "silent (throw e)" "silent (lift r)" "continuation o' = [] \<Longrightarrow> silent (out o')"
  by (simp_all add: silent_def ret_def throw_def lift_def out_def)

lemma silent_andThen: "silent m \<Longrightarrow> (\<And>x. silent (f x)) \<Longrightarrow> silent (andThen m f)"
  by (cases m; cases "fst m") (auto simp: silent_def)

lemma silent_catch: "silent m \<Longrightarrow> (\<And>e. silent (h e)) \<Longrightarrow> silent (catchError m h)"
  by (cases m; cases "fst m") (auto simp: silent_def)

lemma carries_andThen:
  "silent m \<Longrightarrow> (\<And>x. fst m = Inr x \<Longrightarrow> carries_on (f x) ms) \<Longrightarrow> carries_on (andThen m f) ms"
  by (cases m; cases "fst m") (auto simp: silent_def carries_on_def)

lemma carries_silent: "silent m \<Longrightarrow> carries_on m []"
  by (simp add: silent_def carries_on_def)

lemma carries_throw [simp]: "carries_on (throw e) ms"
  by (simp add: carries_on_def throw_def)

lemma carries_send: "carries_on (sendAsyncMessage env t p) (carries p)"
  by (auto simp: sendAsyncMessage_def carries_on_def out_def throw_def split: option.split)

lemma carries_sendNext: "carries_on (sendNext env m) [au_steps (ls_automation m)]"
  using carries_send [of env _ "PNext m"] by (simp add: sendNext_def carries_def)

lemma carries_schedule: "carries_on (scheduleDelayed env p w t) (carries p)"
  by (auto simp: scheduleDelayed_def carries_on_def out_def throw_def Let_def)

lemma silent_internal [simp]: "silent (processStepToInternalEvent env props)"
  by (auto simp: processStepToInternalEvent_def sendInternalEvent_def intro!: silent_catch)

end
