(* ===== verification/Conditional.thy ===== *)
theory Conditional
  imports Engine
begin

text \<open>
  The conditional step, \<open>definedConditional\<close> of \<open>message-trigger/src/app.service.ts\<close>: each
  configured condition becomes an evaluator, all evaluators run on the contact, and the
  atoms decide the branch. The contact, the lead and the settings are JSON values; an
  error anywhere takes the false branch.
\<close>

section \<open>Evaluators\<close>

text \<open>An evaluator of one atom, with what it needs loaded.\<close>

record atom_evaluator =
  ae_op :: "atom_op option"
  ae_fn :: "jsval \<Rightarrow> string + bool"

definition str_of :: "engine_env \<Rightarrow> jsval \<Rightarrow> string" where
  "str_of env v = to_str (ev_fracStr env) v"

definition is_str :: "engine_env \<Rightarrow> jsval \<Rightarrow> string \<Rightarrow> bool" where
  "is_str env v s = loose_eq (ev_fracStr env) v (JStr s)"

definition zone :: "lead_state_message \<Rightarrow> string" where
  "zone m = (case ls_timeZone m of Some (c # cs) \<Rightarrow> c # cs | _ \<Rightarrow> ''UTC'')"

definition atom_opOf :: "engine_env \<Rightarrow> nat \<Rightarrow> jsval \<Rightarrow> atom_op option" where
  "atom_opOf env index atom =
     (if index > 0 \<and> truthy (get atom ''conditional'')
      then Some (if is_str env (get atom ''conditional'') ''and'' then AndOp else OrOp) else None)"

definition interaction_fn :: "engine_env \<Rightarrow> lead_state_message \<Rightarrow> jsval \<Rightarrow> jsval \<Rightarrow> string + bool" where
  "interaction_fn env m atom =
     (let event = str_of env (get atom ''event''); cond = get atom ''conditional_interation'';
          time = get atom ''time''; isAll = is_str env time ''all'';
          threshold = JStr (ev_dateDaysAgo env (zone m) (JNum (parse_int10 (str_of env time)))) in
      (\<lambda>contact. sumThen (read_prop contact event) (\<lambda>value.
        if isAll then
          Inr (if is_str env cond ''yes'' then \<not> js_nullish value else js_nullish value)
        else if is_str env cond ''yes'' then Inr (js_less (ev_fracStr env) threshold value = Some True)
        else Inr (js_less (ev_fracStr env) value threshold = Some True \<or> \<not> truthy value))))"

text \<open>Tag ids: an array, a comma-separated string, or a single value.\<close>

definition tag_ids :: "jsval \<Rightarrow> jsval list" where
  "tag_ids v = (case v of
     JArr vs \<Rightarrow> vs
   | JStr s \<Rightarrow>
       if str_includes s '','' then
         map (\<lambda>t. case js_Number t of Fin x \<Rightarrow> JNum (Fin x) | _ \<Rightarrow> JStr t)
           (filter (\<lambda>t. t \<noteq> []) (map js_trim (split_on (CHR '','') s)))
       else [v]
   | _ \<Rightarrow> [v])"

text \<open>\<open>Array.prototype.includes\<close> on values of different JSON texts.\<close>

definition arr_includes :: "jsval list \<Rightarrow> jsval \<Rightarrow> bool" where
  "arr_includes vs x \<longleftrightarrow> \<not> is_object x \<and> List.member vs x"

definition tag_fn :: "engine_env \<Rightarrow> jsval \<Rightarrow> jsval \<Rightarrow> string + bool" where
  "tag_fn env atom =
     (let ids = tag_ids (get atom ''tag_id''); wantIn = is_str env (get atom ''conditional_tag'') ''in'' in
      (\<lambda>contact. sumThen (read_prop contact ''tags'') (\<lambda>tags.
        case (if truthy tags then tags else JArr []) of
          JArr vs \<Rightarrow>
            let matches = length (filter (arr_includes vs) ids) in
            Inr (if wantIn then matches > 0 else matches = 0)
        | _ \<Rightarrow> if ids = [] then Inr (\<not> wantIn) else Inl ''TypeError'')))"

definition custom_field_fn :: "engine_env \<Rightarrow> jsval \<Rightarrow> string + (jsval \<Rightarrow> string + bool)" where
  "custom_field_fn env atom =
     (let op2 = str_of env (get atom ''conditional_custom_field'');
          isCompare = is_str env (get atom ''filter_custom_field'') ''compare_fields'';
          rawValue = get atom ''custom_field_value'' in
      sumThen (assertSafeKey (str_of env (get atom ''custom_field_id'')) ''custom_field_id'') (\<lambda>fieldId.
      sumThen (if isCompare then assertSafeKey (str_of env rawValue) ''custom_field_value'' else Inr []) (\<lambda>_.
      Inr (\<lambda>contact. sumThen (read_prop contact ''customFields'') (\<lambda>cf.
        let customFields = (if truthy cf then cf else JObj []) in
        if \<not> hasSafeOwnProp customFields fieldId then Inr False
        else applyComparison (ev_fracStr env) (safeOwnProp customFields fieldId) op2
          (if isCompare
           then (if hasSafeOwnProp customFields (str_of env rawValue)
                 then safeOwnProp customFields (str_of env rawValue) else JStr [])
           else rawValue))))))"

definition user_field_fn ::
  "engine_env \<Rightarrow> lead_state_message \<Rightarrow> jsval \<Rightarrow> string + (jsval \<Rightarrow> string + bool)" where
  "user_field_fn env m atom =
     (let userOp = get atom ''conditional_user_field''; userKey = get atom ''user_field_key'';
          userValue = get atom ''user_field_value''; fs = ev_fracStr env in
      if userKey = JStr ''created_at_date'' then
        (if userOp = JStr ''-'' then
           (let threshold = JStr (ev_dateDaysAgo env (zone m) userValue) in
            Inr (\<lambda>contact. sumThen (read_prop contact ''created_at_date'') (\<lambda>d.
              Inr (js_less fs d threshold = Some False))))
         else case ev_isoString env userValue of
           None \<Rightarrow> Inl ''RangeError''
         | Some isoDate \<Rightarrow> Inr (\<lambda>contact. sumThen (read_prop contact ''created_at_date'') (\<lambda>d.
             applyComparison fs d (str_of env userOp) (JStr isoDate))))
      else if userKey = JStr ''email_provider'' then
        Inr (\<lambda>contact. sumThen (read_prop contact ''email_provider'') (\<lambda>p.
          applyComparison fs p (str_of env userOp) userValue))
      else if userKey = JStr ''communication_channels'' then
        (let expected = (if userOp = JStr ''true'' then JBool True
                         else if userOp = JStr ''false'' then JBool False else userOp) in
         Inr (\<lambda>contact. Inr (loose_eq fs (safeOwnProp contact (str_of env userValue)) expected)))
      else Inl (''Unknown user_field key: '' @ str_of env userKey))"

text \<open>A fold that stops at the first error.\<close>

fun filterE :: "('a \<Rightarrow> string + bool) \<Rightarrow> 'a list \<Rightarrow> string + 'a list" where
  "filterE p [] = Inr []"
| "filterE p (x # xs) = sumThen (p x) (\<lambda>b. sumThen (filterE p xs) (\<lambda>ys. Inr (if b then x # ys else ys)))"

definition array_of :: "jsval \<Rightarrow> string + jsval list" where
  "array_of v = (case (if truthy v then v else JArr []) of JArr vs \<Rightarrow> Inr vs | _ \<Rightarrow> Inl ''TypeError'')"

definition automation_fn ::
  "engine_env \<Rightarrow> lead_state_message \<Rightarrow> jsval \<Rightarrow> string + (jsval \<Rightarrow> string + bool)" where
  "automation_fn env m atom =
     (let compareOp = str_of env (get atom ''conditional_user_field''); days = get atom ''user_field_value'' in
      sumThen (array_of (get atom ''user_field_automation'')) (\<lambda>autos.
      if list_ex js_nullish autos then Inl ''TypeError''
      else let ids = map (\<lambda>a. get a ''id'') autos in
      Inr (\<lambda>contact. sumThen (read_prop contact ''contactAutomations'') (\<lambda>l. sumThen (array_of l) (\<lambda>list.
        sumThen (filterE (\<lambda>a. sumThen (read_prop a ''automationId'') (\<lambda>i. Inr (arr_includes ids i))) list) (\<lambda>mine.
        sumThen (filterE (\<lambda>a. applyComparison (ev_fracStr env)
                    (JNum (ev_msOf env (zone m) (get a ''createdAt''))) compareOp
                    (JNum (ev_msDaysAgo env (zone m) days))) mine) (\<lambda>matched.
        Inr (matched \<noteq> []))))))))"

text \<open>The event condition queries ClickHouse while the evaluators are built; values are bound as
  parameters, only the checked operator is spliced into the text.\<close>

definition event_query :: "string \<Rightarrow> string" where
  "event_query tail =
     ''SELECT * FROM events_logs_v2 WHERE account_id = {accountId:UInt64} AND time_date >= {startDate:String}'' @
     '' AND event = {eventName:String} AND contact_id IS NOT NULL AND contact_id = {contactId:UInt64}'' @ tail @
     '' LIMIT 1''"

definition custom_event_fn ::
  "engine_env \<Rightarrow> lead_state_message \<Rightarrow> jsval \<Rightarrow> string + (jsval \<Rightarrow> string + bool)" where
  "custom_event_fn env m atom =
     (let fs = ev_fracStr env; time_type = get atom ''time_type'';
          isRange = is_str env time_type ''range''; isDate = is_str env time_type ''date'';
          time = get atom ''time''; date = get atom ''custom_event_date'';
          event = get atom ''event'';
          name = (if js_nullish event then JUndefined else get event ''name'');
          eventName = (if truthy name then str_of env name else ''0'') in
      sumThen (if isRange \<or> isDate then assertIsoDate fs date ''custom_event_date''
               else Inr (ev_dateDaysAgo env ''UTC'' (js_or time (JNum (Fin 30))))) (\<lambda>startDate.
      let params = [(''accountId'', ct_accountId (ls_contact m)), (''contactId'', ct_id (ls_contact m)),
                    (''startDate'', JStr startDate), (''eventName'', JStr eventName)] in
      sumThen (if isRange then
                 sumThen (assertIsoDate fs date ''custom_event_date'') (\<lambda>a.
                 sumThen (assertIsoDate fs (get atom ''custom_event_date_end'') ''custom_event_date_end'') (\<lambda>b.
                 Inr ('' AND time BETWEEN {rangeStart:String} AND {rangeEnd:String}'',
                      params @ [(''rangeStart'', JStr a), (''rangeEnd'', JStr b)])))
               else
                 sumThen (assertAllowedClickhouseOperator fs (get atom ''conditional_event_filter'')) (\<lambda>operator.
                 sumThen (if isDate then assertIsoDate fs date ''custom_event_date''
                          else Inr (ev_dateDaysAgo env ''UTC'' time)) (\<lambda>d.
                 Inr ('' AND time '' @ operator @ '' {filterDate:String}'',
                      params @ [(''filterDate'', JStr d)])))) (\<lambda>(tail, params').
      case ev_events env (event_query tail) params' of
        None \<Rightarrow> Inl ''ClickHouse error''
      | Some n \<Rightarrow>
          let kind = get atom ''conditional_event_type'';
              result = ((is_str env kind ''in'' \<and> n > 0) \<or> (is_str env kind ''not in'' \<and> n = 0)) in
          Inr (\<lambda>_. Inr result))))"

fun safe_segments :: "string list \<Rightarrow> string + string list" where
  "safe_segments [] = Inr []"
| "safe_segments (s # ss) =
     sumThen (assertSafeKey s ''lead_field_key'') (\<lambda>k. sumThen (safe_segments ss) (\<lambda>ks. Inr (k # ks)))"

definition lead_fn :: "engine_env \<Rightarrow> jsval \<Rightarrow> string + (jsval \<Rightarrow> string + bool)" where
  "lead_fn env atom =
     (let leadKey = str_of env (get atom ''lead_field_key'') in
      sumThen (safe_segments (split_on (CHR ''.'') leadKey)) (\<lambda>_.
      Inr (\<lambda>contact. sumThen (read_prop contact ''lead'') (\<lambda>lead.
        if \<not> truthy lead then Inr False
        else applyComparison (ev_fracStr env) (safeGetPath lead leadKey)
               (str_of env (get atom ''conditional_lead_field'')) (get atom ''lead_field_value'')))))"

definition atom_fn :: "engine_env \<Rightarrow> lead_state_message \<Rightarrow> jsval \<Rightarrow> string + (jsval \<Rightarrow> string + bool)" where
  "atom_fn env m atom =
     (if js_nullish atom then Inl ''TypeError''
      else let t = get atom ''type'' in
      if t = JStr ''interation'' then Inr (interaction_fn env m atom)
      else if t = JStr ''tag'' then Inr (tag_fn env atom)
      else if t = JStr ''custom_field'' then custom_field_fn env atom
      else if t = JStr ''user_field'' then user_field_fn env m atom
      else if t = JStr ''automation'' then automation_fn env m atom
      else if t = JStr ''custom_event'' then custom_event_fn env m atom
      else if t = JStr ''lead'' then lead_fn env atom
      else Inl (''Unknown conditional atom type: '' @ str_of env t))"

fun evaluators :: "engine_env \<Rightarrow> lead_state_message \<Rightarrow> nat \<Rightarrow> jsval list \<Rightarrow> string + atom_evaluator list" where
  "evaluators env m i [] = Inr []"
| "evaluators env m i (a # as) =
     sumThen (atom_fn env m a) (\<lambda>f.
     sumThen (evaluators env m (Suc i) as) (\<lambda>es.
     Inr (\<lparr>ae_op = atom_opOf env i a, ae_fn = f\<rparr> # es)))"

fun run_evaluators :: "atom_evaluator list \<Rightarrow> jsval \<Rightarrow> string + condition_atom list" where
  "run_evaluators [] contact = Inr []"
| "run_evaluators (e # es) contact =
     sumThen (ae_fn e contact) (\<lambda>b.
     sumThen (run_evaluators es contact) (\<lambda>as. Inr (\<lparr>at_op = ae_op e, at_value = b\<rparr> # as)))"

section \<open>The decision\<close>

definition find_child :: "string \<Rightarrow> step list \<Rightarrow> step option" where
  "find_child t cs = find (\<lambda>c. step_type_str (st_type c) = t) cs"

text \<open>The configured conditions: no true branch, or no conditions, means none.\<close>

definition configured_atoms :: "step option \<Rightarrow> string + jsval list" where
  "configured_atoms stepTrue =
     (case stepTrue of None \<Rightarrow> Inr []
      | Some s \<Rightarrow> sumThen (read_prop (st_settings s) ''length'') (\<lambda>n.
          if \<not> truthy n then Inr []
          else case st_settings s of JArr vs \<Rightarrow> Inr vs | _ \<Rightarrow> Inl ''TypeError''))"

definition needs_lead :: "jsval list \<Rightarrow> bool" where
  "needs_lead atoms \<longleftrightarrow> list_ex (\<lambda>a. get a ''type'' = JStr ''lead'') atoms"

definition load_contact :: "engine_env \<Rightarrow> lead_state_message \<Rightarrow> bool \<Rightarrow> string + jsval" where
  "load_contact env m lead =
     (case ev_contact env of
        None \<Rightarrow> Inl ''TypeError''
      | Some c \<Rightarrow>
          if lead then (case ev_lead env (ls_leadId m) of
              None \<Rightarrow> Inr c
            | Some l \<Rightarrow> Inr (JObj (jsset ''lead'' l (spread c))))
          else Inr c)"

definition decide :: "engine_env \<Rightarrow> lead_state_message \<Rightarrow> step option \<Rightarrow> string + bool" where
  "decide env m stepTrue =
     sumThen (configured_atoms stepTrue) (\<lambda>atoms.
     sumThen (evaluators env m 0 atoms) (\<lambda>es.
     sumThen (load_contact env m (needs_lead atoms)) (\<lambda>contact.
     sumThen (run_evaluators es contact) (\<lambda>as. Inr (evaluateAtoms as)))))"

definition child_of :: "step option \<Rightarrow> step list option" where
  "child_of s = (case s of None \<Rightarrow> None | Some x \<Rightarrow> st_child x)"

definition definedConditional :: "engine_env \<Rightarrow> lead_state_message \<Rightarrow> step \<Rightarrow> step list option eng" where
  "definedConditional env m s =
     (case st_child s of
        None \<Rightarrow> throw ''TypeError''
      | Some cs \<Rightarrow>
          let stepTrue = find_child ''conditionalTrue'' cs in
          catchError
            (andThen (lift (decide env m stepTrue)) (\<lambda>result.
             andThen (processStepToInternalEvent env
               [(''stepId'', st_id s), (''stepType'', JStr (step_type_str (st_type s))),
                (''conditions'', case stepTrue of None \<Rightarrow> JArr []
                   | Some t \<Rightarrow> js_coalesce (st_settings t) (JArr [])),
                (''resultLogic'', JBool result), (''stepConfig'', st_settings s)]) (\<lambda>_.
             ret (if result then child_of stepTrue else child_of (find_child ''conditionalFalse'' cs)))))
            (\<lambda>_. andThen (out (TrackerLine ''MSGOPS_CONDITIONAL_EVAL_FAILED'')) (\<lambda>_.
               ret (child_of (find_child ''conditionalFalse'' cs)))))"

end
