(* ===== verification/Automation.thy ===== *)
theory Automation
  imports Conditional
begin

text \<open>
  The rest of \<open>message-trigger/src/app.service.ts\<close> and \<open>steps/condition.step.ts\<close>: the choice of
  the branch on step entry (\<open>definedStep\<close>), the execution of every type of step
  (\<open>processMessage\<close>), the stop flags and the error wrapping (\<open>receiveMessage\<close>), and the HTTP
  request job. A message names the step to execute as the first of its steps; the step
  tree it carries is the rest of the automation.
\<close>

section \<open>Branching on entry\<close>

text \<open>\<open>a + b\<close> on JSON values: a concatenation as soon as one side is a string.\<close>

fun num_add :: "jsnum \<Rightarrow> jsnum \<Rightarrow> jsnum" where
  "num_add NaN _ = NaN"
| "num_add _ NaN = NaN"
| "num_add (Fin a) (Fin b) = to_jsnum (a + b)"
| "num_add PosInf NegInf = NaN"
| "num_add NegInf PosInf = NaN"
| "num_add PosInf _ = PosInf"
| "num_add NegInf _ = NegInf"
| "num_add (Fin _) PosInf = PosInf"
| "num_add (Fin _) NegInf = NegInf"

fun is_string :: "jsval \<Rightarrow> bool" where
  "is_string (JStr _) = True"
| "is_string _ = False"

definition js_add :: "(real \<Rightarrow> string) \<Rightarrow> jsval \<Rightarrow> jsval \<Rightarrow> jsval" where
  "js_add fs a b =
     (let p = to_primitive fs a; q = to_primitive fs b in
      if is_string p \<or> is_string q then JStr (to_str fs p @ to_str fs q)
      else JNum (num_add (to_number p) (to_number q)))"

text \<open>The loop over the branches of a split: the first whose cumulated value reaches the number.\<close>

fun split_branch :: "(real \<Rightarrow> string) \<Rightarrow> nat \<Rightarrow> jsval \<Rightarrow> step list \<Rightarrow> string + step option" where
  "split_branch fs r percentage [] = Inr None"
| "split_branch fs r percentage (c # cs) =
     sumThen (read_prop (st_settings c) ''value'') (\<lambda>v.
       let p = js_add fs percentage v in
       if js_less fs p (JNum (Fin (real r))) = Some False then Inr (Some c)
       else split_branch fs r p cs)"

definition definedSplit :: "engine_env \<Rightarrow> step \<Rightarrow> step list option eng" where
  "definedSplit env s =
     (let r = ev_random env 101 in
      andThen (processStepToInternalEvent env
        (jsset ''randomPercentage'' (JNum (Fin (real r))) (step_props s []))) (\<lambda>_.
      case st_child s of
        None \<Rightarrow> throw ''TypeError''
      | Some cs \<Rightarrow>
          andThen (lift (split_branch (ev_fracStr env) r (JNum (Fin 0)) cs)) (\<lambda>b.
          ret (case b of None \<Rightarrow> Some cs | Some c \<Rightarrow> st_child c))))"

definition messages_of :: "jsval \<Rightarrow> string + jsval list" where
  "messages_of settings =
     sumThen (read_prop settings ''messages'') (\<lambda>ms. case ms of JArr vs \<Rightarrow> Inr vs | _ \<Rightarrow> Inl ''TypeError'')"

definition nth_msg :: "jsval list \<Rightarrow> nat option \<Rightarrow> jsval" where
  "nth_msg vs i = (case i of None \<Rightarrow> JUndefined | Some n \<Rightarrow> if n < length vs then vs ! n else JUndefined)"

definition opt_get :: "jsval \<Rightarrow> string \<Rightarrow> jsval" where
  "opt_get v k = (if js_nullish v then JUndefined else get v k)"

definition testab_prefix :: "engine_env \<Rightarrow> lead_state_message \<Rightarrow> step \<Rightarrow> string \<Rightarrow> string \<Rightarrow> string" where
  "testab_prefix env m s p sep =
     p @ str_of env (au_id (ls_automation m)) @ sep @ str_of env (st_id s)"

text \<open>Which variant: the flagged winner, the stored winner, or the random one while the test runs;
  the first message of a running test also starts its evaluation.\<close>

definition testab_choice ::
  "engine_env \<Rightarrow> lead_state_message \<Rightarrow> step \<Rightarrow> jsval list \<Rightarrow> nat \<Rightarrow> (nat option \<times> bool) eng" where
  "testab_choice env m s vs randomItem =
     (if get (st_settings s) ''status'' = JStr ''finished'' then
        ret (find_index (\<lambda>v. opt_get v ''winnerMessage'' = JBool True) vs, False)
      else case ev_redisGet env (testab_prefix env m s ''automation_testab_step_finished_'' ''_'') of
        Some (c # cs) \<Rightarrow>
          ret (find_index (\<lambda>v. loose_eq (ev_fracStr env) (opt_get v ''id'') (JStr (c # cs))) vs, False)
      | _ \<Rightarrow>
          let key = testab_prefix env m s ''automation_testab_step:'' '':'' in
          if ev_redisGet env key \<noteq> None then ret (Some randomItem, True)
          else
            andThen (out (RedisSet key ''date'')) (\<lambda>_.
            andThen (sendAsyncMessage env (ev_process env ''TOPIC_NAME_API_STEP_PROCESS'')
              (PStepProcess (au_id (ls_automation m)) (Step (st_id s) (st_type s) (st_settings s) (st_isTestabMode s) (Some [])))) (\<lambda>_.
            ret (Some randomItem, True))))"

definition definedTestAB :: "engine_env \<Rightarrow> lead_state_message \<Rightarrow> step \<Rightarrow> step list option eng" where
  "definedTestAB env m s =
     andThen (lift (messages_of (st_settings s))) (\<lambda>vs.
     let randomItem = ev_random env (length vs) in
     andThen (processStepToInternalEvent env
       (step_props s [(''randomIndex'', JNum (Fin (real randomItem))),
                      (''messageId'', opt_get (nth_msg vs (Some randomItem)) ''id'')])) (\<lambda>_.
     andThen (testab_choice env m s vs randomItem) (\<lambda>(i, isTestabMode).
     let v = nth_msg vs i in
     ret (if \<not> truthy v then st_child s
          else Some [Step (st_id s) EMAIL
            (JObj [(''id'', opt_get v ''id''), (''name'', opt_get v ''name''),
                   (''title'', opt_get v ''title''), (''subject'', opt_get v ''subject'')])
            isTestabMode (st_child s)]))))"

definition with_child :: "step \<Rightarrow> step list option \<Rightarrow> step" where
  "with_child s c = Step (st_id s) (st_type s) (st_settings s) (st_isTestabMode s) c"

definition definedStep :: "engine_env \<Rightarrow> lead_state_message \<Rightarrow> step option eng" where
  "definedStep env m =
     (case au_steps (ls_automation m) of
        [] \<Rightarrow> ret None
      | s # _ \<Rightarrow>
          (case st_type s of
             SPLIT \<Rightarrow> andThen (definedSplit env s) (\<lambda>c. ret (Some (with_child s c)))
           | CONDITIONAL \<Rightarrow> andThen (definedConditional env m s) (\<lambda>c. ret (Some (with_child s c)))
           | TESTAB \<Rightarrow> andThen (definedTestAB env m s) (\<lambda>c. ret (Some (with_child s c)))
           | _ \<Rightarrow> ret (Some s)))"

section \<open>Executing a step\<close>

definition env_topic :: "engine_env \<Rightarrow> string \<Rightarrow> string option" where
  "env_topic env var = ev_process env var"

definition processTag :: "engine_env \<Rightarrow> string \<Rightarrow> jsval \<Rightarrow> unit eng" where
  "processTag env typeTag tagName =
     catchError (sendAsyncMessage env (env_topic env ''TOPIC_NAME_TAG_PROCESS'') (PTag typeTag tagName))
       (\<lambda>_. throw ''Message process error'')"

fun forEach :: "('a \<Rightarrow> unit eng) \<Rightarrow> 'a list \<Rightarrow> unit eng" where
  "forEach f [] = ret ()"
| "forEach f (x # xs) = andThen (f x) (\<lambda>_. forEach f xs)"

text \<open>\<open>Promise.all\<close> of a \<open>map\<close>: all run; the first failure is the result.\<close>

fun promiseAll :: "('a \<Rightarrow> unit eng) \<Rightarrow> 'a list \<Rightarrow> unit eng" where
  "promiseAll f [] = ret ()"
| "promiseAll f (x # xs) =
     (case fst (f x) of Inl e \<Rightarrow> Inl e | Inr _ \<Rightarrow> fst (promiseAll f xs), snd (f x) @ snd (promiseAll f xs))"

text \<open>The messages of account 1 whose first e-mail the lead replaces.\<close>

definition replaced_email :: "engine_env \<Rightarrow> lead_state_message \<Rightarrow> real \<Rightarrow> jsval \<Rightarrow> jsval" where
  "replaced_email env m emailId sid =
     (if emailId = 1 \<and> truthy (ls_messageIdEmail1 m) \<and>
         loose_eq (ev_fracStr env) (ls_accountId m) (JNum (Fin 1)) \<and>
         List.member [JNum (Fin 214153), JNum (Fin 214134), JNum (Fin 210856)] sid
      then ls_messageIdEmail1 m else sid)"

definition email_number :: "lead_state_message \<Rightarrow> real" where
  "email_number m = (case ls_activeEmailId m of None \<Rightarrow> 1 | Some x \<Rightarrow> if x = 0 then 1 else x)"

text \<open>The next message carries the number of the next e-mail.\<close>

definition parseleadStateMessageToSendEmailMessage ::
  "engine_env \<Rightarrow> lead_state_message \<Rightarrow> step \<Rightarrow> lead_state_message \<Rightarrow> string + send_message" where
  "parseleadStateMessageToSendEmailMessage env m s next =
     (let emailId = email_number m in
      sumThen (read_prop (st_settings s) ''id'') (\<lambda>sid0.
      let sid = replaced_email env m emailId sid0 in
      case ev_message env sid of
        None \<Rightarrow> Inl ''TypeError''
      | Some msg \<Rightarrow> Inr
          \<lparr>sm_startedAt = ls_startedAt m, sm_automationId = au_id (ls_automation m), sm_automationName = au_title (ls_automation m),
           sm_automationType = au_type (ls_automation m), sm_isRateLimit = au_isRateLimit (ls_automation m),
           sm_applyFrequency = opt_get (opt_get (au_triggers (ls_automation m)) ''settings'') ''applyFrequency'',
           sm_utmContent = au_title (ls_automation m), sm_accountId = ls_accountId m,
           sm_emailId = sid, sm_message = JObj (AList.delete ''content'' (spread msg)),
           sm_isTestabMode = st_isTestabMode s,
           sm_utmCampaign = au_name (ls_automation m) @ ''_e'' @ num_str (ev_fracStr env) emailId @ ''_'' @
             str_of env (opt_get msg ''id''),
           sm_contact = ls_contact m, sm_next = next\<lparr>ls_activeEmailId := Some (emailId + 1)\<rparr>\<rparr>))"

definition executeStepTypeEmail ::
  "engine_env \<Rightarrow> lead_state_message \<Rightarrow> step \<Rightarrow> lead_state_message \<Rightarrow> unit eng" where
  "executeStepTypeEmail env m s next =
     andThen (lift (parseleadStateMessageToSendEmailMessage env m s next)) (\<lambda>msg.
     sendAsyncMessage env (env_topic env ''TOPIC_NAME_SEND_EMAIL'') (PSendEmail msg))"

definition parseleadStateMessageToSendNotification ::
  "engine_env \<Rightarrow> lead_state_message \<Rightarrow> step \<Rightarrow> lead_state_message \<Rightarrow> string + send_message" where
  "parseleadStateMessageToSendNotification env m s next =
     sumThen (read_prop (st_settings s) ''id'') (\<lambda>sid.
     case ev_message env sid of
       None \<Rightarrow> Inl ''TypeError''
     | Some msg \<Rightarrow> Inr
         \<lparr>sm_startedAt = ls_startedAt m, sm_automationId = au_id (ls_automation m), sm_automationName = au_title (ls_automation m),
          sm_automationType = au_type (ls_automation m), sm_isRateLimit = JUndefined, sm_applyFrequency = JUndefined,
          sm_utmContent = au_title (ls_automation m), sm_accountId = ls_accountId m,
          sm_emailId = sid, sm_message = msg, sm_isTestabMode = False,
          sm_utmCampaign = au_name (ls_automation m) @ ''_'' @ str_of env (opt_get msg ''id''),
          sm_contact = ls_contact m, sm_next = next\<rparr>)"

definition executeNotificationStep ::
  "engine_env \<Rightarrow> string \<Rightarrow> lead_state_message \<Rightarrow> step \<Rightarrow> lead_state_message \<Rightarrow> unit eng" where
  "executeNotificationStep env topicVar m s next =
     andThen (lift (parseleadStateMessageToSendNotification env m s next)) (\<lambda>msg.
     sendAsyncMessage env (env_topic env topicVar) (PSendNotification msg))"

definition selectRandomMessage :: "engine_env \<Rightarrow> step \<Rightarrow> step eng" where
  "selectRandomMessage env s =
     catchError
       (andThen (lift (messages_of (st_settings s))) (\<lambda>vs.
        let i = ev_random env (length vs); picked = nth_msg vs (Some i) in
        andThen (processStepToInternalEvent env
          (with_props (spread (st_settings s))
            [(''stepId'', st_id s), (''stepType'', JStr (step_type_str (st_type s))),
             (''randomIndex'', JNum (Fin (real i))), (''messageId'', opt_get picked ''id'')])) (\<lambda>_.
        ret (Step (st_id s) (st_type s) picked (st_isTestabMode s) (st_child s)))))
       (\<lambda>_. throw ''Error setting redis key for remove automation.'')"

definition removeAutomation :: "engine_env \<Rightarrow> lead_state_message \<Rightarrow> step \<Rightarrow> unit eng" where
  "removeAutomation env m s =
     catchError
       (case opt_get (st_settings s) ''automations'' of
          JArr as \<Rightarrow> forEach (\<lambda>a. andThen (lift (read_prop a ''id'')) (\<lambda>i.
            out (RedisSet (''automation:'' @ str_of env i @ '':remove_contact:'' @
              str_of env (ct_id (ls_contact m))) ''true''))) as
        | JStr cs \<Rightarrow> forEach (\<lambda>_. out (RedisSet (''automation:undefined:remove_contact:'' @
              str_of env (ct_id (ls_contact m))) ''true'')) cs
        | _ \<Rightarrow> throw ''TypeError'')
       (\<lambda>_. throw ''Error setting redis key for remove automation.'')"

definition contactTransfer :: "engine_env \<Rightarrow> lead_state_message \<Rightarrow> step \<Rightarrow> unit eng" where
  "contactTransfer env m s =
     (case ev_contact env of
        None \<Rightarrow> throw ''Contact not found.''
      | Some c \<Rightarrow>
          let url = (case ev_process env ''CONTACT_TRANSFER_URL'' of None \<Rightarrow> [] | Some u \<Rightarrow> u);
              body = JObj [(''contact'', JObj (fold AList.delete
                [''id'', ''accountId'', ''uuid'', ''has_web_push'', ''has_mobile_push''] (spread c))),
              (''tagName'', get (st_settings s) ''tagName''), (''apiKey'', get (st_settings s) ''apiKey''),
              (''accountChange'', JObj [(''accountFrom'', ls_accountId m),
                 (''accountTo'', get (st_settings s) ''accountId'')])] in
          if ev_http env url body
          then out (HttpCall ''post'' url (JObj [(''Content-Type'', JStr ''application/json'')]) body)
          else throw ''[HTTP-REQUEST] - Error to send'')"

definition updateCustomField :: "step \<Rightarrow> unit eng" where
  "updateCustomField s =
     andThen (lift (sumThen (read_prop (st_settings s) ''customFieldSelected'') (\<lambda>f. read_prop f ''id''))) (\<lambda>i.
     out (SetCustomField i (get (st_settings s) ''customFieldValue'')))"

text \<open>\<open>condition.step.ts\<close>: inside the window go on at once, else wait for its start.\<close>

definition waitMinutes :: "engine_env \<Rightarrow> string \<Rightarrow> jsnum \<Rightarrow> jsnum \<Rightarrow> real \<Rightarrow> real" where
  "waitMinutes env tz initialTime endTime currentValue =
     (let w = (case initialTime of Fin i \<Rightarrow> if currentValue < i then (i - currentValue) * 60 else 0
               | _ \<Rightarrow> 0) in
      if num_less endTime (Fin currentValue) = Some True
      then (case initialTime of Fin i \<Rightarrow> of_int \<lceil>ev_hoursUntil env tz i\<rceil> * 60 | _ \<Rightarrow> w) else w)"

definition processConditionalTime ::
  "engine_env \<Rightarrow> lead_state_message \<Rightarrow> lead_state_message \<Rightarrow> step \<Rightarrow> unit eng" where
  "processConditionalTime env m next s =
     (if js_nullish (st_settings s) then throw ''TypeError''
      else let num = (\<lambda>k. to_number (to_primitive (ev_fracStr env) (get (st_settings s) k)));
               initialTime = num ''initialTime''; endTime = num ''endTime'';
               tz = (case ls_timeZone m of Some (c # cs) \<Rightarrow> c # cs | _ \<Rightarrow> ''America/Sao_Paulo'');
               currentValue = ev_hour env tz in
        if num_less (Fin currentValue) initialTime = Some False \<and>
           num_less endTime (Fin currentValue) = Some False
        then sendNext env next
        else andThen (scheduleDelayed env (PNext next) (waitMinutes env tz initialTime endTime currentValue)
               CONDITIONAL_TIME) (\<lambda>_. out (TrackerLine ''MSGOPS_CREATED_CLOUD_TASK'')))"

definition processWait :: "engine_env \<Rightarrow> lead_state_message \<Rightarrow> step \<Rightarrow> unit eng" where
  "processWait env next s =
     andThen (lift (read_prop (st_settings s) ''timer'')) (\<lambda>timer.
     case to_number (to_primitive (ev_fracStr env) timer) of
       Fin rawTimer \<Rightarrow>
         if rawTimer < 0 then throw ''Invalid wait-step timer''
         else
           let minutes = (if is_str env (get (st_settings s) ''timerType'') ''hours'' then rawTimer * 60 else rawTimer) in
           andThen (processStepToInternalEvent env (step_props s [(''minutes'', JNum (Fin minutes))])) (\<lambda>_.
           catchError
             (andThen (scheduleDelayed env (PNext next) minutes (st_type s)) (\<lambda>_.
               out (TrackerLine ''MSGOPS_CREATED_CLOUD_TASK'')))
             (\<lambda>_. throw ''Error scheduling delayed step.''))
     | _ \<Rightarrow> throw ''Invalid wait-step timer'')"

definition processTags :: "engine_env \<Rightarrow> lead_state_message \<Rightarrow> step \<Rightarrow> unit eng" where
  "processTags env next s =
     (let type = (if st_type s = ADD_TAG then ''add'' else ''remove'');
          event = (\<lambda>tags. processStepToInternalEvent env
            [(''tags'', tags), (''stepId'', st_id s), (''stepType'', JStr (step_type_str (st_type s)))]) in
      andThen
        (case st_settings s of
           JArr tags \<Rightarrow> andThen (event (JArr tags)) (\<lambda>_.
             promiseAll (\<lambda>tag. andThen (lift (read_prop tag ''name'')) (processTag env type)) tags)
         | v \<Rightarrow> andThen (event (JArr [v])) (\<lambda>_.
             andThen (lift (read_prop v ''name'')) (processTag env type)))
        (\<lambda>_. sendNext env next))"

definition messageStep :: "engine_env \<Rightarrow> step \<Rightarrow> unit eng" where
  "messageStep env s =
     andThen (lift (read_prop (st_settings s) ''id'')) (\<lambda>i.
     processStepToInternalEvent env (step_props s [(''messageId'', i)]))"

definition processMessage :: "engine_env \<Rightarrow> lead_state_message \<Rightarrow> step \<Rightarrow> unit eng" where
  "processMessage env m s =
     (let next = createNextLeadStateMessage (ev_fracStr env) m s;
          event = processStepToInternalEvent env (step_props s []) in
      case st_type s of
        EMAIL \<Rightarrow> andThen (messageStep env s) (\<lambda>_. executeStepTypeEmail env m s next)
      | WEB_PUSH \<Rightarrow> andThen (messageStep env s) (\<lambda>_. executeNotificationStep env ''TOPIC_NAME_SEND_PUSH'' m s next)
      | MOBILE_PUSH \<Rightarrow> andThen (messageStep env s) (\<lambda>_. executeNotificationStep env ''TOPIC_NAME_SEND_PUSH'' m s next)
      | SMS \<Rightarrow> andThen (messageStep env s) (\<lambda>_. executeNotificationStep env ''TOPIC_NAME_SEND_TWILIO'' m s next)
      | WHATSAPP \<Rightarrow> andThen (messageStep env s) (\<lambda>_. executeNotificationStep env ''TOPIC_NAME_SEND_WHATSAPP'' m s next)
      | WAIT \<Rightarrow> processWait env next s
      | ADD_TAG \<Rightarrow> processTags env next s
      | REMOVE_TAG \<Rightarrow> processTags env next s
      | CONDITIONAL_TIME \<Rightarrow> andThen event (\<lambda>_. processConditionalTime env m next s)
      | CONDITIONAL \<Rightarrow> sendNext env next
      | SPLIT \<Rightarrow> sendNext env next
      | TESTAB \<Rightarrow> sendNext env next
      | RANDOM_MESSAGE \<Rightarrow> andThen (selectRandomMessage env s) (\<lambda>t. executeStepTypeEmail env m t next)
      | RANDOM_MOBILE_PUSH \<Rightarrow> andThen (selectRandomMessage env s)
          (\<lambda>t. executeNotificationStep env ''TOPIC_NAME_SEND_PUSH'' m t next)
      | RANDOM_WEB_PUSH \<Rightarrow> andThen (selectRandomMessage env s)
          (\<lambda>t. executeNotificationStep env ''TOPIC_NAME_SEND_PUSH'' m t next)
      | REMOVE_AUTOMATION \<Rightarrow> andThen event (\<lambda>_. andThen (removeAutomation env m s) (\<lambda>_. sendNext env next))
      | CONTACT_TRANSFER \<Rightarrow> andThen event (\<lambda>_. andThen (contactTransfer env m s) (\<lambda>_. sendNext env next))
      | UPDATE_CUSTOM_FIELD \<Rightarrow> andThen event (\<lambda>_. andThen (updateCustomField s) (\<lambda>_. sendNext env next))
      | HTTP_REQUEST \<Rightarrow> andThen (sendNext env next) (\<lambda>_. andThen event (\<lambda>_.
          sendAsyncMessage env (env_topic env ''TOPIC_NAME_HTTP_REQUEST'')
            (PHttpRequest (m\<lparr>ls_automation := (ls_automation m)\<lparr>au_steps := [s]\<rparr>\<rparr>))))
      | END \<Rightarrow> andThen (processStepToInternalEvent env
            [(''stepId'', js_or (st_id s) (JNum (Fin 0))), (''stepType'', JStr ''end'')]) (\<lambda>_.
          processTag env ''completed'' (ls_tagName m))
      | OtherType _ \<Rightarrow> ret ())"

section \<open>Receiving a message\<close>

definition leadRedisKey :: "engine_env \<Rightarrow> lead_state_message \<Rightarrow> string" where
  "leadRedisKey env m = ''automation_to_stop:'' @ ct_email (ls_contact m) @ '':'' @ au_name (ls_automation m) @
     '':'' @ str_of env (ls_startedAt m)"

definition removeAutomationKey :: "engine_env \<Rightarrow> lead_state_message \<Rightarrow> string" where
  "removeAutomationKey env m = ''automation:'' @ str_of env (au_id (ls_automation m)) @ '':remove_contact:'' @
     str_of env (ct_id (ls_contact m))"

definition automationTargetKey :: "engine_env \<Rightarrow> lead_state_message \<Rightarrow> string" where
  "automationTargetKey env m = ''automation_target_contact:'' @ str_of env (ct_id (ls_contact m)) @ '':'' @
     str_of env (ls_id m)"

datatype receive_result = Stopped | Processed

definition stopMessage :: "engine_env \<Rightarrow> lead_state_message \<Rightarrow> step option \<Rightarrow> bool \<Rightarrow> bool \<Rightarrow> receive_result eng" where
  "stopMessage env m s leadHit removeHit =
     andThen (out (RedisDel [leadRedisKey env m, removeAutomationKey env m, automationTargetKey env m])) (\<lambda>_.
     andThen (out (TrackerLine ''MSGOPS_AUTOMATION_STOPPED'')) (\<lambda>_.
     andThen
       (if removeHit \<or> leadHit then
          catchError (sendInternalEvent env ''automation-canceled''
            [(''reason'', JStr (if removeHit then ''removed-by-automation'' else ''stop-flag'')),
             (''automationId'', au_id (ls_automation m)), (''automationName'', JStr (au_name (ls_automation m))),
             (''active_step'', case s of None \<Rightarrow> JNum (Fin 0) | Some t \<Rightarrow> js_or (st_id t) (JNum (Fin 0))),
             (''active_step_type'', JStr (case s of None \<Rightarrow> ''NOT FOUND'' | Some t \<Rightarrow> step_type_str (st_type t)))]
            JUndefined) (\<lambda>_. ret ())
        else ret ()) (\<lambda>_.
     ret Stopped)))"

definition execute :: "engine_env \<Rightarrow> lead_state_message \<Rightarrow> string \<Rightarrow> step \<Rightarrow> receive_result eng" where
  "execute env m redisKeyDelete st =
     catchError
       (andThen (processMessage env m st) (\<lambda>_.
        andThen (if redisKeyDelete \<noteq> [] then out (RedisDel [redisKeyDelete]) else ret ()) (\<lambda>_.
        ret Processed)))
       (\<lambda>e. throw (''BadRequest: Message process error '' @ e))"

definition receiveMessage :: "engine_env \<Rightarrow> lead_state_message \<Rightarrow> string \<Rightarrow> receive_result eng" where
  "receiveMessage env m redisKeyDelete =
     andThen (definedStep env m) (\<lambda>s.
     andThen (out (TrackerLine ''MSGOPS_RECEIVED_LEAD'')) (\<lambda>_.
     let leadHit = ev_redisGet env (leadRedisKey env m) \<noteq> None;
         removeHit = ev_redisGet env (removeAutomationKey env m) \<noteq> None;
         targetHit = ev_redisGet env (automationTargetKey env m) \<noteq> None in
     if leadHit \<or> removeHit \<or> targetHit then stopMessage env m s leadHit removeHit
     else case s of
       None \<Rightarrow> throw ''TypeError''
     | Some st \<Rightarrow> execute env m redisKeyDelete st))"

section \<open>What each execution carries on\<close>

lemma silent_send: "carries p = [] \<Longrightarrow> silent (sendAsyncMessage env t p)"
  using carries_send [of env t p]
  by (cases "fst (sendAsyncMessage env t p)") (auto simp: carries_on_def silent_def)

lemma silent_tag [simp]: "silent (processTag env t n)"
  by (auto simp: processTag_def carries_def intro!: silent_catch silent_send)

lemma silent_forEach: "(\<And>x. silent (f x)) \<Longrightarrow> silent (forEach f xs)"
  by (induction xs) (auto intro!: silent_andThen)

lemma silent_promiseAll: "(\<And>x. silent (f x)) \<Longrightarrow> silent (promiseAll f xs)"
  by (induction xs) (simp_all add: silent_def ret_def)

lemma silent_random: "silent (selectRandomMessage env s)"
  by (auto simp: selectRandomMessage_def Let_def intro!: silent_catch silent_andThen)

lemma silent_remove: "silent (removeAutomation env m s)"
  by (auto simp: removeAutomation_def intro!: silent_catch silent_andThen silent_forEach split: jsval.split)

lemma silent_transfer: "silent (contactTransfer env m s)"
  by (auto simp: contactTransfer_def Let_def split: option.split)

lemma silent_custom: "silent (updateCustomField s)"
  by (auto simp: updateCustomField_def intro!: silent_andThen)

lemma silent_messageStep: "silent (messageStep env s)"
  by (auto simp: messageStep_def intro!: silent_andThen)

lemmas silent_steps = silent_random silent_remove silent_transfer silent_custom silent_messageStep

lemma next_carries [simp]:
  "au_steps (ls_automation (createNextLeadStateMessage fs m s)) = next_steps s"
  by (simp add: createNextLeadStateMessage_def)

lemma carries_send_to:
  "carries p = ss \<Longrightarrow> carries_on (sendAsyncMessage env u p) ss"
  using carries_send [of env u p] by simp

lemma parse_next:
  "parseleadStateMessageToSendEmailMessage env m t next = Inr q \<Longrightarrow>
     au_steps (ls_automation (sm_next q)) = au_steps (ls_automation next)"
  "parseleadStateMessageToSendNotification env m t next = Inr q \<Longrightarrow>
     au_steps (ls_automation (sm_next q)) = au_steps (ls_automation next)"
  by (auto simp: parseleadStateMessageToSendEmailMessage_def parseleadStateMessageToSendNotification_def
      sumThen_def Let_def split: sum.splits option.splits)

lemma carries_email:
  "carries_on (executeStepTypeEmail env m t next) [au_steps (ls_automation next)]"
  unfolding executeStepTypeEmail_def
  by (intro carries_andThen) (simp_all add: carries_send_to carries_def parse_next)

lemma carries_notification:
  "carries_on (executeNotificationStep env v m t next) [au_steps (ls_automation next)]"
  unfolding executeNotificationStep_def
  by (intro carries_andThen) (simp_all add: carries_send_to carries_def parse_next)

lemma carries_catch:
  "carries_on m ms \<Longrightarrow> (\<And>e. fst m = Inl e \<Longrightarrow> silent (h e)) \<Longrightarrow>
     (\<And>e x. fst m = Inl e \<Longrightarrow> fst (h e) \<noteq> Inr x) \<Longrightarrow> carries_on (catchError m h) ms"
  by (cases m; cases "fst m") (auto simp: silent_def carries_on_def)

lemma carries_then_silent:
  assumes "carries_on m ms" and "\<And>x. silent (f x)" and "\<And>x. \<exists>y. fst (f x) = Inr y"
  shows "carries_on (andThen m f) ms"
proof (cases "fst m")
  case (Inl e)
  with assms(1) show ?thesis by (cases m) (simp add: carries_on_def)
next
  case (Inr x)
  obtain y where "fst (f x) = Inr y" using assms(3) by blast
  with Inr assms(1) assms(2) [of x] show ?thesis by (cases m) (simp add: carries_on_def silent_def)
qed

lemma carries_conditional_time:
  "carries_on (processConditionalTime env m next t) [au_steps (ls_automation next)]"
proof -
  have "carries_on (scheduleDelayed env (PNext next) w CONDITIONAL_TIME) [au_steps (ls_automation next)]" for w
    using carries_schedule [of env "PNext next"] by (simp add: carries_def)
  then show ?thesis
    by (auto simp: processConditionalTime_def Let_def carries_sendNext out_def intro!: carries_then_silent
        simp: silent_def)
qed

lemma carries_wait: "carries_on (processWait env next t) [au_steps (ls_automation next)]"
proof -
  have "carries_on (scheduleDelayed env (PNext next) w (st_type t)) [au_steps (ls_automation next)]" for w
    using carries_schedule [of env "PNext next"] by (simp add: carries_def)
  then have sched: "carries_on (catchError (andThen (scheduleDelayed env (PNext next) w (st_type t)) (\<lambda>_.
      out (TrackerLine l))) (\<lambda>_. throw e)) [au_steps (ls_automation next)]" for w l e
    by (intro carries_catch carries_then_silent) (simp_all add: out_def throw_def silent_def)
  show ?thesis
    unfolding processWait_def Let_def
    by (intro carries_andThen) (auto intro!: carries_andThen sched split: jsnum.split)
qed

lemma carries_tags: "carries_on (processTags env next t) [au_steps (ls_automation next)]"
  unfolding processTags_def Let_def
  by (intro carries_andThen carries_sendNext)
    (auto intro!: silent_andThen silent_promiseAll split: jsval.split)

text \<open>A step that ends the execution, and one that is the job of a queue of its own and continues
  before that job is queued.\<close>

definition final_step :: "step \<Rightarrow> bool" where
  "final_step s \<longleftrightarrow> (case st_type s of END \<Rightarrow> True | OtherType _ \<Rightarrow> True | _ \<Rightarrow> False)"

definition carried_steps :: "step \<Rightarrow> step list list" where
  "carried_steps s = (if final_step s then [] else [next_steps s])"

lemmas next_carries_on =
  carries_email [of env m s "createNextLeadStateMessage fs n u" for env m s fs n u, simplified]
  carries_notification [of env v m s "createNextLeadStateMessage fs n u" for env v m s fs n u, simplified]
  carries_conditional_time [of env m "createNextLeadStateMessage fs n u" s for env m s fs n u, simplified]
  carries_wait [of env "createNextLeadStateMessage fs n u" s for env s fs n u, simplified]
  carries_tags [of env "createNextLeadStateMessage fs n u" s for env s fs n u, simplified]
  carries_sendNext [of env "createNextLeadStateMessage fs n u" for env fs n u, simplified]

lemma carries_processMessage:
  assumes "st_type s \<noteq> HTTP_REQUEST"
  shows "carries_on (processMessage env m s) (carried_steps s)"
  using assms unfolding processMessage_def Let_def carried_steps_def final_step_def
  by (cases "st_type s")
    (auto intro!: carries_andThen silent_steps carries_silent silent_andThen next_carries_on)

lemma http_carries:
  assumes "st_type s = HTTP_REQUEST"
  shows "(fst (processMessage env m s) = Inr () \<longrightarrow> continuations (snd (processMessage env m s)) = [next_steps s]) \<and>
    continuations (snd (processMessage env m s)) \<in> {[], [next_steps s]} \<and>
    (fst (sendNext env (createNextLeadStateMessage (ev_fracStr env) m s)) = Inr () \<longrightarrow>
       continuations (snd (processMessage env m s)) = [next_steps s])"
proof -
  let ?next = "createNextLeadStateMessage (ev_fracStr env) m s"
  let ?rest = "andThen (processStepToInternalEvent env (step_props s [])) (\<lambda>_.
          sendAsyncMessage env (env_topic env ''TOPIC_NAME_HTTP_REQUEST'')
            (PHttpRequest (m\<lparr>ls_automation := (ls_automation m)\<lparr>au_steps := [s]\<rparr>\<rparr>)))"
  have rest: "continuations (snd ?rest) = []"
    by (fold silent_def, intro silent_andThen silent_send) (simp_all add: carries_def)
  have "processMessage env m s = andThen (sendNext env ?next) (\<lambda>_. ?rest)"
    using assms by (simp add: processMessage_def Let_def)
  moreover have "carries_on (sendNext env ?next) [next_steps s]"
    by (rule next_carries_on)
  ultimately show ?thesis
    using rest by (cases "sendNext env ?next"; cases "fst (sendNext env ?next)") (auto simp: carries_on_def)
qed

lemma silent_definedSplit: "silent (definedSplit env s)"
  by (auto simp: definedSplit_def Let_def intro!: silent_andThen split: option.split)

lemma silent_definedConditional: "silent (definedConditional env m s)"
  by (auto simp: definedConditional_def Let_def intro!: silent_andThen silent_catch split: option.split)

lemma silent_choice: "silent (testab_choice env m s vs i)"
  by (auto simp: testab_choice_def Let_def carries_def intro!: silent_andThen silent_send
      split: option.split list.split)

lemma silent_definedTestAB: "silent (definedTestAB env m s)"
  unfolding definedTestAB_def Let_def
  by (intro silent_andThen silent_choice) (auto intro!: silent_andThen silent_choice split: prod.split)

lemma silent_definedStep: "silent (definedStep env m)"
  unfolding definedStep_def
  by (auto intro!: silent_andThen silent_definedSplit silent_definedConditional silent_definedTestAB
      split: list.split step_type.split)

lemma silent_stop: "silent (stopMessage env m s l r)"
  by (auto simp: stopMessage_def sendInternalEvent_def intro!: silent_andThen silent_catch)

text \<open>The execution after the choice of the branch.\<close>

definition stop_requested :: "engine_env \<Rightarrow> lead_state_message \<Rightarrow> bool" where
  "stop_requested env m \<longleftrightarrow> ev_redisGet env (leadRedisKey env m) \<noteq> None \<or>
     ev_redisGet env (removeAutomationKey env m) \<noteq> None \<or> ev_redisGet env (automationTargetKey env m) \<noteq> None"

lemma receive_cases:
  "receiveMessage env m k =
     andThen (definedStep env m) (\<lambda>s. andThen (out (TrackerLine ''MSGOPS_RECEIVED_LEAD'')) (\<lambda>_.
       if stop_requested env m then stopMessage env m s (ev_redisGet env (leadRedisKey env m) \<noteq> None)
          (ev_redisGet env (removeAutomationKey env m) \<noteq> None)
       else case s of None \<Rightarrow> throw ''TypeError'' | Some st \<Rightarrow> execute env m k st))"
  by (simp only: receiveMessage_def stop_requested_def Let_def)

lemma stop_result: "fst (stopMessage env m s l r) = Inr Stopped"
  by (cases "fst (sendInternalEvent env ''automation-canceled''
       [(''reason'', JStr (if r then ''removed-by-automation'' else ''stop-flag'')),
        (''automationId'', au_id (ls_automation m)), (''automationName'', JStr (au_name (ls_automation m))),
        (''active_step'', case s of None \<Rightarrow> JNum (Fin 0) | Some t \<Rightarrow> js_or (st_id t) (JNum (Fin 0))),
        (''active_step_type'', JStr (case s of None \<Rightarrow> ''NOT FOUND'' | Some t \<Rightarrow> step_type_str (st_type t)))]
       JUndefined)")
    (simp_all add: stopMessage_def out_def ret_def catchError_def split_beta sendInternalEvent_def throw_def)

lemma execute_result:
  "fst (execute env m k st) = (case fst (processMessage env m st) of
     Inl e \<Rightarrow> Inl (''BadRequest: Message process error '' @ e) | Inr _ \<Rightarrow> Inr Processed)"
  "continuations (snd (execute env m k st)) = continuations (snd (processMessage env m st))"
  by (cases "processMessage env m st"; cases "fst (processMessage env m st)";
      simp add: execute_def out_def ret_def throw_def)+

definition carried_ok :: "receive_result eng \<Rightarrow> step option \<Rightarrow> bool" where
  "carried_ok r s \<longleftrightarrow> (case (fst r, s) of
     (Inr Processed, Some st) \<Rightarrow> continuations (snd r) = carried_steps st
   | (Inr Processed, None) \<Rightarrow> False
   | (Inr Stopped, _) \<Rightarrow> continuations (snd r) = []
   | (Inl _, Some st) \<Rightarrow> continuations (snd r) = [] \<or>
       st_type st = HTTP_REQUEST \<and> continuations (snd r) = [next_steps st]
   | (Inl _, None) \<Rightarrow> continuations (snd r) = [])"

lemma carried_cong:
  "fst r = fst r' \<Longrightarrow> continuations (snd r) = continuations (snd r') \<Longrightarrow> carried_ok r s = carried_ok r' s"
  unfolding carried_ok_def by (simp only: )

lemma carried_stop: "carried_ok (stopMessage env m t l r) s"
  using silent_stop by (auto simp: carried_ok_def stop_result silent_def)

lemma carried_execute: "carried_ok (execute env m k st) (Some st)"
proof (cases "st_type st = HTTP_REQUEST")
  case True
  then show ?thesis
    using http_carries [OF True, of env m]
    by (cases "fst (processMessage env m st)")
      (auto simp: carried_ok_def execute_result carried_steps_def final_step_def)
next
  case False
  then show ?thesis
    using carries_processMessage [OF False, of env m]
    by (cases "fst (processMessage env m st)") (auto simp: carried_ok_def execute_result carries_on_def)
qed

definition entered_step :: "engine_env \<Rightarrow> lead_state_message \<Rightarrow> step option" where
  "entered_step env m = (case fst (definedStep env m) of Inl _ \<Rightarrow> None | Inr s \<Rightarrow> s)"

lemma receive_carried: "carried_ok (receiveMessage env m redisKeyDelete) (entered_step env m)"
proof (cases "fst (definedStep env m)")
  case (Inl e)
  then show ?thesis
    using silent_definedStep [of env m]
    by (cases "definedStep env m") (simp add: receive_cases carried_ok_def entered_step_def silent_def)
next
  case (Inr s)
  have entry: "fst (receiveMessage env m redisKeyDelete) = fst r \<and>
      continuations (snd (receiveMessage env m redisKeyDelete)) = continuations (snd r)"
    if "r = (if stop_requested env m then stopMessage env m s (ev_redisGet env (leadRedisKey env m) \<noteq> None)
          (ev_redisGet env (removeAutomationKey env m) \<noteq> None)
       else case s of None \<Rightarrow> throw ''TypeError'' | Some st \<Rightarrow> execute env m redisKeyDelete st)" for r
    using Inr silent_definedStep [of env m] that
    by (cases "definedStep env m") (simp add: receive_cases out_def silent_def)
  have s: "entered_step env m = s" using Inr by (simp add: entered_step_def)
  show ?thesis
  proof (cases "stop_requested env m")
    case True
    with entry [OF refl] show ?thesis by (simp add: carried_cong [OF conjunct1 conjunct2] carried_stop)
  next
    case False
    with entry [OF refl] s show ?thesis
      by (cases s) (simp add: carried_ok_def throw_def, simp add: carried_cong carried_execute)
  qed
qed


section \<open>Every path through an automation ends\<close>

fun weight :: "step \<Rightarrow> nat" where
  "weight (Step i t v b c) =
     (case t of END \<Rightarrow> 0 | TESTAB \<Rightarrow> 2 | _ \<Rightarrow> 1) + (case c of None \<Rightarrow> 0 | Some cs \<Rightarrow> sum_list (map weight cs))"

definition weights :: "step list \<Rightarrow> nat" where
  "weights ss = sum_list (map weight ss)"

definition kids :: "step list option \<Rightarrow> nat" where
  "kids c = (case c of None \<Rightarrow> 0 | Some cs \<Rightarrow> weights cs)"

lemma weight_kids:
  "weight s = (case st_type s of END \<Rightarrow> 0 | TESTAB \<Rightarrow> 2 | _ \<Rightarrow> 1) + kids (st_child s)"
  by (cases s) (simp add: kids_def weights_def split: option.split)

lemma kids_next: "weights (next_steps s) = kids (st_child s)"
  by (auto simp: next_steps_def kids_def weights_def end_step_def split: option.split list.split)

lemma weights_member: "s \<in> set ss \<Longrightarrow> weight s \<le> weights ss"
  by (simp add: weights_def member_le_sum_list)

lemma kids_member: "s \<in> set ss \<Longrightarrow> kids (st_child s) \<le> weights ss"
  using weights_member [of s ss] by (simp add: weight_kids)

lemma kids_child: "s \<in> set ss \<Longrightarrow> st_child s = Some cs \<Longrightarrow> weights cs \<le> weights ss"
  using kids_member [of s ss] by (simp add: kids_def)

lemma fst_andThen: "fst (andThen m f) = Inr y \<longleftrightarrow> (\<exists>x. fst m = Inr x \<and> fst (f x) = Inr y)"
  by (cases m; cases "fst m") auto

lemma split_branch_member: "split_branch fs r p cs = Inr (Some c) \<Longrightarrow> c \<in> set cs"
  by (induction cs arbitrary: p) (auto simp: sumThen_Inr Let_def split: if_splits)

lemma split_kids: "fst (definedSplit env s) = Inr c \<Longrightarrow> kids c \<le> kids (st_child s)"
  by (auto simp: definedSplit_def Let_def fst_andThen kids_def dest!: split_branch_member
      dest: kids_child split: option.splits)

lemma find_child_kids: "kids (child_of (find_child t cs)) \<le> weights cs"
  by (auto simp: child_of_def find_child_def kids_def find_Some_iff split: option.split
      dest!: nth_mem dest: kids_child)

lemma catch_Inr: "fst (catchError m h) = Inr y \<Longrightarrow> fst m = Inr y \<or> (\<exists>e. fst m = Inl e \<and> fst (h e) = Inr y)"
  by (cases m; cases "fst m") auto

lemma conditional_kids:
  assumes "fst (definedConditional env m s) = Inr c" shows "kids c \<le> kids (st_child s)"
proof -
  obtain cs where cs: "st_child s = Some cs"
    using assms by (cases "st_child s") (simp_all add: definedConditional_def)
  with assms have "c = child_of (find_child ''conditionalTrue'' cs) \<or> c = child_of (find_child ''conditionalFalse'' cs)"
    by (auto simp: definedConditional_def Let_def fst_andThen dest!: catch_Inr split: if_splits)
  with cs find_child_kids show ?thesis by (auto simp: kids_def [of "Some _"])
qed

lemma testab_kids: "fst (definedTestAB env m s) = Inr c \<Longrightarrow> kids c \<le> 1 + kids (st_child s)"
  by (auto simp: definedTestAB_def Let_def fst_andThen kids_def [of "Some [_]"] weights_def weight_kids
      split: if_splits prod.splits)

lemma entered_kids:
  assumes "entered_step env m = Some s" and "\<not> final_step s"
  shows "kids (st_child s) < weights (au_steps (ls_automation m))"
proof -
  obtain t ts where steps: "au_steps (ls_automation m) = t # ts"
    using assms by (cases "au_steps (ls_automation m)") (auto simp: entered_step_def definedStep_def)
  have entered: "fst (definedStep env m) = Inr (Some s)"
    using assms(1) by (auto simp: entered_step_def split: sum.splits)
  have "kids (st_child s) < weight t"
  proof (cases "st_type t = SPLIT \<or> st_type t = CONDITIONAL \<or> st_type t = TESTAB")
    case True
    with entered steps obtain c where "st_child s = c" "fst (definedSplit env t) = Inr c \<and> st_type t = SPLIT \<or>
        fst (definedConditional env m t) = Inr c \<and> st_type t = CONDITIONAL \<or>
        fst (definedTestAB env m t) = Inr c \<and> st_type t = TESTAB"
      by (auto simp: definedStep_def fst_andThen with_child_def)
    then show ?thesis
      using split_kids [of env t c] conditional_kids [of env m t c] testab_kids [of env m t c]
      by (elim disjE) (simp_all add: weight_kids [of t])
  next
    case False
    with entered steps have "s = t" by (cases "st_type t") (simp_all add: definedStep_def)
    with assms(2) show ?thesis by (cases "st_type t") (simp_all add: weight_kids [of t] final_step_def)
  qed
  with steps show ?thesis by (simp add: weights_def)
qed

lemma continuation_weight:
  assumes "ss \<in> set (continuations (snd (receiveMessage env m k)))"
  shows "weights ss < weights (au_steps (ls_automation m))"
proof -
  obtain s where s: "entered_step env m = Some s" "ss = next_steps s" "\<not> final_step s"
    using assms receive_carried [of env m k]
    by (auto simp: carried_ok_def carried_steps_def final_step_def split: sum.splits option.splits
        receive_result.splits if_splits)
  with entered_kids [OF s(1,3)] show ?thesis by (simp add: kids_next)
qed

text \<open>An execution of a message with the steps \<open>a\<close>, in any environment, hands on the steps \<open>b\<close>.\<close>

inductive hands_on :: "step list \<Rightarrow> step list \<Rightarrow> bool" where
  "b \<in> set (continuations (snd (receiveMessage env m k))) \<Longrightarrow> hands_on (au_steps (ls_automation m)) b"

text \<open>C16: every path of a contact through an automation ends: whatever the branches taken, the
  answers of the database and the failures, at most as many messages follow one another as the
  step tree of the first has steps (an A/B test counts twice).\<close>

theorem automation_ends:
  assumes "(hands_on ^^ n) a b"
  shows "n + weights b \<le> weights a"
  using assms
proof (induction n arbitrary: b)
  case (Suc n)
  then obtain c where "(hands_on ^^ n) a c" "hands_on c b" by auto
  then show ?case
    using Suc.IH [of c] by (force elim: hands_on.cases dest: continuation_weight)
qed simp

text \<open>An environment where everything works, and a message.\<close>

definition demo_env :: engine_env where
  "demo_env = \<lparr>ev_process = (\<lambda>k. if k = ''TOPIC_NAME_MESSAGE_TRIGGER'' then Some ''message-trigger''
       else if k = ''AMQP_URL'' then Some ''amqp'' else None),
     ev_accepts = (\<lambda>_. True), ev_redisGet = (\<lambda>_. None), ev_random = (\<lambda>_. 0), ev_hour = (\<lambda>_. 12),
     ev_hoursUntil = (\<lambda>_ _. 0), ev_dateDaysAgo = (\<lambda>_ _. ''2026-01-01''), ev_msDaysAgo = (\<lambda>_ _. Fin 0),
     ev_msOf = (\<lambda>_ _. Fin 0), ev_isoString = (\<lambda>_. None), ev_contact = Some (JObj []), ev_lead = (\<lambda>_. None),
     ev_events = (\<lambda>_ _. Some 0), ev_message = (\<lambda>_. None), ev_http = (\<lambda>_ _. True), ev_fracStr = (\<lambda>_. [])\<rparr>"

definition demo_lead :: "step list \<Rightarrow> lead_state_message" where
  "demo_lead ss = \<lparr>ls_id = JNum (Fin 7), ls_accountId = JNum (Fin 2), ls_timeZone = None,
     ls_automation = \<lparr>au_id = JNum (Fin 3), au_name = ''a'', au_title = ''A'', au_type = JStr ''email'', au_isRateLimit = JUndefined,
       au_triggers = JUndefined, au_steps = ss\<rparr>,
     ls_activeStepId = ''1'', ls_activeEmailId = None,
     ls_contact = \<lparr>ct_id = JNum (Fin 5), ct_accountId = JNum (Fin 2), ct_email = ''x@y'', ct_uuid = JNull\<rparr>,
     ls_tagName = JUndefined, ls_startedAt = JUndefined, ls_leadId = JNull, ls_messageIdEmail1 = JUndefined\<rparr>"

definition demo_tag :: step where
  "demo_tag = Step (JNum (Fin 1)) ADD_TAG (JArr []) False None"

lemma demo_hands_on: "hands_on [demo_tag] [end_step]"
proof -
  have "[end_step] \<in> set (continuations (snd (receiveMessage demo_env (demo_lead [demo_tag]) [])))"
    by (simp add: receiveMessage_def definedStep_def demo_lead_def demo_tag_def execute_def processMessage_def
        processTags_def sendNext_def sendAsyncMessage_def demo_env_def queueMap_def amqpRoutes_def topic_name_def
        carries_def next_steps_def createNextLeadStateMessage_def processStepToInternalEvent_def
        sendInternalEvent_def amqp_configured_def out_def ret_def obj_get_def Let_def)
  from hands_on.intros [OF this] show ?thesis by (simp add: demo_lead_def)
qed

theorem automation_ends_witness:
  "(hands_on ^^ 1) [demo_tag] [end_step] \<and> 1 + weights [end_step] \<le> weights [demo_tag]"
proof -
  have "(hands_on ^^ 1) [demo_tag] [end_step]" using demo_hands_on by (simp add: relcompp_apply)
  with automation_ends [OF this] show ?thesis by blast
qed

section \<open>Splits\<close>

text \<open>A branch with a percentage.\<close>

definition branch_of :: "nat \<Rightarrow> step \<Rightarrow> bool" where
  "branch_of v c \<longleftrightarrow> st_settings c = JObj [(''value'', JNum (Fin (real v)))]"

lemma split_branch_sums:
  assumes "list_all2 branch_of vs cs" and "real (p + sum_list vs) \<le> 2 ^ 53"
    and "r \<le> p + sum_list vs" and "vs \<noteq> []"
  shows "\<exists>i < length cs. split_branch fs r (JNum (Fin (real p))) cs = Inr (Some (cs ! i)) \<and>
     r \<le> p + sum_list (take (Suc i) vs) \<and> (i = 0 \<or> p + sum_list (take i vs) < r)"
  using assms
proof (induction cs arbitrary: vs p rule: list.induct)
  case (Cons c cs)
  then obtain v ws where vs: "vs = v # ws" "branch_of v c" "list_all2 branch_of ws cs"
    by (cases vs) auto
  have small: "real (p + v) \<le> 2 ^ 53" using Cons.prems(2) vs(1) by simp
  have add: "js_add fs (JNum (Fin (real p))) (JNum (Fin (real v))) = JNum (Fin (real (p + v)))"
    using small by (simp add: js_add_def to_jsnum_small to_primitive_def Let_def)
  have step: "split_branch fs r (JNum (Fin (real p))) (c # cs) =
      (if p + v < r then split_branch fs r (JNum (Fin (real (p + v)))) cs else Inr (Some c))"
    using vs(2) add by (simp add: branch_of_def sumThen_def read_prop_def get_def js_nullish_def Let_def
        js_less_def to_primitive_def)
  show ?case
  proof (cases "p + v < r")
    case True
    with Cons.prems(3) vs(1) have "ws \<noteq> []" by (cases ws) auto
    with True Cons.IH [OF vs(3), of "p + v"] Cons.prems(2,3) vs(1)
    obtain i where "i < length cs" "split_branch fs r (JNum (Fin (real (p + v)))) cs = Inr (Some (cs ! i))"
      "r \<le> p + v + sum_list (take (Suc i) ws)" "i = 0 \<or> p + v + sum_list (take i ws) < r" by auto
    with True step vs(1) show ?thesis by (intro exI [of _ "Suc i"]) auto
  next
    case False
    with step vs(1) show ?thesis by (intro exI [of _ 0]) simp
  qed
qed simp

text \<open>Result: a split whose percentages are whole numbers that sum to 100 sends every contact down a
  branch, the first whose cumulated percentage reaches the number drawn from 0 to 100.\<close>

theorem split_covers:
  assumes "list_all2 branch_of vs cs" and "sum_list vs = 100" and "r \<le> 100"
  shows "\<exists>i < length cs. split_branch fs r (JNum (Fin 0)) cs = Inr (Some (cs ! i)) \<and>
     r \<le> sum_list (take (Suc i) vs) \<and> (i = 0 \<or> sum_list (take i vs) < r)"
  using split_branch_sums [OF assms(1), of 0 r] assms(2,3) by (cases vs) auto

definition demo_branch :: "nat \<Rightarrow> step" where
  "demo_branch v = Step (JNum (Fin (real v))) (OtherType ''branch'')
     (JObj [(''value'', JNum (Fin (real v)))]) False (Some [])"

theorem split_covers_witness:
  "\<exists>i < length [demo_branch 30, demo_branch 70]. split_branch (\<lambda>_. []) 31 (JNum (Fin 0)) [demo_branch 30, demo_branch 70] =
     Inr (Some ([demo_branch 30, demo_branch 70] ! i)) \<and>
     31 \<le> sum_list (take (Suc i) [30, 70 :: nat]) \<and> (i = 0 \<or> sum_list (take i [30, 70 :: nat]) < 31)"
  by (rule split_covers) (simp_all add: branch_of_def demo_branch_def)

text \<open>Result: the shares are off by one in 101: of the numbers 0 to 100 the first of two branches takes
  \<open>p + 1\<close>, so that a branch of 0 percent in first place still receives contacts.\<close>

theorem split_first_share:
  assumes "branch_of p a" and "branch_of (100 - p) b" and "a \<noteq> b" and "p \<le> 100"
  shows "card {r. r \<le> 100 \<and> split_branch fs r (JNum (Fin 0)) [a, b] = Inr (Some a)} = p + 1"
proof -
  have first: "split_branch fs r (JNum (Fin 0)) [a, b] = Inr (Some (if r \<le> p then a else b))" if "r \<le> 100" for r
  proof -
    have "list_all2 branch_of [p, 100 - p] [a, b]" using assms by simp
    from split_branch_sums [OF this, of 0 r fs] that assms(4) show ?thesis
      by (auto simp: less_Suc_eq numeral_2_eq_2)
  qed
  have "{r. r \<le> 100 \<and> split_branch fs r (JNum (Fin 0)) [a, b] = Inr (Some a)} = {..p}"
    using assms(3,4) first by (auto split: if_splits)
  then show ?thesis by simp
qed

theorem split_first_share_witness:
  "card {r. r \<le> 100 \<and> split_branch (\<lambda>_. []) r (JNum (Fin 0)) [demo_branch 0, demo_branch 100] =
     Inr (Some (demo_branch 0))} = 0 + 1"
  by (rule split_first_share) (simp_all add: branch_of_def demo_branch_def)

section \<open>Stop flags, and two ways to fail\<close>

text \<open>C26: a stop flag (of the lead, of a remove-automation step, of a reached target) stops the
  execution whatever the step: apart from what the choice of the branch did, nothing is sent but
  the cancellation event, which a reached target does not send; the flags are cleared.\<close>

definition stop_effects :: "engine_env \<Rightarrow> lead_state_message \<Rightarrow> eng_out list" where
  "stop_effects env m = [TrackerLine ''MSGOPS_RECEIVED_LEAD'',
     RedisDel [leadRedisKey env m, removeAutomationKey env m, automationTargetKey env m],
     TrackerLine ''MSGOPS_AUTOMATION_STOPPED'']"



text \<open>No queue and no exchange is mapped to the topic a variable names.\<close>

definition unmapped :: "engine_env \<Rightarrow> string \<Rightarrow> bool" where
  "unmapped env var \<longleftrightarrow> Option.bind (ev_process env var) (map_of (amqpRoutes env)) = None \<and>
     Option.bind (ev_process env var) (map_of (queueMap env)) = None"

lemma unmapped_fails: "unmapped env var \<Longrightarrow> sendAsyncMessage env (ev_process env var) p = throw ''No queue mapped for topic/queue''"
  by (simp add: unmapped_def sendAsyncMessage_def)

definition testab_started_key :: "engine_env \<Rightarrow> lead_state_message \<Rightarrow> step \<Rightarrow> string" where
  "testab_started_key env m s = testab_prefix env m s ''automation_testab_step:'' '':''"

definition testab_running :: "engine_env \<Rightarrow> lead_state_message \<Rightarrow> step \<Rightarrow> bool" where
  "testab_running env m s \<longleftrightarrow> get (st_settings s) ''status'' \<noteq> JStr ''finished'' \<and>
     ev_redisGet env (testab_prefix env m s ''automation_testab_step_finished_'' ''_'') = None"

text \<open>Result: nothing maps the topic of the A/B evaluation, so the first contact to reach a running A/B
  test fails, after the test is marked as started; the contacts after it find the mark and never
  ask for the evaluation.\<close>

theorem testab_evaluation_lost:
  assumes "unmapped env ''TOPIC_NAME_API_STEP_PROCESS''" and "testab_running env m s"
    and "ev_redisGet env (testab_started_key env m s) = None"
    and "au_steps (ls_automation m) = s # ss" and "st_type s = TESTAB" and "messages_of (st_settings s) = Inr vs"
  shows "(\<exists>e. fst (receiveMessage env m k) = Inl e) \<and>
    RedisSet (testab_started_key env m s) ''date'' \<in> set (snd (receiveMessage env m k)) \<and>
    testab_choice (env\<lparr>ev_redisGet := (ev_redisGet env)(testab_started_key env m s := Some d)\<rparr>) m s vs i = ret (Some i, True)"
proof -
  have choice: "testab_choice env m s vs r = (Inl ''No queue mapped for topic/queue'',
      [RedisSet (testab_started_key env m s) ''date''])" for r
    using assms(2,3) by (simp add: testab_choice_def testab_running_def testab_started_key_def Let_def
        unmapped_fails [OF assms(1)] out_def throw_def)
  obtain os where event: "processStepToInternalEvent env props = (Inr (), os props)" for props
    using that [of "\<lambda>props. snd (processStepToInternalEvent env props)"]
    by (simp add: prod_eq_iff processStepToInternalEvent_def sendInternalEvent_def out_def throw_def ret_def)
  have "\<exists>os. definedStep env m = (Inl ''No queue mapped for topic/queue'',
      os @ [RedisSet (testab_started_key env m s) ''date''])"
    using assms(4-6) by (simp add: definedStep_def definedTestAB_def lift_def Let_def event choice)
  then have "(\<exists>e. fst (receiveMessage env m k) = Inl e) \<and>
    RedisSet (testab_started_key env m s) ''date'' \<in> set (snd (receiveMessage env m k))"
    by (auto simp: receive_cases)
  moreover have "testab_choice (env\<lparr>ev_redisGet := (ev_redisGet env)(testab_started_key env m s := Some d)\<rparr>) m s vs i =
      ret (Some i, True)"
    using assms(2) by (simp add: testab_choice_def testab_running_def testab_started_key_def Let_def
        testab_prefix_def str_of_def)
  ultimately show ?thesis by blast
qed

definition demo_testab :: step where
  "demo_testab = Step (JNum (Fin 1)) TESTAB (JObj [(''status'', JStr ''running''),
     (''messages'', JArr [JObj [(''id'', JNum (Fin 10))], JObj [(''id'', JNum (Fin 11))]])]) False None"

definition example_env :: engine_env where
  "example_env = demo_env\<lparr>ev_process := (ev_process demo_env)
     (''TOPIC_NAME_API_STEP_PROCESS'' := Some ''msgops-api-step-process'')\<rparr>"

theorem testab_evaluation_lost_witness:
  "\<exists>e. fst (receiveMessage example_env (demo_lead [demo_testab]) []) = Inl e"
proof -
  have "unmapped example_env ''TOPIC_NAME_API_STEP_PROCESS''"
    by (simp add: unmapped_def example_env_def demo_env_def queueMap_def amqpRoutes_def topic_name_def)
  moreover have "testab_running example_env (demo_lead [demo_testab]) demo_testab"
    by (simp add: testab_running_def demo_testab_def get_def example_env_def demo_env_def)
  moreover have "messages_of (st_settings demo_testab) =
      Inr [JObj [(''id'', JNum (Fin 10))], JObj [(''id'', JNum (Fin 11))]]"
    by (simp add: demo_testab_def messages_of_def sumThen_def read_prop_def get_def js_nullish_def)
  moreover have "ev_redisGet example_env key = None" for key by (simp add: example_env_def demo_env_def)
  moreover have "au_steps (ls_automation (demo_lead [demo_testab])) = [demo_testab]" "st_type demo_testab = TESTAB"
    by (simp_all add: demo_lead_def demo_testab_def)
  ultimately show ?thesis
    using testab_evaluation_lost [of example_env "demo_lead [demo_testab]" demo_testab "[]" _ "[]" "''d''" 0] by blast
qed

text \<open>Result: an HTTP request step hands its continuation on before its job is queued, so when the job
  cannot be queued the execution fails, and its repetition, in whatever environment, hands the
  continuation on a second time if it succeeds.\<close>

definition refused :: "engine_env \<Rightarrow> string \<Rightarrow> bool" where
  "refused env var \<longleftrightarrow> (\<forall>p. \<exists>e. sendAsyncMessage env (ev_process env var) p = throw e)"

lemma http_refused_fails:
  assumes "st_type s = HTTP_REQUEST" and "refused env ''TOPIC_NAME_HTTP_REQUEST''"
  shows "\<exists>e. fst (processMessage env m s) = Inl e"
proof -
  define p where "p = PHttpRequest (m\<lparr>ls_automation := (ls_automation m)\<lparr>au_steps := [s]\<rparr>\<rparr>)"
  obtain e where "sendAsyncMessage env (ev_process env ''TOPIC_NAME_HTTP_REQUEST'') p = throw e"
    using assms(2) by (auto simp: refused_def)
  then show ?thesis
    using assms(1)
    by (cases "fst (processMessage env m s)")
      (auto simp: processMessage_def Let_def env_topic_def p_def [symmetric] fst_andThen)
qed

theorem http_request_repeats:
  assumes "au_steps (ls_automation m) = s # ss" and "st_type s = HTTP_REQUEST" and "\<not> stop_requested env m"
    and "fst (sendNext env (createNextLeadStateMessage (ev_fracStr env) m s)) = Inr ()"
    and "refused env ''TOPIC_NAME_HTTP_REQUEST''"
    and "fst (receiveMessage env' m k) = Inr Processed"
  shows "(\<exists>e. fst (receiveMessage env m k) = Inl e) \<and>
    continuations (snd (receiveMessage env m k) @ snd (receiveMessage env' m k)) = [next_steps s, next_steps s]"
proof -
  have step: "definedStep e m = ret (Some s)" for e using assms(1,2) by (simp add: definedStep_def)
  have "continuations (snd (receiveMessage env' m k)) = [next_steps s]"
    using receive_carried [of env' m k] assms(2,6) step
    by (simp add: carried_ok_def entered_step_def carried_steps_def final_step_def)
  moreover have "continuations (snd (receiveMessage env m k)) = [next_steps s]"
    using http_carries [OF assms(2), of env m] assms(3,4) step
    by (simp add: receive_cases execute_result out_def)
  moreover have "\<exists>e. fst (receiveMessage env m k) = Inl e"
    using http_refused_fails [OF assms(2,5), of m] assms(3) step
    by (auto simp: receive_cases execute_result out_def)
  ultimately show ?thesis by simp
qed

definition demo_http :: step where
  "demo_http = Step (JNum (Fin 1)) HTTP_REQUEST (JObj []) False None"

definition http_env :: "(string \<Rightarrow> bool) \<Rightarrow> engine_env" where
  "http_env accepts = demo_env\<lparr>ev_process := (ev_process demo_env)
     (''TOPIC_NAME_HTTP_REQUEST'' := Some ''http-request''), ev_accepts := accepts\<rparr>"

lemmas env_eval = http_env_def demo_env_def demo_lead_def demo_http_def queueMap_def amqpRoutes_def topic_name_def
  sendNext_def sendAsyncMessage_def

theorem http_request_repeats_witness:
  "continuations (snd (receiveMessage (http_env (\<lambda>q. q \<noteq> ''http-request'')) (demo_lead [demo_http]) []) @
     snd (receiveMessage (http_env (\<lambda>q. True)) (demo_lead [demo_http]) [])) = [[end_step], [end_step]]"
proof -
  let ?bad = "http_env (\<lambda>q. q \<noteq> ''http-request'')" and ?m = "demo_lead [demo_http]"
  have "refused ?bad ''TOPIC_NAME_HTTP_REQUEST''"
    by (auto simp: refused_def env_eval)
  moreover have "\<not> stop_requested ?bad ?m" by (simp add: stop_requested_def env_eval)
  moreover have "fst (sendNext ?bad (createNextLeadStateMessage (ev_fracStr ?bad) ?m demo_http)) = Inr ()"
    by (simp add: env_eval)
  moreover have "fst (receiveMessage (http_env (\<lambda>q. True)) ?m []) = Inr Processed"
    by (simp add: receiveMessage_def definedStep_def execute_def processMessage_def env_eval env_topic_def
        processStepToInternalEvent_def sendInternalEvent_def out_def ret_def Let_def)
  moreover have "au_steps (ls_automation ?m) = [demo_http]" "st_type demo_http = HTTP_REQUEST"
    "next_steps demo_http = [end_step]"
    by (simp_all add: demo_lead_def demo_http_def next_steps_def)
  ultimately show ?thesis using http_request_repeats [of ?m demo_http "[]" ?bad "http_env (\<lambda>q. True)" "[]"] by simp
qed

end
