(* ===== verification/HttpRequest.thy ===== *)
theory HttpRequest
  imports Automation
begin

text \<open>
  The HTTP request job of \<open>message-trigger/src/app.service.ts\<close> (\<open>processHttpRequest\<close>) and
  \<open>providers/httpRequest.provider.ts\<close>. The contact is one object, shared by the lead the
  values are looked up in and by the body once an item puts it there; deleting its identifiers
  therefore changes what later items find. The body holds a reference to it.
\<close>

section \<open>Reading settings\<close>

definition iterate :: "jsval \<Rightarrow> string + jsval list" where
  "iterate v = (case v of JArr vs \<Rightarrow> Inr vs | JStr cs \<Rightarrow> Inr (map (\<lambda>c. JStr [c]) cs) | _ \<Rightarrow> Inl ''TypeError'')"

text \<open>The method \<open>includes\<close> of strings and arrays.\<close>

definition call_includes :: "jsval \<Rightarrow> string \<Rightarrow> string + bool" where
  "call_includes v s = (case v of
     JStr t \<Rightarrow> Inr (str_includes t s)
   | JArr vs \<Rightarrow> Inr (List.member vs (JStr s))
   | _ \<Rightarrow> Inl ''TypeError'')"

text \<open>Assigning to \<open>__proto__\<close> adds no property.\<close>

definition put :: "string \<Rightarrow> 'v \<Rightarrow> (string \<times> 'v) list \<Rightarrow> (string \<times> 'v) list" where
  "put k v m = (if k = ''__proto__'' then m else jsset k v m)"

fun remove_plus :: "string \<Rightarrow> string" where
  "remove_plus [] = []"
| "remove_plus (c # cs) = (if c = CHR ''+'' then cs else c # remove_plus cs)"

record http_item =
  hi_key :: string
  hi_custom :: bool
  hi_id :: jsval

definition read_item :: "engine_env \<Rightarrow> jsval \<Rightarrow> string + http_item" where
  "read_item env v =
     sumThen (read_prop v ''key'') (\<lambda>k.
     sumThen (read_prop v ''value'') (\<lambda>x.
     sumThen (read_prop x ''type'') (\<lambda>t.
     Inr \<lparr>hi_key = str_of env k, hi_custom = (t = JStr ''custom''), hi_id = get x ''id''\<rparr>)))"

section \<open>Headers and body\<close>

datatype http_value = Val jsval | ContactRef

definition resolve :: "jsval \<Rightarrow> http_value \<Rightarrow> jsval" where
  "resolve contact v = (case v of Val x \<Rightarrow> x | ContactRef \<Rightarrow> contact)"

definition lead_with :: "(string \<times> jsval) list \<Rightarrow> jsval \<Rightarrow> jsval \<Rightarrow> jsval" where
  "lead_with m step contact = JObj (jsset ''step'' step (jsset ''contact'' contact m))"

definition item_value :: "engine_env \<Rightarrow> jsval \<Rightarrow> http_item \<Rightarrow> http_value" where
  "item_value env lead i =
     (if hi_custom i then Val (hi_id i)
      else if str_of env (hi_id i) = ''contact'' then ContactRef
      else Val (js_or (safeGetPath lead (str_of env (hi_id i))) (JStr '''')))"

fun headers_of :: "engine_env \<Rightarrow> jsval \<Rightarrow> jsval list \<Rightarrow> (string \<times> http_value) list \<Rightarrow>
    string + (string \<times> http_value) list" where
  "headers_of env lead [] hs = Inr hs"
| "headers_of env lead (v # vs) hs =
     sumThen (read_item env v) (\<lambda>i. headers_of env lead vs (put (hi_key i) (item_value env lead i) hs))"

definition phone_value :: "engine_env \<Rightarrow> jsval \<Rightarrow> http_item \<Rightarrow> jsval" where
  "phone_value env lead i =
     (let v = (if hi_custom i then hi_id i else safeGetPath lead (str_of env (hi_id i))) in
      js_or (case v of JStr s \<Rightarrow> JStr (remove_plus s) | _ \<Rightarrow> v) (JStr ''''))"

definition without_ids :: "jsval \<Rightarrow> jsval" where
  "without_ids contact = (case contact of
     JObj m \<Rightarrow> JObj (fold AList.delete [''id'', ''uuid'', ''accountId''] m) | _ \<Rightarrow> contact)"

definition is_phone :: "jsval \<Rightarrow> http_item \<Rightarrow> string + bool" where
  "is_phone url i =
     sumThen (call_includes url ''isendme.com'') (\<lambda>b. if b then call_includes (hi_id i) ''phone'' else Inr False)"

text \<open>The loop over the body; the contact is threaded through.\<close>

fun body_of :: "engine_env \<Rightarrow> jsval \<Rightarrow> (string \<times> jsval) list \<Rightarrow> jsval \<Rightarrow> jsval list \<Rightarrow> jsval \<Rightarrow>
    (string \<times> http_value) list \<Rightarrow> string + ((string \<times> http_value) list \<times> jsval)" where
  "body_of env url m step [] contact payload = Inr (payload, contact)"
| "body_of env url m step (v # vs) contact payload =
     sumThen (read_item env v) (\<lambda>i.
     sumThen (is_phone url i) (\<lambda>phone.
     if phone then
       body_of env url m step vs contact
         (put (hi_key i) (Val (phone_value env (lead_with m step contact) i)) payload)
     else
       let x = item_value env (lead_with m step contact) i in
       body_of env url m step vs
         (if hi_id i = JStr ''contact'' \<and> x = ContactRef then without_ids contact else contact)
         (put (hi_key i) x payload)))"

section \<open>The job\<close>

definition request_of :: "engine_env \<Rightarrow> (string \<times> jsval) list \<Rightarrow> jsval \<Rightarrow> string + (string \<times> string \<times> jsval \<times> jsval)" where
  "request_of env m step =
     (case ev_contact env of
        None \<Rightarrow> Inl ''Contact not found.''
      | Some contact \<Rightarrow>
          sumThen (read_prop step ''settings'') (\<lambda>settings.
          sumThen (sumThen (read_prop settings ''headers'') iterate) (\<lambda>hs.
          sumThen (headers_of env (lead_with m step contact) hs []) (\<lambda>headers.
          sumThen (sumThen (read_prop settings ''body'') iterate) (\<lambda>items.
          sumThen (body_of env (get settings ''url'') m step items contact []) (\<lambda>(payload, contact').
          Inr (str_of env (get settings ''operation''), str_of env (get settings ''url''),
               JObj (map (\<lambda>(k, v). (k, resolve contact' v)) headers),
               JObj (map (\<lambda>(k, v). (k, resolve contact' v)) payload))))))))"

definition http_process :: "engine_env \<Rightarrow> string \<times> string \<times> jsval \<times> jsval \<Rightarrow> unit eng" where
  "http_process env = (\<lambda>(operation, url, headers, payload).
     let body = (if List.member [''get'', ''delete''] operation then JUndefined else payload) in
     if ev_http env url body then out (HttpCall operation url headers body)
     else throw ''[HTTP-REQUEST] - Error to send'')"

definition first_step :: "jsval \<Rightarrow> string + jsval" where
  "first_step lead =
     sumThen (read_prop lead ''automation'') (\<lambda>a.
     sumThen (read_prop a ''steps'') (\<lambda>ss.
     read_prop ss ''0''))"

definition processHttpRequest :: "engine_env \<Rightarrow> jsval \<Rightarrow> unit eng" where
  "processHttpRequest env lead =
     andThen (lift (first_step lead)) (\<lambda>step.
     catchError (andThen (lift (request_of env (spread lead) step)) (http_process env))
       (\<lambda>_. andThen (lift (sumThen (read_prop step ''settings'') (\<lambda>s. read_prop s ''retry''))) (\<lambda>retry.
          if truthy retry then throw ''[RETRY] - Error http request step'' else ret ())))"

section \<open>The order of the items matters\<close>

text \<open>Two paths, evaluated.\<close>

lemma contact_id_path:
  "safeGetPath (lead_with m step (JObj c)) ''contact.id'' =
     (case map_of c ''id'' of None \<Rightarrow> JUndefined | Some v \<Rightarrow> v)"
proof -
  have "split_on (CHR ''.'') ''contact.id'' = [''contact'', ''id'']" by code_simp
  moreover have "map_of (jsset ''step'' step (jsset ''contact'' (JObj c) m)) ''contact'' = Some (JObj c)"
    by simp
  ultimately show ?thesis
    by (simp add: safeGetPath_def lead_with_def PROTOTYPE_KEYS_def js_nullish_def split: option.split)
qed

definition asks :: "engine_env \<Rightarrow> jsval \<Rightarrow> string \<Rightarrow> string \<Rightarrow> bool" where
  "asks env v key path \<longleftrightarrow> read_item env v = Inr \<lparr>hi_key = key, hi_custom = False, hi_id = JStr path\<rparr>"

lemma ids_deleted: "map_of (fold AList.delete [''id'', ''uuid'', ''accountId''] c) ''id'' = None"
  by (simp add: AList.delete_conv')

text \<open>Result: of a body that sends the contact and its id, the id arrives only if its item comes first:
  once the contact is an item, its identifiers are deleted from the object later items are
  looked up in, and the id is sent as an empty string.\<close>

theorem contact_item_hides_id:
  assumes "asks env v ''who'' ''contact''" and "asks env w ''id'' ''contact.id''"
    and "call_includes url ''isendme.com'' = Inr False" and "map_of c ''id'' = Some (JNum (Fin x))" and "x \<noteq> 0"
  shows "body_of env url m step [v, w] (JObj c) [] =
      Inr ([(''who'', ContactRef), (''id'', Val (JStr ''''))], without_ids (JObj c)) \<and>
    body_of env url m step [w, v] (JObj c) [] =
      Inr ([(''id'', Val (JNum (Fin x))), (''who'', ContactRef)], without_ids (JObj c))"
  using assms ids_deleted [of c]
  by (simp add: asks_def sumThen_def is_phone_def item_value_def str_of_def Let_def put_def contact_id_path
      without_ids_def js_or_def)

definition demo_item :: "string \<Rightarrow> string \<Rightarrow> jsval" where
  "demo_item k i = JObj [(''key'', JStr k), (''value'', JObj [(''type'', JStr ''field''), (''id'', JStr i)])]"

theorem contact_item_hides_id_witness:
  "body_of demo_env (JStr ''https://x.test'') [] JNull [demo_item ''who'' ''contact'', demo_item ''id'' ''contact.id'']
     (JObj [(''id'', JNum (Fin 5))]) [] =
   Inr ([(''who'', ContactRef), (''id'', Val (JStr ''''))], without_ids (JObj [(''id'', JNum (Fin 5))]))"
proof -
  have "asks demo_env (demo_item k i) k i" for k i
    by (simp add: asks_def demo_item_def read_item_def sumThen_def read_prop_def get_def js_nullish_def str_of_def)
  moreover have "call_includes (JStr ''https://x.test'') ''isendme.com'' = Inr False"
    by (simp add: call_includes_def)
  ultimately show ?thesis using contact_item_hides_id [of demo_env _ _ _ "[(''id'', JNum (Fin 5))]" 5] by simp
qed

end
