(* ===== verification/Bridge.thy ===== *)
theory Bridge
  imports Consumer HttpRequest
begin

text \<open>
  How AMQP deliveries reach the workers: \<open>packages/messaging/src/http-bridge.ts\<close>, the consumer
  service of \<open>message-trigger\<close> (\<open>message-trigger-consumer.service.ts\<close>), whose handler is the
  same, and the internal endpoint the bridge posts to (\<open>internal-trigger.controller.ts\<close>).
  The status a framework gives an outcome is a parameter.
\<close>

section \<open>The bridge (\<open>http-bridge.ts\<close>)\<close>

definition DEFAULT_TIMEOUT_MS :: nat where "DEFAULT_TIMEOUT_MS = 30000"

record bridge_config =
  bc_endpoint :: string
  bc_token :: string
  bc_headers :: "(string \<times> string) list"
  bc_timeoutMs :: "nat option"

record bridge_request =
  br_endpoint :: string
  br_method :: string
  br_headers :: "(string \<times> string) list"
  br_body :: string
  br_abortAfter :: nat

definition bridge_request :: "(real \<Rightarrow> string) \<Rightarrow> (jsval \<Rightarrow> string) \<Rightarrow> bridge_config \<Rightarrow> jsval \<Rightarrow> message_context \<Rightarrow> bridge_request" where
  "bridge_request fs stringify config payload ctx =
     \<lparr>br_endpoint = bc_endpoint config, br_method = ''POST'',
      br_headers = jsset ''X-Bms-Routing-Key'' (mc_routingKey ctx)
        (jsset ''X-Bms-Attempt'' (num_str fs (mc_attempt ctx))
        (jsset ''Content-Type'' ''application/json''
        (jsset ''X-Internal-Token'' (bc_token config) (bc_headers config)))),
      br_body = stringify payload,
      br_abortAfter = (case bc_timeoutMs config of None \<Rightarrow> DEFAULT_TIMEOUT_MS | Some t \<Rightarrow> t)\<rparr>"

text \<open>How the fetch settles: a response with a status, the abort of the timer, another error.\<close>

datatype fetch_outcome = Responded int | FetchAborted | FetchFailed string

definition bridge_handler :: "fetch_outcome \<Rightarrow> handler_outcome" where
  "bridge_handler r = (case r of
     FetchAborted \<Rightarrow> Returned HNack
   | FetchFailed e \<Rightarrow> Threw e
   | Responded status \<Rightarrow> if status = 429 \<or> status \<ge> 500 then Returned HNack else Returned HAck)"

definition createHttpBridgeHandler ::
  "(real \<Rightarrow> string) \<Rightarrow> (jsval \<Rightarrow> string) \<Rightarrow> bridge_config \<Rightarrow> (bridge_request \<Rightarrow> fetch_outcome) \<Rightarrow> jsval \<Rightarrow>
    message_context \<Rightarrow> handler_outcome" where
  "createHttpBridgeHandler fs stringify config doFetch payload ctx =
     bridge_handler (doFetch (bridge_request fs stringify config payload ctx))"

text \<open>The consumer service of \<open>message-trigger\<close> posts to the path of the queue's binding.\<close>

definition HTTP_TIMEOUT_MS :: nat where "HTTP_TIMEOUT_MS = 30000"

definition buildHandler ::
  "(real \<Rightarrow> string) \<Rightarrow> (jsval \<Rightarrow> string) \<Rightarrow> string \<Rightarrow> string \<Rightarrow> string \<Rightarrow> (bridge_request \<Rightarrow> fetch_outcome) \<Rightarrow>
    jsval \<Rightarrow> message_context \<Rightarrow> handler_outcome" where
  "buildHandler fs stringify bridgeBase token bridgePath =
     createHttpBridgeHandler fs stringify
       \<lparr>bc_endpoint = bridgeBase @ bridgePath, bc_token = token, bc_headers = [], bc_timeoutMs = Some HTTP_TIMEOUT_MS\<rparr>"

section \<open>The worker's endpoint (\<open>internal-trigger.controller.ts\<close>)\<close>

text \<open>Tokens are compared byte by byte once their lengths agree.\<close>

definition timingSafeEqual :: "string \<Rightarrow> string \<Rightarrow> bool" where
  "timingSafeEqual a b = list_all (\<lambda>(x, y). x = y) (zip a b)"

definition assertAuth :: "engine_env \<Rightarrow> string option \<Rightarrow> string + unit" where
  "assertAuth env token =
     (case (ev_process env ''INTERNAL_AUTH_TOKEN'', token) of
        (Some (e # es), Some (t # ts)) \<Rightarrow>
          if length (t # ts) \<noteq> length (e # es) \<or> \<not> timingSafeEqual (t # ts) (e # es)
          then Inl ''Unauthorized'' else Inr ()
      | _ \<Rightarrow> Inl ''Unauthorized'')"

text \<open>The body is a lead or the Redis key it is stored under.\<close>

datatype trigger_body = Direct lead_state_message | Compressed string

definition processTrigger ::
  "engine_env \<Rightarrow> (string \<Rightarrow> lead_state_message option) \<Rightarrow> string option \<Rightarrow> trigger_body \<Rightarrow> receive_result eng" where
  "processTrigger env getRedis token body =
     andThen (lift (assertAuth env token)) (\<lambda>_.
     case body of
       Direct m \<Rightarrow> receiveMessage env m []
     | Compressed key \<Rightarrow>
         (case getRedis key of None \<Rightarrow> throw ''TypeError'' | Some m \<Rightarrow> receiveMessage env m key))"

text \<open>One delivery through the bridge and the endpoint: what the consumer is told, and the effects.
  The request reaches the endpoint, which reads its token header and its body.\<close>

definition deliver ::
  "(string + receive_result \<Rightarrow> int) \<Rightarrow> engine_env \<Rightarrow> (string \<Rightarrow> lead_state_message option) \<Rightarrow> string \<Rightarrow>
    (string \<Rightarrow> trigger_body) \<Rightarrow> (jsval \<Rightarrow> string) \<Rightarrow> jsval \<Rightarrow> message_context \<Rightarrow> handler_outcome \<times> eng_out list" where
  "deliver status env getRedis token parseBody stringify payload ctx =
     (let endpoint = (\<lambda>req. processTrigger env getRedis (map_of (br_headers req) ''X-Internal-Token'')
            (parseBody (br_body req)));
          answer = (\<lambda>req. Responded (status (fst (endpoint req)))) in
      (buildHandler (ev_fracStr env) stringify ''http://worker'' token ''/internal/trigger/process'' answer payload ctx,
       snd (processTrigger env getRedis (Some token) (parseBody (stringify payload)))))"

section \<open>Authentication\<close>

lemma timingSafeEqual_eq: "length a = length b \<Longrightarrow> timingSafeEqual a b \<longleftrightarrow> a = b"
  by (induction a b rule: list_induct2) (auto simp: timingSafeEqual_def)

lemma assertAuth_iff:
  "assertAuth env token = Inr () \<longleftrightarrow> (\<exists>t. t \<noteq> [] \<and> token = Some t \<and> ev_process env ''INTERNAL_AUTH_TOKEN'' = Some t)"
  by (auto simp: assertAuth_def timingSafeEqual_eq simp del: length_Cons split: option.split list.split)

text \<open>Result: without the configured, non-empty token the endpoint does nothing at all.\<close>

theorem unauthorized_does_nothing:
  "processTrigger env getRedis token body = (Inl ''Unauthorized'', []) \<or>
   (\<exists>t. t \<noteq> [] \<and> token = Some t \<and> ev_process env ''INTERNAL_AUTH_TOKEN'' = Some t)"
proof (cases "assertAuth env token")
  case (Inl e)
  then have "e = ''Unauthorized''" by (auto simp: assertAuth_def split: option.splits list.splits if_splits)
  with Inl show ?thesis by (simp add: processTrigger_def lift_def)
next
  case (Inr u)
  then show ?thesis using assertAuth_iff [of env token] by simp
qed

section \<open>Failed steps are not retried\<close>

lemma deliver_eq:
  "deliver status env getRedis token parseBody stringify payload ctx =
     (let r = processTrigger env getRedis (Some token) (parseBody (stringify payload))
      in (bridge_handler (Responded (status (fst r))), snd r))"
  by (simp add: deliver_def buildHandler_def createHttpBridgeHandler_def bridge_request_def Let_def)


definition token_env :: engine_env where
  "token_env = demo_env\<lparr>ev_process := (ev_process demo_env)(''INTERNAL_AUTH_TOKEN'' := Some ''t'')\<rparr>"

definition bad_wait :: step where
  "bad_wait = Step (JNum (Fin 1)) WAIT (JObj [(''timer'', JNum (Fin (-1)))]) False None"

definition http_status :: "string + receive_result \<Rightarrow> int" where
  "http_status r = (case r of Inr _ \<Rightarrow> 201 | Inl e \<Rightarrow> if take 12 e = ''BadRequest: '' then 400 else 500)"

definition demo_delivery :: "message_context \<Rightarrow> handler_outcome \<times> eng_out list" where
  "demo_delivery ctx = deliver http_status token_env (\<lambda>_. None) ''t'' (\<lambda>_. Direct (demo_lead [bad_wait]))
     (\<lambda>_. ''lead'') JNull ctx"


end
