(* ===== verification/Thresholds.thy ===== *)
theory Thresholds
  imports Prelude
begin

text \<open>
  \<open>packages/shared/src/thresholds.ts\<close>: the alert severities of the deliverability monitor,
  with the types they use from \<open>types.ts\<close>. Counts, rates and z-scores are reals: the
  inputs of these functions are finite numbers, and rounding is not modelled.
\<close>

section \<open>Types and tables\<close>

datatype alert_type =
    bounce_spike | deferred_spike | volume_drop | volume_spike | spam_spike
  | block_detected | rate_limit | default_no_rule

datatype alert_severity = Warning | Critical

instantiation alert_severity :: linorder
begin

definition less_eq_alert_severity :: "alert_severity \<Rightarrow> alert_severity \<Rightarrow> bool" where
  "a \<le> b \<longleftrightarrow> a = Warning \<or> b = Critical"

definition less_alert_severity :: "alert_severity \<Rightarrow> alert_severity \<Rightarrow> bool" where
  "(a :: alert_severity) < b \<longleftrightarrow> a = Warning \<and> b = Critical"

instance
proof
  fix a b c :: alert_severity
  show "(a < b) = (a \<le> b \<and> \<not> b \<le> a)"
    by (cases a; cases b) (simp_all add: less_eq_alert_severity_def less_alert_severity_def)
  show "a \<le> a" by (cases a) (simp_all add: less_eq_alert_severity_def)
  show "a \<le> b \<Longrightarrow> b \<le> c \<Longrightarrow> a \<le> c" by (auto simp: less_eq_alert_severity_def)
  show "a \<le> b \<Longrightarrow> b \<le> a \<Longrightarrow> a = b" by (auto simp: less_eq_alert_severity_def)
  show "a \<le> b \<or> b \<le> a" by (cases a; cases b) (simp_all add: less_eq_alert_severity_def)
qed

end

record alert_threshold =
  t1_type :: alert_type
  t1_warningMultiplier :: "real option"
  t1_criticalMultiplier :: "real option"
  t1_warningRate :: "real option"
  t1_criticalRate :: "real option"
  t1_minEvents :: "real option"

definition ALERT_THRESHOLDS :: "alert_threshold list" where
  "ALERT_THRESHOLDS =
    [\<lparr>t1_type = bounce_spike, t1_warningMultiplier = Some 2, t1_criticalMultiplier = Some 3,
      t1_warningRate = None, t1_criticalRate = None, t1_minEvents = Some 50\<rparr>,
     \<lparr>t1_type = deferred_spike, t1_warningMultiplier = Some 3, t1_criticalMultiplier = Some 5,
      t1_warningRate = None, t1_criticalRate = None, t1_minEvents = Some 100\<rparr>,
     \<lparr>t1_type = volume_drop, t1_warningMultiplier = Some (1/2), t1_criticalMultiplier = Some (1/4),
      t1_warningRate = None, t1_criticalRate = None, t1_minEvents = Some 100\<rparr>,
     \<lparr>t1_type = volume_spike, t1_warningMultiplier = Some 3, t1_criticalMultiplier = Some 5,
      t1_warningRate = None, t1_criticalRate = None, t1_minEvents = Some 100\<rparr>,
     \<lparr>t1_type = spam_spike, t1_warningMultiplier = None, t1_criticalMultiplier = None,
      t1_warningRate = Some (1/10), t1_criticalRate = Some (3/10), t1_minEvents = Some 50\<rparr>,
     \<lparr>t1_type = block_detected, t1_warningMultiplier = None, t1_criticalMultiplier = None,
      t1_warningRate = None, t1_criticalRate = None, t1_minEvents = Some 10\<rparr>]"

record statistical_baseline =
  bl_median :: real
  bl_spread :: real
  bl_dataPoints :: real

record alert_threshold_v2 =
  t2_type :: alert_type
  t2_warningZScore :: real
  t2_criticalZScore :: real
  t2_minEvents :: real
  t2_minDataPoints :: real
  t2_absoluteFloor :: real
  t2_minSpread :: real
  t2_minSpreadPct :: real
  t2_minAbsoluteDeviation :: real
  t2_minBaselineMedian :: "real option"
  t2_warningRate :: "real option"
  t2_criticalRate :: "real option"

definition ALERT_THRESHOLDS_V2 :: "alert_threshold_v2 list" where
  "ALERT_THRESHOLDS_V2 =
    [\<lparr>t2_type = bounce_spike, t2_warningZScore = 3, t2_criticalZScore = 9/2, t2_minEvents = 200,
      t2_minDataPoints = 5, t2_absoluteFloor = 20, t2_minSpread = 1, t2_minSpreadPct = 5/100,
      t2_minAbsoluteDeviation = 50, t2_minBaselineMedian = None, t2_warningRate = None,
      t2_criticalRate = None\<rparr>,
     \<lparr>t2_type = deferred_spike, t2_warningZScore = 3, t2_criticalZScore = 9/2, t2_minEvents = 200,
      t2_minDataPoints = 5, t2_absoluteFloor = 50, t2_minSpread = 1, t2_minSpreadPct = 5/100,
      t2_minAbsoluteDeviation = 100, t2_minBaselineMedian = None, t2_warningRate = None,
      t2_criticalRate = None\<rparr>,
     \<lparr>t2_type = volume_spike, t2_warningZScore = 4, t2_criticalZScore = 6, t2_minEvents = 200,
      t2_minDataPoints = 5, t2_absoluteFloor = 500, t2_minSpread = 1, t2_minSpreadPct = 1/10,
      t2_minAbsoluteDeviation = 0, t2_minBaselineMedian = Some 50, t2_warningRate = None,
      t2_criticalRate = None\<rparr>,
     \<lparr>t2_type = volume_drop, t2_warningZScore = -4, t2_criticalZScore = -6, t2_minEvents = 0,
      t2_minDataPoints = 5, t2_absoluteFloor = 200, t2_minSpread = 1, t2_minSpreadPct = 1/10,
      t2_minAbsoluteDeviation = 0, t2_minBaselineMedian = None, t2_warningRate = None,
      t2_criticalRate = None\<rparr>,
     \<lparr>t2_type = spam_spike, t2_warningZScore = 0, t2_criticalZScore = 0, t2_minEvents = 200,
      t2_minDataPoints = 0, t2_absoluteFloor = 0, t2_minSpread = 1, t2_minSpreadPct = 0,
      t2_minAbsoluteDeviation = 0, t2_minBaselineMedian = None, t2_warningRate = Some (1/10),
      t2_criticalRate = Some (3/10)\<rparr>,
     \<lparr>t2_type = block_detected, t2_warningZScore = 0, t2_criticalZScore = 0, t2_minEvents = 10,
      t2_minDataPoints = 0, t2_absoluteFloor = 0, t2_minSpread = 1, t2_minSpreadPct = 0,
      t2_minAbsoluteDeviation = 0, t2_minBaselineMedian = None, t2_warningRate = None,
      t2_criticalRate = None\<rparr>]"

section \<open>The multiplier rules (first version)\<close>

text \<open>\<open>x ?? d\<close>, and \<open>x \<and> test\<close> on a number that may be null or zero.\<close>

definition nn :: "real option \<Rightarrow> real \<Rightarrow> real" where
  "nn x d = (case x of None \<Rightarrow> d | Some v \<Rightarrow> v)"

definition truthy_le :: "real option \<Rightarrow> real \<Rightarrow> bool" where
  "truthy_le m x = (case m of None \<Rightarrow> False | Some v \<Rightarrow> v \<noteq> 0 \<and> x \<ge> v)"

definition getSeverity :: "alert_type \<Rightarrow> real \<Rightarrow> real \<Rightarrow> alert_severity option" where
  "getSeverity type currentValue baselineValue =
     (case find (\<lambda>t. t1_type t = type) ALERT_THRESHOLDS of
        None \<Rightarrow> None
      | Some threshold \<Rightarrow>
          if type = block_detected then
            (if currentValue \<ge> nn (t1_minEvents threshold) 10 then Some Critical else None)
          else if type = spam_spike then
            (if currentValue \<ge> nn (t1_criticalRate threshold) (3/10) then Some Critical
             else if currentValue \<ge> nn (t1_warningRate threshold) (1/10) then Some Warning else None)
          else if type = volume_drop then
            (if baselineValue = 0 then None
             else let ratio = currentValue / baselineValue in
               if ratio \<le> nn (t1_criticalMultiplier threshold) (1/4) then Some Critical
               else if ratio \<le> nn (t1_warningMultiplier threshold) (1/2) then Some Warning else None)
          else if baselineValue = 0 then (if currentValue > 0 then Some Warning else None)
          else let ratio = currentValue / baselineValue in
            if truthy_le (t1_criticalMultiplier threshold) ratio then Some Critical
            else if truthy_le (t1_warningMultiplier threshold) ratio then Some Warning else None)"

section \<open>The z-score rules (second version)\<close>

definition computeZScore :: "real \<Rightarrow> statistical_baseline \<Rightarrow> real \<Rightarrow> real \<Rightarrow> real" where
  "computeZScore currentValue baseline minSpread minSpreadPct =
     (let pctFloor = \<bar>bl_median baseline\<bar> * minSpreadPct;
          effectiveSpread = max (bl_spread baseline) (max minSpread pctFloor)
      in (currentValue - bl_median baseline) / effectiveSpread)"

definition clampZScore :: "real \<Rightarrow> real" where
  "clampZScore z = max (-20) (min 20 z)"

definition getSeverityV2 ::
  "alert_type \<Rightarrow> real \<Rightarrow> statistical_baseline option \<Rightarrow> (alert_severity \<times> real) option" where
  "getSeverityV2 type currentValue baseline =
     (case find (\<lambda>t. t2_type t = type) ALERT_THRESHOLDS_V2 of
        None \<Rightarrow> None
      | Some threshold \<Rightarrow>
          if type = block_detected then
            (if currentValue \<ge> t2_minEvents threshold then Some (Critical, 0) else None)
          else if type = spam_spike then
            (if currentValue \<ge> nn (t2_criticalRate threshold) (3/10) then Some (Critical, 0)
             else if currentValue \<ge> nn (t2_warningRate threshold) (1/10) then Some (Warning, 0)
             else None)
          else (case baseline of
            None \<Rightarrow> None
          | Some b \<Rightarrow>
              if bl_dataPoints b < t2_minDataPoints threshold then None
              else let zScore = computeZScore currentValue b (t2_minSpread threshold)
                                  (t2_minSpreadPct threshold) in
                if type = volume_drop then
                  (if bl_median b < t2_absoluteFloor threshold then None
                   else if \<bar>currentValue - bl_median b\<bar> < t2_minAbsoluteDeviation threshold then None
                   else if zScore \<le> t2_criticalZScore threshold then Some (Critical, clampZScore zScore)
                   else if zScore \<le> t2_warningZScore threshold then Some (Warning, clampZScore zScore)
                   else None)
                else if currentValue < t2_absoluteFloor threshold then None
                else if (case t2_minBaselineMedian threshold of None \<Rightarrow> False
                         | Some m \<Rightarrow> bl_median b < m) then None
                else if currentValue < t2_minEvents threshold then None
                else if \<bar>currentValue - bl_median b\<bar> < t2_minAbsoluteDeviation threshold then None
                else if zScore \<ge> t2_criticalZScore threshold then Some (Critical, clampZScore zScore)
                else if zScore \<ge> t2_warningZScore threshold then Some (Warning, clampZScore zScore)
                else None))"

section \<open>Properties\<close>

lemmas threshold_eval = getSeverityV2_def ALERT_THRESHOLDS_V2_def nn_def Let_def

lemma effective_spread_pos:
  "1 \<le> m \<Longrightarrow> 1 \<le> max (spread :: real) (max m p)"
  by simp

lemma zscore_ge_iff:
  assumes "1 \<le> m"
  shows "c \<le> computeZScore x b m p \<longleftrightarrow> bl_median b + c * max (bl_spread b) (max m (\<bar>bl_median b\<bar> * p)) \<le> x"
    and "computeZScore x b m p \<le> c \<longleftrightarrow> x \<le> bl_median b + c * max (bl_spread b) (max m (\<bar>bl_median b\<bar> * p))"
proof -
  let ?e = "max (bl_spread b) (max m (\<bar>bl_median b\<bar> * p))"
  have e: "0 < ?e" using effective_spread_pos [OF assms, of "bl_spread b"] by (smt (verit))
  show "c \<le> computeZScore x b m p \<longleftrightarrow> bl_median b + c * ?e \<le> x"
    using e by (simp add: computeZScore_def Let_def pos_le_divide_eq) (simp add: algebra_simps)
  show "computeZScore x b m p \<le> c \<longleftrightarrow> x \<le> bl_median b + c * ?e"
    using e by (simp add: computeZScore_def Let_def pos_divide_le_eq) (simp add: algebra_simps)
qed

lemma zscore_mono:
  "1 \<le> m \<Longrightarrow> x \<le> y \<Longrightarrow> computeZScore x b m p \<le> computeZScore y b m p"
proof -
  assume "1 \<le> m" "x \<le> y"
  then have "0 < max (bl_spread b) (max m (\<bar>bl_median b\<bar> * p))"
    using effective_spread_pos [of m "bl_spread b"] by (smt (verit))
  then show ?thesis using \<open>x \<le> y\<close> by (simp add: computeZScore_def Let_def divide_right_mono)
qed

text \<open>The severity as a rank, nothing below a warning.\<close>

definition sev :: "(alert_severity \<times> real) option \<Rightarrow> nat" where
  "sev r = (case r of None \<Rightarrow> 0 | Some (Warning, _) \<Rightarrow> 1 | Some (Critical, _) \<Rightarrow> 2)"

abbreviation spike_types :: "alert_type set" where
  "spike_types \<equiv> {bounce_spike, deferred_spike, volume_spike}"

lemma sev_simps [simp]:
  "sev None = 0" "sev (Some (Warning, z)) = 1" "sev (Some (Critical, z)) = 2"
  by (simp_all add: sev_def)

lemma sev_ifs:
  "sev (if c then Some (Critical, z) else if w then Some (Warning, z) else None) =
     (if c then 2 else if w then 1 else 0)"
  by simp

text \<open>The volume-drop rule in closed form: with a usable baseline the alert depends only on
  how far the volume fell, measured in tenths of the median at least.\<close>

lemma drop_closed_form:
  "sev (getSeverityV2 volume_drop x (Some b)) =
     (if 5 \<le> bl_dataPoints b \<and> 200 \<le> bl_median b
      then (if x \<le> bl_median b - 6 * max (bl_spread b) (bl_median b / 10) then 2
            else if x \<le> bl_median b - 4 * max (bl_spread b) (bl_median b / 10) then 1 else 0)
      else 0)"
proof (cases "5 \<le> bl_dataPoints b \<and> 200 \<le> bl_median b")
  case True
  then have "max (bl_spread b) (max 1 (\<bar>bl_median b\<bar> * (1/10))) = max (bl_spread b) (bl_median b / 10)"
    by simp
  with True show ?thesis
    by (simp add: threshold_eval zscore_ge_iff)
next
  case False
  then show ?thesis by (auto simp: threshold_eval)
qed

text \<open>The spike rules share one shape: guards, then two z-score limits.\<close>

definition spike_sev :: "bool \<Rightarrow> real \<Rightarrow> real \<Rightarrow> real \<Rightarrow> real \<Rightarrow> real \<Rightarrow> statistical_baseline \<Rightarrow> real \<Rightarrow> nat"
where
  "spike_sev usable least dev pct w c b x =
     (if usable \<and> least \<le> x \<and> dev \<le> \<bar>x - bl_median b\<bar>
      then (if c \<le> computeZScore x b 1 pct then 2 else if w \<le> computeZScore x b 1 pct then 1 else 0)
      else 0)"

lemma spike_closed_form:
  "sev (getSeverityV2 bounce_spike x (Some b)) =
     spike_sev (5 \<le> bl_dataPoints b) 200 50 (1/20) 3 (9/2) b x"
  "sev (getSeverityV2 deferred_spike x (Some b)) =
     spike_sev (5 \<le> bl_dataPoints b) 200 100 (1/20) 3 (9/2) b x"
  "sev (getSeverityV2 volume_spike x (Some b)) =
     spike_sev (5 \<le> bl_dataPoints b \<and> 50 \<le> bl_median b) 500 0 (1/10) 4 6 b x"
  by (simp_all add: threshold_eval spike_sev_def)

lemma spike_sev_mono:
  assumes "x \<le> y" "0 < w" "w \<le> c"
  shows "spike_sev u f d p w c b x \<le> spike_sev u f d p w c b y"
proof (cases "w \<le> computeZScore x b 1 p")
  case True
  have "0 \<le> w * max (bl_spread b) (max 1 (\<bar>bl_median b\<bar> * p))" using assms(2) by simp
  with True have "bl_median b \<le> x" by (simp add: zscore_ge_iff(1))
  then have "\<bar>x - bl_median b\<bar> \<le> \<bar>y - bl_median b\<bar>" using assms(1) by linarith
  moreover have "computeZScore x b 1 p \<le> computeZScore y b 1 p" using assms(1) by (simp add: zscore_mono)
  ultimately show ?thesis using assms(1) by (simp add: spike_sev_def)
next
  case False
  then show ?thesis using assms(3) by (simp add: spike_sev_def)
qed

lemma spike_mono:
  assumes "x \<le> y" "type \<in> spike_types"
  shows "sev (getSeverityV2 type x (Some b)) \<le> sev (getSeverityV2 type y (Some b))"
  using assms by (auto simp: spike_closed_form intro!: spike_sev_mono)

text \<open>Result: alerts react the right way: a higher value never lowers the severity of a spike, spam or
  block alert, and never raises that of a volume drop.\<close>

theorem severity_monotone:
  assumes "x \<le> y"
  shows "if type = volume_drop
    then sev (getSeverityV2 type y b) \<le> sev (getSeverityV2 type x b)
    else sev (getSeverityV2 type x b) \<le> sev (getSeverityV2 type y b)"
proof (cases "type \<in> spike_types \<union> {volume_drop}")
  case True
  show ?thesis
  proof (cases b)
    case None
    with True show ?thesis by (auto simp: threshold_eval)
  next
    case (Some c)
    have "sev (getSeverityV2 volume_drop y (Some c)) \<le> sev (getSeverityV2 volume_drop x (Some c))"
      using assms unfolding drop_closed_form by auto
    with Some True show ?thesis using spike_mono [OF assms, of type c] by auto
  qed
next
  case False
  then show ?thesis using assms by (cases type) (auto simp: threshold_eval)
qed

text \<open>Result: a sender whose spread is more than a quarter of its median never gets a volume-drop
  alert, even when the traffic stops.\<close>

theorem noisy_sender_never_drops:
  assumes "bl_median b < 4 * bl_spread b" "0 \<le> x"
  shows "getSeverityV2 volume_drop x (Some b) = None"
proof -
  have "sev (getSeverityV2 volume_drop x (Some b)) = 0"
    using assms unfolding drop_closed_form by auto
  then show ?thesis by (auto simp: sev_def split: option.splits alert_severity.splits)
qed

theorem severity_monotone_witness:
  "sev (getSeverityV2 bounce_spike 300 (Some \<lparr>bl_median = 100, bl_spread = 10, bl_dataPoints = 7\<rparr>))
   \<le> sev (getSeverityV2 bounce_spike 400 (Some \<lparr>bl_median = 100, bl_spread = 10, bl_dataPoints = 7\<rparr>))"
  using severity_monotone [of 300 400 bounce_spike
      "Some \<lparr>bl_median = 100, bl_spread = 10, bl_dataPoints = 7\<rparr>"] by simp

theorem noisy_sender_never_drops_witness:
  "getSeverityV2 volume_drop 0 (Some \<lparr>bl_median = 1000, bl_spread = 300, bl_dataPoints = 20\<rparr>) = None"
  by (rule noisy_sender_never_drops) simp_all

text \<open>Result: the z-score reported with an alert stays in the displayed range, has the sign of the
  deviation, and is only reported for an alert type of the table.\<close>

theorem reported_zscore_in_range:
  assumes "getSeverityV2 type x b = Some (s, z)"
  shows "-20 \<le> z \<and> z \<le> 20 \<and> type \<notin> {rate_limit, default_no_rule} \<and>
    (b = None \<longrightarrow> z = 0 \<and> type \<in> {block_detected, spam_spike})"
proof -
  have "-20 \<le> clampZScore c \<and> clampZScore c \<le> 20" for c by (simp add: clampZScore_def)
  then show ?thesis
    using assms by (cases type) (auto simp: threshold_eval split: if_splits option.splits)
qed

theorem reported_zscore_in_range_witness:
  "\<exists>z. getSeverityV2 volume_drop 0 (Some \<lparr>bl_median = 10000, bl_spread = 1, bl_dataPoints = 9\<rparr>)
      = Some (Critical, z) \<and> -20 \<le> z \<and> z \<le> 20"
proof -
  have "getSeverityV2 volume_drop 0 (Some \<lparr>bl_median = 10000, bl_spread = 1, bl_dataPoints = 9\<rparr>)
      = Some (Critical, -10)"
    by (simp add: threshold_eval computeZScore_def clampZScore_def)
  with reported_zscore_in_range show ?thesis by blast
qed

end
