(* ===== verification/SmsEncoding.thy ===== *)
theory SmsEncoding
  imports Prelude "HOL-Library.Word"
begin

text \<open>
  \<open>frontend-react/src/features/messages/utils/sms-encoding.ts\<close>: the GSM-7 test and the
  segment count of a text message. A string is its list of UTF-16 code units; the spread
  \<open>[...msg]\<close> yields code points, each again a string of one or two units. The division
  under \<open>Math.ceil\<close> is exact: message lengths are far below the rounding of doubles.
\<close>

type_synonym ustring = "16 word list"

section \<open>Character sets\<close>

definition GSM7_CHARS :: "ustring list" where
  "GSM7_CHARS = map (\<lambda>c. [c])
    [64, 163, 36, 165, 232, 233, 249, 236, 242, 199, 10, 216, 248, 13, 197, 229, 916, 95, 934,
     915, 923, 937, 928, 936, 931, 920, 926, 198, 230, 223, 201, 32, 33, 34, 35, 164, 37, 38,
     39, 40, 41, 42, 43, 44, 45, 46, 47, 48, 49, 50, 51, 52, 53, 54, 55, 56, 57, 58, 59, 60,
     61, 62, 63, 161, 65, 66, 67, 68, 69, 70, 71, 72, 73, 74, 75, 76, 77, 78, 79, 80, 81, 82,
     83, 84, 85, 86, 87, 88, 89, 90, 196, 214, 209, 220, 167, 191, 97, 98, 99, 100, 101, 102,
     103, 104, 105, 106, 107, 108, 109, 110, 111, 112, 113, 114, 115, 116, 117, 118, 119, 120,
     121, 122, 228, 246, 241, 252, 224]"

definition GSM7_EXTENDED_CHARS :: "ustring list" where
  "GSM7_EXTENDED_CHARS = map (\<lambda>c. [c]) [94, 123, 125, 92, 91, 126, 93, 124, 8364]"

definition isGsm7 :: "ustring \<Rightarrow> bool" where
  "isGsm7 char \<longleftrightarrow> List.member GSM7_CHARS char"

definition isGsm7Extended :: "ustring \<Rightarrow> bool" where
  "isGsm7Extended char \<longleftrightarrow> List.member GSM7_EXTENDED_CHARS char"

section \<open>Code points\<close>

definition high_surrogate :: "16 word \<Rightarrow> bool" where
  "high_surrogate u \<longleftrightarrow> 0xD800 \<le> u \<and> u \<le> 0xDBFF"

definition low_surrogate :: "16 word \<Rightarrow> bool" where
  "low_surrogate u \<longleftrightarrow> 0xDC00 \<le> u \<and> u \<le> 0xDFFF"

text \<open>The iteration of a string: a surrogate pair is one item, a lone surrogate too.\<close>

fun code_points :: "ustring \<Rightarrow> ustring list" where
  "code_points [] = []"
| "code_points [u] = [[u]]"
| "code_points (u # v # us) =
     (if high_surrogate u \<and> low_surrogate v then [u, v] # code_points us
      else [u] # code_points (v # us))"

definition isGsm7Only :: "ustring \<Rightarrow> bool" where
  "isGsm7Only msg \<longleftrightarrow> list_all (\<lambda>c. isGsm7 c \<or> isGsm7Extended c) (code_points msg)"

section \<open>Segments\<close>

datatype sms_encoding = gsm7 | unicode

record sms_segment_info =
  chars :: nat
  limit :: nat
  segments :: nat
  encoding :: sms_encoding
  charsInCurrentSegment :: nat

definition ceil_div :: "nat \<Rightarrow> nat \<Rightarrow> nat" where
  "ceil_div n m = (n + m - 1) div m"

definition septetCount :: "ustring \<Rightarrow> nat" where
  "septetCount msg = fold (\<lambda>c n. n + (if isGsm7Extended c then 2 else 1)) (code_points msg) 0"

definition calculateSmsSegments :: "ustring \<Rightarrow> sms_segment_info" where
  "calculateSmsSegments msg =
     (if msg = [] then
        \<lparr>chars = 0, limit = 160, segments = 0, encoding = gsm7, charsInCurrentSegment = 0\<rparr>
      else if \<not> isGsm7Only msg then
        (let charCount = length msg; singleLimit = 70; multiLimit = 67 in
         if charCount \<le> singleLimit then
           \<lparr>chars = charCount, limit = singleLimit, segments = 1, encoding = unicode,
            charsInCurrentSegment = charCount\<rparr>
         else let n = ceil_div charCount multiLimit in
           \<lparr>chars = charCount, limit = multiLimit, segments = n, encoding = unicode,
            charsInCurrentSegment = charCount - multiLimit * (n - 1)\<rparr>)
      else
        (let count = septetCount msg; singleLimit = 160; multiLimit = 153 in
         if count \<le> singleLimit then
           \<lparr>chars = count, limit = singleLimit, segments = 1, encoding = gsm7,
            charsInCurrentSegment = count\<rparr>
         else let n = ceil_div count multiLimit in
           \<lparr>chars = count, limit = multiLimit, segments = n, encoding = gsm7,
            charsInCurrentSegment = count - multiLimit * (n - 1)\<rparr>))"

section \<open>The code points do not matter\<close>

definition gsm_unit :: "16 word \<Rightarrow> bool" where
  "gsm_unit u \<longleftrightarrow> isGsm7 [u] \<or> isGsm7Extended [u]"

lemma gsm_unit_no_surrogate: "gsm_unit u \<Longrightarrow> \<not> high_surrogate u \<and> \<not> low_surrogate u"
  by (auto simp: gsm_unit_def isGsm7_def isGsm7Extended_def GSM7_CHARS_def GSM7_EXTENDED_CHARS_def
      high_surrogate_def low_surrogate_def)

lemma pair_not_gsm: "\<not> isGsm7 [u, v]" "\<not> isGsm7Extended [u, v]"
  by (simp_all add: isGsm7_def isGsm7Extended_def GSM7_CHARS_def GSM7_EXTENDED_CHARS_def)

lemma isGsm7Only_units: "isGsm7Only msg \<longleftrightarrow> list_all gsm_unit msg"
  unfolding isGsm7Only_def
  by (induction msg rule: code_points.induct)
     (auto simp: pair_not_gsm gsm_unit_def [symmetric] dest: gsm_unit_no_surrogate)

lemma code_points_gsm: "list_all gsm_unit msg \<Longrightarrow> code_points msg = map (\<lambda>u. [u]) msg"
  by (induction msg rule: code_points.induct) (auto dest: gsm_unit_no_surrogate)

lemma septets_sum:
  "list_all gsm_unit msg \<Longrightarrow>
   septetCount msg = (\<Sum>u\<leftarrow>msg. if isGsm7Extended [u] then 2 else 1)"
proof -
  have "fold (\<lambda>c n. n + (if isGsm7Extended c then 2 else 1)) cs k =
      k + (\<Sum>c\<leftarrow>cs. if isGsm7Extended c then 2 else (1::nat))" for cs k
    by (induction cs arbitrary: k) simp_all
  then show "list_all gsm_unit msg \<Longrightarrow> ?thesis"
    by (simp add: septetCount_def code_points_gsm comp_def)
qed

lemma septets_bounds:
  "list_all gsm_unit msg \<Longrightarrow> length msg \<le> septetCount msg \<and> septetCount msg \<le> 2 * length msg"
  by (simp add: septets_sum) (induction msg; simp)

lemma septets_append:
  "list_all gsm_unit (t @ u) \<Longrightarrow> septetCount (t @ u) = septetCount t + septetCount u"
  by (simp add: septets_sum)

section \<open>Properties\<close>

lemma ceil_div_bounds:
  assumes "0 < m" "0 < n"
  shows "1 \<le> ceil_div n m" "m * (ceil_div n m - 1) < n" "n \<le> m * ceil_div n m"
proof -
  obtain k where k: "n = Suc k" using assms(2) by (cases n) auto
  then have c: "ceil_div (Suc k) m = Suc (k div m)" using assms by (simp add: ceil_div_def)
  have "m * (k div m) \<le> k" by simp
  moreover have "k < m * Suc (k div m)"
    using assms(1) by (metis dividend_less_times_div mult_Suc_right)
  ultimately show "1 \<le> ceil_div n m" "m * (ceil_div n m - 1) < n" "n \<le> m * ceil_div n m"
    unfolding k c by (simp_all add: less_Suc_eq_le)
qed

lemma ceil_div_mono: "n \<le> k \<Longrightarrow> ceil_div n m \<le> ceil_div k m"
  by (simp add: ceil_div_def div_le_mono diff_le_mono)

text \<open>The two encodings share the shape of their segment count.\<close>

definition segs :: "nat \<Rightarrow> nat \<Rightarrow> nat \<Rightarrow> nat" where
  "segs single multi n = (if n \<le> single then 1 else ceil_div n multi)"

lemma segments_segs:
  "msg \<noteq> [] \<Longrightarrow> segments (calculateSmsSegments msg) =
     (if list_all gsm_unit msg then segs 160 153 (septetCount msg) else segs 70 67 (length msg))"
  by (simp add: calculateSmsSegments_def isGsm7Only_units segs_def Let_def)

lemma segs_mono: "0 < m \<Longrightarrow> n \<le> k \<Longrightarrow> segs s m n \<le> segs s m k"
  using ceil_div_mono [of n k m] ceil_div_bounds(1) [of m k] by (auto simp: segs_def)

lemma segs_gsm_unicode:
  assumes "n \<le> 2 * k"
  shows "segs 160 153 n \<le> segs 70 67 k"
proof (cases "n \<le> 160")
  case True
  then show ?thesis using ceil_div_bounds(1) [of 67 k] by (simp add: segs_def)
next
  case False
  then have "70 < k" "153 * (ceil_div n 153 - 1) < n" "k \<le> 67 * ceil_div k 67"
    using assms ceil_div_bounds [of 153 n] ceil_div_bounds [of 67 k] by simp_all
  then show ?thesis using assms False by (simp add: segs_def)
qed

text \<open>Result: the segment count is exact: every segment but the last is full, the last holds between
  one character and the limit, and one segment means the message fits the single-message limit of
  its encoding.\<close>

theorem segments_exact:
  assumes "msg \<noteq> []"
  shows "let i = calculateSmsSegments msg in
     1 \<le> segments i \<and> 1 \<le> charsInCurrentSegment i \<and> charsInCurrentSegment i \<le> limit i \<and>
     chars i = limit i * (segments i - 1) + charsInCurrentSegment i \<and>
     (segments i = 1 \<longleftrightarrow> chars i \<le> (if encoding i = gsm7 then 160 else 70))"
proof -
  have pos: "0 < length msg" using assms by simp
  have pos': "list_all gsm_unit msg \<Longrightarrow> 0 < septetCount msg"
    using pos septets_bounds [of msg] by linarith
  have big: "ceil_div n m \<noteq> 1" if "m < n" "0 < m" for n m
    using ceil_div_bounds(3) [of m n] that by auto
  show ?thesis
    using assms pos pos' ceil_div_bounds [of 153 "septetCount msg"] ceil_div_bounds [of 67 "length msg"]
      big [of 153 "septetCount msg"] big [of 67 "length msg"]
    by (auto simp: calculateSmsSegments_def isGsm7Only_units Let_def)
qed

text \<open>Result: the encoding is decided unit by unit: GSM-7 exactly when every UTF-16 unit is in one of the
  two tables, so that a surrogate pair (an emoji) always forces UCS-2.\<close>

theorem encoding_by_units:
  "encoding (calculateSmsSegments msg) = gsm7 \<longleftrightarrow>
     list_all (\<lambda>u. isGsm7 [u] \<or> isGsm7Extended [u]) msg"
  by (simp add: calculateSmsSegments_def isGsm7Only_units Let_def gsm_unit_def [abs_def])

text \<open>Result: typing more never makes a message cheaper: the segment count of a text is at most that
  of any extension of it, even when the extension switches the encoding.\<close>

theorem segments_monotone:
  "segments (calculateSmsSegments t) \<le> segments (calculateSmsSegments (t @ u))"
proof (cases "t = []")
  case True
  then show ?thesis by (simp add: calculateSmsSegments_def)
next
  case False
  show ?thesis
  proof (cases "list_all gsm_unit t")
    case True
    then show ?thesis
      using False septets_bounds [of t] septets_append [of t u]
      by (cases "list_all gsm_unit u") (auto simp: segments_segs intro!: segs_mono segs_gsm_unicode)
  qed (use False in \<open>auto simp: segments_segs intro!: segs_mono\<close>)
qed

theorem segments_exact_witness:
  "let i = calculateSmsSegments (replicate 200 97) in segments i = 2 \<and> charsInCurrentSegment i = 47"
proof -
  have u: "gsm_unit 97" "\<not> isGsm7Extended [97]"
    by (simp_all add: gsm_unit_def isGsm7_def isGsm7Extended_def GSM7_CHARS_def GSM7_EXTENDED_CHARS_def)
  then have l: "list_all gsm_unit (replicate 200 97)" by (simp add: list_all_iff)
  moreover have "septetCount (replicate 200 97) = 200"
    using u l by (simp add: septets_sum map_replicate_const sum_list_replicate)
  ultimately have "segments (calculateSmsSegments (replicate 200 97)) = 2"
      "chars (calculateSmsSegments (replicate 200 97)) = 200"
      "limit (calculateSmsSegments (replicate 200 97)) = 153"
    by (simp_all add: calculateSmsSegments_def isGsm7Only_units ceil_div_def)
  with segments_exact [of "replicate 200 97"] show ?thesis by (simp add: Let_def)
qed

end
