(* ===== verification/Authz.thy ===== *)
theory Authz
  imports JsValue
begin

text \<open>
  Authorisation in \<open>msgops-api\<close>: \<open>modules/authz\<close> (roles, permissions, the resolution of a
  request to a principal, the two guards) and the managed API keys of
  \<open>modules/accounts/accounts.service.ts\<close>. The database is the tables these read; the
  Redis cache holds serialised principals with an expiry time in seconds, and every
  operation on it fails while Redis is down. The token verifier of the configured
  authentication provider, MD5, and Redis' key patterns are parameters.
\<close>

section \<open>Roles and permissions (\<open>authz.constants.ts\<close>)\<close>

definition SUPER_ADMIN :: string where "SUPER_ADMIN = ''super_admin''"
definition ADMIN :: string where "ADMIN = ''admin''"
definition EDITOR :: string where "EDITOR = ''editor''"
definition ANALYST :: string where "ANALYST = ''analyst''"
definition SUPPORT :: string where "SUPPORT = ''support''"
definition BILLING :: string where "BILLING = ''billing''"

lemmas role_codes = SUPER_ADMIN_def ADMIN_def EDITOR_def ANALYST_def SUPPORT_def BILLING_def

definition ALL_PERMISSION_KEYS :: "string list" where
  "ALL_PERMISSION_KEYS =
    [''campaigns:view'', ''campaigns:create'', ''campaigns:create_from_rule'',
     ''campaigns:update'', ''campaigns:delete'', ''campaigns:send'', ''campaigns:schedule'',
     ''campaigns:pause'', ''campaigns:resume'', ''campaigns:cancel'', ''campaigns:duplicate'',
     ''automations:view'', ''automations:create'', ''automations:update'',
     ''automations:delete'', ''automations:activate'', ''automations:deactivate'',
     ''automations:test'', ''messages:view'', ''messages:create'', ''messages:update'',
     ''messages:delete'', ''messages:test_send'', ''audience:contacts_view'',
     ''audience:contacts_edit'', ''audience:contacts_import'', ''audience:contacts_export'',
     ''audience:contacts_suppress'', ''audience:segments_view'', ''audience:segments_execute'',
     ''audience:tags_view'', ''audience:tags_manage'', ''audience:custom_fields_view'',
     ''audience:custom_fields_manage'', ''infra:pools_read'', ''infra:labels_read'',
     ''infra:campaign_rules_read'', ''infra:view'', ''infra:manage'',
     ''analytics:dashboard_view'', ''analytics:dashboard_export'', ''analytics:insights_view'',
     ''analytics:comparison_view'', ''account:settings_view'', ''account:settings_update'',
     ''account:users_view'', ''account:users_invite'', ''account:users_update_roles'',
     ''account:roles_view'', ''account:api_keys_view'', ''account:api_keys_create'',
     ''account:api_keys_rotate'', ''account:api_keys_revoke'', ''account:api_keys_update_role'',
     ''audit_logs:view'', ''audit_logs:export'']"

definition EDITOR_PERMISSIONS :: "string list" where
  "EDITOR_PERMISSIONS =
    [''campaigns:view'', ''campaigns:create'', ''campaigns:create_from_rule'',
     ''campaigns:update'', ''campaigns:delete'', ''campaigns:send'', ''campaigns:schedule'',
     ''campaigns:pause'', ''campaigns:resume'', ''campaigns:cancel'', ''campaigns:duplicate'',
     ''automations:view'', ''automations:create'', ''automations:update'',
     ''automations:delete'', ''automations:activate'', ''automations:deactivate'',
     ''automations:test'', ''messages:view'', ''messages:create'', ''messages:update'',
     ''messages:delete'', ''messages:test_send'', ''audience:contacts_view'',
     ''audience:contacts_edit'', ''audience:tags_view'', ''audience:custom_fields_view'',
     ''infra:pools_read'', ''infra:labels_read'', ''infra:campaign_rules_read'',
     ''analytics:dashboard_view'', ''analytics:insights_view'', ''analytics:comparison_view'']"

definition ANALYST_PERMISSIONS :: "string list" where
  "ANALYST_PERMISSIONS =
    [''campaigns:view'', ''automations:view'', ''messages:view'', ''audience:contacts_view'',
     ''audience:segments_view'', ''audience:tags_view'', ''audience:custom_fields_view'',
     ''analytics:dashboard_view'', ''analytics:insights_view'', ''analytics:comparison_view'',
     ''account:settings_view'', ''account:users_view'', ''account:roles_view'']"

definition SUPPORT_PERMISSIONS :: "string list" where
  "SUPPORT_PERMISSIONS =
    [''audience:contacts_view'', ''audience:contacts_edit'', ''audience:contacts_suppress'',
     ''analytics:dashboard_view'']"

definition ROLE_PERMISSIONS :: "(string \<times> string list) list" where
  "ROLE_PERMISSIONS =
    [(SUPER_ADMIN, ALL_PERMISSION_KEYS), (ADMIN, ALL_PERMISSION_KEYS),
     (EDITOR, EDITOR_PERMISSIONS), (ANALYST, ANALYST_PERMISSIONS),
     (SUPPORT, SUPPORT_PERMISSIONS), (BILLING, [])]"

definition getPermissionsByRole :: "string \<Rightarrow> string list" where
  "getPermissionsByRole roleCode =
     (if roleCode = SUPER_ADMIN then ALL_PERMISSION_KEYS
      else case map_of ROLE_PERMISSIONS roleCode of None \<Rightarrow> [] | Some ps \<Rightarrow> ps)"

section \<open>Principals\<close>

datatype principal_type = PUser | PApiKey

record principal_context =
  pc_principalType :: principal_type
  pc_principalId :: real
  pc_userId :: "real option"
  pc_apiKeyId :: "real option"
  pc_accountId :: "real option"
  pc_globalRole :: "string option"
  pc_effectiveRole :: "string option"
  pc_permissions :: "string list"
  pc_isSuperAdmin :: bool
  pc_sub :: "string option"

datatype authz_error = Unauthorized string | Forbidden string | HttpError string

definition hasPermissions :: "principal_context \<Rightarrow> string list \<Rightarrow> bool" where
  "hasPermissions context requiredPermissions =
     (if pc_isSuperAdmin context \<or> pc_effectiveRole context = Some SUPER_ADMIN then True
      else list_all (\<lambda>permission. List.member (pc_permissions context) permission) requiredPermissions)"

section \<open>The database\<close>

record user_row =
  u_id :: real
  u_providerId :: string
  u_globalRoleId :: "real option"
  u_deleted :: bool

record role_row =
  r_id :: real
  r_code :: string

record membership_row =
  mb_userId :: real
  mb_accountId :: real
  mb_roleOverrideRoleId :: "real option"

record api_key_row =
  k_id :: real
  k_accountId :: real
  k_keyHash :: string
  k_roleId :: real
  k_status :: string
  k_expiresAt :: "nat option"
  k_revokedAt :: "nat option"
  k_lastUsedAt :: "nat option"

record account_config_row =
  cf_accountId :: real
  cf_name :: string
  cf_value :: string

record authz_db =
  db_users :: "user_row list"
  db_roles :: "role_row list"
  db_memberships :: "membership_row list"
  db_apiKeys :: "api_key_row list"
  db_configs :: "account_config_row list"

text \<open>JavaScript's \<open>a || b\<close> on an optional id or string, and \<open>findOne\<close> of a role.\<close>

fun or_num :: "real option \<Rightarrow> real option \<Rightarrow> real option" where
  "or_num (Some x) y = (if x \<noteq> 0 then Some x else y)"
| "or_num None y = y"

fun or_str :: "string option \<Rightarrow> string option \<Rightarrow> string option" where
  "or_str (Some s) t = (if s \<noteq> [] then Some s else t)"
| "or_str None t = t"

definition roleCode :: "authz_db \<Rightarrow> real option \<Rightarrow> string option" where
  "roleCode db rid = (case or_num rid None of None \<Rightarrow> None
     | Some i \<Rightarrow> map_option r_code (find (\<lambda>r. r_id r = i) (db_roles db)))"

section \<open>Users\<close>

definition userContextOf ::
  "real \<Rightarrow> string \<Rightarrow> real option \<Rightarrow> string \<Rightarrow> string \<Rightarrow> bool \<Rightarrow> principal_context" where
  "userContextOf uid providerId accountId globalRole effectiveRole isSuper =
     \<lparr>pc_principalType = PUser, pc_principalId = uid, pc_userId = Some uid, pc_apiKeyId = None,
      pc_accountId = accountId, pc_globalRole = Some globalRole,
      pc_effectiveRole = Some effectiveRole, pc_permissions = getPermissionsByRole effectiveRole,
      pc_isSuperAdmin = isSuper, pc_sub = Some providerId\<rparr>"

text \<open>\<open>resolveUserContext\<close> between the two cache accesses.\<close>

definition lookupUserContext ::
  "authz_db \<Rightarrow> string \<Rightarrow> real option \<Rightarrow> authz_error + principal_context" where
  "lookupUserContext db providerId requestedAccountId =
     (case find (\<lambda>u. u_providerId u = providerId \<and> \<not> u_deleted u) (db_users db) of
        None \<Rightarrow> Inl (Unauthorized ''User not found'')
      | Some user \<Rightarrow>
          let globalRoleCode = (case or_str (roleCode db (u_globalRoleId user)) None of
                                  None \<Rightarrow> EDITOR | Some c \<Rightarrow> c) in
          if globalRoleCode = SUPER_ADMIN then
            Inr (userContextOf (u_id user) providerId requestedAccountId globalRoleCode SUPER_ADMIN True)
          else let memberships = filter (\<lambda>m. mb_userId m = u_id user) (db_memberships db) in
            (case or_num requestedAccountId
                    (or_num (case memberships of [] \<Rightarrow> None | m # _ \<Rightarrow> Some (mb_accountId m)) None) of
               None \<Rightarrow> Inl (Forbidden ''User has no account membership'')
             | Some accountId \<Rightarrow>
                 (case find (\<lambda>m. mb_accountId m = accountId) memberships of
                    None \<Rightarrow> Inl (Forbidden ''User does not belong to account'')
                  | Some membership \<Rightarrow>
                      let effectiveRoleCode =
                        (case or_str (roleCode db (mb_roleOverrideRoleId membership)) None of
                           None \<Rightarrow> globalRoleCode | Some c \<Rightarrow> c) in
                      Inr (userContextOf (u_id user) providerId (Some accountId) globalRoleCode
                             effectiveRoleCode False))))"

section \<open>API keys\<close>

definition apiKeyContextOf :: "real \<Rightarrow> real \<Rightarrow> string \<Rightarrow> principal_context" where
  "apiKeyContextOf kid accountId role =
     \<lparr>pc_principalType = PApiKey, pc_principalId = kid, pc_userId = None, pc_apiKeyId = Some kid,
      pc_accountId = Some accountId, pc_globalRole = None, pc_effectiveRole = Some role,
      pc_permissions = getPermissionsByRole role, pc_isSuperAdmin = False, pc_sub = None\<rparr>"

definition usable_key :: "nat \<Rightarrow> string \<Rightarrow> api_key_row \<Rightarrow> bool" where
  "usable_key now keyHash k \<longleftrightarrow> k_keyHash k = keyHash \<and> k_status k = ''active'' \<and>
     k_revokedAt k = None \<and> (case k_expiresAt k of None \<Rightarrow> True | Some t \<Rightarrow> t > now)"

text \<open>
  \<open>accountApiKeyRepository.update(id, \<dots>)\<close> with the moment of use; an id that is no
  key's changes nothing.
\<close>

definition touchKey :: "real \<Rightarrow> nat \<Rightarrow> authz_db \<Rightarrow> authz_db" where
  "touchKey kid now db = db\<lparr>db_apiKeys :=
     map (\<lambda>k. if k_id k = kid then k\<lparr>k_lastUsedAt := Some now\<rparr> else k) (db_apiKeys db)\<rparr>"

definition keyRole :: "authz_db \<Rightarrow> api_key_row \<Rightarrow> string" where
  "keyRole db k = (case or_str (roleCode db (Some (k_roleId k))) None of None \<Rightarrow> ADMIN | Some c \<Rightarrow> c)"

definition lookupApiKeyContext ::
  "(string \<Rightarrow> string) \<Rightarrow> nat \<Rightarrow> authz_db \<Rightarrow> string \<Rightarrow> authz_error + principal_context" where
  "lookupApiKeyContext md5 now db rawApiKey =
     (case find (usable_key now (md5 rawApiKey)) (db_apiKeys db) of
        Some managedKey \<Rightarrow>
          Inr (apiKeyContextOf (k_id managedKey) (k_accountId managedKey) (keyRole db managedKey))
      | None \<Rightarrow>
          (case find (\<lambda>c. List.member [''api_key'', ''api_key_tracker''] (cf_name c) \<and>
                          cf_value c = rawApiKey) (db_configs db) of
             None \<Rightarrow> Inl (Unauthorized ''Invalid API key'')
           | Some legacyKey \<Rightarrow>
               Inr (apiKeyContextOf (cf_accountId legacyKey) (cf_accountId legacyKey) ADMIN)))"

section \<open>The service's state: database, cache, clock\<close>

record authz_state =
  az_db :: authz_db
  az_cache :: "(string \<times> (principal_context \<times> nat)) list"
  az_now :: nat
  az_redisUp :: bool

definition AUTHZ_CACHE_TTL :: nat where "AUTHZ_CACHE_TTL = 300"

definition getCachedPrincipal :: "string \<Rightarrow> authz_state \<Rightarrow> principal_context option" where
  "getCachedPrincipal cacheKey s =
     (if \<not> az_redisUp s then None
      else case map_of (az_cache s) cacheKey of
        None \<Rightarrow> None
      | Some (ctx, expiry) \<Rightarrow> if az_now s < expiry then Some ctx else None)"

definition cachePrincipal :: "string \<Rightarrow> principal_context \<Rightarrow> authz_state \<Rightarrow> authz_state" where
  "cachePrincipal cacheKey ctx s =
     (if az_redisUp s
      then s\<lparr>az_cache := AList.update cacheKey (ctx, az_now s + AUTHZ_CACHE_TTL) (az_cache s)\<rparr> else s)"

definition userCacheKey :: "(real \<Rightarrow> string) \<Rightarrow> string \<Rightarrow> real option \<Rightarrow> string" where
  "userCacheKey fracStr providerId requestedAccountId =
     ''authz:user:'' @ providerId @ '':'' @
       (case or_num requestedAccountId None of None \<Rightarrow> ''default'' | Some a \<Rightarrow> num_str fracStr a)"

definition apiKeyCacheKey :: "string \<Rightarrow> string" where
  "apiKeyCacheKey keyHash = ''authz:apikey:'' @ keyHash"

definition invalidateUserCache :: "(string \<Rightarrow> string \<Rightarrow> bool) \<Rightarrow> string \<Rightarrow> authz_state \<Rightarrow> authz_state" where
  "invalidateUserCache glob providerId s =
     (if az_redisUp s
      then s\<lparr>az_cache := filter (\<lambda>(k, _). \<not> glob (''authz:user:'' @ providerId @ '':*'') k) (az_cache s)\<rparr>
      else s)"

definition resolveUserContext ::
  "(real \<Rightarrow> string) \<Rightarrow> (string \<times> string) list \<Rightarrow> real option \<Rightarrow> authz_state
   \<Rightarrow> (authz_error + principal_context) \<times> authz_state" where
  "resolveUserContext fracStr payload requestedAccountId s =
     (case or_str (map_of payload ''sub'')
             (or_str (map_of payload ''user_id'') (or_str (map_of payload ''provider_id'') None)) of
        None \<Rightarrow> (Inl (Unauthorized ''Invalid token payload''), s)
      | Some providerId \<Rightarrow>
          let cacheKey = userCacheKey fracStr providerId requestedAccountId in
          (case getCachedPrincipal cacheKey s of
             Some cached \<Rightarrow> (Inr cached, s)
           | None \<Rightarrow>
               (case lookupUserContext (az_db s) providerId requestedAccountId of
                  Inl e \<Rightarrow> (Inl e, s)
                | Inr ctx \<Rightarrow> (Inr ctx, cachePrincipal cacheKey ctx s))))"

definition touchOf :: "principal_context \<Rightarrow> authz_state \<Rightarrow> authz_state" where
  "touchOf ctx s = (case or_num (pc_apiKeyId ctx) None of None \<Rightarrow> s
     | Some kid \<Rightarrow> s\<lparr>az_db := touchKey kid (az_now s) (az_db s)\<rparr>)"

definition resolveApiKeyContext ::
  "(string \<Rightarrow> string) \<Rightarrow> string \<Rightarrow> authz_state \<Rightarrow> (authz_error + principal_context) \<times> authz_state" where
  "resolveApiKeyContext md5 rawApiKey s =
     (let cacheKey = apiKeyCacheKey (md5 rawApiKey) in
      case getCachedPrincipal cacheKey s of
        Some cached \<Rightarrow> (Inr cached, touchOf cached s)
      | None \<Rightarrow>
          (case lookupApiKeyContext md5 (az_now s) (az_db s) rawApiKey of
             Inl e \<Rightarrow> (Inl e, s)
           | Inr ctx \<Rightarrow>
               (Inr ctx, cachePrincipal cacheKey ctx
                  (case find (usable_key (az_now s) (md5 rawApiKey)) (db_apiKeys (az_db s)) of
                     Some managedKey \<Rightarrow> s\<lparr>az_db := touchKey (k_id managedKey) (az_now s) (az_db s)\<rparr>
                   | None \<Rightarrow> s))))"

section \<open>Requests and guards\<close>

definition getHeaderApiKey :: "(string \<times> string) list \<Rightarrow> string option" where
  "getHeaderApiKey h = or_str (map_of h ''api-key'') (or_str (map_of h ''x-api-key'') None)"

definition getHeaderAccountId :: "(string \<times> string) list \<Rightarrow> real option" where
  "getHeaderAccountId h =
     (case or_str (map_of h ''account-id'') None of
        None \<Rightarrow> None
      | Some raw \<Rightarrow> (case js_Number raw of Fin x \<Rightarrow> Some x | _ \<Rightarrow> None))"

definition resolvePrincipalFromRequest ::
  "(real \<Rightarrow> string) \<Rightarrow> (string \<Rightarrow> string) \<Rightarrow> (string \<Rightarrow> authz_error + (string \<times> string) list)
   \<Rightarrow> (string \<times> string) list \<Rightarrow> authz_state \<Rightarrow> (authz_error + principal_context option) \<times> authz_state"
where
  "resolvePrincipalFromRequest fracStr md5 verifyToken h s =
     (case getHeaderApiKey h of
        Some apiKey \<Rightarrow>
          (case resolveApiKeyContext md5 apiKey s of
             (Inl e, s') \<Rightarrow> (Inl e, s') | (Inr ctx, s') \<Rightarrow> (Inr (Some ctx), s'))
      | None \<Rightarrow>
          (case or_str (map_of h ''authorization'') (map_of h ''Authorization'') of
             None \<Rightarrow> (Inr None, s)
           | Some authHeader \<Rightarrow>
               if \<not> starts_with ''Bearer '' authHeader then (Inr None, s)
               else let token = js_trim (drop 7 authHeader) in
                 if token = [] then (Inr None, s)
                 else (case verifyToken token of
                         Inl e \<Rightarrow> (Inl e, s)
                       | Inr payload \<Rightarrow>
                           (case resolveUserContext fracStr payload (getHeaderAccountId h) s of
                              (Inl e, s') \<Rightarrow> (Inl e, s') | (Inr ctx, s') \<Rightarrow> (Inr (Some ctx), s')))))"

text \<open>The metadata of a route, as the decorators set it on the handler or its class.\<close>

record route_meta =
  rm_isPublic :: bool
  rm_isCron :: bool
  rm_requiredPermissions :: "string list"
  rm_requireSuperAdmin :: bool

text \<open>\<open>PrincipalContextGuard\<close>: the outcome is the \<open>authzContext\<close> the request carries on.\<close>

definition principalContextGuard ::
  "(real \<Rightarrow> string) \<Rightarrow> (string \<Rightarrow> string) \<Rightarrow> (string \<Rightarrow> authz_error + (string \<times> string) list)
   \<Rightarrow> string option \<Rightarrow> route_meta \<Rightarrow> (string \<times> string) list \<Rightarrow> authz_state
   \<Rightarrow> (authz_error + principal_context option) \<times> authz_state"
where
  "principalContextGuard fracStr md5 verifyToken CRON_SECRET rt h s =
     (if rm_isCron rt then
        (if or_str CRON_SECRET None = None \<or> map_of h ''x-cron-secret'' \<noteq> CRON_SECRET
         then (Inl (Unauthorized ''Invalid or missing cron secret''), s)
         else (Inr None, s))
      else (case resolvePrincipalFromRequest fracStr md5 verifyToken h s of
              (Inr (Some ctx), s') \<Rightarrow> (Inr (Some ctx), s')
            | (Inr None, s') \<Rightarrow>
                (if rm_isPublic rt then (Inr None, s') else (Inl (Unauthorized ''Unauthorized''), s'))
            | (Inl e, s') \<Rightarrow>
                (if rm_isPublic rt then (Inr None, s')
                 else (case e of
                         Unauthorized m \<Rightarrow> (Inl (Unauthorized m), s')
                       | _ \<Rightarrow> (Inl (Unauthorized ''Unauthorized''), s')))))"

definition permissionGuard :: "route_meta \<Rightarrow> principal_context option \<Rightarrow> authz_error + bool" where
  "permissionGuard rt authzContext =
     (if rm_requireSuperAdmin rt then
        (case authzContext of
           None \<Rightarrow> Inl (Unauthorized ''Unauthorized'')
         | Some c \<Rightarrow> if \<not> pc_isSuperAdmin c then Inl (Forbidden ''Super admin access required'')
                     else Inr True)
      else if rm_requiredPermissions rt = [] then Inr True
      else (case authzContext of
              None \<Rightarrow> Inl (Unauthorized ''Unauthorized'')
            | Some c \<Rightarrow> if \<not> hasPermissions c (rm_requiredPermissions rt)
                        then Inl (Forbidden ''Missing required permission'') else Inr True))"

text \<open>The two application guards in their registration order.\<close>

definition authorizeRequest ::
  "(real \<Rightarrow> string) \<Rightarrow> (string \<Rightarrow> string) \<Rightarrow> (string \<Rightarrow> authz_error + (string \<times> string) list)
   \<Rightarrow> string option \<Rightarrow> route_meta \<Rightarrow> (string \<times> string) list \<Rightarrow> authz_state
   \<Rightarrow> (authz_error + principal_context option) \<times> authz_state"
where
  "authorizeRequest fracStr md5 verifyToken CRON_SECRET rt h s =
     (case principalContextGuard fracStr md5 verifyToken CRON_SECRET rt h s of
        (Inl e, s') \<Rightarrow> (Inl e, s')
      | (Inr c, s') \<Rightarrow> (case permissionGuard rt c of Inl e \<Rightarrow> (Inl e, s') | Inr _ \<Rightarrow> (Inr c, s')))"

section \<open>Managed API keys (\<open>accounts.service.ts\<close>)\<close>

text \<open>The plain key is drawn at random by the caller of \<open>randomBytes\<close>: an argument here.\<close>

definition createManagedApiKey ::
  "(string \<Rightarrow> string) \<Rightarrow> string \<Rightarrow> real \<Rightarrow> real \<Rightarrow> string option \<Rightarrow> nat option \<Rightarrow> authz_state
   \<Rightarrow> (authz_error + string) \<times> authz_state"
where
  "createManagedApiKey md5 plainApiKey newId accountId payloadRole expiresAt s =
     (let code = (case or_str payloadRole None of None \<Rightarrow> ADMIN | Some c \<Rightarrow> c) in
      if code = SUPER_ADMIN then (Inl (HttpError ''API key cannot use super_admin role''), s)
      else (case find (\<lambda>r. r_code r = code) (db_roles (az_db s)) of
              None \<Rightarrow> (Inl (HttpError ''Role not found''), s)
            | Some role \<Rightarrow>
                (Inr plainApiKey, s\<lparr>az_db := (az_db s)\<lparr>db_apiKeys := db_apiKeys (az_db s) @
                   [\<lparr>k_id = newId, k_accountId = accountId, k_keyHash = md5 plainApiKey,
                     k_roleId = r_id role, k_status = ''active'', k_expiresAt = expiresAt,
                     k_revokedAt = None, k_lastUsedAt = None\<rparr>]\<rparr>\<rparr>)))"

definition saveKey :: "real \<Rightarrow> (api_key_row \<Rightarrow> api_key_row) \<Rightarrow> authz_state \<Rightarrow> authz_state" where
  "saveKey keyId f s = s\<lparr>az_db := (az_db s)\<lparr>db_apiKeys :=
     map (\<lambda>k. if k_id k = keyId then f k else k) (db_apiKeys (az_db s))\<rparr>\<rparr>"

definition findKey :: "real \<Rightarrow> real \<Rightarrow> authz_state \<Rightarrow> api_key_row option" where
  "findKey accountId keyId s =
     find (\<lambda>k. k_id k = keyId \<and> k_accountId k = accountId) (db_apiKeys (az_db s))"

definition rotateManagedApiKey ::
  "(string \<Rightarrow> string) \<Rightarrow> string \<Rightarrow> real \<Rightarrow> real \<Rightarrow> authz_state \<Rightarrow> (authz_error + string) \<times> authz_state"
where
  "rotateManagedApiKey md5 plainApiKey accountId keyId s =
     (case findKey accountId keyId s of
        None \<Rightarrow> (Inl (HttpError ''API key not found''), s)
      | Some _ \<Rightarrow>
          (Inr plainApiKey, saveKey keyId (\<lambda>k. k\<lparr>k_keyHash := md5 plainApiKey,
             k_status := ''active'', k_revokedAt := None\<rparr>) s))"

text \<open>Revocation saves the row, then deletes the cache entry; with Redis down that throws.\<close>

definition revokeManagedApiKey ::
  "real \<Rightarrow> real \<Rightarrow> authz_state \<Rightarrow> (authz_error + bool) \<times> authz_state"
where
  "revokeManagedApiKey accountId keyId s =
     (case findKey accountId keyId s of
        None \<Rightarrow> (Inl (HttpError ''API key not found''), s)
      | Some apiKey \<Rightarrow>
          let s1 = saveKey keyId (\<lambda>k. k\<lparr>k_status := ''revoked'', k_revokedAt := Some (az_now s)\<rparr>) s in
          if az_redisUp s1
          then (Inr True, s1\<lparr>az_cache := AList.delete (apiKeyCacheKey (k_keyHash apiKey)) (az_cache s1)\<rparr>)
          else (Inl (HttpError ''redis''), s1))"

section \<open>Lookups without the cache\<close>

lemma or_num_Some: "or_num x y = Some a \<Longrightarrow> (x = Some a \<and> a \<noteq> 0) \<or> y = Some a"
  by (cases x) (auto split: if_splits)

lemma or_num_nonzero: "or_num x (or_num y None) = Some a \<Longrightarrow> a \<noteq> 0"
  by (cases x; cases y) (auto split: if_splits)

lemma find_SomeD: "find P xs = Some x \<Longrightarrow> x \<in> set xs \<and> P x"
  by (auto simp: find_Some_iff)

text \<open>What the tables say of a principal that is not a super admin: a live user with a membership in
  the account, and the role the membership overrides, else the user's own.\<close>

definition entitled :: "authz_db \<Rightarrow> string \<Rightarrow> principal_context \<Rightarrow> bool" where
  "entitled db providerId ctx \<longleftrightarrow>
     (\<exists>u \<in> set (db_users db). u_providerId u = providerId \<and> \<not> u_deleted u \<and> pc_userId ctx = Some (u_id u) \<and>
        (if pc_isSuperAdmin ctx then roleCode db (u_globalRoleId u) = Some SUPER_ADMIN
         else \<exists>m \<in> set (db_memberships db). mb_userId m = u_id u \<and>
                pc_accountId ctx = Some (mb_accountId m) \<and>
                pc_permissions ctx = getPermissionsByRole
                  (case or_str (roleCode db (mb_roleOverrideRoleId m))
                          (or_str (roleCode db (u_globalRoleId u)) None) of
                     None \<Rightarrow> EDITOR | Some c \<Rightarrow> c)))"

lemma lookupUser_entitled:
  assumes "lookupUserContext db p req = Inr ctx"
  shows "entitled db p ctx"
proof -
  obtain u where u: "find (\<lambda>u. u_providerId u = p \<and> \<not> u_deleted u) (db_users db) = Some u"
    using assms by (auto simp: lookupUserContext_def split: option.splits)
  note du = find_SomeD [OF u]
  let ?g = "case or_str (roleCode db (u_globalRoleId u)) None of None \<Rightarrow> EDITOR | Some c \<Rightarrow> c"
  show ?thesis
  proof (cases "?g = SUPER_ADMIN")
    case True
    then have "roleCode db (u_globalRoleId u) = Some SUPER_ADMIN"
      by (cases "roleCode db (u_globalRoleId u)") (auto simp: role_codes split: if_splits)
    with assms u du True show ?thesis
      by (auto simp: lookupUserContext_def entitled_def userContextOf_def Let_def)
  next
    case False
    then obtain a m where m: "find (\<lambda>m. mb_accountId m = a)
          (filter (\<lambda>m. mb_userId m = u_id u) (db_memberships db)) = Some m"
        "ctx = userContextOf (u_id u) p (Some a) ?g
          (case or_str (roleCode db (mb_roleOverrideRoleId m)) None of None \<Rightarrow> ?g | Some c \<Rightarrow> c) False"
      using assms u by (auto simp: lookupUserContext_def Let_def split: option.splits)
    have "(case or_str (roleCode db (mb_roleOverrideRoleId m)) None of None \<Rightarrow> ?g | Some c \<Rightarrow> c) =
        (case or_str (roleCode db (mb_roleOverrideRoleId m)) (or_str (roleCode db (u_globalRoleId u)) None)
         of None \<Rightarrow> EDITOR | Some c \<Rightarrow> c)"
      by (cases "roleCode db (mb_roleOverrideRoleId m)") auto
    with m find_SomeD [OF m(1)] du show ?thesis
      by (auto simp: entitled_def userContextOf_def)
  qed
qed

section \<open>The cache: bounded staleness\<close>

datatype authz_event =
    ResolveUser "(string \<times> string) list" "real option"
  | ResolveApiKey string
  | Ticks nat
  | DbChanges authz_db
  | InvalidateUser string
  | RedisFlips
  | RotateKey string real real
  | RevokeKey real real

type_synonym authz_params = "(real \<Rightarrow> string) \<times> (string \<Rightarrow> string) \<times> (string \<Rightarrow> string \<Rightarrow> bool)"

fun authz_step :: "authz_params \<Rightarrow> authz_event \<Rightarrow> authz_state \<Rightarrow> authz_state" where
  "authz_step (fracStr, md5, glob) (ResolveUser p a) s = snd (resolveUserContext fracStr p a s)"
| "authz_step (fracStr, md5, glob) (ResolveApiKey raw) s = snd (resolveApiKeyContext md5 raw s)"
| "authz_step ps (Ticks n) s = s\<lparr>az_now := az_now s + n\<rparr>"
| "authz_step ps (DbChanges db) s = s\<lparr>az_db := db\<rparr>"
| "authz_step (fracStr, md5, glob) (InvalidateUser pid) s = invalidateUserCache glob pid s"
| "authz_step ps RedisFlips s = s\<lparr>az_redisUp := \<not> az_redisUp s\<rparr>"
| "authz_step (fracStr, md5, glob) (RotateKey plain acct k) s = snd (rotateManagedApiKey md5 plain acct k s)"
| "authz_step ps (RevokeKey acct k) s = snd (revokeManagedApiKey acct k s)"

text \<open>A run that remembers every state it has gone through, the latest first.\<close>

type_synonym authz_history = "authz_state list"

fun history_step :: "authz_params \<Rightarrow> authz_event \<Rightarrow> authz_history \<Rightarrow> authz_history" where
  "history_step ps e [] = []"
| "history_step ps e (s # h) = authz_step ps e s # s # h"

definition fresh_authz :: "authz_db \<Rightarrow> nat \<Rightarrow> authz_history" where
  "fresh_authz db now = [\<lparr>az_db = db, az_cache = [], az_now = now, az_redisUp = True\<rparr>]"

text \<open>The origin of a cache entry: the answer of the tables at an earlier state.\<close>

definition justified :: "authz_params \<Rightarrow> authz_state \<Rightarrow> string \<Rightarrow> principal_context \<Rightarrow> bool" where
  "justified ps s key ctx \<longleftrightarrow> (case ps of (fracStr, md5, glob) \<Rightarrow>
     (\<exists>p a. key = userCacheKey fracStr p a \<and> lookupUserContext (az_db s) p a = Inr ctx) \<or>
     (\<exists>raw. key = apiKeyCacheKey (md5 raw) \<and>
            lookupApiKeyContext md5 (az_now s) (az_db s) raw = Inr ctx))"

fun history_inv :: "authz_params \<Rightarrow> authz_history \<Rightarrow> bool" where
  "history_inv ps [] = False"
| "history_inv ps (s # h) \<longleftrightarrow>
     (\<forall>x \<in> set (s # h). az_now x \<le> az_now s) \<and>
     (\<forall>(key, ctx, expiry) \<in> set (az_cache s).
        \<exists>x \<in> set (s # h). expiry = az_now x + AUTHZ_CACHE_TTL \<and> justified ps x key ctx)"

lemma set_update: "set (AList.update k v xs) \<subseteq> insert (k, v) (set xs)"
  by (induction xs) auto

lemma cachePrincipal_fields [simp]:
  "az_now (cachePrincipal key ctx s) = az_now s" "az_db (cachePrincipal key ctx s) = az_db s"
  by (simp_all add: cachePrincipal_def)

lemma cachePrincipal_set:
  "set (az_cache (cachePrincipal key ctx s)) \<subseteq>
     insert (key, ctx, az_now s + AUTHZ_CACHE_TTL) (set (az_cache s))"
  using set_update [of key "(ctx, az_now s + AUTHZ_CACHE_TTL)" "az_cache s"]
  by (auto simp: cachePrincipal_def)

lemma touchOf_fields [simp]:
  "az_now (touchOf ctx s) = az_now s" "az_cache (touchOf ctx s) = az_cache s"
  by (simp_all add: touchOf_def split: option.split)

text \<open>Each step keeps the clock monotone and adds at most a justified entry to the cache.\<close>

definition keeps_cache :: "authz_params \<Rightarrow> authz_state \<Rightarrow> authz_state \<Rightarrow> bool" where
  "keeps_cache ps s s' \<longleftrightarrow> az_now s \<le> az_now s' \<and>
     (\<forall>(key, ctx, expiry) \<in> set (az_cache s'). (key, ctx, expiry) \<in> set (az_cache s) \<or>
        expiry = az_now s + AUTHZ_CACHE_TTL \<and> justified ps s key ctx)"

lemma keeps_cacheI:
  "az_now s \<le> az_now s' \<Longrightarrow> set (az_cache s') \<subseteq> set (az_cache s) \<Longrightarrow> keeps_cache ps s s'"
  by (auto simp: keeps_cache_def)

lemma keeps_resolveUser: "keeps_cache (fracStr, md5, glob) s (snd (resolveUserContext fracStr p a s))"
  using cachePrincipal_set
  by (fastforce simp: resolveUserContext_def Let_def keeps_cache_def justified_def
      split: option.splits sum.splits)

lemma keeps_resolveKey: "keeps_cache (fracStr, md5, glob) s (snd (resolveApiKeyContext md5 raw s))"
proof (cases "getCachedPrincipal (apiKeyCacheKey (md5 raw)) s")
  case None
  let ?k = "apiKeyCacheKey (md5 raw)"
  have add: "keeps_cache (fracStr, md5, glob) s (cachePrincipal ?k ctx (s\<lparr>az_db := d\<rparr>))"
    if "lookupApiKeyContext md5 (az_now s) (az_db s) raw = Inr ctx" for ctx d
    using cachePrincipal_set [of ?k ctx "s\<lparr>az_db := d\<rparr>"] that
    by (fastforce simp: keeps_cache_def justified_def)
  show ?thesis
    using None add add [where d = "az_db s"]
    by (auto simp: resolveApiKeyContext_def Let_def intro: keeps_cacheI split: option.splits sum.splits)
qed (simp add: resolveApiKeyContext_def Let_def keeps_cacheI)

lemma keeps_step: "keeps_cache ps s (authz_step ps e s)"
proof -
  obtain fracStr md5 glob where ps: "ps = (fracStr, md5, glob)" by (cases ps)
  have "set (AList.delete k xs) \<subseteq> set xs" for k and xs :: "(string \<times> principal_context \<times> nat) list"
    by (auto simp: AList.delete_eq)
  then have rev: "keeps_cache ps s (snd (revokeManagedApiKey a k s))" for a k
    by (simp add: revokeManagedApiKey_def saveKey_def Let_def keeps_cacheI split: option.split)
  show ?thesis
    using keeps_resolveUser keeps_resolveKey rev
    by (cases e) (auto simp: ps invalidateUserCache_def rotateManagedApiKey_def
        saveKey_def Let_def intro!: keeps_cacheI split: option.splits)
qed

lemma history_inv_step: "history_inv ps h \<Longrightarrow> history_inv ps (history_step ps e h)"
proof (cases h)
  case (Cons s h')
  assume "history_inv ps h"
  then show ?thesis
    using keeps_step [of ps s e] unfolding Cons keeps_cache_def by fastforce
qed simp

interpretation authzm: machine "fresh_authz db now" "history_step ps" "history_inv ps" for db now ps
  by unfold_locales (auto simp: fresh_authz_def history_inv_step)

section \<open>Properties of the resolution\<close>

text \<open>The last occurrence of a separator splits a string uniquely.\<close>

lemma last_sep_unique:
  assumes "a @ c # x = b @ c # y" "c \<notin> set x" "c \<notin> set y"
  shows "a = b \<and> x = y"
proof -
  have "takeWhile (\<lambda>d. d \<noteq> c) (rev (a @ c # x)) = rev x" if "c \<notin> set x" for a x
    using that by (auto simp: takeWhile_append)
  then have "rev x = rev y" using assms by metis
  with assms(1) show ?thesis by simp
qed

lemma show_nat_no_colon: "CHR '':'' \<notin> set (show_nat n)"
  using show_nat_digits [of n] by (auto simp: is_digit_def)

definition key_suffix :: "(real \<Rightarrow> string) \<Rightarrow> real option \<Rightarrow> string" where
  "key_suffix fracStr a = (case or_num a None of None \<Rightarrow> ''default'' | Some x \<Rightarrow> num_str fracStr x)"

lemma key_suffix_no_colon:
  "\<forall>x. CHR '':'' \<notin> set (fracStr x) \<Longrightarrow> CHR '':'' \<notin> set (key_suffix fracStr a)"
  using show_nat_no_colon by (auto simp: key_suffix_def num_str_def show_int_def split: option.split)

lemma userCacheKey_provider:
  assumes "\<forall>x. CHR '':'' \<notin> set (fracStr x)" "userCacheKey fracStr p a = userCacheKey fracStr q b"
  shows "p = q"
proof -
  have "p @ CHR '':'' # key_suffix fracStr a = q @ CHR '':'' # key_suffix fracStr b"
    using assms(2) by (simp add: userCacheKey_def key_suffix_def)
  from last_sep_unique [OF this] key_suffix_no_colon [OF assms(1)] show ?thesis by blast
qed

lemma user_key_not_api: "userCacheKey fracStr p a \<noteq> apiKeyCacheKey h"
  by (simp add: userCacheKey_def apiKeyCacheKey_def)

text \<open>C2: authorisation may lag behind the database by the five minutes of the cache and no more:
  whatever the interleaving of requests, database changes, invalidations and Redis failures,
  a principal resolved for a user was what the tables said of that same user at a moment
  less than 300 seconds ago, when the user was alive and had the membership and the role the
  principal carries.\<close>

theorem user_principal_bounded_staleness:
  assumes "\<forall>x. CHR '':'' \<notin> set (fracStr x)"
    and "fold (history_step (fracStr, md5, glob)) es (fresh_authz db now) = s # h"
    and "fst (resolveUserContext fracStr [(''sub'', p)] acct s) = Inr ctx"
  shows "\<exists>x \<in> set (s # h). az_now x \<le> az_now s \<and> az_now s < az_now x + 300 \<and> entitled (az_db x) p ctx"
proof -
  let ?key = "userCacheKey fracStr p acct"
  have inv: "history_inv (fracStr, md5, glob) (s # h)"
    using authzm.inv_run [of "(fracStr, md5, glob)" es db now] assms(2) by simp
  have ne: "p \<noteq> []" using assms(3) by (auto simp: resolveUserContext_def split: if_splits)
  show ?thesis
  proof (cases "getCachedPrincipal ?key s")
    case None
    with assms(3) ne have "lookupUserContext (az_db s) p acct = Inr ctx"
      by (auto simp: resolveUserContext_def Let_def split: sum.splits)
    then show ?thesis by (auto dest: lookupUser_entitled)
  next
    case (Some c)
    then obtain expiry where "map_of (az_cache s) ?key = Some (ctx, expiry)" "az_now s < expiry"
      using assms(3) ne
      by (auto simp: resolveUserContext_def Let_def getCachedPrincipal_def split: if_splits option.splits)
    then obtain x where x: "x \<in> set (s # h)" "az_now s < az_now x + AUTHZ_CACHE_TTL"
        "justified (fracStr, md5, glob) x ?key ctx" "az_now x \<le> az_now s"
      using inv by (fastforce dest: map_of_SomeD)
    then obtain q a where q: "lookupUserContext (az_db x) q a = Inr ctx" "?key = userCacheKey fracStr q a"
      using user_key_not_api by (auto simp: justified_def)
    have "p = q" using userCacheKey_provider [OF assms(1) q(2)] by simp
    with lookupUser_entitled [OF q(1)] x show ?thesis
      unfolding AUTHZ_CACHE_TTL_def by blast
  qed
qed


definition demo_db :: authz_db where
  "demo_db = \<lparr>
     db_users = [\<lparr>u_id = 1, u_providerId = ''u'', u_globalRoleId = Some 3, u_deleted = False\<rparr>],
     db_roles = [\<lparr>r_id = 2, r_code = ''admin''\<rparr>, \<lparr>r_id = 3, r_code = ''analyst''\<rparr>],
     db_memberships = [\<lparr>mb_userId = 1, mb_accountId = 7, mb_roleOverrideRoleId = None\<rparr>],
     db_apiKeys = [\<lparr>k_id = 5, k_accountId = 7, k_keyHash = ''hash-of-old'', k_roleId = 2,
        k_status = ''active'', k_expiresAt = None, k_revokedAt = None, k_lastUsedAt = None\<rparr>],
     db_configs = [\<lparr>cf_accountId = 5, cf_name = ''api_key'', cf_value = ''legacy''\<rparr>]\<rparr>"

definition demo_md5 :: "string \<Rightarrow> string" where
  "demo_md5 raw = ''hash-of-'' @ raw"

abbreviation demo_params :: authz_params where
  "demo_params \<equiv> (\<lambda>_. ''1.5'', demo_md5, \<lambda>_ _. True)"

definition demo_context :: principal_context where
  "demo_context = userContextOf 1 ''u'' (Some 7) ''analyst'' ''analyst'' False"

lemmas authz_eval = demo_db_def demo_md5_def demo_context_def fresh_authz_def resolveUserContext_def
  getCachedPrincipal_def cachePrincipal_def userCacheKey_def lookupUserContext_def roleCode_def
  AUTHZ_CACHE_TTL_def Let_def resolveApiKeyContext_def lookupApiKeyContext_def usable_key_def
  apiKeyCacheKey_def touchOf_def touchKey_def apiKeyContextOf_def keyRole_def role_codes
  rotateManagedApiKey_def revokeManagedApiKey_def saveKey_def findKey_def

lemma demo_resolves:
  "resolveUserContext fracStr [(''sub'', ''u'')] (Some 7)
     \<lparr>az_db = demo_db, az_cache = [], az_now = 0, az_redisUp = True\<rparr> =
   (Inr demo_context, \<lparr>az_db = demo_db,
      az_cache = [(userCacheKey fracStr ''u'' (Some 7), demo_context, 300)],
      az_now = 0, az_redisUp = True\<rparr>)"
  by (simp add: authz_eval)

theorem user_principal_bounded_staleness_witness:
  "\<exists>x :: authz_state. az_now x \<le> 10 \<and> entitled (az_db x) ''u'' demo_context"
proof -
  define s where "s = \<lparr>az_db = demo_db\<lparr>db_memberships := []\<rparr>,
      az_cache = [(userCacheKey (\<lambda>_. ''1.5'') ''u'' (Some 7), demo_context, 300)],
      az_now = 10, az_redisUp = True\<rparr>"
  let ?es = "[ResolveUser [(''sub'', ''u'')] (Some 7), DbChanges (demo_db\<lparr>db_memberships := []\<rparr>), Ticks 10]"
  obtain h where h: "fold (history_step demo_params) ?es (fresh_authz demo_db 0) = s # h"
    by (simp add: fresh_authz_def demo_resolves s_def)
  have r: "fst (resolveUserContext (\<lambda>_. ''1.5'') [(''sub'', ''u'')] (Some 7) s) = Inr demo_context"
    by (simp add: resolveUserContext_def getCachedPrincipal_def Let_def s_def)
  have "\<exists>x \<in> set (s # h). az_now x \<le> az_now s \<and> az_now s < az_now x + 300 \<and>
      entitled (az_db x) ''u'' demo_context"
    by (rule user_principal_bounded_staleness [OF _ h r]) simp
  then obtain x :: authz_state where "az_now x \<le> az_now s" "entitled (az_db x) ''u'' demo_context" by blast
  then show ?thesis unfolding s_def by (intro exI [of _ x]) simp
qed

definition demo_route :: route_meta where
  "demo_route = \<lparr>rm_isPublic = False, rm_isCron = False,
     rm_requiredPermissions = [''campaigns:view''], rm_requireSuperAdmin = False\<rparr>"


section \<open>Properties of the managed keys\<close>

definition unique_hashes :: "authz_db \<Rightarrow> bool" where
  "unique_hashes db \<longleftrightarrow> list_all (\<lambda>k. list_all (\<lambda>k'. k_keyHash k = k_keyHash k' \<longrightarrow> k_id k = k_id k')
     (db_apiKeys db)) (db_apiKeys db)"

lemma saveKey_fields [simp]:
  "az_cache (saveKey kid f s) = az_cache s" "az_now (saveKey kid f s) = az_now s"
  "az_redisUp (saveKey kid f s) = az_redisUp s" "db_configs (az_db (saveKey kid f s)) = db_configs (az_db s)"
  "db_apiKeys (az_db (saveKey kid f s)) =
     map (\<lambda>k. if k_id k = kid then f k else k) (db_apiKeys (az_db s))"
  by (simp_all add: saveKey_def)

lemma getCached_saveKey [simp]:
  "getCachedPrincipal key (saveKey kid f s) = getCachedPrincipal key s"
  by (simp add: getCachedPrincipal_def split: option.split prod.split)



text \<open>Result: rotating a key does not end the old one: as long as the principal of the old key is
  cached, every request with it is accepted after the rotation.\<close>

theorem rotated_key_still_accepted:
  assumes "getCachedPrincipal (apiKeyCacheKey (md5 raw)) s = Some ctx"
  shows "fst (resolveApiKeyContext md5 raw (snd (rotateManagedApiKey md5 plain acct kid s))) = Inr ctx"
proof -
  have "getCachedPrincipal (apiKeyCacheKey (md5 raw)) (snd (rotateManagedApiKey md5 plain acct kid s)) = Some ctx"
    using assms by (cases "findKey acct kid s")
      (simp_all add: rotateManagedApiKey_def)
  then show ?thesis by (simp add: resolveApiKeyContext_def Let_def)
qed

definition used_key_state :: authz_state where
  "used_key_state = snd (resolveApiKeyContext demo_md5 ''old''
     \<lparr>az_db = demo_db, az_cache = [], az_now = 0, az_redisUp = True\<rparr>)"

theorem rotated_key_still_accepted_witness:
  "fst (resolveApiKeyContext demo_md5 ''old'' (snd (rotateManagedApiKey demo_md5 ''new'' 7 5 used_key_state))) =
     Inr (apiKeyContextOf 5 7 ''admin'')"
  by (rule rotated_key_still_accepted) (simp add: used_key_state_def authz_eval)

text \<open>Result: a second request with a legacy key marks as used the managed key whose id equals the
  legacy key's account, which may belong to another account (here key 5 of account 7).\<close>

theorem legacy_key_touches_foreign_key:
  "let s = \<lparr>az_db = demo_db, az_cache = [], az_now = 9, az_redisUp = True\<rparr>;
       t = snd (resolveApiKeyContext demo_md5 ''legacy'' (snd (resolveApiKeyContext demo_md5 ''legacy'' s)))
   in map (\<lambda>k. (k_id k, k_accountId k, k_lastUsedAt k)) (db_apiKeys (az_db t)) = [(5, 7, Some 9)]"
  by (simp add: authz_eval)

end
