(* ===== verification/FilterParser.thy ===== *)
theory FilterParser
  imports JsValue
begin

text \<open>
  The activity search of \<open>msgops-api\<close>: \<open>modules/activity/filter-parser.ts\<close> and the query of
  \<open>activity.service.ts\<close>. Strings are Latin-1. A moment of \<open>dayjs\<close> is its milliseconds; what the
  code uses of that library (parsing, subtracting days, formatting) is a parameter, and
  so is the account search in Postgres.
\<close>

section \<open>Parsing the query\<close>

definition VALID_TOKENS :: "string list" where
  "VALID_TOKENS = [''account'', ''contact'', ''campaign'', ''automation'', ''event'', ''provider'',
     ''after'', ''before'']"

record filter_token =
  ft_key :: string
  ft_values :: "string list"
  ft_negate :: bool

record activity_filter =
  af_tokens :: "filter_token list"
  af_freeText :: "string list"

text \<open>\<open>split(/\s+/)\<close> of a trimmed string: its maximal runs of non-space characters.\<close>

function words :: "string \<Rightarrow> string list" where
  "words s = (let t = dropWhile is_js_space s in
     if t = [] then [] else takeWhile (\<lambda>c. \<not> is_js_space c) t # words (dropWhile (\<lambda>c. \<not> is_js_space c) t))"
  by auto

lemma length_dropWhile_less: "t \<noteq> [] \<Longrightarrow> P (hd t) \<Longrightarrow> length (dropWhile P t) < length t"
  by (cases t) (auto simp: le_imp_less_Suc length_dropWhile_le)

termination words
proof (relation "measure length")
  fix s t :: string
  assume t: "t = dropWhile is_js_space s" "t \<noteq> []"
  then have "\<not> is_js_space (hd t)" using hd_dropWhile by metis
  then have "length (dropWhile (\<lambda>c. \<not> is_js_space c) t) < length t"
    using t(2) by (intro length_dropWhile_less)
  also have "\<dots> \<le> length s" using t(1) by (simp add: length_dropWhile_le)
  finally show "(dropWhile (\<lambda>c. \<not> is_js_space c) t, s) \<in> measure length" by simp
qed simp

declare words.simps [simp del]

text \<open>A part: negation sign, key and value around the first colon.\<close>

definition part_negate :: "string \<Rightarrow> bool" where
  "part_negate part = starts_with ''-'' part"

definition part_body :: "string \<Rightarrow> string" where
  "part_body part = (if part_negate part then drop 1 part else part)"

definition part_colon :: "string \<Rightarrow> nat option" where
  "part_colon part = find_index (\<lambda>c. c = CHR '':'') (part_body part)"

definition part_key :: "string \<Rightarrow> string" where
  "part_key part = (case part_colon part of None \<Rightarrow> [] | Some i \<Rightarrow> take i (part_body part))"

definition part_value :: "string \<Rightarrow> string" where
  "part_value part = (case part_colon part of None \<Rightarrow> [] | Some i \<Rightarrow> drop (Suc i) (part_body part))"

text \<open>The map \<open>grouped\<close> holds the very objects of \<open>tokens\<close>, under their negation and key.\<close>

fun add_value :: "string \<Rightarrow> bool \<Rightarrow> string \<Rightarrow> filter_token list \<Rightarrow> filter_token list" where
  "add_value k n v [] = [\<lparr>ft_key = k, ft_values = [v], ft_negate = n\<rparr>]"
| "add_value k n v (t # ts) =
     (if ft_key t = k \<and> ft_negate t = n then t\<lparr>ft_values := ft_values t @ [v]\<rparr> # ts
      else t # add_value k n v ts)"

definition parse_part :: "string \<Rightarrow> activity_filter \<Rightarrow> string + activity_filter" where
  "parse_part part f =
     (case part_colon part of
        None \<Rightarrow> Inr (if \<not> part_negate part then f\<lparr>af_freeText := af_freeText f @ [part_body part]\<rparr> else f)
      | Some _ \<Rightarrow>
          let key = part_key part; value = part_value part in
          if \<not> List.member VALID_TOKENS key then
            Inl (''Unknown token \"'' @ key @ ''\". Valid tokens: '' @ join '', '' VALID_TOKENS)
          else if value = [] then Inl (''Token \"'' @ key @ ''\" requires a value'')
          else Inr (f\<lparr>af_tokens := add_value key (part_negate part) value (af_tokens f)\<rparr>))"

fun parse_parts :: "string list \<Rightarrow> activity_filter \<Rightarrow> string + activity_filter" where
  "parse_parts [] f = Inr f"
| "parse_parts (p # ps) f = (case parse_part p f of Inl e \<Rightarrow> Inl e | Inr f' \<Rightarrow> parse_parts ps f')"

definition parseActivityQuery :: "string \<Rightarrow> string + activity_filter" where
  "parseActivityQuery q = parse_parts (words (js_trim q)) \<lparr>af_tokens = [], af_freeText = []\<rparr>"

definition extractAccountNameLookups :: "activity_filter \<Rightarrow> string list" where
  "extractAccountNameLookups f =
     fold (\<lambda>t names. if ft_key t \<noteq> ''account'' then names
        else fold (\<lambda>v ns. if \<not> all_digits v then set_add v ns else ns) (ft_values t) names)
       (af_tokens f) []"

section \<open>Clauses\<close>

definition double_char :: "char \<Rightarrow> string \<Rightarrow> string" where
  "double_char c s = concat (map (\<lambda>x. if x = c then [c, c] else [x]) s)"

abbreviation quote_char :: char where "quote_char \<equiv> CHR 0x27"
abbreviation backslash :: char where "backslash \<equiv> CHR 0x5C"

definition escape :: "string \<Rightarrow> string" where
  "escape v = double_char quote_char (double_char backslash v)"

definition quoted :: "string \<Rightarrow> string" where
  "quoted v = quote_char # escape v @ [quote_char]"

definition quoteList :: "string list \<Rightarrow> string" where
  "quoteList values = join '', '' (map quoted values)"

text \<open>\<open>/^[^\s@]+@[^\s@]+\.[^\s@]+$/\<close>\<close>

definition email_like :: "string \<Rightarrow> bool" where
  "email_like v \<longleftrightarrow> list_all (\<lambda>c. \<not> is_js_space c) v \<and>
     (case split_on (CHR 0x40) v of
        [a, d] \<Rightarrow> a \<noteq> [] \<and> List.member (butlast (tl d)) (CHR ''.'')
      | _ \<Rightarrow> False)"

definition buildContactClause :: "(real \<Rightarrow> string) \<Rightarrow> string list \<Rightarrow> bool \<Rightarrow> string" where
  "buildContactClause fracStr values negate =
     (let emails = filter email_like values;
          ids = filter (\<lambda>v. \<not> email_like v \<and> all_digits v) values;
          uuids = filter (\<lambda>v. \<not> email_like v \<and> \<not> all_digits v) values;
          ors = (if emails \<noteq> [] then [''email IN ('' @ quoteList emails @ '')''] else []) @
                (if ids \<noteq> [] then [''contact_id IN ('' @
                    join '', '' (map (\<lambda>n. jsnum_str fracStr (js_Number n)) ids) @ '')''] else []) @
                (if uuids \<noteq> [] then [''uuid IN ('' @ quoteList uuids @ '')''] else []);
          joined = (if length ors = 1 then hd ors else ''('' @ join '' OR '' ors @ '')'')
      in if negate then ''NOT '' @ joined else joined)"

text \<open>The account clause's set of ids, in insertion order, and whether a name found nothing.\<close>

fun account_ids :: "(string \<Rightarrow> jsnum list option) \<Rightarrow> string list \<Rightarrow> jsnum list \<Rightarrow> bool
   \<Rightarrow> jsnum list \<times> bool" where
  "account_ids resolutions [] ids unresolved = (ids, unresolved)"
| "account_ids resolutions (v # vs) ids unresolved =
     (if all_digits v then account_ids resolutions vs (set_add (js_Number v) ids) unresolved
      else case resolutions v of
        None \<Rightarrow> account_ids resolutions vs ids True
      | Some [] \<Rightarrow> account_ids resolutions vs ids True
      | Some rs \<Rightarrow> account_ids resolutions vs (fold set_add rs ids) unresolved)"

definition buildAccountClause ::
  "(real \<Rightarrow> string) \<Rightarrow> string list \<Rightarrow> bool \<Rightarrow> (string \<Rightarrow> jsnum list option) \<Rightarrow> string" where
  "buildAccountClause fracStr values negate resolutions =
     (let (ids, anyUnresolved) = account_ids resolutions values [] False in
      if ids = [] then
        (if negate then ''1=1'' else if anyUnresolved then ''account_id IN (-1)'' else ''1=0'')
      else let list = join '', '' (map (jsnum_str fracStr) ids) in
        if length ids = 1 then ''account_id '' @ (if negate then ''!='' else ''='') @ '' '' @ list
        else ''account_id '' @ (if negate then ''NOT IN'' else ''IN'') @ '' ('' @ list @ '')'')"

definition int_value :: "string \<Rightarrow> real option" where
  "int_value v = (case js_Number v of Fin x \<Rightarrow> if of_int \<lfloor>x\<rfloor> = x then Some x else None | _ \<Rightarrow> None)"

definition buildIntColumnClause :: "(real \<Rightarrow> string) \<Rightarrow> string \<Rightarrow> string list \<Rightarrow> bool \<Rightarrow> string + string" where
  "buildIntColumnClause fracStr column values negate =
     (case find (\<lambda>v. int_value v = None) values of
        Some v \<Rightarrow> Inl (''Token \"'' @ column @ ''\" expects integer, got \"'' @ v @ ''\"'')
      | None \<Rightarrow>
          let nums = map (\<lambda>v. num_str fracStr (the (int_value v))) values in
          if length nums = 1 then Inr (column @ '' '' @ (if negate then ''!='' else ''='') @ '' '' @ hd nums)
          else Inr (column @ '' '' @ (if negate then ''NOT IN'' else ''IN'') @ '' ('' @ join '', '' nums @ '')''))"

definition buildStringColumnClause :: "string \<Rightarrow> string list \<Rightarrow> bool \<Rightarrow> string" where
  "buildStringColumnClause column values negate =
     (if length values = 1 then column @ '' '' @ (if negate then ''!='' else ''='') @ '' '' @ quoted (hd values)
      else column @ '' '' @ (if negate then ''NOT IN'' else ''IN'') @ '' ('' @ quoteList values @ '')'')"

section \<open>The where clause\<close>

record dayjs =
  dj_utc :: "string \<Rightarrow> int option"
  dj_subtractDays :: "int \<Rightarrow> nat \<Rightarrow> int"
  dj_format :: "int \<Rightarrow> string \<Rightarrow> string"
  dj_toISOString :: "int \<Rightarrow> string"

record build_options =
  bo_defaultDays :: nat
  bo_capDays :: nat
  bo_fixedMessageType :: string
  bo_accountIdResolutions :: "string \<Rightarrow> jsnum list option"

record build_result =
  br_fragments :: "string list"
  br_whereSql :: string
  br_after :: int
  br_before :: int

definition parseDate :: "dayjs \<Rightarrow> string \<Rightarrow> string \<Rightarrow> string + int" where
  "parseDate dj value tokenName =
     (case dj_utc dj value of
        None \<Rightarrow> Inl (''Token \"'' @ tokenName @ ''\" expects ISO date/datetime, got \"'' @ value @ ''\"'')
      | Some d \<Rightarrow> Inr d)"

type_synonym where_acc = "string list \<times> int option \<times> int option"

definition add_clause :: "string \<Rightarrow> where_acc \<Rightarrow> where_acc" where
  "add_clause c acc = (case acc of (wh, a, b) \<Rightarrow> (wh @ [c], a, b))"

definition token_clause ::
  "(real \<Rightarrow> string) \<Rightarrow> dayjs \<Rightarrow> build_options \<Rightarrow> filter_token \<Rightarrow> where_acc \<Rightarrow> string + where_acc" where
  "token_clause fracStr dj opts t acc =
     (let k = ft_key t; vs = ft_values t; neg = ft_negate t; (wh, after, before) = acc in
      if k = ''account'' then
        Inr (add_clause (buildAccountClause fracStr vs neg (bo_accountIdResolutions opts)) acc)
      else if k = ''campaign'' then
        (case buildIntColumnClause fracStr ''campaign_id'' vs neg of Inl e \<Rightarrow> Inl e | Inr c \<Rightarrow> Inr (add_clause c acc))
      else if k = ''automation'' then
        (case buildIntColumnClause fracStr ''automation_id'' vs neg of Inl e \<Rightarrow> Inl e | Inr c \<Rightarrow> Inr (add_clause c acc))
      else if k = ''event'' then Inr (add_clause (buildStringColumnClause ''event'' vs neg) acc)
      else if k = ''provider'' then Inr (add_clause (buildStringColumnClause ''provider'' vs neg) acc)
      else if k = ''contact'' then Inr (add_clause (buildContactClause fracStr vs neg) acc)
      else if k = ''after'' then
        (case parseDate dj (last vs) ''after'' of Inl e \<Rightarrow> Inl e | Inr d \<Rightarrow> Inr (wh, Some d, before))
      else if k = ''before'' then
        (case parseDate dj (last vs) ''before'' of Inl e \<Rightarrow> Inl e | Inr d \<Rightarrow> Inr (wh, after, Some d))
      else Inr acc)"

fun token_clauses ::
  "(real \<Rightarrow> string) \<Rightarrow> dayjs \<Rightarrow> build_options \<Rightarrow> filter_token list \<Rightarrow> where_acc \<Rightarrow> string + where_acc" where
  "token_clauses fracStr dj opts [] acc = Inr acc"
| "token_clauses fracStr dj opts (t # ts) acc =
     (case token_clause fracStr dj opts t acc of
        Inl e \<Rightarrow> Inl e | Inr acc' \<Rightarrow> token_clauses fracStr dj opts ts acc')"

text \<open>The two ends of the range: defaults, then the cap on the earlier one.\<close>

definition date_range :: "dayjs \<Rightarrow> int \<Rightarrow> build_options \<Rightarrow> int option \<Rightarrow> int option \<Rightarrow> int \<times> int" where
  "date_range dj now opts after before =
     (let cap = dj_subtractDays dj now (bo_capDays opts);
          (a, b) = (case (after, before) of
             (None, None) \<Rightarrow> (dj_subtractDays dj now (bo_defaultDays opts), now)
           | (None, Some b) \<Rightarrow> (cap, b)
           | (Some a, None) \<Rightarrow> (a, now)
           | (Some a, Some b) \<Rightarrow> (a, b))
      in (if a < cap then cap else a, b))"

definition buildWhereClauses ::
  "(real \<Rightarrow> string) \<Rightarrow> dayjs \<Rightarrow> int \<Rightarrow> activity_filter \<Rightarrow> build_options \<Rightarrow> string + build_result" where
  "buildWhereClauses fracStr dj now f opts =
     (case token_clauses fracStr dj opts (af_tokens f)
             ([''message_type = '' @ quoted (bo_fixedMessageType opts)], None, None) of
        Inl e \<Rightarrow> Inl e
      | Inr (wh, after, before) \<Rightarrow>
          let (a, b) = date_range dj now opts after before in
          if \<not> a < b then Inl ''\"after\" must be earlier than \"before\"''
          else let frs = wh @
             [''time_date >= '' @ quoted (dj_format dj a ''YYYY-MM-DD''),
              ''time_date <= '' @ quoted (dj_format dj b ''YYYY-MM-DD''),
              ''time >= '' @ quoted (dj_format dj a ''YYYY-MM-DD HH:mm:ss''),
              ''time <= '' @ quoted (dj_format dj b ''YYYY-MM-DD HH:mm:ss'')]
            in Inr \<lparr>br_fragments = frs, br_whereSql = join '' AND '' frs, br_after = a, br_before = b\<rparr>)"

section \<open>String literals of the query language\<close>

text \<open>
  How ClickHouse reads a statement, as far as string literals go: in a literal a backslash
  escapes a backslash or a quote, a doubled quote is a quote, a single one ends it. The
  scan returns the text outside the literals, a question mark for each, and the values of
  the literals in order; it fails on an open literal or another escape.
\<close>

datatype scan_mode = Outside | Inside string | AtQuote string | AtBackslash string

fun sql_scan :: "scan_mode \<Rightarrow> string \<Rightarrow> (string \<times> string list) option" where
  "sql_scan Outside [] = Some ([], [])"
| "sql_scan Outside (c # cs) =
     (if c = quote_char then sql_scan (Inside []) cs
      else map_option (\<lambda>(t, ls). (c # t, ls)) (sql_scan Outside cs))"
| "sql_scan (Inside v) [] = None"
| "sql_scan (Inside v) (c # cs) =
     (if c = quote_char then sql_scan (AtQuote v) cs
      else if c = backslash then sql_scan (AtBackslash v) cs
      else sql_scan (Inside (v @ [c])) cs)"
| "sql_scan (AtQuote v) [] = Some (''?'', [v])"
| "sql_scan (AtQuote v) (c # cs) =
     (if c = quote_char then sql_scan (Inside (v @ [quote_char])) cs
      else map_option (\<lambda>(t, ls). (CHR ''?'' # c # t, v # ls)) (sql_scan Outside cs))"
| "sql_scan (AtBackslash v) [] = None"
| "sql_scan (AtBackslash v) (c # cs) =
     (if c = backslash \<or> c = quote_char then sql_scan (Inside (v @ [c])) cs else None)"

lemma escape_Cons: "escape (c # v) =
    (if c = backslash then [backslash, backslash] else if c = quote_char then [quote_char, quote_char] else [c])
      @ escape v"
  by (simp add: escape_def double_char_def)

lemma escape_Nil [simp]: "escape [] = []"
  by (simp add: escape_def double_char_def)

lemma scan_escape: "sql_scan (Inside acc) (escape v @ cs) = sql_scan (Inside (acc @ v)) cs"
  by (induction v arbitrary: acc) (simp_all add: escape_Cons)

text \<open>A piece of text that, followed by anything but a quote, scans to this template and these
  literals; the rules build up clauses from their pieces.\<close>

definition no_quote_first :: "string \<Rightarrow> bool" where
  "no_quote_first s \<longleftrightarrow> (case s of [] \<Rightarrow> True | c # _ \<Rightarrow> c \<noteq> quote_char)"

definition scans :: "string \<Rightarrow> string \<Rightarrow> string list \<Rightarrow> bool" where
  "scans s t ls \<longleftrightarrow> (\<forall>r. no_quote_first r \<longrightarrow>
     sql_scan Outside (s @ r) = map_option (\<lambda>(t', ls'). (t @ t', ls @ ls')) (sql_scan Outside r))"

lemma scansD: "scans s t ls \<Longrightarrow> sql_scan Outside s = Some (t, ls)"
  by (auto simp: scans_def no_quote_first_def dest!: spec [of _ "[]"])

lemma scans_quoted [intro]: "scans (quoted v) ''?'' [v]"
proof -
  have "sql_scan (AtQuote v) r = map_option (\<lambda>(t', ls'). (''?'' @ t', [v] @ ls')) (sql_scan Outside r)"
    if "no_quote_first r" for r
    using that by (cases r) (simp_all add: no_quote_first_def option.map_comp comp_def split_def)
  then show ?thesis by (simp add: scans_def quoted_def scan_escape)
qed

lemma scans_append:
  assumes "scans s t ls" "scans s' t' ls'" "no_quote_first s'"
  shows "scans (s @ s') (t @ t') (ls @ ls')"
proof -
  have "no_quote_first (s' @ r)" if "no_quote_first r" for r
    using assms(3) that by (cases s') (simp_all add: no_quote_first_def)
  with assms(1,2) show ?thesis
    by (auto simp: scans_def option.map_comp comp_def split_def)
qed

lemma scans_text: "list_all (\<lambda>c. c \<noteq> quote_char) s \<Longrightarrow> scans s s []"
  by (induction s) (auto simp: scans_def option.map_comp comp_def split_def option.map_ident_strong
      intro!: option.map_ident_strong [symmetric])

lemma scans_text_append:
  "list_all (\<lambda>c. c \<noteq> quote_char) s \<Longrightarrow> scans s' t ls \<Longrightarrow> scans (s @ s') (s @ t) ls"
  by (induction s) (auto simp: scans_def option.map_comp comp_def split_def)

lemma no_quote_text: "list_all (\<lambda>c. c \<noteq> quote_char) s \<Longrightarrow> no_quote_first s"
  by (cases s) (simp_all add: no_quote_first_def)

lemma scans_join:
  assumes sep: "list_all (\<lambda>c. c \<noteq> quote_char) sep" "sep \<noteq> []"
    and "list_all2 (\<lambda>x (t, ls). scans x t ls) xs ys"
  shows "scans (join sep xs) (join sep (map fst ys)) (concat (map snd ys))"
  using assms(3)
proof (induction xs arbitrary: ys)
  case Nil
  then show ?case by (simp add: scans_text)
next
  case (Cons x xs)
  then obtain t ls ys' where ys: "ys = (t, ls) # ys'" "scans x t ls"
      "list_all2 (\<lambda>x (t, ls). scans x t ls) xs ys'"
    by (auto simp: list_all2_Cons1)
  show ?case
  proof (cases xs)
    case Nil
    with ys show ?thesis by simp
  next
    case (Cons z zs)
    with ys(3) obtain t' ls' ys'' where ys': "ys' = (t', ls') # ys''" by (auto simp: list_all2_Cons1)
    have "scans (sep @ join sep xs) (sep @ join sep (map fst ys')) (concat (map snd ys'))"
      by (rule scans_text_append [OF sep(1) Cons.IH [OF ys(3)]])
    moreover have "no_quote_first (sep @ join sep xs)"
      using sep by (cases sep) (simp_all add: no_quote_first_def)
    ultimately show ?thesis
      using scans_append [OF ys(2)] Cons ys(1) ys' by fastforce
  qed
qed

lemma scans_quoteList:
  "scans (quoteList vs) (join '', '' (replicate (length vs) ''?'')) vs"
proof -
  have "list_all2 (\<lambda>x (t, ls). scans x t ls) (map quoted vs) (map (\<lambda>v. (''?'', [v])) vs)"
    by (simp add: list_all2_conv_all_nth scans_quoted)
  from scans_join [OF _ _ this, of "'', ''"] show ?thesis
    by (simp add: quoteList_def comp_def map_replicate_const)
qed

section \<open>Every value stays in its literal\<close>

abbreviation plain :: "string \<Rightarrow> bool" where
  "plain \<equiv> list_all (\<lambda>c. c \<noteq> quote_char)"

lemma plain_digits: "\<forall>c \<in> set s. is_digit c \<Longrightarrow> plain s"
  by (auto simp: list_all_iff is_digit_def)

lemma plain_num:
  assumes "\<forall>x. plain (fracStr x)"
  shows "plain (num_str fracStr x)" "plain (jsnum_str fracStr n)"
proof -
  have "plain (show_nat k)" for k by (rule plain_digits) (rule show_nat_digits)
  with assms show "plain (num_str fracStr x)" for x by (simp add: num_str_def show_int_def)
  then show "plain (jsnum_str fracStr n)" by (cases n) simp_all
qed

lemma plain_join: "plain sep \<Longrightarrow> list_all plain xs \<Longrightarrow> plain (join sep xs)"
  by (induction sep xs rule: join.induct) simp_all

definition token_literals :: "filter_token \<Rightarrow> string list" where
  "token_literals t =
     (if ft_key t \<in> {''event'', ''provider''} then ft_values t
      else if ft_key t = ''contact'' then
        filter email_like (ft_values t) @
        filter (\<lambda>v. \<not> email_like v \<and> \<not> all_digits v) (ft_values t)
      else [])"

definition confined :: "string \<Rightarrow> string list \<Rightarrow> bool" where
  "confined s ls \<longleftrightarrow> (\<exists>t. scans s t ls)"

lemma confined_plain: "plain s \<Longrightarrow> confined s []"
  using scans_text by (auto simp: confined_def)

lemma confined_pre: "plain s \<Longrightarrow> confined s' ls \<Longrightarrow> confined (s @ s') ls"
  using scans_text_append by (fastforce simp: confined_def)

lemma confined_post: "confined s ls \<Longrightarrow> plain s' \<Longrightarrow> confined (s @ s') ls"
  using scans_append [OF _ scans_text no_quote_text] by (fastforce simp: confined_def)

lemma confined_lists: "confined (quoted v) [v]" "confined (quoteList vs) vs"
  using scans_quoteList by (auto simp: confined_def)

lemma confined_join:
  assumes "plain sep" "sep \<noteq> []" "list_all2 confined xs lss"
  shows "confined (join sep xs) (concat lss)"
proof -
  have "\<exists>ys. list_all2 (\<lambda>x (t, ls). scans x t ls) xs ys \<and> map snd ys = lss"
    using assms(3)
  proof (induction rule: list_all2_induct)
    case Nil
    then show ?case by simp
  next
    case (Cons x xs ls lss)
    then obtain ys t where "list_all2 (\<lambda>x (t, ls). scans x t ls) xs ys" "map snd ys = lss" "scans x t ls"
      by (auto simp: confined_def)
    then show ?case by (intro exI [of _ "(t, ls) # ys"]) simp
  qed
  with scans_join [OF assms(1,2)] show ?thesis by (fastforce simp: confined_def)
qed

lemma confined_string_clause: "plain col \<Longrightarrow> confined (buildStringColumnClause col vs n) vs"
proof (cases "length vs = 1")
  case True
  assume "plain col"
  then have "confined ((col @ '' '' @ (if n then ''!='' else ''='') @ '' '') @ quoted (hd vs)) [hd vs]"
    by (intro confined_pre confined_lists) simp
  moreover have "[hd vs] = vs" using True by (cases vs) auto
  ultimately show ?thesis using True by (simp add: buildStringColumnClause_def)
next
  case False
  assume "plain col"
  then have "confined ((col @ '' '' @ (if n then ''NOT IN'' else ''IN'') @ '' ('') @ (quoteList vs @ '')'')) vs"
    by (intro confined_pre confined_post confined_lists) simp_all
  with False show ?thesis by (simp add: buildStringColumnClause_def)
qed

lemma confined_int_clause:
  assumes "\<forall>x. plain (fracStr x)" "plain col" "buildIntColumnClause fracStr col vs n = Inr c"
  shows "confined c []"
proof -
  have nums: "list_all plain (map (\<lambda>v. num_str fracStr (the (int_value v))) vs)"
    using plain_num [OF assms(1)] by (simp add: list_all_iff)
  have "length vs = 1 \<Longrightarrow> plain (hd (map (\<lambda>v. num_str fracStr (the (int_value v))) vs))"
    using nums by (cases vs) auto
  then show ?thesis
    using assms(2,3) nums plain_join [OF _ nums, of "'', ''"]
    by (intro confined_plain) (auto simp: buildIntColumnClause_def Let_def split: option.splits if_splits)
qed

lemma confined_account_clause:
  assumes "\<forall>x. plain (fracStr x)"
  shows "confined (buildAccountClause fracStr vs n rs) []"
proof -
  have "plain (join '', '' (map (jsnum_str fracStr) ids))" for ids
    by (rule plain_join) (use plain_num [OF assms] in \<open>simp_all add: list_all_iff\<close>)
  then show ?thesis
    by (intro confined_plain) (simp add: buildAccountClause_def Let_def split: prod.split)
qed

lemma confined_ors:
  assumes "list_all2 confined ors lss"
  shows "confined (if length ors = 1 then hd ors else ''('' @ join '' OR '' ors @ '')'') (concat lss)"
proof (cases "length ors = 1")
  case True
  then obtain x where "ors = [x]" by (cases ors) auto
  with assms show ?thesis by (auto simp: list_all2_Cons1)
next
  case False
  have "confined (''('' @ (join '' OR '' ors @ '')'')) (concat lss)"
    by (intro confined_pre confined_post confined_join [OF _ _ assms]) simp_all
  with False show ?thesis by simp
qed

lemma confined_contact_clause:
  assumes "\<forall>x. plain (fracStr x)"
  shows "confined (buildContactClause fracStr vs n)
    (filter email_like vs @ filter (\<lambda>v. \<not> email_like v \<and> \<not> all_digits v) vs)"
proof -
  let ?e = "filter email_like vs" and ?u = "filter (\<lambda>v. \<not> email_like v \<and> \<not> all_digits v) vs"
    and ?i = "filter (\<lambda>v. \<not> email_like v \<and> all_digits v) vs"
  let ?parts = "(if ?e \<noteq> [] then [(''email IN ('' @ quoteList ?e @ '')'', ?e)] else []) @
     (if ?i \<noteq> [] then [(''contact_id IN ('' @ join '', '' (map (\<lambda>n. jsnum_str fracStr (js_Number n)) ?i) @ '')'', [])]
      else []) @ (if ?u \<noteq> [] then [(''uuid IN ('' @ quoteList ?u @ '')'', ?u)] else [])"
  have "plain (join '', '' (map (\<lambda>n. jsnum_str fracStr (js_Number n)) ?i))"
    by (rule plain_join) (use plain_num [OF assms] in \<open>simp_all add: list_all_iff\<close>)
  then have i: "confined (''contact_id IN ('' @ join '', '' (map (\<lambda>n. jsnum_str fracStr (js_Number n)) ?i) @ '')'') []"
    by (intro confined_plain) simp
  have e: "confined (''email IN ('' @ quoteList ?e @ '')'') ?e"
    and u: "confined (''uuid IN ('' @ quoteList ?u @ '')'') ?u"
    by (intro confined_pre confined_post confined_lists; simp)+
  have p: "list_all2 confined (map fst ?parts) (map snd ?parts)"
    using i e u by simp
  have l: "concat (map snd ?parts) = ?e @ ?u" by simp
  let ?ors = "map fst ?parts"
  have "confined (if length ?ors = 1 then hd ?ors else ''('' @ join '' OR '' ?ors @ '')'') (?e @ ?u)"
    using confined_ors [OF p] unfolding l .
  note joined = this
  have ors: "?ors = (if ?e \<noteq> [] then [''email IN ('' @ quoteList ?e @ '')''] else []) @
      (if ?i \<noteq> [] then [''contact_id IN ('' @ join '', '' (map (\<lambda>n. jsnum_str fracStr (js_Number n)) ?i) @ '')'']
       else []) @ (if ?u \<noteq> [] then [''uuid IN ('' @ quoteList ?u @ '')''] else [])"
    by simp
  show ?thesis
    unfolding buildContactClause_def Let_def
    using joined confined_pre [OF _ joined, of "''NOT ''"] unfolding ors by simp
qed

section \<open>The whole where clause\<close>

text \<open>The fragments so far and the literals they hold.\<close>

definition holds_literals :: "string list \<Rightarrow> string list \<Rightarrow> bool" where
  "holds_literals wh ls \<longleftrightarrow> (\<exists>lss. list_all2 confined wh lss \<and> concat lss = ls)"

lemma holds_snoc:
  assumes "holds_literals wh ls" "confined c l"
  shows "holds_literals (wh @ [c]) (ls @ l)"
proof -
  obtain lss where "list_all2 confined wh lss" "concat lss = ls"
    using assms(1) by (auto simp: holds_literals_def)
  with assms(2) show ?thesis
    unfolding holds_literals_def by (intro exI [of _ "lss @ [l]"]) (simp add: list_all2_appendI)
qed

lemma holds_append: "holds_literals wh ls \<Longrightarrow> holds_literals wh' ls' \<Longrightarrow> holds_literals (wh @ wh') (ls @ ls')"
  unfolding holds_literals_def by (fastforce intro!: list_all2_appendI)

lemma token_clause_literals:
  assumes plain: "\<forall>x. plain (fracStr x)"
    and "token_clause fracStr dj opts t (wh, a, b) = Inr (wh', a', b')" "holds_literals wh ls"
  shows "holds_literals wh' (ls @ token_literals t)"
proof -
  note snoc = holds_snoc [OF assms(3)]
  have account: "confined (buildAccountClause fracStr vs n rs) []" for vs n rs
    by (rule confined_account_clause [OF plain])
  have int': "confined c []"
    if "buildIntColumnClause fracStr col vs n = Inr c" "plain col" for col vs n c
    using confined_int_clause [OF plain] that by blast
  show ?thesis
    using assms(2,3) snoc snoc [OF account] snoc [OF int'] snoc [OF confined_contact_clause [OF plain]]
      snoc [OF confined_string_clause]
    by (simp add: token_clause_def token_literals_def add_clause_def Let_def
        split: if_splits sum.splits) auto
qed

lemma token_clauses_literals:
  assumes plain: "\<forall>x. plain (fracStr x)"
  shows "token_clauses fracStr dj opts ts acc = Inr (wh', a', b') \<Longrightarrow> holds_literals (fst acc) ls \<Longrightarrow>
    holds_literals wh' (ls @ concat (map token_literals ts))"
proof (induction ts arbitrary: acc ls)
  case Nil
  then show ?case by simp
next
  case (Cons t ts)
  obtain wh a b where acc: "acc = (wh, a, b)" by (cases acc)
  with Cons.prems obtain wh1 a1 b1 where step: "token_clause fracStr dj opts t acc = Inr (wh1, a1, b1)"
      "token_clauses fracStr dj opts ts (wh1, a1, b1) = Inr (wh', a', b')"
    by (auto split: sum.splits)
  have "holds_literals wh1 (ls @ token_literals t)"
    using token_clause_literals [OF plain] step(1) Cons.prems(2) unfolding acc by simp
  with Cons.IH [OF step(2), of "ls @ token_literals t"] show ?case by simp
qed

text \<open>C1: no search text can change the statement it is put into: read as ClickHouse reads it, the
  where clause built from any filter holds exactly the fixed message type, the values of the
  event, provider and contact tokens in order, and the four date bounds as its literals. A
  quote or a backslash in a value stays inside its literal.\<close>

theorem values_stay_in_literals:
  assumes "\<forall>x. plain (fracStr x)" "buildWhereClauses fracStr dj now f opts = Inr r"
  shows "\<exists>template. sql_scan Outside (br_whereSql r) =
    Some (template, bo_fixedMessageType opts # concat (map token_literals (af_tokens f)) @
      [dj_format dj (br_after r) ''YYYY-MM-DD'', dj_format dj (br_before r) ''YYYY-MM-DD'',
       dj_format dj (br_after r) ''YYYY-MM-DD HH:mm:ss'', dj_format dj (br_before r) ''YYYY-MM-DD HH:mm:ss''])"
proof -
  let ?bound = "\<lambda>p v. p @ quoted v"
  obtain wh a b where wh: "token_clauses fracStr dj opts (af_tokens f)
      ([''message_type = '' @ quoted (bo_fixedMessageType opts)], None, None) = Inr (wh, a, b)"
    using assms(2) by (auto simp: buildWhereClauses_def split: sum.splits)
  have one: "holds_literals [p @ quoted v] [v]" if "plain p" for p v
    using confined_pre [OF that confined_lists(1)] unfolding holds_literals_def
    by (intro exI [of _ "[[v]]"]) simp
  have "holds_literals wh (bo_fixedMessageType opts # concat (map token_literals (af_tokens f)))"
    using token_clauses_literals [OF assms(1) wh, of "[bo_fixedMessageType opts]"]
      one [of "''message_type = ''" "bo_fixedMessageType opts"] by simp
  note base = this
  have tail: "holds_literals
      [''time_date >= '' @ quoted u, ''time_date <= '' @ quoted v, ''time >= '' @ quoted w, ''time <= '' @ quoted x]
      [u, v, w, x]" for u v w x
    using holds_append [OF one [of "''time_date >= ''" u] holds_append [OF one [of "''time_date <= ''" v]
        holds_append [OF one [of "''time >= ''" w] one [of "''time <= ''" x]]]] by simp
  obtain frs where r: "br_fragments r = wh @
      [''time_date >= '' @ quoted (dj_format dj (br_after r) ''YYYY-MM-DD''),
       ''time_date <= '' @ quoted (dj_format dj (br_before r) ''YYYY-MM-DD''),
       ''time >= '' @ quoted (dj_format dj (br_after r) ''YYYY-MM-DD HH:mm:ss''),
       ''time <= '' @ quoted (dj_format dj (br_before r) ''YYYY-MM-DD HH:mm:ss'')]"
      "br_whereSql r = join '' AND '' (br_fragments r)"
    using assms(2) wh by (auto simp: buildWhereClauses_def Let_def split: prod.splits if_splits)
  have "holds_literals (br_fragments r) ((bo_fixedMessageType opts # concat (map token_literals (af_tokens f))) @
      [dj_format dj (br_after r) ''YYYY-MM-DD'', dj_format dj (br_before r) ''YYYY-MM-DD'',
       dj_format dj (br_after r) ''YYYY-MM-DD HH:mm:ss'', dj_format dj (br_before r) ''YYYY-MM-DD HH:mm:ss''])"
    unfolding r(1) by (rule holds_append [OF base tail])
  then obtain lss where lss: "list_all2 confined (br_fragments r) lss" "concat lss =
      bo_fixedMessageType opts # concat (map token_literals (af_tokens f)) @
      [dj_format dj (br_after r) ''YYYY-MM-DD'', dj_format dj (br_before r) ''YYYY-MM-DD'',
       dj_format dj (br_after r) ''YYYY-MM-DD HH:mm:ss'', dj_format dj (br_before r) ''YYYY-MM-DD HH:mm:ss'']"
    by (auto simp: holds_literals_def)
  have "confined (br_whereSql r) (concat lss)"
    unfolding r(2) by (rule confined_join [OF _ _ lss(1)]) simp_all
  then show ?thesis unfolding lss(2) confined_def using scansD by blast
qed

lemma token_clauses_count:
  "token_clauses fracStr dj opts ts acc = Inr (wh, a, b) \<Longrightarrow>
   length wh = length (fst acc) + length (filter (\<lambda>t. List.member
     [''account'', ''campaign'', ''automation'', ''event'', ''provider'', ''contact''] (ft_key t)) ts)"
proof (induction ts arbitrary: acc)
  case (Cons t ts)
  obtain acc' where step: "token_clause fracStr dj opts t acc = Inr acc'"
      "token_clauses fracStr dj opts ts acc' = Inr (wh, a, b)"
    using Cons.prems by (auto split: sum.splits)
  have "length (fst acc') = length (fst acc) + (if List.member
     [''account'', ''campaign'', ''automation'', ''event'', ''provider'', ''contact''] (ft_key t) then 1 else 0)"
    using step(1) by (cases acc) (auto simp: token_clause_def add_clause_def Let_def
        split: if_splits sum.splits)
  with Cons.IH [OF step(2)] show ?case by simp
qed simp

text \<open>C40: the applied time range is never empty and never starts before the cap, and each token
  that is not a date bound contributes exactly one condition beside the five fixed ones.\<close>

theorem applied_range_bounded:
  assumes "buildWhereClauses fracStr dj now f opts = Inr r"
  shows "br_after r < br_before r \<and> dj_subtractDays dj now (bo_capDays opts) \<le> br_after r \<and>
    length (br_fragments r) = 5 + length (filter (\<lambda>t. List.member
     [''account'', ''campaign'', ''automation'', ''event'', ''provider'', ''contact''] (ft_key t)) (af_tokens f))"
proof -
  obtain wh a b where wh: "token_clauses fracStr dj opts (af_tokens f)
      ([''message_type = '' @ quoted (bo_fixedMessageType opts)], None, None) = Inr (wh, a, b)"
    using assms by (auto simp: buildWhereClauses_def split: sum.splits)
  obtain x y where d: "date_range dj now opts a b = (x, y)" by (cases "date_range dj now opts a b")
  then have "dj_subtractDays dj now (bo_capDays opts) \<le> x"
    by (auto simp: date_range_def Let_def split: prod.splits option.splits if_splits)
  moreover have "length (br_fragments r) = length wh + 4" "br_after r = x" "br_before r = y" "x < y"
    using assms wh d by (auto simp: buildWhereClauses_def Let_def split: if_splits)
  ultimately show ?thesis using token_clauses_count [OF wh] by simp
qed

definition demo_dayjs :: dayjs where
  "demo_dayjs = \<lparr>dj_utc = \<lambda>s. if s = ''2026-01-05'' then Some 1767571200000 else None,
     dj_subtractDays = \<lambda>t n. t - 86400000 * int n, dj_format = \<lambda>t p. p, dj_toISOString = \<lambda>t. []\<rparr>"

definition demo_filter :: activity_filter where
  "demo_filter = \<lparr>af_tokens = [\<lparr>ft_key = ''event'', ft_values = [[CHR ''a'', quote_char, backslash]],
      ft_negate = True\<rparr>, \<lparr>ft_key = ''after'', ft_values = [''2026-01-05''], ft_negate = False\<rparr>],
     af_freeText = []\<rparr>"

definition demo_build :: build_options where
  "demo_build = \<lparr>bo_defaultDays = 7, bo_capDays = 90, bo_fixedMessageType = ''email'',
     bo_accountIdResolutions = \<lambda>_. None\<rparr>"

lemma demo_builds:
  "\<exists>r. buildWhereClauses (\<lambda>_. ''1.5'') demo_dayjs 1767571300000 demo_filter demo_build = Inr r \<and>
     br_after r = 1767571200000 \<and> br_before r = 1767571300000"
  by (simp add: buildWhereClauses_def demo_filter_def demo_dayjs_def demo_build_def token_clause_def
      add_clause_def parseDate_def date_range_def Let_def)

theorem values_stay_in_literals_witness:
  "\<exists>r t. buildWhereClauses (\<lambda>_. ''1.5'') demo_dayjs 1767571300000 demo_filter demo_build = Inr r \<and>
     sql_scan Outside (br_whereSql r) = Some (t, [''email'', [CHR ''a'', quote_char, backslash],
       ''YYYY-MM-DD'', ''YYYY-MM-DD'', ''YYYY-MM-DD HH:mm:ss'', ''YYYY-MM-DD HH:mm:ss''])"
proof -
  obtain r where r: "buildWhereClauses (\<lambda>_. ''1.5'') demo_dayjs 1767571300000 demo_filter demo_build = Inr r"
    using demo_builds by blast
  have "\<forall>x::real. plain ((\<lambda>_. ''1.5'') x)" by simp
  from values_stay_in_literals [OF this r] r show ?thesis
    by (auto simp: demo_build_def demo_filter_def demo_dayjs_def token_literals_def)
qed

theorem applied_range_bounded_witness:
  "\<exists>r. buildWhereClauses (\<lambda>_. ''1.5'') demo_dayjs 1767571300000 demo_filter demo_build = Inr r \<and>
     length (br_fragments r) = 6"
proof -
  obtain r where r: "buildWhereClauses (\<lambda>_. ''1.5'') demo_dayjs 1767571300000 demo_filter demo_build = Inr r"
    using demo_builds by blast
  with applied_range_bounded [OF r] show ?thesis by (simp add: demo_filter_def)
qed

section \<open>Grouping of the tokens\<close>

text \<open>The reference: the first occurrences of the pairs of key and negation, each with the values of all
  its parts in order.\<close>

definition part_group :: "string \<Rightarrow> string \<times> bool" where
  "part_group p = (part_key p, part_negate p)"

definition group_values :: "string list \<Rightarrow> string \<times> bool \<Rightarrow> string list" where
  "group_values ps g = map part_value (filter (\<lambda>p. part_colon p \<noteq> None \<and> part_group p = g) ps)"

definition groups :: "string list \<Rightarrow> (string \<times> bool) list" where
  "groups ps = fold set_add (map part_group (filter (\<lambda>p. part_colon p \<noteq> None) ps)) []"

definition grouped_tokens :: "string list \<Rightarrow> filter_token list" where
  "grouped_tokens ps =
     map (\<lambda>(k, n). \<lparr>ft_key = k, ft_values = group_values ps (k, n), ft_negate = n\<rparr>) (groups ps)"

definition free_text :: "string list \<Rightarrow> string list" where
  "free_text ps = map part_body (filter (\<lambda>p. part_colon p = None \<and> \<not> part_negate p) ps)"

definition bad_part :: "string \<Rightarrow> bool" where
  "bad_part p \<longleftrightarrow> part_colon p \<noteq> None \<and> (\<not> List.member VALID_TOKENS (part_key p) \<or> part_value p = [])"

lemma add_value_map:
  assumes "distinct gs" "(k, n) \<notin> set gs \<Longrightarrow> h (k, n) = []"
  shows "add_value k n v (map (\<lambda>(k, n). \<lparr>ft_key = k, ft_values = h (k, n), ft_negate = n\<rparr>) gs) =
    map (\<lambda>(k', n'). \<lparr>ft_key = k', ft_values = (h((k, n) := h (k, n) @ [v])) (k', n'), ft_negate = n'\<rparr>)
      (set_add (k, n) gs)"
  using assms
proof (induction gs)
  case Nil
  then show ?case by (simp add: set_add_def)
next
  case (Cons g gs)
  obtain k' n' where g: "g = (k', n')" by (cases g)
  show ?case
  proof (cases "g = (k, n)")
    case True
    then have "map (\<lambda>(k, n). \<lparr>ft_key = k, ft_values = h (k, n), ft_negate = n\<rparr>) gs =
        map (\<lambda>(k', n'). \<lparr>ft_key = k', ft_values = (h((k, n) := h (k, n) @ [v])) (k', n'), ft_negate = n'\<rparr>) gs"
      using Cons.prems(1) by (intro map_cong) (auto simp: split_def)
    with True show ?thesis by (simp add: set_add_def)
  next
    case False
    then have "set_add (k, n) (g # gs) = g # set_add (k, n) gs" by (simp add: set_add_def)
    with False Cons g show ?thesis by auto
  qed
qed

lemma groups_snoc:
  "groups (ps @ [p]) = (if part_colon p = None then groups ps else set_add (part_group p) (groups ps))"
  by (simp add: groups_def)

lemma groups_props: "distinct (groups ps) \<and> set (groups ps) = part_group ` {p \<in> set ps. part_colon p \<noteq> None}"
proof (induction ps rule: rev_induct)
  case Nil
  then show ?case by (simp add: groups_def)
next
  case (snoc p ps)
  then show ?case by (auto simp: groups_snoc)
qed

lemma grouped_snoc:
  assumes "part_colon p \<noteq> None"
  shows "add_value (part_key p) (part_negate p) (part_value p) (grouped_tokens ps) = grouped_tokens (ps @ [p])"
proof -
  let ?g = "(part_key p, part_negate p)"
  have g: "part_group p = ?g" by (simp add: part_group_def)
  have empty: "group_values ps ?g = []" if "?g \<notin> set (groups ps)"
  proof -
    have "\<not> (part_colon p' \<noteq> None \<and> part_group p' = ?g)" if "p' \<in> set ps" for p'
      using \<open>?g \<notin> set (groups ps)\<close> groups_props [of ps] that by (metis (mono_tags, lifting) image_eqI mem_Collect_eq)
    then show ?thesis by (auto simp: group_values_def filter_empty_conv)
  qed
  have "group_values (ps @ [p]) = (group_values ps)(?g := group_values ps ?g @ [part_value p])"
    using assms g by (auto simp: group_values_def fun_eq_iff)
  then show ?thesis
    using add_value_map [of "groups ps" "part_key p" "part_negate p" "group_values ps" "part_value p"]
      empty groups_props [of ps] assms g
    by (auto simp: grouped_tokens_def groups_snoc)
qed

lemma parse_parts_groups:
  "parse_parts ps \<lparr>af_tokens = grouped_tokens qs, af_freeText = free_text qs\<rparr> =
     (case find bad_part ps of
        None \<Rightarrow> Inr \<lparr>af_tokens = grouped_tokens (qs @ ps), af_freeText = free_text (qs @ ps)\<rparr>
      | Some p \<Rightarrow> Inl (case parse_part p \<lparr>af_tokens = [], af_freeText = []\<rparr> of Inl e \<Rightarrow> e | Inr _ \<Rightarrow> []))"
proof (induction ps arbitrary: qs)
  case Nil
  then show ?case by simp
next
  case (Cons p ps)
  have none: "grouped_tokens (qs @ [p]) = grouped_tokens qs" if "part_colon p = None"
    using that by (simp add: grouped_tokens_def groups_snoc group_values_def)
  show ?case
    using Cons [of "qs @ [p]"] grouped_snoc [of p qs] none
    by (auto simp: parse_part_def bad_part_def free_text_def Let_def split: option.splits)
qed

text \<open>Result: the parser groups: unless some part has a colon with an unknown key or an empty value, the
  tokens are the distinct pairs of key and negation in order of first occurrence, each with
  all its values in order, and the free text is the rest without a minus sign.\<close>

theorem parse_groups_by_key:
  "parseActivityQuery q =
     (let ps = words (js_trim q) in
      case find bad_part ps of
        None \<Rightarrow> Inr \<lparr>af_tokens = grouped_tokens ps, af_freeText = free_text ps\<rparr>
      | Some p \<Rightarrow> Inl (case parse_part p \<lparr>af_tokens = [], af_freeText = []\<rparr> of Inl e \<Rightarrow> e | Inr _ \<Rightarrow> []))"
proof -
  have "grouped_tokens [] = []" "free_text [] = []"
    by (simp_all add: grouped_tokens_def groups_def free_text_def)
  with parse_parts_groups [of "words (js_trim q)" "[]", unfolded append_Nil] show ?thesis
    by (simp only: parseActivityQuery_def Let_def)
qed

section \<open>The query of the activity service\<close>

record activity_query =
  aq_q :: string
  aq_page :: jsnum
  aq_limit :: jsnum

text \<open>\<open>Math.max(1, Math.min(hi, Number(x) || dflt))\<close>\<close>

definition clamp_param :: "real \<Rightarrow> real \<Rightarrow> jsnum \<Rightarrow> real" where
  "clamp_param hi dflt' x = (case x of
     Fin v \<Rightarrow> max 1 (min hi (if v = 0 then dflt' else v))
   | PosInf \<Rightarrow> hi
   | NegInf \<Rightarrow> 1
   | NaN \<Rightarrow> max 1 (min hi dflt'))"

record 'row activity_result =
  ar_events :: "'row list"
  ar_page :: real
  ar_limit :: real
  ar_hasNext :: bool
  ar_range :: "int \<times> int"

definition resolveAccountNames :: "(string \<Rightarrow> jsnum list) \<Rightarrow> string list \<Rightarrow> string \<Rightarrow> jsnum list option" where
  "resolveAccountNames search names name =
     (if name \<in> set names then (case search name of [] \<Rightarrow> None | r # rs \<Rightarrow> Some (r # rs)) else None)"

text \<open>The statement is given by its where clause, limit and offset; the database answers at most
  \<open>LIMIT\<close> rows. The account search and the database are parameters.\<close>

definition queryEvents ::
  "(real \<Rightarrow> string) \<Rightarrow> dayjs \<Rightarrow> int \<Rightarrow> (string \<Rightarrow> jsnum list) \<Rightarrow> (string \<Rightarrow> real \<Rightarrow> real \<Rightarrow> 'row list)
   \<Rightarrow> activity_query \<Rightarrow> string + 'row activity_result" where
  "queryEvents fracStr dj now search runQuery dto =
     (let limit = clamp_param 200 50 (aq_limit dto);
          page = clamp_param 10000 1 (aq_page dto);
          offset = (page - 1) * limit in
      case parseActivityQuery (aq_q dto) of
        Inl e \<Rightarrow> Inl e
      | Inr f \<Rightarrow>
          (case buildWhereClauses fracStr dj now f
                  \<lparr>bo_defaultDays = 7, bo_capDays = 90, bo_fixedMessageType = ''email'',
                   bo_accountIdResolutions = resolveAccountNames search (extractAccountNameLookups f)\<rparr> of
             Inl e \<Rightarrow> Inl e
           | Inr built \<Rightarrow>
               let rows = runQuery (br_whereSql built) (limit + 1) offset;
                   hasNext = real (length rows) > limit in
               Inr \<lparr>ar_events = (if hasNext then take (nat \<lfloor>limit\<rfloor>) rows else rows), ar_page = page,
                     ar_limit = limit, ar_hasNext = hasNext,
                     ar_range = (br_after built, br_before built)\<rparr>))"

end
