(* ===== verification/SegmentBuilder.thy ===== *)
theory SegmentBuilder
  imports Engine
begin

text \<open>
  The segment builder of the frontend, \<open>frontend-react/src/features/segments/builder\<close>: the
  state and the reducer (\<open>types.ts\<close>, \<open>builder-reducer.ts\<close>), the conversion from and to the
  stored format (\<open>builder-serializer.ts\<close>, with the tables of \<open>constants.ts\<close>) and the
  validation (\<open>builder-validator.ts\<close>). A step is an object, so a known step is its list of
  properties; an unknown one keeps the raw object it came from. Random identifiers are
  given by the action, or by a function of the place that asks for one.
\<close>

section \<open>Tables (\<open>constants.ts\<close>)\<close>

record action_option =
  ao_value :: string
  ao_dbField :: string
  ao_isNegation :: bool

definition action_pair :: "string \<Rightarrow> string \<Rightarrow> action_option list" where
  "action_pair v d =
     [\<lparr>ao_value = v, ao_dbField = d, ao_isNegation = False\<rparr>,
      \<lparr>ao_value = ''no'' @ v, ao_dbField = d, ao_isNegation = True\<rparr>]"

definition emailActions :: "action_option list" where
  "emailActions = action_pair ''open'' ''last_open_date'' @ action_pair ''click'' ''last_click_date'' @
     action_pair ''send'' ''last_sent_date''"

definition pushActions :: "action_option list" where
  "pushActions = action_pair ''click'' ''last_click_date'' @ action_pair ''delivered'' ''last_delivered_date'' @
     action_pair ''send'' ''last_sent_date''"

definition smsActions :: "action_option list" where
  "smsActions = action_pair ''delivered'' ''sms_last_delivered'' @ action_pair ''click'' ''sms_last_click'' @
     action_pair ''send'' ''sms_last_sent''"

definition whatsappActions :: "action_option list" where
  "whatsappActions = action_pair ''open'' ''whatsapp_last_open'' @
     action_pair ''delivered'' ''whatsapp_last_delivered'' @ action_pair ''click'' ''whatsapp_last_click'' @
     action_pair ''send'' ''whatsapp_last_sent''"

definition pageViewActions :: "action_option list" where
  "pageViewActions = action_pair ''pageview'' ''page_view''"

definition ACTIONS_BY_CHANNEL :: "(string \<times> action_option list) list" where
  "ACTIONS_BY_CHANNEL = [(''email'', emailActions), (''web-push'', pushActions), (''mobile-push'', pushActions),
     (''sms'', smsActions), (''whatsapp'', whatsappActions), (''page_view'', pageViewActions), (''anyChannel'', [])]"

text \<open>A channel named like a member of \<open>Object.prototype\<close> finds that member, which is no array.\<close>

definition OBJECT_MEMBERS :: "string list" where
  "OBJECT_MEMBERS = [''constructor'', ''toString'', ''toLocaleString'', ''valueOf'', ''hasOwnProperty'',
     ''isPrototypeOf'', ''propertyIsEnumerable'', ''__proto__'', ''__defineGetter__'', ''__defineSetter__'',
     ''__lookupGetter__'', ''__lookupSetter__'']"

definition actions_of :: "string \<Rightarrow> string + action_option list" where
  "actions_of channel = (case map_of ACTIONS_BY_CHANNEL channel of
     Some as \<Rightarrow> Inr as
   | None \<Rightarrow> if List.member OBJECT_MEMBERS channel then Inl ''TypeError'' else Inr [])"

definition getDbFieldForAction :: "(real \<Rightarrow> string) \<Rightarrow> jsval \<Rightarrow> jsval \<Rightarrow> string + string option" where
  "getDbFieldForAction fs channelType actionValue =
     sumThen (actions_of (to_str fs channelType)) (\<lambda>as.
     Inr (map_option ao_dbField (find (\<lambda>a. JStr (ao_value a) = actionValue) as)))"

section \<open>State and actions (\<open>types.ts\<close>)\<close>

type_synonym fields = "(string \<times> jsval) list"

datatype builder_step =
    KnownStep fields
  | UnsupportedStep (us_id: string) (us_originalType: jsval) (us_raw: fields) (us_connector: jsval)

record builder_card =
  bc_id :: string
  bc_steps :: "builder_step list"
  bc_connector :: jsval

type_synonym builder_state = "builder_card list"

fun step_id :: "builder_step \<Rightarrow> jsval" where
  "step_id (KnownStep m) = obj_get m ''id''"
| "step_id (UnsupportedStep i _ _ _) = JStr i"

fun step_kind :: "builder_step \<Rightarrow> jsval" where
  "step_kind (KnownStep m) = obj_get m ''type''"
| "step_kind (UnsupportedStep _ _ _ _) = JStr ''unknown''"

fun step_connector :: "builder_step \<Rightarrow> jsval" where
  "step_connector (KnownStep m) = obj_get m ''stepConnector''"
| "step_connector (UnsupportedStep _ _ _ c) = c"

fun assign_step :: "fields \<Rightarrow> builder_step \<Rightarrow> builder_step" where
  "assign_step d (KnownStep m) = KnownStep (with_props m d)"
| "assign_step d (UnsupportedStep i t r c) =
     (let get' = (\<lambda>k v. case map_of d k of None \<Rightarrow> v | Some w \<Rightarrow> w) in
      UnsupportedStep (case get' ''id'' (JStr i) of JStr j \<Rightarrow> j | _ \<Rightarrow> i) (get' ''originalType'' t)
        (case get' ''raw'' (JObj r) of JObj m \<Rightarrow> m | _ \<Rightarrow> r) (get' ''stepConnector'' c))"

definition set_connector :: "jsval \<Rightarrow> builder_step \<Rightarrow> builder_step" where
  "set_connector v = assign_step [(''stepConnector'', v)]"

definition StepTypes :: "string list" where
  "StepTypes = [''interation'', ''custom_field'', ''user_field'', ''tag'', ''automation_state'', ''lead'']"

text \<open>An unknown type, which the types exclude, would give \<open>undefined\<close>, and adding it fails.\<close>

definition createDefaultStep :: "string \<Rightarrow> string \<Rightarrow> builder_step option" where
  "createDefaultStep i stepType =
     (let base = [(''id'', JStr i), (''type'', JStr stepType)];
          one = JNum (Fin 1); zero = JNum (Fin 0) in
      if stepType = ''interation'' then Some (KnownStep (base @
          [(''event_type'', JStr ''email''), (''conditional_interation'', JStr ''yes''), (''custom_times_value'', one),
           (''conditional_times_value'', JStr ''>=''), (''time'', zero)]))
      else if stepType = ''custom_field'' \<or> stepType = ''user_field'' then Some (KnownStep base)
      else if stepType = ''tag'' then Some (KnownStep (base @
          [(''conditional_tag'', JStr ''in''), (''tag_id'', JArr []), (''tag_info'', JArr [])]))
      else if stepType = ''automation_state'' then Some (KnownStep (base @
          [(''event'', JStr ''entered''), (''custom_times_value'', zero), (''conditional_times_value'', JStr ''>='')]))
      else if stepType = ''lead'' then Some (KnownStep (base @ [(''conditional_lead_field'', JStr ''='')]))
      else None)"

section \<open>The reducer (\<open>builder-reducer.ts\<close>)\<close>

datatype builder_action =
    AddCard string
  | RemoveCard string
  | DuplicateCard string string "nat \<Rightarrow> string"
  | SetCardConnector string jsval
  | AddStep string string string
  | RemoveStep string string
  | UpdateStep string string string fields
  | SetStepConnector string string jsval
  | LoadState builder_state

definition handleAddCard :: "string \<Rightarrow> builder_state \<Rightarrow> builder_state" where
  "handleAddCard i cards = cards @ [\<lparr>bc_id = i, bc_steps = [],
     bc_connector = (if length cards > 0 then JStr ''INTERSECT'' else JUndefined)\<rparr>]"

definition strip_first :: "('a \<Rightarrow> 'a) \<Rightarrow> 'a list \<Rightarrow> 'a list" where
  "strip_first f xs = (case xs of [] \<Rightarrow> [] | x # ys \<Rightarrow> f x # ys)"

definition handleRemoveCard :: "string \<Rightarrow> builder_state \<Rightarrow> builder_state" where
  "handleRemoveCard i cards = (case find_index (\<lambda>c. bc_id c = i) cards of
     None \<Rightarrow> cards
   | Some n \<Rightarrow> (if n = 0 then strip_first (\<lambda>c. c\<lparr>bc_connector := JUndefined\<rparr>) (remove_at n cards)
               else remove_at n cards))"

definition handleDuplicateCard :: "string \<Rightarrow> string \<Rightarrow> (nat \<Rightarrow> string) \<Rightarrow> builder_state \<Rightarrow> builder_state" where
  "handleDuplicateCard i new ids cards = (case find_index (\<lambda>c. bc_id c = i) cards of
     None \<Rightarrow> cards
   | Some n \<Rightarrow> insert_at (n + 1) \<lparr>bc_id = new,
        bc_steps = map (\<lambda>(j, s). assign_step [(''id'', JStr (ids j))] s) (enumerate 0 (bc_steps (cards ! n))),
        bc_connector = JStr ''UNION''\<rparr> cards)"

text \<open>Change the first element that satisfies the test.\<close>

definition change_first :: "('a \<Rightarrow> bool) \<Rightarrow> ('a \<Rightarrow> 'a) \<Rightarrow> 'a list \<Rightarrow> 'a list" where
  "change_first p f xs = (case find_index p xs of None \<Rightarrow> xs | Some n \<Rightarrow> xs[n := f (xs ! n)])"

definition on_card :: "string \<Rightarrow> (builder_step list \<Rightarrow> builder_step list) \<Rightarrow> builder_state \<Rightarrow> builder_state" where
  "on_card i f = change_first (\<lambda>c. bc_id c = i) (\<lambda>c. c\<lparr>bc_steps := f (bc_steps c)\<rparr>)"

definition handleSetCardConnector :: "string \<Rightarrow> jsval \<Rightarrow> builder_state \<Rightarrow> builder_state" where
  "handleSetCardConnector i v = change_first (\<lambda>c. bc_id c = i) (\<lambda>c. c\<lparr>bc_connector := v\<rparr>)"

definition handleAddStep :: "string \<Rightarrow> string \<Rightarrow> string \<Rightarrow> builder_state \<Rightarrow> builder_state" where
  "handleAddStep i stepType new = on_card i (\<lambda>steps.
     if stepType = ''tag'' \<and> list_ex (\<lambda>s. step_kind s = JStr ''tag'') steps then steps
     else case createDefaultStep new stepType of
       None \<Rightarrow> steps
     | Some s \<Rightarrow> steps @ [if length steps > 0 then set_connector (JStr ''and'') s else s])"

definition handleRemoveStep :: "string \<Rightarrow> string \<Rightarrow> builder_state \<Rightarrow> builder_state" where
  "handleRemoveStep i j = on_card i (\<lambda>steps. case find_index (\<lambda>s. step_id s = JStr j) steps of
     None \<Rightarrow> steps
   | Some n \<Rightarrow> (if n = 0 then strip_first (set_connector JUndefined) (remove_at n steps) else remove_at n steps))"

text \<open>A change of channel resets what depends on it.\<close>

definition channel_reset :: fields where
  "channel_reset = [(''event'', JUndefined), (''message'', JNull), (''conditional_times_value'', JUndefined),
     (''custom_times_value'', JNum (Fin 1)), (''page_view_filter'', JNull), (''page_view_value'', JNull)]"

definition updated_step :: "string \<Rightarrow> fields \<Rightarrow> builder_step \<Rightarrow> builder_step" where
  "updated_step stepType d s =
     (let channel = (case s of KnownStep m \<Rightarrow> obj_get m ''event_type'' | _ \<Rightarrow> JUndefined) in
      assign_step d (if stepType = ''interation'' \<and> jshas d ''event_type'' \<and> channel \<noteq> obj_get d ''event_type''
        then assign_step channel_reset s else s))"

definition handleUpdateStep :: "string \<Rightarrow> string \<Rightarrow> string \<Rightarrow> fields \<Rightarrow> builder_state \<Rightarrow> builder_state" where
  "handleUpdateStep i j stepType d =
     on_card i (change_first (\<lambda>s. step_id s = JStr j) (updated_step stepType d))"

definition handleSetStepConnector :: "string \<Rightarrow> string \<Rightarrow> jsval \<Rightarrow> builder_state \<Rightarrow> builder_state" where
  "handleSetStepConnector i j v = on_card i (change_first (\<lambda>s. step_id s = JStr j) (set_connector v))"

fun builderReducer :: "builder_action \<Rightarrow> builder_state \<Rightarrow> builder_state" where
  "builderReducer (AddCard new) s = handleAddCard new s"
| "builderReducer (RemoveCard i) s = handleRemoveCard i s"
| "builderReducer (DuplicateCard i new ids) s = handleDuplicateCard i new ids s"
| "builderReducer (SetCardConnector i v) s = handleSetCardConnector i v s"
| "builderReducer (AddStep i t new) s = handleAddStep i t new s"
| "builderReducer (RemoveStep i j) s = handleRemoveStep i j s"
| "builderReducer (UpdateStep i j t d) s = handleUpdateStep i j t d s"
| "builderReducer (SetStepConnector i j v) s = handleSetStepConnector i j v s"
| "builderReducer (LoadState cards) s = cards"

definition createInitialState :: "builder_state option \<Rightarrow> builder_state" where
  "createInitialState cards = (case cards of None \<Rightarrow> [] | Some cs \<Rightarrow> cs)"

section \<open>Parsing the stored format (\<open>builder-serializer.ts\<close>)\<close>

definition PRESET_TIME_VALUES :: "real list" where
  "PRESET_TIME_VALUES = [0, 1, 7, 15]"

definition INTERNAL_FIELDS :: "string list" where
  "INTERNAL_FIELDS = [''id'', ''stepConnector'', ''cardConnector'', ''originalType'', ''raw'']"

text \<open>Numeric strings of the period become numbers, empty ones \<open>null\<close>.\<close>

definition normalizeValue :: "string \<Rightarrow> jsval \<Rightarrow> jsval" where
  "normalizeValue k v =
     (if k = ''time'' \<or> k = ''time_custom'' then
        (if js_nullish v \<or> v = JStr '''' then JNull
         else case v of
           JStr s \<Rightarrow> if js_Number s \<noteq> NaN \<and> js_trim s \<noteq> '''' then JNum (js_Number s) else v
         | _ \<Rightarrow> v)
      else v)"

definition normalizeTagEntry :: "jsval \<Rightarrow> jsval" where
  "normalizeTagEntry e =
     (if e = JNull \<or> \<not> is_object e then e
      else let count = get e ''count'' in
        JObj [(''id'', get e ''id''), (''name'', get e ''name''),
              (''type'', if get e ''type'' = JStr ''segment'' then JStr ''segment'' else JStr ''tag''),
              (''count'', if count \<noteq> JUndefined then count
                 else if js_nullish (get e ''lastCount'') then JNull else get e ''lastCount'')])"

definition normalizeTagOnParse :: "fields \<Rightarrow> fields" where
  "normalizeTagOnParse m =
     (case obj_get m ''tag_info'' of JArr vs \<Rightarrow> jsset ''tag_info'' (JArr (map normalizeTagEntry vs)) m | _ \<Rightarrow> m)"

text \<open>The event of a channel: a database field becomes the action with the right polarity.\<close>

definition action_for :: "action_option list \<Rightarrow> bool \<Rightarrow> jsval \<Rightarrow> jsval" where
  "action_for as negated e =
     (if list_ex (\<lambda>a. JStr (ao_value a) = e) as then e
      else case find (\<lambda>a. JStr (ao_dbField a) = e \<and> ao_isNegation a = negated) as of
        None \<Rightarrow> e | Some a \<Rightarrow> JStr (ao_value a))"

definition custom_period :: "fields \<Rightarrow> fields" where
  "custom_period m =
     (case obj_get m ''time'' of
        JNum n \<Rightarrow> if n \<in> Fin ` set PRESET_TIME_VALUES then m
          else jsset ''time'' (JStr ''custom'') (jsset ''time_custom'' (JNum n) m)
      | _ \<Rightarrow> m)"

definition normalizeInteractionOnParse :: "(real \<Rightarrow> string) \<Rightarrow> fields \<Rightarrow> string + fields" where
  "normalizeInteractionOnParse fs m0 =
     (let m = (if truthy (obj_get m0 ''event_type'') then m0 else jsset ''event_type'' (JStr ''email'') m0);
          e = obj_get m ''event'' in
      sumThen (if truthy e then
          sumThen (actions_of (to_str fs (obj_get m ''event_type''))) (\<lambda>as.
          let e' = action_for as (obj_get m ''conditional_interation'' = JStr ''not'') e in
          Inr (if e' = e then m else jsset ''event'' e' m))
        else Inr m) (\<lambda>m'.
      Inr (custom_period m')))"

definition parseRawStep :: "(real \<Rightarrow> string) \<Rightarrow> string \<Rightarrow> jsval \<Rightarrow> jsval \<Rightarrow> string + builder_step" where
  "parseRawStep fs uuid raw stepConnector =
     sumThen (read_prop raw ''type'') (\<lambda>t.
     if \<not> List.member (map JStr StepTypes) t then Inr (UnsupportedStep uuid t (spread raw) stepConnector)
     else
       let m = fold (\<lambda>(k, v) m. if k = ''conditional'' \<or> k = ''type'' then m else jsset k (normalizeValue k v) m)
             (spread raw) [(''id'', JStr uuid), (''type'', t), (''stepConnector'', stepConnector)] in
       sumThen (if t = JStr ''interation'' then normalizeInteractionOnParse fs m else Inr m) (\<lambda>m'.
       Inr (KnownStep (if t = JStr ''tag'' then normalizeTagOnParse m' else m'))))"

text \<open>The connector entries of a card; the last one counts.\<close>

fun split_entries :: "jsval list \<Rightarrow> string + (jsval \<times> jsval list)" where
  "split_entries [] = Inr (JUndefined, [])"
| "split_entries (e # es) =
     sumThen (read_prop e ''type'') (\<lambda>t.
     sumThen (split_entries es) (\<lambda>(c, steps).
     if t = JStr ''conditionalCard'' then
       Inr (if list_ex (\<lambda>x. get x ''type'' = JStr ''conditionalCard'') es then c else get e ''value'', steps)
     else Inr (c, e # steps)))"

fun parse_entries :: "(real \<Rightarrow> string) \<Rightarrow> (nat \<Rightarrow> string) \<Rightarrow> nat \<Rightarrow> jsval list \<Rightarrow> string + builder_step list" where
  "parse_entries fs uuid j [] = Inr []"
| "parse_entries fs uuid j (e # es) =
     sumThen (parseRawStep fs (uuid j) e (if j > 0 then get e ''conditional'' else JUndefined)) (\<lambda>s.
     sumThen (parse_entries fs uuid (Suc j) es) (\<lambda>ss. Inr (s # ss)))"

definition parse_card :: "(real \<Rightarrow> string) \<Rightarrow> (nat option \<Rightarrow> string) \<Rightarrow> nat \<Rightarrow> jsval \<Rightarrow> string + builder_card" where
  "parse_card fs uuid i v = (case v of
     JArr es \<Rightarrow>
       sumThen (split_entries es) (\<lambda>(c, entries).
       sumThen (parse_entries fs (\<lambda>j. uuid (Some j)) 0 entries) (\<lambda>steps.
       Inr \<lparr>bc_id = uuid None, bc_steps = steps, bc_connector = (if i = 0 then JUndefined else c)\<rparr>))
   | _ \<Rightarrow> Inr \<lparr>bc_id = uuid None, bc_steps = [], bc_connector = JUndefined\<rparr>)"

fun parse_cards :: "(real \<Rightarrow> string) \<Rightarrow> (nat \<Rightarrow> nat option \<Rightarrow> string) \<Rightarrow> nat \<Rightarrow> jsval list \<Rightarrow> string + builder_state" where
  "parse_cards fs uuid i [] = Inr []"
| "parse_cards fs uuid i (v # vs) =
     sumThen (parse_card fs (uuid i) i v) (\<lambda>c. sumThen (parse_cards fs uuid (Suc i) vs) (\<lambda>cs. Inr (c # cs)))"

definition parseSteps ::
  "(real \<Rightarrow> string) \<Rightarrow> (string \<Rightarrow> jsval option) \<Rightarrow> (nat \<Rightarrow> nat option \<Rightarrow> string) \<Rightarrow> jsval \<Rightarrow> string + builder_state" where
  "parseSteps fs json uuid input =
     (case (case input of
         JStr s \<Rightarrow> if js_trim s = '''' then None else json s
       | JArr vs \<Rightarrow> Some input
       | _ \<Rightarrow> None) of
        Some (JArr vs) \<Rightarrow> parse_cards fs uuid 0 vs
      | _ \<Rightarrow> Inr [])"

section \<open>Writing the stored format\<close>

definition defaultOperatorForUserField :: "jsval \<Rightarrow> jsval" where
  "defaultOperatorForUserField k = (case k of
     JStr s \<Rightarrow>
       if List.member [''created_at_date'', ''last_automation_date'', ''email_provider'', ''last_vertical_type''] s
       then JStr ''=''
       else if s = ''communication_channels'' \<or> s = ''is_email_deliverable'' then JStr ''true'' else JNull
   | _ \<Rightarrow> JNull)"

definition normalizeInteractionOnSerialize :: "(real \<Rightarrow> string) \<Rightarrow> fields \<Rightarrow> string + fields" where
  "normalizeInteractionOnSerialize fs m =
     sumThen (if truthy (obj_get m ''event_type'') \<and> truthy (obj_get m ''event'') then
         sumThen (getDbFieldForAction fs (obj_get m ''event_type'') (obj_get m ''event'')) (\<lambda>d.
         Inr (case d of Some (c # cs) \<Rightarrow> jsset ''event'' (JStr (c # cs)) m | _ \<Rightarrow> m))
       else Inr m) (\<lambda>m.
     Inr (AList.delete ''time_custom''
       (if obj_get m ''time'' = JStr ''custom'' \<and> \<not> js_nullish (obj_get m ''time_custom'')
        then jsset ''time'' (obj_get m ''time_custom'') m else m)))"

definition public_fields :: "fields \<Rightarrow> fields" where
  "public_fields m = filter (\<lambda>(k, v). \<not> List.member INTERNAL_FIELDS k \<and> \<not> js_nullish v) m"

definition serializeStep :: "(real \<Rightarrow> string) \<Rightarrow> builder_step \<Rightarrow> string + fields" where
  "serializeStep fs s = (case s of
     UnsupportedStep i t raw c \<Rightarrow> Inr (if truthy c then jsset ''conditional'' c raw else raw)
   | KnownStep m \<Rightarrow>
       let o1 = public_fields m;
           o2 = (if truthy (obj_get m ''stepConnector'') then jsset ''conditional'' (obj_get m ''stepConnector'') o1 else o1);
           o3 = (if num_less (Fin 1) (to_number (to_primitive fs (obj_get o2 ''custom_times_value''))) = Some True \<and>
                    js_nullish (obj_get o2 ''conditional_times_value'')
                 then jsset ''conditional_times_value'' (JStr ''>='') o2 else o2);
           backfill = defaultOperatorForUserField (obj_get o3 ''user_field_key'');
           o4 = (if obj_get m ''type'' = JStr ''user_field'' \<and> js_nullish (obj_get o3 ''conditional_user_field'') \<and> backfill \<noteq> JNull
                 then jsset ''conditional_user_field'' backfill o3 else o3) in
       if obj_get m ''type'' = JStr ''interation'' then normalizeInteractionOnSerialize fs o4 else Inr o4)"

fun collect :: "('a \<Rightarrow> string + 'b) \<Rightarrow> 'a list \<Rightarrow> string + 'b list" where
  "collect f [] = Inr []"
| "collect f (x # xs) = sumThen (f x) (\<lambda>y. sumThen (collect f xs) (\<lambda>ys. Inr (y # ys)))"

definition serialize_card :: "(real \<Rightarrow> string) \<Rightarrow> builder_card \<Rightarrow> string + fields list" where
  "serialize_card fs c =
     sumThen (collect (serializeStep fs) (bc_steps c)) (\<lambda>ss.
     Inr ((if truthy (bc_connector c) then [[(''type'', JStr ''conditionalCard''), (''value'', bc_connector c)]] else []) @ ss))"

definition serializeSteps :: "(real \<Rightarrow> string) \<Rightarrow> builder_state \<Rightarrow> string + fields list list" where
  "serializeSteps fs = collect (serialize_card fs)"

section \<open>Validation (\<open>builder-validator.ts\<close>)\<close>

datatype builder_error = EmptyCard nat | MissingPeriod nat nat

definition hasValidPeriod :: "builder_step \<Rightarrow> bool" where
  "hasValidPeriod s = (case s of
     KnownStep m \<Rightarrow> \<not> js_nullish (obj_get m ''time'') \<and> obj_get m ''time'' \<noteq> JStr ''''
   | UnsupportedStep _ _ _ _ \<Rightarrow> False)"

definition timed :: "builder_step \<Rightarrow> bool" where
  "timed s \<longleftrightarrow> step_kind s = JStr ''interation'' \<or> step_kind s = JStr ''automation_state''"

definition card_errors :: "nat \<Rightarrow> builder_card \<Rightarrow> builder_error list" where
  "card_errors i c =
     (if bc_steps c = [] then [EmptyCard i]
      else map (\<lambda>(j, s). MissingPeriod i j) (filter (\<lambda>(j, s). timed s \<and> \<not> hasValidPeriod s) (enumerate 0 (bc_steps c))))"

definition validateBuilder :: "builder_state \<Rightarrow> builder_error list" where
  "validateBuilder cards = concat (map (\<lambda>(i, c). card_errors i c) (enumerate 0 cards))"

end
