(* ===== verification/SegmentStore.thy ===== *)
theory SegmentStore
  imports SegmentBuilder
begin

text \<open>
  Loading and saving a segment: what a stored step becomes when it is parsed and written
  again, described field by field for every type of step, and the stability of the stored
  form under further loads and saves.
\<close>

section \<open>A save and a load\<close>

text \<open>What one entry of a card becomes when it is loaded and saved.\<close>

definition step_wire :: "(real \<Rightarrow> string) \<Rightarrow> string \<Rightarrow> jsval \<Rightarrow> jsval \<Rightarrow> string + fields" where
  "step_wire fs u c raw = sumThen (parseRawStep fs u raw c) (serializeStep fs)"

definition agree :: "fields \<Rightarrow> fields \<Rightarrow> bool" where
  "agree a b \<longleftrightarrow> obj_get a = obj_get b"

definition nn :: "jsval \<Rightarrow> jsval" where
  "nn v = (if js_nullish v then JUndefined else v)"

lemma js_nullish_simps [simp]: "js_nullish JUndefined" "js_nullish JNull" "\<not> js_nullish (JStr s)" "\<not> js_nullish (JNum n)"
  "\<not> js_nullish (JArr vs)"
  by (simp_all add: js_nullish_def)

lemma nn_simps [simp]: "nn JUndefined = JUndefined" "nn JNull = JUndefined" "nn (JStr s) = JStr s"
  "nn (JNum n) = JNum n" "nn (JArr vs) = JArr vs"
  by (simp_all add: nn_def)

lemma nn_idem [simp]: "nn (nn v) = nn v" "js_nullish (nn v) = js_nullish v" "truthy (nn v) = truthy v"
  "nn v = JStr s \<longleftrightarrow> v = JStr s" "nn v = JNum n \<longleftrightarrow> v = JNum n"
  by (cases v; simp add: nn_def js_nullish_def)+

lemma normalizeValue_idem [simp]: "nn (normalizeValue k (nn (normalizeValue k v))) = nn (normalizeValue k v)"
proof (cases "(k = ''time'' \<or> k = ''time_custom'') \<and> \<not> js_nullish v \<and> v \<noteq> JStr ''''")
  case True
  then show ?thesis by (cases v) (auto simp: normalizeValue_def nn_def js_nullish_def)
next
  case False
  then show ?thesis by (auto simp: normalizeValue_def nn_def)
qed

lemma distinct_public: "distinct (map fst m) \<Longrightarrow> distinct (map fst (public_fields m))"
  by (simp add: public_fields_def distinct_map_filter)

lemma map_of_filter:
  "distinct (map fst m) \<Longrightarrow> map_of (filter (\<lambda>(k, v). P k v) m) k =
     (case map_of m k of None \<Rightarrow> None | Some v \<Rightarrow> if P k v then Some v else None)"
proof (induction m)
  case (Cons e m)
  obtain k' v' where e: "e = (k', v')" by (cases e)
  show ?case
  proof (cases "k' = k")
    case True
    with Cons.prems e have "map_of m k = None" by (simp add: map_of_eq_None_iff)
    with True e Cons show ?thesis by simp
  next
    case False
    with e Cons show ?thesis by simp
  qed
qed simp

lemma get_public:
  "distinct (map fst m) \<Longrightarrow> obj_get (public_fields m) k = (if List.member INTERNAL_FIELDS k then JUndefined else nn (obj_get m k))"
  by (simp add: public_fields_def obj_get_def map_of_filter nn_def split: option.split)

definition loaded :: "string \<Rightarrow> jsval \<Rightarrow> jsval \<Rightarrow> fields \<Rightarrow> fields" where
  "loaded u t c m = fold (\<lambda>(k, v) m. if k = ''conditional'' \<or> k = ''type'' then m else jsset k (normalizeValue k v) m) m
     [(''id'', JStr u), (''type'', t), (''stepConnector'', c)]"

lemma load_fold:
  "distinct (map fst b) \<Longrightarrow>
     distinct (map fst (fold (\<lambda>(k, v) m. if k = ''conditional'' \<or> k = ''type'' then m else jsset k (normalizeValue k v) m) m b))"
  "distinct (map fst m) \<Longrightarrow>
     map_of (fold (\<lambda>(k, v) m. if k = ''conditional'' \<or> k = ''type'' then m else jsset k (normalizeValue k v) m) m b) k =
       (if k = ''conditional'' \<or> k = ''type'' then map_of b k
        else case map_of m k of None \<Rightarrow> map_of b k | Some v \<Rightarrow> Some (normalizeValue k v))"
proof -
  show "distinct (map fst b) \<Longrightarrow>
     distinct (map fst (fold (\<lambda>(k, v) m. if k = ''conditional'' \<or> k = ''type'' then m else jsset k (normalizeValue k v) m) m b))"
    by (induction m arbitrary: b) (auto split: prod.split)
  show "distinct (map fst m) \<Longrightarrow>
     map_of (fold (\<lambda>(k, v) m. if k = ''conditional'' \<or> k = ''type'' then m else jsset k (normalizeValue k v) m) m b) k =
       (if k = ''conditional'' \<or> k = ''type'' then map_of b k
        else case map_of m k of None \<Rightarrow> map_of b k | Some v \<Rightarrow> Some (normalizeValue k v))"
  proof (induction m arbitrary: b)
    case (Cons e m)
    obtain k' v' where e: "e = (k', v')" by (cases e)
    with Cons.prems have "map_of m k' = None" by (simp add: map_of_eq_None_iff)
    with e Cons show ?case by (auto split: option.split)
  qed simp
qed

lemma distinct_loaded: "distinct (map fst (loaded u t c m))"
  unfolding loaded_def by (rule load_fold) simp

lemma get_loaded:
  assumes "distinct (map fst m)" and "map_of m ''stepConnector'' = None"
  shows "obj_get (loaded u t c m) k =
    (if k = ''type'' then t else if k = ''conditional'' then JUndefined else if k = ''stepConnector'' then c
     else if k = ''id'' \<and> map_of m ''id'' = None then JStr u
     else case map_of m k of None \<Rightarrow> JUndefined | Some v \<Rightarrow> normalizeValue k v)"
  using assms by (auto simp: loaded_def obj_get_def load_fold(2) split: option.split)

definition nv :: "fields \<Rightarrow> string \<Rightarrow> jsval" where
  "nv m k = nn (normalizeValue k (obj_get m k))"

lemma nv_idem: "obj_get o' k = nv m k \<Longrightarrow> nv o' k = nv m k"
  by (simp add: nv_def)

lemma nv_other: "k \<noteq> ''time'' \<Longrightarrow> k \<noteq> ''time_custom'' \<Longrightarrow> nv m k = nn (obj_get m k)"
  by (simp add: nv_def normalizeValue_def)

lemma loaded_nv:
  assumes "distinct (map fst m)" and "map_of m ''stepConnector'' = None"
    and "k \<noteq> ''type''" "k \<noteq> ''conditional''" "k \<noteq> ''stepConnector''" "k \<noteq> ''id''"
  shows "nn (obj_get (loaded u t c m) k) = nv m k"
proof -
  have absent: "nn (normalizeValue k JUndefined) = JUndefined" by (simp add: normalizeValue_def)
  show ?thesis
  proof (cases "map_of m k")
    case None
    then have "obj_get m k = JUndefined" by (simp add: obj_get_def)
    with None assms(3-) absent show ?thesis by (simp add: get_loaded [OF assms(1,2)] nv_def)
  next
    case (Some v)
    then have "obj_get m k = v" by (simp add: obj_get_def)
    with Some assms(3-) show ?thesis by (simp add: get_loaded [OF assms(1,2)] nv_def)
  qed
qed

text \<open>The fields a known step is saved with, before the adjustments of interactions.\<close>

definition ser_get :: "(real \<Rightarrow> string) \<Rightarrow> jsval \<Rightarrow> jsval \<Rightarrow> (string \<Rightarrow> jsval) \<Rightarrow> string \<Rightarrow> jsval" where
  "ser_get fs t c h k =
     (if List.member INTERNAL_FIELDS k then JUndefined
      else if k = ''conditional'' then (if truthy c then c else JUndefined)
      else if k = ''conditional_times_value'' \<and> js_nullish (h k) \<and>
          num_less (Fin 1) (to_number (to_primitive fs (h ''custom_times_value''))) = Some True then JStr ''>=''
      else if k = ''conditional_user_field'' \<and> t = JStr ''user_field'' \<and> js_nullish (h k) \<and>
          defaultOperatorForUserField (h ''user_field_key'') \<noteq> JNull
        then defaultOperatorForUserField (h ''user_field_key'')
      else h k)"

definition ser_fields :: "(real \<Rightarrow> string) \<Rightarrow> fields \<Rightarrow> fields" where
  "ser_fields fs m =
     (let o1 = public_fields m;
          o2 = (if truthy (obj_get m ''stepConnector'') then jsset ''conditional'' (obj_get m ''stepConnector'') o1 else o1);
          o3 = (if num_less (Fin 1) (to_number (to_primitive fs (obj_get o2 ''custom_times_value''))) = Some True \<and>
                   js_nullish (obj_get o2 ''conditional_times_value'')
                then jsset ''conditional_times_value'' (JStr ''>='') o2 else o2);
          backfill = defaultOperatorForUserField (obj_get o3 ''user_field_key'') in
      if obj_get m ''type'' = JStr ''user_field'' \<and> js_nullish (obj_get o3 ''conditional_user_field'') \<and> backfill \<noteq> JNull
      then jsset ''conditional_user_field'' backfill o3 else o3)"

lemma serializeStep_known:
  "serializeStep fs (KnownStep m) =
     (if obj_get m ''type'' = JStr ''interation'' then normalizeInteractionOnSerialize fs (ser_fields fs m)
      else Inr (ser_fields fs m))"
  by (simp add: serializeStep_def ser_fields_def Let_def)

lemma ser_fields_get:
  assumes "distinct (map fst m)" and "obj_get m ''conditional'' = JUndefined"
  shows "obj_get (ser_fields fs m) k = ser_get fs (obj_get m ''type'') (obj_get m ''stepConnector'') (\<lambda>k. nn (obj_get m k)) k"
    and "distinct (map fst (ser_fields fs m))"
proof -
  note gp = get_public [OF assms(1)]
  show "distinct (map fst (ser_fields fs m))"
    using distinct_public [OF assms(1)] by (simp add: ser_fields_def Let_def)
  show "obj_get (ser_fields fs m) k = ser_get fs (obj_get m ''type'') (obj_get m ''stepConnector'') (\<lambda>k. nn (obj_get m k)) k"
    using assms(2) by (auto simp: ser_fields_def Let_def gp ser_get_def INTERNAL_FIELDS_def)
qed

lemma ser_get_internal: "List.member INTERNAL_FIELDS k \<Longrightarrow> ser_get fs t c h k = JUndefined"
  by (simp add: ser_get_def)

lemma ser_get_conditional: "ser_get fs t c h ''conditional'' = (if truthy c then c else JUndefined)"
  by (simp add: ser_get_def INTERNAL_FIELDS_def)

lemma ser_get_hidden:
  "List.member (''conditional'' # INTERNAL_FIELDS) k \<Longrightarrow> ser_get fs t c h k =
     (if k = ''conditional'' \<and> truthy c then c else JUndefined)"
  by (cases "k = ''conditional''") (simp_all add: ser_get_internal ser_get_conditional)

lemma ser_get_idem:
  assumes "\<And>k. \<not> List.member (''conditional'' # INTERNAL_FIELDS) k \<Longrightarrow> h' k = h k \<or> js_nullish (h k) \<and> h' k = ser_get fs t c h k"
    and "h' ''custom_times_value'' = h ''custom_times_value''" "h' ''user_field_key'' = h ''user_field_key''"
    and "c' = (if truthy c then c else JUndefined)"
  shows "ser_get fs t c' h' k = ser_get fs t c h k"
proof (cases "List.member (''conditional'' # INTERNAL_FIELDS) k")
  case True
  then show ?thesis using assms(4) by (simp only: ser_get_hidden) auto
next
  case False
  have U: "ser_get fs t c' h' k = ser_get fs t c h k" if "h' k = h k"
    using that False assms(2,3)
    by (cases "k = ''conditional_times_value''"; cases "k = ''conditional_user_field''") (auto simp: ser_get_def)
  have "ser_get fs t c' h' k = ser_get fs t c h k" if "js_nullish (h k)" "h' k = ser_get fs t c h k"
    using that False assms(2,3)
    by (cases "k = ''conditional_times_value''"; cases "k = ''conditional_user_field''") (auto simp: ser_get_def)
  with U assms(1) [OF False] show ?thesis by blast
qed

lemma ser_get_cong:
  assumes "\<And>k. \<not> List.member (''conditional'' # INTERNAL_FIELDS) k \<Longrightarrow> h' k = h k"
  shows "ser_get fs t c h' k = ser_get fs t c h k"
proof (cases "List.member (''conditional'' # INTERNAL_FIELDS) k")
  case True
  then show ?thesis by (simp only: ser_get_hidden)
next
  case False
  have "h' ''custom_times_value'' = h ''custom_times_value''" "h' ''user_field_key'' = h ''user_field_key''"
    using assms by (simp_all add: INTERNAL_FIELDS_def)
  with assms [OF False] show ?thesis
    by (cases "k = ''conditional_times_value''"; cases "k = ''conditional_user_field''") (auto simp: ser_get_def)
qed

lemma ser_fields_no_connector: "distinct (map fst m) \<Longrightarrow> map_of (ser_fields fs m) ''stepConnector'' = None"
  by (simp add: ser_fields_def Let_def public_fields_def map_of_filter INTERNAL_FIELDS_def split: option.split)

definition tag_value :: "jsval \<Rightarrow> jsval" where
  "tag_value v = (case v of JArr vs \<Rightarrow> JArr (map normalizeTagEntry vs) | _ \<Rightarrow> v)"

lemma normalizeTagEntry_idem [simp]: "normalizeTagEntry (normalizeTagEntry e) = normalizeTagEntry e"
proof (cases "e = JNull \<or> \<not> is_object e")
  case False
  then show ?thesis by (simp add: normalizeTagEntry_def Let_def get_def)
qed (auto simp: normalizeTagEntry_def)

lemma tag_value_idem [simp]: "nn (tag_value (nn (tag_value v))) = nn (tag_value v)"
  by (cases v) (simp_all add: tag_value_def nn_def js_nullish_def o_def)

lemma tag_value_nn: "nn (tag_value (nn v)) = nn (tag_value v)"
  by (cases v) (simp_all add: tag_value_def nn_def js_nullish_def)

lemma tag_parse_get: "obj_get (normalizeTagOnParse m) k = (if k = ''tag_info'' then tag_value (obj_get m k) else obj_get m k)"
  by (auto simp: normalizeTagOnParse_def tag_value_def split: jsval.split)

lemma tag_parse_distinct: "distinct (map fst m) \<Longrightarrow> distinct (map fst (normalizeTagOnParse m))"
  by (auto simp: normalizeTagOnParse_def split: jsval.split)

definition plain_get :: "jsval \<Rightarrow> fields \<Rightarrow> string \<Rightarrow> jsval" where
  "plain_get t m k = (if k = ''type'' then t
     else if t = JStr ''tag'' \<and> k = ''tag_info'' then nn (tag_value (nv m k)) else nv m k)"

definition known_raw :: "jsval \<Rightarrow> fields \<Rightarrow> bool" where
  "known_raw t m \<longleftrightarrow> distinct (map fst m) \<and> map_of m ''stepConnector'' = None \<and> obj_get m ''type'' = t \<and>
     List.member (map JStr StepTypes) t"

lemma parse_known:
  assumes "known_raw t m"
  shows "parseRawStep fs u (JObj m) c =
    sumThen (if t = JStr ''interation'' then normalizeInteractionOnParse fs (loaded u t c m) else Inr (loaded u t c m))
      (\<lambda>p. Inr (KnownStep (if t = JStr ''tag'' then normalizeTagOnParse p else p)))"
proof -
  have "read_prop (JObj m) ''type'' = Inr t"
    using assms by (simp add: read_prop_def get_def known_raw_def obj_get_def js_nullish_def)
  with assms show ?thesis
    by (simp add: parseRawStep_def sumThen_def loaded_def Let_def known_raw_def)
qed

lemma known_type_str: "known_raw t m \<Longrightarrow> nn t = t \<and> (\<exists>s. t = JStr s)"
  by (auto simp: known_raw_def StepTypes_def)

lemma wire_plain:
  assumes "known_raw t m" and "t \<noteq> JStr ''interation''"
  shows "\<exists>o'. step_wire fs u c (JObj m) = Inr o' \<and> distinct (map fst o') \<and> map_of o' ''stepConnector'' = None \<and>
     obj_get o' = ser_get fs t c (plain_get t m)"
proof -
  define p where "p = (if t = JStr ''tag'' then normalizeTagOnParse (loaded u t c m) else loaded u t c m)"
  have m: "distinct (map fst m)" "map_of m ''stepConnector'' = None" using assms(1) by (auto simp: known_raw_def)
  note get = get_loaded [OF m]
  have p: "distinct (map fst p)" "obj_get p ''type'' = t" "obj_get p ''conditional'' = JUndefined"
      "obj_get p ''stepConnector'' = c"
    by (simp_all add: p_def distinct_loaded tag_parse_distinct tag_parse_get get)
  have "nn (obj_get p k) = plain_get t m k" if "\<not> List.member (''conditional'' # INTERNAL_FIELDS) k" for k
  proof -
    have k: "k \<noteq> ''conditional''" "k \<noteq> ''stepConnector''" "k \<noteq> ''id''" using that by (auto simp: INTERNAL_FIELDS_def)
    show ?thesis
    proof (cases "k = ''type''")
      case True
      then show ?thesis using known_type_str [OF assms(1)] p(2) by (simp add: plain_get_def)
    next
      case False
      note nv = loaded_nv [OF m False k, of u t c]
      show ?thesis
      proof (cases "t = JStr ''tag'' \<and> k = ''tag_info''")
        case True
        have "nn (tag_value (obj_get (loaded u t c m) k)) = nn (tag_value (nv m k))"
          by (metis nv tag_value_nn)
        with True show ?thesis by (simp add: p_def plain_get_def tag_parse_get)
      next
        case False
        with nv \<open>k \<noteq> ''type''\<close> show ?thesis by (auto simp: p_def plain_get_def tag_parse_get)
      qed
    qed
  qed
  then have "ser_get fs t c (\<lambda>k. nn (obj_get p k)) k = ser_get fs t c (plain_get t m) k" for k
    by (rule ser_get_cong)
  with ser_fields_get [OF p(1,3), of fs] p(2,4) ser_fields_no_connector [OF p(1)] assms(2)
  show ?thesis
    by (simp add: step_wire_def parse_known [OF assms(1)] sumThen_def serializeStep_known p_def [symmetric] ext)
qed

lemma ser_get_source:
  "ser_get fs t c h ''custom_times_value'' = h ''custom_times_value''"
  "ser_get fs t c h ''user_field_key'' = h ''user_field_key''"
  by (simp_all add: ser_get_def INTERNAL_FIELDS_def)

lemma default_operator: "defaultOperatorForUserField k = JNull \<or> (\<exists>s. defaultOperatorForUserField k = JStr s)"
  by (cases k) (simp_all add: defaultOperatorForUserField_def)

lemma ser_get_visible:
  assumes "\<not> List.member (''conditional'' # INTERNAL_FIELDS) k"
  shows "ser_get fs t c h k = h k \<or>
     js_nullish (h k) \<and> (k = ''conditional_times_value'' \<or> k = ''conditional_user_field'') \<and> (\<exists>s. ser_get fs t c h k = JStr s)"
  using assms default_operator [of "h ''user_field_key''"] unfolding ser_get_def by auto

text \<open>Saving again what was saved: if loading it finds the fields of the first time, or the strings
  that were filled in, the result is the same.\<close>

lemma ser_stable:
  assumes "obj_get o' = ser_get fs t c h" and "c' = (if truthy c then c else JUndefined)"
    and here: "\<And>k. obj_get o' k = h k \<Longrightarrow> h' k = h k"
    and filled: "\<And>k s. k = ''conditional_times_value'' \<or> k = ''conditional_user_field'' \<Longrightarrow>
      obj_get o' k = JStr s \<Longrightarrow> h' k = JStr s"
  shows "ser_get fs t c' h' = ser_get fs t c h"
proof
  fix k
  have sources: "obj_get o' k = h k" if "k = ''custom_times_value'' \<or> k = ''user_field_key''" for k
    using that by (elim disjE) (simp_all only: assms(1) ser_get_source)
  show "ser_get fs t c' h' k = ser_get fs t c h k"
  proof (rule ser_get_idem [OF _ _ _ assms(2)])
    fix k assume "\<not> List.member (''conditional'' # INTERNAL_FIELDS) k"
    from ser_get_visible [OF this, of fs t c h]
    show "h' k = h k \<or> js_nullish (h k) \<and> h' k = ser_get fs t c h k"
    proof
      assume "ser_get fs t c h k = h k"
      then show ?thesis using here assms(1) by simp
    next
      assume *: "js_nullish (h k) \<and> (k = ''conditional_times_value'' \<or> k = ''conditional_user_field'') \<and>
        (\<exists>s. ser_get fs t c h k = JStr s)"
      then obtain s where s: "ser_get fs t c h k = JStr s" by blast
      then have "obj_get o' k = JStr s" by (simp only: assms(1))
      with filled [OF conjunct1 [OF conjunct2 [OF *]]] * s show ?thesis by simp
    qed
  qed (simp_all only: here sources simp_thms)
qed

lemma plain_stable:
  assumes "obj_get o' = ser_get fs t c (plain_get t m)" and "c' = (if truthy c then c else JUndefined)"
  shows "ser_get fs t c' (plain_get t o') = ser_get fs t c (plain_get t m)"
proof (rule ser_stable [OF assms])
  fix k s
  assume "k = ''conditional_times_value'' \<or> k = ''conditional_user_field''" and "obj_get o' k = JStr s"
  then show "plain_get t o' k = JStr s" by (elim disjE; simp add: plain_get_def nv_other)
next
  fix k assume saved: "obj_get o' k = plain_get t m k"
  show "plain_get t o' k = plain_get t m k"
  proof (cases "k = ''type''")
    case True
    then show ?thesis by (simp add: plain_get_def)
  next
    case False
    show ?thesis
    proof (cases "t = JStr ''tag'' \<and> k = ''tag_info''")
      case True
      with saved have "obj_get o' k = nn (tag_value (nv m k))" by (simp add: plain_get_def)
      moreover have "nv o' k = nn (obj_get o' k)" using True by (simp add: nv_other)
      ultimately show ?thesis using True by (simp add: plain_get_def)
    next
      case False
      with \<open>k \<noteq> ''type''\<close> saved have "obj_get o' k = nv m k" by (auto simp: plain_get_def)
      with False nv_idem [OF this] show ?thesis by (auto simp: plain_get_def)
    qed
  qed
qed

subsection \<open>Interactions\<close>

text \<open>The tables: no action is named like a database field, and every field has an action of either
  polarity.\<close>

definition table_ok :: "action_option list \<Rightarrow> bool" where
  "table_ok as \<longleftrightarrow> list_all (\<lambda>a. ao_value a \<noteq> [] \<and> ao_dbField a \<noteq> [] \<and>
     list_all (\<lambda>b. ao_value b \<noteq> ao_dbField a \<and> (ao_value b = ao_value a \<longrightarrow> ao_dbField b = ao_dbField a)) as \<and>
     list_ex (\<lambda>b. ao_dbField b = ao_dbField a \<and> ao_isNegation b) as \<and>
     list_ex (\<lambda>b. ao_dbField b = ao_dbField a \<and> \<not> ao_isNegation b) as) as"

lemma table_okD:
  assumes "table_ok as" and "a \<in> set as"
  shows "ao_value a \<noteq> []" and "ao_dbField a \<noteq> []"
    and "b \<in> set as \<Longrightarrow> ao_value b \<noteq> ao_dbField a"
    and "b \<in> set as \<Longrightarrow> ao_value b = ao_value a \<Longrightarrow> ao_dbField b = ao_dbField a"
    and "\<exists>b \<in> set as. ao_dbField b = ao_dbField a \<and> ao_isNegation b = n"
proof -
  have "\<forall>a \<in> set as. ao_value a \<noteq> [] \<and> ao_dbField a \<noteq> [] \<and>
     (\<forall>b \<in> set as. ao_value b \<noteq> ao_dbField a \<and> (ao_value b = ao_value a \<longrightarrow> ao_dbField b = ao_dbField a)) \<and>
     (\<exists>b \<in> set as. ao_dbField b = ao_dbField a \<and> ao_isNegation b) \<and>
     (\<exists>b \<in> set as. ao_dbField b = ao_dbField a \<and> \<not> ao_isNegation b)"
    using assms(1) by (simp only: table_ok_def list_all_iff list_ex_iff)
  note a = bspec [OF this assms(2)]
  from a show "ao_value a \<noteq> []" "ao_dbField a \<noteq> []" by blast+
  show "b \<in> set as \<Longrightarrow> ao_value b \<noteq> ao_dbField a" using a by blast
  show "b \<in> set as \<Longrightarrow> ao_value b = ao_value a \<Longrightarrow> ao_dbField b = ao_dbField a" using a by blast
  show "\<exists>b \<in> set as. ao_dbField b = ao_dbField a \<and> ao_isNegation b = n" using a by (cases n) blast+
qed

lemma tables_ok: "actions_of channel = Inr as \<Longrightarrow> table_ok as"
proof -
  have "list_all table_ok (map snd ACTIONS_BY_CHANNEL)" by code_simp
  moreover have "table_ok []" by (simp add: table_ok_def)
  moreover assume "actions_of channel = Inr as"
  ultimately show ?thesis
    by (cases "map_of ACTIONS_BY_CHANNEL channel")
      (force simp: actions_of_def list_all_iff dest: map_of_SomeD split: if_splits)+
qed

definition db_event :: "action_option list \<Rightarrow> jsval \<Rightarrow> jsval" where
  "db_event as e = (case find (\<lambda>a. JStr (ao_value a) = e) as of
     Some a \<Rightarrow> (case ao_dbField a of [] \<Rightarrow> e | d \<Rightarrow> JStr d) | None \<Rightarrow> e)"

definition saved_event :: "action_option list \<Rightarrow> bool \<Rightarrow> jsval \<Rightarrow> jsval" where
  "saved_event as n e = db_event as (action_for as n e)"

lemma action_for_field:
  assumes "table_ok as" and "a \<in> set as"
  obtains b where "b \<in> set as" "action_for as n (JStr (ao_dbField a)) = JStr (ao_value b)" "ao_dbField b = ao_dbField a"
proof -
  have "\<not> list_ex (\<lambda>b. JStr (ao_value b) = JStr (ao_dbField a)) as"
    using table_okD(3) [OF assms] by (auto simp: list_ex_iff)
  moreover obtain b where "find (\<lambda>b. JStr (ao_dbField b) = JStr (ao_dbField a) \<and> ao_isNegation b = n) as = Some b"
  proof (cases "find (\<lambda>b. JStr (ao_dbField b) = JStr (ao_dbField a) \<and> ao_isNegation b = n) as")
    case None
    with table_okD(5) [OF assms, of n] show ?thesis by (auto simp: find_None_iff)
  qed
  moreover from this have "b \<in> set as" "ao_dbField b = ao_dbField a" by (auto simp: find_Some_iff)
  ultimately show ?thesis using that by (simp add: action_for_def)
qed

lemma db_event_value:
  assumes "table_ok as" and "a \<in> set as"
  shows "db_event as (JStr (ao_value a)) = JStr (ao_dbField a)"
proof -
  obtain b where "find (\<lambda>b. JStr (ao_value b) = JStr (ao_value a)) as = Some b"
    using assms(2) by (cases "find (\<lambda>b. JStr (ao_value b) = JStr (ao_value a)) as") (auto simp: find_None_iff)
  moreover from this have "b \<in> set as" "ao_value b = ao_value a" by (auto simp: find_Some_iff)
  moreover from this have "ao_dbField b = ao_dbField a" "ao_dbField a \<noteq> []"
    using table_okD(2,4) [OF assms] by blast+
  ultimately show ?thesis by (simp add: db_event_def split: list.split)
qed

text \<open>The stored event is a fixed point.\<close>

lemma saved_event_cases:
  assumes "table_ok as"
  shows "(\<exists>a \<in> set as. saved_event as n e = JStr (ao_dbField a)) \<or>
    saved_event as n e = e \<and> action_for as n e = e \<and> db_event as e = e"
proof (cases "list_ex (\<lambda>a. JStr (ao_value a) = e) as")
  case True
  then obtain a where "a \<in> set as" "e = JStr (ao_value a)" by (auto simp: list_ex_iff)
  with True db_event_value [OF assms, of a] show ?thesis by (auto simp: saved_event_def action_for_def)
next
  case False
  then have e: "db_event as e = e" by (auto simp: db_event_def find_Some_iff list_ex_iff split: option.split)
  show ?thesis
  proof (cases "find (\<lambda>a. JStr (ao_dbField a) = e \<and> ao_isNegation a = n) as")
    case None
    with False e show ?thesis by (simp add: saved_event_def action_for_def)
  next
    case (Some a)
    then have "a \<in> set as" by (auto simp: find_Some_iff)
    with Some False db_event_value [OF assms, of a] show ?thesis by (auto simp: saved_event_def action_for_def)
  qed
qed

lemma saved_event_idem:
  assumes "table_ok as"
  shows "saved_event as n (saved_event as n e) = saved_event as n e"
  using saved_event_cases [OF assms, of n e]
proof
  assume "\<exists>a \<in> set as. saved_event as n e = JStr (ao_dbField a)"
  then obtain a where a: "a \<in> set as" "saved_event as n e = JStr (ao_dbField a)" by blast
  from action_for_field [OF assms a(1)] obtain b
    where "b \<in> set as" "action_for as n (JStr (ao_dbField a)) = JStr (ao_value b)" "ao_dbField b = ao_dbField a" by blast
  with a(2) db_event_value [OF assms] show ?thesis by (simp add: saved_event_def)
qed (simp add: saved_event_def)

lemma event_truthy:
  assumes "table_ok as" and "truthy e"
  shows "truthy (action_for as n e)" "truthy (saved_event as n e)"
proof -
  show "truthy (action_for as n e)"
  proof (cases "find (\<lambda>a. JStr (ao_dbField a) = e \<and> ao_isNegation a = n) as")
    case None
    with assms(2) show ?thesis by (simp add: action_for_def)
  next
    case (Some a)
    then have "a \<in> set as" by (auto simp: find_Some_iff)
    with Some table_okD(1) [OF assms(1)] assms(2) show ?thesis by (simp add: action_for_def)
  qed
  show "truthy (saved_event as n e)"
    using saved_event_cases [OF assms(1), of n e] table_okD(2) [OF assms(1)] assms(2) by auto
qed

text \<open>What is stored of an interaction, field by field.\<close>

definition channel_of :: "fields \<Rightarrow> jsval" where
  "channel_of m = (if truthy (nv m ''event_type'') then nv m ''event_type'' else JStr ''email'')"

definition negated :: "fields \<Rightarrow> bool" where
  "negated m \<longleftrightarrow> nv m ''conditional_interation'' = JStr ''not''"

definition time_of :: "fields \<Rightarrow> jsval" where
  "time_of m = (if nv m ''time'' = JStr ''custom'' \<and> \<not> js_nullish (nv m ''time_custom'')
     then nv m ''time_custom'' else nv m ''time'')"

definition inter_get :: "action_option list \<Rightarrow> fields \<Rightarrow> string \<Rightarrow> jsval" where
  "inter_get as m k =
     (if k = ''type'' then JStr ''interation'' else if k = ''event_type'' then channel_of m
      else if k = ''event'' then (if truthy (nv m k) then saved_event as (negated m) (nv m k) else nv m k)
      else if k = ''time'' then time_of m else if k = ''time_custom'' then JUndefined else nv m k)"

lemma custom_period_get:
  "obj_get (custom_period m) k =
     (if \<exists>n. obj_get m ''time'' = JNum n \<and> n \<notin> Fin ` set PRESET_TIME_VALUES
      then if k = ''time'' then JStr ''custom'' else if k = ''time_custom'' then obj_get m ''time'' else obj_get m k
      else obj_get m k)"
  by (auto simp: custom_period_def split: jsval.split)

lemma custom_period_distinct: "distinct (map fst m) \<Longrightarrow> distinct (map fst (custom_period m))"
  by (auto simp: custom_period_def split: jsval.split)

text \<open>The step as it is loaded, before the period.\<close>

definition with_event :: "action_option list \<Rightarrow> fields \<Rightarrow> fields" where
  "with_event as m0 =
     (let m = (if truthy (obj_get m0 ''event_type'') then m0 else jsset ''event_type'' (JStr ''email'') m0);
          e = obj_get m ''event'';
          e' = action_for as (obj_get m ''conditional_interation'' = JStr ''not'') e in
      if truthy e \<and> e' \<noteq> e then jsset ''event'' e' m else m)"

lemma with_event_get:
  "obj_get (with_event as m0) k =
     (if k = ''event_type'' \<and> \<not> truthy (obj_get m0 k) then JStr ''email''
      else if k = ''event'' \<and> truthy (obj_get m0 k)
        then action_for as (obj_get m0 ''conditional_interation'' = JStr ''not'') (obj_get m0 k)
      else obj_get m0 k)"
  by (cases "k = ''event_type''"; cases "k = ''event''") (auto simp: with_event_def Let_def)

lemma with_event_distinct: "distinct (map fst m) \<Longrightarrow> distinct (map fst (with_event as m))"
  by (simp add: with_event_def Let_def)

lemma parse_interaction:
  "normalizeInteractionOnParse fs m0 =
     (if truthy (obj_get m0 ''event'')
      then sumThen (actions_of (to_str fs (obj_get (with_event [] m0) ''event_type'')))
        (\<lambda>as. Inr (custom_period (with_event as m0)))
      else Inr (custom_period (with_event [] m0)))"
  by (auto simp: normalizeInteractionOnParse_def with_event_def sumThen_def Let_def action_for_def split: sum.split)

lemma nn_truthy: "truthy v \<Longrightarrow> nn v = v"
  by (cases v) (simp_all add: nn_def js_nullish_def)

lemma ser_get_point:
  "h' k = h k \<Longrightarrow> h' ''custom_times_value'' = h ''custom_times_value'' \<Longrightarrow> h' ''user_field_key'' = h ''user_field_key'' \<Longrightarrow>
   ser_get fs t c h' k = ser_get fs t c h k"
  by (cases "k = ''conditional_times_value''"; cases "k = ''conditional_user_field''") (simp_all add: ser_get_def)

lemma ser_get_plain_keys:
  "ser_get fs t c h ''type'' = h ''type''" "ser_get fs t c h ''event'' = h ''event''"
  "ser_get fs t c h ''event_type'' = h ''event_type''" "ser_get fs t c h ''time'' = h ''time''"
  "ser_get fs t c h ''time_custom'' = h ''time_custom''"
  "ser_get fs t c h ''conditional_interation'' = h ''conditional_interation''"
  by (simp_all add: ser_get_def INTERNAL_FIELDS_def)

text \<open>The fields of a loaded interaction.\<close>

definition load_get :: "action_option list \<Rightarrow> fields \<Rightarrow> string \<Rightarrow> jsval" where
  "load_get as m k =
     (let custom = (\<exists>n. nv m ''time'' = JNum n \<and> n \<notin> Fin ` set PRESET_TIME_VALUES) in
      if k = ''type'' then JStr ''interation'' else if k = ''event_type'' then channel_of m
      else if k = ''event'' then (if truthy (nv m k) then action_for as (negated m) (nv m k) else nv m k)
      else if k = ''time'' then (if custom then JStr ''custom'' else nv m k)
      else if k = ''time_custom'' then (if custom then nv m ''time'' else nv m k) else nv m k)"

lemma load_interaction_get:
  assumes "known_raw (JStr ''interation'') m" and "\<not> List.member (''conditional'' # INTERNAL_FIELDS) k"
    and "truthy (nv m ''event'') \<Longrightarrow> table_ok as"
  shows "nn (obj_get (custom_period (with_event as (loaded u (JStr ''interation'') c m))) k) = load_get as m k"
proof -
  let ?l = "loaded u (JStr ''interation'') c m"
  have m: "distinct (map fst m)" "map_of m ''stepConnector'' = None" using assms(1) by (auto simp: known_raw_def)
  note l = loaded_nv [OF m, of _ u "JStr ''interation''" c]
  have k: "k \<noteq> ''conditional''" "k \<noteq> ''stepConnector''" "k \<noteq> ''id''" using assms(2) by (auto simp: INTERNAL_FIELDS_def)
  have time: "nn (obj_get ?l ''time'') = nv m ''time''" "nn (obj_get ?l ''time_custom'') = nv m ''time_custom''"
    "nn (obj_get ?l ''event'') = nv m ''event''" "nn (obj_get ?l ''event_type'') = nv m ''event_type''"
    "nn (obj_get ?l ''conditional_interation'') = nv m ''conditional_interation''"
    by (rule l; simp)+
  have T: "obj_get ?l ''time'' = JNum n \<longleftrightarrow> nv m ''time'' = JNum n" for n by (simp flip: time(1))
  have E: "truthy (obj_get ?l ''event'') \<longleftrightarrow> truthy (nv m ''event'')"
    "truthy (obj_get ?l ''event_type'') \<longleftrightarrow> truthy (nv m ''event_type'')" by (simp_all flip: time(3,4))
  have N: "(obj_get ?l ''conditional_interation'' = JStr ''not'') = negated m"
    by (simp add: negated_def flip: time(5))
  consider "k = ''type''" | "k = ''event_type''" | "k = ''event''" | "k = ''time''" | "k = ''time_custom''"
    | "k \<notin> {''type'', ''event_type'', ''event'', ''time'', ''time_custom''}" by blast
  then show ?thesis
  proof cases
    case 1
    then show ?thesis by (simp add: custom_period_get with_event_get load_get_def get_loaded [OF m])
  next
    case 2
    then show ?thesis by (auto simp: custom_period_get with_event_get load_get_def channel_of_def E time)
  next
    case 3
    then show ?thesis
      using nn_truthy [of "obj_get ?l ''event''"] time(3) event_truthy(1) [OF assms(3)]
      by (auto simp: custom_period_get with_event_get load_get_def E N nn_truthy)
  next
    case 4
    then show ?thesis by (auto simp: custom_period_get with_event_get load_get_def T time)
  next
    case 5
    then show ?thesis by (auto simp: custom_period_get with_event_get load_get_def T time)
  next
    case 6
    then show ?thesis using l [OF _ k] by (simp add: custom_period_get with_event_get load_get_def)
  qed
qed

lemma serialize_interaction:
  assumes "distinct (map fst q)" and "truthy (obj_get q ''event_type'')" and "map_of q ''stepConnector'' = None"
    and "truthy (obj_get q ''event'') \<Longrightarrow> actions_of (to_str fs (obj_get q ''event_type'')) = Inr as"
  shows "\<exists>o'. normalizeInteractionOnSerialize fs q = Inr o' \<and> distinct (map fst o') \<and> map_of o' ''stepConnector'' = None \<and>
    (\<forall>k. obj_get o' k =
      (if k = ''time_custom'' then JUndefined
       else if k = ''time'' \<and> obj_get q k = JStr ''custom'' \<and> \<not> js_nullish (obj_get q ''time_custom'') then obj_get q ''time_custom''
       else if k = ''event'' \<and> truthy (obj_get q k) then db_event as (obj_get q k) else obj_get q k))"
proof -
  define d where "d = (if truthy (obj_get q ''event'')
      then map_option ao_dbField (find (\<lambda>a. JStr (ao_value a) = obj_get q ''event'') as) else None)"
  define q1 where "q1 = (case d of Some (c # cs) \<Rightarrow> jsset ''event'' (JStr (c # cs)) q | _ \<Rightarrow> q)"
  have q1: "distinct (map fst q1)" "map_of q1 ''stepConnector'' = None"
    "obj_get q1 k = (if k = ''event'' \<and> truthy (obj_get q k) then db_event as (obj_get q k) else obj_get q k)" for k
    using assms(1,3) by (auto simp: q1_def d_def db_event_def split: option.split list.split)
  have "normalizeInteractionOnSerialize fs q = Inr (AList.delete ''time_custom''
       (if obj_get q1 ''time'' = JStr ''custom'' \<and> \<not> js_nullish (obj_get q1 ''time_custom'')
        then jsset ''time'' (obj_get q1 ''time_custom'') q1 else q1))"
    using assms(2,4) by (simp add: normalizeInteractionOnSerialize_def getDbFieldForAction_def sumThen_def q1_def d_def)
  with q1 show ?thesis
    by (cases "obj_get q ''time'' = JStr ''custom'' \<and> \<not> js_nullish (obj_get q ''time_custom'')")
      (auto simp: distinct_delete delete_conv)
qed

definition channel_actions :: "(real \<Rightarrow> string) \<Rightarrow> fields \<Rightarrow> string + action_option list" where
  "channel_actions fs m = (if truthy (nv m ''event'') then actions_of (to_str fs (channel_of m)) else Inr [])"

lemma channel_truthy: "truthy (channel_of m)"
  by (simp add: channel_of_def)

lemma channel_actions_ok: "channel_actions fs m = Inr as \<Longrightarrow> table_ok as"
  by (auto simp: channel_actions_def table_ok_def [of "[]"] dest: tables_ok split: if_splits)

lemma parse_loaded:
  assumes "distinct (map fst m)" and "map_of m ''stepConnector'' = None"
  shows "normalizeInteractionOnParse fs (loaded u (JStr ''interation'') c m) =
     sumThen (channel_actions fs m) (\<lambda>as. Inr (custom_period (with_event as (loaded u (JStr ''interation'') c m))))"
proof -
  define l where "l = loaded u (JStr ''interation'') c m"
  have l: "nn (obj_get l ''event'') = nv m ''event''" "nn (obj_get l ''event_type'') = nv m ''event_type''"
    unfolding l_def by (rule loaded_nv [OF assms]; simp)+
  have E: "truthy (obj_get l ''event'') \<longleftrightarrow> truthy (nv m ''event'')" by (simp flip: l(1))
  have ch: "obj_get (with_event as' l) ''event_type'' = channel_of m" for as'
  proof (cases "truthy (obj_get l ''event_type'')")
    case True
    with nn_truthy [OF True] l(2) show ?thesis by (simp add: with_event_get channel_of_def)
  next
    case False
    then have "\<not> truthy (nv m ''event_type'')" by (simp flip: l(2))
    with False show ?thesis by (simp add: with_event_get channel_of_def)
  qed
  show ?thesis
    by (simp add: l_def [symmetric] parse_interaction E ch channel_actions_def sumThen_def)
qed

lemma wire_interaction:
  assumes "known_raw (JStr ''interation'') m" and "channel_actions fs m = Inr as"
  shows "\<exists>o'. step_wire fs u c (JObj m) = Inr o' \<and> distinct (map fst o') \<and> map_of o' ''stepConnector'' = None \<and>
     obj_get o' = ser_get fs (JStr ''interation'') c (inter_get as m)"
proof -
  let ?t = "JStr ''interation''"
  define l where "l = loaded u ?t c m"
  define p where "p = custom_period (with_event as l)"
  have m: "distinct (map fst m)" "map_of m ''stepConnector'' = None" using assms(1) by (auto simp: known_raw_def)
  note ok = channel_actions_ok [OF assms(2)]
  have parsed: "normalizeInteractionOnParse fs l = Inr p"
    using assms(2) parse_loaded [OF m] by (simp add: l_def p_def sumThen_def)
  have p: "distinct (map fst p)" "obj_get p ''type'' = ?t" "obj_get p ''conditional'' = JUndefined"
      "obj_get p ''stepConnector'' = c"
    by (simp_all add: p_def l_def custom_period_distinct with_event_distinct distinct_loaded custom_period_get
        with_event_get get_loaded [OF m])
  define q where "q = ser_fields fs p"
  have load: "nn (obj_get p k) = load_get as m k" if "\<not> List.member (''conditional'' # INTERNAL_FIELDS) k" for k
    unfolding p_def l_def by (rule load_interaction_get [OF assms(1) that ok])
  have q: "obj_get q k = ser_get fs ?t c (load_get as m) k" for k
  proof -
    have "ser_get fs ?t c (\<lambda>k. nn (obj_get p k)) k = ser_get fs ?t c (load_get as m) k"
      by (rule ser_get_cong) (rule load)
    then show ?thesis using ser_fields_get(1) [OF p(1,3), of fs k] p(2,4) by (simp add: q_def)
  qed
  have "truthy (obj_get q ''event_type'')"
    by (simp add: q ser_get_plain_keys load_get_def channel_truthy Let_def)
  moreover have "truthy (obj_get q ''event'') \<Longrightarrow> actions_of (to_str fs (obj_get q ''event_type'')) = Inr as"
    using assms(2) by (auto simp: q ser_get_plain_keys load_get_def Let_def channel_actions_def split: if_splits)
  moreover have "distinct (map fst q)" "map_of q ''stepConnector'' = None"
    using ser_fields_get(2) [OF p(1,3)] ser_fields_no_connector [OF p(1)] by (simp_all add: q_def)
  ultimately obtain o' where o': "normalizeInteractionOnSerialize fs q = Inr o'" "distinct (map fst o')"
      "map_of o' ''stepConnector'' = None"
      "\<And>k. obj_get o' k =
      (if k = ''time_custom'' then JUndefined
       else if k = ''time'' \<and> obj_get q k = JStr ''custom'' \<and> \<not> js_nullish (obj_get q ''time_custom'') then obj_get q ''time_custom''
       else if k = ''event'' \<and> truthy (obj_get q k) then db_event as (obj_get q k) else obj_get q k)"
    using serialize_interaction [of q fs as] by blast
  have "obj_get o' k = ser_get fs ?t c (inter_get as m) k" for k
  proof (cases "k \<in> {''time_custom'', ''time'', ''event''}")
    case True
    then show ?thesis
      by (elim insertE; simp add: o'(4) q ser_get_plain_keys load_get_def inter_get_def Let_def time_of_def
          saved_event_def event_truthy [OF ok]) auto
  next
    case False
    then have "obj_get o' k = ser_get fs ?t c (load_get as m) k" by (simp add: o'(4) q)
    also have "\<dots> = ser_get fs ?t c (inter_get as m) k"
      using False by (intro ser_get_point) (auto simp: load_get_def inter_get_def Let_def)
    finally show ?thesis .
  qed
  with o' parsed p(2) show ?thesis
    by (simp add: step_wire_def parse_known [OF assms(1)] sumThen_def serializeStep_known l_def [symmetric]
        q_def [symmetric] ext)
qed

lemma time_normal: "normalizeValue ''time_custom'' v = normalizeValue ''time'' v"
  by (simp add: normalizeValue_def)

lemma inter_stable:
  assumes "channel_actions fs m = Inr as" and "obj_get o' = ser_get fs (JStr ''interation'') c (inter_get as m)"
    and "c' = (if truthy c then c else JUndefined)"
  shows "channel_actions fs o' = Inr as"
    and "ser_get fs (JStr ''interation'') c' (inter_get as o') = ser_get fs (JStr ''interation'') c (inter_get as m)"
proof -
  let ?t = "JStr ''interation''"
  note ok = channel_actions_ok [OF assms(1)]
  have saved: "obj_get o' k = inter_get as m k"
    if "k \<in> {''event'', ''event_type'', ''time'', ''time_custom'', ''conditional_interation''}" for k
    using that by (elim insertE; simp add: assms(2) ser_get_plain_keys)
  have type: "nv o' ''event_type'' = channel_of m"
    using saved [of "''event_type''"] nn_truthy [OF channel_truthy] by (simp add: nv_other inter_get_def)
  then have channel: "channel_of o' = channel_of m" by (simp add: channel_of_def [of o'] channel_truthy)
  have neg: "negated o' = negated m"
    using saved [of "''conditional_interation''"] by (simp add: negated_def nv_other inter_get_def)
  have event: "nv o' ''event'' = (if truthy (nv m ''event'') then saved_event as (negated m) (nv m ''event'') else nv m ''event'')"
    using saved [of "''event''"] nn_truthy [OF event_truthy(2) [OF ok]] by (simp add: nv_other inter_get_def)
  then have truthy_event: "truthy (nv o' ''event'') = truthy (nv m ''event'')"
    using event_truthy(2) [OF ok] by simp
  with assms(1) channel show "channel_actions fs o' = Inr as" by (simp only: channel_actions_def)
  have time: "nv o' ''time'' = time_of m" "nv o' ''time_custom'' = JUndefined"
    using saved [of "''time''"] saved [of "''time_custom''"]
    by (simp_all add: nv_def inter_get_def time_of_def time_normal, simp add: normalizeValue_def)
  show "ser_get fs ?t c' (inter_get as o') = ser_get fs ?t c (inter_get as m)"
  proof (rule ser_stable [OF assms(2,3)])
    fix k s
    assume "k = ''conditional_times_value'' \<or> k = ''conditional_user_field''" and "obj_get o' k = JStr s"
    then show "inter_get as o' k = JStr s" by (elim disjE; simp add: inter_get_def nv_other)
  next
    fix k assume that: "obj_get o' k = inter_get as m k"
    show "inter_get as o' k = inter_get as m k"
    proof (cases "k \<in> {''type'', ''event_type'', ''event'', ''time'', ''time_custom''}")
      case True
      then show ?thesis
        by (elim insertE; simp add: inter_get_def channel truthy_event neg event saved_event_idem [OF ok]
            time_of_def [of o'] time)
    next
      case False
      with that have "obj_get o' k = nv m k" by (simp add: inter_get_def)
      with False nv_idem [OF this] show ?thesis by (simp add: inter_get_def)
    qed
  qed
qed

subsection \<open>Entries, cards, segments\<close>

definition entry_ok :: "jsval \<Rightarrow> bool" where
  "entry_ok e = (case e of JObj m \<Rightarrow> distinct (map fst m) \<and> map_of m ''stepConnector'' = None | _ \<Rightarrow> False)"

definition connector_at :: "nat \<Rightarrow> jsval \<Rightarrow> jsval" where
  "connector_at j e = (if j > 0 then get e ''conditional'' else JUndefined)"

lemma get_JObj [simp]: "get (JObj m) k = obj_get m k"
  by (simp add: get_def obj_get_def)

lemma read_type: "read_prop (JObj m) k = Inr (obj_get m k)"
  by (simp add: read_prop_def js_nullish_def)

lemma interaction_actions:
  assumes "known_raw (JStr ''interation'') m" and "step_wire fs u c (JObj m) = Inr o'"
  obtains as where "channel_actions fs m = Inr as"
proof -
  have "distinct (map fst m)" "map_of m ''stepConnector'' = None" using assms(1) by (simp_all add: known_raw_def)
  from parse_loaded [OF this, of fs u c] assms(2) show ?thesis
    using that by (cases "channel_actions fs m") (simp_all add: step_wire_def parse_known [OF assms(1)] sumThen_def)
qed

lemma step_stable:
  assumes "entry_ok (JObj m)" and "step_wire fs u (connector_at j (JObj m)) (JObj m) = Inr o'"
  shows "entry_ok (JObj o') \<and> obj_get o' ''type'' = obj_get m ''type'' \<and>
    (\<exists>o2. step_wire fs u2 (connector_at j (JObj o')) (JObj o') = Inr o2 \<and> agree o' o2)"
proof (cases "List.member (map JStr StepTypes) (obj_get m ''type'')")
  case False
  define c where "c = connector_at j (JObj m)"
  have unknown: "step_wire fs u c (JObj m) = Inr (if truthy c then jsset ''conditional'' c m else m)"
    if "\<not> List.member (map JStr StepTypes) (obj_get m ''type'')" for u c m
    using that by (simp add: step_wire_def parseRawStep_def read_type sumThen_def serializeStep_def)
  have o': "o' = (if truthy c then jsset ''conditional'' c m else m)"
    using unknown [OF False, of u c] assms(2) by (simp add: c_def)
  have "connector_at j (JObj o') = c" by (auto simp: o' c_def connector_at_def)
  moreover have "obj_get o' ''type'' = obj_get m ''type''" by (simp add: o')
  moreover have "agree o' (if truthy c then jsset ''conditional'' c o' else o')"
    by (auto simp: agree_def o')
  ultimately show ?thesis
    using unknown [of o' u2 c] False assms(1) by (auto simp: o' entry_ok_def)
next
  case True
  define t where "t = obj_get m ''type''"
  define c where "c = connector_at j (JObj m)"
  have known: "known_raw t m" using True assms(1) by (simp add: known_raw_def t_def entry_ok_def)
  have again: "entry_ok (JObj o') \<and> obj_get o' ''type'' = t \<and> known_raw t o' \<and>
      connector_at j (JObj o') = (if truthy c then c else JUndefined)"
    if "distinct (map fst o')" "map_of o' ''stepConnector'' = None" "obj_get o' = ser_get fs t c h" "h ''type'' = t" for h
    using that True by (auto simp: entry_ok_def known_raw_def ser_get_plain_keys connector_at_def c_def
        ser_get_conditional t_def)
  show ?thesis
  proof (cases "t = JStr ''interation''")
    case False
    from wire_plain [OF known False, of fs u c] assms(2)
    have o': "distinct (map fst o')" "map_of o' ''stepConnector'' = None" "obj_get o' = ser_get fs t c (plain_get t m)"
      by (auto simp: c_def)
    note a = again [OF o'] 
    have a: "entry_ok (JObj o')" "obj_get o' ''type'' = t" "known_raw t o'"
      "connector_at j (JObj o') = (if truthy c then c else JUndefined)"
      using a by (simp_all add: plain_get_def)
    from wire_plain [OF a(3) False, of fs u2 "connector_at j (JObj o')"] plain_stable [OF o'(3) a(4)] o'(3)
    show ?thesis using a(1,2) by (auto simp: agree_def t_def)
  next
    case True
    with known have known': "known_raw (JStr ''interation'') m" by simp
    from interaction_actions [OF known' assms(2)] obtain as where as: "channel_actions fs m = Inr as" .
    from wire_interaction [OF known' as, of u c] assms(2) True
    have o': "distinct (map fst o')" "map_of o' ''stepConnector'' = None" "obj_get o' = ser_get fs t c (inter_get as m)"
      by (auto simp: c_def)
    note a = again [OF o']
    have a: "entry_ok (JObj o')" "obj_get o' ''type'' = t" "known_raw (JStr ''interation'') o'"
      "connector_at j (JObj o') = (if truthy c then c else JUndefined)"
      using a True by (simp_all add: inter_get_def)
    note stable = inter_stable [OF as o'(3) [unfolded True] a(4)]
    from wire_interaction [OF a(3) stable(1), of u2 "connector_at j (JObj o')"] stable(2) o'(3)
    show ?thesis using a(1,2) True by (auto simp: agree_def t_def)
  qed
qed

lemma agree_refl [simp]: "agree a a"
  by (simp add: agree_def)

text \<open>The entries of a card, from its first index on.\<close>

definition entries_wire :: "(real \<Rightarrow> string) \<Rightarrow> (nat \<Rightarrow> string) \<Rightarrow> nat \<Rightarrow> jsval list \<Rightarrow> string + fields list" where
  "entries_wire fs u j es = sumThen (parse_entries fs u j es) (collect (serializeStep fs))"

lemma entries_wire_simps:
  "entries_wire fs u j [] = Inr []"
  "entries_wire fs u j (e # es) = Inr os' \<longleftrightarrow> (\<exists>o' os. os' = o' # os \<and>
     step_wire fs (u j) (connector_at j e) e = Inr o' \<and> entries_wire fs u (Suc j) es = Inr os)"
  by (auto simp: entries_wire_def step_wire_def connector_at_def sumThen_Inr)

lemma entries_stable:
  assumes "list_all entry_ok es" and "entries_wire fs u j es = Inr os"
  shows "list_all (\<lambda>o'. entry_ok (JObj o')) os \<and> map (\<lambda>o'. obj_get o' ''type'') os = map (\<lambda>e. get e ''type'') es \<and>
    (\<exists>os2. entries_wire fs u2 j (map JObj os) = Inr os2 \<and> list_all2 agree os os2)"
  using assms
proof (induction es arbitrary: j os)
  case Nil
  then show ?case by (simp add: entries_wire_simps)
next
  case (Cons e es)
  then obtain m where e: "e = JObj m" by (cases e) (auto simp: entry_ok_def)
  from Cons.prems(2) obtain o' os1 where os: "os = o' # os1" "step_wire fs (u j) (connector_at j e) e = Inr o'"
      "entries_wire fs u (Suc j) es = Inr os1"
    by (auto simp: entries_wire_simps)
  from step_stable [of m fs "u j" j o' "u2 j"] Cons.prems(1) os(2) e
  obtain o2 where o2: "entry_ok (JObj o')" "obj_get o' ''type'' = obj_get m ''type''"
      "step_wire fs (u2 j) (connector_at j (JObj o')) (JObj o') = Inr o2" "agree o' o2" by auto
  from Cons.IH [OF _ os(3)] Cons.prems(1)
  obtain os2 where os2: "list_all (\<lambda>o'. entry_ok (JObj o')) os1"
      "map (\<lambda>o'. obj_get o' ''type'') os1 = map (\<lambda>e. get e ''type'') es"
      "entries_wire fs u2 (Suc j) (map JObj os1) = Inr os2" "list_all2 agree os1 os2" by auto
  have "entries_wire fs u2 j (map JObj os) = Inr (o2 # os2)"
    using o2(3) os2(3) by (simp add: os(1) entries_wire_simps)
  with o2 os2 e os(1) show ?case by auto
qed

text \<open>The connector entry.\<close>

definition is_connector :: "jsval \<Rightarrow> bool" where
  "is_connector e \<longleftrightarrow> get e ''type'' = JStr ''conditionalCard''"

lemma split_entries_steps:
  "list_all entry_ok es \<Longrightarrow> split_entries es = Inr (c, steps) \<Longrightarrow>
     list_all entry_ok steps \<and> list_all (\<lambda>e. \<not> is_connector e) steps"
proof (induction es arbitrary: c steps)
  case (Cons e es)
  then obtain m where "e = JObj m" by (cases e) (auto simp: entry_ok_def)
  with Cons show ?case by (auto simp: sumThen_Inr read_type is_connector_def split: if_splits)
qed simp

lemma split_entries_plain:
  "list_all (\<lambda>o'. \<not> is_connector (JObj o')) os \<Longrightarrow> split_entries (map JObj os) = Inr (JUndefined, map JObj os)"
  by (induction os) (simp_all add: read_type sumThen_def is_connector_def)

definition card_wire :: "(real \<Rightarrow> string) \<Rightarrow> (nat option \<Rightarrow> string) \<Rightarrow> nat \<Rightarrow> jsval \<Rightarrow> string + fields list" where
  "card_wire fs u i v = sumThen (parse_card fs u i v) (serialize_card fs)"

definition connector_entry :: "jsval \<Rightarrow> fields list" where
  "connector_entry c = (if truthy c then [[(''type'', JStr ''conditionalCard''), (''value'', c)]] else [])"

lemma card_wire_array:
  "card_wire fs u i (JArr es) = sumThen (split_entries es) (\<lambda>(c, steps).
     sumThen (entries_wire fs (\<lambda>j. u (Some j)) 0 steps) (\<lambda>os.
     Inr (connector_entry (if i = 0 then JUndefined else c) @ os)))"
  by (auto simp: card_wire_def parse_card_def serialize_card_def entries_wire_def connector_entry_def sumThen_def
      split: sum.split prod.split)

definition card_ok :: "jsval \<Rightarrow> bool" where
  "card_ok v = (case v of JArr es \<Rightarrow> list_all entry_ok es | _ \<Rightarrow> False)"

lemma card_stable:
  assumes "card_ok v" and "card_wire fs u i v = Inr w"
  shows "\<exists>w2. card_wire fs u2 i (JArr (map JObj w)) = Inr w2 \<and> list_all2 agree w w2"
proof -
  obtain es where v: "v = JArr es" "list_all entry_ok es" using assms(1) by (cases v) (auto simp: card_ok_def)
  then obtain c steps os where split: "split_entries es = Inr (c, steps)"
      "entries_wire fs (\<lambda>j. u (Some j)) 0 steps = Inr os" "w = connector_entry (if i = 0 then JUndefined else c) @ os"
    using assms(2) by (auto simp: card_wire_array sumThen_Inr)
  note steps = split_entries_steps [OF v(2) split(1)]
  from entries_stable [OF conjunct1 [OF steps] split(2), of "\<lambda>j. u2 (Some j)"]
  obtain os2 where os: "map (\<lambda>o'. obj_get o' ''type'') os = map (\<lambda>e. get e ''type'') steps"
      "entries_wire fs (\<lambda>j. u2 (Some j)) 0 (map JObj os) = Inr os2" "list_all2 agree os os2" by blast
  have "list_all (\<lambda>t. t \<noteq> JStr ''conditionalCard'') (map (\<lambda>e. get e ''type'') steps)"
    using steps by (simp add: list_all_iff is_connector_def)
  then have plain: "list_all (\<lambda>o'. \<not> is_connector (JObj o')) os"
    unfolding os(1) [symmetric] by (simp add: list_all_iff is_connector_def)
  then have none: "\<not> list_ex (\<lambda>x. get x ''type'' = JStr ''conditionalCard'') (map JObj os)"
    by (auto simp: list_all_iff list_ex_iff is_connector_def)
  define d where "d = (if i = 0 then JUndefined else c)"
  have split2: "split_entries (map JObj (connector_entry d @ os)) = Inr (if truthy d then d else JUndefined, map JObj os)"
    using split_entries_plain [OF plain] none
    by (auto simp: connector_entry_def sumThen_def read_type obj_get_def)
  have d: "connector_entry (if i = 0 then JUndefined else if truthy d then d else JUndefined) = connector_entry d"
    by (auto simp: d_def connector_entry_def)
  have "card_wire fs u2 i (JArr (map JObj (connector_entry d @ os))) = Inr (connector_entry d @ os2)"
    unfolding card_wire_array split2 sumThen_def sum.case prod.case os(2) d ..
  with os(3) split(3) show ?thesis by (auto simp: d_def [symmetric] list_all2_appendI list.rel_refl)
qed

text \<open>The whole segment.\<close>

definition wire :: "fields list list \<Rightarrow> jsval" where
  "wire w = JArr (map (\<lambda>c. JArr (map JObj c)) w)"

lemma cards_wire:
  "sumThen (parse_cards fs u i (v # vs)) (serializeSteps fs) = Inr w \<longleftrightarrow> (\<exists>c cs. w = c # cs \<and>
     card_wire fs (u i) i v = Inr c \<and> sumThen (parse_cards fs u (Suc i) vs) (serializeSteps fs) = Inr cs)"
  by (auto simp: serializeSteps_def card_wire_def sumThen_Inr)

lemma cards_stable:
  assumes "list_all card_ok vs" and "sumThen (parse_cards fs u i vs) (serializeSteps fs) = Inr w"
  shows "\<exists>w2. sumThen (parse_cards fs u2 i (map (\<lambda>c. JArr (map JObj c)) w)) (serializeSteps fs) = Inr w2 \<and>
    list_all2 (list_all2 agree) w w2"
  using assms
proof (induction vs arbitrary: i w)
  case Nil
  then show ?case by (simp add: serializeSteps_def sumThen_def)
next
  case (Cons v vs)
  from Cons.prems(2) obtain c cs where w: "w = c # cs" "card_wire fs (u i) i v = Inr c"
      "sumThen (parse_cards fs u (Suc i) vs) (serializeSteps fs) = Inr cs"
    unfolding cards_wire by blast
  from Cons.prems(1) have ok: "card_ok v" "list_all card_ok vs" by simp_all
  from card_stable [OF ok(1) w(2), of "u2 i"]
  obtain c2 where c2: "card_wire fs (u2 i) i (JArr (map JObj c)) = Inr c2" "list_all2 agree c c2" by blast
  from Cons.IH [OF ok(2) w(3)]
  obtain cs2 where cs2: "sumThen (parse_cards fs u2 (Suc i) (map (\<lambda>c. JArr (map JObj c)) cs)) (serializeSteps fs) = Inr cs2"
      "list_all2 (list_all2 agree) cs cs2" by blast
  have "sumThen (parse_cards fs u2 i (map (\<lambda>c. JArr (map JObj c)) w)) (serializeSteps fs) = Inr (c2 # cs2)"
    unfolding w(1) list.map cards_wire using c2(1) cs2(1) by blast
  with c2(2) cs2(2) w(1) show ?case by auto
qed

text \<open>C32: saving reaches its fixed point after one save. Take any stored segment whose
  cards are lists of step objects. If the builder can load and save it at all, what it
  saved can be loaded and saved again, whatever identifiers the second load generates, and
  the second save has the same cards, the same entries in the same order and the same value
  in every field of every entry (connectors, custom periods, event names, tags and defaulted
  operators included). So opening a saved segment and saving it without an edit changes
  nothing.\<close>

theorem save_load_stable:
  assumes "list_all card_ok vs" and "parseSteps fs json u (JArr vs) = Inr cs" and "serializeSteps fs cs = Inr w"
  shows "\<exists>cs' w'. parseSteps fs json u2 (wire w) = Inr cs' \<and> serializeSteps fs cs' = Inr w' \<and>
    list_all2 (list_all2 agree) w w'"
proof -
  have "sumThen (parse_cards fs u 0 vs) (serializeSteps fs) = Inr w"
    using assms(2,3) by (simp add: parseSteps_def sumThen_def)
  from cards_stable [OF assms(1) this, of u2] show ?thesis
    by (auto simp: parseSteps_def wire_def sumThen_Inr)
qed

definition sample_segment :: "jsval list" where
  "sample_segment =
     [JArr [JObj [(''type'', JStr ''interation''), (''event_type'', JStr ''email''), (''event'', JStr ''open''),
              (''time'', JNum (Fin 45))],
            JObj [(''type'', JStr ''user_field''), (''conditional'', JStr ''or''), (''user_field_key'', JStr ''created_at_date'')]],
      JArr [JObj [(''type'', JStr ''conditionalCard''), (''value'', JStr ''UNION'')],
            JObj [(''type'', JStr ''tag''), (''tag_info'', JArr [JObj [(''id'', JStr ''7''), (''name'', JStr ''vip''), (''lastCount'', JNum (Fin 3))]])]]]"

definition sample_cards :: builder_state where
  "sample_cards = projr (parseSteps (\<lambda>_. '''') (\<lambda>_. None) (\<lambda>i j. ''u'') (JArr sample_segment))"

definition sample_saved :: "fields list list" where
  "sample_saved = projr (serializeSteps (\<lambda>_. '''') sample_cards)"

lemma sample_loads:
  "list_all card_ok sample_segment"
  "parseSteps (\<lambda>_. '''') (\<lambda>_. None) (\<lambda>i j. ''u'') (JArr sample_segment) = Inr sample_cards"
  "serializeSteps (\<lambda>_. '''') sample_cards = Inr sample_saved"
  by code_simp+

lemma save_load_stable_witness:
  "length sample_saved = 2 \<and> (\<exists>cs' w'. parseSteps (\<lambda>_. '''') (\<lambda>_. None) (\<lambda>i j. ''v'') (wire sample_saved) = Inr cs' \<and>
     serializeSteps (\<lambda>_. '''') cs' = Inr w' \<and> list_all2 (list_all2 agree) sample_saved w')"
proof (rule conjI)
  show "length sample_saved = 2" by code_simp
qed (rule save_load_stable [OF sample_loads])

end
