(* ===== verification/SegmentEditor.thy ===== *)
theory SegmentEditor
  imports SegmentStore
begin

text \<open>
  Editing a segment: the actions the types of \<open>builder/types.ts\<close> and the components of the
  builder let a user dispatch, the invariant every sequence of them keeps, and the form of
  the segment that is saved afterwards, as the comment on the wire format in
  \<open>types.ts\<close> states it.
\<close>

section \<open>The shape of a builder state\<close>

definition head_rest :: "('a \<Rightarrow> bool) \<Rightarrow> ('a \<Rightarrow> bool) \<Rightarrow> 'a list \<Rightarrow> bool" where
  "head_rest p q xs = (case xs of [] \<Rightarrow> True | x # ys \<Rightarrow> p x \<and> list_all q ys)"

lemma head_rest_simps [simp]: "head_rest p q []" "head_rest p q (x # xs) \<longleftrightarrow> p x \<and> list_all q xs"
  by (simp_all add: head_rest_def)

lemma head_rest_snoc: "head_rest p q xs \<Longrightarrow> (if xs = [] then p x else q x) \<Longrightarrow> head_rest p q (xs @ [x])"
  by (cases xs) auto

lemma list_all_remove_at: "list_all q xs \<Longrightarrow> list_all q (remove_at n xs)"
  using set_remove_at [of n xs] by (auto simp: list_all_iff)

lemma head_rest_remove:
  assumes "head_rest p q xs" and "n < length xs" and "\<And>x. q x \<Longrightarrow> p (f x)"
  shows "head_rest p q (if n = 0 then strip_first f (remove_at n xs) else remove_at n xs)"
proof (cases n)
  case 0
  with assms show ?thesis by (cases xs; cases "tl xs") (auto simp: remove_at_def strip_first_def)
next
  case (Suc k)
  with assms list_all_remove_at [of q "tl xs" k] show ?thesis by (cases xs) (auto simp: remove_at_def)
qed

lemma head_rest_insert:
  assumes "head_rest p q xs" and "n < length xs" and "q x"
  shows "head_rest p q (insert_at (n + 1) x xs)"
  using assms set_insert_at [of n x "tl xs"] by (cases xs) (auto simp: insert_at_def list_all_iff dest: in_set_takeD in_set_dropD)

lemma list_all_update: "list_all q xs \<Longrightarrow> (\<And>x. q x \<Longrightarrow> q (f x)) \<Longrightarrow> n < length xs \<Longrightarrow> list_all q (xs[n := f (xs ! n)])"
  using set_update_subset_insert [of xs n "f (xs ! n)"] by (auto simp: list_all_iff)

lemma head_rest_change:
  assumes "head_rest p q xs" and "\<And>x. p x \<Longrightarrow> x \<in> set (take 1 xs) \<Longrightarrow> t x \<Longrightarrow> p (f x)" and "\<And>x. q x \<Longrightarrow> q (f x)"
  shows "head_rest p q (change_first t f xs)"
proof (cases "find_index t xs")
  case (Some n)
  note n = find_index_Some [OF Some]
  show ?thesis
  proof (cases xs)
    case (Cons y ys)
    show ?thesis
    proof (cases n)
      case 0
      with assms n Some Cons show ?thesis by (simp add: change_first_def)
    next
      case (Suc k)
      with assms n Some Cons list_all_update [of q ys f k] show ?thesis by (simp add: change_first_def)
    qed
  qed (simp add: change_first_def)
qed (use assms in \<open>simp add: change_first_def\<close>)

lemma list_all_change: "list_all q xs \<Longrightarrow> (\<And>x. q x \<Longrightarrow> q (f x)) \<Longrightarrow> list_all q (change_first t f xs)"
  using list_all_update [of q xs f] find_index_Some [of t xs]
  by (auto simp: change_first_def split: option.split)

definition connector_in :: "string list \<Rightarrow> jsval \<Rightarrow> bool" where
  "connector_in vs c \<longleftrightarrow> c \<in> JStr ` set vs"

abbreviation step_joins :: "builder_step \<Rightarrow> bool" where
  "step_joins s \<equiv> connector_in [''and'', ''or''] (step_connector s)"

abbreviation card_joins :: "builder_card \<Rightarrow> bool" where
  "card_joins c \<equiv> connector_in [''UNION'', ''INTERSECT''] (bc_connector c)"

definition step_ok :: "builder_step \<Rightarrow> bool" where
  "step_ok s = (case s of
     KnownStep m \<Rightarrow> distinct (map fst m) \<and> List.member (map JStr StepTypes) (obj_get m ''type'') \<and>
       obj_get m ''conditional'' = JUndefined
   | UnsupportedStep i t raw c \<Rightarrow> distinct (map fst raw) \<and>
       \<not> List.member (JStr ''conditionalCard'' # map JStr StepTypes) (obj_get raw ''type''))"

definition tag_steps :: "builder_step list \<Rightarrow> nat" where
  "tag_steps ss = length (filter (\<lambda>s. step_kind s = JStr ''tag'') ss)"

definition steps_wf :: "builder_step list \<Rightarrow> bool" where
  "steps_wf ss \<longleftrightarrow> head_rest (\<lambda>s. step_connector s = JUndefined) step_joins ss \<and> list_all step_ok ss \<and> tag_steps ss \<le> 1"

definition builder_wf :: "builder_state \<Rightarrow> bool" where
  "builder_wf cs \<longleftrightarrow> head_rest (\<lambda>c. bc_connector c = JUndefined) card_joins cs \<and> list_all (\<lambda>c. steps_wf (bc_steps c)) cs"

section \<open>The actions of a user\<close>

text \<open>The types exclude the identity, the type and the connector from an update, and the
  components show a connector from the second card and the second step on.\<close>

definition step_heads :: "string \<Rightarrow> builder_state \<Rightarrow> jsval list" where
  "step_heads i cs = concat (map (\<lambda>c. if bc_id c = i then map step_id (take 1 (bc_steps c)) else []) cs)"

definition reserved_fields :: "string list" where
  "reserved_fields = [''id'', ''type'', ''stepConnector'', ''conditional'', ''raw'', ''originalType'']"

fun allowed :: "builder_state \<Rightarrow> builder_action \<Rightarrow> bool" where
  "allowed s (SetCardConnector i v) \<longleftrightarrow>
     \<not> List.member (map bc_id (take 1 s)) i \<and> connector_in [''UNION'', ''INTERSECT''] v"
| "allowed s (SetStepConnector i j v) \<longleftrightarrow> \<not> List.member (step_heads i s) (JStr j) \<and> connector_in [''and'', ''or''] v"
| "allowed s (AddStep i t new) \<longleftrightarrow> List.member StepTypes t"
| "allowed s (UpdateStep i j t d) \<longleftrightarrow> List.member StepTypes t \<and> list_all (\<lambda>(k, v). \<not> List.member reserved_fields k) d"
| "allowed s (LoadState cs) \<longleftrightarrow> builder_wf cs"
| "allowed s _ \<longleftrightarrow> True"

definition ui_step :: "builder_action \<Rightarrow> builder_state \<Rightarrow> builder_state" where
  "ui_step a s = (if allowed s a then builderReducer a s else s)"

section \<open>The invariant\<close>

lemma obj_get_with_props:
  "obj_get (with_props m d) k = (case map_of (rev d) k of None \<Rightarrow> obj_get m k | Some v \<Rightarrow> v)"
  by (induction d arbitrary: m) (auto simp: with_props_def split: option.split)

lemma distinct_with_props: "distinct (map fst m) \<Longrightarrow> distinct (map fst (with_props m d))"
  by (induction d arbitrary: m) (auto simp: with_props_def split: prod.split)

definition untouched :: "fields \<Rightarrow> bool" where
  "untouched d \<longleftrightarrow> list_all (\<lambda>(k, v). \<not> List.member reserved_fields k) d"

lemma untouched_get: "untouched d \<Longrightarrow> List.member reserved_fields k \<Longrightarrow> map_of d k = None \<and> map_of (rev d) k = None"
  by (auto simp: untouched_def list_all_iff map_of_eq_None_iff)

lemma assign_untouched:
  assumes "untouched d"
  shows "step_id (assign_step d s) = step_id s" "step_kind (assign_step d s) = step_kind s"
    "step_connector (assign_step d s) = step_connector s" "step_ok s \<Longrightarrow> step_ok (assign_step d s)"
proof -
  note u = untouched_get [OF assms]
  have u: "map_of d ''id'' = None" "map_of d ''stepConnector'' = None" "map_of d ''raw'' = None"
    "map_of d ''originalType'' = None" "map_of (rev d) ''id'' = None" "map_of (rev d) ''type'' = None"
    "map_of (rev d) ''stepConnector'' = None" "map_of (rev d) ''conditional'' = None"
    by (simp_all add: u reserved_fields_def)
  show "step_id (assign_step d s) = step_id s" "step_kind (assign_step d s) = step_kind s"
    "step_connector (assign_step d s) = step_connector s"
    by (cases s; simp add: obj_get_with_props u)+
  show "step_ok (assign_step d s)" if "step_ok s"
    using that by (cases s; simp add: step_ok_def obj_get_with_props u distinct_with_props)
qed

lemma reset_untouched: "untouched channel_reset"
  by code_simp

definition harmless :: "(builder_step \<Rightarrow> builder_step) \<Rightarrow> bool" where
  "harmless f \<longleftrightarrow> (\<forall>s. step_kind (f s) = step_kind s \<and> (step_ok s \<longrightarrow> step_ok (f s)))"

lemma updated_step_harmless:
  assumes "untouched d"
  shows "harmless (updated_step t d)" "step_connector (updated_step t d s) = step_connector s"
  using assign_untouched [OF assms] assign_untouched [OF reset_untouched]
  by (auto simp: harmless_def updated_step_def Let_def)

lemma set_connector_props:
  "step_connector (set_connector v s) = v" "harmless (set_connector v)"
proof -
  show "step_connector (set_connector v s) = v"
    by (cases s) (simp_all add: set_connector_def obj_get_with_props Let_def)
  show "harmless (set_connector v)"
    unfolding harmless_def
  proof
    fix s
    show "step_kind (set_connector v s) = step_kind s \<and> (step_ok s \<longrightarrow> step_ok (set_connector v s))"
      by (cases s) (simp_all add: set_connector_def obj_get_with_props distinct_with_props step_ok_def Let_def)
  qed
qed

lemma new_id_props:
  "step_connector (assign_step [(''id'', JStr i)] s) = step_connector s" "harmless (assign_step [(''id'', JStr i)])"
proof -
  show "step_connector (assign_step [(''id'', JStr i)] s) = step_connector s"
    by (cases s) (simp_all add: obj_get_with_props Let_def)
  show "harmless (assign_step [(''id'', JStr i)])"
    unfolding harmless_def
  proof
    fix s
    show "step_kind (assign_step [(''id'', JStr i)] s) = step_kind s \<and> (step_ok s \<longrightarrow> step_ok (assign_step [(''id'', JStr i)] s))"
      by (cases s) (simp_all add: obj_get_with_props distinct_with_props step_ok_def Let_def)
  qed
qed


lemma tag_steps_simps [simp]:
  "tag_steps [] = 0" "tag_steps (ss @ ts) = tag_steps ss + tag_steps ts"
  "tag_steps (s # ss) = (if step_kind s = JStr ''tag'' then Suc (tag_steps ss) else tag_steps ss)"
  by (simp_all add: tag_steps_def)

lemma tag_steps_remove: "tag_steps (remove_at n ss) \<le> tag_steps ss"
proof (induction ss arbitrary: n)
  case (Cons s ss)
  show ?case
  proof (cases n)
    case (Suc k)
    with Cons [of k] show ?thesis by (simp add: remove_at_def)
  qed (simp add: remove_at_def)
qed (simp add: remove_at_def)

lemma tag_steps_map: "map step_kind ss = map step_kind ts \<Longrightarrow> tag_steps ss = tag_steps ts"
proof -
  have "tag_steps xs = length (filter (\<lambda>k. k = JStr ''tag'') (map step_kind xs))" for xs
    by (simp add: tag_steps_def filter_map o_def)
  then show "map step_kind ss = map step_kind ts \<Longrightarrow> tag_steps ss = tag_steps ts" by presburger
qed

lemma change_kinds:
  assumes "\<And>s. step_kind (f s) = step_kind s"
  shows "map step_kind (change_first t f ss) = map step_kind ss"
proof (cases "find_index t ss")
  case (Some n)
  with find_index_Some [OF Some] assms show ?thesis
    by (simp add: change_first_def map_update) (metis list_update_id map_update)
qed (simp add: change_first_def)

lemma steps_wf_change:
  assumes "steps_wf ss" and "harmless f"
    and "\<And>s. s \<in> set (take 1 ss) \<Longrightarrow> t s \<Longrightarrow> step_connector (f s) = step_connector s"
    and "\<And>s. step_joins s \<Longrightarrow> step_joins (f s)"
  shows "steps_wf (change_first t f ss)"
proof -
  have "tag_steps (change_first t f ss) = tag_steps ss"
    by (rule tag_steps_map [OF change_kinds]) (use assms(2) in \<open>simp add: harmless_def\<close>)
  moreover have "list_all step_ok (change_first t f ss)"
    by (rule list_all_change) (use assms(1,2) in \<open>auto simp: steps_wf_def harmless_def\<close>)
  moreover have "head_rest (\<lambda>s. step_connector s = JUndefined) step_joins (change_first t f ss)"
    by (rule head_rest_change) (use assms in \<open>auto simp: steps_wf_def\<close>)
  ultimately show ?thesis using assms(1) by (simp add: steps_wf_def)
qed

lemma steps_wf_remove:
  assumes "steps_wf ss" and "n < length ss"
  shows "steps_wf (if n = 0 then strip_first (set_connector JUndefined) (remove_at n ss) else remove_at n ss)"
proof -
  have kinds: "map step_kind (strip_first (set_connector JUndefined) xs) = map step_kind xs" for xs
    using set_connector_props(2) by (cases xs) (simp_all add: strip_first_def harmless_def)
  have oks: "list_all step_ok xs \<Longrightarrow> list_all step_ok (strip_first (set_connector JUndefined) xs)" for xs
    using set_connector_props(2) by (cases xs) (simp_all add: strip_first_def harmless_def)
  have "head_rest (\<lambda>s. step_connector s = JUndefined) step_joins
      (if n = 0 then strip_first (set_connector JUndefined) (remove_at n ss) else remove_at n ss)"
    by (rule head_rest_remove) (use assms in \<open>auto simp: steps_wf_def set_connector_props\<close>)
  then show ?thesis
    using assms(1) tag_steps_remove [of n ss] tag_steps_map [OF kinds] oks list_all_remove_at [of step_ok ss n]
    by (auto simp: steps_wf_def)
qed

lemma default_step:
  assumes "createDefaultStep i t = Some s"
  shows "step_ok s" "step_kind s = JStr t" "step_connector s = JUndefined"
  using assms by (auto simp: createDefaultStep_def Let_def step_ok_def StepTypes_def obj_get_def split: if_splits)

lemma steps_wf_add:
  assumes "steps_wf ss" and "createDefaultStep i t = Some s" and "t = ''tag'' \<Longrightarrow> tag_steps ss = 0"
  shows "steps_wf (ss @ [if length ss > 0 then set_connector (JStr ''and'') s else s])"
proof -
  let ?s = "if length ss > 0 then set_connector (JStr ''and'') s else s"
  have s: "step_ok ?s" "step_kind ?s = JStr t" "ss = [] \<Longrightarrow> step_connector ?s = JUndefined" "ss \<noteq> [] \<Longrightarrow> step_joins ?s"
    using default_step [OF assms(2)] set_connector_props by (auto simp: harmless_def connector_in_def)
  have "head_rest (\<lambda>s. step_connector s = JUndefined) step_joins (ss @ [?s])"
    by (rule head_rest_snoc) (use assms(1) s in \<open>auto simp: steps_wf_def\<close>)
  moreover have "list_all step_ok (ss @ [?s])" using assms(1) s by (auto simp: steps_wf_def)
  moreover have "tag_steps (ss @ [?s]) \<le> 1" using assms(1,3) s(2) by (auto simp: steps_wf_def)
  ultimately show ?thesis unfolding steps_wf_def by blast
qed

lemma no_tag: "\<not> list_ex (\<lambda>s. step_kind s = JStr ''tag'') ss \<Longrightarrow> tag_steps ss = 0"
  by (induction ss) auto

lemma wf_on_card:
  assumes "builder_wf cs" and "\<And>c. c \<in> set cs \<Longrightarrow> bc_id c = i \<Longrightarrow> steps_wf (bc_steps c) \<Longrightarrow> steps_wf (f (bc_steps c))"
  shows "builder_wf (on_card i f cs)"
proof (cases "find_index (\<lambda>c. bc_id c = i) cs")
  case (Some n)
  note n = find_index_Some [OF Some]
  have "head_rest (\<lambda>c. bc_connector c = JUndefined) card_joins (on_card i f cs)"
    unfolding on_card_def by (rule head_rest_change) (use assms(1) in \<open>auto simp: builder_wf_def\<close>)
  moreover have "steps_wf (f (bc_steps (cs ! n)))"
    using assms n by (simp add: builder_wf_def list_all_length)
  then have "list_all (\<lambda>c. steps_wf (bc_steps c)) (on_card i f cs)"
    using assms(1) n Some by (auto simp: on_card_def change_first_def builder_wf_def list_all_length nth_list_update)
  ultimately show ?thesis by (simp add: builder_wf_def)
qed (use assms(1) in \<open>simp add: on_card_def change_first_def\<close>)

lemma wf_set_card_connector:
  assumes "builder_wf cs" and "\<not> List.member (map bc_id (take 1 cs)) i" and "connector_in [''UNION'', ''INTERSECT''] v"
  shows "builder_wf (handleSetCardConnector i v cs)"
proof -
  have "head_rest (\<lambda>c. bc_connector c = JUndefined) card_joins (handleSetCardConnector i v cs)"
    unfolding handleSetCardConnector_def
    by (rule head_rest_change) (use assms in \<open>auto simp: builder_wf_def\<close>)
  moreover have "list_all (\<lambda>c. steps_wf (bc_steps c)) (handleSetCardConnector i v cs)"
    unfolding handleSetCardConnector_def by (rule list_all_change) (use assms(1) in \<open>auto simp: builder_wf_def\<close>)
  ultimately show ?thesis by (simp add: builder_wf_def)
qed

lemma wf_remove_card: "builder_wf cs \<Longrightarrow> builder_wf (handleRemoveCard i cs)"
proof -
  assume wf: "builder_wf cs"
  have q: "list_all (\<lambda>c. steps_wf (bc_steps c)) xs \<Longrightarrow>
      list_all (\<lambda>c. steps_wf (bc_steps c)) (strip_first (\<lambda>c. c\<lparr>bc_connector := JUndefined\<rparr>) xs)" for xs
    by (cases xs) (simp_all add: strip_first_def)
  show "builder_wf (handleRemoveCard i cs)"
  proof (cases "find_index (\<lambda>c. bc_id c = i) cs")
    case (Some n)
    have "head_rest (\<lambda>c. bc_connector c = JUndefined) card_joins
        (if n = 0 then strip_first (\<lambda>c. c\<lparr>bc_connector := JUndefined\<rparr>) (remove_at n cs) else remove_at n cs)"
      by (rule head_rest_remove) (use wf find_index_Some [OF Some] in \<open>auto simp: builder_wf_def\<close>)
    then show ?thesis
      using wf q Some list_all_remove_at [of "\<lambda>c. steps_wf (bc_steps c)" cs n]
      by (auto simp: handleRemoveCard_def builder_wf_def)
  qed (use wf in \<open>simp add: handleRemoveCard_def\<close>)
qed

lemma steps_wf_copy:
  assumes "steps_wf ss"
  shows "steps_wf (map (\<lambda>(j, s). assign_step [(''id'', JStr (ids j))] s) (enumerate n ss))"
proof -
  note new = new_id_props(2) [unfolded harmless_def, rule_format]
  have kinds: "map step_kind (map (\<lambda>(j, s). assign_step [(''id'', JStr (ids j))] s) (enumerate n xs)) = map step_kind xs" for n xs
    using new by (induction xs arbitrary: n) simp_all
  have all: "list_all q xs \<Longrightarrow> (\<And>i s. q s \<Longrightarrow> q (assign_step [(''id'', JStr i)] s)) \<Longrightarrow>
      list_all q (map (\<lambda>(j, s). assign_step [(''id'', JStr (ids j))] s) (enumerate n xs))" for q n xs
    by (induction xs arbitrary: n) simp_all
  have "head_rest (\<lambda>s. step_connector s = JUndefined) step_joins (map (\<lambda>(j, s). assign_step [(''id'', JStr (ids j))] s) (enumerate n ss))"
    using assms all [of step_joins "tl ss" "Suc n"] new_id_props(1) by (cases ss) (simp_all add: steps_wf_def del: assign_step.simps)
  moreover have "list_all step_ok (map (\<lambda>(j, s). assign_step [(''id'', JStr (ids j))] s) (enumerate n ss))"
    using assms new by (intro all) (auto simp: steps_wf_def)
  ultimately show ?thesis using assms tag_steps_map [OF kinds] by (simp add: steps_wf_def)
qed

lemma wf_duplicate: "builder_wf cs \<Longrightarrow> builder_wf (handleDuplicateCard i new ids cs)"
proof -
  assume wf: "builder_wf cs"
  show "builder_wf (handleDuplicateCard i new ids cs)"
  proof (cases "find_index (\<lambda>c. bc_id c = i) cs")
    case (Some n)
    define c where "c = \<lparr>bc_id = new, bc_steps = map (\<lambda>(j, s). assign_step [(''id'', JStr (ids j))] s)
        (enumerate 0 (bc_steps (cs ! n))), bc_connector = JStr ''UNION''\<rparr>"
    note n = find_index_Some [OF Some]
    have "steps_wf (bc_steps c)"
      using wf n steps_wf_copy by (simp add: c_def builder_wf_def list_all_length)
    moreover have "head_rest (\<lambda>c. bc_connector c = JUndefined) card_joins (insert_at (n + 1) c cs)"
      by (rule head_rest_insert) (use wf n in \<open>auto simp: builder_wf_def c_def connector_in_def\<close>)
    ultimately show ?thesis
      using wf Some set_insert_at [of "n + 1" c cs] by (auto simp: handleDuplicateCard_def builder_wf_def list_all_iff c_def)
  qed (use wf in \<open>simp add: handleDuplicateCard_def\<close>)
qed

lemma wf_add_step: "builder_wf cs \<Longrightarrow> builder_wf (handleAddStep i t new cs)"
  unfolding handleAddStep_def
proof (rule wf_on_card, assumption)
  fix c assume c: "steps_wf (bc_steps c)"
  let ?ss = "bc_steps c"
  show "steps_wf (if t = ''tag'' \<and> list_ex (\<lambda>s. step_kind s = JStr ''tag'') ?ss then ?ss
      else case createDefaultStep new t of None \<Rightarrow> ?ss
        | Some s \<Rightarrow> ?ss @ [if length ?ss > 0 then set_connector (JStr ''and'') s else s])"
  proof (cases "t = ''tag'' \<and> list_ex (\<lambda>s. step_kind s = JStr ''tag'') ?ss")
    case False
    with c no_tag [of ?ss] steps_wf_add [OF c, of new t] show ?thesis by (cases "createDefaultStep new t") auto
  qed (use c in simp)
qed

lemma wf_remove_step: "builder_wf cs \<Longrightarrow> builder_wf (handleRemoveStep i j cs)"
  unfolding handleRemoveStep_def
proof (rule wf_on_card, assumption)
  fix c assume c: "steps_wf (bc_steps c)"
  show "steps_wf (case find_index (\<lambda>s. step_id s = JStr j) (bc_steps c) of None \<Rightarrow> bc_steps c
      | Some n \<Rightarrow> if n = 0 then strip_first (set_connector JUndefined) (remove_at n (bc_steps c))
          else remove_at n (bc_steps c))"
    using c steps_wf_remove [OF c] find_index_Some [of "\<lambda>s. step_id s = JStr j" "bc_steps c"]
    by (cases "find_index (\<lambda>s. step_id s = JStr j) (bc_steps c)") simp_all
qed

lemma wf_update_step: "builder_wf cs \<Longrightarrow> untouched d \<Longrightarrow> builder_wf (handleUpdateStep i j t d cs)"
  unfolding handleUpdateStep_def
  by (rule wf_on_card, assumption) (auto intro!: steps_wf_change simp: updated_step_harmless)

lemma wf_set_step_connector:
  assumes "builder_wf cs" and "\<not> List.member (step_heads i cs) (JStr j)" and "connector_in [''and'', ''or''] v"
  shows "builder_wf (handleSetStepConnector i j v cs)"
  unfolding handleSetStepConnector_def
proof (rule wf_on_card [OF assms(1)])
  fix c assume c: "c \<in> set cs" "bc_id c = i" "steps_wf (bc_steps c)"
  have "step_id s \<noteq> JStr j" if "s \<in> set (take 1 (bc_steps c))" for s
  proof -
    have "step_id s \<in> set (step_heads i cs)"
      unfolding step_heads_def set_concat
      by (rule UN_I [of "map step_id (take 1 (bc_steps c))"]) (use c(1,2) that in \<open>auto simp: image_iff\<close>)
    with assms(2) show ?thesis by auto
  qed
  with c(3) assms(3) show "steps_wf (change_first (\<lambda>s. step_id s = JStr j) (set_connector v) (bc_steps c))"
    by (intro steps_wf_change) (auto simp: set_connector_props)
qed

lemma ui_step_wf: "builder_wf s \<Longrightarrow> builder_wf (ui_step a s)"
proof (cases a)
  case (AddCard new)
  assume wf: "builder_wf s"
  then have "head_rest (\<lambda>c. bc_connector c = JUndefined) card_joins (handleAddCard new s)"
    unfolding handleAddCard_def by (intro head_rest_snoc) (auto simp: builder_wf_def connector_in_def)
  with wf AddCard show ?thesis by (simp add: ui_step_def builder_wf_def handleAddCard_def steps_wf_def)
qed (simp_all add: ui_step_def wf_remove_card wf_duplicate wf_set_card_connector wf_add_step wf_remove_step
    wf_update_step wf_set_step_connector untouched_def)

interpretation segm: machine "[]" ui_step builder_wf
  by unfold_locales (simp add: builder_wf_def, rule ui_step_wf)



section \<open>The saved form\<close>

abbreviation known_entry :: "fields \<Rightarrow> bool" where
  "known_entry e \<equiv> List.member (map JStr StepTypes) (obj_get e ''type'')"

definition entry_form :: "fields \<Rightarrow> bool" where
  "entry_form e \<longleftrightarrow> distinct (map fst e) \<and> obj_get e ''type'' \<noteq> JStr ''conditionalCard'' \<and>
     (known_entry e \<longrightarrow> map_of e ''stepConnector'' = None)"

definition entries_form :: "fields list \<Rightarrow> bool" where
  "entries_form os \<longleftrightarrow>
     head_rest (\<lambda>e. known_entry e \<longrightarrow> obj_get e ''conditional'' = JUndefined)
       (\<lambda>e. connector_in [''and'', ''or''] (obj_get e ''conditional'')) os \<and>
     list_all entry_form os \<and> length (filter (\<lambda>e. obj_get e ''type'' = JStr ''tag'') os) \<le> 1"

definition later_card_form :: "fields list \<Rightarrow> bool" where
  "later_card_form es \<longleftrightarrow> (case es of [] \<Rightarrow> False
     | e # os \<Rightarrow> map fst e = [''type'', ''value''] \<and> obj_get e ''type'' = JStr ''conditionalCard'' \<and>
         connector_in [''UNION'', ''INTERSECT''] (obj_get e ''value'') \<and> entries_form os)"

definition segment_form :: "fields list list \<Rightarrow> bool" where
  "segment_form w \<longleftrightarrow> head_rest entries_form later_card_form w"

lemma connector_in_truthy: "connector_in vs c \<Longrightarrow> [] \<notin> set vs \<Longrightarrow> truthy c"
  by (auto simp: connector_in_def)

lemma interaction_saved:
  assumes "normalizeInteractionOnSerialize fs m = Inr o'"
  obtains m' where "\<And>k. k \<noteq> ''event'' \<Longrightarrow> map_of m' k = map_of m k" "distinct (map fst m) \<Longrightarrow> distinct (map fst m')"
    "o' = AList.delete ''time_custom'' (if obj_get m' ''time'' = JStr ''custom'' \<and> \<not> js_nullish (obj_get m' ''time_custom'')
        then jsset ''time'' (obj_get m' ''time_custom'') m' else m')"
proof (cases "truthy (obj_get m ''event_type'') \<and> truthy (obj_get m ''event'')")
  case True
  with assms obtain d where o': "o' = AList.delete ''time_custom''
      (let m' = (case d of Some (c # cs) \<Rightarrow> jsset ''event'' (JStr (c # cs)) m | _ \<Rightarrow> m) in
       if obj_get m' ''time'' = JStr ''custom'' \<and> \<not> js_nullish (obj_get m' ''time_custom'')
       then jsset ''time'' (obj_get m' ''time_custom'') m' else m')"
    unfolding normalizeInteractionOnSerialize_def sumThen_Inr if_P [OF True] Let_def by blast
  have d: "map_of (case d of Some (c # cs) \<Rightarrow> jsset ''event'' (JStr (c # cs)) m | _ \<Rightarrow> m) k = map_of m k"
    if "k \<noteq> ''event''" for k
    using that by (simp split: option.split list.split)
  have "distinct (map fst m) \<Longrightarrow> distinct (map fst (case d of Some (c # cs) \<Rightarrow> jsset ''event'' (JStr (c # cs)) m | _ \<Rightarrow> m))"
    by (simp split: option.split list.split)
  then show ?thesis using that [OF d] o' unfolding Let_def by blast
next
  case False
  with assms have "o' = AList.delete ''time_custom''
      (if obj_get m ''time'' = JStr ''custom'' \<and> \<not> js_nullish (obj_get m ''time_custom'')
       then jsset ''time'' (obj_get m ''time_custom'') m else m)"
    unfolding normalizeInteractionOnSerialize_def sumThen_Inr if_not_P [OF False] by simp
  then show ?thesis using that [of m] by blast
qed

lemma serialize_interaction_keeps:
  assumes "normalizeInteractionOnSerialize fs m = Inr o'" and "k \<noteq> ''event''" "k \<noteq> ''time''" "k \<noteq> ''time_custom''"
  shows "obj_get o' k = obj_get m k"
proof -
  obtain m' where m': "map_of m' k = map_of m k"
    "o' = AList.delete ''time_custom'' (if obj_get m' ''time'' = JStr ''custom'' \<and> \<not> js_nullish (obj_get m' ''time_custom'')
        then jsset ''time'' (obj_get m' ''time_custom'') m' else m')"
    by (rule interaction_saved [OF assms(1)]) (use assms(2) in auto)
  have "obj_get m' k = obj_get m k" by (simp add: obj_get_def m'(1))
  with m'(2) assms(3,4) show ?thesis by simp
qed

lemma interaction_keys:
  assumes "normalizeInteractionOnSerialize fs m = Inr o'" and "distinct (map fst m)" and "map_of m ''stepConnector'' = None"
  shows "distinct (map fst o') \<and> map_of o' ''stepConnector'' = None"
proof -
  obtain m' where "distinct (map fst m')" "map_of m' ''stepConnector'' = None"
    "o' = AList.delete ''time_custom'' (if obj_get m' ''time'' = JStr ''custom'' \<and> \<not> js_nullish (obj_get m' ''time_custom'')
        then jsset ''time'' (obj_get m' ''time_custom'') m' else m')"
    by (rule interaction_saved [OF assms(1)]) (use assms(2,3) in auto)
  then show ?thesis by (simp add: distinct_delete delete_conv)
qed

lemma serialize_known:
  assumes "serializeStep fs (KnownStep m) = Inr e" and "k \<noteq> ''event''" "k \<noteq> ''time''" "k \<noteq> ''time_custom''"
  shows "obj_get e k = obj_get (ser_fields fs m) k"
  using assms serialize_interaction_keeps by (auto simp: serializeStep_known split: if_splits)

lemma serialize_known_keys:
  assumes "serializeStep fs (KnownStep m) = Inr e" and "distinct (map fst m)" and "obj_get m ''conditional'' = JUndefined"
  shows "distinct (map fst e) \<and> map_of e ''stepConnector'' = None"
proof -
  note k = ser_fields_get(2) [OF assms(2,3), of fs] ser_fields_no_connector [OF assms(2), of fs]
  show ?thesis
  proof (cases "obj_get m ''type'' = JStr ''interation''")
    case True
    with assms(1) interaction_keys [OF _ k] show ?thesis by (simp add: serializeStep_known)
  next
    case False
    with assms(1) k show ?thesis by (simp add: serializeStep_known)
  qed
qed

lemma saved_step:
  assumes "step_ok s" and "serializeStep fs s = Inr e"
  shows "obj_get e ''conditional'' = (if truthy (step_connector s) then step_connector s
      else case s of KnownStep m \<Rightarrow> JUndefined | UnsupportedStep i t raw c \<Rightarrow> obj_get raw ''conditional'')"
    and "entry_form e"
    and "known_entry e \<longleftrightarrow> (\<exists>m. s = KnownStep m)"
    and "(obj_get e ''type'' = JStr ''tag'') = (step_kind s = JStr ''tag'')"
proof -
  have "obj_get e ''conditional'' = (if truthy (step_connector s) then step_connector s
      else case s of KnownStep m \<Rightarrow> JUndefined | UnsupportedStep i t raw c \<Rightarrow> obj_get raw ''conditional'') \<and>
    entry_form e \<and> (known_entry e \<longleftrightarrow> (\<exists>m. s = KnownStep m)) \<and>
    (obj_get e ''type'' = JStr ''tag'') = (step_kind s = JStr ''tag'')"
  proof (cases s)
    case (KnownStep m)
    with assms(1) have m: "distinct (map fst m)" "obj_get m ''conditional'' = JUndefined"
      "List.member (map JStr StepTypes) (obj_get m ''type'')"
      by (simp_all add: step_ok_def)
    note e = serialize_known [OF assms(2) [unfolded KnownStep]]
    note g = ser_fields_get(1) [OF m(1,2)]
    have t: "obj_get e ''type'' = obj_get m ''type''"
      using m(3) by (auto simp: e g ser_get_plain_keys StepTypes_def)
    have "obj_get e ''conditional'' = (if truthy (step_connector s) then step_connector s else JUndefined)"
      by (simp add: e g ser_get_conditional KnownStep)
    with serialize_known_keys [OF assms(2) [unfolded KnownStep] m(1,2)] m(3) t KnownStep show ?thesis
      by (auto simp: entry_form_def StepTypes_def)
  next
    case (UnsupportedStep i t raw c)
    with assms show ?thesis
      by (auto simp: step_ok_def serializeStep_def entry_form_def StepTypes_def)
  qed
  then show "obj_get e ''conditional'' = (if truthy (step_connector s) then step_connector s
      else case s of KnownStep m \<Rightarrow> JUndefined | UnsupportedStep i t raw c \<Rightarrow> obj_get raw ''conditional'')"
    "entry_form e" "known_entry e \<longleftrightarrow> (\<exists>m. s = KnownStep m)"
    "(obj_get e ''type'' = JStr ''tag'') = (step_kind s = JStr ''tag'')" by blast+
qed

lemma collect_list_all2: "collect f xs = Inr ys \<longleftrightarrow> list_all2 (\<lambda>x y. f x = Inr y) xs ys"
  by (induction xs arbitrary: ys) (auto simp: sumThen_Inr list_all2_Cons1)

lemma head_rest_rel:
  assumes "list_all2 r xs ys" and "head_rest p q xs" and "\<And>x y. r x y \<Longrightarrow> p x \<Longrightarrow> p' y" and "\<And>x y. r x y \<Longrightarrow> q x \<Longrightarrow> q' y"
  shows "head_rest p' q' ys"
proof (cases xs)
  case (Cons z zs)
  with assms(1) obtain w ws where ys: "ys = w # ws" "r z w" "list_all2 r zs ws" by (auto simp: list_all2_Cons1)
  from ys(3) assms(2,4) Cons have "list_all q' ws" by (auto simp: list_all2_conv_all_nth list_all_length)
  with ys assms(2,3) Cons show ?thesis by auto
qed (use assms(1) in auto)

lemma saved_steps:
  assumes "steps_wf ss" and "collect (serializeStep fs) ss = Inr os"
  shows "entries_form os"
proof -
  let ?r = "\<lambda>s e. step_ok s \<and> serializeStep fs s = Inr e"
  have r: "list_all2 ?r ss os"
    using assms by (auto simp: collect_list_all2 steps_wf_def list_all2_conv_all_nth list_all_length)
  have "head_rest (\<lambda>e. known_entry e \<longrightarrow> obj_get e ''conditional'' = JUndefined)
       (\<lambda>e. connector_in [''and'', ''or''] (obj_get e ''conditional'')) os"
  proof (rule head_rest_rel [OF r])
    show "head_rest (\<lambda>s. step_connector s = JUndefined) step_joins ss" using assms(1) by (simp add: steps_wf_def)
    show "known_entry e \<longrightarrow> obj_get e ''conditional'' = JUndefined"
      if "?r s e" "step_connector s = JUndefined" for s e
      using that saved_step(1,3) [of s fs e] by auto
    show "connector_in [''and'', ''or''] (obj_get e ''conditional'')" if "?r s e" "step_joins s" for s e
      using that saved_step(1) [of s fs e] connector_in_truthy [of _ "step_connector s"] by auto
  qed
  moreover have "list_all entry_form os"
    using r saved_step(2) by (fastforce simp: list_all2_conv_all_nth list_all_length)
  moreover have "list_all2 (\<lambda>s e. (obj_get e ''type'' = JStr ''tag'') = (step_kind s = JStr ''tag'')) ss os"
    using r saved_step(4) by (fastforce simp: list_all2_conv_all_nth)
  then have "tag_steps ss = length (filter (\<lambda>e. obj_get e ''type'' = JStr ''tag'') os)"
    by (induction rule: list_all2_induct) simp_all
  ultimately show ?thesis using assms(1) by (simp add: entries_form_def steps_wf_def)
qed

lemma saved_card:
  assumes "steps_wf (bc_steps c)" and "serialize_card fs c = Inr es"
  shows "bc_connector c = JUndefined \<Longrightarrow> entries_form es" "card_joins c \<Longrightarrow> later_card_form es"
proof -
  from assms(2) obtain os where os: "collect (serializeStep fs) (bc_steps c) = Inr os"
    "es = (if truthy (bc_connector c) then [[(''type'', JStr ''conditionalCard''), (''value'', bc_connector c)]] else []) @ os"
    by (auto simp: serialize_card_def sumThen_Inr)
  note form = saved_steps [OF assms(1) os(1)]
  show "entries_form es" if "bc_connector c = JUndefined" using form os(2) that by simp
  show "later_card_form es" if "card_joins c"
    using form os(2) that connector_in_truthy [OF that] by (simp add: later_card_form_def obj_get_def)
qed

lemma saved_segment:
  assumes "builder_wf cs" and "serializeSteps fs cs = Inr w"
  shows "segment_form w"
proof -
  let ?r = "\<lambda>c es. steps_wf (bc_steps c) \<and> serialize_card fs c = Inr es"
  have r: "list_all2 ?r cs w"
    using assms by (auto simp: serializeSteps_def collect_list_all2 builder_wf_def list_all2_conv_all_nth list_all_length)
  have "head_rest (\<lambda>c. bc_connector c = JUndefined) card_joins cs" using assms(1) by (simp add: builder_wf_def)
  from head_rest_rel [OF r this, of entries_form later_card_form] saved_card show ?thesis
    unfolding segment_form_def by blast
qed

section \<open>Loading what was saved\<close>

lemma loaded_step:
  assumes "entry_form e" and "parseRawStep fs u (JObj e) c = Inr s"
  shows "step_connector s = c" "step_ok s" "step_kind s = JStr ''tag'' \<Longrightarrow> obj_get e ''type'' = JStr ''tag''"
proof -
  have "step_connector s = c \<and> step_ok s \<and> (step_kind s = JStr ''tag'' \<longrightarrow> obj_get e ''type'' = JStr ''tag'')"
  proof (cases "known_entry e")
    case False
    with assms(2) have "s = UnsupportedStep u (obj_get e ''type'') e c"
      by (simp add: parseRawStep_def read_type sumThen_def)
    with False assms(1) show ?thesis by (simp add: step_ok_def entry_form_def)
  next
    case True
    define t where "t = obj_get e ''type''"
    have known: "known_raw t e" using True assms(1) by (simp add: known_raw_def t_def entry_form_def)
    then have m: "distinct (map fst e)" "map_of e ''stepConnector'' = None" by (simp_all add: known_raw_def)
    from assms(2) obtain p where p: "s = KnownStep (if t = JStr ''tag'' then normalizeTagOnParse p else p)"
      "t \<noteq> JStr ''interation'' \<and> p = loaded u t c e \<or> t = JStr ''interation'' \<and>
         (\<exists>as. p = custom_period (with_event as (loaded u t c e)))"
      using parse_loaded [OF m, of fs u c]
      by (auto simp: parse_known [OF known] sumThen_Inr split: if_splits)
    have "distinct (map fst p) \<and> obj_get p ''type'' = t \<and> obj_get p ''conditional'' = JUndefined \<and>
        obj_get p ''stepConnector'' = c"
      using p(2) by (auto simp: distinct_loaded get_loaded [OF m] custom_period_get with_event_get
          custom_period_distinct with_event_distinct)
    with True p(1) show ?thesis
      by (auto simp: step_ok_def tag_parse_get tag_parse_distinct t_def)
  qed
  then show "step_connector s = c" "step_ok s" "step_kind s = JStr ''tag'' \<Longrightarrow> obj_get e ''type'' = JStr ''tag''"
    by blast+
qed

lemma loaded_steps_from:
  assumes "list_all entry_form os" and "parse_entries fs u (Suc j) (map JObj os) = Inr ss"
    and "list_all (\<lambda>e. connector_in [''and'', ''or''] (obj_get e ''conditional'')) os"
  shows "list_all step_joins ss \<and> list_all step_ok ss \<and>
    tag_steps ss \<le> length (filter (\<lambda>e. obj_get e ''type'' = JStr ''tag'') os)"
  using assms
proof (induction os arbitrary: j ss)
  case (Cons e os)
  then obtain s ss' where s: "ss = s # ss'" "parseRawStep fs (u (Suc j)) (JObj e) (obj_get e ''conditional'') = Inr s"
      "parse_entries fs u (Suc (Suc j)) (map JObj os) = Inr ss'"
    by (auto simp: sumThen_Inr)
  with Cons.IH [OF _ s(3)] Cons.prems loaded_step [OF _ s(2)] show ?case by auto
qed simp

lemma loaded_steps:
  assumes "entries_form os" and "parse_entries fs u 0 (map JObj os) = Inr ss"
  shows "steps_wf ss"
proof (cases os)
  case (Cons e es)
  with assms(2) obtain s ss' where s: "ss = s # ss'" "parseRawStep fs (u 0) (JObj e) JUndefined = Inr s"
      "parse_entries fs u (Suc 0) (map JObj es) = Inr ss'"
    by (auto simp: sumThen_Inr)
  have "list_all entry_form es" "list_all (\<lambda>e. connector_in [''and'', ''or''] (obj_get e ''conditional'')) es" "entry_form e"
    using assms(1) Cons by (simp_all add: entries_form_def)
  with loaded_steps_from [OF _ s(3)] loaded_step [OF _ s(2)] s(1) Cons assms(1) show ?thesis
    by (auto simp: steps_wf_def entries_form_def split: if_splits)
qed (use assms in \<open>simp add: steps_wf_def\<close>)

lemma entries_form_plain: "entries_form os \<Longrightarrow> split_entries (map JObj os) = Inr (JUndefined, map JObj os)"
  by (rule split_entries_plain) (auto simp: entries_form_def entry_form_def is_connector_def list_all_iff)

lemma loaded_card:
  assumes "parse_card fs u i (JArr (map JObj es)) = Inr c"
  shows "i = 0 \<Longrightarrow> entries_form es \<Longrightarrow> bc_connector c = JUndefined \<and> steps_wf (bc_steps c)"
    and "i > 0 \<Longrightarrow> later_card_form es \<Longrightarrow> card_joins c \<and> steps_wf (bc_steps c)"
proof -
  show "bc_connector c = JUndefined \<and> steps_wf (bc_steps c)" if "i = 0" "entries_form es"
    using assms that loaded_steps [OF that(2)] by (auto simp: parse_card_def entries_form_plain sumThen_Inr)
  show "card_joins c \<and> steps_wf (bc_steps c)" if "i > 0" "later_card_form es"
  proof -
    from that(2) obtain e os where es: "es = e # os" "obj_get e ''type'' = JStr ''conditionalCard''"
        "connector_in [''UNION'', ''INTERSECT''] (obj_get e ''value'')" "entries_form os"
      by (auto simp: later_card_form_def split: list.splits)
    have "\<not> list_ex (\<lambda>x. get x ''type'' = JStr ''conditionalCard'') (map JObj os)"
      using es(4) by (auto simp: entries_form_def entry_form_def list_ex_iff list_all_iff)
    then have "split_entries (map JObj es) = Inr (obj_get e ''value'', map JObj os)"
      using es(2) entries_form_plain [OF es(4)] by (simp add: es(1) read_type sumThen_def)
    with assms that(1) es(3) loaded_steps [OF es(4)] show ?thesis by (auto simp: parse_card_def sumThen_Inr)
  qed
qed

lemma loaded_cards:
  assumes "parse_cards fs u (Suc i) (map (\<lambda>c. JArr (map JObj c)) w) = Inr cs" and "list_all later_card_form w"
  shows "list_all (\<lambda>c. card_joins c \<and> steps_wf (bc_steps c)) cs"
  using assms
proof (induction w arbitrary: i cs)
  case (Cons es w)
  then obtain c cs' where c: "cs = c # cs'" "parse_card fs (u (Suc i)) (Suc i) (JArr (map JObj es)) = Inr c"
      "parse_cards fs u (Suc (Suc i)) (map (\<lambda>c. JArr (map JObj c)) w) = Inr cs'"
    by (auto simp: sumThen_Inr)
  with Cons.IH [OF c(3)] Cons.prems loaded_card(2) [OF c(2)] show ?case by auto
qed simp

lemma loaded_segment:
  assumes "segment_form w" and "parseSteps fs json u (wire w) = Inr cs"
  shows "builder_wf cs"
proof (cases w)
  case Nil
  with assms show ?thesis by (simp add: parseSteps_def wire_def builder_wf_def)
next
  case (Cons es w')
  with assms(2) obtain c cs' where c: "cs = c # cs'" "parse_card fs (u 0) 0 (JArr (map JObj es)) = Inr c"
      "parse_cards fs u (Suc 0) (map (\<lambda>c. JArr (map JObj c)) w') = Inr cs'"
    by (auto simp: parseSteps_def wire_def sumThen_Inr)
  with loaded_cards [OF c(3)] loaded_card(1) [OF c(2)] assms(1) Cons show ?thesis
    by (auto simp: segment_form_def builder_wf_def list_all_iff)
qed

section \<open>Sessions of the editor\<close>

definition edited :: "builder_action list \<Rightarrow> builder_state" where
  "edited as = fold ui_step as []"

text \<open>C34: whatever a user does in the segment builder (adding, duplicating, removing and
  joining cards and steps, updating steps, loading a segment), in any order, the state keeps
  its shape: the first card has no connector and every later card has UNION or INTERSECT,
  the first step of a card has no connector and every later one has and or or, every known
  step keeps one of the six types, and a card has at most one tag step.\<close>

theorem editor_invariant: "builder_wf (edited as)"
  unfolding edited_def by (rule segm.inv_run)


definition sample_session :: "builder_action list" where
  "sample_session =
     [AddCard ''a'', AddStep ''a'' ''interation'' ''s1'', AddStep ''a'' ''tag'' ''s2'', AddStep ''a'' ''tag'' ''s3'',
      UpdateStep ''a'' ''s1'' ''interation'' [(''event_type'', JStr ''sms''), (''event'', JStr ''click'')],
      DuplicateCard ''a'' ''b'' (\<lambda>j. ''t''), SetCardConnector ''b'' (JStr ''INTERSECT''), SetCardConnector ''a'' (JStr ''UNION''),
      SetStepConnector ''a'' ''s2'' (JStr ''or''), RemoveStep ''a'' ''s1'']"

definition session_saved :: "fields list list" where
  "session_saved = projr (serializeSteps (\<lambda>_. []) (edited sample_session))"

lemma session_saves: "serializeSteps (\<lambda>_. []) (edited sample_session) = Inr session_saved"
  by code_simp


text \<open>The removal of the first step strips the connector of the state only: when the next
  step has a type this builder does not know, the \<open>conditional\<close> of its raw object is still
  saved, and the first step of the card carries it.\<close>

definition unknown_second :: builder_state where
  "unknown_second = [\<lparr>bc_id = ''a'', bc_steps = [KnownStep [(''id'', JStr ''s''), (''type'', JStr ''tag'')],
     UnsupportedStep ''u'' (JStr ''future'') [(''type'', JStr ''future''), (''conditional'', JStr ''or'')] (JStr ''or'')],
     bc_connector = JUndefined\<rparr>]"

lemma removed_first_leaves_conditional:
  "allowed unknown_second (RemoveStep ''a'' ''s'') \<and>
   serializeSteps (\<lambda>_. []) (ui_step (RemoveStep ''a'' ''s'') unknown_second) =
     Inr [[[(''type'', JStr ''future''), (''conditional'', JStr ''or'')]]]"
  by code_simp


end
