(* ===== verification/SegmentSql.thy ===== *)
theory SegmentSql
  imports SegmentEditor
begin

text \<open>
  The generators of segment queries, \<open>packages/segment-query-builder/src\<close>: both versions, with
  the dispatcher. A query is built as the sources build it, by appending to a text and by
  replacing the first occurrence of a placeholder; the two versions share their code but for
  the indentation of continued lines and for interactions and automation states. Steps are
  objects, as the schema of segments requires. The text of fractions, \<open>toISOString\<close> and the
  members of \<open>Object.prototype\<close> are parameters.
\<close>

section \<open>Types and tables (\<open>types.ts\<close>, \<open>parse-event-type.ts\<close>)\<close>

definition TIMES_OPERATORS :: "string list" where
  "TIMES_OPERATORS = [''>='', ''>'', ''='', ''<='', ''<'']"

definition EQUALITY_OPERATORS :: "string list" where
  "EQUALITY_OPERATORS = [''='', ''!='']"

record external_step =
  ex_tableName :: string
  ex_query :: string
  ex_filterType :: "string option"

record tag_like =
  tl_id :: jsval
  tl_accountId :: jsval

record segment_dto =
  sd_steps :: "fields list list"
  sd_addBounced :: bool
  sd_addInvalid :: bool
  sd_addUnsubscribed :: bool
  sd_contactsLimit :: jsval

record gen_env =
  ge_fracStr :: "real \<Rightarrow> string"
  ge_iso :: "jsval \<Rightarrow> string option"
  ge_member :: "string \<Rightarrow> string option"

definition parseEventType :: "jsval \<Rightarrow> jsval" where
  "parseEventType e =
     (if e = JStr ''last_sent_date'' \<or> e = JStr ''last_delivered_date'' then JStr ''delivered''
      else if e = JStr ''last_open_date'' then JStr ''open''
      else if e = JStr ''last_click_date'' then JStr ''click'' else JUndefined)"

definition FieldsType :: "gen_env \<Rightarrow> string \<Rightarrow> string" where
  "FieldsType env k =
     (if k = ''text'' then ''value'' else if k = ''date'' then ''time'' else if k = ''number'' then ''number''
      else case ge_member env k of None \<Rightarrow> ''undefined'' | Some s \<Rightarrow> s)"

section \<open>The text under construction\<close>

record gen_state =
  gs_query :: string
  gs_end :: string
  gs_subs :: nat
  gs_external :: "external_step list"

definition addq :: "string list \<Rightarrow> gen_state \<Rightarrow> gen_state" where
  "addq ts s = s\<lparr>gs_query := gs_query s @ concat ts\<rparr>"

fun replace_first :: "string \<Rightarrow> string \<Rightarrow> string \<Rightarrow> string" where
  "replace_first p r [] = (if p = [] then r else [])"
| "replace_first p r (c # cs) = (if starts_with p (c # cs) then r @ drop (length p) (c # cs) else c # replace_first p r cs)"

definition PLACEHOLDER :: string where "PLACEHOLDER = ''#PUSH_JOIN_REPLACE#''"

definition put_join :: "string \<Rightarrow> gen_state \<Rightarrow> gen_state" where
  "put_join j s = s\<lparr>gs_query := replace_first PLACEHOLDER j (gs_query s)\<rparr>"

text \<open>A step that reads a table filled from ClickHouse: the next number is used up.\<close>

definition add_external :: "external_step \<Rightarrow> gen_state \<Rightarrow> gen_state" where
  "add_external x s = s\<lparr>gs_external := gs_external s @ [x], gs_subs := Suc (gs_subs s)\<rparr>"

definition nl :: "nat \<Rightarrow> string" where
  "nl n = CHR 0x0A # replicate n (CHR '' '')"

definition quo :: "string \<Rightarrow> string" where
  "quo t = CHR 0x27 # t @ [CHR 0x27]"

text \<open>The version of the generator, which fixes the indentation of a continued line.\<close>

datatype version = V1 | V2

definition ind :: "version \<Rightarrow> nat \<Rightarrow> nat \<Rightarrow> string" where
  "ind v a b = nl (case v of V1 \<Rightarrow> a | V2 \<Rightarrow> b)"

definition contacts_join :: "string \<Rightarrow> string" where
  "contacts_join on = ''INNER JOIN contacts_devices ctd '' @ on @
     '' ctd.contact_id = ct.id AND ctd.account_id = ct.account_id''"

definition days_ago :: "string \<Rightarrow> string \<Rightarrow> string" where
  "days_ago tz d = ''(CURRENT_DATE AT TIME ZONE '' @ quo tz @ '' - interval '' @ quo (d @ '' day'') @ '')''"

definition table_name :: "string \<Rightarrow> nat \<Rightarrow> string \<Rightarrow> string" where
  "table_name prefix n tagId = prefix @ show_nat n @ ''_'' @ tagId"

definition replace_time :: "string \<Rightarrow> string" where
  "replace_time t = ''#REPLACE_TIME_'' @ t @ ''_EVENTS_LOGS#''"

section \<open>Operators and counts\<close>

definition times_operator :: "fields \<Rightarrow> string" where
  "times_operator m = (case obj_get m ''conditional_times_value'' of
     JStr s \<Rightarrow> if List.member TIMES_OPERATORS s then s else ''>='' | _ \<Rightarrow> ''>='')"

definition times_count :: "gen_env \<Rightarrow> fields \<Rightarrow> string" where
  "times_count env m =
     (let n = parse_int10 (to_str (ge_fracStr env) (obj_get m ''custom_times_value'')) in
      jsnum_str (ge_fracStr env) (if is_finite n then n else Fin 1))"

definition single_time :: "gen_env \<Rightarrow> fields \<Rightarrow> bool" where
  "single_time env m \<longleftrightarrow> \<not> truthy (obj_get m ''custom_times_value'') \<or>
     parse_int10 (to_str (ge_fracStr env) (obj_get m ''custom_times_value'')) = Fin 1"

definition repeated :: "gen_env \<Rightarrow> fields \<Rightarrow> bool" where
  "repeated env m \<longleftrightarrow>
     num_less (Fin 1) (to_number (to_primitive (ge_fracStr env) (obj_get m ''custom_times_value''))) = Some True"

definition says_yes :: "gen_env \<Rightarrow> fields \<Rightarrow> bool" where
  "says_yes env m \<longleftrightarrow> loose_eq (ge_fracStr env) (obj_get m ''conditional_interation'') (JStr ''yes'')"

definition fstr :: "gen_env \<Rightarrow> fields \<Rightarrow> string \<Rightarrow> string" where
  "fstr env m k = to_str (ge_fracStr env) (obj_get m k)"

section \<open>Interactions\<close>

definition any_channel_step :: "version \<Rightarrow> gen_env \<Rightarrow> string \<Rightarrow> fields \<Rightarrow> gen_state \<Rightarrow> gen_state" where
  "any_channel_step v env tz m s =
     (let time = days_ago tz (fstr env m ''time'') in
      addq ['' (ct.last_open_date >= '', time, '' OR ct.last_click_date >= '', time, '' OR ct.sms_last_click >= '', time,
        ind v 16 28, ''OR ct.whatsapp_last_open >= '', time, '' OR ct.whatsapp_last_click >= '', time,
        '' OR ctd.last_click_date >= '', time, '') '']
       (put_join (contacts_join ''ON'') s))"

definition page_view_step :: "version \<Rightarrow> gen_env \<Rightarrow> tag_like \<Rightarrow> fields \<Rightarrow> gen_state \<Rightarrow> gen_state" where
  "page_view_step v env tag m s =
     (let fs = ge_fracStr env;
          table = table_name ''table_segment_page_view'' (gs_subs s) (to_str fs (tl_id tag));
          value = (if obj_get m ''page_view_filter'' = JStr ''iLike'' then quo (''%'' @ fstr env m ''page_view_value'' @ ''%'')
                   else fstr env m ''page_view_value'');
          conditional = (if obj_get m ''conditional_interation'' = JStr ''yes'' then ''IN'' else ''NOT IN'');
          q = concat [''SELECT contact_id FROM events_logs_v2 WHERE event = '', quo ''page_view'',
            ind v 14 28, ''AND account_id = '', to_str fs (tl_accountId tag),
            ind v 14 28, ''AND time_date > '', replace_time (fstr env m ''time''),
            ind v 14 28, ''AND url '', fstr env m ''page_view_filter'', '' '', value] @
            (if repeated env m
             then concat ['' GROUP BY contact_id'', ind v 16 32, ''HAVING COUNT(contact_id) '', times_operator m, '' '', times_count env m, '' '']
             else []) in
      add_external \<lparr>ex_tableName = table, ex_query = q, ex_filterType = None\<rparr>
        (addq ['' ct.id '', conditional, '' (select contact_id from '', table, '')''] s))"

text \<open>Version 1: the columns of the contact, or a table of events.\<close>

definition has_valid_time :: "fields \<Rightarrow> bool" where
  "has_valid_time m \<longleftrightarrow> \<not> js_nullish (obj_get m ''time'') \<and> obj_get m ''time'' \<noteq> JStr [] \<and> obj_get m ''time'' \<noteq> JStr ''all''"

definition column_step :: "gen_env \<Rightarrow> string \<Rightarrow> fields \<Rightarrow> gen_state \<Rightarrow> gen_state" where
  "column_step env tz m s =
     (let push = (obj_get m ''event_type'' = JStr ''web-push'' \<or> obj_get m ''event_type'' = JStr ''mobile-push'');
          eventFilter = (if push then ''ctd.type = '' @ quo (fstr env m ''event_type'') @ '' AND ctd.'' @ fstr env m ''event''
                         else ''ct.'' @ fstr env m ''event'');
          time = days_ago tz (fstr env m ''time'');
          timeFilter = (if has_valid_time m
            then (if says_yes env m then ''> '' @ time else ''< '' @ time @ '' OR '' @ eventFilter @ '' is null'')
            else (if says_yes env m then ''is not null'' else ''is null'')) in
      addq ['' ('', eventFilter, '' '', timeFilter, '')''] (if push then put_join (contacts_join ''ON'') s else s))"

definition message_filter :: "gen_env \<Rightarrow> fields \<Rightarrow> string" where
  "message_filter env m = concat [''AND message_id = '', to_str (ge_fracStr env) (get (obj_get m ''message'') ''id''), '' '',
     if says_yes env m then [] else ''AND contact_id IS NOT NULL'']"

definition since_filter :: "string \<Rightarrow> gen_env \<Rightarrow> fields \<Rightarrow> string" where
  "since_filter column env m =
     (if loose_eq (ge_fracStr env) (obj_get m ''time'') (JStr ''all'') then []
      else concat ['' AND '', column, '' >= '', replace_time (fstr env m ''time'')])"

definition in_not_in :: "gen_env \<Rightarrow> fields \<Rightarrow> string" where
  "in_not_in env m = (if says_yes env m then ''IN'' else ''NOT IN'')"

definition view_step_v1 :: "gen_env \<Rightarrow> tag_like \<Rightarrow> fields \<Rightarrow> gen_state \<Rightarrow> gen_state" where
  "view_step_v1 env tag m s =
     (let fs = ge_fracStr env;
          table = table_name ''table_segment_view'' (gs_subs s) (to_str fs (tl_id tag));
          q = concat [''SELECT DISTINCT contact_id'', nl 16, ''FROM events_logs_v2'', nl 16, ''WHERE account_id = '',
            to_str fs (tl_accountId tag), nl 16, ''AND event = '', quo (to_str fs (parseEventType (obj_get m ''event''))), nl 16,
            if truthy (obj_get m ''message'') then message_filter env m else [], since_filter ''time_date'' env m] in
      add_external \<lparr>ex_tableName = table, ex_query = q, ex_filterType = None\<rparr>
        (addq ['' ct.id '', in_not_in env m, '' (select contact_id from '', table, '')''] s))"

text \<open>A table of repeated events is dropped at the end of the query.\<close>

definition drop_table :: "string \<Rightarrow> gen_state \<Rightarrow> gen_state" where
  "drop_table t s = s\<lparr>gs_end := gs_end s @ '' DROP TABLE '' @ t @ ''; ''\<rparr>"

definition has_message_id :: "fields \<Rightarrow> bool" where
  "has_message_id m \<longleftrightarrow> truthy (obj_get m ''message'') \<and> truthy (get (obj_get m ''message'') ''id'')"

definition repeated_filters :: "version \<Rightarrow> gen_env \<Rightarrow> fields \<Rightarrow> string" where
  "repeated_filters v env m = concat [
     ind v 18 28, if has_message_id m then '' AND message_id = '' @ to_str (ge_fracStr env) (get (obj_get m ''message'') ''id'') @ '' '' else [],
     ind v 18 28, if loose_eq (ge_fracStr env) (obj_get m ''event_type'') (JStr ''email'')
        then '' AND '' @ (case v of V1 \<Rightarrow> ''message_type'' | V2 \<Rightarrow> ''event_type'') @ '' = '' @ quo ''email'' @ '' '' else [],
     ind v 18 28, if says_yes env m then [] else '' AND contact_id IS NOT NULL'']"

definition repeated_step_v1 :: "gen_env \<Rightarrow> tag_like \<Rightarrow> fields \<Rightarrow> gen_state \<Rightarrow> gen_state" where
  "repeated_step_v1 env tag m s =
     (let fs = ge_fracStr env;
          table = table_name ''table_segment'' (gs_subs s) (to_str fs (tl_id tag));
          q = concat [''SELECT contact_id FROM events_logs_v2 WHERE event = '', quo (to_str fs (parseEventType (obj_get m ''event''))),
            nl 18, ''AND account_id = '', to_str fs (tl_accountId tag),
            nl 18, ''AND time_date >= '', replace_time (fstr env m ''time''), repeated_filters V1 env m,
            nl 18, ''GROUP BY contact_id'', nl 18, ''HAVING COUNT(contact_id) '', times_operator m, '' '', times_count env m] in
      add_external \<lparr>ex_tableName = table, ex_query = q, ex_filterType = None\<rparr>
        (addq ['' ct.id '', in_not_in env m, '' (select contact_id from '', table, '')''] (drop_table table s)))"

definition interaction_step_v1 :: "gen_env \<Rightarrow> tag_like \<Rightarrow> string \<Rightarrow> fields \<Rightarrow> gen_state \<Rightarrow> gen_state" where
  "interaction_step_v1 env tag tz m =
     (if obj_get m ''event_type'' = JStr ''anyChannel'' then any_channel_step V1 env tz m
      else if obj_get m ''event_type'' = JStr ''page_view'' then page_view_step V1 env tag m
      else if obj_get m ''message'' = JStr ''any'' \<and> single_time env m then column_step env tz m
      else if single_time env m then view_step_v1 env tag m
      else repeated_step_v1 env tag m)"

text \<open>Version 2: the daily rollup, joined by e-mail, over the sibling accounts.\<close>

definition view_step_v2 :: "gen_env \<Rightarrow> tag_like \<Rightarrow> string \<Rightarrow> fields \<Rightarrow> gen_state \<Rightarrow> gen_state" where
  "view_step_v2 env tag siblings m s =
     (let fs = ge_fracStr env;
          table = table_name ''table_segment_view'' (gs_subs s) (to_str fs (tl_id tag));
          q = concat [''SELECT DISTINCT email'', nl 28, ''FROM user_events_daily_v3 FINAL'', nl 28,
            ''WHERE account_id IN ('', siblings, '')'', nl 28,
            ''AND event_name = '', quo (to_str fs (parseEventType (obj_get m ''event''))), nl 28,
            ''AND event_type = '', quo (fstr env m ''event_type''), nl 28,
            if has_message_id m then message_filter env m else [], since_filter ''event_date'' env m] in
      add_external \<lparr>ex_tableName = table, ex_query = q, ex_filterType = Some ''email''\<rparr>
        (addq ['' ct.email '', in_not_in env m, '' (select email from '', table, '')''] s))"

definition repeated_step_v2 :: "gen_env \<Rightarrow> tag_like \<Rightarrow> string \<Rightarrow> fields \<Rightarrow> gen_state \<Rightarrow> gen_state" where
  "repeated_step_v2 env tag siblings m s =
     (let fs = ge_fracStr env;
          table = table_name ''table_segment'' (gs_subs s) (to_str fs (tl_id tag));
          q = concat [''SELECT email'', nl 28, ''FROM user_events_daily_v3 FINAL'', nl 28,
            ''WHERE event_name = '', quo (to_str fs (parseEventType (obj_get m ''event''))), nl 28,
            ''AND account_id IN ('', siblings, '')'', nl 28,
            ''AND event_date >= '', replace_time (fstr env m ''time''), repeated_filters V2 env m, nl 28,
            ''GROUP BY email'', nl 28, ''HAVING SUM(total) '', times_operator m, '' '', times_count env m] in
      add_external \<lparr>ex_tableName = table, ex_query = q, ex_filterType = Some ''email''\<rparr>
        (addq ['' ct.email '', in_not_in env m, '' (select email from '', table, '')''] (drop_table table s)))"

definition interaction_step_v2 :: "gen_env \<Rightarrow> tag_like \<Rightarrow> string \<Rightarrow> string \<Rightarrow> fields \<Rightarrow> gen_state \<Rightarrow> gen_state" where
  "interaction_step_v2 env tag siblings tz m =
     (if obj_get m ''event_type'' = JStr ''anyChannel'' then any_channel_step V2 env tz m
      else if obj_get m ''event_type'' = JStr ''page_view'' then page_view_step V2 env tag m
      else if single_time env m then view_step_v2 env tag siblings m
      else repeated_step_v2 env tag siblings m)"

section \<open>Fields and events\<close>

definition lower_case :: "jsval \<Rightarrow> string + string" where
  "lower_case v = (case v of JStr s \<Rightarrow> Inr (to_lower s) | _ \<Rightarrow> Inl ''TypeError'')"

definition custom_field_step :: "version \<Rightarrow> gen_env \<Rightarrow> tag_like \<Rightarrow> fields \<Rightarrow> gen_state \<Rightarrow> string + gen_state" where
  "custom_field_step v env tag m s =
     (let fs = ge_fracStr env;
          kind = (if truthy (obj_get m ''custom_field_type'') then fstr env m ''custom_field_type'' else ''text'') in
      sumThen (lower_case (if loose_eq fs (obj_get m ''conditional_custom_field'') (JStr ''iLike'')
          then JStr (''%'' @ fstr env m ''custom_field_value'' @ ''%'') else obj_get m ''custom_field_value'')) (\<lambda>value.
      Inr (addq ['' ct.id IN ( SELECT contact_id from contacts_custom_fields'',
        ind v 14 24, ''WHERE account_id = '', to_str fs (tl_accountId tag), '' AND custom_field_id = '', fstr env m ''custom_field_id'',
        ind v 14 24, ''and '', FieldsType env kind, '' '', fstr env m ''conditional_custom_field'', '' '', quo value,
        ind v 12 24, '')''] s)))"

definition text_field_step :: "gen_env \<Rightarrow> fields \<Rightarrow> gen_state \<Rightarrow> gen_state" where
  "text_field_step env m s = (case obj_get m ''user_field_value'' of
     JStr value \<Rightarrow>
       if \<not> truthy (obj_get m ''conditional_user_field'') then addq ['' TRUE''] s
       else addq ['' '', fstr env m ''user_field_key'', '' '', fstr env m ''conditional_user_field'', '' '', quo (to_lower value)] s
   | _ \<Rightarrow> addq ['' TRUE''] s)"

definition channel_field_step :: "gen_env \<Rightarrow> segment_dto \<Rightarrow> fields \<Rightarrow> gen_state \<Rightarrow> gen_state" where
  "channel_field_step env dto m s =
     (if \<not> truthy (obj_get m ''user_field_value'') then addq ['' TRUE''] s
      else
        let op = (if obj_get m ''conditional_user_field'' = JStr ''false'' then ''false'' else ''true'');
            s1 = addq ['' ct.'', fstr env m ''user_field_value'', '' = '', op] s in
        if obj_get m ''user_field_value'' = JStr ''has_web_push'' then put_join (contacts_join ''on'') s1
        else if obj_get m ''user_field_value'' = JStr ''has_email'' then
          addq [if sd_addBounced dto then [] else '' AND NOT ct.has_bounced '',
            if sd_addInvalid dto then [] else '' AND ct.is_valid '',
            if sd_addUnsubscribed dto then [] else '' AND NOT ct.is_unsubscribed''] s1
        else s1)"

definition user_field_step :: "gen_env \<Rightarrow> segment_dto \<Rightarrow> string \<Rightarrow> fields \<Rightarrow> gen_state \<Rightarrow> string + gen_state" where
  "user_field_step env dto tz m s =
     (let key = obj_get m ''user_field_key''; op = obj_get m ''conditional_user_field''; fs = ge_fracStr env in
      if \<not> truthy key then Inr (addq ['' TRUE''] s)
      else if key = JStr ''created_at_date'' \<or> key = JStr ''last_automation_date'' then
        if op = JStr ''-'' then
          Inr (addq ['' ct.'', to_str fs key, '' >= '', days_ago tz (fstr env m ''user_field_value'')] s)
        else (case ge_iso env (obj_get m ''user_field_value'') of
            None \<Rightarrow> Inl ''RangeError''
          | Some date \<Rightarrow> Inr (addq ['' '', to_str fs key, '' '', to_str fs (js_coalesce op (JStr ''='')), '' '', quo date] s))
      else if key = JStr ''email_provider'' then
        Inr (addq ['' '', to_str fs key, '' '', (case op of JStr o' \<Rightarrow> if List.member EQUALITY_OPERATORS o' then o' else ''='' | _ \<Rightarrow> ''=''),
          '' '', quo (fstr env m ''user_field_value'')] s)
      else if key = JStr ''is_email_deliverable'' \<and> js_coalesce op (JStr ''true'') = JStr ''true'' then
        Inr (addq ['' ct.is_valid AND ct.is_unsubscribed = false AND ct.has_bounced = false''] s)
      else if key = JStr ''is_email_deliverable'' \<and> js_coalesce op (JStr ''true'') = JStr ''false'' then
        Inr (addq ['' (ct.is_valid = false OR ct.is_unsubscribed = true OR ct.has_bounced = true)''] s)
      else if key = JStr ''communication_channels'' then Inr (channel_field_step env dto m s)
      else Inr (text_field_step env m s))"

text \<open>The properties of a custom event: a \<open>for ... of\<close> over them.\<close>

fun property_filters :: "gen_env \<Rightarrow> jsval list \<Rightarrow> string + string" where
  "property_filters env [] = Inr []"
| "property_filters env (p # ps) =
     sumThen (read_prop p ''property'') (\<lambda>k. sumThen (read_prop p ''value'') (\<lambda>value.
     sumThen (property_filters env ps) (\<lambda>rest.
     Inr (concat ['' AND properties.'', quo (to_str (ge_fracStr env) k), '' = '', quo (to_str (ge_fracStr env) value), rest]))))"

definition iterated :: "jsval \<Rightarrow> string + jsval list" where
  "iterated v = (case v of JArr vs \<Rightarrow> Inr vs | JStr s \<Rightarrow> Inr (map (\<lambda>c. JStr [c]) s) | _ \<Rightarrow> Inl ''TypeError'')"

definition event_period :: "gen_env \<Rightarrow> fields \<Rightarrow> string" where
  "event_period env m =
     (let fs = ge_fracStr env; date = quo (fstr env m ''custom_event_date''); op = fstr env m ''conditional_event_filter'' in
      if loose_eq fs (obj_get m ''time_type'') (JStr ''range'') then
        concat ['' AND time_date BETWEEN '', date, '' AND '', quo (fstr env m ''custom_event_date_end'')]
      else if loose_eq fs (obj_get m ''time_type'') (JStr ''date'') then concat ['' AND time_date '', op, '' '', date]
      else if obj_get m ''time'' = JStr ''current_week'' \<or> obj_get m ''time'' = JStr ''last_week'' then
        concat ['' AND time_date BETWEEN #BETWEEN_REPLACE_'', fstr env m ''time'', '','', fstr env m ''conditional_week_day_filter'', ''_EVENTS_LOGS#'']
      else concat ['' AND time_date '', op, '' '', replace_time (fstr env m ''time'')])"

definition custom_event_step :: "version \<Rightarrow> gen_env \<Rightarrow> tag_like \<Rightarrow> fields \<Rightarrow> gen_state \<Rightarrow> string + gen_state" where
  "custom_event_step v env tag m s =
     (let fs = ge_fracStr env;
          table = table_name ''table_segment_custom_event'' (gs_subs s) (to_str fs (tl_id tag));
          name = (if js_nullish (obj_get m ''event'') then JUndefined else get (obj_get m ''event'') ''name'') in
      sumThen (if truthy (obj_get m ''properties'') then sumThen (iterated (obj_get m ''properties'')) (property_filters env)
               else Inr []) (\<lambda>properties.
      let q = concat [''SELECT contact_id'', ind v 12 24, ''FROM events_logs_v2'', ind v 12 24,
            ''WHERE account_id = '', to_str fs (tl_accountId tag), ind v 12 24,
            ''AND event = '', quo (to_str fs (js_or name (JNum (Fin 0)))), ind v 12 24, ''AND contact_id IS NOT NULL'',
            event_period env m, properties,
            if truthy (obj_get m ''custom_times_value'')
            then concat ['' GROUP BY contact_id'', ind v 14 28, ''HAVING COUNT(contact_id) '', times_operator m, '' '', times_count env m, '' '']
            else []] in
      Inr (add_external \<lparr>ex_tableName = table, ex_query = q, ex_filterType = None\<rparr>
        (addq ['' ct.id '', fstr env m ''conditional_event_type'', '' (select contact_id from '', table, '')''] s))))"

text \<open>Automation states; only version 1 has a case for yesterday.\<close>

definition automation_filters :: "version \<Rightarrow> gen_env \<Rightarrow> fields \<Rightarrow> string" where
  "automation_filters v env m = concat
     [if truthy (obj_get m ''automation'') then '' AND automation_id = '' @ to_str (ge_fracStr env) (get (obj_get m ''automation'') ''id'') else [],
      if obj_get m ''event'' = JStr ''entered'' then [] else '' AND status = '' @ quo (fstr env m ''event''),
      '' GROUP BY contact_id'', ind v 12 24, ''HAVING COUNT(contact_id) '', times_operator m, '' '', times_count env m, '' '', '')'']"

definition automation_step_v1 :: "gen_env \<Rightarrow> tag_like \<Rightarrow> string \<Rightarrow> fields \<Rightarrow> gen_state \<Rightarrow> gen_state" where
  "automation_step_v1 env tag tz m = addq
     ['' ct.id IN (SELECT contact_id'', nl 16, ''FROM contacts_automations'', nl 16,
      ''WHERE account_id = '', to_str (ge_fracStr env) (tl_accountId tag), '' '',
      if loose_eq (ge_fracStr env) (obj_get m ''time'') (JNum (Fin 1))
      then ''AND created_at_date = '' @ days_ago tz (fstr env m ''time'') @ ''::date''
      else ''AND created_at_date >= '' @ days_ago tz (fstr env m ''time''), automation_filters V1 env m]"

definition automation_step_v2 :: "gen_env \<Rightarrow> tag_like \<Rightarrow> string \<Rightarrow> fields \<Rightarrow> gen_state \<Rightarrow> gen_state" where
  "automation_step_v2 env tag tz m = addq
     ['' ct.id IN (SELECT contact_id'', nl 24, ''FROM contacts_automations'', nl 24,
      ''WHERE account_id = '', to_str (ge_fracStr env) (tl_accountId tag), nl 24,
      ''AND created_at_date >= '', days_ago tz (fstr env m ''time''), automation_filters V2 env m]"

section \<open>Steps, cards, queries\<close>

record gen_context =
  gc_version :: version
  gc_env :: gen_env
  gc_tag :: tag_like
  gc_dto :: segment_dto
  gc_siblings :: string
  gc_timeZone :: string

definition step_body :: "gen_context \<Rightarrow> fields \<Rightarrow> gen_state \<Rightarrow> string + gen_state" where
  "step_body c m s =
     (let v = gc_version c; env = gc_env c; tag = gc_tag c; tz = gc_timeZone c; t = obj_get m ''type'' in
      if t = JStr ''interation'' then Inr (case v of
          V1 \<Rightarrow> interaction_step_v1 env tag tz m s
        | V2 \<Rightarrow> interaction_step_v2 env tag (gc_siblings c) tz m s)
      else if t = JStr ''custom_field'' then custom_field_step v env tag m s
      else if t = JStr ''user_field'' then user_field_step env (gc_dto c) tz m s
      else if t = JStr ''custom_event'' then custom_event_step v env tag m s
      else if t = JStr ''automation_state'' then Inr (case v of
          V1 \<Rightarrow> automation_step_v1 env tag tz m s
        | V2 \<Rightarrow> automation_step_v2 env tag tz m s)
      else Inr s)"

text \<open>Where a card stands: nothing written yet, the head written, the condition opened.\<close>

datatype card_status = Fresh | Headed | Opened

definition is_tag :: "gen_env \<Rightarrow> fields \<Rightarrow> bool" where
  "is_tag env m \<longleftrightarrow> loose_eq (ge_fracStr env) (obj_get m ''type'') (JStr ''tag'')"

definition card_head :: "gen_context \<Rightarrow> fields \<Rightarrow> gen_state \<Rightarrow> gen_state" where
  "card_head c m = addq
     [if obj_get m ''type'' = JStr ''conditionalCard'' then '' '' @ fstr (gc_env c) m ''value'' else [],
      '' ( SELECT '', to_str (ge_fracStr (gc_env c)) (tl_id (gc_tag c)), '', ct.id FROM contacts ct'',
      ind (gc_version c) 10 20, PLACEHOLDER, ind (gc_version c) 10 20,
      ''WHERE ct.account_id = '', to_str (ge_fracStr (gc_env c)) (tl_accountId (gc_tag c)), '' AND ct.is_active '']"

definition joined :: "gen_context \<Rightarrow> fields \<Rightarrow> string \<Rightarrow> string" where
  "joined c m otherwise = (if truthy (obj_get m ''conditional'') then '' '' @ fstr (gc_env c) m ''conditional'' else otherwise)"

fun card_steps :: "gen_context \<Rightarrow> fields list \<Rightarrow> card_status \<Rightarrow> gen_state \<Rightarrow> string + (card_status \<times> gen_state \<times> fields list)" where
  "card_steps c [] st s = Inr (st, s, [])"
| "card_steps c (m # ms) st s =
     (let s1 = (if st = Fresh then card_head c m s else s);
          st1 = (if st = Fresh then Headed else st) in
      if is_tag (gc_env c) m then
        sumThen (card_steps c ms st1 s1) (\<lambda>(st', s', tags). Inr (st', s', m # tags))
      else
        let opening = (st1 = Headed \<and> \<not> loose_eq (ge_fracStr (gc_env c)) (obj_get m ''type'') (JStr ''conditionalCard''));
            s2 = (if opening then addq ['' '', joined c m ''AND'', '' ( ''] s1 else addq [joined c m []] s1) in
        sumThen (step_body c m s2) (card_steps c ms (if opening then Opened else st1)))"

definition tag_clause :: "gen_context \<Rightarrow> fields \<Rightarrow> string" where
  "tag_clause c m = concat
     ['' '', if loose_eq (ge_fracStr (gc_env c)) (obj_get m ''conditional_tag'') (JStr ''in'') then '' INTERSECT '' else '' EXCEPT '', '' ('',
      ind (gc_version c) 10 14, ''SELECT '', to_str (ge_fracStr (gc_env c)) (tl_id (gc_tag c)), '', contact_id from contacts_tags'',
      ind (gc_version c) 12 16, ''WHERE account_id = '', to_str (ge_fracStr (gc_env c)) (tl_accountId (gc_tag c)),
      '' AND is_active AND tag_id IN ('', fstr (gc_env c) m ''tag_id'', '')'', ind (gc_version c) 9 13, '')'']"

definition card_query :: "gen_context \<Rightarrow> fields list \<Rightarrow> gen_state \<Rightarrow> string + gen_state" where
  "card_query c ms s =
     sumThen (card_steps c ms Fresh s) (\<lambda>(st, s', tags).
     Inr (addq ((if st = Opened then ['' )''] else []) @ map (tag_clause c) tags @ ['' )'']) (put_join [] s')))"

fun card_queries :: "gen_context \<Rightarrow> fields list list \<Rightarrow> gen_state \<Rightarrow> string + gen_state" where
  "card_queries c [] s = Inr s"
| "card_queries c (ms # mss) s = sumThen (card_query c ms s) (card_queries c mss)"

record generate_result =
  gr_query :: string
  gr_external :: "external_step list option"

definition finish_query :: "gen_context \<Rightarrow> gen_state \<Rightarrow> generate_result" where
  "finish_query c s =
     (let limit = sd_contactsLimit (gc_dto c);
          q = gs_query s @ (if truthy limit then concat ['' LIMIT '', to_str (ge_fracStr (gc_env c)) limit, '' ''] else []) @ '' );'' in
      \<lparr>gr_query = (if gs_end s = [] then q else concat [q, '' '', gs_end s]),
       gr_external = (if gs_external s = [] then None else Some (gs_external s))\<rparr>)"

definition new_query :: gen_state where
  "new_query = \<lparr>gs_query = ''INSERT INTO segment_process ('', gs_end = [], gs_subs = 0, gs_external = []\<rparr>"

definition generated :: "gen_context \<Rightarrow> string + generate_result" where
  "generated c = sumThen (card_queries c (sd_steps (gc_dto c)) new_query) (\<lambda>s. Inr (finish_query c s))"

text \<open>\<open>deps.timeZone || 'UTC'\<close>.\<close>

definition time_zone :: "string option \<Rightarrow> string" where
  "time_zone tz = (case tz of Some (c # cs) \<Rightarrow> c # cs | _ \<Rightarrow> ''UTC'')"

definition generateSegmentQueryV1 :: "gen_env \<Rightarrow> tag_like \<Rightarrow> segment_dto \<Rightarrow> string option \<Rightarrow> string + generate_result" where
  "generateSegmentQueryV1 env tag dto tz = generated
     \<lparr>gc_version = V1, gc_env = env, gc_tag = tag, gc_dto = dto, gc_siblings = [], gc_timeZone = time_zone tz\<rparr>"

definition generateSegmentQueryV2 ::
  "gen_env \<Rightarrow> tag_like \<Rightarrow> segment_dto \<Rightarrow> string option \<Rightarrow> real list option \<Rightarrow> string + generate_result" where
  "generateSegmentQueryV2 env tag dto tz siblingAccounts = (case siblingAccounts of
     None \<Rightarrow> Inl (concat [''generateSegmentQueryV2: siblingAccounts missing for accountId='', to_str (ge_fracStr env) (tl_accountId tag),
       ''. An account routed to V2 must have an entry in V2_SIBLING_ACCOUNTS_BY_ACCOUNT_ID.''])
   | Some ids \<Rightarrow> generated
       \<lparr>gc_version = V2, gc_env = env, gc_tag = tag, gc_dto = dto,
        gc_siblings = join '','' (map (num_str (ge_fracStr env)) ids), gc_timeZone = time_zone tz\<rparr>)"

definition V2_ACCOUNTS :: "real list" where
  "V2_ACCOUNTS = [65, 22, 60, 61]"

definition V2_SIBLING_ACCOUNTS_BY_ACCOUNT_ID :: "(real \<times> real list) list" where
  "V2_SIBLING_ACCOUNTS_BY_ACCOUNT_ID = [(65, [65, 150, 243]), (22, [22, 254]), (60, [60, 159]), (61, [61, 158])]"

definition generateSegmentQuery ::
  "gen_env \<Rightarrow> tag_like \<Rightarrow> segment_dto \<Rightarrow> string option \<Rightarrow> real list \<Rightarrow> (real \<times> real list) list \<Rightarrow> string + generate_result" where
  "generateSegmentQuery env tag dto tz v2Accounts siblings =
     (case tl_accountId tag of
        JNum (Fin a) \<Rightarrow>
          if List.member v2Accounts a then generateSegmentQueryV2 env tag dto tz (map_of siblings a)
          else generateSegmentQueryV1 env tag dto tz
      | _ \<Rightarrow> generateSegmentQueryV1 env tag dto tz)"

definition generateForSegment :: "gen_env \<Rightarrow> tag_like \<Rightarrow> segment_dto \<Rightarrow> string option \<Rightarrow> string + generate_result" where
  "generateForSegment env tag dto tz = generateSegmentQuery env tag dto tz V2_ACCOUNTS V2_SIBLING_ACCOUNTS_BY_ACCOUNT_ID"

end
