(* ===== verification/SegmentQuery.thy ===== *)
theory SegmentQuery
  imports SegmentSql
begin

text \<open>
  What the generators of segment queries produce: the query as a list of cards, each with its
  join, its conditions and its tag clauses, which the edited text implements; the temporary
  tables of a query; and the queries of segments saved by the builder.
\<close>

section \<open>The placeholder\<close>

abbreviation hash :: char where "hash \<equiv> CHR 0x23"

lemma starts_with_append [simp]: "starts_with p (p @ t)"
  by (induction p) simp_all

lemma placeholder_hash: "PLACEHOLDER = hash # tl PLACEHOLDER" "hash \<in> set PLACEHOLDER"
  by (simp_all add: PLACEHOLDER_def)

lemma starts_placeholder: "starts_with PLACEHOLDER (c # cs) \<Longrightarrow> c = hash"
  by (simp add: PLACEHOLDER_def)

lemma replace_none: "hash \<notin> set q \<Longrightarrow> replace_first PLACEHOLDER j q = q"
proof (induction q)
  case (Cons c cs)
  then have "\<not> starts_with PLACEHOLDER (c # cs)" using starts_placeholder by fastforce
  with Cons show ?case by simp
qed (simp add: PLACEHOLDER_def)

lemma replace_hole: "hash \<notin> set pre \<Longrightarrow> replace_first PLACEHOLDER j (pre @ PLACEHOLDER @ post) = pre @ j @ post"
proof (induction pre)
  case Nil
  have "replace_first PLACEHOLDER j (hash # (tl PLACEHOLDER @ post)) =
      (if starts_with PLACEHOLDER (PLACEHOLDER @ post) then j @ drop (length PLACEHOLDER) (PLACEHOLDER @ post)
       else hash # replace_first PLACEHOLDER j (tl PLACEHOLDER @ post))"
    using placeholder_hash(1) by (metis append_Cons replace_first.simps(2))
  then show ?case using placeholder_hash(1) by (metis append_Cons append_Nil append_eq_conv_conj starts_with_append)
next
  case (Cons c cs)
  then have "\<not> starts_with PLACEHOLDER (c # cs @ PLACEHOLDER @ post)" using starts_placeholder by fastforce
  with Cons show ?case by simp
qed

text \<open>The head of the card under construction: the hole is open, or filled by the first join.\<close>

definition hole :: "string option \<Rightarrow> string" where
  "hole h = (case h of None \<Rightarrow> PLACEHOLDER | Some j \<Rightarrow> j)"

definition or_join :: "string option \<Rightarrow> string option \<Rightarrow> string option" where
  "or_join h k = (case h of None \<Rightarrow> k | Some j \<Rightarrow> Some j)"

definition holed :: "string \<Rightarrow> string option \<Rightarrow> string \<Rightarrow> string \<Rightarrow> bool" where
  "holed pre h post q \<longleftrightarrow> q = pre @ hole h @ post \<and> hash \<notin> set pre \<and> hash \<notin> set post \<and>
     (\<forall>j. h = Some j \<longrightarrow> hash \<notin> set j)"

lemma replace_holed:
  "holed pre h post q \<Longrightarrow> hash \<notin> set j \<Longrightarrow> replace_first PLACEHOLDER j q = pre @ hole (or_join h (Some j)) @ post"
  by (cases h) (auto simp: holed_def hole_def or_join_def replace_hole replace_none)

section \<open>The cards of a query\<close>

definition blank :: "nat \<Rightarrow> gen_state" where
  "blank n = \<lparr>gs_query = [], gs_end = [], gs_subs = n, gs_external = []\<rparr>"

lemma blank_simps [simp]: "gs_query (blank n) = []" "gs_end (blank n) = []" "gs_subs (blank n) = n" "gs_external (blank n) = []"
  by (simp_all add: blank_def)

text \<open>The join a step asks for.\<close>

definition step_join :: "gen_context \<Rightarrow> fields \<Rightarrow> string option" where
  "step_join c m =
     (if obj_get m ''type'' = JStr ''interation'' then
        if obj_get m ''event_type'' = JStr ''anyChannel'' then Some (contacts_join ''ON'')
        else if obj_get m ''event_type'' \<in> {JStr ''web-push'', JStr ''mobile-push''} \<and> gc_version c = V1 \<and>
            obj_get m ''message'' = JStr ''any'' \<and> single_time (gc_env c) m then Some (contacts_join ''ON'')
        else None
      else if obj_get m ''type'' = JStr ''user_field'' \<and> obj_get m ''user_field_key'' = JStr ''communication_channels'' \<and>
          obj_get m ''user_field_value'' = JStr ''has_web_push'' then Some (contacts_join ''on'')
      else None)"

lemma join_hash: "step_join c m = Some j \<Longrightarrow> hash \<notin> set j"
  by (auto simp: step_join_def contacts_join_def split: if_splits)

definition grow :: "gen_state \<Rightarrow> string \<Rightarrow> gen_state \<Rightarrow> gen_state" where
  "grow s q b = \<lparr>gs_query = q @ gs_query b, gs_end = gs_end s @ gs_end b, gs_subs = gs_subs b,
     gs_external = gs_external s @ gs_external b\<rparr>"

lemmas state_defs = addq_def put_join_def add_external_def drop_table_def grow_def Let_def

definition frames :: "string option \<Rightarrow> (gen_state \<Rightarrow> string + gen_state) \<Rightarrow> bool" where
  "frames k f \<longleftrightarrow> (\<forall>s b pre h post. f (blank (gs_subs s)) = Inr b \<longrightarrow> hash \<notin> set (gs_query b) \<longrightarrow>
     holed pre h post (gs_query s) \<longrightarrow> f s = Inr (grow s (pre @ hole (or_join h k) @ post) b))"

lemma or_join_none [simp]: "or_join h None = h"
  by (cases h) (simp_all add: or_join_def)

lemma frames_text: "frames None (\<lambda>s. Inr (addq ts s))"
  by (auto simp: frames_def state_defs holed_def)

lemma frames_external: "frames None (\<lambda>s. Inr (add_external (x (gs_subs s)) (addq (ts (gs_subs s)) s)))"
  by (auto simp: frames_def state_defs holed_def)

lemma frames_dropped:
  "frames None (\<lambda>s. Inr (add_external (x (gs_subs s)) (addq (ts (gs_subs s)) (drop_table (t (gs_subs s)) s))))"
  by (auto simp: frames_def state_defs holed_def)

lemma placeholder_nonempty [simp]: "PLACEHOLDER \<noteq> []"
  by (simp add: PLACEHOLDER_def)

lemma frames_join: "hash \<notin> set j \<Longrightarrow> frames (Some j) (\<lambda>s. Inr (addq ts (put_join j s)))"
  by (auto simp: frames_def state_defs replace_holed replace_none)

lemma holed_more: "holed pre h post q \<Longrightarrow> hash \<notin> set t \<Longrightarrow> holed pre h (post @ t) (q @ t)"
  by (auto simp: holed_def)

lemma frames_late_join:
  "hash \<notin> set j \<Longrightarrow> hash \<notin> set (concat ts) \<Longrightarrow> frames (Some j) (\<lambda>s. Inr (put_join j (addq ts s)))"
  by (auto simp: frames_def state_defs replace_holed [OF holed_more] replace_none)

lemma frames_error: "frames k (\<lambda>s. Inl e)"
  by (simp add: frames_def)

lemma frames_bind: "(\<And>x. frames k (f x)) \<Longrightarrow> frames k (\<lambda>s. sumThen r (\<lambda>x. f x s))"
  by (cases r) (auto simp: sumThen_def frames_error)

lemma frames_keep: "frames None Inr"
  by (auto simp: frames_def grow_def holed_def)

lemma frames_if: "frames k f \<Longrightarrow> frames k g \<Longrightarrow> frames k (\<lambda>s. if P then f s else g s)"
  by (cases P) simp_all

lemmas frames_intros = frames_text frames_external frames_dropped frames_join frames_late_join frames_error frames_keep

lemma join_on_hash: "hash \<notin> set (contacts_join ''ON'')" "hash \<notin> set (contacts_join ''on'')"
  by (simp_all add: contacts_join_def)

lemma frames_interaction_v1:
  assumes "obj_get m ''type'' = JStr ''interation''" and "gc_version c = V1"
  shows "frames (step_join c m) (\<lambda>s. Inr (interaction_step_v1 (gc_env c) tag tz m s))"
proof -
  have any: "frames (Some (contacts_join ''ON'')) (\<lambda>s. Inr (any_channel_step v env tz m s))" for v env
    unfolding any_channel_step_def Let_def by (rule frames_join [OF join_on_hash(1)])
  have page: "frames None (\<lambda>s. Inr (page_view_step v env tag m s))" for v env
    unfolding page_view_step_def Let_def by (rule frames_external)
  have view: "frames None (\<lambda>s. Inr (view_step_v1 env tag m s))" for env
    unfolding view_step_v1_def Let_def by (rule frames_external)
  have again: "frames None (\<lambda>s. Inr (repeated_step_v1 env tag m s))" for env
    unfolding repeated_step_v1_def Let_def by (rule frames_dropped)
  have column: "frames (if obj_get m ''event_type'' \<in> {JStr ''web-push'', JStr ''mobile-push''}
      then Some (contacts_join ''ON'') else None) (\<lambda>s. Inr (column_step env tz m s))" for env
    using frames_join [OF join_on_hash(1)] frames_text by (auto simp: column_step_def Let_def)
  show ?thesis
    using any page view again column [of "gc_env c"] assms
    by (auto simp: interaction_step_v1_def step_join_def split: if_splits)
qed

lemma frames_interaction_v2:
  assumes "obj_get m ''type'' = JStr ''interation''" and "gc_version c = V2"
  shows "frames (step_join c m) (\<lambda>s. Inr (interaction_step_v2 (gc_env c) tag siblings tz m s))"
proof -
  have any: "frames (Some (contacts_join ''ON'')) (\<lambda>s. Inr (any_channel_step v env tz m s))" for v env
    unfolding any_channel_step_def Let_def by (rule frames_join [OF join_on_hash(1)])
  have page: "frames None (\<lambda>s. Inr (page_view_step v env tag m s))" for v env
    unfolding page_view_step_def Let_def by (rule frames_external)
  have view: "frames None (\<lambda>s. Inr (view_step_v2 env tag siblings m s))" for env
    unfolding view_step_v2_def Let_def by (rule frames_external)
  have again: "frames None (\<lambda>s. Inr (repeated_step_v2 env tag siblings m s))" for env
    unfolding repeated_step_v2_def Let_def by (rule frames_dropped)
  show ?thesis
    using any page view again assms by (auto simp: interaction_step_v2_def step_join_def)
qed

lemma frames_channel:
  assumes "obj_get m ''type'' = JStr ''user_field''" and "obj_get m ''user_field_key'' = JStr ''communication_channels''"
  shows "frames (step_join c m) (\<lambda>s. Inr (channel_field_step (gc_env c) dto m s))"
proof (cases "obj_get m ''user_field_value'' = JStr ''has_web_push''")
  case True
  then show ?thesis
    using assms frames_late_join [OF join_on_hash(2)] by (simp add: channel_field_step_def step_join_def fstr_def Let_def)
next
  case False
  have two: "frames None (\<lambda>s. Inr (addq ts (addq us s)))" for ts us
    using frames_text [of "us @ ts"] by (simp add: addq_def)
  consider "\<not> truthy (obj_get m ''user_field_value'')" | "obj_get m ''user_field_value'' = JStr ''has_email''"
    | "truthy (obj_get m ''user_field_value'')" "obj_get m ''user_field_value'' \<noteq> JStr ''has_email''" by blast
  then have "frames None (\<lambda>s. Inr (channel_field_step (gc_env c) dto m s))"
  proof cases
    case 1
    show ?thesis unfolding channel_field_step_def if_P [OF 1] by (rule frames_text)
  next
    case 2
    then show ?thesis unfolding channel_field_step_def Let_def by (simp only: truthy.simps) (simp add: two)
  next
    case 3
    with False show ?thesis unfolding channel_field_step_def Let_def by (simp add: frames_text)
  qed
  with False assms show ?thesis by (simp add: step_join_def)
qed

lemma frames_user_field:
  assumes "obj_get m ''type'' = JStr ''user_field''"
  shows "frames (step_join c m) (user_field_step (gc_env c) dto tz m)"
proof (cases "obj_get m ''user_field_key'' = JStr ''communication_channels''")
  case True
  with frames_channel [OF assms True] show ?thesis by (simp add: user_field_step_def [abs_def] Let_def)
next
  case False
  have plain: "frames None (\<lambda>s. Inr (text_field_step env m s))" for env
    using frames_text
    by (cases "obj_get m ''user_field_value''"; cases "truthy (obj_get m ''conditional_user_field'')") (simp_all add: text_field_step_def)
  have dated: "frames None (\<lambda>s. case d of None \<Rightarrow> Inl e | Some x \<Rightarrow> Inr (addq (ts x) s))" for d e and ts :: "string \<Rightarrow> string list"
    using frames_text frames_error by (cases d) auto
  have "frames None (user_field_step (gc_env c) dto tz m)"
    unfolding user_field_step_def [abs_def] Let_def if_not_P [OF False]
    by (intro frames_if plain dated frames_text)
  with False assms show ?thesis by (simp add: step_join_def)
qed

lemma frames_body: "frames (step_join c m) (step_body c m)"
proof -
  consider "obj_get m ''type'' = JStr ''interation''" | "obj_get m ''type'' = JStr ''custom_field''"
    | "obj_get m ''type'' = JStr ''user_field''" | "obj_get m ''type'' = JStr ''custom_event''"
    | "obj_get m ''type'' = JStr ''automation_state''"
    | "obj_get m ''type'' \<notin> {JStr ''interation'', JStr ''custom_field'', JStr ''user_field'', JStr ''custom_event'', JStr ''automation_state''}"
    by blast
  then show ?thesis
  proof cases
    case 1
    then show ?thesis
      using frames_interaction_v1 [OF 1] frames_interaction_v2 [OF 1]
      by (cases "gc_version c") (simp_all add: step_body_def [abs_def] Let_def)
  next
    case 2
    have "frames None (custom_field_step v env tag m)" for v env tag
      unfolding custom_field_step_def Let_def by (rule frames_bind) (rule frames_text)
    with 2 show ?thesis by (simp add: step_body_def [abs_def] step_join_def Let_def)
  next
    case 3
    with frames_user_field [OF 3] show ?thesis by (simp add: step_body_def [abs_def] Let_def)
  next
    case 4
    have "frames None (custom_event_step v env tag m)" for v env tag
      unfolding custom_event_step_def Let_def by (rule frames_bind) (rule frames_external)
    with 4 show ?thesis by (simp add: step_body_def [abs_def] step_join_def Let_def)
  next
    case 5
    then show ?thesis
      using frames_text
      by (cases "gc_version c") (simp_all add: step_body_def [abs_def] step_join_def automation_step_v1_def automation_step_v2_def Let_def)
  next
    case 6
    then show ?thesis using frames_keep by (simp add: step_body_def [abs_def] step_join_def Let_def)
  qed
qed

section \<open>The specification of a card\<close>

record card_spec =
  cs_connector :: string
  cs_join :: "string option"
  cs_conditions :: "(string \<times> string) list"
  cs_tags :: "string list"

definition condition_steps :: "gen_context \<Rightarrow> fields list \<Rightarrow> fields list" where
  "condition_steps c ms = filter (\<lambda>m. \<not> is_tag (gc_env c) m) ms"

text \<open>The conditions of a card with their connectors, each written on its own; what they add
  besides is the rest of the result.\<close>

fun conditions :: "gen_context \<Rightarrow> nat \<Rightarrow> string \<Rightarrow> fields list \<Rightarrow> string + ((string \<times> string) list \<times> gen_state)" where
  "conditions c n otherwise [] = Inr ([], blank n)"
| "conditions c n otherwise (m # ms) =
     sumThen (step_body c m (blank n)) (\<lambda>b.
     sumThen (conditions c (gs_subs b) [] ms) (\<lambda>(ps, r).
     Inr ((joined c m otherwise, gs_query b) # ps, grow (b\<lparr>gs_query := []\<rparr>) [] r)))"

definition first_join :: "gen_context \<Rightarrow> fields list \<Rightarrow> string option" where
  "first_join c ms = foldl or_join None (map (step_join c) ms)"

definition card_of :: "gen_context \<Rightarrow> string \<Rightarrow> fields list \<Rightarrow> nat \<Rightarrow> string + (card_spec \<times> gen_state)" where
  "card_of c connector ms n =
     sumThen (conditions c n ''AND'' (condition_steps c ms)) (\<lambda>(ps, r).
     Inr (\<lparr>cs_connector = connector, cs_join = first_join c (condition_steps c ms), cs_conditions = ps,
           cs_tags = map (tag_clause c) (filter (is_tag (gc_env c)) ms)\<rparr>, r))"

definition render_conditions :: "(string \<times> string) list \<Rightarrow> string" where
  "render_conditions ps = (case ps of [] \<Rightarrow> []
     | (j, p) # qs \<Rightarrow> concat ['' '', j, '' ( '', p, concat (map (\<lambda>(j, p). j @ p) qs), '' )''])"

definition head_text :: "gen_context \<Rightarrow> string" where
  "head_text c = concat ['' ( SELECT '', to_str (ge_fracStr (gc_env c)) (tl_id (gc_tag c)), '', ct.id FROM contacts ct'', ind (gc_version c) 10 20]"

definition where_text :: "gen_context \<Rightarrow> string" where
  "where_text c = concat [ind (gc_version c) 10 20, ''WHERE ct.account_id = '',
     to_str (ge_fracStr (gc_env c)) (tl_accountId (gc_tag c)), '' AND ct.is_active '']"

definition render_card :: "gen_context \<Rightarrow> card_spec \<Rightarrow> string" where
  "render_card c k = concat [cs_connector k, head_text c, case cs_join k of None \<Rightarrow> [] | Some j \<Rightarrow> j, where_text c,
     render_conditions (cs_conditions k), concat (cs_tags k), '' )'']"

lemma or_join_assoc: "or_join (or_join h k) l = or_join h (or_join k l)"
  by (cases h) (simp_all add: or_join_def)

lemma foldl_or_join: "foldl or_join h ks = or_join h (foldl or_join None ks)"
proof (induction ks arbitrary: h)
  case (Cons k ks)
  have "foldl or_join (or_join h k) ks = or_join (or_join h k) (foldl or_join None ks)"
    and "foldl or_join (or_join None k) ks = or_join (or_join None k) (foldl or_join None ks)"
    by (rule Cons.IH)+
  then show ?case by (simp add: or_join_assoc) (simp add: or_join_def)
qed simp

lemma first_join_simps: "first_join c [] = None" "first_join c (m # ms) = or_join (step_join c m) (first_join c ms)"
  using foldl_or_join [of "or_join None (step_join c m)" "map (step_join c) ms"] by (simp_all add: first_join_def) (simp add: or_join_def)

abbreviation plain_pairs :: "(string \<times> string) list \<Rightarrow> bool" where
  "plain_pairs ps \<equiv> list_all (\<lambda>(j, p). hash \<notin> set j \<and> hash \<notin> set p) ps"

definition pairs_text :: "(string \<times> string) list \<Rightarrow> string" where
  "pairs_text ps = concat (map (\<lambda>(j, p). j @ p) ps)"

lemma grow_simps [simp]:
  "gs_query (grow s q b) = q @ gs_query b" "gs_end (grow s q b) = gs_end s @ gs_end b" "gs_subs (grow s q b) = gs_subs b"
  "gs_external (grow s q b) = gs_external s @ gs_external b"
  by (simp_all add: grow_def)

lemma joined_body:
  assumes "step_body c m (blank (gs_subs s)) = Inr b" and "hash \<notin> set (gs_query b)" and "hash \<notin> set j"
    and "holed pre h post (gs_query s)"
  shows "step_body c m (addq [j] s) = Inr (grow s (pre @ hole (or_join h (step_join c m)) @ post @ j) b)"
    and "holed pre (or_join h (step_join c m)) (post @ j @ gs_query b) (pre @ hole (or_join h (step_join c m)) @ post @ j @ gs_query b)"
proof -
  have "holed pre h (post @ j) (gs_query (addq [j] s))"
    using holed_more [OF assms(4,3)] by (simp add: addq_def)
  moreover have "gs_subs (addq [j] s) = gs_subs s" by (simp add: addq_def)
  ultimately have "step_body c m (addq [j] s) = Inr (grow (addq [j] s) (pre @ hole (or_join h (step_join c m)) @ post @ j) b)"
    using frames_body [of c m] assms(1,2) unfolding frames_def by (metis append_assoc)
  then show "step_body c m (addq [j] s) = Inr (grow s (pre @ hole (or_join h (step_join c m)) @ post @ j) b)"
    by (simp add: grow_def addq_def)
  show "holed pre (or_join h (step_join c m)) (post @ j @ gs_query b) (pre @ hole (or_join h (step_join c m)) @ post @ j @ gs_query b)"
    using assms by (auto simp: holed_def or_join_def dest: join_hash split: option.splits)
qed

abbreviation no_connector :: "gen_context \<Rightarrow> fields \<Rightarrow> bool" where
  "no_connector c m \<equiv> \<not> loose_eq (ge_fracStr (gc_env c)) (obj_get m ''type'') (JStr ''conditionalCard'')"

text \<open>The state after the conditions of an opened card.\<close>

lemma conditions_plain_state: "conditions c n t ms = Inr (ps, r) \<Longrightarrow> gs_query r = []"
  by (induction ms arbitrary: n t ps r) (auto simp: sumThen_Inr)

lemma opened_steps:
  assumes "conditions c (gs_subs s) [] (condition_steps c ms) = Inr (ps, r)" and "plain_pairs ps"
    and "holed pre h post (gs_query s)"
  shows "card_steps c ms Opened s = Inr (Opened,
      grow s (pre @ hole (or_join h (first_join c (condition_steps c ms))) @ post @ pairs_text ps) r,
      filter (is_tag (gc_env c)) ms)"
  using assms
proof (induction ms arbitrary: s ps r h post)
  case Nil
  then show ?case by (auto simp: condition_steps_def first_join_simps pairs_text_def grow_def holed_def)
next
  case (Cons m ms)
  show ?case
  proof (cases "is_tag (gc_env c) m")
    case True
    with Cons.IH [OF _ Cons.prems(2,3)] Cons.prems(1) show ?thesis
      by (simp add: condition_steps_def sumThen_def)
  next
    case False
    then have steps: "condition_steps c (m # ms) = m # condition_steps c ms" by (simp add: condition_steps_def)
    from Cons.prems(1) obtain b qs r' where b: "step_body c m (blank (gs_subs s)) = Inr b"
        "conditions c (gs_subs b) [] (condition_steps c ms) = Inr (qs, r')"
        "ps = (joined c m [], gs_query b) # qs" "r = grow (b\<lparr>gs_query := []\<rparr>) [] r'"
      unfolding steps by (auto simp: sumThen_Inr)
    have plain: "hash \<notin> set (joined c m [])" "hash \<notin> set (gs_query b)" "plain_pairs qs"
      using Cons.prems(2) b(3) by simp_all
    note body = joined_body [OF b(1) plain(2,1) Cons.prems(3)]
    let ?s = "grow s (pre @ hole (or_join h (step_join c m)) @ post @ joined c m []) b"
    have next_step: "conditions c (gs_subs ?s) [] (condition_steps c ms) = Inr (qs, r')"
      "holed pre (or_join h (step_join c m)) (post @ joined c m [] @ gs_query b) (gs_query ?s)"
      using b(2) body(2) by simp_all
    from Cons.IH [OF next_step(1) plain(3) next_step(2)] body(1) False conditions_plain_state [OF b(2)]
    show ?thesis
      by (simp add: sumThen_def steps first_join_simps or_join_assoc b(3,4) pairs_text_def grow_def)
  qed
qed

definition open_text :: "(string \<times> string) list \<Rightarrow> string" where
  "open_text ps = (case ps of [] \<Rightarrow> [] | (j, p) # qs \<Rightarrow> '' '' @ j @ '' ( '' @ p @ pairs_text qs)"

lemma render_open: "render_conditions ps = open_text ps @ (if ps = [] then [] else '' )'')"
  by (cases ps) (auto simp: render_conditions_def open_text_def pairs_text_def)

lemma addq_concat: "addq ts s = addq [concat ts] s"
  by (simp add: addq_def)

text \<open>The state after the conditions of a card whose head is written.\<close>

lemma headed_steps:
  assumes "conditions c (gs_subs s) ''AND'' (condition_steps c ms) = Inr (ps, r)" and "plain_pairs ps"
    and "holed pre None post (gs_query s)" and "list_all (no_connector c) ms"
  shows "card_steps c ms Headed s = Inr (if ps = [] then Headed else Opened,
      grow s (pre @ hole (first_join c (condition_steps c ms)) @ post @ open_text ps) r,
      filter (is_tag (gc_env c)) ms)"
  using assms
proof (induction ms arbitrary: ps r)
  case Nil
  then show ?case by (auto simp: condition_steps_def first_join_simps open_text_def grow_def holed_def)
next
  case (Cons m ms)
  show ?case
  proof (cases "is_tag (gc_env c) m")
    case True
    with Cons.IH [OF _ Cons.prems(2,3)] Cons.prems(1,4) show ?thesis
      by (simp add: condition_steps_def sumThen_def)
  next
    case False
    then have steps: "condition_steps c (m # ms) = m # condition_steps c ms" by (simp add: condition_steps_def)
    from Cons.prems(1) obtain b qs r' where b: "step_body c m (blank (gs_subs s)) = Inr b"
        "conditions c (gs_subs b) [] (condition_steps c ms) = Inr (qs, r')"
        "ps = (joined c m ''AND'', gs_query b) # qs" "r = grow (b\<lparr>gs_query := []\<rparr>) [] r'"
      unfolding steps by (auto simp: sumThen_Inr)
    define j where "j = '' '' @ joined c m ''AND'' @ '' ( ''"
    have plain: "hash \<notin> set j" "hash \<notin> set (gs_query b)" "plain_pairs qs"
      using Cons.prems(2) b(3) by (simp_all add: j_def)
    note body = joined_body [OF b(1) plain(2,1) Cons.prems(3)]
    let ?s = "grow s (pre @ hole (or_join None (step_join c m)) @ post @ j) b"
    have next_step: "conditions c (gs_subs ?s) [] (condition_steps c ms) = Inr (qs, r')"
      "holed pre (or_join None (step_join c m)) (post @ j @ gs_query b) (gs_query ?s)"
      using b(2) body(2) by simp_all
    have opened: "addq ['' '', joined c m ''AND'', '' ( ''] s = addq [j] s"
      by (simp add: addq_def j_def)
    have rest: "card_steps c ms Opened ?s = Inr (Opened,
        grow ?s (pre @ hole (or_join (or_join None (step_join c m)) (first_join c (condition_steps c ms))) @
          (post @ j @ gs_query b) @ pairs_text qs) r', filter (is_tag (gc_env c)) ms)"
      by (rule opened_steps [OF next_step(1) plain(3) next_step(2)])
    have "card_steps c (m # ms) Headed s = sumThen (step_body c m (addq [j] s)) (card_steps c ms Opened)"
      using False Cons.prems(4) opened by simp
    also have "\<dots> = card_steps c ms Opened ?s" by (simp add: body(1) sumThen_def)
    finally show ?thesis
      using rest False conditions_plain_state [OF b(2)]
      by (simp add: steps first_join_simps b(3,4) open_text_def grow_def j_def or_join_def)
  qed
qed

lemma first_join_hash: "first_join c ms = Some j \<Longrightarrow> hash \<notin> set j"
proof (induction ms)
  case (Cons m ms)
  then show ?case
    by (cases "step_join c m") (auto simp: first_join_simps or_join_def dest: join_hash)
qed (simp add: first_join_simps)

lemma joined_none: "obj_get m ''conditional'' = JUndefined \<Longrightarrow> joined c m t = t"
  by (simp add: joined_def)

definition plain_tag :: "gen_context \<Rightarrow> bool" where
  "plain_tag c \<longleftrightarrow> hash \<notin> set (to_str (ge_fracStr (gc_env c)) (tl_id (gc_tag c))) \<and>
     hash \<notin> set (to_str (ge_fracStr (gc_env c)) (tl_accountId (gc_tag c)))"

lemma head_holed:
  assumes "plain_tag c" and "hash \<notin> set q" and "hash \<notin> set k"
  shows "holed (q @ k @ head_text c) None (where_text c) (q @ k @ head_text c @ PLACEHOLDER @ where_text c)"
  using assms by (auto simp: holed_def hole_def head_text_def where_text_def plain_tag_def ind_def nl_def split: version.splits)

text \<open>The rest of a card, from its written head on.\<close>

lemma card_from_head:
  assumes "card_of c k ms (gs_subs s) = Inr (spec, r)" and "plain_pairs (cs_conditions spec)"
    and "list_all (no_connector c) ms" and "plain_tag c" and "hash \<notin> set (gs_query s)" and "hash \<notin> set k"
    and "gs_query s' = gs_query s @ k @ head_text c @ PLACEHOLDER @ where_text c"
    and "gs_end s' = gs_end s" "gs_subs s' = gs_subs s" "gs_external s' = gs_external s"
  shows "sumThen (card_steps c ms Headed s') (\<lambda>(st, s', tags).
     Inr (addq ((if st = Opened then ['' )''] else []) @ map (tag_clause c) tags @ ['' )'']) (put_join [] s'))) =
     Inr (grow s (gs_query s @ render_card c spec) r)"
proof -
  from assms(1) obtain ps where ps: "conditions c (gs_subs s') ''AND'' (condition_steps c ms) = Inr (ps, r)"
      "spec = \<lparr>cs_connector = k, cs_join = first_join c (condition_steps c ms), cs_conditions = ps,
           cs_tags = map (tag_clause c) (filter (is_tag (gc_env c)) ms)\<rparr>"
    unfolding card_of_def assms(9) by (auto simp: sumThen_Inr)
  have plain: "plain_pairs ps" using assms(2) ps(2) by simp
  let ?pre = "gs_query s @ k @ head_text c" and ?j = "first_join c (condition_steps c ms)"
  have h: "holed ?pre None (where_text c) (gs_query s')"
    using head_holed [OF assms(4,5,6)] assms(7) by simp
  note steps = headed_steps [OF ps(1) plain h assms(3)]
  note join = first_join_hash [of c "condition_steps c ms"]
  have open_plain: "hash \<notin> set (open_text ps)"
    using plain by (cases ps) (auto simp: open_text_def pairs_text_def list_all_iff)
  have "holed ?pre ?j (where_text c @ open_text ps) (?pre @ hole ?j @ where_text c @ open_text ps)"
    using h join open_plain by (auto simp: holed_def)
  from replace_holed [OF this, of "[]"]
  have "replace_first PLACEHOLDER [] (?pre @ hole ?j @ where_text c @ open_text ps) =
      ?pre @ (case ?j of None \<Rightarrow> [] | Some j \<Rightarrow> j) @ where_text c @ open_text ps"
    by (simp add: hole_def or_join_def split: option.splits)
  then show ?thesis
    using conditions_plain_state [OF ps(1)] assms(8-10)
    by (simp add: steps sumThen_def addq_def put_join_def grow_def render_card_def ps(2) render_open)
qed

section \<open>The specification of a query\<close>

definition spec_of :: "gen_context \<Rightarrow> bool \<Rightarrow> fields list \<Rightarrow> nat \<Rightarrow> string + (card_spec \<times> gen_state)" where
  "spec_of c first ms n =
     (if first then card_of c [] ms n
      else case ms of [] \<Rightarrow> Inl ''no card'' | e # os \<Rightarrow> card_of c ('' '' @ fstr (gc_env c) e ''value'') os n)"

fun query_specs :: "gen_context \<Rightarrow> bool \<Rightarrow> fields list list \<Rightarrow> nat \<Rightarrow> string + (card_spec list \<times> gen_state)" where
  "query_specs c first [] n = Inr ([], blank n)"
| "query_specs c first (ms # mss) n =
     sumThen (spec_of c first ms n) (\<lambda>(k, r).
     sumThen (query_specs c False mss (gs_subs r)) (\<lambda>(ks, r').
     Inr (k # ks, grow r [] r')))"

definition typed_steps :: "fields list \<Rightarrow> bool" where
  "typed_steps ms \<longleftrightarrow> list_all (\<lambda>m. case obj_get m ''type'' of JStr s \<Rightarrow> True | _ \<Rightarrow> False) ms"

lemma loose_str: "loose_eq fs (JStr s) (JStr t) \<longleftrightarrow> s = t"
  by (simp add: loose_eq_def to_primitive_def)

lemma entries_no_connector:
  assumes "entries_form ms" and "typed_steps ms"
  shows "list_all (no_connector c) ms"
  unfolding list_all_iff
proof
  fix m assume m: "m \<in> set ms"
  with assms obtain t where "obj_get m ''type'' = JStr t"
    by (cases "obj_get m ''type''") (auto simp: typed_steps_def list_all_iff dest!: bspec [of _ _ m])
  with m assms(1) show "no_connector c m"
    by (auto simp: entries_form_def list_all_iff entry_form_def loose_str)
qed

lemma first_card:
  assumes "card_of c [] ms (gs_subs s) = Inr (spec, r)" and "plain_pairs (cs_conditions spec)" and "plain_tag c"
    and "hash \<notin> set (gs_query s)" and "entries_form ms" "typed_steps ms" "ms \<noteq> []"
  shows "card_query c ms s = Inr (grow s (gs_query s @ render_card c spec) r)"
proof -
  obtain m os where ms: "ms = m # os" using assms(7) by (cases ms) auto
  have "obj_get m ''type'' \<noteq> JStr ''conditionalCard''"
    using assms(5) by (simp add: ms entries_form_def entry_form_def)
  then have head: "gs_query (card_head c m s) = gs_query s @ [] @ head_text c @ PLACEHOLDER @ where_text c"
    by (simp add: card_head_def addq_def head_text_def where_text_def)
  have "card_steps c ms Fresh s = card_steps c ms Headed (card_head c m s)"
    by (simp add: ms)
  then show ?thesis
    unfolding card_query_def
    using card_from_head [OF assms(1,2) entries_no_connector [OF assms(5,6)] assms(3,4) _ head]
    by (simp add: card_head_def addq_def)
qed

lemma later_card:
  assumes "card_of c ('' '' @ fstr (gc_env c) e ''value'') ms (gs_subs s) = Inr (spec, r)"
    and "plain_pairs (cs_conditions spec)" and "plain_tag c" and "hash \<notin> set (gs_query s)" and "later_card_form (e # ms)" "typed_steps ms"
  shows "card_query c (e # ms) s = Inr (grow s (gs_query s @ render_card c spec) r)"
proof -
  from assms(5) have e: "map fst e = [''type'', ''value'']" "obj_get e ''type'' = JStr ''conditionalCard''"
      "connector_in [''UNION'', ''INTERSECT''] (obj_get e ''value'')" and form: "entries_form ms"
    by (simp_all add: later_card_form_def)
  have k: "hash \<notin> set ('' '' @ fstr (gc_env c) e ''value'')"
    using e(3) by (auto simp: connector_in_def fstr_def)
  have none: "obj_get e ''conditional'' = JUndefined"
    using e(1) by (auto simp: obj_get_def map_of_eq_None_iff split: option.split dest!: map_of_SomeD intro!: imageI)
  have head: "gs_query (card_head c e s) = gs_query s @ ('' '' @ fstr (gc_env c) e ''value'') @ head_text c @ PLACEHOLDER @ where_text c"
    using e(2) by (simp add: card_head_def addq_def head_text_def where_text_def)
  have "\<not> is_tag (gc_env c) e" "loose_eq (ge_fracStr (gc_env c)) (obj_get e ''type'') (JStr ''conditionalCard'')"
    using e(2) by (simp_all add: is_tag_def loose_str)
  moreover have "step_body c e t = Inr t" for t
    using e(2) by (simp add: step_body_def Let_def)
  moreover have "addq [joined c e []] t = t" for t
    using none by (simp add: joined_none addq_def)
  ultimately have "card_steps c (e # ms) Fresh s = card_steps c ms Headed (card_head c e s)"
    by (simp add: sumThen_def)
  then show ?thesis
    unfolding card_query_def
    using card_from_head [OF assms(1,2) entries_no_connector [OF form assms(6)] assms(3,4) k head]
    by (simp add: card_head_def addq_def)
qed

definition plain_card :: "card_spec \<Rightarrow> bool" where
  "plain_card k \<longleftrightarrow> plain_pairs (cs_conditions k) \<and> list_all (\<lambda>t. hash \<notin> set t) (cs_tags k) \<and> hash \<notin> set (cs_connector k)"

lemma rendered_plain:
  assumes "card_of c k ms n = Inr (spec, r)" and "plain_card spec" and "plain_tag c"
  shows "hash \<notin> set (render_card c spec)"
proof -
  have "cs_join spec = first_join c (condition_steps c ms)"
    using assms(1) by (auto simp: card_of_def sumThen_Inr)
  then have "hash \<notin> set (case cs_join spec of None \<Rightarrow> [] | Some j \<Rightarrow> j)"
    using first_join_hash by (auto split: option.split)
  moreover have "hash \<notin> set (open_text (cs_conditions spec))"
    using assms(2) by (cases "cs_conditions spec") (auto simp: open_text_def pairs_text_def list_all_iff plain_card_def)
  ultimately show ?thesis
    using assms(2,3) head_holed [of c "[]" "[]"]
    by (auto simp: render_card_def render_open plain_card_def list_all_iff holed_def)
qed

lemma later_cards:
  assumes "query_specs c False mss (gs_subs s) = Inr (ks, r)" and "list_all plain_card ks" and "plain_tag c"
    and "hash \<notin> set (gs_query s)" and "list_all later_card_form mss" "list_all typed_steps mss"
  shows "card_queries c mss s = Inr (grow s (gs_query s @ concat (map (render_card c) ks)) r) \<and> gs_query r = []"
  using assms
proof (induction mss arbitrary: s ks r)
  case Nil
  then show ?case by (auto simp: grow_def)
next
  case (Cons ms mss)
  obtain e os where ms: "ms = e # os" using Cons.prems(5) by (cases ms) (simp_all add: later_card_form_def)
  from Cons.prems(1) obtain k b ks' r' where k: "card_of c ('' '' @ fstr (gc_env c) e ''value'') os (gs_subs s) = Inr (k, b)"
      "query_specs c False mss (gs_subs b) = Inr (ks', r')" "ks = k # ks'" "r = grow b [] r'"
    by (auto simp: sumThen_Inr spec_of_def ms)
  have b: "gs_query b = []" using k(1) conditions_plain_state by (auto simp: card_of_def sumThen_Inr)
  have pk: "plain_card k" "list_all plain_card ks'" using Cons.prems(2) k(3) by simp_all
  have "typed_steps os" using Cons.prems(6) by (simp add: ms typed_steps_def)
  with later_card [OF k(1) _ Cons.prems(3,4)] pk(1) Cons.prems(5)
  have this_card: "card_query c ms s = Inr (grow s (gs_query s @ render_card c k) b)"
    by (simp add: ms plain_card_def)
  let ?s = "grow s (gs_query s @ render_card c k) b"
  have "hash \<notin> set (gs_query ?s)"
    using Cons.prems(4) rendered_plain [OF k(1) pk(1) Cons.prems(3)] b by simp
  with Cons.IH [of ?s ks' r'] k(2) pk(2) Cons.prems(3,5,6)
  have "card_queries c mss ?s = Inr (grow ?s (gs_query ?s @ concat (map (render_card c) ks')) r')" "gs_query r' = []"
    by simp_all
  with this_card b show ?case by (simp add: sumThen_def k(3,4) grow_def)
qed

definition query_text :: "gen_context \<Rightarrow> card_spec list \<Rightarrow> string" where
  "query_text c ks = ''INSERT INTO segment_process ('' @ concat (map (render_card c) ks)"

text \<open>C37: the query generators implement the card-by-card specification. A generator edits one
  long text, with a placeholder that a later step may replace by a join; for every segment of
  the saved form, whose texts contain no hash sign, the result is the query in which each
  card is written on its own: connector, the join its first step that needs one asks for,
  the account condition, the conditions in order with their connectors inside one pair of
  parentheses, the tag clauses, and the same temporary tables. Both versions of the
  generator, all step types.\<close>

theorem query_implements_cards:
  assumes "segment_form (sd_steps (gc_dto c))" and "sd_steps (gc_dto c) = ms # mss" "ms \<noteq> []"
    and "list_all typed_steps (sd_steps (gc_dto c))" and "plain_tag c"
    and "query_specs c True (sd_steps (gc_dto c)) 0 = Inr (ks, r)" and "list_all plain_card ks"
  shows "generated c = Inr (finish_query c
     \<lparr>gs_query = query_text c ks, gs_end = gs_end r, gs_subs = gs_subs r, gs_external = gs_external r\<rparr>)"
proof -
  have form: "entries_form ms" "list_all later_card_form mss" "typed_steps ms" "list_all typed_steps mss"
    using assms(1,2,4) by (simp_all add: segment_form_def)
  from assms(2,6) obtain k b ks' r' where k: "card_of c [] ms (gs_subs new_query) = Inr (k, b)"
      "query_specs c False mss (gs_subs b) = Inr (ks', r')" "ks = k # ks'" "r = grow b [] r'"
    by (auto simp: sumThen_Inr spec_of_def new_query_def)
  have b: "gs_query b = []" using k(1) conditions_plain_state by (auto simp: card_of_def sumThen_Inr)
  have pk: "plain_card k" "list_all plain_card ks'" using assms(7) k(3) by simp_all
  have new: "hash \<notin> set (gs_query new_query)" by (simp add: new_query_def)
  from first_card [OF k(1) _ assms(5) new form(1,3) assms(3)] pk(1)
  have one: "card_query c ms new_query = Inr (grow new_query (gs_query new_query @ render_card c k) b)"
    by (simp add: plain_card_def)
  let ?s = "grow new_query (gs_query new_query @ render_card c k) b"
  have "hash \<notin> set (gs_query ?s)"
    using new rendered_plain [OF k(1) pk(1) assms(5)] b by simp
  with later_cards [of c mss ?s ks' r'] k(2) pk(2) assms(5) form(2,4)
  have all: "card_queries c mss ?s = Inr (grow ?s (gs_query ?s @ concat (map (render_card c) ks')) r')" "gs_query r' = []"
    by simp_all
  have "generated c = Inr (finish_query c (grow ?s (gs_query ?s @ concat (map (render_card c) ks')) r'))"
    by (simp add: generated_def assms(2) sumThen_def one all(1))
  also have "grow ?s (gs_query ?s @ concat (map (render_card c) ks')) r' =
      \<lparr>gs_query = query_text c ks, gs_end = gs_end r, gs_subs = gs_subs r, gs_external = gs_external r\<rparr>"
    by (simp add: grow_def k(3,4) b all(2) query_text_def new_query_def)
  finally show ?thesis .
qed

section \<open>The account condition\<close>

text \<open>In SQL the conjunction binds tighter, so a disjunction before the conditions makes the
  account condition one of two alternatives.\<close>

definition bypasses_account :: "card_spec \<Rightarrow> bool" where
  "bypasses_account k \<longleftrightarrow> (case cs_conditions k of [] \<Rightarrow> False | (j, p) # qs \<Rightarrow> j = '' or'')"

definition card_entries :: "fields list \<Rightarrow> fields list" where
  "card_entries ms = filter (\<lambda>m. obj_get m ''type'' \<noteq> JStr ''conditionalCard'') ms"

definition opens_with_or :: "gen_context \<Rightarrow> fields list \<Rightarrow> bool" where
  "opens_with_or c ms \<longleftrightarrow> (case condition_steps c (card_entries ms) of [] \<Rightarrow> False
     | m # qs \<Rightarrow> truthy (obj_get m ''conditional'') \<and> fstr (gc_env c) m ''conditional'' = ''or'')"

lemma card_of_bypass:
  assumes "card_of c k ms n = Inr (spec, r)"
  shows "bypasses_account spec \<longleftrightarrow> (case condition_steps c ms of [] \<Rightarrow> False
     | m # qs \<Rightarrow> truthy (obj_get m ''conditional'') \<and> fstr (gc_env c) m ''conditional'' = ''or'')"
  using assms by (auto simp: card_of_def sumThen_Inr bypasses_account_def joined_def split: list.splits if_splits)

lemma entries_kept: "entries_form ms \<Longrightarrow> card_entries ms = ms"
  by (auto simp: card_entries_def entries_form_def entry_form_def list_all_iff intro!: filter_True)

lemma specs_bypass:
  "query_specs c first w n = Inr (ks, r) \<Longrightarrow> head_rest entries_form later_card_form w \<Longrightarrow> first \<Longrightarrow>
     list_all2 (\<lambda>ms k. bypasses_account k \<longleftrightarrow> opens_with_or c ms) w ks"
  "query_specs c False w n = Inr (ks, r) \<Longrightarrow> list_all later_card_form w \<Longrightarrow>
     list_all2 (\<lambda>ms k. bypasses_account k \<longleftrightarrow> opens_with_or c ms) w ks"
proof -
  have later: "list_all2 (\<lambda>ms k. bypasses_account k \<longleftrightarrow> opens_with_or c ms) w ks"
    if "query_specs c False w n = Inr (ks, r)" "list_all later_card_form w" for w n ks r
    using that
  proof (induction w arbitrary: n ks r)
    case (Cons ms w)
    obtain e os where ms: "ms = e # os" using Cons.prems(2) by (cases ms) (simp_all add: later_card_form_def)
    then have e: "obj_get e ''type'' = JStr ''conditionalCard''" "entries_form os"
      using Cons.prems(2) by (simp_all add: later_card_form_def)
    from Cons.prems(1) obtain k b ks' r' where k: "card_of c ('' '' @ fstr (gc_env c) e ''value'') os n = Inr (k, b)"
        "query_specs c False w (gs_subs b) = Inr (ks', r')" "ks = k # ks'"
      by (auto simp: sumThen_Inr spec_of_def ms)
    have "card_entries ms = os" using e entries_kept [OF e(2)] by (simp add: card_entries_def ms)
    with card_of_bypass [OF k(1)] Cons.IH [OF k(2)] Cons.prems(2) show ?case
      by (simp add: k(3) opens_with_or_def)
  qed simp
  then show "query_specs c False w n = Inr (ks, r) \<Longrightarrow> list_all later_card_form w \<Longrightarrow>
     list_all2 (\<lambda>ms k. bypasses_account k \<longleftrightarrow> opens_with_or c ms) w ks" .
  show "list_all2 (\<lambda>ms k. bypasses_account k \<longleftrightarrow> opens_with_or c ms) w ks"
    if "query_specs c first w n = Inr (ks, r)" "head_rest entries_form later_card_form w" "first"
  proof (cases w)
    case (Cons ms mss)
    from that(1,3) obtain k b ks' r' where k: "card_of c [] ms n = Inr (k, b)"
        "query_specs c False mss (gs_subs b) = Inr (ks', r')" "ks = k # ks'"
      by (auto simp: sumThen_Inr spec_of_def Cons)
    have "entries_form ms" "list_all later_card_form mss" using that(2) by (simp_all add: Cons)
    with card_of_bypass [OF k(1)] later [OF k(2)] entries_kept show ?thesis
      by (simp add: Cons k(3) opens_with_or_def)
  qed (use that(1) in simp)
qed


section \<open>A segment of two cards, and one that leaves its account\<close>

definition demo_gen_env :: gen_env where
  "demo_gen_env = \<lparr>ge_fracStr = (\<lambda>_. []), ge_iso = (\<lambda>_. None), ge_member = (\<lambda>_. None)\<rparr>"

definition demo_context :: "fields list list \<Rightarrow> gen_context" where
  "demo_context w = \<lparr>gc_version = V1, gc_env = demo_gen_env, gc_tag = \<lparr>tl_id = JNum (Fin 9), tl_accountId = JNum (Fin 2)\<rparr>,
     gc_dto = \<lparr>sd_steps = w, sd_addBounced = False, sd_addInvalid = False, sd_addUnsubscribed = False, sd_contactsLimit = JUndefined\<rparr>,
     gc_siblings = [], gc_timeZone = ''UTC''\<rparr>"

text \<open>A tag, or an opened e-mail; and a device for web push.\<close>

definition or_session :: "builder_action list" where
  "or_session =
     [AddCard ''a'', AddStep ''a'' ''tag'' ''s1'', AddStep ''a'' ''interation'' ''s2'', SetStepConnector ''a'' ''s2'' (JStr ''or''),
      UpdateStep ''a'' ''s1'' ''tag'' [(''tag_id'', JArr [JNum (Fin 7)])],
      UpdateStep ''a'' ''s2'' ''interation'' [(''event'', JStr ''open''), (''message'', JStr ''any'')],
      AddCard ''b'', AddStep ''b'' ''user_field'' ''s3'',
      UpdateStep ''b'' ''s3'' ''user_field'' [(''user_field_key'', JStr ''communication_channels''), (''user_field_value'', JStr ''has_web_push'')]]"

definition or_saved :: "fields list list" where
  "or_saved =
     [[[(''type'', JStr ''tag''), (''conditional_tag'', JStr ''in''), (''tag_id'', JArr [JNum (Fin 7)]), (''tag_info'', JArr [])],
       [(''type'', JStr ''interation''), (''event_type'', JStr ''email''), (''conditional_interation'', JStr ''yes''),
        (''custom_times_value'', JNum (Fin 1)), (''conditional_times_value'', JStr ''>=''), (''time'', JNum (Fin 0)),
        (''event'', JStr ''last_open_date''), (''message'', JStr ''any''), (''conditional'', JStr ''or'')]],
      [[(''type'', JStr ''conditionalCard''), (''value'', JStr ''INTERSECT'')],
       [(''type'', JStr ''user_field''), (''user_field_key'', JStr ''communication_channels''),
        (''user_field_value'', JStr ''has_web_push''), (''conditional_user_field'', JStr ''true'')]]]"

lemma or_session_saves: "serializeSteps (\<lambda>_. []) (edited or_session) = Inr or_saved"
  "validateBuilder (edited or_session) = []"
  by code_simp+

definition or_specs :: "card_spec list \<times> gen_state" where
  "or_specs = projr (query_specs (demo_context or_saved) True or_saved 0)"

lemma or_specs: "query_specs (demo_context or_saved) True or_saved 0 = Inr (fst or_specs, snd or_specs)"
proof -
  have "\<not> isl (query_specs (demo_context or_saved) True or_saved 0)" by code_simp
  then show ?thesis by (simp add: or_specs_def)
qed

lemma or_saved_form: "segment_form or_saved"
  by (rule saved_segment [OF _ or_session_saves(1)]) (simp add: edited_def segm.inv_run)

lemma or_plain: "list_all plain_card (fst or_specs)" "plain_tag (demo_context or_saved)" "list_all typed_steps or_saved"
  by code_simp+

lemma query_implements_cards_witness:
  "length (fst or_specs) = 2 \<and> generated (demo_context or_saved) = Inr (finish_query (demo_context or_saved)
     \<lparr>gs_query = query_text (demo_context or_saved) (fst or_specs), gs_end = gs_end (snd or_specs),
      gs_subs = gs_subs (snd or_specs), gs_external = gs_external (snd or_specs)\<rparr>)"
proof (rule conjI)
  show "length (fst or_specs) = 2" by code_simp
  have steps: "sd_steps (gc_dto (demo_context or_saved)) = or_saved" by (simp add: demo_context_def)
  have cards: "or_saved = hd or_saved # tl or_saved" "hd or_saved \<noteq> []" by (simp_all add: or_saved_def)
  show "generated (demo_context or_saved) = Inr (finish_query (demo_context or_saved)
     \<lparr>gs_query = query_text (demo_context or_saved) (fst or_specs), gs_end = gs_end (snd or_specs),
      gs_subs = gs_subs (snd or_specs), gs_external = gs_external (snd or_specs)\<rparr>)"
    by (rule query_implements_cards [of "demo_context or_saved", unfolded steps,
          OF or_saved_form cards or_plain(3,2) or_specs or_plain(1)])
qed


text \<open>The text of that query, from the session of a user who passes the validation: the
  account condition is an alternative of the opened e-mail.\<close>

lemma or_session_leaves_account:
  "\<exists>g. generateSegmentQueryV1 demo_gen_env \<lparr>tl_id = JNum (Fin 9), tl_accountId = JNum (Fin 2)\<rparr> (gc_dto (demo_context or_saved)) None = Inr g \<and>
     str_includes (gr_query g) ''WHERE ct.account_id = 2 AND ct.is_active   or (  (ct.last_open_date > ''"
proof -
  have "(case generateSegmentQueryV1 demo_gen_env \<lparr>tl_id = JNum (Fin 9), tl_accountId = JNum (Fin 2)\<rparr>
      (gc_dto (demo_context or_saved)) None of Inl e \<Rightarrow> False
    | Inr g \<Rightarrow> str_includes (gr_query g) ''WHERE ct.account_id = 2 AND ct.is_active   or (  (ct.last_open_date > '')"
    by code_simp
  then show ?thesis by (auto split: sum.splits)
qed

end
