(* ===== verification/SegmentTables.thy ===== *)
theory SegmentTables
  imports SegmentSql
begin

text \<open>
  The temporary tables of a generated segment query: their names, the tables dropped at its
  end, and the events the queries that fill them look for.
\<close>

section \<open>Names\<close>

definition TABLE_PREFIXES :: "string list" where
  "TABLE_PREFIXES = [''table_segment_page_view'', ''table_segment_view'', ''table_segment'', ''table_segment_custom_event'']"

lemma prefix_digits: "p \<in> set TABLE_PREFIXES \<Longrightarrow> \<forall>c \<in> set p. \<not> is_digit c"
proof -
  have "list_all (\<lambda>p. list_all (\<lambda>c. \<not> is_digit c) p) TABLE_PREFIXES" by code_simp
  then show "p \<in> set TABLE_PREFIXES \<Longrightarrow> \<forall>c \<in> set p. \<not> is_digit c" by (simp add: list_all_iff)
qed

lemma takeWhile_show: "takeWhile is_digit (show_nat n @ CHR ''_'' # t) = show_nat n"
proof -
  have "\<not> is_digit (CHR ''_'')" by code_simp
  with show_nat_digits [of n] show ?thesis by (simp add: takeWhile_append)
qed

lemma table_name_inj:
  assumes "table_name p m t = table_name q n t" and "p \<in> set TABLE_PREFIXES" "q \<in> set TABLE_PREFIXES"
  shows "m = n"
proof -
  have split: "takeWhile (\<lambda>c. \<not> is_digit c) (table_name p n t) = p \<and>
      takeWhile is_digit (dropWhile (\<lambda>c. \<not> is_digit c) (table_name p n t)) = show_nat n"
    if "p \<in> set TABLE_PREFIXES" for p n
  proof -
    obtain d ds where d: "show_nat n = d # ds" using show_nat_nonempty by (cases "show_nat n") auto
    then have "is_digit d" using show_nat_digits [of n] by simp
    with prefix_digits [OF that] takeWhile_show [of n t] show ?thesis
      by (simp add: table_name_def d takeWhile_append dropWhile_append)
  qed
  have "show_nat m = show_nat n" using split [OF assms(2), of m] split [OF assms(3), of n] assms(1) by metis
  then show ?thesis by (rule show_nat_inj)
qed

section \<open>What a step adds\<close>

text \<open>The tables of repeated events are dropped, the others are left to the session.\<close>

definition dropped :: "string \<Rightarrow> nat \<Rightarrow> external_step \<Rightarrow> string" where
  "dropped t i x = (if ex_tableName x = table_name ''table_segment'' i t then '' DROP TABLE '' @ ex_tableName x @ ''; '' else [])"

definition drops :: "string \<Rightarrow> external_step list \<Rightarrow> string" where
  "drops t xs = concat (map (\<lambda>(i, x). dropped t i x) (enumerate 0 xs))"

definition tables_ok :: "string \<Rightarrow> gen_state \<Rightarrow> bool" where
  "tables_ok t s \<longleftrightarrow> length (gs_external s) = gs_subs s \<and>
     (\<forall>i < gs_subs s. \<exists>p \<in> set TABLE_PREFIXES. ex_tableName (gs_external s ! i) = table_name p i t) \<and>
     gs_end s = drops t (gs_external s)"

lemma tables_unchanged:
  "gs_end s' = gs_end s \<Longrightarrow> gs_subs s' = gs_subs s \<Longrightarrow> gs_external s' = gs_external s \<Longrightarrow> tables_ok t s \<Longrightarrow> tables_ok t s'"
  by (simp add: tables_ok_def)

lemma tables_text: "tables_ok t s \<Longrightarrow> tables_ok t (addq ts s)"
  by (rule tables_unchanged, simp_all add: addq_def)

lemma tables_join: "tables_ok t s \<Longrightarrow> tables_ok t (put_join j s)"
  by (rule tables_unchanged, simp_all add: put_join_def)

lemma drops_snoc: "drops t (xs @ [x]) = drops t xs @ dropped t (length xs) x"
  by (simp add: drops_def enumerate_append_eq)

lemma tables_external:
  assumes "tables_ok t s" and "p \<in> set TABLE_PREFIXES" and "ex_tableName x = table_name p (gs_subs s) t"
  shows "p \<noteq> ''table_segment'' \<Longrightarrow> tables_ok t (add_external x (addq ts s))"
    and "p = ''table_segment'' \<Longrightarrow> tables_ok t (add_external x (addq ts (drop_table (ex_tableName x) s)))"
proof -
  have names: "\<forall>i < Suc (gs_subs s). \<exists>p \<in> set TABLE_PREFIXES. ex_tableName ((gs_external s @ [x]) ! i) = table_name p i t"
    using assms by (auto simp: tables_ok_def nth_append less_Suc_eq)
  have other: "ex_tableName x \<noteq> table_name ''table_segment'' (gs_subs s) t" if "p \<noteq> ''table_segment''"
  proof
    assume "ex_tableName x = table_name ''table_segment'' (gs_subs s) t"
    then have "p @ show_nat (gs_subs s) @ ''_'' @ t = ''table_segment'' @ show_nat (gs_subs s) @ ''_'' @ t"
      using assms(3) by (simp add: table_name_def)
    then have "p = ''table_segment''" by (simp only: append_same_eq)
    with that show False ..
  qed
  show "p \<noteq> ''table_segment'' \<Longrightarrow> tables_ok t (add_external x (addq ts s))"
    using assms(1) names other by (simp add: tables_ok_def add_external_def addq_def drops_snoc dropped_def)
  show "p = ''table_segment'' \<Longrightarrow> tables_ok t (add_external x (addq ts (drop_table (ex_tableName x) s)))"
    using assms names by (simp add: tables_ok_def add_external_def addq_def drop_table_def drops_snoc dropped_def)
qed

abbreviation tag_text :: "gen_context \<Rightarrow> string" where
  "tag_text c \<equiv> to_str (ge_fracStr (gc_env c)) (tl_id (gc_tag c))"

lemma prefixes: "''table_segment_page_view'' \<in> set TABLE_PREFIXES" "''table_segment_view'' \<in> set TABLE_PREFIXES"
  "''table_segment'' \<in> set TABLE_PREFIXES" "''table_segment_custom_event'' \<in> set TABLE_PREFIXES"
  by (simp_all add: TABLE_PREFIXES_def)

lemma interaction_tables:
  assumes "tables_ok (to_str (ge_fracStr env) (tl_id tag)) s"
  shows "tables_ok (to_str (ge_fracStr env) (tl_id tag)) (interaction_step_v1 env tag tz m s)"
    and "tables_ok (to_str (ge_fracStr env) (tl_id tag)) (interaction_step_v2 env tag siblings tz m s)"
proof -
  note t = assms
  have any: "tables_ok (to_str (ge_fracStr env) (tl_id tag)) (any_channel_step v env tz m s)" for v
    unfolding any_channel_step_def Let_def by (intro tables_text tables_join t)
  have page: "tables_ok (to_str (ge_fracStr env) (tl_id tag)) (page_view_step v env tag m s)" for v
    unfolding page_view_step_def Let_def by (rule tables_external(1) [OF t prefixes(1)]) simp_all
  have column: "tables_ok (to_str (ge_fracStr env) (tl_id tag)) (column_step env tz m s)"
    using tables_text [OF tables_join [OF t]] tables_text [OF t] by (simp add: column_step_def Let_def)
  have view: "tables_ok (to_str (ge_fracStr env) (tl_id tag)) (view_step_v1 env tag m s)"
    "tables_ok (to_str (ge_fracStr env) (tl_id tag)) (view_step_v2 env tag siblings m s)"
    unfolding view_step_v1_def view_step_v2_def Let_def by (rule tables_external(1) [OF t prefixes(2)]; simp)+
  have again: "tables_ok (to_str (ge_fracStr env) (tl_id tag)) (repeated_step_v1 env tag m s)"
    "tables_ok (to_str (ge_fracStr env) (tl_id tag)) (repeated_step_v2 env tag siblings m s)"
    unfolding repeated_step_v1_def repeated_step_v2_def Let_def
    by (rule tables_external(2) [OF t prefixes(3), where x = "\<lparr>ex_tableName = table_name ''table_segment'' (gs_subs s) _, ex_query = _, ex_filterType = _\<rparr>", simplified]; simp)+
  show "tables_ok (to_str (ge_fracStr env) (tl_id tag)) (interaction_step_v1 env tag tz m s)"
    "tables_ok (to_str (ge_fracStr env) (tl_id tag)) (interaction_step_v2 env tag siblings tz m s)"
    using any page column view again by (simp_all add: interaction_step_v1_def interaction_step_v2_def)
qed

lemma step_tables:
  assumes "tables_ok (tag_text c) s" and "step_body c m s = Inr s'"
  shows "tables_ok (tag_text c) s'"
proof -
  note t = assms(1)
  have user: "tables_ok (tag_text c) u" if "user_field_step (gc_env c) (gc_dto c) tz m s = Inr u" for tz u
    using that t by (auto simp: user_field_step_def channel_field_step_def text_field_step_def Let_def tables_text tables_join
        split: if_splits option.splits jsval.splits)
  have custom: "tables_ok (tag_text c) u" if "custom_event_step v (gc_env c) (gc_tag c) m s = Inr u" for v u
    using that tables_external(1) [OF t prefixes(4)] by (auto simp: custom_event_step_def Let_def sumThen_Inr)
  have field: "tables_ok (tag_text c) u" if "custom_field_step v (gc_env c) (gc_tag c) m s = Inr u" for v u
    using that tables_text [OF t] by (auto simp: custom_field_step_def Let_def sumThen_Inr)
  have automation: "tables_ok (tag_text c) (automation_step_v1 env tag tz m s)" "tables_ok (tag_text c) (automation_step_v2 env tag tz m s)"
    for env tag tz
    using tables_text [OF t] by (simp_all add: automation_step_v1_def automation_step_v2_def)
  show ?thesis
    using assms(2) t user custom field automation interaction_tables [OF t]
    by (auto simp: step_body_def Let_def split: if_splits version.splits)
qed

lemma steps_tables:
  "card_steps c ms st s = Inr (st', s', tags) \<Longrightarrow> tables_ok (tag_text c) s \<Longrightarrow> tables_ok (tag_text c) s'"
proof (induction ms arbitrary: st s st' s' tags)
  case (Cons m ms)
  define s1 where "s1 = (if st = Fresh then card_head c m s else s)"
  have s1: "tables_ok (tag_text c) s1" using Cons.prems(2) by (simp add: s1_def card_head_def tables_text)
  show ?case
  proof (cases "is_tag (gc_env c) m")
    case True
    with Cons.prems(1) obtain tags' where "card_steps c ms (if st = Fresh then Headed else st) s1 = Inr (st', s', tags')"
      by (auto simp: sumThen_Inr s1_def Let_def split: if_splits)
    then show ?thesis by (rule Cons.IH) (rule s1)
  next
    case False
    with Cons.prems(1) obtain ts st2 s2 where s2: "step_body c m (addq ts s1) = Inr s2" "card_steps c ms st2 s2 = Inr (st', s', tags)"
      by (auto simp: sumThen_Inr s1_def [symmetric] Let_def split: if_splits)
    show ?thesis by (rule Cons.IH [OF s2(2)]) (rule step_tables [OF tables_text [OF s1] s2(1)])
  qed
qed simp

lemma queries_tables: "card_queries c mss s = Inr s' \<Longrightarrow> tables_ok (tag_text c) s \<Longrightarrow> tables_ok (tag_text c) s'"
proof (induction mss arbitrary: s)
  case (Cons ms mss)
  from Cons.prems(1) obtain st s1 tags s2 where
    s: "card_steps c ms Fresh s = Inr (st, s1, tags)" "s2 = addq ((if st = Opened then ['' )''] else []) @ map (tag_clause c) tags @ ['' )'']) (put_join [] s1)"
      "card_queries c mss s2 = Inr s'"
    by (auto simp: card_query_def sumThen_Inr)
  have "tables_ok (tag_text c) s2"
    unfolding s(2) by (rule tables_text [OF tables_join [OF steps_tables [OF s(1) Cons.prems(2)]]])
  with Cons.IH [OF s(3)] show ?case .
qed simp

definition external_of :: "generate_result \<Rightarrow> external_step list" where
  "external_of g = (case gr_external g of None \<Rightarrow> [] | Some xs \<Rightarrow> xs)"

text \<open>Result: the temporary tables of a query never collide. Whatever the segment and the version,
  the external steps of a result have pairwise different table names, numbered in order
  from zero, each of one of four kinds and with the tag's identifier, and the query ends
  with a DROP TABLE for exactly the tables of repeated events, in order.\<close>

theorem temp_tables_distinct:
  assumes "generated c = Inr g"
  shows "distinct (map ex_tableName (external_of g)) \<and>
    (\<forall>i < length (external_of g). \<exists>p \<in> set TABLE_PREFIXES. ex_tableName (external_of g ! i) = table_name p i (tag_text c)) \<and>
    (\<exists>q. gr_query g = q @ (if drops (tag_text c) (external_of g) = [] then [] else '' '' @ drops (tag_text c) (external_of g)))"
proof -
  from assms obtain s where s: "card_queries c (sd_steps (gc_dto c)) new_query = Inr s" "g = finish_query c s"
    by (auto simp: generated_def sumThen_Inr)
  have "tables_ok (tag_text c) new_query" by (simp add: tables_ok_def new_query_def drops_def)
  with queries_tables [OF s(1)] have ok: "tables_ok (tag_text c) s" by simp
  have ex: "external_of g = gs_external s" by (simp add: s(2) external_of_def finish_query_def Let_def)
  have names: "\<forall>i < length (gs_external s). \<exists>p \<in> set TABLE_PREFIXES. ex_tableName (gs_external s ! i) = table_name p i (tag_text c)"
    using ok by (simp add: tables_ok_def)
  have "distinct (map ex_tableName (gs_external s))"
    unfolding distinct_conv_nth
  proof (intro allI impI)
    fix i j assume ij: "i < length (map ex_tableName (gs_external s))" "j < length (map ex_tableName (gs_external s))" "i \<noteq> j"
    then have "i < length (gs_external s)" "j < length (gs_external s)" by simp_all
    with names obtain p q where "p \<in> set TABLE_PREFIXES" "q \<in> set TABLE_PREFIXES"
      "ex_tableName (gs_external s ! i) = table_name p i (tag_text c)" "ex_tableName (gs_external s ! j) = table_name q j (tag_text c)"
      by meson
    with table_name_inj [of p i "tag_text c" q j] ij show "map ex_tableName (gs_external s) ! i \<noteq> map ex_tableName (gs_external s) ! j"
      by auto
  qed
  moreover have "gs_end s = drops (tag_text c) (gs_external s)" using ok by (simp add: tables_ok_def)
  ultimately show ?thesis
    using names unfolding ex by (auto simp: s(2) finish_query_def Let_def)
qed

definition counted_steps :: "fields list list" where
  "counted_steps = [[[(''type'', JStr ''interation''), (''event'', JStr ''last_click_date''), (''custom_times_value'', JNum (Fin 3))],
     [(''type'', JStr ''interation''), (''event_type'', JStr ''page_view''), (''page_view_filter'', JStr ''='')]]]"

definition counted_context :: gen_context where
  "counted_context = \<lparr>gc_version = V1, gc_env = \<lparr>ge_fracStr = (\<lambda>_. []), ge_iso = (\<lambda>_. None), ge_member = (\<lambda>_. None)\<rparr>,
     gc_tag = \<lparr>tl_id = JNum (Fin 9), tl_accountId = JNum (Fin 2)\<rparr>,
     gc_dto = \<lparr>sd_steps = counted_steps, sd_addBounced = False, sd_addInvalid = False, sd_addUnsubscribed = False, sd_contactsLimit = JUndefined\<rparr>,
     gc_siblings = [], gc_timeZone = ''UTC''\<rparr>"

lemma temp_tables_distinct_witness:
  "\<exists>g. generated counted_context = Inr g \<and> length (external_of g) = 2 \<and> distinct (map ex_tableName (external_of g)) \<and>
     (\<exists>q. gr_query g = q @ (if drops ''9'' (external_of g) = [] then [] else '' '' @ drops ''9'' (external_of g)))"
proof -
  have "(case generated counted_context of Inl e \<Rightarrow> False | Inr g \<Rightarrow> length (external_of g) = 2)" by code_simp
  then obtain g where g: "generated counted_context = Inr g" "length (external_of g) = 2" by (auto split: sum.splits)
  have "tag_text counted_context = ''9''" by code_simp
  with temp_tables_distinct [OF g(1)] g show ?thesis by auto
qed

section \<open>Events\<close>

text \<open>Result: a condition on repeated SMS or WhatsApp events looks for an event that does not
  exist. The builder stores such an event as a column of the contact (sms_last_click and
  so on); the query on the event log translates the e-mail columns only, so for the others
  it asks for the event named undefined: the condition holds for nobody, and its negation
  for everybody.\<close>

theorem repeated_sms_events_undefined:
  assumes "a \<in> set (smsActions @ whatsappActions)" and "obj_get m ''event'' = JStr (ao_dbField a)"
  shows "(\<exists>x. gs_external (repeated_step_v1 env tag m s) = gs_external s @ [x] \<and>
      str_includes (ex_query x) (''event = '' @ quo ''undefined'')) \<and>
    (\<exists>x. gs_external (repeated_step_v2 env tag sib m s) = gs_external s @ [x] \<and>
      str_includes (ex_query x) (''event_name = '' @ quo ''undefined''))"
proof -
  have "\<forall>a \<in> set (smsActions @ whatsappActions). parseEventType (JStr (ao_dbField a)) = JUndefined" by code_simp
  with assms have event: "to_str (ge_fracStr env) (parseEventType (obj_get m ''event'')) = ''undefined''" by simp
  have inside: "str_includes (b @ p @ e) p" "str_includes (b @ p) p" for b p e
    unfolding str_includes_iff by (metis append_Nil2)+
  have "\<exists>b e. ex_query (last (gs_external (repeated_step_v1 env tag m s))) = b @ (''event = '' @ quo ''undefined'') @ e"
    unfolding repeated_step_v1_def Let_def event add_external_def addq_def drop_table_def
    by (rule exI [of _ "''SELECT contact_id FROM events_logs_v2 WHERE ''"], simp)
  moreover have "\<exists>b e. ex_query (last (gs_external (repeated_step_v2 env tag sib m s))) = b @ (''event_name = '' @ quo ''undefined'') @ e"
    unfolding repeated_step_v2_def Let_def event add_external_def addq_def drop_table_def
    by (rule exI [of _ "''SELECT email'' @ nl 28 @ ''FROM user_events_daily_v3 FINAL'' @ nl 28 @ ''WHERE ''"], simp)
  ultimately show ?thesis
    by (auto simp: str_includes_iff repeated_step_v1_def repeated_step_v2_def Let_def add_external_def addq_def drop_table_def)
qed

lemma repeated_sms_events_undefined_witness:
  "\<exists>x. gs_external (repeated_step_v1 (gc_env counted_context) (gc_tag counted_context)
      [(''event'', JStr ''sms_last_click''), (''custom_times_value'', JNum (Fin 3))] new_query) = [x] \<and>
    str_includes (ex_query x) (''event = '' @ quo ''undefined'')"
proof -
  have a: "smsActions ! 2 \<in> set (smsActions @ whatsappActions)"
    "obj_get [(''event'', JStr ''sms_last_click''), (''custom_times_value'', JNum (Fin 3))] ''event'' = JStr (ao_dbField (smsActions ! 2))"
    by code_simp+
  from repeated_sms_events_undefined [OF a, of "gc_env counted_context" "gc_tag counted_context" new_query "[]"]
  show ?thesis by (simp add: new_query_def)
qed

end
