(* ===== verification/SegmentLock.thy ===== *)
theory SegmentLock
  imports Prelude
begin

text \<open>
  The lock under which \<open>AppService.processSegment\<close>
  (\<open>src/apps/tag-process/src/app.service.ts\<close>) recalculates a segment: \<open>SET key token EX 1900 NX\<close>
  on entry, the compare-and-delete script on exit. Several workers take the lock of one segment
  id; time passes between their operations, and Redis drops the key when its time to live is
  over. The store holds the one key \<open>processingsegment:<id>\<close>; the tokens are the UUIDs of
  \<open>randomUUID\<close>, of which only freshness is used.
\<close>

section \<open>The store\<close>

type_synonym token = nat
type_synonym worker = nat

definition LOCK_TTL :: nat where
  "LOCK_TTL = 1900"

datatype run_phase =
    Outside
  | Inside token nat
  | Contention
  | LockReleased
  | ReleaseNoOp

record lock_state =
  lk_now :: nat
  lk_key :: "(token \<times> nat) option"
  lk_run :: "worker \<Rightarrow> run_phase"
  lk_used :: "token set"

text \<open>A key is there until its expiry time; \<open>redis_get\<close> is \<open>GET\<close>.\<close>

definition redis_get :: "lock_state \<Rightarrow> token option" where
  "redis_get s = (case lk_key s of None \<Rightarrow> None | Some (t, e) \<Rightarrow> if lk_now s < e then Some t else None)"

definition set_nx_ex :: "token \<Rightarrow> nat \<Rightarrow> lock_state \<Rightarrow> lock_state \<times> bool" where
  "set_nx_ex t ttl s =
     (if redis_get s = None then (s\<lparr>lk_key := Some (t, lk_now s + ttl)\<rparr>, True) else (s, False))"

text \<open>The script of the \<open>finally\<close> block: delete the key only when it holds our token.\<close>

definition compare_and_delete :: "token \<Rightarrow> lock_state \<Rightarrow> lock_state \<times> nat" where
  "compare_and_delete t s = (if redis_get s = Some t then (s\<lparr>lk_key := None\<rparr>, 1) else (s, 0))"

section \<open>Entering and leaving\<close>

definition enter_run :: "worker \<Rightarrow> token \<Rightarrow> lock_state \<Rightarrow> lock_state" where
  "enter_run w t s =
     (let (s', acquired) = set_nx_ex t LOCK_TTL s
      in s'\<lparr>lk_run := (lk_run s')(w := if acquired then Inside t (lk_now s) else Contention),
            lk_used := insert t (lk_used s')\<rparr>)"

definition leave_run :: "worker \<Rightarrow> token \<Rightarrow> lock_state \<Rightarrow> lock_state" where
  "leave_run w t s =
     (let (s', released) = compare_and_delete t s
      in s'\<lparr>lk_run := (lk_run s')(w := if released = 0 then ReleaseNoOp else LockReleased)\<rparr>)"

fun inside :: "run_phase \<Rightarrow> bool" where
  "inside (Inside t since) = True"
| "inside _ = False"

inductive lock_step :: "lock_state \<Rightarrow> lock_state \<Rightarrow> bool" where
  tick: "lock_step s (s\<lparr>lk_now := lk_now s + d\<rparr>)"
| enter: "lock_step s (enter_run w t s)" if "\<not> inside (lk_run s w)" and "t \<notin> lk_used s"
| leave: "lock_step s (leave_run w t s)" if "lk_run s w = Inside t since"

definition lock_init :: lock_state where
  "lock_init = \<lparr>lk_now = 0, lk_key = None, lk_run = \<lambda>_. Outside, lk_used = {}\<rparr>"

inductive lock_reach :: "lock_state \<Rightarrow> bool" where
  init: "lock_reach lock_init"
| more: "lock_reach s'" if "lock_reach s" and "lock_step s s'"

section \<open>The invariant\<close>

lemmas lock_defs = enter_run_def leave_run_def set_nx_ex_def compare_and_delete_def redis_get_def

text \<open>A run within its time to live owns the key.\<close>

definition owner_ok :: "lock_state \<Rightarrow> bool" where
  "owner_ok s \<longleftrightarrow> (\<forall>w t b. lk_run s w = Inside t b \<longrightarrow>
     t \<in> lk_used s \<and> b \<le> lk_now s \<and>
     (lk_now s < b + LOCK_TTL \<longrightarrow> lk_key s = Some (t, b + LOCK_TTL)))"

definition key_ok :: "lock_state \<Rightarrow> bool" where
  "key_ok s \<longleftrightarrow> (\<forall>t e. lk_key s = Some (t, e) \<longrightarrow> t \<in> lk_used s \<and> e \<le> lk_now s + LOCK_TTL \<and>
     (\<forall>w b. lk_run s w = Inside t b \<longrightarrow> e = b + LOCK_TTL))"

definition apart_ok :: "lock_state \<Rightarrow> bool" where
  "apart_ok s \<longleftrightarrow> (\<forall>w w' t t' b b'. w \<noteq> w' \<longrightarrow> lk_run s w = Inside t b \<longrightarrow> lk_run s w' = Inside t' b' \<longrightarrow>
     t \<noteq> t' \<and> (b + LOCK_TTL \<le> b' \<or> b' + LOCK_TTL \<le> b))"

definition lock_inv :: "lock_state \<Rightarrow> bool" where
  "lock_inv s \<longleftrightarrow> owner_ok s \<and> key_ok s \<and> apart_ok s"

lemma redis_get_run [simp]: "redis_get (s\<lparr>lk_run := f\<rparr>) = redis_get s"
  by (simp add: redis_get_def split: option.split)

lemma redis_get_freed [simp]: "redis_get (s\<lparr>lk_key := None\<rparr>) = None"
  by (simp add: redis_get_def)

lemma lock_inv_init: "lock_inv lock_init"
  by (simp add: lock_inv_def owner_ok_def key_ok_def apart_ok_def lock_init_def)

lemma ownerD:
  assumes "owner_ok s" and "lk_run s w = Inside t b"
  shows "t \<in> lk_used s" and "b \<le> lk_now s"
    and "lk_now s < b + LOCK_TTL \<Longrightarrow> lk_key s = Some (t, b + LOCK_TTL)"
  using assms by (auto simp: owner_ok_def)

lemma keyD:
  assumes "key_ok s" and "lk_key s = Some (t, e)"
  shows "t \<in> lk_used s" and "e \<le> lk_now s + LOCK_TTL"
    and "lk_run s w = Inside t b \<Longrightarrow> e = b + LOCK_TTL"
  using assms by (auto simp: key_ok_def)

lemma apartD:
  assumes "apart_ok s" and "w \<noteq> w'" and "lk_run s w = Inside t b" and "lk_run s w' = Inside t' b'"
  shows "t \<noteq> t'" and "b + LOCK_TTL \<le> b' \<or> b' + LOCK_TTL \<le> b"
  using assms(1) [unfolded apart_ok_def, rule_format, OF assms(2,3,4)] by (rule conjunct1, rule conjunct2)

lemma apart_subset:
  assumes "apart_ok s" and "\<And>w t b. lk_run s' w = Inside t b \<Longrightarrow> lk_run s w = Inside t b"
  shows "apart_ok s'"
  unfolding apart_ok_def using apartD [OF assms(1)] assms(2) by (intro allI impI) (metis (no_types))

lemma lock_inv_tick:
  assumes "lock_inv s"
  shows "lock_inv (s\<lparr>lk_now := lk_now s + d\<rparr>)"
proof -
  have own: "owner_ok s" and key: "key_ok s" and apart: "apart_ok s" using assms by (simp_all add: lock_inv_def)
  have "owner_ok (s\<lparr>lk_now := lk_now s + d\<rparr>)"
    unfolding owner_ok_def using ownerD [OF own] by (simp add: trans_le_add1)
  moreover have "key_ok (s\<lparr>lk_now := lk_now s + d\<rparr>)"
    unfolding key_ok_def using keyD [OF key] by (auto intro: order_trans [OF keyD(2) [OF key]])
  moreover have "apart_ok (s\<lparr>lk_now := lk_now s + d\<rparr>)"
    using apart by (rule apart_subset) simp
  ultimately show ?thesis by (simp add: lock_inv_def)
qed

lemma enter_run_refused:
  assumes "redis_get s \<noteq> None"
  shows "enter_run w t s = s\<lparr>lk_run := (lk_run s)(w := Contention), lk_used := insert t (lk_used s)\<rparr>"
  using assms by (auto simp: enter_run_def set_nx_ex_def)

lemma enter_run_granted:
  assumes "redis_get s = None"
  shows "enter_run w t s = s\<lparr>lk_key := Some (t, lk_now s + LOCK_TTL),
    lk_run := (lk_run s)(w := Inside t (lk_now s)), lk_used := insert t (lk_used s)\<rparr>"
  using assms by (simp add: enter_run_def set_nx_ex_def)

lemma fresh_runs_hold_key:
  assumes "owner_ok s" and "lk_run s w = Inside t b" and "lk_now s < b + LOCK_TTL"
  shows "redis_get s = Some t"
  using assms by (auto simp: owner_ok_def redis_get_def)

lemma granted_runs_are_over:
  assumes "owner_ok s" and "redis_get s = None" and "lk_run s w = Inside t b"
  shows "b + LOCK_TTL \<le> lk_now s"
  using fresh_runs_hold_key [OF assms(1,3)] assms(2) by fastforce

lemma lock_inv_refused:
  assumes "lock_inv s"
  shows "lock_inv (s\<lparr>lk_run := (lk_run s)(w := Contention), lk_used := insert t (lk_used s)\<rparr>)"
    (is "lock_inv ?s'")
proof -
  have own: "owner_ok s" and key: "key_ok s" and apart: "apart_ok s" using assms by (simp_all add: lock_inv_def)
  have "owner_ok ?s'" unfolding owner_ok_def using ownerD [OF own] by (simp split: if_splits)
  moreover have "key_ok ?s'" unfolding key_ok_def using keyD [OF key] by (simp split: if_splits)
  moreover have "apart_ok ?s'" using apart by (rule apart_subset) (simp split: if_splits)
  ultimately show ?thesis by (simp add: lock_inv_def)
qed

lemma lock_inv_enter:
  assumes inv: "lock_inv s" and out: "\<not> inside (lk_run s w)" and new: "t \<notin> lk_used s"
  shows "lock_inv (enter_run w t s)"
proof (cases "redis_get s = None")
  case False
  with inv show ?thesis by (simp add: enter_run_refused lock_inv_refused)
next
  case True
  have own: "owner_ok s" and apart: "apart_ok s" using inv by (simp_all add: lock_inv_def)
  note over = granted_runs_are_over [OF own True]
  have other: "t' \<in> lk_used s \<and> t' \<noteq> t \<and> b + LOCK_TTL \<le> lk_now s" if "lk_run s v = Inside t' b" for v t' b
    using ownerD [OF own that] over [OF that] new by auto
  have "owner_ok (enter_run w t s)"
    unfolding enter_run_granted [OF True] owner_ok_def using other
    by (auto split: if_splits dest: leD add_leD1)
  moreover have "key_ok (enter_run w t s)"
    unfolding enter_run_granted [OF True] key_ok_def using other by (auto split: if_splits dest: leD)
  moreover have "apart_ok (enter_run w t s)"
    unfolding apart_ok_def
  proof (intro allI impI)
    fix v v' u u' b b'
    assume "v \<noteq> v'" and "lk_run (enter_run w t s) v = Inside u b" and "lk_run (enter_run w t s) v' = Inside u' b'"
    then show "u \<noteq> u' \<and> (b + LOCK_TTL \<le> b' \<or> b' + LOCK_TTL \<le> b)"
      using other [of v u b] other [of v' u' b'] apartD [OF apart, of v v' u b u' b']
      by (auto simp: enter_run_granted [OF True] split: if_splits)
  qed
  ultimately show ?thesis by (simp add: lock_inv_def)
qed

lemma leave_run_cases:
  "leave_run w t s =
     (if redis_get s = Some t then s\<lparr>lk_key := None, lk_run := (lk_run s)(w := LockReleased)\<rparr>
      else s\<lparr>lk_run := (lk_run s)(w := ReleaseNoOp)\<rparr>)"
  by (simp add: leave_run_def compare_and_delete_def)

lemma other_keeps_key:
  assumes "lock_inv s" and "lk_run s w = Inside t b" and "lk_run s v = Inside t' b'" and "v \<noteq> w"
    and "lk_now s < b' + LOCK_TTL"
  shows "redis_get s \<noteq> Some t"
proof -
  have own: "owner_ok s" and apart: "apart_ok s" using assms(1) by (simp_all add: lock_inv_def)
  show ?thesis
    using fresh_runs_hold_key [OF own assms(3,5)] apartD(1) [OF apart assms(4,3,2)] by simp
qed

lemma lock_inv_leave:
  assumes inv: "lock_inv s" and run: "lk_run s w = Inside t b"
  shows "lock_inv (leave_run w t s)"
proof -
  have own: "owner_ok s" and key: "key_ok s" and apart: "apart_ok s" using inv by (simp_all add: lock_inv_def)
  have "owner_ok (leave_run w t s)"
    unfolding owner_ok_def
  proof (intro allI impI)
    fix v u c
    assume "lk_run (leave_run w t s) v = Inside u c"
    then have v: "v \<noteq> w" "lk_run s v = Inside u c" by (auto simp: leave_run_cases split: if_splits)
    show "u \<in> lk_used (leave_run w t s) \<and> c \<le> lk_now (leave_run w t s) \<and>
      (lk_now (leave_run w t s) < c + LOCK_TTL \<longrightarrow> lk_key (leave_run w t s) = Some (u, c + LOCK_TTL))"
      using ownerD [OF own v(2)] other_keeps_key [OF inv run v(2,1)] by (auto simp: leave_run_cases)
  qed
  moreover have "key_ok (leave_run w t s)"
    unfolding leave_run_cases key_ok_def using keyD [OF key] by (simp split: if_splits)
  moreover have "apart_ok (leave_run w t s)"
    using apart by (rule apart_subset) (simp add: leave_run_cases split: if_splits)
  ultimately show ?thesis by (simp add: lock_inv_def)
qed

lemma lock_inv_step: "lock_step s s' \<Longrightarrow> lock_inv s \<Longrightarrow> lock_inv s'"
  by (induction rule: lock_step.induct) (auto intro: lock_inv_tick lock_inv_enter lock_inv_leave)

lemma lock_reach_inv: "lock_reach s \<Longrightarrow> lock_inv s"
  by (induction rule: lock_reach.induct) (auto intro: lock_inv_init lock_inv_step)

section \<open>Properties\<close>

text \<open>A run in progress for \<open>b\<close> belongs to the reachable states only with these facts.\<close>

lemma reach_owner: "lock_reach s \<Longrightarrow> owner_ok s"
  and reach_key: "lock_reach s \<Longrightarrow> key_ok s"
  and reach_apart: "lock_reach s \<Longrightarrow> apart_ok s"
  using lock_reach_inv by (auto simp: lock_inv_def)

text \<open>C6: two recalculations of a segment that are in progress together entered at least 1900
  seconds apart: a run can only be joined by another after its time to live. An attempt to enter
  during a run younger than that meets contention and leaves the key alone.\<close>

theorem segment_runs_exclude:
  assumes "lock_reach s" and "lk_run s w = Inside t b"
  shows "(\<forall>w' t' b'. w' \<noteq> w \<and> lk_run s w' = Inside t' b' \<longrightarrow> b + 1900 \<le> b' \<or> b' + 1900 \<le> b) \<and>
    (lk_now s < b + 1900 \<longrightarrow>
      (\<forall>w' t'. lk_run (enter_run w' t' s) w' = Contention \<and> lk_key (enter_run w' t' s) = lk_key s))"
proof -
  have "redis_get s \<noteq> None" if "lk_now s < b + 1900"
    using fresh_runs_hold_key [OF reach_owner [OF assms(1)] assms(2)] that by (simp add: LOCK_TTL_def)
  then show ?thesis
    using apartD(2) [OF reach_apart [OF assms(1)] _ assms(2)]
    by (fastforce simp: enter_run_refused LOCK_TTL_def)
qed

text \<open>Worker 0 enters and stays too long; worker 1 enters after 1900 seconds.\<close>

definition demo_first :: lock_state where
  "demo_first = enter_run 0 7 lock_init"

definition demo_late :: lock_state where
  "demo_late = demo_first\<lparr>lk_now := lk_now demo_first + 1900\<rparr>"

definition demo_two :: lock_state where
  "demo_two = enter_run 1 8 demo_late"

lemmas demo_lock_defs = demo_first_def demo_late_def demo_two_def lock_init_def lock_defs LOCK_TTL_def

lemma demo_reach: "lock_reach demo_first" "lock_reach demo_late" "lock_reach demo_two"
proof -
  show 1: "lock_reach demo_first"
    unfolding demo_first_def by (rule lock_reach.more [OF lock_reach.init lock_step.enter]) (simp_all add: lock_init_def)
  show 2: "lock_reach demo_late"
    unfolding demo_late_def by (rule lock_reach.more [OF 1 lock_step.tick])
  show "lock_reach demo_two"
    unfolding demo_two_def by (rule lock_reach.more [OF 2 lock_step.enter]) (simp_all add: demo_lock_defs)
qed

lemma demo_runs: "lk_run demo_first 0 = Inside 7 0" "lk_run demo_two 0 = Inside 7 0" "lk_run demo_two 1 = Inside 8 1900"
  by (simp_all add: demo_lock_defs)

theorem segment_runs_exclude_witness:
  "lk_run (enter_run 3 9 demo_first) 3 = Contention \<and> (0::nat) + 1900 \<le> 1900"
  using segment_runs_exclude [OF demo_reach(1) demo_runs(1)]
    segment_runs_exclude [OF demo_reach(3) demo_runs(2)] demo_runs(3)
  by (simp add: demo_lock_defs)

text \<open>Result: a run that leaves deletes the key exactly when its time to live is not over, and the
  warning of the no-op release is written exactly when it is; no release takes the key from
  another run younger than its time to live.\<close>

theorem release_only_own_key:
  assumes "lock_reach s" and "lk_run s w = Inside t b"
  shows "lk_run (leave_run w t s) w = (if lk_now s < b + 1900 then LockReleased else ReleaseNoOp) \<and>
    (lk_now s < b + 1900 \<longrightarrow> redis_get (leave_run w t s) = None) \<and>
    (\<forall>w' t' b'. w' \<noteq> w \<and> lk_run s w' = Inside t' b' \<and> lk_now s < b' + 1900 \<longrightarrow>
      redis_get (leave_run w t s) = Some t')"
proof -
  note reach = assms(1)
  have own: "redis_get s = Some t \<longleftrightarrow> lk_now s < b + 1900"
  proof
    assume "redis_get s = Some t"
    then obtain e where e: "lk_key s = Some (t, e)" "lk_now s < e"
      by (auto simp: redis_get_def split: option.splits if_splits)
    then show "lk_now s < b + 1900"
      using keyD(3) [OF reach_key [OF reach] e(1) assms(2)] by (simp add: LOCK_TTL_def)
  qed (use fresh_runs_hold_key [OF reach_owner [OF reach] assms(2)] in \<open>simp add: LOCK_TTL_def\<close>)
  have other: "redis_get (leave_run w t s) = Some t'"
    if "w' \<noteq> w" "lk_run s w' = Inside t' b'" "lk_now s < b' + 1900" for w' t' b'
  proof -
    have "redis_get s = Some t'"
      using fresh_runs_hold_key [OF reach_owner [OF reach] that(2)] that(3) by (simp add: LOCK_TTL_def)
    moreover from this have "redis_get s \<noteq> Some t"
      using apartD(1) [OF reach_apart [OF reach] that(1) that(2) assms(2)] by simp
    ultimately show ?thesis by (simp add: leave_run_cases)
  qed
  have mine: "lk_run (leave_run w t s) w = (if lk_now s < b + 1900 then LockReleased else ReleaseNoOp)"
    and free: "lk_now s < b + 1900 \<Longrightarrow> redis_get (leave_run w t s) = None"
    using own by (simp_all add: leave_run_cases)
  show ?thesis using mine free other by blast
qed

theorem release_only_own_key_witness:
  "lk_run (leave_run 0 7 demo_two) 0 = ReleaseNoOp \<and> redis_get (leave_run 0 7 demo_two) = Some 8"
  using release_only_own_key [OF demo_reach(3) demo_runs(2)] demo_runs(3) by (auto simp: demo_lock_defs)

text \<open>Result: the lock never stays taken: whatever happened (a worker that died inside included), a
  job that tries again once 1900 seconds have passed without a new run enters.\<close>

theorem lock_never_stuck:
  assumes "lock_reach s" and "1900 \<le> d"
  shows "lk_run (enter_run w t (s\<lparr>lk_now := lk_now s + d\<rparr>)) w = Inside t (lk_now s + d)"
proof -
  have "redis_get (s\<lparr>lk_now := lk_now s + d\<rparr>) = None"
    using keyD(2) [OF reach_key [OF assms(1)]] assms(2)
    by (fastforce simp: redis_get_def LOCK_TTL_def split: option.splits)
  then show ?thesis by (simp add: enter_run_granted)
qed

theorem lock_never_stuck_witness:
  "lk_run (enter_run 5 9 (demo_two\<lparr>lk_now := lk_now demo_two + 1900\<rparr>)) 5 = Inside 9 3800"
  using lock_never_stuck [OF demo_reach(3) order_refl, of 5 9] by (simp add: demo_lock_defs)

end
