(* ===== verification/SegmentTime.thy ===== *)
theory SegmentTime
  imports JsValue
begin

text \<open>
  The period markers a segment generator leaves in its queries and their replacement before a
  query runs (\<open>formattedTimeQuery\<close> and \<open>processSegmentBetweenDate\<close> of
  \<open>src/apps/tag-process/src/app.service.ts\<close>). The two \<open>while\<close> loops are partial
  functions; the dates come from dayjs, whose operations are a parameter. A locale holds what
  both kinds of marker share: the loop equals one pass over the text.
\<close>

section \<open>Dates\<close>

text \<open>
  The operations of dayjs the code uses: \<open>cal_today\<close> is \<open>dayjs()\<close>, a moment is the number of its
  day and an invalid date is \<open>None\<close>.
\<close>

record calendar =
  cal_today :: int
  cal_weekday :: "int \<Rightarrow> int"
  cal_setWeekday :: "int \<Rightarrow> int \<Rightarrow> int"
  cal_addWeeks :: "int \<Rightarrow> int \<Rightarrow> int"
  cal_addDays :: "int \<Rightarrow> int \<Rightarrow> int"
  cal_format :: "int option \<Rightarrow> string"

abbreviation hash_char :: char where "hash_char \<equiv> CHR 0x23"
abbreviation quote_char :: char where "quote_char \<equiv> CHR 0x27"

text \<open>
  What the code relies on: weeks start on day 0, and a date (or the text for an invalid one) is
  formatted without \<open>#\<close> or \<open>$\<close>, which \<open>String.replace\<close> would expand.
\<close>

definition calendar_ok :: "calendar \<Rightarrow> bool" where
  "calendar_ok c \<longleftrightarrow>
     (\<forall>d. 0 \<le> cal_weekday c d \<and> cal_weekday c d < 7) \<and>
     (\<forall>d k. cal_setWeekday c d k = d - cal_weekday c d + k) \<and>
     (\<forall>d n. cal_addWeeks c d n = d + 7 * n) \<and>
     (\<forall>d. hash_char \<notin> set (cal_format c d) \<and> CHR 0x24 \<notin> set (cal_format c d))"

definition int_of_num :: "jsnum \<Rightarrow> int option" where
  "int_of_num n = (case n of Fin r \<Rightarrow> Some \<lfloor>r\<rfloor> | _ \<Rightarrow> None)"

text \<open>\<open>parseInt(filter[1])\<close>; a missing part parses as \<open>undefined\<close> does, to no number.\<close>

definition day_filter :: "string list \<Rightarrow> int option" where
  "day_filter parts = (case parts of _ # d # _ \<Rightarrow> int_of_num (parse_int10 d) | _ \<Rightarrow> None)"

definition at_weekday :: "calendar \<Rightarrow> int option \<Rightarrow> int option" where
  "at_weekday c k = map_option (cal_setWeekday c (cal_today c)) k"

definition add_weeks :: "calendar \<Rightarrow> int \<Rightarrow> int option \<Rightarrow> int option" where
  "add_weeks c n d = map_option (\<lambda>x. cal_addWeeks c x n) d"

text \<open>The comparisons of today's weekday with \<open>dayFilter\<close>; both are false when it is no number.\<close>

definition before_day :: "calendar \<Rightarrow> int option \<Rightarrow> bool" where
  "before_day c k = (case k of None \<Rightarrow> False | Some k \<Rightarrow> cal_weekday c (cal_today c) < k)"

definition from_day :: "calendar \<Rightarrow> int option \<Rightarrow> bool" where
  "from_day c k = (case k of None \<Rightarrow> False | Some k \<Rightarrow> k \<le> cal_weekday c (cal_today c))"

definition day_final :: "int option \<Rightarrow> int option" where
  "day_final k = (if k = Some 0 then Some 6 else map_option (\<lambda>x. x - 1) k)"

definition week_window :: "calendar \<Rightarrow> string \<Rightarrow> int option \<Rightarrow> int option \<times> int option" where
  "week_window c period dayFilter =
     (if period = ''current_week'' then
        (let startDate = at_weekday c dayFilter;
             startDate = (if before_day c dayFilter then add_weeks c (- 1) startDate else startDate);
             finalDate = at_weekday c (day_final dayFilter);
             finalDate = (if from_day c dayFilter then add_weeks c 1 finalDate else finalDate)
         in (startDate, finalDate))
      else
        (let startDate = at_weekday c dayFilter;
             finalDate = at_weekday c (day_final dayFilter)
         in if before_day c dayFilter then (add_weeks c (- 2) startDate, add_weeks c (- 1) finalDate)
            else (add_weeks c (- 1) startDate, finalDate)))"

definition processSegmentBetweenDate :: "calendar \<Rightarrow> string \<Rightarrow> string \<times> string" where
  "processSegmentBetweenDate c result =
     (let parts = split_on (CHR '','') result;
          (startDate, finalDate) = week_window c (hd parts) (day_filter parts)
      in (cal_format c startDate, cal_format c finalDate))"

section \<open>Markers\<close>

text \<open>
  A regular expression tried at the start of a text gives the captured group and what follows the
  match; \<open>find_match\<close> is the leftmost match, with the text before it.
\<close>

type_synonym matcher = "string \<Rightarrow> (string \<times> string) option"

definition TIME_HEAD :: string where "TIME_HEAD = ''#REPLACE_TIME_''"
definition BETWEEN_HEAD :: string where "BETWEEN_HEAD = ''#BETWEEN_REPLACE_''"
definition MARK_TAIL :: string where "MARK_TAIL = ''_EVENTS_LOGS#''"

text \<open>\<open>/#REPLACE_TIME_(\d+)_EVENTS_LOGS#/\<close>: the underscore ends the digits.\<close>

definition match_time :: matcher where
  "match_time s =
     (if starts_with TIME_HEAD s then
        (let (ds, t) = span is_digit (drop (length TIME_HEAD) s)
         in if ds \<noteq> [] \<and> starts_with MARK_TAIL t then Some (ds, drop (length MARK_TAIL) t) else None)
      else None)"

definition is_name_char :: "char \<Rightarrow> bool" where
  "is_name_char c = (let n = (of_char c :: nat) in
     (97 \<le> n \<and> n \<le> 122) \<or> (65 \<le> n \<and> n \<le> 90) \<or> is_digit c \<or> n = 95 \<or> n = 44)"

text \<open>
  \<open>/#BETWEEN_REPLACE_([a-zA-Z0-9_,]+)_EVENTS_LOGS#/\<close>: the class holds every character of the tail
  but its \<open>#\<close>, so a match ends at the first character outside the class and the group is the run
  without the tail.
\<close>

definition match_between :: matcher where
  "match_between s =
     (if starts_with BETWEEN_HEAD s then
        (let (run, t) = span is_name_char (drop (length BETWEEN_HEAD) s);
             tail = butlast MARK_TAIL;
             n = length run - length tail
         in if length tail < length run \<and> drop n run = tail \<and> starts_with ''#'' t
            then Some (take n run, tl t) else None)
      else None)"

fun find_match :: "matcher \<Rightarrow> string \<Rightarrow> (string \<times> string \<times> string) option" where
  "find_match m [] = (case m [] of None \<Rightarrow> None | Some (g, t) \<Rightarrow> Some ([], g, t))"
| "find_match m (c # cs) = (case m (c # cs) of
     Some (g, t) \<Rightarrow> Some ([], g, t)
   | None \<Rightarrow> map_option (\<lambda>(pre, g, t). (c # pre, g, t)) (find_match m cs))"

text \<open>\<open>while ((result = regex.exec(query))) query = query.replace(regex, ...)\<close>.\<close>

partial_function (option) replace_loop :: "matcher \<Rightarrow> (string \<Rightarrow> string) \<Rightarrow> string \<Rightarrow> string option" where
  "replace_loop m r query = (case find_match m query of
     None \<Rightarrow> Some query
   | Some (pre, g, post) \<Rightarrow> replace_loop m r (pre @ r g @ post))"

definition time_text :: "calendar \<Rightarrow> string \<Rightarrow> string" where
  "time_text c g = quote_char # cal_format c (Some (cal_addDays c (cal_today c) (- int (digits_val g)))) @ [quote_char]"

definition between_text :: "calendar \<Rightarrow> string \<Rightarrow> string" where
  "between_text c g = (let (startDate, finalDate) = processSegmentBetweenDate c g in
     '' '' @ [quote_char] @ startDate @ [quote_char] @ '' AND '' @ [quote_char] @ finalDate @ [quote_char])"

definition formattedTimeQuery :: "calendar \<Rightarrow> string \<Rightarrow> string option" where
  "formattedTimeQuery c query = (case replace_loop match_time (time_text c) query of
     None \<Rightarrow> None
   | Some q \<Rightarrow> replace_loop match_between (between_text c) q)"

section \<open>One pass\<close>

text \<open>
  The intended result: every marker, from left to right, gives way to its text. \<open>body\<close> reads
  what stands between two \<open>#\<close>.
\<close>

function fill :: "(string \<Rightarrow> string option) \<Rightarrow> (string \<Rightarrow> string) \<Rightarrow> string \<Rightarrow> string" where
  "fill body r [] = []"
| "fill body r (c # cs) =
     (if c = hash_char \<and> hash_char \<in> set cs then
        (case body (takeWhile (\<lambda>x. x \<noteq> hash_char) cs) of
           Some g \<Rightarrow> r g @ fill body r (tl (dropWhile (\<lambda>x. x \<noteq> hash_char) cs))
         | None \<Rightarrow> c # fill body r cs)
      else c # fill body r cs)"
  by pat_completeness auto
termination
  by (relation "measure (\<lambda>(b, r, s). length s)")
    (auto simp: le_imp_less_Suc dest: order_trans [OF length_dropWhile_le] intro!: le_imp_less_Suc le_trans [OF diff_le_self length_dropWhile_le])

definition time_body :: "string \<Rightarrow> string option" where
  "time_body u =
     (if starts_with (tl TIME_HEAD) u then
        (let (ds, t) = span is_digit (drop (length (tl TIME_HEAD)) u)
         in if ds \<noteq> [] \<and> t = butlast MARK_TAIL then Some ds else None)
      else None)"

definition between_body :: "string \<Rightarrow> string option" where
  "between_body u =
     (if starts_with (tl BETWEEN_HEAD) u then
        (let v = drop (length (tl BETWEEN_HEAD)) u;
             tail = butlast MARK_TAIL;
             n = length v - length tail
         in if length tail < length v \<and> drop n v = tail \<and> list_all is_name_char v
            then Some (take n v) else None)
      else None)"

text \<open>A text up to the next \<open>#\<close>, and the rest.\<close>

definition ends_at_hash :: "string \<Rightarrow> bool" where
  "ends_at_hash rest \<longleftrightarrow> (case rest of [] \<Rightarrow> True | c # _ \<Rightarrow> c = hash_char)"

lemma starts_with_upto:
  "ends_at_hash rest \<Longrightarrow> hash_char \<notin> set p \<Longrightarrow> starts_with p (u @ rest) \<longleftrightarrow> starts_with p u"
proof (induction p u rule: starts_with.induct)
  case (3 p ps)
  then show ?case by (cases rest) (auto simp: ends_at_hash_def)
qed auto

lemma span_upto:
  "ends_at_hash rest \<Longrightarrow> \<not> P hash_char \<Longrightarrow> span P (u @ rest) = (takeWhile P u, dropWhile P u @ rest)"
  unfolding span_def by (induction u) (auto simp: ends_at_hash_def split: list.splits)

lemma starts_with_tail:
  assumes "ends_at_hash rest" and "hash_char \<notin> set p" and "hash_char \<notin> set u"
  shows "starts_with (p @ [hash_char]) (u @ rest) \<longleftrightarrow> u = p \<and> rest \<noteq> []"
  using assms
proof (induction p u rule: starts_with.induct)
  case (1 u)
  then show ?case by (cases u; cases rest) (auto simp: ends_at_hash_def)
next
  case (3 p ps)
  then show ?case by (cases rest) (auto simp: ends_at_hash_def)
qed auto

text \<open>A replacement that is quoted and brings no new \<open>#\<close>.\<close>

definition quoted_text :: "(string \<Rightarrow> string) \<Rightarrow> bool" where
  "quoted_text r \<longleftrightarrow> (\<forall>g. quote_char \<in> set (r g) \<and> hash_char \<notin> set (r g))"

lemma text_quote: "quoted_text r \<Longrightarrow> quote_char \<in> set (r g)"
  and text_hash: "quoted_text r \<Longrightarrow> hash_char \<notin> set (r g)"
  by (simp_all add: quoted_text_def)

locale marker =
  fixes m :: matcher
    and body :: "string \<Rightarrow> string option"
  assumes match_hash: "ends_at_hash rest \<Longrightarrow> hash_char \<notin> set u \<Longrightarrow>
      m (hash_char # u @ rest) = (case rest of [] \<Rightarrow> None | _ # t \<Rightarrow> map_option (\<lambda>g. (g, t)) (body u))"
    and match_other: "m [] = None" "c \<noteq> hash_char \<Longrightarrow> m (c # cs) = None"
    and body_quote: "body u = Some g \<Longrightarrow> quote_char \<notin> set u"
begin

lemma upto_hash: "ends_at_hash (dropWhile (\<lambda>x. x \<noteq> hash_char) cs)"
  by (induction cs) (auto simp: ends_at_hash_def)

lemma match_cons:
  "m (hash_char # cs) = (if hash_char \<in> set cs then
     map_option (\<lambda>g. (g, tl (dropWhile (\<lambda>x. x \<noteq> hash_char) cs))) (body (takeWhile (\<lambda>x. x \<noteq> hash_char) cs)) else None)"
proof -
  let ?u = "takeWhile (\<lambda>x. x \<noteq> hash_char) cs" and ?rest = "dropWhile (\<lambda>x. x \<noteq> hash_char) cs"
  have "hash_char \<notin> set ?u" by (auto dest: set_takeWhileD)
  from match_hash [OF upto_hash [of cs] this] have "m (hash_char # cs) =
      (case ?rest of [] \<Rightarrow> None | _ # t \<Rightarrow> map_option (\<lambda>g. (g, t)) (body ?u))" by simp
  moreover have "?rest = [] \<longleftrightarrow> hash_char \<notin> set cs" by (auto simp: dropWhile_eq_Nil_conv)
  ultimately show ?thesis by (cases ?rest) simp_all
qed

lemma fill_cases:
  "fill body r s = (case m s of Some (g, t) \<Rightarrow> r g @ fill body r t
     | None \<Rightarrow> (case s of [] \<Rightarrow> [] | c # cs \<Rightarrow> c # fill body r cs))"
proof (cases s)
  case (Cons c cs)
  then show ?thesis
    by (cases "c = hash_char") (auto simp: match_cons match_other split: option.splits)
qed (simp add: match_other)

lemma match_parts: "m s = Some (g, t) \<Longrightarrow> \<exists>u. s = hash_char # u @ hash_char # t \<and> hash_char \<notin> set u \<and> body u = Some g"
proof (cases s)
  case (Cons c cs)
  let ?u = "takeWhile (\<lambda>x. x \<noteq> hash_char) cs" and ?rest = "dropWhile (\<lambda>x. x \<noteq> hash_char) cs"
  assume some: "m s = Some (g, t)"
  with Cons have c: "c = hash_char" using match_other(2) by fastforce
  with some Cons have *: "hash_char \<in> set cs" "t = tl ?rest" "body ?u = Some g" by (auto simp: match_cons split: if_splits)
  then have "?rest \<noteq> []" by (auto simp: dropWhile_eq_Nil_conv)
  with upto_hash [of cs] * have "?rest = hash_char # t" by (cases ?rest) (auto simp: ends_at_hash_def)
  then have "s = hash_char # ?u @ hash_char # t" using Cons c takeWhile_dropWhile_id [of "\<lambda>x. x \<noteq> hash_char" cs] by simp
  moreover have "hash_char \<notin> set ?u" by (auto dest: set_takeWhileD)
  ultimately show ?thesis using *(3) by blast
qed (simp add: match_other)

text \<open>No match starts in a text without \<open>#\<close>, and none reaches over the text of a marker.\<close>

lemma no_match_prefix: "hash_char \<notin> set p \<Longrightarrow> find_match m (p @ s) = map_option (\<lambda>(pre, x). (p @ pre, x)) (find_match m s)"
  by (induction p) (auto simp: match_other option.map_comp o_def id_def split: prod.splits intro!: option.map_cong option.map_ident [symmetric])

lemma fill_prefix: "hash_char \<notin> set p \<Longrightarrow> fill body r (p @ s) = p @ fill body r s"
  by (induction p) auto

lemma same_match:
  assumes r: "quoted_text r" and m: "m (c # p @ r g @ t) = Some (g', t')"
  shows "\<exists>y. m (c # p @ s) = Some (g', y)"
proof -
  have c: "c = hash_char" using m match_other(2) by fastforce
  with m have u: "body (takeWhile (\<lambda>x. x \<noteq> hash_char) (p @ r g @ t)) = Some g'"
    by (auto simp: match_cons split: if_splits)
  have "hash_char \<in> set p"
  proof (rule ccontr)
    assume "hash_char \<notin> set p"
    then have "takeWhile (\<lambda>x. x \<noteq> hash_char) (p @ r g @ t) = p @ r g @ takeWhile (\<lambda>x. x \<noteq> hash_char) t"
      using text_hash [OF r, of g] by (subst takeWhile_append2, blast)+ simp
    with body_quote [OF u] text_quote [OF r, of g] show False by simp
  qed
  moreover from this have "takeWhile (\<lambda>x. x \<noteq> hash_char) (p @ y) = takeWhile (\<lambda>x. x \<noteq> hash_char) p" for y
    by (simp add: takeWhile_append1)
  ultimately show ?thesis using u c by (simp add: match_cons)
qed

lemma find_parts:
  assumes r: "quoted_text r"
  shows "find_match m s = Some (pre, g, post) \<Longrightarrow>
     \<exists>u. s = pre @ hash_char # u @ hash_char # post \<and> fill body r s = pre @ r g @ fill body r post \<and>
       find_match m (pre @ r g @ y) = map_option (\<lambda>(q, x). (pre @ r g @ q, x)) (find_match m y) \<and>
       fill body r (pre @ r g @ y) = pre @ r g @ fill body r y"
proof (induction s arbitrary: pre)
  case Nil
  then show ?case by (simp add: match_other)
next
  case (Cons c cs)
  show ?case
  proof (cases "m (c # cs)")
    case (Some x)
    obtain h t where x: "x = (h, t)" by (cases x)
    with Some Cons.prems have eq: "pre = []" "h = g" "t = post" by auto
    obtain u where "c # cs = hash_char # u @ hash_char # post" using match_parts Some x eq by blast
    moreover have "fill body r (c # cs) = r g @ fill body r post" using fill_cases [of r "c # cs"] Some x eq by simp
    ultimately show ?thesis using no_match_prefix [OF text_hash [OF r]] fill_prefix [OF text_hash [OF r]] eq by auto
  next
    case None
    with Cons.prems obtain q where q: "find_match m cs = Some (q, g, post)" "pre = c # q" by auto
    from Cons.IH [OF q(1)] obtain u where IH: "cs = q @ hash_char # u @ hash_char # post"
      "fill body r cs = q @ r g @ fill body r post"
      "find_match m (q @ r g @ y) = map_option (\<lambda>(p, x). (q @ r g @ p, x)) (find_match m y)"
      "fill body r (q @ r g @ y) = q @ r g @ fill body r y" by auto
    have none: "m (c # q @ r g @ y) = None"
    proof (rule ccontr)
      assume "m (c # q @ r g @ y) \<noteq> None"
      then obtain g' t' where "m (c # q @ r g @ y) = Some (g', t')" by auto
      from same_match [OF r this, of "hash_char # u @ hash_char # post"] None IH(1) show False by simp
    qed
    have "fill body r (c # cs) = c # fill body r cs" using fill_cases [of r "c # cs"] None by simp
    moreover have "fill body r (c # q @ r g @ y) = c # q @ r g @ fill body r y"
      using fill_cases [of r "c # q @ r g @ y"] none IH(4) by simp
    moreover have "find_match m (c # q @ r g @ y) = map_option (\<lambda>(p, x). (c # q @ r g @ p, x)) (find_match m y)"
      using none IH(3) by (cases "find_match m y") auto
    ultimately show ?thesis using IH(1,2) q(2) by simp
  qed
qed

lemma find_none: "find_match m s = None \<Longrightarrow> fill body r s = s"
proof (induction s)
  case (Cons c cs)
  then have "m (c # cs) = None" "find_match m cs = None" by (auto split: option.splits)
  with Cons.IH fill_cases [of r "c # cs"] show ?case by simp
qed simp

text \<open>The loop ends, with the result of the one pass.\<close>

lemma loop_is_fill: "quoted_text r \<Longrightarrow> replace_loop m r s = Some (fill body r s)"
proof (induction "length (filter (\<lambda>c. c = hash_char) s)" arbitrary: s rule: less_induct)
  case less
  show ?case
  proof (cases "find_match m s")
    case None
    then show ?thesis by (simp add: replace_loop.simps find_none)
  next
    case (Some x)
    obtain pre g post where x: "x = (pre, g, post)" by (cases x)
    from find_parts [OF less.prems Some [unfolded x], of post] obtain u where
      s: "s = pre @ hash_char # u @ hash_char # post" "fill body r s = pre @ r g @ fill body r post"
      "fill body r (pre @ r g @ post) = pre @ r g @ fill body r post" by auto
    have "filter (\<lambda>c. c = hash_char) (r g) = []" using text_hash [OF less.prems, of g] by (auto simp: filter_empty_conv)
    then have "length (filter (\<lambda>c. c = hash_char) (pre @ r g @ post)) < length (filter (\<lambda>c. c = hash_char) s)"
      unfolding s(1) by simp
    from less.hyps [OF this less.prems] show ?thesis using Some x s by (simp add: replace_loop.simps)
  qed
qed

text \<open>After it no marker is left.\<close>

lemma fill_no_match: "quoted_text r \<Longrightarrow> find_match m (fill body r s) = None"
proof (induction "length (filter (\<lambda>c. c = hash_char) s)" arbitrary: s rule: less_induct)
  case less
  show ?case
  proof (cases "find_match m s")
    case (Some x)
    obtain pre g post where x: "x = (pre, g, post)" by (cases x)
    from find_parts [OF less.prems Some [unfolded x], of "fill body r post"] obtain u where
      s: "s = pre @ hash_char # u @ hash_char # post" "fill body r s = pre @ r g @ fill body r post"
      "find_match m (pre @ r g @ fill body r post) =
         map_option (\<lambda>(q, x). (pre @ r g @ q, x)) (find_match m (fill body r post))" by auto
    have "length (filter (\<lambda>c. c = hash_char) post) < length (filter (\<lambda>c. c = hash_char) s)"
      unfolding s(1) by simp
    from less.hyps [OF this less.prems] show ?thesis using s by simp
  qed (simp add: find_none)
qed

text \<open>A run between two \<open>#\<close> that holds no quote was there before.\<close>

lemma fill_run:
  assumes r: "quoted_text r"
  shows "fill body r s = u @ hash_char # t \<Longrightarrow> hash_char \<notin> set u \<Longrightarrow> quote_char \<notin> set u \<Longrightarrow>
    \<exists>t'. s = u @ hash_char # t'"
proof (induction u arbitrary: s)
  case Nil
  show ?case
  proof (cases "m s")
    case None
    with Nil show ?thesis using fill_cases [of r s] by (cases s) auto
  next
    case (Some x)
    then obtain g y where "fill body r s = r g @ y" using fill_cases [of r s] by (cases x) auto
    with Nil(1) text_quote [OF r, of g] text_hash [OF r, of g] show ?thesis by (cases "r g") auto
  qed
next
  case (Cons a u)
  show ?case
  proof (cases "m s")
    case None
    with Cons.prems obtain cs where "s = a # cs" "fill body r cs = u @ hash_char # t"
      using fill_cases [of r s] by (cases s) auto
    with Cons.IH [of cs] Cons.prems show ?thesis by auto
  next
    case (Some x)
    then obtain g y where "r g @ y = (a # u) @ hash_char # t" using fill_cases [of r s] Cons.prems(1) by (cases x) auto
    then have "set (r g) \<subseteq> set (a # u) \<or> hash_char \<in> set (r g)"
      by (auto simp: append_eq_append_conv2 append_eq_Cons_conv)
    with text_quote [OF r, of g] text_hash [OF r, of g] Cons.prems(3) show ?thesis by auto
  qed
qed

lemma find_suffix: "find_match m (p @ t) = None \<Longrightarrow> find_match m t = None"
  by (induction p) (auto split: option.splits)

end

section \<open>Both kinds of marker\<close>

lemma takeWhile_all: "(\<forall>c \<in> set u. P c) \<Longrightarrow> takeWhile P u = u \<and> dropWhile P u = []"
  by (induction u) auto

lemma drop_upto: "starts_with p u \<Longrightarrow> drop (length p) (u @ rest) = drop (length p) u @ rest"
  by (auto simp: starts_with_prefix)

lemma heads: "TIME_HEAD = hash_char # tl TIME_HEAD" "BETWEEN_HEAD = hash_char # tl BETWEEN_HEAD"
  "MARK_TAIL = butlast MARK_TAIL @ [hash_char]"
  "hash_char \<notin> set (tl TIME_HEAD)" "hash_char \<notin> set (tl BETWEEN_HEAD)" "hash_char \<notin> set (butlast MARK_TAIL)"
  "\<not> is_digit hash_char" "\<not> is_name_char hash_char" "\<not> is_digit quote_char" "\<not> is_name_char quote_char"
  by (code_simp | simp add: TIME_HEAD_def BETWEEN_HEAD_def MARK_TAIL_def)+

lemma head_match:
  assumes "p = hash_char # q" and "hash_char \<notin> set q" and "ends_at_hash rest"
  shows "starts_with p (hash_char # u @ rest) \<longleftrightarrow> starts_with q u"
    and "starts_with q u \<Longrightarrow> drop (length p) (hash_char # u @ rest) = drop (length q) u @ rest"
proof -
  show "starts_with p (hash_char # u @ rest) \<longleftrightarrow> starts_with q u" using assms by (simp add: starts_with_upto)
  show "drop (length p) (hash_char # u @ rest) = drop (length q) u @ rest" if "starts_with q u"
    using assms(1) drop_upto [OF that] by simp
qed

lemma in_drop: "hash_char \<notin> set u \<Longrightarrow> hash_char \<notin> set (drop n u)"
  by (auto dest: in_set_dropD)

lemma match_time_hash:
  assumes rest: "ends_at_hash rest" and u: "hash_char \<notin> set u"
  shows "match_time (hash_char # u @ rest) =
    (case rest of [] \<Rightarrow> None | _ # t \<Rightarrow> map_option (\<lambda>g. (g, t)) (time_body u))"
proof (cases "starts_with (tl TIME_HEAD) u")
  case True
  define v where "v = drop (length (tl TIME_HEAD)) u"
  define ds where "ds = takeWhile is_digit v"
  define w where "w = dropWhile is_digit v"
  have "hash_char \<notin> set w" using u unfolding w_def v_def by (auto dest: set_dropWhileD in_set_dropD)
  from starts_with_tail [OF rest heads(6) this] heads(3)
  have tail: "starts_with MARK_TAIL (w @ rest) \<longleftrightarrow> w = butlast MARK_TAIL \<and> rest \<noteq> []" by simp
  have m: "match_time (hash_char # u @ rest) =
      (if ds \<noteq> [] \<and> starts_with MARK_TAIL (w @ rest) then Some (ds, drop (length MARK_TAIL) (w @ rest)) else None)"
    unfolding match_time_def head_match(1) [OF heads(1,4) rest] head_match(2) [OF heads(1,4) rest True]
      span_upto [OF rest, of is_digit, OF heads(7)] v_def [symmetric] ds_def [symmetric] w_def [symmetric]
    by (simp add: True)
  have rest': "drop (length MARK_TAIL) (butlast MARK_TAIL @ rest) = tl rest"
    by (cases rest) (simp_all add: MARK_TAIL_def)
  have b: "time_body u = (if ds \<noteq> [] \<and> w = butlast MARK_TAIL then Some ds else None)"
    unfolding time_body_def span_def v_def [symmetric] ds_def [symmetric] w_def [symmetric] by (simp add: True)
  have "match_time (hash_char # u @ rest) = (if ds \<noteq> [] \<and> w = butlast MARK_TAIL \<and> rest \<noteq> [] then Some (ds, tl rest) else None)"
    unfolding m tail using rest' by metis
  then show ?thesis unfolding b by (cases rest) auto
next
  case False
  then show ?thesis
    unfolding match_time_def head_match(1) [OF heads(1,4) rest] by (simp add: time_body_def split: list.split)
qed

lemma match_between_hash:
  assumes rest: "ends_at_hash rest" and u: "hash_char \<notin> set u"
  shows "match_between (hash_char # u @ rest) =
    (case rest of [] \<Rightarrow> None | _ # t \<Rightarrow> map_option (\<lambda>g. (g, t)) (between_body u))"
proof (cases "starts_with (tl BETWEEN_HEAD) u")
  case True
  define v where "v = drop (length (tl BETWEEN_HEAD)) u"
  define run where "run = takeWhile is_name_char v"
  define w where "w = dropWhile is_name_char v"
  have "hash_char \<notin> set w" using u unfolding w_def v_def by (auto dest: set_dropWhileD in_set_dropD)
  from starts_with_tail [OF rest _ this, of "[]"]
  have hash: "starts_with ''#'' (w @ rest) \<longleftrightarrow> w = [] \<and> rest \<noteq> []" by simp
  have all: "w = [] \<longleftrightarrow> list_all is_name_char v" by (simp add: w_def list_all_iff dropWhile_eq_Nil_conv)
  have v: "run @ w = v" by (simp add: run_def w_def)
  define n where "n = length run - length (butlast MARK_TAIL)"
  have m: "match_between (hash_char # u @ rest) =
      (if length (butlast MARK_TAIL) < length run \<and> drop n run = butlast MARK_TAIL \<and> starts_with ''#'' (w @ rest)
       then Some (take n run, tl (w @ rest)) else None)"
    unfolding match_between_def head_match(1) [OF heads(2,5) rest] head_match(2) [OF heads(2,5) rest True]
      span_upto [OF rest, of is_name_char, OF heads(8)] v_def [symmetric] run_def [symmetric] w_def [symmetric]
    by (simp add: True Let_def n_def)
  have b: "between_body u =
      (if w = [] \<and> length (butlast MARK_TAIL) < length run \<and> drop n run = butlast MARK_TAIL then Some (take n run) else None)"
    using v unfolding between_body_def v_def [symmetric] Let_def all [symmetric] by (auto simp: True n_def)
  show ?thesis unfolding m b hash by (cases rest) auto
next
  case False
  then show ?thesis
    unfolding match_between_def head_match(1) [OF heads(2,5) rest] by (simp add: between_body_def split: list.split)
qed

lemma no_quote_in_run: "starts_with p u \<Longrightarrow> quote_char \<notin> set p \<Longrightarrow> quote_char \<notin> set (drop (length p) u) \<Longrightarrow> quote_char \<notin> set u"
  by (auto simp: starts_with_prefix)

lemma time_body_quote:
  assumes "time_body u = Some g"
  shows "quote_char \<notin> set u"
proof -
  let ?v = "drop (length (tl TIME_HEAD)) u"
  from assms have *: "starts_with (tl TIME_HEAD) u" "dropWhile is_digit ?v = butlast MARK_TAIL"
    by (auto simp: time_body_def span_def split: if_splits)
  have "quote_char \<notin> set (takeWhile is_digit ?v @ dropWhile is_digit ?v)"
    using heads(9) unfolding *(2) by (auto simp: MARK_TAIL_def dest: set_takeWhileD)
  then have "quote_char \<notin> set ?v" by simp
  moreover have "quote_char \<notin> set (tl TIME_HEAD)" by (simp add: TIME_HEAD_def)
  ultimately show ?thesis using no_quote_in_run [OF *(1)] by blast
qed

lemma between_body_quote:
  assumes "between_body u = Some g"
  shows "quote_char \<notin> set u"
proof -
  let ?v = "drop (length (tl BETWEEN_HEAD)) u"
  from assms have *: "starts_with (tl BETWEEN_HEAD) u" "list_all is_name_char ?v"
    by (auto simp: between_body_def Let_def split: if_splits)
  then have "quote_char \<notin> set ?v" using heads(10) by (auto simp: list_all_iff)
  moreover have "quote_char \<notin> set (tl BETWEEN_HEAD)" by (simp add: BETWEEN_HEAD_def)
  ultimately show ?thesis using no_quote_in_run [OF *(1)] by blast
qed

interpretation time: marker match_time time_body
  by unfold_locales
    (simp_all add: match_time_hash time_body_quote, simp_all add: match_time_def TIME_HEAD_def)

interpretation between: marker match_between between_body
  by unfold_locales
    (simp_all add: match_between_hash between_body_quote, simp_all add: match_between_def BETWEEN_HEAD_def)

lemma no_time_match_made:
  assumes r: "quoted_text r" and none: "find_match match_time s = None"
  shows "find_match match_time (fill between_body r s) = None"
  using none
proof (induction s rule: length_induct)
  case (1 s)
  show ?case
  proof (cases "match_between s")
    case (Some x)
    obtain g t where x: "x = (g, t)" by (cases x)
    from between.match_parts [OF Some [unfolded x]] obtain u where s: "s = (hash_char # u @ [hash_char]) @ t" by auto
    from 1(2) have "find_match match_time t = None" unfolding s by (rule time.find_suffix)
    with 1(1) have "find_match match_time (fill between_body r t) = None" by (simp add: s)
    then show ?thesis
      using between.fill_cases [of r s] Some x time.no_match_prefix [OF text_hash [OF r]] by simp
  next
    case None
    show ?thesis
    proof (cases s)
      case Nil
      then show ?thesis using 1(2) by simp
    next
      case (Cons c cs)
      have f: "fill between_body r s = c # fill between_body r cs" using between.fill_cases [of r s] None Cons by simp
      from 1(2) Cons have cs: "match_time (c # cs) = None" "find_match match_time cs = None" by (auto split: option.splits)
      with 1(1) Cons have rest: "find_match match_time (fill between_body r cs) = None" by simp
      have "match_time (c # fill between_body r cs) = None"
      proof (rule ccontr)
        assume "match_time (c # fill between_body r cs) \<noteq> None"
        then obtain g t where "match_time (c # fill between_body r cs) = Some (g, t)" by auto
        from time.match_parts [OF this] obtain u where
          u: "c = hash_char" "fill between_body r cs = u @ hash_char # t" "hash_char \<notin> set u" "time_body u = Some g"
          by auto
        from between.fill_run [OF r u(2,3) time_body_quote [OF u(4)]] obtain t' where "cs = u @ hash_char # t'" by auto
        with cs(1) u match_time_hash [of "hash_char # t'" u] show False by (simp add: ends_at_hash_def)
      qed
      with f rest show ?thesis by simp
    qed
  qed
qed

lemma quoted_time: "calendar_ok c \<Longrightarrow> quoted_text (time_text c)"
  by (simp add: quoted_text_def time_text_def calendar_ok_def)

lemma quoted_between: "calendar_ok c \<Longrightarrow> quoted_text (between_text c)"
  by (auto simp: quoted_text_def between_text_def calendar_ok_def processSegmentBetweenDate_def split_beta Let_def)

section \<open>Properties\<close>

text \<open>The intended text of a query: every numeric period, then every week period, filled in.\<close>

definition filled_query :: "calendar \<Rightarrow> string \<Rightarrow> string" where
  "filled_query c q = fill between_body (between_text c) (fill time_body (time_text c) q)"

lemma formatted_is_filled: "calendar_ok c \<Longrightarrow> formattedTimeQuery c q = Some (filled_query c q)"
  by (simp add: formattedTimeQuery_def time.loop_is_fill [OF quoted_time] between.loop_is_fill [OF quoted_between]
      filled_query_def)

text \<open>C14: the two replacement loops end on every query; the result is the one left-to-right pass of
  each kind, which changes nothing but the markers, and no marker that the loops know is left.\<close>

theorem markers_replaced:
  assumes "calendar_ok c"
  shows "formattedTimeQuery c q = Some (fill between_body (between_text c) (fill time_body (time_text c) q)) \<and>
    find_match match_time (fill between_body (between_text c) (fill time_body (time_text c) q)) = None \<and>
    find_match match_between (fill between_body (between_text c) (fill time_body (time_text c) q)) = None"
  using formatted_is_filled [OF assms] between.fill_no_match [OF quoted_between [OF assms]]
    no_time_match_made [OF quoted_between [OF assms] time.fill_no_match [OF quoted_time [OF assms]]]
  by (simp add: filled_query_def)

definition demo_calendar :: calendar where
  "demo_calendar = \<lparr>cal_today = 80, cal_weekday = (\<lambda>d. (d + 4) mod 7),
     cal_setWeekday = (\<lambda>d k. d - (d + 4) mod 7 + k), cal_addWeeks = (\<lambda>d n. d + 7 * n), cal_addDays = (\<lambda>d n. d + n),
     cal_format = (\<lambda>d. case d of None \<Rightarrow> ''Invalid Date'' | Some d \<Rightarrow> show_int d)\<rparr>"

lemma show_int_plain: "hash_char \<notin> set (show_int d) \<and> CHR 0x24 \<notin> set (show_int d)"
proof -
  have "\<not> is_digit hash_char" "\<not> is_digit (CHR 0x24)" by code_simp+
  then have "hash_char \<notin> set (show_nat n) \<and> CHR 0x24 \<notin> set (show_nat n)" for n using show_nat_digits by blast
  then show ?thesis by (simp add: show_int_def)
qed

lemma demo_calendar_ok: "calendar_ok demo_calendar"
  using show_int_plain by (auto simp: calendar_ok_def demo_calendar_def split: option.split)

theorem markers_replaced_witness:
  "formattedTimeQuery demo_calendar ''>#REPLACE_TIME_7_EVENTS_LOGS#'' = Some (''>'' @ [quote_char] @ ''73'' @ [quote_char])"
proof -
  have "fill time_body (time_text demo_calendar) ''>#REPLACE_TIME_7_EVENTS_LOGS#'' = ''>'' @ [quote_char] @ ''73'' @ [quote_char]"
    by code_simp
  moreover have "fill between_body (between_text demo_calendar) (''>'' @ [quote_char] @ ''73'' @ [quote_char]) = ''>'' @ [quote_char] @ ''73'' @ [quote_char]"
    by code_simp
  ultimately show ?thesis using markers_replaced [OF demo_calendar_ok, THEN conjunct1] by simp
qed

lemma week_window_values:
  assumes "calendar_ok c" and "0 \<le> k"
  defines "w \<equiv> cal_weekday c (cal_today c)"
  shows "week_window c p (Some k) =
    (let s = cal_today c - w + k - (if w < k then 7 else 0); f = s + (if k = 0 then 13 else 6)
     in if p = ''current_week'' then (Some s, Some f) else (Some (s - 7), Some (f - 7)))"
  using assms by (auto simp: week_window_def calendar_ok_def at_weekday_def day_final_def before_day_def from_day_def
      add_weeks_def Let_def)

text \<open>Result: the window of a week period starts on the chosen weekday: at most six days ago for the
  current week, a week earlier for the last one. It holds seven days, except for weeks that start
  on Sunday: their window holds fourteen, so that the last week runs on to the current one.\<close>

theorem week_window_length:
  assumes "calendar_ok c" and "0 \<le> k" and "k \<le> 6"
  shows "\<exists>s f. week_window c ''current_week'' (Some k) = (Some s, Some f) \<and>
    week_window c ''last_week'' (Some k) = (Some (s - 7), Some (f - 7)) \<and>
    s \<le> cal_today c \<and> cal_today c \<le> s + 6 \<and> cal_weekday c (cal_today c) = (k + (cal_today c - s)) mod 7 \<and>
    f = s + (if k = 0 then 13 else 6) \<and> (k = 0 \<longrightarrow> cal_today c \<le> f - 7)"
proof -
  let ?w = "cal_weekday c (cal_today c)"
  have w: "0 \<le> ?w" "?w < 7" using assms(1) by (simp_all add: calendar_ok_def)
  define s where "s = cal_today c - ?w + k - (if ?w < k then 7 else 0)"
  have "?w = (k + (cal_today c - s)) mod 7"
  proof (cases "?w < k")
    case True
    then have "k + (cal_today c - s) = ?w + 7" by (simp add: s_def)
    with w show ?thesis by simp
  qed (use w in \<open>simp add: s_def\<close>)
  moreover have "s \<le> cal_today c \<and> cal_today c \<le> s + 6" using w assms(2,3) by (auto simp: s_def)
  ultimately show ?thesis
    using week_window_values [OF assms(1,2), of "''current_week''"] week_window_values [OF assms(1,2), of "''last_week''"]
    by (intro exI [of _ s] exI [of _ "s + (if k = 0 then 13 else 6)"]) (auto simp: s_def Let_def)
qed

theorem week_window_length_witness:
  "week_window demo_calendar ''last_week'' (Some 0) = (Some 73, Some 86) \<and> cal_today demo_calendar \<le> 86"
proof -
  have "week_window demo_calendar ''current_week'' (Some 0) = (Some 80, Some 93)" by code_simp
  with week_window_length [OF demo_calendar_ok, of 0] show ?thesis by auto
qed

end
