(* ===== verification/SegmentPeriods.thy ===== *)
theory SegmentPeriods
  imports SegmentTime SegmentSql
begin

text \<open>
  The generators (\<open>SegmentSql\<close>) and the replacement of periods (\<open>SegmentTime\<close>) together: which
  periods of a step survive as markers in the query that ClickHouse gets.
\<close>

section \<open>Markers that stay\<close>

text \<open>A run after \<open>#\<close> that no marker starts with is passed over.\<close>

lemma fill_stays:
  assumes "hash_char \<notin> set p" and "hash_char \<notin> set u" and "\<And>v. body (u @ v) = None"
  shows "fill body r (p @ hash_char # u @ x) = p @ hash_char # u @ fill body r x"
proof -
  have plain: "fill body r (q @ y) = q @ fill body r y" if "hash_char \<notin> set q" for q y
    using that by (induction q) auto
  have "takeWhile (\<lambda>c. c \<noteq> hash_char) (u @ x) = u @ takeWhile (\<lambda>c. c \<noteq> hash_char) x"
    using assms(2) by (intro takeWhile_append2) auto
  then have "body (takeWhile (\<lambda>c. c \<noteq> hash_char) (u @ x)) = None" by (simp only: assms(3))
  then have "fill body r (hash_char # u @ x) = hash_char # fill body r (u @ x)" by simp
  then show ?thesis using plain [OF assms(1)] plain [OF assms(2)] by simp
qed

definition numberless :: "string \<Rightarrow> bool" where
  "numberless t \<longleftrightarrow> (\<exists>c cs. t = c # cs \<and> \<not> is_digit c) \<and> hash_char \<notin> set t"

abbreviation time_run :: "string \<Rightarrow> string" where
  "time_run t \<equiv> ''REPLACE_TIME_'' @ t"

lemma time_run_unread:
  assumes "numberless t"
  shows "time_body (time_run t @ v) = None" and "between_body (time_run t @ v) = None"
proof -
  have "span is_digit (t @ v) = ([], t @ v)" using assms by (auto simp: numberless_def span_def)
  then show "time_body (time_run t @ v) = None" by (simp add: time_body_def TIME_HEAD_def)
  show "between_body (time_run t @ v) = None" by (simp add: between_body_def BETWEEN_HEAD_def)
qed

lemma marker_left:
  assumes "calendar_ok c" and "numberless t" and "hash_char \<notin> set p"
  shows "\<exists>r. formattedTimeQuery c (p @ replace_time t @ x) = Some r \<and> str_includes r (''#REPLACE_TIME_'' @ t)"
proof -
  have run: "hash_char \<notin> set (time_run t)" using assms(2) by (simp add: numberless_def)
  have whole: "p @ replace_time t @ x = p @ hash_char # time_run t @ (''_EVENTS_LOGS#'' @ x)" by (simp add: replace_time_def)
  have "filled_query c (p @ replace_time t @ x) = p @ hash_char # time_run t @
      fill between_body (between_text c) (fill time_body (time_text c) (''_EVENTS_LOGS#'' @ x))"
    unfolding filled_query_def whole
    using fill_stays [of p "time_run t" time_body, OF assms(3) run time_run_unread(1) [OF assms(2)]]
      fill_stays [of p "time_run t" between_body, OF assms(3) run time_run_unread(2) [OF assms(2)]] by (simp only:)
  then show ?thesis
    unfolding formatted_is_filled [OF assms(1)] str_includes_iff by (auto simp: exI [of _ p])
qed

text \<open>The text before the period in the queries of repeated events and of page views.\<close>

lemma event_text_plain: "hash_char \<notin> set (to_str f (parseEventType e))"
  by (simp add: parseEventType_def)

lemma layout_plain: "hash_char \<notin> set (nl n)" "hash_char \<notin> set (ind v a b)"
  by (simp_all add: nl_def ind_def)

lemma quo_plain: "hash_char \<notin> set s \<Longrightarrow> hash_char \<notin> set (quo s)"
  by (simp add: quo_def)

text \<open>Result: a period that is not a number (\<open>all\<close>, which the builder offers for interactions, or
  \<open>custom\<close> without days) stays in the query as a marker when the step asks for repeated events or
  for page views, in both versions: ClickHouse gets \<open>#REPLACE_TIME_\<close> and the period.\<close>

theorem non_numeric_period_stays:
  assumes "calendar_ok c" and "obj_get m ''time'' = JStr t" and "numberless t"
    and "hash_char \<notin> set (to_str (ge_fracStr env) (tl_accountId tag))" and "hash_char \<notin> set siblings"
  shows "\<forall>s'. s' \<in> {repeated_step_v1 env tag m s, repeated_step_v2 env tag siblings m s, page_view_step v env tag m s} \<longrightarrow>
    (\<exists>x r. gs_external s' = gs_external s @ [x] \<and> formattedTimeQuery c (ex_query x) = Some r \<and>
      str_includes r (''#REPLACE_TIME_'' @ t))"
proof (intro allI impI)
  fix s'
  assume "s' \<in> {repeated_step_v1 env tag m s, repeated_step_v2 env tag siblings m s, page_view_step v env tag m s}"
  moreover have t: "fstr env m ''time'' = t" using assms(2) by (simp add: fstr_def)
  have "\<exists>x p y. gs_external (repeated_step_v1 env tag m s) = gs_external s @ [x] \<and> ex_query x = p @ replace_time t @ y \<and> hash_char \<notin> set p"
    by (rule exI, rule exI [of _ "concat [''SELECT contact_id FROM events_logs_v2 WHERE event = '', quo (to_str (ge_fracStr env) (parseEventType (obj_get m ''event''))),
          nl 18, ''AND account_id = '', to_str (ge_fracStr env) (tl_accountId tag), nl 18, ''AND time_date >= '']"])
      (use assms(4) in \<open>auto simp: repeated_step_v1_def Let_def add_external_def addq_def drop_table_def t event_text_plain layout_plain quo_plain\<close>)
  moreover have "\<exists>x p y. gs_external (repeated_step_v2 env tag siblings m s) = gs_external s @ [x] \<and> ex_query x = p @ replace_time t @ y \<and> hash_char \<notin> set p"
    by (rule exI, rule exI [of _ "concat [''SELECT email'', nl 28, ''FROM user_events_daily_v3 FINAL'', nl 28, ''WHERE event_name = '',
          quo (to_str (ge_fracStr env) (parseEventType (obj_get m ''event''))), nl 28, ''AND account_id IN ('', siblings, '')'', nl 28, ''AND event_date >= '']"])
      (use assms(5) in \<open>auto simp: repeated_step_v2_def Let_def add_external_def addq_def drop_table_def t event_text_plain layout_plain quo_plain\<close>)
  moreover have "\<exists>x p y. gs_external (page_view_step v env tag m s) = gs_external s @ [x] \<and> ex_query x = p @ replace_time t @ y \<and> hash_char \<notin> set p"
    by (cases "obj_get m ''page_view_filter'' = JStr ''iLike''"; cases "repeated env m"; rule exI,
        rule exI [of _ "concat [''SELECT contact_id FROM events_logs_v2 WHERE event = '', quo ''page_view'',
          ind v 14 28, ''AND account_id = '', to_str (ge_fracStr env) (tl_accountId tag), ind v 14 28, ''AND time_date > '']"])
      (use assms(4) in \<open>auto simp: page_view_step_def Let_def add_external_def addq_def t layout_plain quo_plain\<close>)
  ultimately obtain x p y where "gs_external s' = gs_external s @ [x]" "ex_query x = p @ replace_time t @ y" "hash_char \<notin> set p"
    by auto
  with marker_left [OF assms(1,3), of p y] show "\<exists>x r. gs_external s' = gs_external s @ [x] \<and>
      formattedTimeQuery c (ex_query x) = Some r \<and> str_includes r (''#REPLACE_TIME_'' @ t)" by auto
qed

definition any_time_step :: fields where
  "any_time_step = [(''type'', JStr ''interation''), (''event_type'', JStr ''email''), (''event'', JStr ''last_open_date''),
     (''message'', JStr ''any''), (''time'', JStr ''all''), (''custom_times_value'', JNum (Fin 3))]"

theorem non_numeric_period_stays_witness:
  "\<exists>x r. gs_external (interaction_step_v1 \<lparr>ge_fracStr = (\<lambda>_. []), ge_iso = (\<lambda>_. None), ge_member = (\<lambda>_. None)\<rparr>
      \<lparr>tl_id = JNum (Fin 9), tl_accountId = JNum (Fin 5)\<rparr> ''UTC'' any_time_step new_query) = [x] \<and>
    formattedTimeQuery demo_calendar (ex_query x) = Some r \<and> str_includes r ''#REPLACE_TIME_all''"
proof -
  let ?env = "\<lparr>ge_fracStr = (\<lambda>_. []), ge_iso = (\<lambda>_. None), ge_member = (\<lambda>_. None)\<rparr>"
  let ?tag = "\<lparr>tl_id = JNum (Fin 9), tl_accountId = JNum (Fin 5)\<rparr>"
  have "interaction_step_v1 ?env ?tag ''UTC'' any_time_step new_query = repeated_step_v1 ?env ?tag any_time_step new_query"
    by (subst interaction_step_v1_def) code_simp
  moreover have "obj_get any_time_step ''time'' = JStr ''all''" by code_simp
  moreover have "\<not> is_digit (CHR ''a'')" by code_simp
  then have "numberless ''all''" by (simp add: numberless_def)
  moreover have "hash_char \<notin> set (to_str (ge_fracStr ?env) (tl_accountId ?tag))" by code_simp
  ultimately show ?thesis
    using non_numeric_period_stays [OF demo_calendar_ok, of any_time_step "''all''" ?env ?tag "[]" new_query V1]
    by (auto simp: new_query_def)
qed

end
