(* ===== verification/SegmentDb.thy ===== *)
theory SegmentDb
  imports SegmentSql
begin

text \<open>
  The database side of a recalculation: \<open>MsgopsService.processSegment\<close>
  (\<open>src/apps/tag-process/src/msgops/msgops.service.ts\<close>), which runs the generated query in a
  transaction and moves the members of the segment. The tables it touches are lists of rows, the
  temporary tables belong to the session of the pooled connection. Statements whose text is in
  the source are definitions; the generated query and ClickHouse are parameters, as is which
  statement fails for reasons outside the program.
\<close>

section \<open>Tables and transactions\<close>

type_synonym member_row = "nat \<times> nat \<times> nat"

record tables =
  tb_members :: "member_row list"
  tb_process :: "(nat \<times> nat) list"
  tb_temp :: "(string, jsval list) jsmap"

text \<open>
  A transaction: the tables when it began, the tables it sees, whether a statement has failed
  (after which Postgres refuses the others), the two variables of the function, and whether a
  promise nobody awaits was rejected.
\<close>

record transaction =
  tx_start :: tables
  tx_now :: tables
  tx_aborted :: bool
  tx_deleteIds :: "nat list option"
  tx_insertIds :: "nat list option"
  tx_unhandled :: bool

datatype statement =
    Connect
  | StartTransaction
  | DeleteMembers
  | CreateTemp string
  | FillTemp string
  | GeneratedQuery
  | DeleteQuery
  | InsertQuery
  | ClearProcess
  | Commit
  | Rollback
  | Release

record sql_env =
  se_fails :: "statement \<Rightarrow> bool"
  se_clickhouse :: "string \<Rightarrow> string + jsval list"
  se_generated :: "string \<Rightarrow> tables \<Rightarrow> string + tables"

type_synonym 'a sql = "(transaction, 'a) prog"

definition statement :: "sql_env \<Rightarrow> statement \<Rightarrow> (tables \<Rightarrow> string + 'a \<times> tables) \<Rightarrow> 'a sql" where
  "statement env st f t =
     (if tx_aborted t then (Inl ''current transaction is aborted'', t)
      else if se_fails env st then (Inl ''statement failed'', t\<lparr>tx_aborted := True\<rparr>)
      else case f (tx_now t) of
        Inl e \<Rightarrow> (Inl e, t\<lparr>tx_aborted := True\<rparr>)
      | Inr (x, db) \<Rightarrow> (Inr x, t\<lparr>tx_now := db\<rparr>))"

text \<open>A query whose promise is dropped: an error stays in the transaction and is handled by nobody.\<close>

definition not_awaited :: "'a sql \<Rightarrow> unit sql" where
  "not_awaited m t = (case m t of (Inl e, t') \<Rightarrow> (Inr (), t'\<lparr>tx_unhandled := True\<rparr>) | (Inr x, t') \<Rightarrow> (Inr (), t'))"

section \<open>The statements\<close>

abbreviation done_with :: "tables \<Rightarrow> string + unit \<times> tables" where
  "done_with db \<equiv> Inr ((), db)"

definition delete_members :: "nat \<Rightarrow> nat \<Rightarrow> tables \<Rightarrow> string + unit \<times> tables" where
  "delete_members tag account db =
     done_with (db\<lparr>tb_members := filter (\<lambda>(c, t, a). \<not> (t = tag \<and> a = account)) (tb_members db)\<rparr>)"

definition create_temp :: "string \<Rightarrow> tables \<Rightarrow> string + unit \<times> tables" where
  "create_temp name db =
     (if jshas (tb_temp db) name then Inl (''relation already exists: '' @ name)
      else done_with (db\<lparr>tb_temp := jsset name [] (tb_temp db)\<rparr>))"

definition fill_temp :: "string \<Rightarrow> jsval list \<Rightarrow> tables \<Rightarrow> string + unit \<times> tables" where
  "fill_temp name rows db = (case jsget (tb_temp db) name of
     None \<Rightarrow> Inl (''relation does not exist: '' @ name)
   | Some old \<Rightarrow> done_with (db\<lparr>tb_temp := jsset name (old @ rows) (tb_temp db)\<rparr>))"

text \<open>The contacts the generated query selected, in \<open>segment_process\<close>.\<close>

definition processed :: "nat \<Rightarrow> tables \<Rightarrow> nat list" where
  "processed tag db = map snd (filter (\<lambda>(t, c). t = tag) (tb_process db))"

definition members :: "nat \<Rightarrow> nat \<Rightarrow> tables \<Rightarrow> nat list" where
  "members tag account db = map fst (filter (\<lambda>(c, t, a). t = tag \<and> a = account) (tb_members db))"

definition delete_query :: "nat \<Rightarrow> nat \<Rightarrow> tables \<Rightarrow> string + nat list \<times> tables" where
  "delete_query tag account db =
     (let goes = (\<lambda>(c, t, a). a = account \<and> t = tag \<and> c \<notin> set (processed tag db))
      in Inr (map fst (filter goes (tb_members db)),
              db\<lparr>tb_members := filter (\<lambda>r. \<not> goes r) (tb_members db)\<rparr>))"

text \<open>
  The insertion, under the unique constraint of \<open>contacts_tags\<close> on account, contact and tag: a
  contact selected twice breaks it.
\<close>

definition insert_query :: "nat \<Rightarrow> nat \<Rightarrow> tables \<Rightarrow> string + nat list \<times> tables" where
  "insert_query tag account db =
     (let new = filter (\<lambda>c. c \<notin> set (members tag account db)) (processed tag db)
      in if distinct new then Inr (new, db\<lparr>tb_members := tb_members db @ map (\<lambda>c. (c, tag, account)) new\<rparr>)
         else Inl ''duplicate key value violates unique constraint'')"

definition clear_process :: "nat \<Rightarrow> tables \<Rightarrow> string + unit \<times> tables" where
  "clear_process tag db = done_with (db\<lparr>tb_process := filter (\<lambda>(t, c). t \<noteq> tag) (tb_process db)\<rparr>)"

definition generated_query :: "sql_env \<Rightarrow> string \<Rightarrow> tables \<Rightarrow> string + unit \<times> tables" where
  "generated_query env query db = sumThen (se_generated env query db) done_with"

section \<open>The external queries\<close>

definition table_column :: "external_step \<Rightarrow> string" where
  "table_column x = (if ex_filterType x = Some ''email'' then ''email'' else ''contact_id'')"

fun fill_batches :: "sql_env \<Rightarrow> string \<Rightarrow> string \<Rightarrow> jsval list list \<Rightarrow> unit sql" where
  "fill_batches env name column [] = prog_ret ()"
| "fill_batches env name column (batch # batches) =
     prog_then (statement env (FillTemp name) (fill_temp name (map (\<lambda>row. get row column) batch)))
       (\<lambda>_. fill_batches env name column batches)"

definition external_query :: "sql_env \<Rightarrow> external_step \<Rightarrow> unit sql" where
  "external_query env x =
     prog_then (not_awaited (statement env (CreateTemp (ex_tableName x)) (create_temp (ex_tableName x)))) (\<lambda>_.
     case se_clickhouse env (ex_query x) of
       Inl e \<Rightarrow> prog_throw e
     | Inr rows \<Rightarrow> fill_batches env (ex_tableName x) (table_column x) (chunks 5000 rows))"

fun external_queries :: "sql_env \<Rightarrow> external_step list \<Rightarrow> unit sql" where
  "external_queries env [] = prog_ret ()"
| "external_queries env (x # xs) = prog_then (external_query env x) (\<lambda>_. external_queries env xs)"

section \<open>The function\<close>

definition move_members :: "sql_env \<Rightarrow> nat \<Rightarrow> nat \<Rightarrow> string \<Rightarrow> unit sql" where
  "move_members env tag account query =
     prog_then (statement env GeneratedQuery (generated_query env query)) (\<lambda>_.
     prog_then (statement env DeleteQuery (delete_query tag account)) (\<lambda>gone.
     prog_then (\<lambda>t. (Inr (), t\<lparr>tx_deleteIds := Some gone\<rparr>)) (\<lambda>_.
     prog_then (statement env InsertQuery (insert_query tag account)) (\<lambda>new.
     prog_then (\<lambda>t. (Inr (), t\<lparr>tx_insertIds := Some new\<rparr>)) (\<lambda>_.
     statement env ClearProcess (clear_process tag))))))"

definition transaction_body :: "sql_env \<Rightarrow> nat \<Rightarrow> nat \<Rightarrow> string option \<Rightarrow> external_step list option \<Rightarrow> unit sql" where
  "transaction_body env tag account query externals = (case query of
     None \<Rightarrow> statement env DeleteMembers (delete_members tag account)
   | Some [] \<Rightarrow> statement env DeleteMembers (delete_members tag account)
   | Some q \<Rightarrow>
       prog_then (case externals of None \<Rightarrow> prog_ret () | Some xs \<Rightarrow> external_queries env xs) (\<lambda>_.
       move_members env tag account q))"

record moved =
  mv_deleteIds :: "nat list option"
  mv_insertIds :: "nat list option"

record sql_outcome =
  so_result :: "string + moved"
  so_tables :: tables
  so_unhandled :: bool

definition begin_transaction :: "tables \<Rightarrow> transaction" where
  "begin_transaction db = \<lparr>tx_start = db, tx_now = db, tx_aborted = False, tx_deleteIds = None, tx_insertIds = None,
     tx_unhandled = False\<rparr>"

text \<open>
  The commit ends the \<open>try\<close> block; an aborted transaction commits to nothing. Any error leads to
  the rollback, and \<open>return\<close> in the \<open>finally\<close> block replaces both the value and the error, so that
  only a failed \<open>release\<close> escapes.
\<close>

definition processSegmentTx ::
  "sql_env \<Rightarrow> nat \<Rightarrow> nat \<Rightarrow> string option \<Rightarrow> external_step list option \<Rightarrow> tables \<Rightarrow> sql_outcome" where
  "processSegmentTx env tag account query externals db =
     (if se_fails env Connect \<or> se_fails env StartTransaction
      then \<lparr>so_result = Inl ''connection failed'', so_tables = db, so_unhandled = False\<rparr>
      else let (r, t) = transaction_body env tag account query externals (begin_transaction db);
               committed = (\<not> isl r \<and> \<not> se_fails env Commit \<and> \<not> tx_aborted t)
           in \<lparr>so_result = (if se_fails env Release then Inl ''release failed''
                            else Inr \<lparr>mv_deleteIds = tx_deleteIds t, mv_insertIds = tx_insertIds t\<rparr>),
               so_tables = (if committed then tx_now t else tx_start t),
               so_unhandled = tx_unhandled t\<rparr>)"

section \<open>Reading a run backwards\<close>

lemma statement_Inr:
  "statement env st f t = (Inr x, t') \<longleftrightarrow>
     \<not> tx_aborted t \<and> \<not> se_fails env st \<and> (\<exists>db. f (tx_now t) = Inr (x, db) \<and> t' = t\<lparr>tx_now := db\<rparr>)"
  by (auto simp: statement_def split: sum.splits prod.splits)

lemma statement_other:
  "statement env st f t = (r, t') \<Longrightarrow> tx_start t' = tx_start t \<and> tx_deleteIds t' = tx_deleteIds t \<and>
     tx_insertIds t' = tx_insertIds t \<and> tx_unhandled t' = tx_unhandled t"
  by (auto simp: statement_def split: sum.splits prod.splits if_splits)

lemma not_awaited_Inr:
  "not_awaited m t = (Inr (), t') \<longleftrightarrow>
     (\<exists>x. m t = (Inr x, t')) \<or> (\<exists>e t1. m t = (Inl e, t1) \<and> t' = t1\<lparr>tx_unhandled := True\<rparr>)"
  by (auto simp: not_awaited_def split: sum.splits prod.splits)

text \<open>What the external queries leave alone, and how a failed statement shows.\<close>

definition keeps_rest :: "transaction \<Rightarrow> transaction \<Rightarrow> bool" where
  "keeps_rest t t' \<longleftrightarrow> tx_start t' = tx_start t \<and> tx_deleteIds t' = tx_deleteIds t \<and> tx_insertIds t' = tx_insertIds t \<and>
     tb_members (tx_now t') = tb_members (tx_now t) \<and> tb_process (tx_now t') = tb_process (tx_now t) \<and>
     (tx_aborted t \<longrightarrow> tx_aborted t')"

lemma keeps_rest_refl: "keeps_rest t t"
  by (simp add: keeps_rest_def)

lemma keeps_rest_trans: "keeps_rest t u \<Longrightarrow> keeps_rest u v \<Longrightarrow> keeps_rest t v"
  by (simp add: keeps_rest_def)

lemma keeps_rest_statement:
  assumes "statement env st f t = (r, t')"
    and "\<And>x db. f (tx_now t) = Inr (x, db) \<Longrightarrow> tb_members db = tb_members (tx_now t) \<and> tb_process db = tb_process (tx_now t)"
  shows "keeps_rest t t'"
  using assms by (auto simp: statement_def keeps_rest_def split: sum.splits prod.splits if_splits)

lemma create_temp_Inr:
  "create_temp n db = Inr (x, db') \<longleftrightarrow> \<not> jshas (tb_temp db) n \<and> db' = db\<lparr>tb_temp := jsset n [] (tb_temp db)\<rparr>"
  by (auto simp: create_temp_def)

lemma fill_temp_Inr:
  "fill_temp n rows db = Inr (x, db') \<longleftrightarrow>
     (\<exists>old. jsget (tb_temp db) n = Some old \<and> db' = db\<lparr>tb_temp := jsset n (old @ rows) (tb_temp db)\<rparr>)"
  by (auto simp: fill_temp_def split: option.splits)

lemma keeps_rest_fill: "fill_batches env n col bs t = (r, t') \<Longrightarrow> keeps_rest t t'"
proof (induction bs arbitrary: t)
  case (Cons b bs)
  obtain s u where s: "statement env (FillTemp n) (fill_temp n (map (\<lambda>row. get row col) b)) t = (s, u)"
    by (cases "statement env (FillTemp n) (fill_temp n (map (\<lambda>row. get row col) b)) t")
  then have "keeps_rest t u" by (rule keeps_rest_statement) (auto simp: fill_temp_Inr)
  with Cons s show ?case by (cases s) (auto simp: prog_then_def intro: keeps_rest_trans)
qed (simp add: prog_ret_def keeps_rest_refl)

lemma keeps_rest_create:
  assumes "not_awaited (statement env (CreateTemp n) (create_temp n)) t = (r, t')"
  shows "keeps_rest t t'"
proof -
  obtain s u where s: "statement env (CreateTemp n) (create_temp n) t = (s, u)"
    by (cases "statement env (CreateTemp n) (create_temp n) t")
  then have "keeps_rest t u" by (rule keeps_rest_statement) (auto simp: create_temp_Inr)
  with assms s show ?thesis by (cases s) (auto simp: not_awaited_def keeps_rest_def)
qed

lemma keeps_rest_external: "external_query env x t = (r, t') \<Longrightarrow> keeps_rest t t'"
  unfolding external_query_def prog_then_def
  by (auto simp: prog_throw_def split: prod.splits sum.splits dest!: keeps_rest_create keeps_rest_fill
      intro: keeps_rest_trans)

lemma keeps_rest_externals: "external_queries env xs t = (r, t') \<Longrightarrow> keeps_rest t t'"
proof (induction xs arbitrary: t)
  case (Cons x xs)
  obtain s u where s: "external_query env x t = (s, u)" by (cases "external_query env x t")
  from keeps_rest_external [OF s] Cons s show ?case by (cases s) (auto simp: prog_then_def intro: keeps_rest_trans)
qed (simp add: prog_ret_def keeps_rest_refl)

section \<open>The temporary tables after the external queries\<close>

lemma fill_batches_rows:
  "fill_batches env n col bs t = (Inr (), t') \<Longrightarrow> jsget (tb_temp (tx_now t)) n = Some old \<Longrightarrow>
     jsget (tb_temp (tx_now t')) n = Some (old @ map (\<lambda>row. get row col) (concat bs)) \<and>
     (\<forall>k. k \<noteq> n \<longrightarrow> jsget (tb_temp (tx_now t')) k = jsget (tb_temp (tx_now t)) k)"
proof (induction bs arbitrary: t old)
  case (Cons b bs)
  then obtain u where u: "fill_batches env n col bs u = (Inr (), t')"
    "u = t\<lparr>tx_now := (tx_now t)\<lparr>tb_temp := jsset n (old @ map (\<lambda>row. get row col) b) (tb_temp (tx_now t))\<rparr>\<rparr>"
    by (auto simp: prog_then_Inr statement_Inr fill_temp_Inr)
  from Cons.IH [OF u(1), of "old @ map (\<lambda>row. get row col) b"] show ?case by (simp add: u(2))
qed (simp add: prog_ret_def)

text \<open>The table of an external query holds the column of every row ClickHouse gave.\<close>

definition table_holds :: "sql_env \<Rightarrow> transaction \<Rightarrow> external_step \<Rightarrow> bool" where
  "table_holds env t x \<longleftrightarrow> (\<exists>rows. se_clickhouse env (ex_query x) = Inr rows \<and>
     jsget (tb_temp (tx_now t)) (ex_tableName x) = Some (map (\<lambda>row. get row (table_column x)) rows))"

lemma external_query_table:
  assumes run: "external_query env x t = (Inr (), t')" and live: "\<not> tx_aborted t'"
  shows "\<not> jshas (tb_temp (tx_now t)) (ex_tableName x) \<and> table_holds env t' x \<and>
    (\<forall>k. k \<noteq> ex_tableName x \<longrightarrow> jsget (tb_temp (tx_now t')) k = jsget (tb_temp (tx_now t)) k)"
proof -
  let ?n = "ex_tableName x"
  from run obtain u rows where u: "not_awaited (statement env (CreateTemp ?n) (create_temp ?n)) t = (Inr (), u)"
    "se_clickhouse env (ex_query x) = Inr rows"
    "fill_batches env ?n (table_column x) (chunks 5000 rows) u = (Inr (), t')"
    by (auto simp: external_query_def prog_then_Inr prog_throw_def split: sum.splits)
  have "\<not> tx_aborted u" using keeps_rest_fill [OF u(3)] live by (auto simp: keeps_rest_def)
  with u(1) have "\<exists>y. statement env (CreateTemp ?n) (create_temp ?n) t = (Inr y, u)"
    by (auto simp: not_awaited_Inr statement_def split: if_splits sum.splits prod.splits)
  then have new: "\<not> jshas (tb_temp (tx_now t)) ?n" "u = t\<lparr>tx_now := (tx_now t)\<lparr>tb_temp := jsset ?n [] (tb_temp (tx_now t))\<rparr>\<rparr>"
    by (auto simp: statement_Inr create_temp_Inr)
  from fill_batches_rows [OF u(3), of "[]"] u(2) new show ?thesis by (simp add: table_holds_def)
qed

lemma external_queries_tables:
  "external_queries env xs t = (Inr (), t') \<Longrightarrow> \<not> tx_aborted t' \<Longrightarrow>
     (\<forall>x \<in> set xs. table_holds env t' x \<and> \<not> jshas (tb_temp (tx_now t)) (ex_tableName x)) \<and>
     (\<forall>k. k \<notin> ex_tableName ` set xs \<longrightarrow> jsget (tb_temp (tx_now t')) k = jsget (tb_temp (tx_now t)) k)"
proof (induction xs arbitrary: t)
  case (Cons x xs)
  then obtain u where u: "external_query env x t = (Inr (), u)" "external_queries env xs u = (Inr (), t')"
    by (auto simp: prog_then_Inr)
  from keeps_rest_externals [OF u(2)] Cons.prems(2) have "\<not> tx_aborted u" by (auto simp: keeps_rest_def)
  note x = external_query_table [OF u(1) this] and IH = Cons.IH [OF u(2) Cons.prems(2)]
  have here: "jshas (tb_temp (tx_now u)) (ex_tableName x)" using x by (auto simp: table_holds_def)
  with IH have "\<forall>y \<in> set xs. ex_tableName y \<noteq> ex_tableName x" by metis
  then have "ex_tableName x \<notin> ex_tableName ` set xs" by force
  with IH have "jsget (tb_temp (tx_now t')) (ex_tableName x) = jsget (tb_temp (tx_now u)) (ex_tableName x)" by blast
  then have "table_holds env t' x" using x by (auto simp: table_holds_def)
  with x IH \<open>\<forall>y \<in> set xs. ex_tableName y \<noteq> ex_tableName x\<close> show ?case by auto
qed (simp add: prog_ret_def)

section \<open>Properties\<close>

text \<open>The rows of other segments.\<close>

definition other_rows :: "nat \<Rightarrow> nat \<Rightarrow> tables \<Rightarrow> member_row list" where
  "other_rows tag account db = filter (\<lambda>(c, t, a). \<not> (t = tag \<and> a = account)) (tb_members db)"

lemma set_members: "set (members tag account db) = {c. (c, tag, account) \<in> set (tb_members db)}"
  by (force simp: members_def)

lemma set_processed: "set (processed tag db) = {c. (tag, c) \<in> set (tb_process db)}"
  by (force simp: processed_def)

lemma delete_query_effect:
  assumes "delete_query tag account db = Inr (gone, db')"
  shows "set gone = set (members tag account db) - set (processed tag db)"
    and "set (members tag account db') = set (members tag account db) \<inter> set (processed tag db)"
    and "processed tag db' = processed tag db"
    and "other_rows tag account db' = other_rows tag account db"
proof -
  from assms have gone: "gone = map fst (filter (\<lambda>(c, t, a). a = account \<and> t = tag \<and> c \<notin> set (processed tag db)) (tb_members db))"
    and db: "db' = db\<lparr>tb_members := filter (\<lambda>r. \<not> (case r of (c, t, a) \<Rightarrow> a = account \<and> t = tag \<and> c \<notin> set (processed tag db))) (tb_members db)\<rparr>"
    by (simp_all add: delete_query_def Let_def)
  show "set gone = set (members tag account db) - set (processed tag db)"
    unfolding gone set_members by force
  show "set (members tag account db') = set (members tag account db) \<inter> set (processed tag db)"
    unfolding db set_members by auto
  show "processed tag db' = processed tag db" by (simp add: db processed_def)
  show "other_rows tag account db' = other_rows tag account db"
    by (auto simp: db other_rows_def intro!: filter_cong)
qed

lemma insert_query_effect:
  assumes "insert_query tag account db = Inr (new, db')"
  shows "set new = set (processed tag db) - set (members tag account db)" and "distinct new"
    and "set (members tag account db') = set (members tag account db) \<union> set (processed tag db)"
    and "other_rows tag account db' = other_rows tag account db"
proof -
  from assms have new: "new = filter (\<lambda>c. c \<notin> set (members tag account db)) (processed tag db)" and d: "distinct new"
    and db: "db' = db\<lparr>tb_members := tb_members db @ map (\<lambda>c. (c, tag, account)) new\<rparr>"
    by (auto simp: insert_query_def Let_def split: if_splits)
  show "set new = set (processed tag db) - set (members tag account db)" by (auto simp: new)
  show "set (members tag account db') = set (members tag account db) \<union> set (processed tag db)"
    unfolding set_members by (auto simp: db new set_members)
  show "other_rows tag account db' = other_rows tag account db" by (auto simp: db other_rows_def)
qed (use assms in \<open>auto simp: insert_query_def Let_def split: if_splits\<close>)

lemma move_members_Inr:
  "move_members env tag account q t = (Inr (), t') \<longleftrightarrow>
     (\<exists>db1 gone db2 new db3. \<not> tx_aborted t \<and>
        (\<forall>st \<in> {GeneratedQuery, DeleteQuery, InsertQuery, ClearProcess}. \<not> se_fails env st) \<and>
        se_generated env q (tx_now t) = Inr db1 \<and> delete_query tag account db1 = Inr (gone, db2) \<and>
        insert_query tag account db2 = Inr (new, db3) \<and>
        t' = t\<lparr>tx_now := db3\<lparr>tb_process := filter (\<lambda>(t, c). t \<noteq> tag) (tb_process db3)\<rparr>,
               tx_deleteIds := Some gone, tx_insertIds := Some new\<rparr>)"
  by (auto simp: move_members_def prog_then_Inr statement_Inr generated_query_def sumThen_def clear_process_def split: sum.splits)

lemma body_of_query:
  assumes "q \<noteq> []"
  shows "transaction_body env tag account (Some q) xs =
    prog_then (case xs of None \<Rightarrow> prog_ret () | Some xs \<Rightarrow> external_queries env xs) (\<lambda>_. move_members env tag account q)"
  using assms by (cases q) (auto simp: transaction_body_def)

text \<open>The ids are set only on the way through \<open>move_members\<close>.\<close>

lemma statement_ids:
  "statement env st f t = (r, t') \<Longrightarrow> tx_deleteIds t' = tx_deleteIds t \<and> tx_insertIds t' = tx_insertIds t"
  using statement_other by blast

lemma externals_ids:
  assumes "(case xs of None \<Rightarrow> prog_ret () | Some xs \<Rightarrow> external_queries env xs) t = (r, t')"
  shows "keeps_rest t t'"
  using assms by (auto simp: prog_ret_def keeps_rest_refl dest: keeps_rest_externals split: option.splits)

lemma move_members_ids:
  assumes "move_members env tag account q t = (r, t')" and "tx_insertIds t = None" and "tx_insertIds t' = Some ins"
    and "\<not> se_fails env ClearProcess"
  shows "r = Inr ()"
proof -
  obtain r1 t1 where 1: "statement env GeneratedQuery (generated_query env q) t = (r1, t1)" by fastforce
  have n1: "tx_insertIds t1 = None" using statement_other [OF 1] assms(2) by simp
  obtain r2 t2 where 2: "statement env DeleteQuery (delete_query tag account) t1 = (r2, t2)" by fastforce
  have n2: "tx_insertIds t2 = None" using statement_other [OF 2] n1 by simp
  obtain r3 t3 where 3: "statement env InsertQuery (insert_query tag account) (t2\<lparr>tx_deleteIds := Some (projr r2)\<rparr>) = (r3, t3)"
    by fastforce
  have n3: "tx_insertIds t3 = None" using statement_other [OF 3] n2 by simp
  show ?thesis
  proof (cases "isl r1 \<or> isl r2 \<or> isl r3")
    case True
    with 1 2 3 assms(1) have "t' \<in> {t1, t2, t3}"
      by (cases r1; cases r2; cases r3) (auto simp: move_members_def prog_then_def)
    with n1 n2 n3 assms(3) show ?thesis by auto
  next
    case False
    then obtain x y z where r: "r1 = Inr x" "r2 = Inr y" "r3 = Inr z"
      by (cases r1; cases r2; cases r3) auto
    have "\<not> tx_aborted t3" using 3 r(3) by (auto simp: statement_Inr)
    with assms 1 2 3 r show ?thesis
      by (auto simp: move_members_def prog_then_def statement_def clear_process_def)
  qed
qed

lemma committed_run:
  assumes "so_result (processSegmentTx env tag account (Some q) (Some xs) db) = Inr \<lparr>mv_deleteIds = del, mv_insertIds = Some ins\<rparr>"
    and "q \<noteq> []" and "\<forall>st \<in> {Commit, ClearProcess}. \<not> se_fails env st"
  obtains t gone db1 db2 db3 where "external_queries env xs (begin_transaction db) = (Inr (), t)" and "\<not> tx_aborted t"
    and "se_generated env q (tx_now t) = Inr db1" and "delete_query tag account db1 = Inr (gone, db2)"
    and "insert_query tag account db2 = Inr (ins, db3)" and "del = Some gone"
    and "so_tables (processSegmentTx env tag account (Some q) (Some xs) db) =
      db3\<lparr>tb_process := filter (\<lambda>(t, c). t \<noteq> tag) (tb_process db3)\<rparr>"
proof -
  obtain r t where body: "transaction_body env tag account (Some q) (Some xs) (begin_transaction db) = (r, t)" by fastforce
  have ok: "\<not> (se_fails env Connect \<or> se_fails env StartTransaction)" and ids: "tx_deleteIds t = del" "tx_insertIds t = Some ins"
    using assms(1) body by (auto simp: processSegmentTx_def Let_def split: if_splits)
  obtain r1 t1 where ext: "external_queries env xs (begin_transaction db) = (r1, t1)" by fastforce
  note rest = keeps_rest_externals [OF ext, unfolded keeps_rest_def]
  have r1: "r1 = Inr ()"
    using body ext rest ids(2) by (cases r1) (auto simp: body_of_query [OF assms(2)] prog_then_def begin_transaction_def)
  with body ext have move: "move_members env tag account q t1 = (r, t)" by (simp add: body_of_query [OF assms(2)] prog_then_def)
  have r: "r = Inr ()"
    by (rule move_members_ids [OF move _ ids(2)]) (use rest assms(3) in \<open>auto simp: begin_transaction_def\<close>)
  from move [unfolded r move_members_Inr] obtain db1 gone db2 new db3 where steps: "\<not> tx_aborted t1"
    "se_generated env q (tx_now t1) = Inr db1" "delete_query tag account db1 = Inr (gone, db2)"
    "insert_query tag account db2 = Inr (new, db3)"
    "t = t1\<lparr>tx_now := db3\<lparr>tb_process := filter (\<lambda>(t, c). t \<noteq> tag) (tb_process db3)\<rparr>,
       tx_deleteIds := Some gone, tx_insertIds := Some new\<rparr>" by blast
  have "so_tables (processSegmentTx env tag account (Some q) (Some xs) db) =
      db3\<lparr>tb_process := filter (\<lambda>(t, c). t \<noteq> tag) (tb_process db3)\<rparr>"
    using ok body r steps(1,5) assms(3) by (simp add: processSegmentTx_def Let_def)
  with that ext r1 steps ids show ?thesis by auto
qed


definition demo_sql :: "(nat \<times> nat) list \<Rightarrow> sql_env" where
  "demo_sql chosen = \<lparr>se_fails = (\<lambda>_. False), se_clickhouse = (\<lambda>_. Inr [JObj [(''contact_id'', JNum (Fin 3))]]),
     se_generated = (\<lambda>_ db. Inr (db\<lparr>tb_process := tb_process db @ chosen\<rparr>))\<rparr>"

definition demo_tables :: tables where
  "demo_tables = \<lparr>tb_members = [(1, 9, 5), (2, 9, 5), (7, 8, 5)], tb_process = [], tb_temp = []\<rparr>"

definition demo_external :: external_step where
  "demo_external = \<lparr>ex_tableName = ''table_segment_view0_9'', ex_query = ''SELECT'', ex_filterType = None\<rparr>"

abbreviation "demo_run \<equiv> processSegmentTx (demo_sql [(9, 2), (9, 3)]) 9 5 (Some ''INSERT'') (Some [demo_external]) demo_tables"

lemma demo_run_result: "so_result demo_run = Inr \<lparr>mv_deleteIds = Some [1], mv_insertIds = Some [3]\<rparr>"
  by code_simp

lemma demo_sql_fails: "se_fails (demo_sql chosen) st = False"
  by (simp add: demo_sql_def)

lemma demo_sql_keeps: "se_generated (demo_sql chosen) q db1 = Inr db2 \<Longrightarrow> tb_members db2 = tb_members db1 \<and> tb_temp db2 = tb_temp db1"
  by (auto simp: demo_sql_def)


text \<open>An external query over a table the session still has ends in an error or an aborted transaction.\<close>

lemma existing_table_blocks:
  assumes "external_queries env xs t = (r, t')" and "x \<in> set xs" and "jshas (tb_temp (tx_now t)) (ex_tableName x)"
  shows "isl r \<or> tx_aborted t'"
proof (cases "isl r \<or> tx_aborted t'")
  case False
  then have "external_queries env xs t = (Inr (), t')" "\<not> tx_aborted t'" using assms(1) by (cases r; simp)+
  from external_queries_tables [OF this] assms(2,3) show ?thesis by auto
qed

lemma aborted_moves_nothing:
  "tx_aborted t \<Longrightarrow> \<exists>e. move_members env tag account q t = (Inl e, t)"
  by (simp add: move_members_def prog_then_def statement_def)

text \<open>Result: a temporary table that the generated query does not drop stays in the session. On the
  same pooled connection every later recalculation that needs a table of that name fails: it
  moves no contact, and still it returns as if it had run, with no ids.\<close>

theorem left_over_table_blocks_next_run:
  assumes "so_result (processSegmentTx env tag account (Some q) (Some xs) db) = Inr \<lparr>mv_deleteIds = del, mv_insertIds = Some ins\<rparr>"
    and "q \<noteq> []" and "\<forall>st \<in> {Commit, ClearProcess}. \<not> se_fails env st"
    and "x \<in> set xs" and "\<forall>db1 db2. se_generated env q db1 = Inr db2 \<and> jshas (tb_temp db1) (ex_tableName x) \<longrightarrow>
      jshas (tb_temp db2) (ex_tableName x)"
    and "x \<in> set xs'" and "q' \<noteq> []" and "\<forall>st \<in> {Connect, StartTransaction, Release}. \<not> se_fails env' st"
  shows "let next = processSegmentTx env' tag account (Some q') (Some xs')
      (so_tables (processSegmentTx env tag account (Some q) (Some xs) db)) in
    so_result next = Inr \<lparr>mv_deleteIds = None, mv_insertIds = None\<rparr> \<and>
    so_tables next = so_tables (processSegmentTx env tag account (Some q) (Some xs) db)"
proof -
  define db' where "db' = so_tables (processSegmentTx env tag account (Some q) (Some xs) db)"
  from committed_run [OF assms(1-3)] obtain t gone db1 db2 db3
    where run: "external_queries env xs (begin_transaction db) = (Inr (), t)" "\<not> tx_aborted t"
      "se_generated env q (tx_now t) = Inr db1" "delete_query tag account db1 = Inr (gone, db2)"
      "insert_query tag account db2 = Inr (ins, db3)"
      "db' = db3\<lparr>tb_process := filter (\<lambda>(t, c). t \<noteq> tag) (tb_process db3)\<rparr>" unfolding db'_def .
  have "jshas (tb_temp (tx_now t)) (ex_tableName x)"
    using external_queries_tables [OF run(1,2)] assms(4) by (auto simp: table_holds_def)
  with assms(5) run(3) have "jshas (tb_temp db1) (ex_tableName x)" by blast
  moreover have "tb_temp db' = tb_temp db1"
    using run(4-6) by (auto simp: delete_query_def insert_query_def Let_def split: if_splits)
  ultimately have left: "jshas (tb_temp (tx_now (begin_transaction db'))) (ex_tableName x)" by (simp add: begin_transaction_def)
  obtain r u where ext: "external_queries env' xs' (begin_transaction db') = (r, u)" by fastforce
  note rest = keeps_rest_externals [OF ext, unfolded keeps_rest_def]
  obtain e where "transaction_body env' tag account (Some q') (Some xs') (begin_transaction db') = (Inl e, u)"
    using existing_table_blocks [OF ext assms(6) left] ext aborted_moves_nothing [of u env' tag account q']
    by (cases r) (auto simp: body_of_query [OF assms(7)] prog_then_def)
  with rest assms(8) show ?thesis
    unfolding db'_def [symmetric] by (simp add: processSegmentTx_def Let_def begin_transaction_def)
qed

theorem left_over_table_blocks_next_run_witness:
  "so_tables (processSegmentTx (demo_sql [(9, 4)]) 9 5 (Some ''INSERT'') (Some [demo_external]) (so_tables demo_run)) = so_tables demo_run"
proof -
  have keeps: "\<forall>db1 db2. se_generated (demo_sql [(9, 2), (9, 3)]) ''INSERT'' db1 = Inr db2 \<and>
      jshas (tb_temp db1) (ex_tableName demo_external) \<longrightarrow> jshas (tb_temp db2) (ex_tableName demo_external)"
    using demo_sql_keeps by metis
  show ?thesis
    using left_over_table_blocks_next_run [OF demo_run_result _ _ _ keeps, of "[demo_external]" "''INSERT''" "demo_sql [(9, 4)]"]
    by (simp add: demo_sql_fails Let_def)
qed

lemma distinct_once: "distinct xs \<Longrightarrow> length (filter (\<lambda>x. x = c) xs) \<le> 1"
  by (induction xs) (auto simp: filter_empty_conv)

text \<open>Result: a generated query that selects a new contact twice (a join with the devices does, for a
  contact with two of them) breaks the insertion. The transaction is rolled back, and yet the
  function returns the contacts it would have removed as removed.\<close>

theorem selected_twice_reports_removals:
  assumes "\<forall>st. \<not> se_fails env st" and "q \<noteq> []"
    and "se_generated env q db = Inr db'" and "tb_members db' = tb_members db"
    and "c \<notin> set (members tag account db)" and "2 \<le> length (filter (\<lambda>x. x = c) (processed tag db'))"
  shows "\<exists>gone. processSegmentTx env tag account (Some q) None db =
      \<lparr>so_result = Inr \<lparr>mv_deleteIds = Some gone, mv_insertIds = None\<rparr>, so_tables = db, so_unhandled = False\<rparr> \<and>
    set gone = set (members tag account db) - set (processed tag db')"
proof -
  obtain gone db2 where del: "delete_query tag account db' = Inr (gone, db2)" by (simp add: delete_query_def Let_def)
  note D = delete_query_effect [OF del]
  have old: "members tag account db' = members tag account db" using assms(4) by (simp add: members_def)
  let ?new = "filter (\<lambda>x. x \<notin> set (members tag account db2)) (processed tag db2)"
  have "filter (\<lambda>x. x = c) ?new = filter (\<lambda>x. x = c) (processed tag db')"
    using D(2,3) old assms(5) by (auto simp: filter_filter intro: filter_cong)
  with assms(6) have "\<not> distinct ?new" using distinct_once [of ?new c] by fastforce
  then have ins: "\<exists>e. insert_query tag account db2 = Inl e" by (simp add: insert_query_def Let_def)
  from ins obtain e where "insert_query tag account db2 = Inl e" ..
  then have "processSegmentTx env tag account (Some q) None db =
      \<lparr>so_result = Inr \<lparr>mv_deleteIds = Some gone, mv_insertIds = None\<rparr>, so_tables = db, so_unhandled = False\<rparr>"
    using assms(1,3) del
    by (simp add: processSegmentTx_def body_of_query [OF assms(2)] prog_defs move_members_def statement_def
        generated_query_def sumThen_def begin_transaction_def Let_def)
  with D(1) old show ?thesis by auto
qed

theorem selected_twice_reports_removals_witness:
  "so_tables (processSegmentTx (demo_sql [(9, 4), (9, 4)]) 9 5 (Some ''INSERT'') None demo_tables) = demo_tables \<and>
   (\<exists>gone. so_result (processSegmentTx (demo_sql [(9, 4), (9, 4)]) 9 5 (Some ''INSERT'') None demo_tables) =
      Inr \<lparr>mv_deleteIds = Some gone, mv_insertIds = None\<rparr> \<and> set gone = {1, 2})"
proof -
  have "se_generated (demo_sql [(9, 4), (9, 4)]) ''INSERT'' demo_tables = Inr (demo_tables\<lparr>tb_process := [(9, 4), (9, 4)]\<rparr>)"
    by (simp add: demo_sql_def demo_tables_def)
  from selected_twice_reports_removals [OF _ _ this, of 4 9 5] show ?thesis
    by (auto simp: demo_sql_fails members_def processed_def demo_tables_def)
qed

end
