(* ===== verification/SegmentRun.thy ===== *)
theory SegmentRun
  imports SegmentDb SegmentTime
begin

text \<open>
  One recalculation of a segment: \<open>AppService.processSegment\<close>
  (\<open>src/apps/tag-process/src/app.service.ts\<close>) between the acquisition of the lock, whose
  protocol is in \<open>SegmentLock\<close>, and its release. The function is a program over the loaded
  segment, the tables and the list of its effects; the answers of the database, of the queue and
  of dayjs are parameters. Log lines are left out.
\<close>

section \<open>The segment\<close>

record channel_counts =
  cc_total :: nat
  cc_email :: nat
  cc_webPush :: nat
  cc_mobilePush :: nat
  cc_phone :: nat
  cc_whatsapp :: nat

record out_info =
  oi_unsub :: nat
  oi_bounce :: nat
  oi_open :: nat
  oi_click :: nat
  oi_inTag :: nat
  oi_engagement :: nat
  oi_invalid :: nat

record in_info =
  ii_bought :: nat
  ii_reengaged :: nat

record segment_info =
  si_date :: int
  si_status :: bool
  si_duration :: int
  si_count :: nat
  si_insert :: "nat option"
  si_delete :: "nat option"
  si_channels :: "channel_counts option"
  si_outInfo :: "out_info option"
  si_inInfo :: "in_info option"

datatype segment_status = Reactivating | Inactive | Active | OtherStatus string

text \<open>
  The row of the segment; \<open>sg_dto\<close> is what its steps parse to, or the error of \<open>JSON.parse\<close>.
\<close>

record segment_row =
  sg_id :: nat
  sg_accountId :: nat
  sg_type :: string
  sg_status :: segment_status
  sg_createdAt :: int
  sg_taskId :: "string option"
  sg_lastCounts :: "channel_counts option"
  sg_info :: "segment_info list option"
  sg_dto :: "string + segment_dto"

record tag_changes =
  tc_status :: "segment_status option"
  tc_taskId :: "string option option"
  tc_counts :: "channel_counts option"
  tc_info :: "segment_info list option"

definition no_changes :: tag_changes where
  "no_changes = \<lparr>tc_status = None, tc_taskId = None, tc_counts = None, tc_info = None\<rparr>"

datatype direction = SegmentIn | SegmentOut

datatype run_effect =
    UpdateTag nat tag_changes
  | Schedule nat int
  | CancelJob "string option"
  | PublishData direction nat nat "nat list"
  | ReleaseLock

datatype run_result = Message string | TagUpdated

record run_env =
  re_acquired :: bool
  re_getTagById :: "string + segment_row option"
  re_findAccount :: "nat \<Rightarrow> string + string option option"
  re_campaigns :: "nat \<Rightarrow> string + nat"
  re_sql :: sql_env
  re_gen :: gen_env
  re_calendar :: calendar
  re_counts :: "nat \<Rightarrow> nat \<Rightarrow> tables \<Rightarrow> string + channel_counts"
  re_random :: "real \<times> real \<times> real"
  re_delay :: "string \<Rightarrow> int \<times> int \<times> int \<Rightarrow> int"
  re_schedule :: "string + string"
  re_publishes :: "direction \<Rightarrow> nat list \<Rightarrow> bool"
  re_updates :: "tag_changes \<Rightarrow> bool"
  re_releases :: bool
  re_start :: int
  re_weekAgo :: int
  re_now :: int

record run_state =
  rs_segment :: "segment_row option"
  rs_currentTaskId :: "string option"
  rs_tables :: tables
  rs_effects :: "run_effect list"

type_synonym 'a run = "(run_state, 'a) prog"

section \<open>Effects\<close>

definition effect :: "run_effect \<Rightarrow> unit run" where
  "effect e = prog_set (\<lambda>s. s\<lparr>rs_effects := rs_effects s @ [e]\<rparr>)"

definition try_effect :: "bool \<Rightarrow> run_effect \<Rightarrow> unit run" where
  "try_effect ok e = (if ok then effect e else prog_throw ''call failed'')"

definition updateTag :: "run_env \<Rightarrow> nat \<Rightarrow> tag_changes \<Rightarrow> unit run" where
  "updateTag env tag ch = try_effect (re_updates env ch) (UpdateTag tag ch)"

text \<open>The transaction of \<open>SegmentDb\<close>, on the tables of the state.\<close>

definition run_sql :: "run_env \<Rightarrow> segment_row \<Rightarrow> string option \<Rightarrow> external_step list option \<Rightarrow> moved run" where
  "run_sql env seg query externals s =
     (let result = processSegmentTx (re_sql env) (sg_id seg) (sg_accountId seg) query externals (rs_tables s)
      in (so_result result, s\<lparr>rs_tables := so_tables result\<rparr>))"

fun publish_chunks :: "run_env \<Rightarrow> direction \<Rightarrow> segment_row \<Rightarrow> nat list list \<Rightarrow> unit run" where
  "publish_chunks env d seg [] = prog_ret ()"
| "publish_chunks env d seg (c # cs) =
     prog_then (try_effect (re_publishes env d c) (PublishData d (sg_id seg) (sg_accountId seg) c))
       (\<lambda>_. publish_chunks env d seg cs)"

definition publishSegmentDataChunked :: "run_env \<Rightarrow> direction \<Rightarrow> segment_row \<Rightarrow> nat list \<Rightarrow> unit run" where
  "publishSegmentDataChunked env d seg contacts = publish_chunks env d seg (chunks 50000 contacts)"

text \<open>Only a nonempty list of ids is published.\<close>

definition publish_ids :: "run_env \<Rightarrow> direction \<Rightarrow> segment_row \<Rightarrow> nat list option \<Rightarrow> unit run" where
  "publish_ids env d seg ids = (case ids of
     None \<Rightarrow> prog_ret ()
   | Some xs \<Rightarrow> if xs = [] then prog_ret () else publishSegmentDataChunked env d seg xs)"

section \<open>The queries\<close>

definition formatted :: "run_env \<Rightarrow> string \<Rightarrow> string + string" where
  "formatted env q = (case formattedTimeQuery (re_calendar env) q of None \<Rightarrow> Inl ''no result'' | Some r \<Rightarrow> Inr r)"

fun formatted_steps :: "run_env \<Rightarrow> external_step list \<Rightarrow> string + external_step list" where
  "formatted_steps env [] = Inr []"
| "formatted_steps env (x # xs) =
     sumThen (formatted env (ex_query x)) (\<lambda>q.
     sumThen (formatted_steps env xs) (\<lambda>ys. Inr (x\<lparr>ex_query := q\<rparr> # ys)))"

definition segment_queries :: "run_env \<Rightarrow> segment_row \<Rightarrow> string option \<Rightarrow> string + string \<times> external_step list option" where
  "segment_queries env seg tz =
     sumThen (sg_dto seg) (\<lambda>dto.
     sumThen (generateForSegment (re_gen env)
       \<lparr>tl_id = JNum (Fin (real (sg_id seg))), tl_accountId = JNum (Fin (real (sg_accountId seg)))\<rparr> dto tz) (\<lambda>g.
     sumThen (formatted env (gr_query g)) (\<lambda>query.
     case gr_external g of
       None \<Rightarrow> Inr (query, None)
     | Some xs \<Rightarrow> sumThen (formatted_steps env xs) (\<lambda>ys. Inr (query, Some ys)))))"

section \<open>The schedule\<close>

definition random_hour :: "real \<Rightarrow> int" where
  "random_hour r = \<lfloor>r * (7 - 4 + 1) + 4\<rfloor>"

definition random_sixtieth :: "real \<Rightarrow> int" where
  "random_sixtieth r = \<lfloor>r * 59 + 1\<rfloor>"

definition schedule_delay :: "run_env \<Rightarrow> string option \<Rightarrow> int" where
  "schedule_delay env tz = (case re_random env of (h, m, sec) \<Rightarrow>
     re_delay env (case tz of Some (c # cs) \<Rightarrow> c # cs | _ \<Rightarrow> ''America/Sao_Paulo'')
       (random_hour h, random_sixtieth m, random_sixtieth sec))"

definition change_segment :: "(segment_row \<Rightarrow> segment_row) \<Rightarrow> unit run" where
  "change_segment f = prog_set (\<lambda>s. s\<lparr>rs_segment := map_option f (rs_segment s)\<rparr>)"

definition schedule_next :: "run_env \<Rightarrow> bool \<Rightarrow> segment_row \<Rightarrow> string option \<Rightarrow> unit run" where
  "schedule_next env isCampaign seg tz =
     (if isCampaign then prog_ret ()
      else prog_then (prog_lift (re_schedule env)) (\<lambda>job.
           prog_then (effect (Schedule (sg_id seg) (max 0 (schedule_delay env tz)))) (\<lambda>_.
           change_segment (\<lambda>g. g\<lparr>sg_taskId := Some job\<rparr>))))"

section \<open>The run\<close>

definition info_of_run :: "run_env \<Rightarrow> moved \<Rightarrow> channel_counts \<Rightarrow> segment_info" where
  "info_of_run env mv counts =
     \<lparr>si_date = re_start env, si_status = True, si_duration = \<bar>re_now env - re_start env\<bar>, si_count = cc_total counts,
      si_insert = Some (case mv_insertIds mv of None \<Rightarrow> 0 | Some xs \<Rightarrow> length xs),
      si_delete = Some (case mv_deleteIds mv of None \<Rightarrow> 0 | Some xs \<Rightarrow> length xs),
      si_channels = Some counts, si_outInfo = None, si_inInfo = None\<rparr>"

definition info_of_error :: "run_env \<Rightarrow> segment_info" where
  "info_of_error env =
     \<lparr>si_date = re_start env, si_status = False, si_duration = \<bar>re_now env - re_start env\<bar>, si_count = 0,
      si_insert = None, si_delete = None, si_channels = None, si_outInfo = None, si_inInfo = None\<rparr>"

text \<open>\<open>push\<close>, then \<open>slice(-100)\<close> when there are more than a hundred.\<close>

definition push_info :: "segment_info \<Rightarrow> segment_info list \<Rightarrow> segment_info list" where
  "push_info i xs = (let ys = xs @ [i] in if 100 < length ys then drop (length ys - 100) ys else ys)"

definition the_info :: "segment_row \<Rightarrow> segment_info list" where
  "the_info seg = (case sg_info seg of None \<Rightarrow> [] | Some xs \<Rightarrow> xs)"

definition current_segment :: "segment_row run" where
  "current_segment s = (case rs_segment s of None \<Rightarrow> (Inl ''TypeError'', s) | Some g \<Rightarrow> (Inr g, s))"

definition recalculate :: "run_env \<Rightarrow> bool \<Rightarrow> segment_row \<Rightarrow> string option \<Rightarrow> run_result run" where
  "recalculate env isCampaign seg tz =
     prog_then (prog_lift (segment_queries env seg tz)) (\<lambda>(query, externals).
     prog_then (run_sql env seg (Some query) externals) (\<lambda>mv.
     prog_then (\<lambda>s. (re_counts env (sg_accountId seg) (sg_id seg) (rs_tables s), s)) (\<lambda>counts.
     prog_then (schedule_next env isCampaign seg tz) (\<lambda>_.
     prog_then (change_segment (\<lambda>g. g\<lparr>sg_lastCounts := Some counts,
       sg_info := Some (push_info (info_of_run env mv counts) (the_info g))\<rparr>)) (\<lambda>_.
     prog_then (publish_ids env SegmentIn seg (mv_insertIds mv)) (\<lambda>_.
     prog_then (publish_ids env SegmentOut seg (mv_deleteIds mv)) (\<lambda>_.
     prog_then current_segment (\<lambda>g.
     prog_then (updateTag env (sg_id seg) \<lparr>tc_status = Some Active, tc_taskId = Some (sg_taskId g),
       tc_counts = sg_lastCounts g, tc_info = sg_info g\<rparr>) (\<lambda>_.
     prog_ret TagUpdated)))))))))"

text \<open>Segments older than seven days that no campaign uses are emptied, base-size segments excepted.\<close>

definition may_deactivate :: "run_env \<Rightarrow> segment_row \<Rightarrow> bool" where
  "may_deactivate env seg \<longleftrightarrow> sg_type seg \<noteq> ''segment-base-size'' \<and> sg_status seg \<noteq> Reactivating \<and>
     sg_createdAt seg < re_weekAgo env"

definition deactivate :: "run_env \<Rightarrow> segment_row \<Rightarrow> run_result run" where
  "deactivate env seg =
     prog_then (run_sql env seg None None) (\<lambda>_.
     prog_then (updateTag env (sg_id seg) (no_changes\<lparr>tc_status := Some Inactive, tc_taskId := Some None\<rparr>)) (\<lambda>_.
     prog_ret (Message ''Segment inactive'')))"

definition loaded_run :: "run_env \<Rightarrow> bool \<Rightarrow> segment_row \<Rightarrow> string option \<Rightarrow> run_result run" where
  "loaded_run env isCampaign seg tz =
     prog_then (change_segment (\<lambda>g. g\<lparr>sg_info := Some (the_info g)\<rparr>)) (\<lambda>_.
     if may_deactivate env seg then
       prog_then (prog_lift (re_campaigns env (sg_id seg))) (\<lambda>n.
       if n = 0 then deactivate env seg else recalculate env isCampaign seg tz)
     else recalculate env isCampaign seg tz)"

definition run_body :: "run_env \<Rightarrow> bool \<Rightarrow> run_result run" where
  "run_body env isCampaign =
     prog_then (prog_lift (re_getTagById env)) (\<lambda>found. case found of
       None \<Rightarrow> prog_ret (Message ''Segment not found'')
     | Some seg \<Rightarrow>
         prog_then (prog_set (\<lambda>s. s\<lparr>rs_segment := Some seg, rs_currentTaskId := sg_taskId seg\<rparr>)) (\<lambda>_.
         prog_then (prog_lift (re_findAccount env (sg_accountId seg))) (\<lambda>account. case account of
           None \<Rightarrow>
             prog_then (updateTag env (sg_id seg) (no_changes\<lparr>tc_status := Some Inactive, tc_taskId := Some None\<rparr>)) (\<lambda>_.
             prog_ret (Message ''Account inactive''))
         | Some tz \<Rightarrow> loaded_run env isCampaign seg tz)))"

text \<open>
  The \<open>catch\<close> block: the failed entry, the job scheduled by the failed run, the row; it throws
  again. An \<open>segmentInfo\<close> that is still null has no \<open>push\<close>.
\<close>

definition run_failed :: "run_env \<Rightarrow> run_result run" where
  "run_failed env s = (case rs_segment s of
     None \<Rightarrow> prog_throw ''Error executing segment'' s
   | Some seg \<Rightarrow> (case sg_info seg of
       None \<Rightarrow> prog_throw ''TypeError'' s
     | Some xs \<Rightarrow>
         (let moved_on = (sg_taskId seg \<noteq> rs_currentTaskId s);
              seg' = seg\<lparr>sg_info := Some (xs @ [info_of_error env]), sg_taskId := rs_currentTaskId s\<rparr>
          in prog_then (if moved_on then effect (CancelJob (sg_taskId seg)) else prog_ret ()) (\<lambda>_.
             prog_then (prog_set (\<lambda>s. s\<lparr>rs_segment := Some seg'\<rparr>)) (\<lambda>_.
             prog_then (updateTag env (sg_id seg) (no_changes\<lparr>tc_taskId := Some (rs_currentTaskId s), tc_info := sg_info seg'\<rparr>)) (\<lambda>_.
             prog_throw ''Error executing segment''))) s)))"

definition run_state_of :: "tables \<Rightarrow> run_state" where
  "run_state_of db = \<lparr>rs_segment = None, rs_currentTaskId = None, rs_tables = db, rs_effects = []\<rparr>"

text \<open>
  The whole function, with the release of the lock in \<open>finally\<close>; contention is answered with
  status 503 before anything happens.
\<close>

definition processSegment :: "run_env \<Rightarrow> bool \<Rightarrow> tables \<Rightarrow> (string + run_result) \<times> run_state" where
  "processSegment env isCampaign db =
     (if \<not> re_acquired env then prog_throw ''503: Locked'' (run_state_of db)
      else let (r, s) = run_body env isCampaign (run_state_of db);
               (r', s') = (if isl r then run_failed env s else (r, s))
           in if re_releases env then prog_then (effect ReleaseLock) (\<lambda>_. prog_lift r') s'
              else (Inl ''release failed'', s'))"

section \<open>The lock\<close>

text \<open>A program that adds effects but does not release.\<close>

definition no_release :: "'a run \<Rightarrow> bool" where
  "no_release m \<longleftrightarrow> (\<forall>s. \<exists>es. rs_effects (snd (m s)) = rs_effects s @ es \<and> ReleaseLock \<notin> set es)"

lemma no_release_quiet: "(\<And>s. rs_effects (snd (m s)) = rs_effects s) \<Longrightarrow> no_release m"
  by (simp add: no_release_def)

lemma no_release_then:
  assumes "no_release m" and "\<And>x. no_release (f x)"
  shows "no_release (prog_then m f)"
  unfolding no_release_def
proof
  fix s
  obtain r t where m: "m s = (r, t)" by fastforce
  from assms(1) m obtain es where es: "rs_effects t = rs_effects s @ es" "ReleaseLock \<notin> set es"
    unfolding no_release_def by (metis snd_conv)
  show "\<exists>es. rs_effects (snd (prog_then m f s)) = rs_effects s @ es \<and> ReleaseLock \<notin> set es"
  proof (cases r)
    case (Inl e)
    then show ?thesis using m es by (simp add: prog_then_def)
  next
    case (Inr x)
    from assms(2) [of x] obtain es' where "rs_effects (snd (f x t)) = rs_effects t @ es'" "ReleaseLock \<notin> set es'"
      unfolding no_release_def by blast
    then show ?thesis using m es Inr by (auto simp: prog_then_def intro!: exI [of _ "es @ es'"])
  qed
qed

lemma no_release_basic:
  "no_release (prog_ret x)" "no_release (prog_throw e)" "no_release (prog_lift r)"
  "no_release (change_segment f)" "no_release current_segment" "no_release (run_sql env seg q xs)"
  "no_release (\<lambda>s. (g s, s))" "no_release (prog_set (\<lambda>s. s\<lparr>rs_segment := sg, rs_currentTaskId := k\<rparr>))"
  "no_release (prog_set (\<lambda>s. s\<lparr>rs_segment := sg\<rparr>))"
  by (rule no_release_quiet, simp add: prog_defs change_segment_def current_segment_def run_sql_def Let_def split: option.split)+

lemma no_release_effect: "e \<noteq> ReleaseLock \<Longrightarrow> no_release (effect e)"
  by (simp add: no_release_def effect_def prog_set_def)

lemma no_release_try: "e \<noteq> ReleaseLock \<Longrightarrow> no_release (try_effect ok e)"
  by (simp add: try_effect_def no_release_effect no_release_basic)

lemma no_release_update: "no_release (updateTag env tag ch)"
  by (simp add: updateTag_def no_release_try)

lemma no_release_if: "(P \<Longrightarrow> no_release m) \<Longrightarrow> (\<not> P \<Longrightarrow> no_release n) \<Longrightarrow> no_release (if P then m else n)"
  by simp

lemma no_release_chunks: "no_release (publish_chunks env d seg cs)"
  by (induction cs) (auto intro!: no_release_then no_release_try simp: no_release_basic)

lemma no_release_ids: "no_release (publish_ids env d seg ids)"
  by (auto simp: publish_ids_def publishSegmentDataChunked_def no_release_chunks no_release_basic split: option.split)

lemmas no_release_intros = no_release_then no_release_basic no_release_effect no_release_update no_release_ids no_release_if

lemma no_release_recalculate: "no_release (recalculate env b seg tz)"
  by (auto simp: recalculate_def schedule_next_def intro!: no_release_intros split: prod.split)

lemma no_release_body: "no_release (run_body env b)"
  by (auto simp: run_body_def loaded_run_def deactivate_def intro!: no_release_intros no_release_recalculate split: option.split)

lemma no_release_failed: "no_release (run_failed env)"
proof -
  have "\<exists>es. rs_effects (snd (run_failed env s)) = rs_effects s @ es \<and> ReleaseLock \<notin> set es" for s
  proof (cases "rs_segment s")
    case (Some seg)
    show ?thesis
    proof (cases "sg_info seg")
      case info: (Some xs)
      let ?seg = "seg\<lparr>sg_info := Some (xs @ [info_of_error env]), sg_taskId := rs_currentTaskId s\<rparr>"
      let ?m = "prog_then (if sg_taskId seg \<noteq> rs_currentTaskId s then effect (CancelJob (sg_taskId seg)) else prog_ret ()) (\<lambda>_.
         prog_then (prog_set (\<lambda>s. s\<lparr>rs_segment := Some ?seg\<rparr>)) (\<lambda>_.
         prog_then (updateTag env (sg_id seg) (no_changes\<lparr>tc_taskId := Some (rs_currentTaskId s), tc_info := sg_info ?seg\<rparr>)) (\<lambda>_.
         prog_throw ''Error executing segment'')))"
      have "no_release (?m :: run_result run)" by (intro no_release_intros) auto
      then show ?thesis using Some info by (simp add: run_failed_def Let_def no_release_def)
    qed (use Some in \<open>simp add: run_failed_def prog_throw_def\<close>)
  qed (simp add: run_failed_def prog_throw_def)
  then show ?thesis by (simp add: no_release_def)
qed

section \<open>Properties\<close>


lemma push_info_last: "length (push_info i xs) \<le> 100 \<and> push_info i xs \<noteq> [] \<and> last (push_info i xs) = i"
  by (auto simp: push_info_def Let_def last_drop)

lemma effect_Inr: "effect e s = (Inr y, s') \<longleftrightarrow> s' = s\<lparr>rs_effects := rs_effects s @ [e]\<rparr>"
  by (auto simp: effect_def prog_set_def)

lemma try_effect_Inr: "try_effect ok e s = (Inr y, s') \<longleftrightarrow> ok \<and> s' = s\<lparr>rs_effects := rs_effects s @ [e]\<rparr>"
  by (auto simp: try_effect_def effect_Inr prog_throw_Inr)

lemma publish_chunks_Inr:
  "publish_chunks env d seg cs s = (Inr y, s') \<longleftrightarrow> (\<forall>c \<in> set cs. re_publishes env d c) \<and>
     s' = s\<lparr>rs_effects := rs_effects s @ map (PublishData d (sg_id seg) (sg_accountId seg)) cs\<rparr>"
  by (induction cs arbitrary: s) (auto simp: prog_Inr try_effect_Inr)

definition ids :: "nat list option \<Rightarrow> nat list" where
  "ids xs = (case xs of None \<Rightarrow> [] | Some ys \<Rightarrow> ys)"

lemma publish_ids_Inr:
  "publish_ids env d seg xs s = (Inr y, s') \<longleftrightarrow> (\<forall>c \<in> set (chunks 50000 (ids xs)). re_publishes env d c) \<and>
     s' = s\<lparr>rs_effects := rs_effects s @ map (PublishData d (sg_id seg) (sg_accountId seg)) (chunks 50000 (ids xs))\<rparr>"
  by (auto simp: publish_ids_def publishSegmentDataChunked_def publish_chunks_Inr prog_Inr ids_def split: option.split)

lemmas run_Inr = prog_Inr effect_Inr try_effect_Inr publish_ids_Inr

text \<open>The effects of a recalculation that ends well.\<close>

definition run_log :: "run_env \<Rightarrow> bool \<Rightarrow> segment_row \<Rightarrow> string option \<Rightarrow> moved \<Rightarrow> channel_counts \<Rightarrow> run_effect list" where
  "run_log env isCampaign seg tz mv counts =
     (if isCampaign then [] else [Schedule (sg_id seg) (max 0 (schedule_delay env tz))]) @
     map (PublishData SegmentIn (sg_id seg) (sg_accountId seg)) (chunks 50000 (ids (mv_insertIds mv))) @
     map (PublishData SegmentOut (sg_id seg) (sg_accountId seg)) (chunks 50000 (ids (mv_deleteIds mv))) @
     [UpdateTag (sg_id seg) \<lparr>tc_status = Some Active,
        tc_taskId = Some (if isCampaign then sg_taskId seg else Some (projr (re_schedule env))), tc_counts = Some counts,
        tc_info = Some (push_info (info_of_run env mv counts) (the_info seg))\<rparr>]"

lemma the_info_set: "the_info (seg\<lparr>sg_info := Some xs\<rparr>) = xs" "the_info (seg\<lparr>sg_taskId := k\<rparr>) = the_info seg"
    "the_info (seg\<lparr>sg_info := Some xs, sg_taskId := k\<rparr>) = xs"
  by (simp_all add: the_info_def)

lemma recalculate_Inr:
  assumes "rs_segment s = Some g" and "g = seg\<lparr>sg_info := Some (the_info seg)\<rparr>"
  shows "recalculate env b seg tz s = (Inr y, s') \<longleftrightarrow>
    (\<exists>query externals mv counts db. segment_queries env seg tz = Inr (query, externals) \<and>
       so_result (processSegmentTx (re_sql env) (sg_id seg) (sg_accountId seg) (Some query) externals (rs_tables s)) = Inr mv \<and>
       so_tables (processSegmentTx (re_sql env) (sg_id seg) (sg_accountId seg) (Some query) externals (rs_tables s)) = db \<and>
       re_counts env (sg_accountId seg) (sg_id seg) db = Inr counts \<and> (\<not> b \<longrightarrow> \<not> isl (re_schedule env)) \<and>
       (\<forall>c \<in> set (chunks 50000 (ids (mv_insertIds mv))). re_publishes env SegmentIn c) \<and>
       (\<forall>c \<in> set (chunks 50000 (ids (mv_deleteIds mv))). re_publishes env SegmentOut c) \<and>
       re_updates env \<lparr>tc_status = Some Active, tc_taskId = Some (if b then sg_taskId seg else Some (projr (re_schedule env))),
         tc_counts = Some counts, tc_info = Some (push_info (info_of_run env mv counts) (the_info seg))\<rparr> \<and>
       y = TagUpdated \<and>
       s' = s\<lparr>rs_segment := Some (g\<lparr>sg_taskId := (if b then sg_taskId seg else Some (projr (re_schedule env))),
              sg_lastCounts := Some counts, sg_info := Some (push_info (info_of_run env mv counts) (the_info seg))\<rparr>),
            rs_tables := db, rs_effects := rs_effects s @ run_log env b seg tz mv counts\<rparr>)"
proof -
  have info: "the_info g = the_info seg" and g: "rs_segment s = Some g" using assms by (simp_all add: the_info_def)
  have next1: "schedule_next env c seg tz t = (Inr u, t') \<longleftrightarrow> (\<not> c \<longrightarrow> \<not> isl (re_schedule env)) \<and>
      t' = (if c then t else t\<lparr>rs_effects := rs_effects t @ [Schedule (sg_id seg) (max 0 (schedule_delay env tz))],
        rs_segment := map_option (sg_taskId_update (\<lambda>_. Some (projr (re_schedule env)))) (rs_segment t)\<rparr>)" for c t u t'
    by (cases "re_schedule env") (auto simp: schedule_next_def run_Inr change_segment_def)
  have sql: "run_sql env seg q xs t = (Inr mv, t') \<longleftrightarrow>
      so_result (processSegmentTx (re_sql env) (sg_id seg) (sg_accountId seg) q xs (rs_tables t)) = Inr mv \<and>
      t' = t\<lparr>rs_tables := so_tables (processSegmentTx (re_sql env) (sg_id seg) (sg_accountId seg) q xs (rs_tables t))\<rparr>" for q xs t mv t'
    by (auto simp: run_sql_def Let_def)
  have cur: "current_segment t = (Inr h, t') \<longleftrightarrow> rs_segment t = Some h \<and> t' = t" for t h t'
    by (auto simp: current_segment_def split: option.splits)
  show ?thesis
    using g by (cases b; cases s; cases s')
      (auto simp: recalculate_def run_Inr next1 sql cur change_segment_def updateTag_def run_log_def assms(2) the_info_set)
qed

definition published :: "direction \<Rightarrow> run_effect list \<Rightarrow> nat list" where
  "published d es = concat (map (\<lambda>e. case e of PublishData d' _ _ c \<Rightarrow> if d' = d then c else [] | _ \<Rightarrow> []) es)"

lemma published_append: "published d (es @ fs) = published d es @ published d fs"
  by (simp add: published_def)

lemma published_chunks: "published d (map (PublishData d' t a) cs) = (if d' = d then concat cs else [])"
  by (induction cs) (auto simp: published_def)

lemma published_none: "published d [] = []" "published d (Schedule i x # es) = published d es"
  "published d (UpdateTag i ch # es) = published d es" "published d (ReleaseLock # es) = published d es"
  by (simp_all add: published_def)

lemmas published_simps = published_append published_chunks published_none

lemma run_log_published:
  "published SegmentIn (run_log env b seg tz mv counts @ [ReleaseLock]) = ids (mv_insertIds mv)"
  "published SegmentOut (run_log env b seg tz mv counts @ [ReleaseLock]) = ids (mv_deleteIds mv)"
  by (simp_all add: run_log_def published_simps)

lemma run_log_sizes: "PublishData d t a c \<in> set (run_log env b seg tz mv counts @ [ReleaseLock]) \<Longrightarrow> 0 < length c \<and> length c \<le> 50000"
  by (auto simp: run_log_def dest: chunk_sizes split: if_splits)

lemma processSegment_updated:
  "processSegment env b db = (Inr TagUpdated, s) \<longleftrightarrow> re_acquired env \<and> re_releases env \<and>
     (\<exists>t. run_body env b (run_state_of db) = (Inr TagUpdated, t) \<and> s = t\<lparr>rs_effects := rs_effects t @ [ReleaseLock]\<rparr>)"
proof -
  obtain r t where body: "run_body env b (run_state_of db) = (r, t)" by fastforce
  have failed: "isl (fst (run_failed env t))"
    by (auto simp: run_failed_def prog_defs Let_def updateTag_def try_effect_def effect_def split: option.split)
  obtain r' t' where f: "run_failed env t = (r', t')" by fastforce
  from failed f have "isl r'" by simp
  with body f show ?thesis
    by (cases r) (auto simp: processSegment_def prog_defs effect_def Let_def isl_def)
qed

lemma loaded_run_updated:
  assumes "rs_segment t = Some seg"
  shows "loaded_run env b seg tz t = (Inr TagUpdated, s) \<longleftrightarrow>
    (may_deactivate env seg \<longrightarrow> (\<exists>n. re_campaigns env (sg_id seg) = Inr n \<and> n \<noteq> 0)) \<and>
    recalculate env b seg tz (t\<lparr>rs_segment := Some (seg\<lparr>sg_info := Some (the_info seg)\<rparr>)\<rparr>) = (Inr TagUpdated, s)"
  using assms by (auto simp: loaded_run_def deactivate_def prog_Inr change_segment_def split: if_splits)

text \<open>C12: a recalculation that completes has done exactly this, in order: one job for the next day
  (none for a campaign's run), the entered and the left contacts of the transaction in parts of
  at most 50,000, nothing lost or repeated, and one update of the row, active, with the run as
  the last of at most 100 entries; then it released the lock.\<close>

theorem completed_run_effects:
  assumes "processSegment env b db = (Inr TagUpdated, s)"
  shows "\<exists>seg tz query xs mv counts. re_getTagById env = Inr (Some seg) \<and> re_findAccount env (sg_accountId seg) = Inr (Some tz) \<and>
    segment_queries env seg tz = Inr (query, xs) \<and>
    so_result (processSegmentTx (re_sql env) (sg_id seg) (sg_accountId seg) (Some query) xs db) = Inr mv \<and>
    rs_tables s = so_tables (processSegmentTx (re_sql env) (sg_id seg) (sg_accountId seg) (Some query) xs db) \<and>
    rs_effects s = run_log env b seg tz mv counts @ [ReleaseLock] \<and>
    published SegmentIn (rs_effects s) = ids (mv_insertIds mv) \<and> published SegmentOut (rs_effects s) = ids (mv_deleteIds mv) \<and>
    (\<forall>d t a c. PublishData d t a c \<in> set (rs_effects s) \<longrightarrow> 0 < length c \<and> length c \<le> 50000) \<and>
    length (push_info (info_of_run env mv counts) (the_info seg)) \<le> 100"
proof -
  from assms obtain t where t: "run_body env b (run_state_of db) = (Inr TagUpdated, t)" "s = t\<lparr>rs_effects := rs_effects t @ [ReleaseLock]\<rparr>"
    by (auto simp: processSegment_updated)
  from t(1) obtain seg tz where seg: "re_getTagById env = Inr (Some seg)" "re_findAccount env (sg_accountId seg) = Inr (Some tz)"
    "loaded_run env b seg tz ((run_state_of db)\<lparr>rs_segment := Some seg, rs_currentTaskId := sg_taskId seg\<rparr>) = (Inr TagUpdated, t)"
    by (auto simp: run_body_def prog_Inr split: option.splits)
  let ?s = "(run_state_of db)\<lparr>rs_currentTaskId := sg_taskId seg, rs_segment := Some (seg\<lparr>sg_info := Some (the_info seg)\<rparr>)\<rparr>"
  have "recalculate env b seg tz ?s = (Inr TagUpdated, t)"
    using seg(3) by (simp add: loaded_run_updated)
  moreover have start: "rs_segment ?s = Some (seg\<lparr>sg_info := Some (the_info seg)\<rparr>)" "rs_tables ?s = db" "rs_effects ?s = []"
    by (simp_all add: run_state_of_def)
  ultimately obtain query xs mv counts db' where run: "segment_queries env seg tz = Inr (query, xs)"
    "so_result (processSegmentTx (re_sql env) (sg_id seg) (sg_accountId seg) (Some query) xs (rs_tables ?s)) = Inr mv"
    "so_tables (processSegmentTx (re_sql env) (sg_id seg) (sg_accountId seg) (Some query) xs (rs_tables ?s)) = db'"
    "rs_tables t = db'" "rs_effects t = rs_effects ?s @ run_log env b seg tz mv counts"
    unfolding recalculate_Inr [OF start(1) refl] by (elim exE conjE) auto
  note run = run [unfolded start(2,3) append_Nil]
  have s: "rs_effects s = run_log env b seg tz mv counts @ [ReleaseLock]"
    "rs_tables s = so_tables (processSegmentTx (re_sql env) (sg_id seg) (sg_accountId seg) (Some query) xs db)"
    using t(2) run by simp_all
  have "\<forall>d t a c. PublishData d t a c \<in> set (rs_effects s) \<longrightarrow> 0 < length c \<and> length c \<le> 50000"
    unfolding s using run_log_sizes by blast
  moreover note push_info_last [of "info_of_run env mv counts" "the_info seg", THEN conjunct1]
  moreover note run_log_published [of env b seg tz mv counts, folded s(1)]
  ultimately show ?thesis using seg(1,2) run(1,2) s by blast
qed

lemma run_completes:
  assumes "re_acquired env" and "re_releases env" and "re_getTagById env = Inr (Some seg)"
    and "re_findAccount env (sg_accountId seg) = Inr (Some tz)" and "\<not> may_deactivate env seg"
    and "segment_queries env seg tz = Inr (query, xs)"
    and "so_result (processSegmentTx (re_sql env) (sg_id seg) (sg_accountId seg) (Some query) xs db) = Inr mv"
    and "so_tables (processSegmentTx (re_sql env) (sg_id seg) (sg_accountId seg) (Some query) xs db) = db'"
    and "re_counts env (sg_accountId seg) (sg_id seg) db' = Inr counts" and "re_schedule env = Inr job"
    and "\<forall>d c. re_publishes env d c" and "\<forall>ch. re_updates env ch"
  shows "\<exists>s. processSegment env b db = (Inr TagUpdated, s) \<and> rs_tables s = db' \<and>
    rs_effects s = run_log env b seg tz mv counts @ [ReleaseLock]"
proof -
  let ?s = "(run_state_of db)\<lparr>rs_currentTaskId := sg_taskId seg, rs_segment := Some (seg\<lparr>sg_info := Some (the_info seg)\<rparr>)\<rparr>"
  have db: "rs_tables ?s = db" "rs_effects ?s = []" "rs_segment ?s = Some (seg\<lparr>sg_info := Some (the_info seg)\<rparr>)"
    by (simp_all add: run_state_of_def)
  have "\<exists>t. recalculate env b seg tz ?s = (Inr TagUpdated, t) \<and> rs_tables t = db' \<and> rs_effects t = run_log env b seg tz mv counts"
    using assms(6-12) db by (subst recalculate_Inr [OF db(3) refl]) simp
  then obtain t where t: "recalculate env b seg tz ?s = (Inr TagUpdated, t)" "rs_tables t = db'" "rs_effects t = run_log env b seg tz mv counts"
    by blast
  have "run_body env b (run_state_of db) = (Inr TagUpdated, t)"
    using assms(3-5) t(1) by (simp add: run_body_def prog_Inr loaded_run_updated)
  then have "processSegment env b db = (Inr TagUpdated, t\<lparr>rs_effects := rs_effects t @ [ReleaseLock]\<rparr>)"
    using assms(1,2) by (simp add: processSegment_updated)
  with t(2,3) show ?thesis by simp
qed

text \<open>C13: when the insertion of the new members fails, the transaction is rolled back, but the run
  goes on as after a success: it announces the contacts it did not remove as having left, and
  records the segment as active with a successful entry.\<close>

theorem rolled_back_run_recorded_as_success:
  assumes "re_acquired env" and "re_releases env" and "re_getTagById env = Inr (Some seg)"
    and "re_findAccount env (sg_accountId seg) = Inr (Some tz)" and "\<not> may_deactivate env seg"
    and "segment_queries env seg tz = Inr (query, xs)"
    and "so_result (processSegmentTx (re_sql env) (sg_id seg) (sg_accountId seg) (Some query) xs db) =
      Inr \<lparr>mv_deleteIds = Some gone, mv_insertIds = None\<rparr>"
    and "so_tables (processSegmentTx (re_sql env) (sg_id seg) (sg_accountId seg) (Some query) xs db) = db"
    and "re_counts env (sg_accountId seg) (sg_id seg) db = Inr counts" and "re_schedule env = Inr job"
    and "\<forall>d c. re_publishes env d c" and "\<forall>ch. re_updates env ch"
  shows "\<exists>s ch infos. processSegment env b db = (Inr TagUpdated, s) \<and> rs_tables s = db \<and>
    published SegmentOut (rs_effects s) = gone \<and> published SegmentIn (rs_effects s) = [] \<and>
    UpdateTag (sg_id seg) ch \<in> set (rs_effects s) \<and> tc_status ch = Some Active \<and>
    tc_info ch = Some infos \<and> si_status (last infos)"
proof -
  let ?mv = "\<lparr>mv_deleteIds = Some gone, mv_insertIds = None\<rparr>"
  let ?infos = "push_info (info_of_run env ?mv counts) (the_info seg)"
  from run_completes [OF assms] obtain s where s: "processSegment env b db = (Inr TagUpdated, s)" "rs_tables s = db"
    "rs_effects s = run_log env b seg tz ?mv counts @ [ReleaseLock]" by blast
  have "si_status (last ?infos)" using push_info_last by (simp add: info_of_run_def)
  moreover have "UpdateTag (sg_id seg) \<lparr>tc_status = Some Active,
        tc_taskId = Some (if b then sg_taskId seg else Some (projr (re_schedule env))), tc_counts = Some counts,
        tc_info = Some ?infos\<rparr> \<in> set (rs_effects s)"
    by (simp add: s(3) run_log_def)
  ultimately show ?thesis
    using s(1,2) run_log_published [of env b seg tz ?mv counts, folded s(3)]
    by (intro exI conjI) (assumption | simp add: ids_def)+
qed

text \<open>An account whose segment selects contact 4 twice.\<close>

definition demo_dto :: segment_dto where
  "demo_dto = \<lparr>sd_steps = [], sd_addBounced = False, sd_addInvalid = False, sd_addUnsubscribed = False, sd_contactsLimit = JUndefined\<rparr>"

definition demo_segment :: segment_row where
  "demo_segment = \<lparr>sg_id = 9, sg_accountId = 5, sg_type = ''segment'', sg_status = Active, sg_createdAt = 1000, sg_taskId = None,
     sg_lastCounts = None, sg_info = None, sg_dto = Inr demo_dto\<rparr>"

definition demo_counts :: channel_counts where
  "demo_counts = \<lparr>cc_total = 2, cc_email = 2, cc_webPush = 0, cc_mobilePush = 0, cc_phone = 0, cc_whatsapp = 0\<rparr>"

definition demo_run_env :: "(nat \<times> nat) list \<Rightarrow> run_env" where
  "demo_run_env chosen = \<lparr>re_acquired = True, re_getTagById = Inr (Some demo_segment), re_findAccount = (\<lambda>_. Inr (Some None)),
     re_campaigns = (\<lambda>_. Inr 1), re_sql = demo_sql chosen,
     re_gen = \<lparr>ge_fracStr = (\<lambda>_. []), ge_iso = (\<lambda>_. None), ge_member = (\<lambda>_. None)\<rparr>, re_calendar = demo_calendar,
     re_counts = (\<lambda>_ _ _. Inr demo_counts), re_random = (0, 0, 0), re_delay = (\<lambda>_ _. 1000), re_schedule = Inr ''segment-9-1'',
     re_publishes = (\<lambda>_ _. True), re_updates = (\<lambda>_. True), re_releases = True, re_start = 5000, re_weekAgo = 0, re_now = 5100\<rparr>"

lemma demo_query:
  "segment_queries (demo_run_env chosen) demo_segment None = Inr (''INSERT INTO segment_process ( );'', None)"
proof -
  have "generateForSegment (re_gen (demo_run_env chosen))
      \<lparr>tl_id = JNum (Fin (real (sg_id demo_segment))), tl_accountId = JNum (Fin (real (sg_accountId demo_segment)))\<rparr> demo_dto None =
    Inr \<lparr>gr_query = ''INSERT INTO segment_process ( );'', gr_external = None\<rparr>" by code_simp
  moreover have "filled_query demo_calendar ''INSERT INTO segment_process ( );'' = ''INSERT INTO segment_process ( );''" by code_simp
  moreover have "formatted (demo_run_env chosen) q = Inr (filled_query demo_calendar q)" for q
    using formatted_is_filled [OF demo_calendar_ok] by (simp add: formatted_def demo_run_env_def)
  ultimately show ?thesis by (simp add: segment_queries_def sumThen_def demo_segment_def)
qed

lemma demo_env_simps:
  "re_acquired (demo_run_env chosen)" "re_releases (demo_run_env chosen)"
  "re_getTagById (demo_run_env chosen) = Inr (Some demo_segment)" "re_findAccount (demo_run_env chosen) a = Inr (Some None)"
  "\<not> may_deactivate (demo_run_env chosen) demo_segment" "re_counts (demo_run_env chosen) a i db = Inr demo_counts"
  "re_schedule (demo_run_env chosen) = Inr ''segment-9-1''" "re_publishes (demo_run_env chosen) d c" "re_updates (demo_run_env chosen) ch"
  "re_sql (demo_run_env chosen) = demo_sql chosen" "sg_id demo_segment = 9" "sg_accountId demo_segment = 5"
  by (simp_all add: demo_run_env_def demo_segment_def may_deactivate_def)

abbreviation "demo_twice \<equiv> demo_run_env [(9, 4), (9, 4)]"

theorem rolled_back_run_recorded_as_success_witness:
  "\<exists>s. processSegment demo_twice False demo_tables = (Inr TagUpdated, s) \<and> rs_tables s = demo_tables \<and>
     published SegmentOut (rs_effects s) = [1, 2]"
proof -
  have "so_result (processSegmentTx (demo_sql [(9, 4), (9, 4)]) 9 5 (Some ''INSERT INTO segment_process ( );'') None demo_tables) =
      Inr \<lparr>mv_deleteIds = Some [1, 2], mv_insertIds = None\<rparr>"
    "so_tables (processSegmentTx (demo_sql [(9, 4), (9, 4)]) 9 5 (Some ''INSERT INTO segment_process ( );'') None demo_tables) = demo_tables"
    by code_simp+
  note tx = this
  show ?thesis
    using rolled_back_run_recorded_as_success [of demo_twice demo_segment None "''INSERT INTO segment_process ( );''" None demo_tables "[1, 2]"]
    by (simp add: demo_env_simps demo_query tx) blast
qed

lemma demo_completes:
  "\<exists>s. processSegment (demo_run_env [(9, 2), (9, 3)]) False demo_tables = (Inr TagUpdated, s)"
proof -
  have "so_result (processSegmentTx (demo_sql [(9, 2), (9, 3)]) 9 5 (Some ''INSERT INTO segment_process ( );'') None demo_tables) =
      Inr \<lparr>mv_deleteIds = Some [1], mv_insertIds = Some [3]\<rparr>" by code_simp
  with run_completes [of "demo_run_env [(9, 2), (9, 3)]" demo_segment None "''INSERT INTO segment_process ( );''" None demo_tables]
  show ?thesis by (simp add: demo_env_simps demo_query) blast
qed

theorem completed_run_effects_witness:
  "last (rs_effects (snd (processSegment (demo_run_env [(9, 2), (9, 3)]) False demo_tables))) = ReleaseLock"
proof -
  from demo_completes obtain s where "processSegment (demo_run_env [(9, 2), (9, 3)]) False demo_tables = (Inr TagUpdated, s)" by blast
  with completed_run_effects [OF this] show ?thesis by auto
qed


end
