(* ===== verification/SegmentEvents.thy ===== *)
theory SegmentEvents
  imports SegmentRun
begin

text \<open>
  What happens to the contacts a recalculation announced: \<open>AppService.processSegmentToClickHouse\<close>
  (\<open>src/apps/tag-process/src/app.service.ts\<close>) publishes one event per contact and, for the segment
  of the base size, counts why contacts entered or left and adds the counts to the last entry of
  the segment's history. The queries for the reasons, the accounts and the queue are parameters.
\<close>

section \<open>Reasons\<close>

record reason_row =
  rr_id :: nat
  rr_bought :: bool
  rr_bounced :: bool
  rr_unsub :: bool
  rr_invalid :: bool
  rr_inTag :: bool
  rr_open :: bool
  rr_click :: bool

definition no_out :: out_info where
  "no_out = \<lparr>oi_unsub = 0, oi_bounce = 0, oi_open = 0, oi_click = 0, oi_inTag = 0, oi_engagement = 0, oi_invalid = 0\<rparr>"

definition no_in :: in_info where
  "no_in = \<lparr>ii_bought = 0, ii_reengaged = 0\<rparr>"

text \<open>The first reason that applies; opening and clicking are told apart when only one is meant.\<close>

definition count_out :: "reason_row \<Rightarrow> out_info \<Rightarrow> out_info" where
  "count_out c d =
     (if rr_bounced c then d\<lparr>oi_bounce := oi_bounce d + 1\<rparr>
      else if rr_unsub c then d\<lparr>oi_unsub := oi_unsub d + 1\<rparr>
      else if rr_invalid c then d\<lparr>oi_invalid := oi_invalid d + 1\<rparr>
      else if rr_inTag c then d\<lparr>oi_inTag := oi_inTag d + 1\<rparr>
      else if rr_open c \<or> rr_click c then
        d\<lparr>oi_open := oi_open d + (if rr_open c \<and> \<not> rr_click c then 1 else 0),
          oi_click := oi_click d + (if rr_click c \<and> \<not> rr_open c then 1 else 0),
          oi_engagement := oi_engagement d + 1\<rparr>
      else d)"

definition count_in :: "reason_row \<Rightarrow> in_info \<Rightarrow> in_info" where
  "count_in c d = (if rr_bought c then d\<lparr>ii_bought := ii_bought d + 1\<rparr> else d\<lparr>ii_reengaged := ii_reengaged d + 1\<rparr>)"

section \<open>The filters of the segment\<close>

record out_filters =
  of_open :: jsval
  of_click :: jsval
  of_tags :: jsval

text \<open>\<open>card.tag_id.join(',')\<close>: only an array has \<open>join\<close>, in which undefined and null give nothing.\<close>

definition join_ids :: "(real \<Rightarrow> string) \<Rightarrow> jsval \<Rightarrow> string + jsval" where
  "join_ids f v = (case v of
     JArr vs \<Rightarrow> Inr (JStr (join '','' (map (\<lambda>x. if js_nullish x then [] else to_str f x) vs)))
   | _ \<Rightarrow> Inl ''TypeError'')"

definition card_filters :: "(real \<Rightarrow> string) \<Rightarrow> fields \<Rightarrow> out_filters \<Rightarrow> string + out_filters" where
  "card_filters f m fs =
     (let is = (\<lambda>k s. loose_eq f (obj_get m k) (JStr s));
          fs1 = (if is ''type'' ''interation'' \<and> is ''event'' ''last_open_date'' \<and> truthy (obj_get m ''time'')
                 then fs\<lparr>of_open := obj_get m ''time''\<rparr> else fs);
          fs2 = (if is ''type'' ''interation'' \<and> is ''event'' ''last_click_date'' \<and> truthy (obj_get m ''time'')
                 then fs1\<lparr>of_click := obj_get m ''time''\<rparr> else fs1)
      in if is ''type'' ''tag'' \<and> truthy (obj_get m ''tag_id'')
         then sumThen (join_ids f (obj_get m ''tag_id'')) (\<lambda>t. Inr (fs2\<lparr>of_tags := t\<rparr>))
         else Inr fs2)"

fun cards_filters :: "(real \<Rightarrow> string) \<Rightarrow> fields list \<Rightarrow> out_filters \<Rightarrow> string + out_filters" where
  "cards_filters f [] fs = Inr fs"
| "cards_filters f (m # ms) fs = sumThen (card_filters f m fs) (cards_filters f ms)"

definition segment_filters :: "(real \<Rightarrow> string) \<Rightarrow> fields list list \<Rightarrow> string + out_filters" where
  "segment_filters f steps =
     cards_filters f (concat steps) \<lparr>of_open = JNum (Fin 30), of_click = JNum (Fin 30), of_tags = JNum (Fin 0)\<rparr>"

section \<open>The function\<close>

record segment_data =
  sd_direction :: direction
  sd_tagId :: nat
  sd_tagName :: string
  sd_contacts :: "nat list"

datatype segment_event = SegmentEvent direction nat nat bool

record events_env =
  ev_account :: "string + string option option"
  ev_tag :: "string + segment_row option"
  ev_steps :: "string + fields list list"
  ev_frac :: "real \<Rightarrow> string"
  ev_table :: "nat list list \<Rightarrow> string + string"
  ev_outReasons :: "string \<Rightarrow> out_filters \<Rightarrow> string \<Rightarrow> string + reason_row list"
  ev_inReasons :: "string \<Rightarrow> string \<Rightarrow> string + reason_row list"
  ev_contacts :: "nat list \<Rightarrow> string + nat list"
  ev_publish :: "segment_event \<Rightarrow> bool"
  ev_history :: "string + segment_info list"
  ev_emptyInfo :: segment_info

definition is_base_size :: "segment_data \<Rightarrow> bool" where
  "is_base_size d \<longleftrightarrow> to_lower (sd_tagName d) = ''00 - base size''"

definition the_zone :: "string option option \<Rightarrow> string + string" where
  "the_zone account = (case account of
     None \<Rightarrow> Inl ''TypeError''
   | Some (Some (c # cs)) \<Rightarrow> Inr (c # cs)
   | Some _ \<Rightarrow> Inr ''America/Sao_Paulo'')"

definition find_reasons :: "events_env \<Rightarrow> segment_data \<Rightarrow> string option option \<Rightarrow> string + reason_row list option" where
  "find_reasons env d account =
     (if is_base_size d then
        sumThen (ev_table env (chunks 10000 (sd_contacts d))) (\<lambda>table.
        sumThen (the_zone account) (\<lambda>tz.
        case sd_direction d of
          SegmentOut \<Rightarrow>
            sumThen (ev_steps env) (\<lambda>steps.
            sumThen (segment_filters (ev_frac env) steps) (\<lambda>fs.
            sumThen (ev_outReasons env table fs tz) (\<lambda>rows. Inr (Some rows))))
        | SegmentIn \<Rightarrow> sumThen (ev_inReasons env table tz) (\<lambda>rows. Inr (Some rows))))
      else Inr None)"

record event_counts =
  ec_out :: out_info
  ec_in :: in_info
  ec_events :: "segment_event list"

definition count_reason :: "direction \<Rightarrow> reason_row \<Rightarrow> event_counts \<Rightarrow> event_counts" where
  "count_reason d c k = (case d of
     SegmentIn \<Rightarrow> k\<lparr>ec_in := count_in c (ec_in k)\<rparr>
   | SegmentOut \<Rightarrow> k\<lparr>ec_out := count_out c (ec_out k)\<rparr>)"

text \<open>The event reads \<open>account.id\<close>, which throws without an account.\<close>

definition publish_event :: "events_env \<Rightarrow> segment_event \<Rightarrow> event_counts \<Rightarrow> string + event_counts" where
  "publish_event env e k =
     (if ev_account env = Inr None then Inl ''TypeError''
      else if ev_publish env e then Inr (k\<lparr>ec_events := ec_events k @ [e]\<rparr>) else Inl ''publish failed'')"

fun publish_events :: "events_env \<Rightarrow> segment_event list \<Rightarrow> event_counts \<Rightarrow> string + event_counts" where
  "publish_events env [] k = Inr k"
| "publish_events env (e # es) k = sumThen (publish_event env e k) (publish_events env es)"

text \<open>
  One part of the contacts. The counters are advanced when the promises are made, the events
  follow five milliseconds apart. With reasons, every row of the reasons is taken.
\<close>

definition process_part :: "events_env \<Rightarrow> segment_data \<Rightarrow> reason_row list option \<Rightarrow> nat list \<Rightarrow> event_counts \<Rightarrow> string + event_counts" where
  "process_part env d reasons contacts k = (case reasons of
     Some rows \<Rightarrow> publish_events env (map (\<lambda>c. SegmentEvent (sd_direction d) (sd_tagId d) (rr_id c) True) rows)
                    (fold (count_reason (sd_direction d)) rows k)
   | None \<Rightarrow> sumThen (ev_contacts env contacts) (\<lambda>found.
       publish_events env (map (\<lambda>c. SegmentEvent (sd_direction d) (sd_tagId d) c False) found) k))"

fun process_parts :: "events_env \<Rightarrow> segment_data \<Rightarrow> reason_row list option \<Rightarrow> nat list list \<Rightarrow> event_counts \<Rightarrow> string + event_counts" where
  "process_parts env d reasons [] k = Inr k"
| "process_parts env d reasons (c # cs) k = sumThen (process_part env d reasons c k) (process_parts env d reasons cs)"

definition add_out :: "out_info \<Rightarrow> out_info \<Rightarrow> out_info" where
  "add_out a b = \<lparr>oi_unsub = oi_unsub a + oi_unsub b, oi_bounce = oi_bounce a + oi_bounce b, oi_open = oi_open a + oi_open b,
     oi_click = oi_click a + oi_click b, oi_inTag = oi_inTag a + oi_inTag b, oi_engagement = oi_engagement a + oi_engagement b,
     oi_invalid = oi_invalid a + oi_invalid b\<rparr>"

definition add_in :: "in_info \<Rightarrow> in_info \<Rightarrow> in_info" where
  "add_in a b = \<lparr>ii_bought = ii_bought a + ii_bought b, ii_reengaged = ii_reengaged a + ii_reengaged b\<rparr>"

definition or_zero :: "'a \<Rightarrow> 'a option \<Rightarrow> 'a" where
  "or_zero z x = (case x of None \<Rightarrow> z | Some y \<Rightarrow> y)"

definition entry_with :: "direction \<Rightarrow> event_counts \<Rightarrow> segment_info \<Rightarrow> segment_info" where
  "entry_with d k i = (case d of
     SegmentOut \<Rightarrow> i\<lparr>si_outInfo := Some (add_out (or_zero no_out (si_outInfo i)) (ec_out k))\<rparr>
   | SegmentIn \<Rightarrow> i\<lparr>si_inInfo := Some (add_in (or_zero no_in (si_inInfo i)) (ec_in k))\<rparr>)"

text \<open>The last entry of the history; an empty history gets one that holds the counts only.\<close>

definition history_with :: "events_env \<Rightarrow> direction \<Rightarrow> event_counts \<Rightarrow> segment_info list \<Rightarrow> segment_info list" where
  "history_with env d k xs =
     (if xs = [] then [entry_with d k (ev_emptyInfo env)] else xs[length xs - 1 := entry_with d k (last xs)])"

definition start_counts :: event_counts where
  "start_counts = \<lparr>ec_out = no_out, ec_in = no_in, ec_events = []\<rparr>"

text \<open>The events published and the history written, \<open>None\<close> when it is not touched.\<close>

definition processSegmentToClickHouse :: "events_env \<Rightarrow> segment_data \<Rightarrow> string + segment_event list \<times> segment_info list option" where
  "processSegmentToClickHouse env d =
     sumThen (ev_account env) (\<lambda>account.
     sumThen (ev_tag env) (\<lambda>tag.
     sumThen (find_reasons env d account) (\<lambda>reasons.
     sumThen (process_parts env d reasons (chunks 10000 (sd_contacts d)) start_counts) (\<lambda>k.
     case reasons of
       None \<Rightarrow> Inr (ec_events k, None)
     | Some rows \<Rightarrow> sumThen (ev_history env) (\<lambda>xs. Inr (ec_events k, Some (history_with env (sd_direction d) k xs)))))))"

section \<open>Properties\<close>

definition times_out :: "nat \<Rightarrow> out_info \<Rightarrow> out_info" where
  "times_out n a = \<lparr>oi_unsub = n * oi_unsub a, oi_bounce = n * oi_bounce a, oi_open = n * oi_open a, oi_click = n * oi_click a,
     oi_inTag = n * oi_inTag a, oi_engagement = n * oi_engagement a, oi_invalid = n * oi_invalid a\<rparr>"

definition times_in :: "nat \<Rightarrow> in_info \<Rightarrow> in_info" where
  "times_in n a = \<lparr>ii_bought = n * ii_bought a, ii_reengaged = n * ii_reengaged a\<rparr>"

text \<open>How many rows left for each reason.\<close>

definition tally_out :: "reason_row list \<Rightarrow> out_info" where
  "tally_out rows = (let count = (\<lambda>P. length (filter P rows));
       engaged = (\<lambda>c. \<not> rr_bounced c \<and> \<not> rr_unsub c \<and> \<not> rr_invalid c \<and> \<not> rr_inTag c) in
     \<lparr>oi_unsub = count (\<lambda>c. \<not> rr_bounced c \<and> rr_unsub c),
      oi_bounce = count rr_bounced,
      oi_open = count (\<lambda>c. engaged c \<and> rr_open c \<and> \<not> rr_click c),
      oi_click = count (\<lambda>c. engaged c \<and> rr_click c \<and> \<not> rr_open c),
      oi_inTag = count (\<lambda>c. \<not> rr_bounced c \<and> \<not> rr_unsub c \<and> \<not> rr_invalid c \<and> rr_inTag c),
      oi_engagement = count (\<lambda>c. engaged c \<and> (rr_open c \<or> rr_click c)),
      oi_invalid = count (\<lambda>c. \<not> rr_bounced c \<and> \<not> rr_unsub c \<and> rr_invalid c)\<rparr>)"

definition tally_in :: "reason_row list \<Rightarrow> in_info" where
  "tally_in rows = \<lparr>ii_bought = length (filter rr_bought rows), ii_reengaged = length (filter (\<lambda>c. \<not> rr_bought c) rows)\<rparr>"

lemma fold_count_out: "fold count_out rows d = add_out d (tally_out rows)"
proof (induction rows arbitrary: d)
  case (Cons c rows)
  have "add_out (count_out c d) (tally_out rows) = add_out d (tally_out (c # rows))"
    by (cases d) (auto simp: count_out_def add_out_def tally_out_def Let_def)
  with Cons show ?case by simp
qed (simp add: add_out_def tally_out_def)

lemma fold_count_in: "fold count_in rows d = add_in d (tally_in rows)"
proof (induction rows arbitrary: d)
  case (Cons c rows)
  have "add_in (count_in c d) (tally_in rows) = add_in d (tally_in (c # rows))"
    by (cases d) (auto simp: count_in_def add_in_def tally_in_def)
  with Cons show ?case by simp
qed (simp add: add_in_def tally_in_def)

definition counted :: "direction \<Rightarrow> nat \<Rightarrow> reason_row list \<Rightarrow> event_counts \<Rightarrow> event_counts" where
  "counted d n rows k = (case d of
     SegmentOut \<Rightarrow> k\<lparr>ec_out := add_out (ec_out k) (times_out n (tally_out rows))\<rparr>
   | SegmentIn \<Rightarrow> k\<lparr>ec_in := add_in (ec_in k) (times_in n (tally_in rows))\<rparr>)"

lemma times_one [simp]: "times_out (Suc 0) a = a" "times_in (Suc 0) b = b"
  by (simp_all add: times_out_def times_in_def)

lemma fold_count_reason: "fold (count_reason d) rows k = counted d 1 rows k"
proof (cases d)
  case SegmentIn
  have "fold (count_reason SegmentIn) rows k = k\<lparr>ec_in := fold count_in rows (ec_in k)\<rparr>"
    by (induction rows arbitrary: k) (simp_all add: count_reason_def)
  then show ?thesis using SegmentIn by (simp add: counted_def fold_count_in)
next
  case SegmentOut
  have "fold (count_reason SegmentOut) rows k = k\<lparr>ec_out := fold count_out rows (ec_out k)\<rparr>"
    by (induction rows arbitrary: k) (simp_all add: count_reason_def)
  then show ?thesis using SegmentOut by (simp add: counted_def fold_count_out)
qed

lemma counted_again: "counted d (Suc 0) rows (counted d n rows k) = counted d (Suc n) rows k"
  by (cases d) (simp_all add: counted_def add_out_def add_in_def times_out_def times_in_def)

lemma publish_all:
  assumes "\<forall>e. ev_publish env e" and "ev_account env = Inr (Some tz)"
  shows "publish_events env es k = Inr (k\<lparr>ec_events := ec_events k @ es\<rparr>)"
  using assms by (induction es arbitrary: k) (simp_all add: publish_event_def sumThen_def)

definition reason_events :: "segment_data \<Rightarrow> reason_row list \<Rightarrow> segment_event list" where
  "reason_events d rows = map (\<lambda>c. SegmentEvent (sd_direction d) (sd_tagId d) (rr_id c) True) rows"

lemma counted_events: "counted d n rows (k\<lparr>ec_events := es\<rparr>) = (counted d n rows k)\<lparr>ec_events := es\<rparr>"
  by (cases d) (simp_all add: counted_def)

lemma process_parts_reasons:
  assumes "\<forall>e. ev_publish env e" and "ev_account env = Inr (Some tz)"
  shows "process_parts env d (Some rows) cs (counted (sd_direction d) n rows k\<lparr>ec_events := es\<rparr>) =
    Inr ((counted (sd_direction d) (n + length cs) rows k)\<lparr>ec_events := es @ concat (replicate (length cs) (reason_events d rows))\<rparr>)"
proof (induction cs arbitrary: n es)
  case (Cons c cs)
  have "process_part env d (Some rows) c (counted (sd_direction d) n rows k\<lparr>ec_events := es\<rparr>) =
      Inr ((counted (sd_direction d) (Suc n) rows k)\<lparr>ec_events := es @ reason_events d rows\<rparr>)"
    by (simp add: process_part_def publish_all [OF assms] fold_count_reason counted_events counted_again reason_events_def)
  with Cons.IH [where n = "Suc n" and es = "es @ reason_events d rows"] show ?case by (simp add: sumThen_def)
qed simp

lemma counted_zero: "counted d 0 rows k = k"
  by (cases d; cases k; cases "ec_out k"; cases "ec_in k")
    (simp_all add: counted_def add_out_def add_in_def times_out_def times_in_def)

text \<open>Result: for the base-size segment every reason is counted, and every event published, once per
  part of 10,000 contacts of the message: once for messages of up to 10,000 contacts, several
  times for larger ones.\<close>

theorem reasons_counted_per_part:
  assumes "ev_account env = Inr (Some tz)" and "ev_tag env = Inr t" and "find_reasons env d (Some tz) = Inr (Some rows)"
    and "\<forall>e. ev_publish env e" and "ev_history env = Inr xs"
  shows "\<exists>n k. n = (length (sd_contacts d) + 9999) div 10000 \<and> (0 < length (sd_contacts d) \<and> length (sd_contacts d) \<le> 10000 \<longrightarrow> n = 1) \<and>
    processSegmentToClickHouse env d = Inr (concat (replicate n (reason_events d rows)), Some (history_with env (sd_direction d) k xs)) \<and>
    (sd_direction d = SegmentOut \<longrightarrow> ec_out k = times_out n (tally_out rows)) \<and>
    (sd_direction d = SegmentIn \<longrightarrow> ec_in k = times_in n (tally_in rows))"
proof -
  let ?cs = "chunks 10000 (sd_contacts d)"
  define n where "n = (length (sd_contacts d) + 9999) div 10000"
  have len: "length ?cs = n" by (simp add: length_chunks n_def)
  let ?k = "counted (sd_direction d) n rows start_counts\<lparr>ec_events := concat (replicate n (reason_events d rows))\<rparr>"
  have start: "counted (sd_direction d) 0 rows start_counts\<lparr>ec_events := []\<rparr> = start_counts"
    by (simp add: counted_zero start_counts_def)
  have "process_parts env d (Some rows) ?cs start_counts = Inr ?k"
    using process_parts_reasons [OF assms(4,1), where n = 0 and k = start_counts and es = "[]" and cs = ?cs and rows = rows and d = d] by (simp add: start len)
  then have "processSegmentToClickHouse env d = Inr (ec_events ?k, Some (history_with env (sd_direction d) ?k xs))"
    using assms(1,2,3,5) by (simp add: processSegmentToClickHouse_def sumThen_def)
  moreover have "0 < length (sd_contacts d) \<and> length (sd_contacts d) \<le> 10000 \<longrightarrow> n = 1"
    unfolding n_def by (cases "sd_contacts d") (auto intro!: div_nat_eqI)
  ultimately show ?thesis
    by (intro exI [of _ n] exI [of _ ?k])
      (simp add: n_def counted_def start_counts_def no_out_def no_in_def add_out_def add_in_def times_out_def times_in_def)
qed

text \<open>A message of 10,001 contacts, of which the two that bounced are counted twice.\<close>

definition demo_reason :: "nat \<Rightarrow> reason_row" where
  "demo_reason i = \<lparr>rr_id = i, rr_bought = False, rr_bounced = True, rr_unsub = False, rr_invalid = False, rr_inTag = False,
     rr_open = False, rr_click = False\<rparr>"

definition demo_events_env :: events_env where
  "demo_events_env = \<lparr>ev_account = Inr (Some None), ev_tag = Inr None, ev_steps = Inr [], ev_frac = (\<lambda>_. []),
     ev_table = (\<lambda>_. Inr ''t''), ev_outReasons = (\<lambda>_ _ _. Inr [demo_reason 1, demo_reason 2]), ev_inReasons = (\<lambda>_ _. Inr []),
     ev_contacts = Inr, ev_publish = (\<lambda>_. True), ev_history = Inr [info_of_error (demo_run_env [])],
     ev_emptyInfo = info_of_error (demo_run_env [])\<rparr>"

definition demo_base :: segment_data where
  "demo_base = \<lparr>sd_direction = SegmentOut, sd_tagId = 9, sd_tagName = ''00 - Base Size'', sd_contacts = [0..<10001]\<rparr>"

theorem reasons_counted_per_part_witness:
  "\<exists>es h. processSegmentToClickHouse demo_events_env demo_base = Inr (es, h) \<and> length es = 4"
proof -
  have "is_base_size demo_base" by (simp add: is_base_size_def demo_base_def) code_simp
  then have "find_reasons demo_events_env demo_base (Some None) = Inr (Some [demo_reason 1, demo_reason 2])"
    by (simp add: find_reasons_def demo_events_env_def demo_base_def sumThen_def the_zone_def segment_filters_def)
  moreover have "ev_account demo_events_env = Inr (Some None)" "ev_tag demo_events_env = Inr None" "\<forall>e. ev_publish demo_events_env e"
    "ev_history demo_events_env = Inr [info_of_error (demo_run_env [])]" "length (sd_contacts demo_base) = 10001"
    by (simp_all add: demo_events_env_def demo_base_def)
  ultimately obtain n h where "n = (10001 + 9999) div (10000 :: nat)"
    "processSegmentToClickHouse demo_events_env demo_base =
      Inr (concat (replicate n (reason_events demo_base [demo_reason 1, demo_reason 2])), h)"
    using reasons_counted_per_part [of demo_events_env None None demo_base] by fastforce
  then show ?thesis by (auto simp: reason_events_def numeral_2_eq_2)
qed

end
