(* ===== verification/TagBatch.thy ===== *)
theory TagBatch
  imports JsValue
begin

text \<open>
  Tagging contacts in batches: \<open>processTagBatch\<close>, \<open>processContactsBatch\<close> and \<open>getMailBoxProvider\<close>
  of \<open>src/apps/tag-process/src/app.service.ts\<close>. The array of the batch is spliced while the known
  contacts are walked through; what is left of it is published for creation. Queries, hashes and
  the queue are parameters; every failure ends in the answer \<open>Invalid payload\<close>.
\<close>

section \<open>Batches\<close>

record contact_batch =
  cb_email :: string
  cb_firstName :: string
  cb_lastName :: string

record tag_batch =
  ba_remove :: bool
  ba_tag :: string
  ba_apiKey :: string
  ba_createContacts :: bool
  ba_contacts :: "contact_batch list"

type_synonym known_contact = "nat \<times> string"

datatype batch_effect =
    DeleteContactTags "nat list" nat nat
  | CreateContactTags "(nat \<times> nat \<times> nat) list"
  | PublishContacts "contact_batch list" nat nat
  | CreateContacts "(contact_batch \<times> string \<times> string \<times> string) list"

datatype batch_answer = Processed | InvalidPayload

record batch_env =
  be_account :: "string \<Rightarrow> string + nat option"
  be_tagByName :: "string \<Rightarrow> nat \<Rightarrow> string + nat option"
  be_contactsIn :: "string list \<Rightarrow> nat \<Rightarrow> string + known_contact list"
  be_deletes :: "nat list \<Rightarrow> bool"
  be_publishes :: "contact_batch list \<Rightarrow> bool"
  be_sha256 :: "string \<Rightarrow> string"
  be_sha1 :: "string \<Rightarrow> string"
  be_created :: "contact_batch list \<Rightarrow> nat option list option"

text \<open>\<open>findContactsByEmail\<close> looks for the lower-case addresses.\<close>

definition findContactsByEmail :: "batch_env \<Rightarrow> string list \<Rightarrow> nat \<Rightarrow> string + known_contact list" where
  "findContactsByEmail env emails account = be_contactsIn env (map to_lower emails) account"

section \<open>Tagging\<close>

text \<open>
  \<open>contacts.splice(contacts.findIndex(...), 1)\<close>: without a match the index is -1, which counts
  from the end.
\<close>

definition splice_found :: "string \<Rightarrow> contact_batch list \<Rightarrow> contact_batch list" where
  "splice_found email contacts = (case find_index (\<lambda>c. cb_email c = email) contacts of
     Some i \<Rightarrow> remove_at i contacts
   | None \<Rightarrow> butlast contacts)"

definition left_over :: "known_contact list \<Rightarrow> contact_batch list \<Rightarrow> contact_batch list" where
  "left_over known contacts = fold (\<lambda>(i, email). splice_found email) known contacts"

definition tag_contacts ::
  "batch_env \<Rightarrow> tag_batch \<Rightarrow> nat \<Rightarrow> nat \<Rightarrow> known_contact list \<Rightarrow> batch_effect list \<times> batch_answer" where
  "tag_contacts env b account tag known =
     (if ba_remove b then
        (if be_deletes env (map fst known) then ([DeleteContactTags (map fst known) tag account], Processed)
         else ([], InvalidPayload))
      else
        (let rest = left_over known (ba_contacts b);
             created = [CreateContactTags (map (\<lambda>(i, e). (i, tag, account)) known)]
         in if rest \<noteq> [] \<and> ba_createContacts b then
              (if be_publishes env rest then (created @ [PublishContacts rest account tag], Processed)
               else (created, InvalidPayload))
            else (created, Processed)))"

definition processTagBatch :: "batch_env \<Rightarrow> tag_batch \<Rightarrow> batch_effect list \<times> batch_answer" where
  "processTagBatch env b = (case be_account env (ba_apiKey b) of
     Inr (Some account) \<Rightarrow> (case be_tagByName env (ba_tag b) account of
       Inr (Some tag) \<Rightarrow> (case findContactsByEmail env (map cb_email (ba_contacts b)) account of
         Inr known \<Rightarrow> tag_contacts env b account tag known
       | Inl _ \<Rightarrow> ([], InvalidPayload))
     | _ \<Rightarrow> ([], InvalidPayload))
   | _ \<Rightarrow> ([], InvalidPayload))"

section \<open>Creating contacts\<close>

definition GMAIL :: "string list" where
  "GMAIL = [''gmail.com'', ''googlemail.com'', ''google.com'']"

definition MICROSOFT :: "string list" where
  "MICROSOFT = [''hotmail.com'', ''outlook.com'', ''live.com'', ''msn.com'', ''passport.com'']"

definition ICLOUD :: "string list" where
  "ICLOUD = [''icloud.com'', ''me.com'', ''mac.com'']"

text \<open>The part after the first \<open>@\<close>; without one, \<open>domain.includes\<close> throws.\<close>

definition getMailBoxProvider :: "string \<Rightarrow> string + string" where
  "getMailBoxProvider email = (case split_on (CHR ''@'') (to_lower email) of
     _ # domain # _ \<Rightarrow>
       Inr (if List.member GMAIL domain then ''Gmail''
            else if str_includes domain ''yahoo'' then ''Yahoo''
            else if list_ex (str_includes domain) MICROSOFT then ''Microsoft''
            else if List.member ICLOUD domain then ''iCloud''
            else ''Other'')
   | _ \<Rightarrow> Inl ''TypeError'')"

text \<open>The row of a new contact: its hashes and its provider.\<close>

definition contact_row :: "batch_env \<Rightarrow> nat \<Rightarrow> contact_batch \<Rightarrow> string + contact_batch \<times> string \<times> string \<times> string" where
  "contact_row env account c = (case getMailBoxProvider (cb_email c) of
     Inl e \<Rightarrow> Inl e
   | Inr provider \<Rightarrow> Inr (c, be_sha256 env (cb_email c),
       be_sha1 env (concat [''BMS'', show_nat account, ''-'', cb_email c]), provider))"

fun contact_rows :: "batch_env \<Rightarrow> nat \<Rightarrow> contact_batch list \<Rightarrow> string + (contact_batch \<times> string \<times> string \<times> string) list" where
  "contact_rows env account [] = Inr []"
| "contact_rows env account (c # cs) = (case contact_row env account c of
     Inl e \<Rightarrow> Inl e
   | Inr r \<Rightarrow> (case contact_rows env account cs of Inl e \<Rightarrow> Inl e | Inr rs \<Rightarrow> Inr (r # rs)))"

text \<open>
  The insertion ignores contacts that exist: their identifier is missing. A failed insertion
  answers \<open>true\<close>, which has no identifiers.
\<close>

definition processContactsBatch :: "batch_env \<Rightarrow> nat \<Rightarrow> nat \<Rightarrow> contact_batch list \<Rightarrow> batch_effect list \<times> batch_answer" where
  "processContactsBatch env account tag contacts = (case contact_rows env account contacts of
     Inl e \<Rightarrow> ([], InvalidPayload)
   | Inr rows \<Rightarrow> (case be_created env contacts of
       None \<Rightarrow> ([CreateContacts rows], InvalidPayload)
     | Some created \<Rightarrow>
         (let ids = concat (map (\<lambda>i. case i of None \<Rightarrow> [] | Some n \<Rightarrow> [n]) created)
          in ([CreateContacts rows] @ (if ids = [] then [] else [CreateContactTags (map (\<lambda>i. (i, tag, account)) ids)]), Processed))))"

section \<open>Properties\<close>

lemma to_lower_idem: "to_lower (to_lower s) = to_lower s"
proof -
  have "lower_char (lower_char c) = lower_char c" for c
    by (auto simp: lower_char_def Let_def)
  then show ?thesis by (simp add: to_lower_def)
qed

lemma splice_removes:
  assumes "distinct (map cb_email cs)" and "email \<in> set (map cb_email cs)"
  shows "splice_found email cs = filter (\<lambda>c. cb_email c \<noteq> email) cs"
  using assms
proof (induction cs)
  case (Cons c cs)
  show ?case
  proof (cases "cb_email c = email")
    case True
    have "\<forall>x \<in> set cs. cb_email x \<noteq> email" using Cons.prems(1) True by (metis distinct.simps(2) image_eqI list.simps(9) set_map)
    then have "filter (\<lambda>c. cb_email c \<noteq> email) cs = cs" by (rule filter_True)
    with True show ?thesis by (simp add: splice_found_def remove_at_def)
  next
    case False
    with Cons obtain i where "find_index (\<lambda>c. cb_email c = email) cs = Some i"
      by (cases "find_index (\<lambda>c. cb_email c = email) cs") (auto simp: find_index_None)
    with Cons False show ?thesis by (auto simp: splice_found_def remove_at_def)
  qed
qed simp

lemma left_over_filter:
  assumes "distinct (map cb_email cs)" and "distinct (map snd known)" and "set (map snd known) \<subseteq> set (map cb_email cs)"
  shows "left_over known cs = filter (\<lambda>c. cb_email c \<notin> snd ` set known) cs"
  using assms
proof (induction known arbitrary: cs)
  case (Cons k known)
  obtain i email where k: "k = (i, email)" by (cases k)
  let ?cs = "filter (\<lambda>c. cb_email c \<noteq> email) cs"
  have "distinct (map cb_email ?cs)" using Cons.prems(1) by (rule distinct_map_filter)
  moreover have "set (map snd known) \<subseteq> set (map cb_email ?cs)" using Cons.prems(2,3) k by force
  ultimately have "left_over known ?cs = filter (\<lambda>c. cb_email c \<notin> snd ` set known) ?cs"
    using Cons.IH Cons.prems(2) k by simp
  moreover have "splice_found email cs = ?cs" using splice_removes Cons.prems k by simp
  ultimately show ?case using k by (simp add: left_over_def filter_filter conj_commute)
qed (simp add: left_over_def)

text \<open>Result: in a batch of lower-case addresses without repetition, exactly the contacts the account
  does not know are published for creation, in their order, and the known ones get the tag.\<close>

theorem unknown_contacts_created:
  assumes "be_account env (ba_apiKey b) = Inr (Some account)" and "be_tagByName env (ba_tag b) account = Inr (Some tag)"
    and "findContactsByEmail env (map cb_email (ba_contacts b)) account = Inr known"
    and "\<not> ba_remove b" and "ba_createContacts b" and "\<forall>cs. be_publishes env cs"
    and "\<forall>c \<in> set (ba_contacts b). to_lower (cb_email c) = cb_email c" and "distinct (map cb_email (ba_contacts b))"
    and "distinct (map snd known)" and "\<forall>k \<in> set known. snd k \<in> set (map (to_lower \<circ> cb_email) (ba_contacts b))"
  shows "let rest = filter (\<lambda>c. cb_email c \<notin> snd ` set known) (ba_contacts b) in
    processTagBatch env b =
      (CreateContactTags (map (\<lambda>k. (fst k, tag, account)) known) # (if rest = [] then [] else [PublishContacts rest account tag]),
       Processed)"
proof -
  have "set (map snd known) \<subseteq> set (map cb_email (ba_contacts b))"
    using assms(7,10) by (fastforce simp: image_iff)
  from left_over_filter [OF assms(8,9) this] show ?thesis
    using assms(1-6) by (simp add: processTagBatch_def tag_contacts_def Let_def split_def)
qed

definition demo_contact :: "string \<Rightarrow> contact_batch" where
  "demo_contact e = \<lparr>cb_email = e, cb_firstName = [], cb_lastName = []\<rparr>"

definition demo_batch :: "string list \<Rightarrow> tag_batch" where
  "demo_batch es = \<lparr>ba_remove = False, ba_tag = ''vip'', ba_apiKey = ''k'', ba_createContacts = True, ba_contacts = map demo_contact es\<rparr>"

text \<open>An account that knows \<open>a@x.com\<close>.\<close>

definition demo_batch_env :: batch_env where
  "demo_batch_env = \<lparr>be_account = (\<lambda>_. Inr (Some 5)), be_tagByName = (\<lambda>_ _. Inr (Some 9)),
     be_contactsIn = (\<lambda>es _. Inr (if ''a@x.com'' \<in> set es then [(1, ''a@x.com'')] else [])), be_deletes = (\<lambda>_. True),
     be_publishes = (\<lambda>_. True), be_sha256 = id, be_sha1 = id, be_created = (\<lambda>_. None)\<rparr>"

lemma demo_known: "findContactsByEmail demo_batch_env (map cb_email (ba_contacts (demo_batch [''a@x.com'', ''b@x.com'']))) 5 = Inr [(1, ''a@x.com'')]"
  "findContactsByEmail demo_batch_env (map cb_email (ba_contacts (demo_batch [''A@x.com'', ''b@x.com'']))) 5 = Inr [(1, ''a@x.com'')]"
  by code_simp+

theorem unknown_contacts_created_witness:
  "processTagBatch demo_batch_env (demo_batch [''a@x.com'', ''b@x.com'']) =
     ([CreateContactTags [(1, 9, 5)], PublishContacts [demo_contact ''b@x.com''] 5 9], Processed)"
proof -
  have "to_lower ''a@x.com'' = ''a@x.com''" "to_lower ''b@x.com'' = ''b@x.com''" by code_simp+
  then show ?thesis
    using unknown_contacts_created [OF _ _ demo_known(1)]
    by (simp add: demo_batch_env_def demo_batch_def demo_contact_def Let_def)
qed

text \<open>Result: a known contact whose address the batch spells with capitals is not found in the batch:
  the last contact of the batch is dropped in its place, so that it is never created, and the
  known contact is published for creation once more.\<close>

theorem capital_letters_lose_last_contact:
  assumes "be_account env (ba_apiKey b) = Inr (Some account)" and "be_tagByName env (ba_tag b) account = Inr (Some tag)"
    and "findContactsByEmail env (map cb_email (ba_contacts b)) account = Inr [(i, to_lower (cb_email c))]"
    and "\<not> ba_remove b" and "ba_createContacts b" and "\<forall>cs. be_publishes env cs"
    and "ba_contacts b = cs @ [lost]" and "c \<in> set cs" and "to_lower (cb_email c) \<notin> cb_email ` set (ba_contacts b)"
  shows "processTagBatch env b = ([CreateContactTags [(i, tag, account)], PublishContacts cs account tag], Processed)"
proof -
  have "find_index (\<lambda>x. cb_email x = to_lower (cb_email c)) (ba_contacts b) = None"
    using assms(9) unfolding find_index_None by (metis image_eqI)
  then have "left_over [(i, to_lower (cb_email c))] (ba_contacts b) = cs"
    by (simp add: left_over_def splice_found_def assms(7))
  moreover have "cs \<noteq> []" using assms(8) by auto
  ultimately show ?thesis using assms(1-6) by (simp add: processTagBatch_def tag_contacts_def Let_def)
qed

theorem capital_letters_lose_last_contact_witness:
  "processTagBatch demo_batch_env (demo_batch [''A@x.com'', ''b@x.com'']) =
     ([CreateContactTags [(1, 9, 5)], PublishContacts [demo_contact ''A@x.com''] 5 9], Processed)"
proof -
  have lower: "to_lower (cb_email (demo_contact ''A@x.com'')) = ''a@x.com''" by code_simp
  show ?thesis
    using capital_letters_lose_last_contact [of demo_batch_env "demo_batch [''A@x.com'', ''b@x.com'']" 5 9 1 "demo_contact ''A@x.com''"
      "[demo_contact ''A@x.com'']" "demo_contact ''b@x.com''"] demo_known(2)
    unfolding lower by (simp add: demo_batch_env_def demo_batch_def demo_contact_def)
qed

end
