(* ===== verification/AutomationRuns.thy ===== *)
theory AutomationRuns
  imports Automation
begin

text \<open>
  The runs of automations: \<open>src/apps/tag-process/src/handlers/automation.handler.ts\<close> starts and
  cancels them, \<open>app.service.ts\<close> and \<open>msgops/msgops.service.ts\<close> complete them. The table
  \<open>contact_automation\<close> is a list of rows; what the handler does besides is a list of effects. The
  cancellation of a running row is not awaited: whether its Redis write sees the identifier of the
  new run is the choice \<open>he_late\<close>. At the end the stop flags written here meet the flags
  message-trigger reads (\<open>Automation\<close>).
\<close>

section \<open>Rows, messages and effects\<close>

datatype run_status = Running | Canceled | Completed | Duplicate | Started

record automation_run =
  ar_id :: jsval
  ar_contactId :: jsval
  ar_automationId :: jsval
  ar_accountId :: jsval
  ar_status :: run_status
  ar_createdAt :: real

record started_automation =
  sa_id :: jsval
  sa_applyFrequency :: string
  sa_timePeriod :: real

record run_contact =
  rc_id :: jsval
  rc_accountId :: jsval

record lead_message =
  lm_id :: jsval
  lm_startedAt :: real
  lm_leadId :: jsval
  lm_fromAnother :: bool
  lm_tagName :: string
  lm_webPush :: bool
  lm_mobilePush :: bool
  lm_startAutomation :: "bool option"

datatype handler_effect =
    Analytics string string jsval
  | SaveContactTag jsval jsval
  | DeleteContactTag jsval jsval
  | UpdateLead jsval run_status
  | SetKey string
  | CountTarget jsval jsval
  | TouchContact jsval
  | SendToTrigger jsval real jsval

record handler_state =
  hs_runs :: "automation_run list"
  hs_effects :: "handler_effect list"
  hs_leadMessageId :: jsval
  hs_startedAt :: real
  hs_pending :: bool

record handler_env =
  he_frac :: "real \<Rightarrow> string"
  he_conditional :: "started_automation \<Rightarrow> string + bool"
  he_insert :: "automation_run list \<Rightarrow> (jsval \<times> real) option"
  he_calls :: "handler_effect \<Rightarrow> bool"
  he_late :: bool

type_synonym 'a handler = "(handler_state, 'a) prog"

definition emit :: "handler_effect \<Rightarrow> unit handler" where
  "emit e = prog_set (\<lambda>s. s\<lparr>hs_effects := hs_effects s @ [e]\<rparr>)"

definition call :: "handler_env \<Rightarrow> handler_effect \<Rightarrow> unit handler" where
  "call env e = (if he_calls env e then emit e else prog_throw ''call failed'')"

section \<open>Queries on the rows\<close>

definition run_of :: "run_contact \<Rightarrow> jsval \<Rightarrow> automation_run \<Rightarrow> bool" where
  "run_of c automationId r \<longleftrightarrow>
     ar_contactId r = rc_id c \<and> ar_automationId r = automationId \<and> ar_accountId r = rc_accountId c"

text \<open>\<open>findOne\<close> with the newest row first.\<close>

fun newest :: "automation_run list \<Rightarrow> automation_run option" where
  "newest [] = None"
| "newest (r # rs) = (case newest rs of
     None \<Rightarrow> Some r
   | Some b \<Rightarrow> if ar_createdAt r < ar_createdAt b then Some b else Some r)"

definition getContactAutomations :: "run_contact \<Rightarrow> jsval \<Rightarrow> run_status list \<Rightarrow> automation_run list \<Rightarrow> automation_run option" where
  "getContactAutomations c automationId status runs =
     newest (filter (\<lambda>r. run_of c automationId r \<and> List.member status (ar_status r)) runs)"

definition getFirstContactAutomations :: "run_contact \<Rightarrow> jsval \<Rightarrow> automation_run list \<Rightarrow> automation_run option" where
  "getFirstContactAutomations c automationId runs = find (run_of c automationId) runs"

definition set_status :: "(automation_run \<Rightarrow> bool) \<Rightarrow> run_status \<Rightarrow> automation_run list \<Rightarrow> automation_run list" where
  "set_status P st runs = map (\<lambda>r. if P r then r\<lparr>ar_status := st\<rparr> else r) runs"

text \<open>\<open>createContactAutomations\<close> inserts, or ignores a conflict: then there is no generated row.\<close>

definition createContactAutomations ::
  "handler_env \<Rightarrow> run_contact \<Rightarrow> jsval \<Rightarrow> run_status \<Rightarrow> (jsval \<times> real) option handler" where
  "createContactAutomations env c automationId st s = (case he_insert env (hs_runs s) of
     None \<Rightarrow> (Inr None, s)
   | Some (i, t) \<Rightarrow> (Inr (Some (i, t)), s\<lparr>hs_runs := hs_runs s @
       [\<lparr>ar_id = i, ar_contactId = rc_id c, ar_automationId = automationId, ar_accountId = rc_accountId c,
         ar_status = st, ar_createdAt = t\<rparr>]\<rparr>))"

section \<open>Cancelling\<close>

definition stop_key :: "(real \<Rightarrow> string) \<Rightarrow> jsval \<Rightarrow> string" where
  "stop_key f i = ''automation_to_stop:'' @ to_str f i"

text \<open>
  \<open>updateCancelAutomationRunning\<close> with \<open>updateContactAutomations\<close>: the row, then the flag under the
  identifier the message has by then.
\<close>

definition cancel_row :: "automation_run \<Rightarrow> unit handler" where
  "cancel_row r = prog_set (\<lambda>s. s\<lparr>hs_runs := set_status (\<lambda>x. ar_id x = ar_id r \<and> ar_accountId x = ar_accountId r) Canceled (hs_runs s)\<rparr>)"

definition write_flag :: "handler_env \<Rightarrow> unit handler" where
  "write_flag env s = emit (SetKey (stop_key (he_frac env) (hs_leadMessageId s))) s"

definition cancel_not_awaited :: "handler_env \<Rightarrow> automation_run \<Rightarrow> unit handler" where
  "cancel_not_awaited env r = prog_then (cancel_row r) (\<lambda>_.
     if he_late env then prog_set (\<lambda>s. s\<lparr>hs_pending := True\<rparr>) else write_flag env)"

definition settle_pending :: "handler_env \<Rightarrow> handler_state \<Rightarrow> handler_state" where
  "settle_pending env s = (if hs_pending s then (snd (write_flag env s))\<lparr>hs_pending := False\<rparr> else s)"

section \<open>Starting one automation\<close>

definition updateLead :: "handler_env \<Rightarrow> lead_message \<Rightarrow> run_status \<Rightarrow> unit handler" where
  "updateLead env lm st =
     (if truthy (lm_leadId lm) \<and> \<not> lm_fromAnother lm then call env (UpdateLead (lm_leadId lm) st) else prog_ret ())"

datatype start_result = FilteredOut | Unauthorized401 | DuplicatedRun | StartedRun

definition too_early :: "started_automation \<Rightarrow> lead_message \<Rightarrow> automation_run \<Rightarrow> bool" where
  "too_early a lm r \<longleftrightarrow> sa_applyFrequency a = ''multiply-period'' \<and>
     (lm_startedAt lm - ar_createdAt r) / 60000 < sa_timePeriod a"

definition refuse_unique :: "handler_env \<Rightarrow> started_automation \<Rightarrow> lead_message \<Rightarrow> start_result handler" where
  "refuse_unique env a lm =
     prog_then (updateLead env lm Duplicate) (\<lambda>_.
     prog_then (call env (Analytics ''automation-duplicate'' ''automation set to unique'' (sa_id a))) (\<lambda>_.
     prog_ret Unauthorized401))"

definition refuse_early :: "handler_env \<Rightarrow> started_automation \<Rightarrow> lead_message \<Rightarrow> run_contact \<Rightarrow> start_result handler" where
  "refuse_early env a lm c =
     prog_then (updateLead env lm Duplicate) (\<lambda>_.
     prog_then (call env (Analytics ''automation-duplicate'' ''automation running under time period'' (sa_id a))) (\<lambda>_.
     prog_then (createContactAutomations env c (sa_id a) Duplicate) (\<lambda>_.
     prog_ret DuplicatedRun)))"

definition begin_run :: "handler_env \<Rightarrow> started_automation \<Rightarrow> lead_message \<Rightarrow> run_contact \<Rightarrow> start_result handler" where
  "begin_run env a lm c =
     prog_then (createContactAutomations env c (sa_id a) Running) (\<lambda>generated.
     prog_then (updateLead env lm Started) (\<lambda>_.
     prog_then (case generated of
         None \<Rightarrow> prog_ret ()
       | Some (i, t) \<Rightarrow> prog_set (\<lambda>s. s\<lparr>hs_leadMessageId := i, hs_startedAt := t\<rparr>)) (\<lambda>_.
     prog_then (call env (Analytics ''automation-started'' ''automation-started'' (sa_id a))) (\<lambda>_.
     prog_then (emit (TouchContact (rc_id c))) (\<lambda>_.
     prog_then (\<lambda>s. call env (SendToTrigger (hs_leadMessageId s) (hs_startedAt s) (sa_id a)) s) (\<lambda>_.
     prog_ret StartedRun))))))"

definition restart_run :: "handler_env \<Rightarrow> started_automation \<Rightarrow> automation_run \<Rightarrow> unit handler" where
  "restart_run env a r =
     (if ar_status r = Running then
        prog_then (call env (Analytics ''automation-canceled'' ''starting another automation'' (sa_id a))) (\<lambda>_.
        cancel_not_awaited env r)
      else prog_ret ())"

definition start_one :: "handler_env \<Rightarrow> lead_message \<Rightarrow> run_contact \<Rightarrow> started_automation \<Rightarrow> start_result handler" where
  "start_one env lm c a =
     prog_then (prog_lift (he_conditional env a)) (\<lambda>valid.
     if \<not> valid then prog_ret FilteredOut
     else
       prog_then (prog_set (\<lambda>s. s\<lparr>hs_leadMessageId := lm_id lm, hs_startedAt := lm_startedAt lm, hs_pending := False\<rparr>)) (\<lambda>_.
       prog_then (\<lambda>s. (Inr (hs_runs s), s)) (\<lambda>runs.
       if sa_applyFrequency a = ''unique'' \<and> getFirstContactAutomations c (sa_id a) runs \<noteq> None then refuse_unique env a lm
       else (case getContactAutomations c (sa_id a) [Running, Completed] runs of
           None \<Rightarrow> begin_run env a lm c
         | Some r \<Rightarrow>
             if too_early a lm r then refuse_early env a lm c
             else prog_then (restart_run env a r) (\<lambda>_. begin_run env a lm c)))))"

text \<open>
  \<open>Promise.all\<close> over the automations: every one runs, whatever the others do; the first error is
  the result. The writes that were not awaited are done by then.
\<close>

definition start_settled :: "handler_env \<Rightarrow> lead_message \<Rightarrow> run_contact \<Rightarrow> started_automation \<Rightarrow> start_result handler" where
  "start_settled env lm c a s = (let (r, t) = start_one env lm c a s in (r, settle_pending env t))"

fun startAutomation :: "handler_env \<Rightarrow> lead_message \<Rightarrow> run_contact \<Rightarrow> started_automation list \<Rightarrow> unit handler" where
  "startAutomation env lm c [] s = (Inr (), s)"
| "startAutomation env lm c (a # as) s =
     (let (r, t) = start_settled env lm c a s; (r', t') = startAutomation env lm c as t
      in (case r of Inl e \<Rightarrow> Inl e | Inr _ \<Rightarrow> r', t'))"

section \<open>Entering by a tag, by push or by an event\<close>

record tag_env =
  te_contact :: "run_contact option"
  te_tag :: "string \<Rightarrow> (jsval \<times> jsval) option"
  te_byTag :: "jsval \<Rightarrow> jsval \<Rightarrow> started_automation list"
  te_byPush :: "jsval \<Rightarrow> string \<Rightarrow> started_automation list"
  te_byEvent :: "jsval \<Rightarrow> jsval \<Rightarrow> started_automation list"
  te_campaigns :: "jsval \<Rightarrow> jsval \<Rightarrow> started_automation list"

definition start_found :: "handler_env \<Rightarrow> lead_message \<Rightarrow> run_contact \<Rightarrow> started_automation list \<Rightarrow> unit handler" where
  "start_found env lm c automations = (if automations = [] then prog_ret () else startAutomation env lm c automations)"

definition push_automations :: "tag_env \<Rightarrow> lead_message \<Rightarrow> run_contact \<Rightarrow> started_automation list \<Rightarrow> started_automation list" where
  "push_automations te lm c automations =
     (if automations = [] \<and> (lm_webPush lm \<or> lm_mobilePush lm)
      then te_byPush te (rc_accountId c) (if lm_webPush lm then ''web-push'' else ''mobile-push'') else automations)"

text \<open>The tag comes with its account; an empty name is no name.\<close>

definition addTagAndStartAutomation :: "handler_env \<Rightarrow> tag_env \<Rightarrow> lead_message \<Rightarrow> unit handler" where
  "addTagAndStartAutomation env te lm = (case te_contact te of
     None \<Rightarrow> prog_ret ()
   | Some c \<Rightarrow>
       (if lm_tagName lm = [] then start_found env lm c (push_automations te lm c [])
        else (case te_tag te (lm_tagName lm) of
            None \<Rightarrow> prog_ret ()
          | Some (tag, account) \<Rightarrow>
              prog_then (call env (SaveContactTag (rc_id c) tag)) (\<lambda>_.
              prog_then (call env (Analytics ''tag-in'' [] tag)) (\<lambda>_.
              if lm_startAutomation lm = Some False then prog_ret ()
              else start_found env lm c (push_automations te lm c (te_byTag te tag (rc_accountId c))))))))"

text \<open>\<open>AppService.addTag\<close> asks for a tag name or a push; every error becomes status 400.\<close>

definition processMessageCatchError :: "'a handler \<Rightarrow> 'a handler" where
  "processMessageCatchError m s = (case m s of
     (Inl e, t) \<Rightarrow> (Inl (''400: Message process error '' @ e), t)
   | (Inr x, t) \<Rightarrow> (Inr x, t))"

definition addTag :: "handler_env \<Rightarrow> tag_env \<Rightarrow> lead_message \<Rightarrow> unit handler" where
  "addTag env te lm =
     (if lm_tagName lm = [] \<and> \<not> lm_webPush lm \<and> \<not> lm_mobilePush lm then prog_ret ()
      else processMessageCatchError (addTagAndStartAutomation env te lm))"

definition filter_id :: "jsval \<Rightarrow> jsval \<Rightarrow> jsval" where
  "filter_id messageId eventId = (if truthy messageId \<or> messageId = JNum (Fin 0) then messageId else eventId)"

definition eventsTrigger :: "handler_env \<Rightarrow> tag_env \<Rightarrow> bool \<Rightarrow> jsval \<Rightarrow> jsval \<Rightarrow> lead_message \<Rightarrow> unit handler" where
  "eventsTrigger env te isCampaign messageId eventId lm = (case te_contact te of
     None \<Rightarrow> prog_ret ()
   | Some c \<Rightarrow> start_found env lm c
       ((if isCampaign then te_campaigns te else te_byEvent te) (rc_accountId c) (filter_id messageId eventId)))"

section \<open>Cancelling and completing\<close>

definition cancel_latest :: "handler_env \<Rightarrow> lead_message \<Rightarrow> run_contact \<Rightarrow> started_automation \<Rightarrow> unit handler" where
  "cancel_latest env lm c a s = (case getContactAutomations c (sa_id a) [Running] (hs_runs s) of
     None \<Rightarrow> (Inr (), s)
   | Some r \<Rightarrow>
       prog_then (call env (Analytics ''automation-canceled'' ''tag-out'' (sa_id a))) (\<lambda>_.
       prog_then (cancel_row r) (\<lambda>_.
       emit (SetKey (stop_key (he_frac env) (lm_id lm))))) s)"

definition cancelRunningAutomation :: "handler_env \<Rightarrow> tag_env \<Rightarrow> lead_message \<Rightarrow> run_contact \<Rightarrow> bool \<Rightarrow> unit handler" where
  "cancelRunningAutomation env te lm c removeTag = (case te_tag te (lm_tagName lm) of
     None \<Rightarrow> prog_ret ()
   | Some (tag, account) \<Rightarrow>
       prog_then (if removeTag then
           prog_then (call env (DeleteContactTag (rc_id c) tag)) (\<lambda>_. call env (Analytics ''tag-out'' [] tag))
         else prog_ret ()) (\<lambda>_.
       case find (\<lambda>a. truthy (sa_id a)) (te_byTag te tag account) of
         None \<Rightarrow> prog_ret ()
       | Some a \<Rightarrow> cancel_latest env lm (c\<lparr>rc_accountId := account\<rparr>) a))"

definition removeTag :: "handler_env \<Rightarrow> tag_env \<Rightarrow> lead_message \<Rightarrow> run_contact \<Rightarrow> unit handler" where
  "removeTag env te lm c = processMessageCatchError (cancelRunningAutomation env te lm c True)"

definition automationCancel :: "handler_env \<Rightarrow> tag_env \<Rightarrow> lead_message \<Rightarrow> run_contact \<Rightarrow> unit handler" where
  "automationCancel env te lm c = processMessageCatchError (cancelRunningAutomation env te lm c False)"

text \<open>
  \<open>completeAutomations\<close>: the condition names the account and the identifier only; the status it
  is also given is not part of it.
\<close>

definition completeAutomations :: "jsval \<Rightarrow> jsval \<Rightarrow> automation_run list \<Rightarrow> automation_run list" where
  "completeAutomations account i runs = set_status (\<lambda>r. ar_accountId r = account \<and> ar_id r = i) Completed runs"

definition processCompleted :: "handler_env \<Rightarrow> jsval \<Rightarrow> jsval \<Rightarrow> jsval \<Rightarrow> unit handler" where
  "processCompleted env account i automationId =
     prog_then (call env (Analytics ''automation-completed'' ''completed'' automationId)) (\<lambda>_.
     prog_set (\<lambda>s. s\<lparr>hs_runs := completeAutomations account i (hs_runs s)\<rparr>))"

definition target_key :: "(real \<Rightarrow> string) \<Rightarrow> automation_run \<Rightarrow> string" where
  "target_key f r = ''automation_target_contact:'' @ to_str f (ar_contactId r) @ '':'' @ to_str f (ar_id r)"

definition running_runs :: "run_contact \<Rightarrow> jsval \<Rightarrow> automation_run list \<Rightarrow> automation_run list" where
  "running_runs c automationId runs = filter (\<lambda>r. run_of c automationId r \<and> ar_status r = Running) runs"

text \<open>A target that is reached is counted, frees the contact of the tag of a flow, and completes the rows.\<close>

definition complete_targeted :: "handler_env \<Rightarrow> tag_env \<Rightarrow> run_contact \<Rightarrow> jsval \<Rightarrow> automation_run list handler" where
  "complete_targeted env te c automationId s =
     (let done = running_runs c automationId (hs_runs s) in
      if done = [] then (Inr [], s)
      else prog_then (call env (CountTarget (rc_accountId c) automationId)) (\<lambda>_.
           prog_then (case te_tag te ''usuario-no-fluxo'' of None \<Rightarrow> prog_ret ()
             | Some (tag, account) \<Rightarrow> call env (DeleteContactTag (rc_id c) tag)) (\<lambda>_.
           prog_then (prog_set (\<lambda>s. s\<lparr>hs_runs :=
             set_status (\<lambda>r. ar_accountId r = rc_accountId c \<and> ar_id r \<in> ar_id ` set done) Completed (hs_runs s)\<rparr>)) (\<lambda>_.
           prog_ret done))) s)"

text \<open>\<open>Promise.all\<close> over calls: all are made, the first failure is the result.\<close>

fun call_all :: "handler_env \<Rightarrow> handler_effect list \<Rightarrow> unit handler" where
  "call_all env [] s = (Inr (), s)"
| "call_all env (e # es) s = (let (r, t) = call env e s; (r', t') = call_all env es t in (if isl r then r else r', t'))"

definition targetAchieved :: "handler_env \<Rightarrow> tag_env \<Rightarrow> bool \<Rightarrow> run_contact \<Rightarrow> jsval \<Rightarrow> unit handler" where
  "targetAchieved env te accountFound c automationId =
     (if \<not> accountFound then prog_ret ()
      else prog_then (complete_targeted env te c automationId) (\<lambda>done.
           prog_then (call_all env (map (\<lambda>r. SetKey (target_key (he_frac env) r)) done)) (\<lambda>_.
           call_all env (map (\<lambda>r. Analytics ''automation-completed'' ''completed target'' (ar_automationId r)) done))))"

section \<open>The rows an operation leaves\<close>

definition frame :: "'a handler \<Rightarrow> bool" where
  "frame m \<longleftrightarrow> (\<forall>s. hs_runs (snd (m s)) = hs_runs s)"

lemma frameD: "frame m \<Longrightarrow> hs_runs (snd (m s)) = hs_runs s"
  by (simp add: frame_def)

lemma then_frame: "(\<And>x. frame (f x)) \<Longrightarrow> hs_runs (snd (prog_then m f s)) = hs_runs (snd (m s))"
  by (auto simp: prog_then_def frame_def split: prod.split sum.split)

lemma frame_then: "frame m \<Longrightarrow> (\<And>x. frame (f x)) \<Longrightarrow> frame (prog_then m f)"
  unfolding frame_def [of "prog_then m f"] by (simp add: then_frame frameD)

lemma frame_basic: "frame (prog_ret x)" "frame (prog_throw e)" "frame (prog_lift r)" "frame (emit d)" "frame (call env d)"
  "frame (prog_set (\<lambda>s. s\<lparr>hs_leadMessageId := i, hs_startedAt := t\<rparr>))"
  "frame (prog_set (\<lambda>s. s\<lparr>hs_leadMessageId := i, hs_startedAt := t, hs_pending := False\<rparr>))"
  "frame (prog_set (\<lambda>s. s\<lparr>hs_pending := True\<rparr>))" "frame (\<lambda>s. (Inr (hs_runs s), s))"
  "frame (\<lambda>s. call env (g s) s)" "frame (write_flag env)"
  by (simp_all add: frame_def prog_defs emit_def call_def write_flag_def)

lemma frame_if: "(P \<Longrightarrow> frame m) \<Longrightarrow> (\<not> P \<Longrightarrow> frame n) \<Longrightarrow> frame (if P then m else n)"
  by simp

lemma frame_lead: "frame (updateLead env lm st)"
  by (simp add: updateLead_def frame_basic)

lemmas frame_intros = frame_then frame_basic frame_lead frame_if

lemma runs_begin: "hs_runs (snd (begin_run env a lm c s)) = hs_runs (snd (createContactAutomations env c (sa_id a) Running s))"
  unfolding begin_run_def by (rule then_frame) (auto intro!: frame_intros split: option.split)

lemma runs_early:
  "hs_runs (snd (refuse_early env a lm c s)) \<in> {hs_runs s, hs_runs (snd (createContactAutomations env c (sa_id a) Duplicate s))}"
proof -
  have last: "hs_runs (snd (prog_then (createContactAutomations env c (sa_id a) Duplicate) (\<lambda>_. prog_ret DuplicatedRun) t)) =
      hs_runs (snd (createContactAutomations env c (sa_id a) Duplicate t))" for t
    by (rule then_frame) (rule frame_basic)
  have first: "frame (prog_then (updateLead env lm Duplicate)
      (\<lambda>_. call env (Analytics ''automation-duplicate'' ''automation running under time period'' (sa_id a))))"
    by (intro frame_intros)
  have assoc: "refuse_early env a lm c = prog_then (prog_then (updateLead env lm Duplicate)
      (\<lambda>_. call env (Analytics ''automation-duplicate'' ''automation running under time period'' (sa_id a))))
      (\<lambda>_. prog_then (createContactAutomations env c (sa_id a) Duplicate) (\<lambda>_. prog_ret DuplicatedRun))"
    by (rule ext) (simp add: refuse_early_def prog_then_def split: prod.split sum.split)
  obtain r t where m: "prog_then (updateLead env lm Duplicate)
      (\<lambda>_. call env (Analytics ''automation-duplicate'' ''automation running under time period'' (sa_id a))) s = (r, t)" by fastforce
  then have t: "hs_runs t = hs_runs s" using frameD [OF first, of s] by simp
  then have "hs_runs (snd (createContactAutomations env c (sa_id a) Duplicate t)) =
      hs_runs (snd (createContactAutomations env c (sa_id a) Duplicate s))"
    by (auto simp: createContactAutomations_def split: option.split)
  with m t last show ?thesis unfolding assoc by (cases r) (simp_all add: prog_then_def [of _ "\<lambda>_. prog_then _ _"])
qed

section \<open>At most one run is running\<close>

text \<open>A running row is newer than every other row of its contact and automation that was started.\<close>

definition same_run :: "automation_run \<Rightarrow> automation_run \<Rightarrow> bool" where
  "same_run r r' \<longleftrightarrow> ar_contactId r = ar_contactId r' \<and> ar_automationId r = ar_automationId r' \<and> ar_accountId r = ar_accountId r'"

definition runs_ok :: "automation_run list \<Rightarrow> bool" where
  "runs_ok runs \<longleftrightarrow> distinct (map ar_id runs) \<and>
     (\<forall>r \<in> set runs. \<forall>r' \<in> set runs. ar_status r = Running \<longrightarrow> r' \<noteq> r \<longrightarrow> same_run r r' \<longrightarrow> ar_status r' \<noteq> Duplicate \<longrightarrow>
        ar_createdAt r' < ar_createdAt r)"

lemma runs_okD:
  "runs_ok runs \<Longrightarrow> r \<in> set runs \<Longrightarrow> r' \<in> set runs \<Longrightarrow> ar_status r = Running \<Longrightarrow> r' \<noteq> r \<Longrightarrow> same_run r r' \<Longrightarrow>
     ar_status r' \<noteq> Duplicate \<Longrightarrow> ar_createdAt r' < ar_createdAt r"
  unfolding runs_ok_def by blast

lemma same_ids: "distinct (map ar_id runs) \<Longrightarrow> r \<in> set runs \<Longrightarrow> r' \<in> set runs \<Longrightarrow> ar_id r = ar_id r' \<Longrightarrow> r = r'"
  by (auto simp: distinct_map inj_on_def)

lemma ids_set_status [simp]: "map ar_id (set_status P st runs) = map ar_id runs"
  by (simp add: set_status_def)

lemma in_set_status:
  "r \<in> set (set_status P st runs) \<longleftrightarrow> (\<exists>q \<in> set runs. r = (if P q then q\<lparr>ar_status := st\<rparr> else q))"
  by (auto simp: set_status_def)

lemma runs_ok_set_status:
  assumes ok: "runs_ok runs" and st: "st \<noteq> Running" and dup: "\<forall>r \<in> set runs. P r \<longrightarrow> ar_status r \<noteq> Duplicate"
  shows "runs_ok (set_status P st runs)"
  unfolding runs_ok_def
proof (intro conjI ballI impI)
  fix r r'
  assume *: "r \<in> set (set_status P st runs)" "r' \<in> set (set_status P st runs)" "ar_status r = Running" "r' \<noteq> r"
    "same_run r r'" "ar_status r' \<noteq> Duplicate"
  from * st have r: "r \<in> set runs" by (auto simp: in_set_status)
  from * obtain q where q: "q \<in> set runs" "r' = (if P q then q\<lparr>ar_status := st\<rparr> else q)" by (auto simp: in_set_status)
  have "q \<noteq> r" using * q st by (auto simp: in_set_status split: if_splits)
  moreover have "ar_status q \<noteq> Duplicate" using dup q *(6) by (auto split: if_splits)
  moreover have "same_run r q" using *(5) q(2) by (auto simp: same_run_def split: if_splits)
  ultimately have "ar_createdAt q < ar_createdAt r" using runs_okD [OF ok r q(1) *(3)] by blast
  then show "ar_createdAt r' < ar_createdAt r" using q(2) by simp
qed (use ok in \<open>simp add: runs_ok_def\<close>)

definition fresh_row :: "automation_run \<Rightarrow> automation_run list \<Rightarrow> bool" where
  "fresh_row n runs \<longleftrightarrow> (\<forall>r \<in> set runs. ar_id r \<noteq> ar_id n \<and> ar_createdAt r < ar_createdAt n)"

lemma runs_ok_duplicate: "runs_ok runs \<Longrightarrow> fresh_row n runs \<Longrightarrow> ar_status n = Duplicate \<Longrightarrow> runs_ok (runs @ [n])"
  by (auto simp: runs_ok_def fresh_row_def)

lemma runs_ok_running:
  assumes "runs_ok runs" and "fresh_row n runs" and "\<forall>r \<in> set runs. same_run r n \<longrightarrow> ar_status r \<noteq> Running"
  shows "runs_ok (runs @ [n])"
  using assms by (auto simp: runs_ok_def fresh_row_def)

lemma newest_None: "newest rs = None \<longleftrightarrow> rs = []"
  by (cases rs) (auto split: option.split)

lemma newest_Some: "newest rs = Some b \<Longrightarrow> b \<in> set rs \<and> (\<forall>r \<in> set rs. ar_createdAt r \<le> ar_createdAt b)"
proof (induction rs arbitrary: b)
  case (Cons r rs)
  show ?case
  proof (cases "newest rs")
    case None
    with Cons.prems show ?thesis by (simp add: newest_None)
  next
    case (Some d)
    with Cons.IH [OF Some] Cons.prems show ?thesis by (fastforce split: if_splits)
  qed
qed simp


text \<open>The rows the database inserts: a new identifier, later than every row before.\<close>

definition inserts_fresh :: "handler_env \<Rightarrow> bool" where
  "inserts_fresh env \<longleftrightarrow> (\<forall>runs i t. he_insert env runs = Some (i, t) \<longrightarrow> (\<forall>r \<in> set runs. ar_id r \<noteq> i \<and> ar_createdAt r < t))"

lemma inserted:
  assumes "inserts_fresh env"
  shows "hs_runs (snd (createContactAutomations env c i st s)) = hs_runs s \<or>
    (\<exists>n. hs_runs (snd (createContactAutomations env c i st s)) = hs_runs s @ [n] \<and> fresh_row n (hs_runs s) \<and>
       ar_status n = st \<and> run_of c i n)"
  using assms by (auto simp: createContactAutomations_def inserts_fresh_def fresh_row_def run_of_def split: option.split)

lemma ok_duplicate: "inserts_fresh env \<Longrightarrow> runs_ok (hs_runs s) \<Longrightarrow> runs_ok (hs_runs (snd (createContactAutomations env c i Duplicate s)))"
  using inserted [of env c i Duplicate s] runs_ok_duplicate by auto

lemma ok_running:
  assumes "inserts_fresh env" and "runs_ok (hs_runs s)" and none: "\<forall>r \<in> set (hs_runs s). run_of c i r \<longrightarrow> ar_status r \<noteq> Running"
  shows "runs_ok (hs_runs (snd (createContactAutomations env c i Running s)))"
proof -
  consider "hs_runs (snd (createContactAutomations env c i Running s)) = hs_runs s"
    | n where "hs_runs (snd (createContactAutomations env c i Running s)) = hs_runs s @ [n]" "fresh_row n (hs_runs s)" "run_of c i n"
    using inserted [OF assms(1), of c i Running s] by blast
  then show ?thesis
  proof cases
    case 2
    have "\<forall>r \<in> set (hs_runs s). same_run r n \<longrightarrow> ar_status r \<noteq> Running"
      using none 2(3) by (auto simp: same_run_def run_of_def)
    with 2 assms(2) show ?thesis by (simp add: runs_ok_running)
  qed (use assms(2) in simp)
qed

lemma latest_Some:
  assumes "getContactAutomations c i [Running, Completed] runs = Some r"
  shows "r \<in> set runs" and "run_of c i r" and "ar_status r = Running \<or> ar_status r = Completed"
    and "q \<in> set runs \<Longrightarrow> run_of c i q \<Longrightarrow> ar_status q = Running \<Longrightarrow> ar_createdAt q \<le> ar_createdAt r"
  using newest_Some assms unfolding getContactAutomations_def by fastforce+

lemma latest_None: "getContactAutomations c i [Running, Completed] runs = None \<Longrightarrow> q \<in> set runs \<Longrightarrow> run_of c i q \<Longrightarrow> ar_status q \<noteq> Running"
  by (auto simp: getContactAutomations_def newest_None filter_empty_conv)

text \<open>Only the newest of the running and completed rows can be running.\<close>

lemma running_is_latest:
  assumes "runs_ok runs" and "getContactAutomations c i [Running, Completed] runs = Some r"
    and "q \<in> set runs" and "run_of c i q" and "ar_status q = Running"
  shows "q = r"
proof (rule ccontr)
  assume "q \<noteq> r"
  then have "ar_createdAt r < ar_createdAt q"
    using runs_okD [OF assms(1,3) latest_Some(1) [OF assms(2)] assms(5)] latest_Some(2,3) [OF assms(2)] assms(4)
    by (auto simp: same_run_def run_of_def)
  with latest_Some(4) [OF assms(2-5)] show False by simp
qed

lemma cancelled_rows:
  assumes "hs_runs u = set_status (\<lambda>x. ar_id x = ar_id r \<and> ar_accountId x = ar_accountId r) Canceled runs"
    and "runs_ok runs" and "getContactAutomations c i [Running, Completed] runs = Some r"
  shows "runs_ok (hs_runs u) \<and> (\<forall>q \<in> set (hs_runs u). run_of c i q \<longrightarrow> ar_status q \<noteq> Running)"
proof -
  have r: "r \<in> set runs" "ar_status r \<noteq> Duplicate" using latest_Some [OF assms(3)] by auto
  have ids: "distinct (map ar_id runs)" using assms(2) by (simp add: runs_ok_def)
  have "runs_ok (hs_runs u)"
    unfolding assms(1) by (rule runs_ok_set_status [OF assms(2)]) (use r same_ids [OF ids] in auto)
  moreover have "ar_status q \<noteq> Running" if q: "q \<in> set (hs_runs u)" "run_of c i q" for q
  proof
    assume run: "ar_status q = Running"
    from q(1) obtain p where "p \<in> set runs" "q = (if ar_id p = ar_id r \<and> ar_accountId p = ar_accountId r then p\<lparr>ar_status := Canceled\<rparr> else p)"
      by (auto simp: assms(1) in_set_status)
    with run have "q \<in> set runs" "\<not> (ar_id q = ar_id r \<and> ar_accountId q = ar_accountId r)"
      by (auto split: if_splits)
    with running_is_latest [OF assms(2,3) _ q(2) run] show False by auto
  qed
  ultimately show ?thesis by blast
qed

lemma cancel_not_awaited_rows:
  "cancel_not_awaited env r s = (Inr (), t) \<Longrightarrow>
     hs_runs t = set_status (\<lambda>x. ar_id x = ar_id r \<and> ar_accountId x = ar_accountId r) Canceled (hs_runs s)"
  by (auto simp: cancel_not_awaited_def cancel_row_def prog_defs write_flag_def emit_def split: if_splits)

lemma cancel_not_awaited_ends: "\<exists>t. cancel_not_awaited env r s = (Inr (), t)"
  by (simp add: cancel_not_awaited_def cancel_row_def prog_defs write_flag_def emit_def)

lemma ok_restart:
  assumes "inserts_fresh env" and ok: "runs_ok (hs_runs s)" and latest: "getContactAutomations c (sa_id a) [Running, Completed] (hs_runs s) = Some r"
  shows "runs_ok (hs_runs (snd (prog_then (restart_run env a r) (\<lambda>_. begin_run env a lm c) s)))"
proof (cases "ar_status r = Running")
  case False
  have none: "\<forall>q \<in> set (hs_runs s). run_of c (sa_id a) q \<longrightarrow> ar_status q \<noteq> Running"
    using running_is_latest [OF ok latest] False by blast
  have "prog_then (restart_run env a r) (\<lambda>_. begin_run env a lm c) s = begin_run env a lm c s"
    using False by (simp add: restart_run_def prog_defs)
  then show ?thesis using ok_running [OF assms(1) ok none] by (simp add: runs_begin)
next
  case True
  let ?e = "Analytics ''automation-canceled'' ''starting another automation'' (sa_id a)"
  show ?thesis
  proof (cases "he_calls env ?e")
    case False
    with ok True show ?thesis by (simp add: restart_run_def prog_defs call_def)
  next
    case ok_call: True
    let ?s = "s\<lparr>hs_effects := hs_effects s @ [?e]\<rparr>"
    obtain t where t: "cancel_not_awaited env r ?s = (Inr (), t)" using cancel_not_awaited_ends by blast
    have "prog_then (restart_run env a r) (\<lambda>_. begin_run env a lm c) s = begin_run env a lm c t"
      using t ok_call True by (simp add: restart_run_def prog_then_def call_def emit_def prog_set_def)
    moreover have "runs_ok (hs_runs t) \<and> (\<forall>q \<in> set (hs_runs t). run_of c (sa_id a) q \<longrightarrow> ar_status q \<noteq> Running)"
      using cancelled_rows [OF _ ok latest, of t] cancel_not_awaited_rows [OF t] by simp
    ultimately show ?thesis using ok_running [OF assms(1)] by (simp add: runs_begin)
  qed
qed

lemma settle_rows [simp]: "hs_runs (settle_pending env s) = hs_runs s"
  by (simp add: settle_pending_def write_flag_def emit_def prog_set_def)

lemma ok_start:
  assumes "inserts_fresh env" and "runs_ok (hs_runs s)"
  shows "runs_ok (hs_runs (snd (start_settled env lm c a s)))"
proof -
  let ?s = "s\<lparr>hs_leadMessageId := lm_id lm, hs_startedAt := lm_startedAt lm, hs_pending := False\<rparr>"
  have ok: "runs_ok (hs_runs ?s)" using assms(2) by simp
  have unique: "frame (refuse_unique env a lm)" unfolding refuse_unique_def by (intro frame_intros)
  have "runs_ok (hs_runs (snd (refuse_early env a lm c ?s)))"
    using runs_early [of env a lm c ?s] ok ok_duplicate [OF assms(1) ok] by auto
  moreover have "getContactAutomations c (sa_id a) [Running, Completed] (hs_runs ?s) = None \<Longrightarrow>
      runs_ok (hs_runs (snd (begin_run env a lm c ?s)))"
    unfolding runs_begin using ok_running [OF assms(1) ok] latest_None by blast
  moreover note frameD [OF unique, of ?s] ok_restart [OF assms(1) ok]
  ultimately have "runs_ok (hs_runs (snd (start_one env lm c a s)))"
    using assms(2) unfolding start_one_def
    by (cases "he_conditional env a") (auto simp: prog_then_def prog_lift_def prog_ret_def prog_set_def split: option.split)
  then show ?thesis by (simp add: start_settled_def split_def Let_def)
qed

section \<open>Sequences of operations\<close>

text \<open>
  The operations in any order, for any messages and automations. Messages carry the identifiers
  of started runs, not of duplicates.
\<close>

inductive runs_step :: "handler_state \<Rightarrow> handler_state \<Rightarrow> bool" where
  start: "runs_step s (snd (start_settled env lm c a s))" if "inserts_fresh env"
| cancel: "runs_step s (snd (cancelRunningAutomation env te lm c dropTag s))"
| complete: "runs_step s (snd (processCompleted env account i automationId s))"
    if "\<forall>r \<in> set (hs_runs s). ar_id r = i \<longrightarrow> ar_status r \<noteq> Duplicate"
| target: "runs_step s (snd (targetAchieved env te found c automationId s))"

inductive runs_reach :: "handler_state \<Rightarrow> bool" where
  empty: "runs_reach s" if "hs_runs s = []"
| more: "runs_reach t" if "runs_reach s" and "runs_step s t"

lemma ok_then_frame: "(\<And>x. frame (f x)) \<Longrightarrow> runs_ok (hs_runs (snd (m s))) \<Longrightarrow> runs_ok (hs_runs (snd (prog_then m f s)))"
  by (simp add: then_frame)

lemma ok_frame_then:
  assumes "frame m" and "\<And>x t. hs_runs t = hs_runs s \<Longrightarrow> runs_ok (hs_runs (snd (f x t)))" and "runs_ok (hs_runs s)"
  shows "runs_ok (hs_runs (snd (prog_then m f s)))"
proof -
  obtain r t where m: "m s = (r, t)" by fastforce
  with frameD [OF assms(1), of s] have "hs_runs t = hs_runs s" by simp
  with m assms(2,3) show ?thesis by (cases r) (simp_all add: prog_then_def)
qed

lemma latest_running: "getContactAutomations c i [Running] runs = Some r \<Longrightarrow> r \<in> set runs \<and> ar_status r = Running"
  using newest_Some [of "filter (\<lambda>r. run_of c i r \<and> List.member [Running] (ar_status r)) runs" r]
  by (auto simp: getContactAutomations_def)

lemma ok_cancel_row:
  assumes "runs_ok (hs_runs s)" and "r \<in> set (hs_runs s)" and "ar_status r = Running"
  shows "runs_ok (hs_runs (snd (cancel_row r s)))"
proof -
  have "distinct (map ar_id (hs_runs s))" using assms(1) by (simp add: runs_ok_def)
  then have run: "\<forall>x \<in> set (hs_runs s). ar_id x = ar_id r \<and> ar_accountId x = ar_accountId r \<longrightarrow> ar_status x \<noteq> Duplicate"
    using assms(2,3) same_ids by fastforce
  show ?thesis
    using runs_ok_set_status [OF assms(1), of Canceled "\<lambda>x. ar_id x = ar_id r \<and> ar_accountId x = ar_accountId r"] run
    by (simp add: cancel_row_def prog_set_def)
qed

lemma ok_cancel: "runs_ok (hs_runs s) \<Longrightarrow> runs_ok (hs_runs (snd (cancelRunningAutomation env te lm c dropTag s)))"
proof -
  assume ok: "runs_ok (hs_runs s)"
  have latest: "runs_ok (hs_runs (snd (cancel_latest env lm d a t)))" if t: "runs_ok (hs_runs t)" for d a t
  proof (cases "getContactAutomations d (sa_id a) [Running] (hs_runs t)")
    case (Some r)
    have "runs_ok (hs_runs (snd (prog_then (cancel_row r) (\<lambda>_. emit (SetKey (stop_key (he_frac env) (lm_id lm)))) u)))"
      if u: "hs_runs u = hs_runs t" for u
      using ok_cancel_row [of u r] t u latest_running [OF Some] by (intro ok_then_frame) (simp_all add: frame_basic)
    then show ?thesis unfolding cancel_latest_def Some option.case
      by (rule ok_frame_then [OF frame_basic(5)]) (simp_all add: t)
  qed (simp add: cancel_latest_def t)
  show ?thesis
  proof (cases "te_tag te (lm_tagName lm)")
    case (Some ta)
    obtain tag account where ta: "ta = (tag, account)" by (cases ta)
    show ?thesis
      unfolding cancelRunningAutomation_def Some ta option.case prod.case
      by (rule ok_frame_then [OF _ _ ok])
        (auto intro!: frame_intros simp: latest ok prog_ret_def split: option.split)
  qed (simp add: cancelRunningAutomation_def ok prog_ret_def)
qed

lemma ok_complete:
  assumes "runs_ok (hs_runs s)" and "\<forall>r \<in> set (hs_runs s). ar_id r = i \<longrightarrow> ar_status r \<noteq> Duplicate"
  shows "runs_ok (hs_runs (snd (processCompleted env account i automationId s)))"
  unfolding processCompleted_def
  by (rule ok_frame_then [OF _ _ assms(1)])
    (use assms in \<open>auto simp: frame_basic prog_set_def completeAutomations_def intro!: runs_ok_set_status\<close>)

lemma frame_call_all: "frame (call_all env es)"
proof -
  have "hs_runs (snd (call_all env es s)) = hs_runs s" for s
  proof (induction es arbitrary: s)
    case (Cons e es)
    then show ?case using frameD [OF frame_basic(5), of env e s] by (simp add: Let_def split_def)
  qed simp
  then show ?thesis by (simp add: frame_def)
qed

lemma ok_target: "runs_ok (hs_runs s) \<Longrightarrow> runs_ok (hs_runs (snd (targetAchieved env te found c automationId s)))"
proof -
  assume ok: "runs_ok (hs_runs s)"
  let ?done = "running_runs c automationId (hs_runs s)"
  have ids: "distinct (map ar_id (hs_runs s))" using ok by (simp add: runs_ok_def)
  have run: "\<forall>r \<in> set (hs_runs s). ar_accountId r = rc_accountId c \<and> ar_id r \<in> ar_id ` set ?done \<longrightarrow> ar_status r \<noteq> Duplicate"
  proof (intro ballI impI)
    fix r assume r: "r \<in> set (hs_runs s)" "ar_accountId r = rc_accountId c \<and> ar_id r \<in> ar_id ` set ?done"
    then obtain q where "q \<in> set (hs_runs s)" "ar_id r = ar_id q" "ar_status q = Running"
      by (auto simp: running_runs_def)
    with same_ids [OF ids r(1)] show "ar_status r \<noteq> Duplicate" by fastforce
  qed
  have set: "runs_ok (hs_runs (snd (prog_then (prog_set (\<lambda>s. s\<lparr>hs_runs :=
      set_status (\<lambda>r. ar_accountId r = rc_accountId c \<and> ar_id r \<in> ar_id ` set ?done) Completed (hs_runs s)\<rparr>)) (\<lambda>_. prog_ret ?done) t)))"
    if t: "hs_runs t = hs_runs s" for t
    using runs_ok_set_status [OF ok, of Completed, OF _ run] t by (simp add: prog_defs)
  have "runs_ok (hs_runs (snd (complete_targeted env te c automationId s)))"
  proof (cases "?done = []")
    case True
    then show ?thesis by (simp add: complete_targeted_def ok)
  next
    case False
    show ?thesis
      unfolding complete_targeted_def Let_def if_not_P [OF False]
      by (rule ok_frame_then [OF frame_basic(5) ok_frame_then])
        (simp_all add: ok set frame_basic split: option.split)
  qed
  then show ?thesis
    unfolding targetAchieved_def using ok
    by (auto simp: prog_ret_def intro!: ok_then_frame frame_then frame_call_all)
qed

lemma reach_ok: "runs_reach s \<Longrightarrow> runs_ok (hs_runs s)"
proof (induction rule: runs_reach.induct)
  case (more s t)
  from more.hyps(2) more.IH show ?case
    by cases (auto intro: ok_start ok_cancel ok_complete ok_target)
qed (simp add: runs_ok_def)


text \<open>A contact whose run completed starts the automation again.\<close>

definition demo_start_env :: handler_env where
  "demo_start_env = \<lparr>he_frac = (\<lambda>_. []), he_conditional = (\<lambda>_. Inr True),
     he_insert = (\<lambda>runs. if \<forall>r \<in> set runs. ar_id r \<noteq> JNum (Fin (real (length runs))) \<and> ar_createdAt r < real (length runs)
       then Some (JNum (Fin (real (length runs))), real (length runs)) else None),
     he_calls = (\<lambda>_. True), he_late = False\<rparr>"

definition demo_automation :: started_automation where
  "demo_automation = \<lparr>sa_id = JNum (Fin 3), sa_applyFrequency = ''multiply'', sa_timePeriod = 0\<rparr>"

definition demo_contact :: run_contact where
  "demo_contact = \<lparr>rc_id = JNum (Fin 5), rc_accountId = JNum (Fin 2)\<rparr>"

definition demo_lead_message :: lead_message where
  "demo_lead_message = \<lparr>lm_id = JStr ''m'', lm_startedAt = 0, lm_leadId = JNull, lm_fromAnother = False,
     lm_tagName = ''vip'', lm_webPush = False, lm_mobilePush = False, lm_startAutomation = None\<rparr>"

definition demo_handler :: "automation_run list \<Rightarrow> handler_state" where
  "demo_handler runs = \<lparr>hs_runs = runs, hs_effects = [], hs_leadMessageId = JNull, hs_startedAt = 0, hs_pending = False\<rparr>"

definition demo_run_row :: "real \<Rightarrow> run_status \<Rightarrow> automation_run" where
  "demo_run_row i st = \<lparr>ar_id = JNum (Fin i), ar_contactId = JNum (Fin 5), ar_automationId = JNum (Fin 3),
     ar_accountId = JNum (Fin 2), ar_status = st, ar_createdAt = i\<rparr>"

lemmas run_demos = demo_start_env_def demo_automation_def demo_contact_def demo_lead_message_def demo_handler_def demo_run_row_def

lemmas run_eval = start_settled_def start_one_def begin_run_def restart_run_def updateLead_def
  createContactAutomations_def getFirstContactAutomations_def getContactAutomations_def run_of_def too_early_def
  cancel_not_awaited_def cancel_row_def write_flag_def settle_pending_def set_status_def call_def emit_def prog_defs

definition first_start :: handler_state where
  "first_start = snd (start_settled demo_start_env demo_lead_message demo_contact demo_automation (demo_handler []))"

definition then_completed :: handler_state where
  "then_completed = snd (processCompleted demo_start_env (JNum (Fin 2)) (JNum (Fin 0)) (JNum (Fin 3)) first_start)"

definition second_start :: handler_state where
  "second_start = snd (start_settled demo_start_env demo_lead_message demo_contact demo_automation then_completed)"

lemma restart_demo:
  "hs_runs first_start = [demo_run_row 0 Running]"
  "hs_runs then_completed = [demo_run_row 0 Completed]"
  "hs_runs second_start = [demo_run_row 0 Completed, demo_run_row 1 Running]"
proof -
  show first: "hs_runs first_start = [demo_run_row 0 Running]"
    by (simp add: first_start_def run_eval run_demos)
  show completed: "hs_runs then_completed = [demo_run_row 0 Completed]"
    by (simp add: then_completed_def processCompleted_def completeAutomations_def first run_eval run_demos)
  show "hs_runs second_start = [demo_run_row 0 Completed, demo_run_row 1 Running]"
    by (simp add: second_start_def completed run_eval run_demos)
qed


section \<open>The flags a stop leaves and the flags message-trigger reads\<close>

definition redis_with :: "handler_effect list \<Rightarrow> (string \<Rightarrow> string option) \<Rightarrow> string \<Rightarrow> string option" where
  "redis_with es get_key k = (if SetKey k \<in> set es then Some ''true'' else get_key k)"

lemma stop_requested_with:
  "stop_requested (env\<lparr>ev_redisGet := redis_with es (ev_redisGet env)\<rparr>) m \<longleftrightarrow>
     stop_requested env m \<or> SetKey (leadRedisKey env m) \<in> set es \<or> SetKey (removeAutomationKey env m) \<in> set es \<or>
     SetKey (automationTargetKey env m) \<in> set es"
  by (auto simp: stop_requested_def redis_with_def leadRedisKey_def removeAutomationKey_def automationTargetKey_def str_of_def)

lemma stop_key_unread:
  assumes "CHR '':'' \<notin> set (to_str f i)"
  shows "stop_key f i \<notin> {leadRedisKey env m, removeAutomationKey env m, automationTargetKey env m}"
proof -
  have "stop_key f i \<noteq> leadRedisKey env m"
  proof
    assume "stop_key f i = leadRedisKey env m"
    then have "to_str f i = ct_email (ls_contact m) @ '':'' @ au_name (ls_automation m) @ '':'' @ str_of env (ls_startedAt m)"
      by (simp add: stop_key_def leadRedisKey_def)
    with assms show False by simp
  qed
  then show ?thesis by (simp add: stop_key_def removeAutomationKey_def automationTargetKey_def)
qed

lemma cancelled_effects:
  assumes "cancelRunningAutomation he te lm c dropTag s = (Inr (), t)"
    and "te_tag te (lm_tagName lm) = Some (tag, account)"
    and "find (\<lambda>a. truthy (sa_id a)) (te_byTag te tag account) = Some a"
    and "getContactAutomations (c\<lparr>rc_accountId := account\<rparr>) (sa_id a) [Running] (hs_runs s) = Some r"
  shows "hs_effects t = hs_effects s @
      (if dropTag then [DeleteContactTag (rc_id c) tag, Analytics ''tag-out'' [] tag] else []) @
      [Analytics ''automation-canceled'' ''tag-out'' (sa_id a), SetKey (stop_key (he_frac he) (lm_id lm))]"
    and "hs_runs t = set_status (\<lambda>x. ar_id x = ar_id r \<and> ar_accountId x = ar_accountId r) Canceled (hs_runs s)"
  using assms
  by (auto simp: cancelRunningAutomation_def cancel_latest_def cancel_row_def call_def emit_def prog_defs split: if_splits)

text \<open>Result: cancelling a contact's run marks its row canceled and writes a flag no message is checked
  against: a queued message of the run is stopped after the cancellation exactly when it was
  before, so it goes on to its next step (the flag names the message, the reader builds its key
  from email, automation and start).\<close>

theorem cancel_flags_never_read:
  assumes "cancelRunningAutomation he te lm c dropTag s = (Inr (), t)" and "hs_effects s = []"
    and "te_tag te (lm_tagName lm) = Some (tag, account)"
    and "find (\<lambda>a. truthy (sa_id a)) (te_byTag te tag account) = Some a"
    and "getContactAutomations (c\<lparr>rc_accountId := account\<rparr>) (sa_id a) [Running] (hs_runs s) = Some r"
    and "CHR '':'' \<notin> set (to_str (he_frac he) (lm_id lm))"
  shows "r\<lparr>ar_status := Canceled\<rparr> \<in> set (hs_runs t) \<and> SetKey (stop_key (he_frac he) (lm_id lm)) \<in> set (hs_effects t) \<and>
    stop_requested (env\<lparr>ev_redisGet := redis_with (hs_effects t) (ev_redisGet env)\<rparr>) m = stop_requested env m"
proof -
  note eff = cancelled_effects [OF assms(1,3,4,5)]
  have "r\<lparr>ar_status := Canceled\<rparr> \<in> set (hs_runs t)"
    using latest_running [OF assms(5)] by (auto simp: eff(2) in_set_status)
  moreover have keys: "SetKey k \<in> set (hs_effects t) \<longleftrightarrow> k = stop_key (he_frac he) (lm_id lm)" for k
    by (auto simp: eff(1) assms(2))
  moreover have "stop_requested (env\<lparr>ev_redisGet := redis_with (hs_effects t) (ev_redisGet env)\<rparr>) m = stop_requested env m"
    using stop_key_unread [OF assms(6), of env m] unfolding stop_requested_with keys by (metis insertI1 insertI2)
  ultimately show ?thesis unfolding keys by blast
qed

definition demo_tag_env :: tag_env where
  "demo_tag_env = \<lparr>te_contact = None, te_tag = (\<lambda>_. Some (JNum (Fin 9), JNum (Fin 2))),
     te_byTag = (\<lambda>_ _. [demo_automation]), te_byPush = (\<lambda>_ _. []), te_byEvent = (\<lambda>_ _. []), te_campaigns = (\<lambda>_ _. [])\<rparr>"

theorem cancel_flags_never_read_witness:
  "demo_run_row 0 Canceled \<in>
      set (hs_runs (snd (cancelRunningAutomation demo_start_env demo_tag_env demo_lead_message demo_contact True
        (demo_handler [demo_run_row 0 Running])))) \<and>
   stop_requested (demo_env\<lparr>ev_redisGet := redis_with
      (hs_effects (snd (cancelRunningAutomation demo_start_env demo_tag_env demo_lead_message demo_contact True
        (demo_handler [demo_run_row 0 Running])))) (ev_redisGet demo_env)\<rparr>) (demo_lead [demo_tag]) =
   stop_requested demo_env (demo_lead [demo_tag])"
proof -
  let ?c = "cancelRunningAutomation demo_start_env demo_tag_env demo_lead_message demo_contact True (demo_handler [demo_run_row 0 Running])"
  have "?c = (Inr (), snd ?c)"
    by (simp add: cancelRunningAutomation_def cancel_latest_def demo_tag_env_def run_eval run_demos)
  then have "(demo_run_row 0 Running)\<lparr>ar_status := Canceled\<rparr> \<in> set (hs_runs (snd ?c)) \<and>
      SetKey (stop_key (he_frac demo_start_env) (lm_id demo_lead_message)) \<in> set (hs_effects (snd ?c)) \<and>
      stop_requested (demo_env\<lparr>ev_redisGet := redis_with (hs_effects (snd ?c)) (ev_redisGet demo_env)\<rparr>) (demo_lead [demo_tag]) =
      stop_requested demo_env (demo_lead [demo_tag])"
    by (rule cancel_flags_never_read)
      (auto simp: demo_tag_env_def run_demos getContactAutomations_def run_of_def)
  then show ?thesis by (simp add: demo_run_row_def)
qed

lemma call_all_ok: "call_all env es s = (Inr (), t) \<Longrightarrow> hs_effects t = hs_effects s @ es"
proof (induction es arbitrary: s)
  case (Cons e es)
  then show ?case
    by (cases "he_calls env e"; cases "call_all env es (snd (call env e s))")
      (auto simp: call_def emit_def prog_set_def prog_throw_def)
qed simp

lemma targeted_rows:
  assumes "complete_targeted env te c i s = (Inr ds, t)"
  shows "ds = running_runs c i (hs_runs s)" and "r \<in> set ds \<Longrightarrow> r\<lparr>ar_status := Completed\<rparr> \<in> set (hs_runs t)"
proof -
  show ds: "ds = running_runs c i (hs_runs s)"
    using assms by (auto simp: complete_targeted_def prog_Inr Let_def split: if_splits)
  assume r: "r \<in> set ds"
  then have "running_runs c i (hs_runs s) \<noteq> []" using ds by auto
  with assms obtain u v where u: "call env (CountTarget (rc_accountId c) i) s = (Inr (), u)"
    and v: "(case te_tag te ''usuario-no-fluxo'' of None \<Rightarrow> prog_ret () | Some (tag, account) \<Rightarrow> call env (DeleteContactTag (rc_id c) tag)) u = (Inr (), v)"
    and t: "hs_runs t = set_status (\<lambda>r. ar_accountId r = rc_accountId c \<and> ar_id r \<in> ar_id ` set ds) Completed (hs_runs v)"
    by (auto simp: complete_targeted_def prog_Inr Let_def ds)
  have "hs_runs v = hs_runs s"
    using u v by (auto simp: prog_ret_def call_def emit_def prog_set_def prog_throw_def split: option.splits if_splits)
  then show "r\<lparr>ar_status := Completed\<rparr> \<in> set (hs_runs t)"
    using r unfolding t in_set_status by (auto simp: ds running_runs_def run_of_def intro!: bexI [of _ r])
qed


definition target_run :: "(string + unit) \<times> handler_state" where
  "target_run = targetAchieved demo_start_env demo_tag_env True demo_contact (JNum (Fin 3)) (demo_handler [demo_run_row 7 Running])"


end
