(* ===== verification/CampaignPages.thy ===== *)
theory CampaignPages
  imports Prelude
begin

text \<open>
  Paging of a campaign: \<open>src/apps/campaign-packer/src/campaign/campaign.service.ts\<close> with the queries
  of \<open>msgops/msgops.service.ts\<close>. The recipients of a campaign are numbered (\<open>order_number\<close>); a page
  is a range of numbers, queued with a delay, and \<open>BETWEEN\<close> selects its recipients. The database
  (rows, A/B groups), the size limit and the answers of the queue are parameters.
\<close>

section \<open>Campaigns and pages\<close>

datatype message_type = EMAIL | CAMPAIGN | WEBPUSH | MOBILEPUSH | SMS | WHATSAPP

datatype campaign_type = SIMPLE | TESTAB | SPLIT | RECURRING

record campaign_message =
  cm_messageId :: nat
  cm_winner :: bool
  cm_content :: string
  cm_fileName :: string
  cm_bucketName :: string

record campaign =
  cp_id :: nat
  cp_type :: campaign_type
  cp_messageType :: message_type
  cp_query :: string
  cp_messages :: "campaign_message list"
  cp_spreadSending :: int
  cp_testabMode :: bool
  cp_testabLastId :: "nat option"
  cp_testabInitialPageId :: "nat option"

record page_job =
  pj_campaign :: campaign
  pj_page :: nat
  pj_totalPages :: nat
  pj_delay :: int
  pj_first :: nat
  pj_last :: nat

record packer_state =
  ps_jobs :: "page_job list"
  ps_done :: "nat set"
  ps_lastIds :: "(nat \<times> nat) list"

record packer_env =
  pe_rows :: "nat \<Rightarrow> nat list"
  pe_limit :: nat
  pe_accepts :: "page_job \<Rightarrow> bool"
  pe_redisSet :: bool
  pe_groups :: "nat \<Rightarrow> nat \<Rightarrow> nat list"
  pe_minutes :: "nat \<Rightarrow> real"

type_synonym 'a packer = "(packer_state, 'a) prog"

section \<open>The queries\<close>

definition or_0 :: "nat option \<Rightarrow> nat" where
  "or_0 x = (case x of None \<Rightarrow> 0 | Some n \<Rightarrow> n)"

definition ceil_div :: "int \<Rightarrow> int \<Rightarrow> int" where
  "ceil_div a b = - ((- a) div b)"

definition getLimit :: "packer_env \<Rightarrow> campaign \<Rightarrow> nat" where
  "getLimit env c =
     (let divider = (if 0 < cp_spreadSending c then nat (ceil_div (int (length (pe_rows env (cp_id c)))) (cp_spreadSending c)) else 0)
      in if divider < pe_limit env \<and> 0 < divider then divider else pe_limit env)"

text \<open>The rows of a group: above the last number sent, up to the number of the group.\<close>

definition group_rows :: "nat \<Rightarrow> nat \<Rightarrow> nat list \<Rightarrow> nat list" where
  "group_rows lastSentId finalId rows =
     sort (filter (\<lambda>n. (lastSentId \<noteq> 0 \<longrightarrow> lastSentId < n) \<and> (finalId \<noteq> 0 \<longrightarrow> n \<le> finalId)) rows)"

text \<open>Every \<open>limit\<close>-th row and the last one, in descending order.\<close>

definition page_ends :: "nat \<Rightarrow> nat list \<Rightarrow> nat list" where
  "page_ends limit xs =
     rev (map (\<lambda>i. xs ! i) (filter (\<lambda>i. Suc i mod limit = 0 \<or> Suc i = length xs) [0..<length xs]))"

definition countByTags :: "packer_env \<Rightarrow> campaign \<Rightarrow> nat \<Rightarrow> nat \<Rightarrow> string + nat list" where
  "countByTags env c lastSentId finalId =
     (if getLimit env c = 0 then Inl ''500: division by zero''
      else Inr (page_ends (getLimit env c) (group_rows lastSentId finalId (pe_rows env (cp_id c)))))"

text \<open>The numbers a page selects.\<close>

definition on_page :: "nat \<Rightarrow> page_job \<Rightarrow> bool" where
  "on_page n j \<longleftrightarrow> pj_first j \<le> n \<and> n \<le> pj_last j"

section \<open>The campaign before it is paged\<close>

definition validateCampaign :: "campaign \<Rightarrow> string + unit" where
  "validateCampaign c = (case cp_messages c of
     [] \<Rightarrow>
       if cp_messageType c = EMAIL then Inl ''TypeError''
       else if cp_query c = [] then Inl ''400: Campaigns must have at least one audience''
       else Inr ()
   | m # _ \<Rightarrow>
       if cp_messageType c = EMAIL \<and> cm_content m = [] \<and> (cm_fileName m = [] \<or> cm_bucketName m = [])
       then Inl ''400: Email must contain location object with fileName and bucketName''
       else if cp_query c = [] then Inl ''400: Campaigns must have at least one audience''
       else Inr ())"

text \<open>Outside of a test the winner is sent, or the first message.\<close>

definition chosen_message :: "campaign \<Rightarrow> campaign" where
  "chosen_message c =
     (if \<not> cp_testabMode c \<and> 1 < length (cp_messages c)
      then c\<lparr>cp_messages := [case find cm_winner (cp_messages c) of None \<Rightarrow> hd (cp_messages c) | Some m \<Rightarrow> m]\<rparr>
      else c)"

definition without_test :: "campaign \<Rightarrow> campaign" where
  "without_test c =
     (if cp_type c = SPLIT \<or> cp_type c = TESTAB then c
      else c\<lparr>cp_testabLastId := None, cp_testabInitialPageId := None\<rparr>)"

definition spread_for :: "nat \<Rightarrow> campaign \<Rightarrow> campaign" where
  "spread_for pages c =
     (if cp_type c = TESTAB \<and> pages \<le> 5 then c\<lparr>cp_spreadSending := 5 * int pages\<rparr> else c)"

definition page_interval :: "campaign \<Rightarrow> nat \<Rightarrow> int" where
  "page_interval c pages =
     ceil_div (if cp_spreadSending c * 60000 = 0 then 60000 else cp_spreadSending c * 60000) (int pages)"

section \<open>Queueing the pages\<close>

definition addPageToQueue :: "packer_env \<Rightarrow> campaign \<Rightarrow> nat \<Rightarrow> nat \<Rightarrow> int \<Rightarrow> nat \<Rightarrow> nat \<Rightarrow> unit packer" where
  "addPageToQueue env c page pages delay lo hi s =
     (let j = \<lparr>pj_campaign = c, pj_page = page, pj_totalPages = pages, pj_delay = max 0 delay, pj_first = lo, pj_last = hi\<rparr>
      in if pe_accepts env j then (Inr (), s\<lparr>ps_jobs := ps_jobs s @ [j]\<rparr>) else (Inl ''queue'', s))"

definition first_of_page_1 :: "campaign \<Rightarrow> nat list \<Rightarrow> nat" where
  "first_of_page_1 c ends =
     (let i = (if 1 < length ends then ends ! 1 + 1 else 0);
          j = (if cp_type c = SPLIT \<and> i = 0 then or_0 (cp_testabLastId c) + 1 else i)
      in if cp_type c = TESTAB \<and> length ends = 1 then or_0 (cp_testabLastId c) else j)"

text \<open>
  The pages after the first: \<open>rest\<close> are the ends that are left, \<open>final_end\<close> the smallest end of all.
  \<open>Promise.all\<close> queues every one of them; the first error is the result.
\<close>

definition first_of_page :: "bool \<Rightarrow> campaign \<Rightarrow> nat list \<Rightarrow> nat \<Rightarrow> nat \<Rightarrow> nat" where
  "first_of_page testabMode c rest final_end i =
     (let f = (if Suc i < length rest then rest ! Suc i + 1 else 0);
          g = (if testabMode \<and> f = 0 \<and> 0 < or_0 (cp_testabLastId c) then or_0 (cp_testabLastId c) + 1 else f)
      in if \<not> testabMode \<and> g = 0 then final_end + 1 else g)"

fun all_of :: "unit packer list \<Rightarrow> unit packer" where
  "all_of [] s = (Inr (), s)"
| "all_of (m # ms) s = (let (r, t) = m s; (r', t') = all_of ms t in (if isl r then r else r', t'))"

definition middle_pages :: "packer_env \<Rightarrow> bool \<Rightarrow> campaign \<Rightarrow> nat list \<Rightarrow> nat \<Rightarrow> nat \<Rightarrow> int \<Rightarrow> unit packer" where
  "middle_pages env testabMode c rest final_end pages distribute =
     all_of (map (\<lambda>i. addPageToQueue env c (i + 2) pages (int (i + 2) * distribute)
       (first_of_page testabMode c rest final_end i) (rest ! i)) [0..<length rest])"

definition later_pages :: "packer_env \<Rightarrow> bool \<Rightarrow> campaign \<Rightarrow> nat list \<Rightarrow> int \<Rightarrow> unit packer" where
  "later_pages env testabMode c ends distribute =
     (let pages = length ends; final_end = last ends; rest = (if testabMode then tl ends else butlast (tl ends))
      in prog_then (middle_pages env testabMode c rest final_end pages distribute) (\<lambda>_.
         if testabMode then prog_ret ()
         else addPageToQueue env c pages pages (int (1 + length rest + 1) * distribute + 600000)
                (if or_0 (cp_testabLastId c) = 0 then 0 else or_0 (cp_testabLastId c) + 1) final_end))"

definition queue_pages :: "packer_env \<Rightarrow> bool \<Rightarrow> campaign \<Rightarrow> nat list \<Rightarrow> unit packer" where
  "queue_pages env testabMode c0 ends =
     (let pages = length ends; c1 = spread_for pages c0; distribute = page_interval c1 pages;
          c = (if cp_type c1 = SPLIT then c1\<lparr>cp_testabMode := False\<rparr> else c1)
      in prog_then (addPageToQueue env c 1 pages distribute (first_of_page_1 c ends) (hd ends)) (\<lambda>_.
         if 1 < pages then later_pages env testabMode c ends distribute else prog_ret ()))"

definition createBatches :: "packer_env \<Rightarrow> campaign \<Rightarrow> string option packer" where
  "createBatches env c s =
     (if cp_id c \<in> ps_done s then (Inr (Some ''Duplicated Campaign''), s)
      else prog_then (prog_lift (validateCampaign c)) (\<lambda>_.
        let c1 = without_test (chosen_message c) in
        prog_then (prog_lift (countByTags env c1 (or_0 (cp_testabLastId c1)) (or_0 (cp_testabInitialPageId c1)))) (\<lambda>ends.
        if ends = [] then prog_throw ''404: Contacts not found for tags''
        else
          prog_then (queue_pages env (cp_testabMode c) c1 ends) (\<lambda>_.
          if cp_testabMode c then prog_ret (Some ''Processed'')
          else if pe_redisSet env then prog_then (prog_set (\<lambda>s. s\<lparr>ps_done := insert (cp_id c) (ps_done s)\<rparr>)) (\<lambda>_. prog_ret (Some ''Processed''))
          else prog_ret None))) s)"

section \<open>A test\<close>

text \<open>
  \<open>createTest\<close>: the groups come from the database as their last numbers, in descending order; each
  group is sent one message. A test shorter than the spread shortens it. An index past the
  messages is \<open>undefined\<close>, which nothing can be sent with.
\<close>

definition test_campaign :: "packer_env \<Rightarrow> campaign \<Rightarrow> campaign" where
  "test_campaign env c =
     (if cp_type c = TESTAB \<and> pe_minutes env (cp_id c) < of_int (cp_spreadSending c)
      then c\<lparr>cp_spreadSending := \<lfloor>pe_minutes env (cp_id c) + 1 / 2\<rfloor>\<rparr> else c)"

definition group_campaign :: "campaign \<Rightarrow> nat list \<Rightarrow> nat \<Rightarrow> campaign" where
  "group_campaign c groups i =
     c\<lparr>cp_messages := (if i < length (cp_messages c) then [cp_messages c ! i] else []),
       cp_testabMode := True,
       cp_testabLastId := Some (if Suc i < length groups then groups ! Suc i else 0),
       cp_testabInitialPageId := Some (groups ! i)\<rparr>"

fun send_groups :: "packer_env \<Rightarrow> campaign list \<Rightarrow> unit packer" where
  "send_groups env [] = prog_ret ()"
| "send_groups env (c # cs) = prog_then (createBatches env c) (\<lambda>_. send_groups env cs)"

definition createTest :: "packer_env \<Rightarrow> campaign \<Rightarrow> unit packer" where
  "createTest env c =
     (let t = test_campaign env c; groups = pe_groups env (cp_id c) (length (cp_messages c))
      in prog_then (send_groups env (map (group_campaign t groups) [0..<length groups])) (\<lambda>_.
         if groups = [] then prog_throw ''TypeError''
         else prog_set (\<lambda>s. s\<lparr>ps_lastIds := ps_lastIds s @ [(cp_id c, hd groups)]\<rparr>)))"

section \<open>Sending a page\<close>

text \<open>\<open>findByTags\<close>: the contacts of a page that the channel of the campaign can reach, by identifier.\<close>

record page_contact =
  pc_id :: nat
  pc_order :: nat
  pc_hasEmail :: bool
  pc_isValid :: bool
  pc_isUnsubscribed :: bool
  pc_hasBounced :: bool
  pc_isBlocked :: bool
  pc_hasPhone :: bool
  pc_hasWhatsapp :: bool
  pc_devices :: "message_type list"

definition reachable :: "message_type \<Rightarrow> page_contact \<Rightarrow> bool" where
  "reachable ty c = (case ty of
     EMAIL \<Rightarrow> pc_hasEmail c \<and> pc_isValid c \<and> \<not> pc_isUnsubscribed c \<and> \<not> pc_hasBounced c \<and> \<not> pc_isBlocked c
   | SMS \<Rightarrow> pc_hasPhone c
   | WHATSAPP \<Rightarrow> pc_hasWhatsapp c
   | MOBILEPUSH \<Rightarrow> MOBILEPUSH \<in> set (pc_devices c)
   | WEBPUSH \<Rightarrow> WEBPUSH \<in> set (pc_devices c)
   | CAMPAIGN \<Rightarrow> True)"

definition findByTags :: "packer_env \<Rightarrow> (nat \<Rightarrow> page_contact list) \<Rightarrow> campaign \<Rightarrow> nat \<Rightarrow> nat \<Rightarrow> page_contact list" where
  "findByTags env contacts c lo hi =
     (let reached = filter (reachable (cp_messageType c)) (sort_key pc_id (contacts (cp_id c)))
      in if hi = 0 then take (pe_limit env) (filter (\<lambda>x. lo < pc_order x) reached)
         else filter (\<lambda>x. lo \<le> pc_order x \<and> pc_order x \<le> hi) reached)"

text \<open>A \<open>Map\<close> over the identifiers keeps the first place and the last value of each.\<close>

definition unique_contacts :: "page_contact list \<Rightarrow> page_contact list" where
  "unique_contacts cs = map snd (foldl (\<lambda>m c. jsset (pc_id c) c m) [] cs)"

record fresh_campaign =
  fc_deleted :: bool
  fc_status :: nat

record package =
  pk_campaign :: campaign
  pk_contacts :: "page_contact list"
  pk_page :: nat
  pk_totalPages :: nat

definition still_sending :: "bool \<Rightarrow> fresh_campaign option \<Rightarrow> bool" where
  "still_sending stopFlag fresh = (\<not> stopFlag \<and> (case fresh of
     None \<Rightarrow> False
   | Some f \<Rightarrow> \<not> fc_deleted f \<and> fc_status f \<noteq> 4 \<and> fc_status f \<noteq> 5))"

text \<open>\<open>processPage\<close> with \<open>mountPackages\<close>: the package that is stored and published, if any.\<close>

definition processPage ::
  "packer_env \<Rightarrow> (nat \<Rightarrow> page_contact list) \<Rightarrow> bool \<Rightarrow> fresh_campaign option \<Rightarrow> page_job \<Rightarrow> string + package option"
where
  "processPage env contacts stopFlag fresh j =
     (if \<not> still_sending stopFlag fresh then Inr None
      else case validateCampaign (pj_campaign j) of
        Inl e \<Rightarrow> Inl e
      | Inr _ \<Rightarrow>
          if cp_messages (pj_campaign j) = [] then Inl ''TypeError''
          else Inr (Some \<lparr>pk_campaign = pj_campaign j,
            pk_contacts = unique_contacts (findByTags env contacts (pj_campaign j) (pj_first j) (pj_last j)),
            pk_page = pj_page j, pk_totalPages = pj_totalPages j\<rparr>))"

section \<open>The result of a test\<close>

text \<open>
  \<open>processResult\<close>: \<open>reduce\<close> over the messages with the counts of the criterion, \<open>None\<close> where
  \<open>parseInt\<close> gives \<open>NaN\<close>. A test that is not sent on completes the campaign.
\<close>

definition more_than :: "int option \<Rightarrow> int option \<Rightarrow> bool" where
  "more_than x y = (case (x, y) of (Some a, Some b) \<Rightarrow> b < a | _ \<Rightarrow> False)"

definition winnerMessage :: "(campaign_message \<times> int option) list \<Rightarrow> (campaign_message \<times> int option) option" where
  "winnerMessage ms = (case ms of [] \<Rightarrow> None
     | m # ms \<Rightarrow> Some (foldl (\<lambda>p x. if more_than (snd p) (snd x) then p else x) m ms))"

datatype result_step = CompleteCampaign nat | TriggerCampaign nat int

definition processResult ::
  "(campaign_message \<Rightarrow> int option) \<Rightarrow> bool \<Rightarrow> int \<Rightarrow> campaign \<Rightarrow> string + campaign_message list \<times> result_step"
where
  "processResult statistics sentAfterTest delay c =
     (case winnerMessage (map (\<lambda>m. (m, statistics m)) (cp_messages c)) of
        None \<Rightarrow> Inl ''TypeError''
      | Some w \<Rightarrow> Inr
          (map (\<lambda>m. m\<lparr>cm_winner := cm_messageId m = cm_messageId (fst w)\<rparr>) (cp_messages c),
           if sentAfterTest then TriggerCampaign (cp_id c) (max 0 delay) else CompleteCampaign (cp_id c)))"

section \<open>Ranges of numbers\<close>

text \<open>The ranges between ends in descending order, the lowest from \<open>lo\<close>.\<close>

fun ranges :: "nat \<Rightarrow> nat list \<Rightarrow> (nat \<times> nat) list" where
  "ranges lo [] = []"
| "ranges lo [m] = [(lo, m)]"
| "ranges lo (m # m' # ms) = (m' + 1, m) # ranges lo (m' # ms)"

definition holds :: "nat \<Rightarrow> nat \<times> nat \<Rightarrow> bool" where
  "holds n r \<longleftrightarrow> fst r \<le> n \<and> n \<le> snd r"

lemma length_ranges [simp]: "length (ranges lo ms) = length ms"
  by (induction lo ms rule: ranges.induct) auto

lemma nth_ranges: "i < length ms \<Longrightarrow> ranges lo ms ! i = (if Suc i < length ms then ms ! Suc i + 1 else lo, ms ! i)"
proof (induction lo ms arbitrary: i rule: ranges.induct)
  case (3 lo m m' ms)
  then show ?case by (cases i) auto
qed auto

lemma ranges_partition:
  assumes "sorted_wrt (\<ge>) ms" and "ms \<noteq> []" and "\<forall>m \<in> set ms. lo \<le> Suc m"
  shows "length (filter (holds n) (ranges lo ms)) = (if lo \<le> n \<and> n \<le> hd ms then 1 else 0)"
  using assms
proof (induction lo ms rule: ranges.induct)
  case (3 lo m m' ms)
  then show ?case by (auto simp: holds_def)
qed (auto simp: holds_def)

section \<open>The ends of the pages\<close>

lemma page_ends_desc: "sorted xs \<Longrightarrow> sorted_wrt (\<ge>) (page_ends limit xs)"
  unfolding page_ends_def sorted_wrt_rev sorted_wrt_map
  by (rule sorted_wrt_mono_rel [of _ "(<)"]) (auto simp: sorted_wrt_filter sorted_iff_nth_mono)

lemma page_ends_set: "set (page_ends limit xs) \<subseteq> set xs"
  by (auto simp: page_ends_def)

lemma page_ends_hd: "xs \<noteq> [] \<Longrightarrow> page_ends limit xs \<noteq> [] \<and> hd (page_ends limit xs) = last xs"
  by (cases xs rule: rev_cases) (auto simp: page_ends_def hd_append)

lemma page_ends_Nil [simp]: "page_ends limit [] = []"
  by (simp add: page_ends_def)

lemma sorted_last: "sorted xs \<Longrightarrow> n \<in> set xs \<Longrightarrow> n \<le> last (xs :: nat list)"
  by (induction xs) auto

lemma page_ends_two:
  assumes "0 < limit" and "limit < length xs"
  shows "1 < length (page_ends limit xs)"
proof -
  let ?is = "filter (\<lambda>i. Suc i mod limit = 0 \<or> Suc i = length xs) [0..<length xs]"
  have "{limit - 1, length xs - 1} \<subseteq> set ?is" using assms by auto
  then have "card {limit - 1, length xs - 1} \<le> length ?is" by (meson card_length card_mono finite_set le_trans)
  with assms show ?thesis by (simp add: page_ends_def)
qed

section \<open>The jobs of a run\<close>

definition job_range :: "page_job \<Rightarrow> nat \<times> nat" where
  "job_range j = (pj_first j, pj_last j)"

lemma on_page_range: "on_page n = holds n \<circ> job_range"
  by (rule ext) (simp add: on_page_def holds_def job_range_def)

definition queued :: "packer_state \<Rightarrow> packer_state \<Rightarrow> (nat \<times> nat) list \<Rightarrow> bool" where
  "queued s t rs \<longleftrightarrow> (\<exists>js. t = s\<lparr>ps_jobs := ps_jobs s @ js\<rparr> \<and> map job_range js = rs)"

lemma queued_append: "queued s t as \<Longrightarrow> queued t u bs \<Longrightarrow> queued s u (as @ bs)"
  by (fastforce simp: queued_def)

lemma queued_Nil [simp]: "queued s s []"
  by (simp add: queued_def)

lemma addPage_queued: "addPageToQueue env c page pages delay lo hi s = (Inr (), t) \<Longrightarrow> queued s t [(lo, hi)]"
  by (auto simp: addPageToQueue_def Let_def queued_def job_range_def split: if_splits)

lemma all_of_queued:
  "all_of (map (\<lambda>i. addPageToQueue env c (p i) pages (d i) (lo i) (hi i)) is) s = (Inr (), t) \<Longrightarrow>
     queued s t (map (\<lambda>i. (lo i, hi i)) is)"
proof (induction "is" arbitrary: s)
  case (Cons i "is")
  obtain r u where i: "addPageToQueue env c (p i) pages (d i) (lo i) (hi i) s = (r, u)" by fastforce
  obtain r' t' where rest: "all_of (map (\<lambda>i. addPageToQueue env c (p i) pages (d i) (lo i) (hi i)) is) u = (r', t')" by fastforce
  from Cons.prems i rest have "r = Inr ()" "r' = Inr ()" "t' = t" by (cases r; auto split: if_splits)+
  with Cons.IH [of u] addPage_queued i rest show ?case using queued_append by fastforce
qed simp

abbreviation last_sent :: "campaign \<Rightarrow> nat" where
  "last_sent c \<equiv> or_0 (cp_testabLastId c)"

lemma later_ranges:
  assumes "later_pages env testabMode c ends distribute s = (Inr (), t)" and "1 < length ends"
  shows "queued s t (tl (ranges (if last_sent c = 0 then 0 else last_sent c + 1) ends))"
proof -
  let ?lo = "if last_sent c = 0 then 0 else last_sent c + 1"
  let ?rest = "if testabMode then tl ends else butlast (tl ends)"
  let ?mid = "map (\<lambda>i. (first_of_page testabMode c ?rest (last ends) i, ?rest ! i)) [0..<length ?rest]"
  have last: "last ends = ends ! (length ends - 1)" using assms(2) by (intro last_conv_nth) auto
  from assms(1) obtain u where u: "middle_pages env testabMode c ?rest (last ends) (length ends) distribute s = (Inr (), u)"
    and t: "(if testabMode then prog_ret () else addPageToQueue env c (length ends) (length ends)
        (int (1 + length ?rest + 1) * distribute + 600000) ?lo (last ends)) u = (Inr (), t)"
    by (cases testabMode) (auto simp: later_pages_def Let_def prog_Inr)
  have mid: "queued s u ?mid" using all_of_queued [OF u [unfolded middle_pages_def]] .
  have all: "?mid @ (if testabMode then [] else [(?lo, last ends)]) = tl (ranges ?lo ends)"
    using assms(2) by (intro nth_equalityI)
      (auto simp: nth_tl nth_ranges nth_append nth_butlast first_of_page_def last less_Suc_eq_le Let_def,
       auto intro!: arg_cong [where f = "(!) ends"])
  have "queued u t (if testabMode then [] else [(?lo, last ends)])"
    using t addPage_queued by (cases testabMode) (auto simp: prog_ret_def)
  from queued_append [OF mid this] show ?thesis unfolding all .
qed

text \<open>What the campaign of the pages keeps of the campaign that is paged.\<close>

lemma prepared_simps [simp]:
  "cp_testabLastId (spread_for p c) = cp_testabLastId c" "cp_type (spread_for p c) = cp_type c"
  "cp_type (without_test c) = cp_type c" "cp_type (chosen_message c) = cp_type c"
  "cp_testabLastId (chosen_message c) = cp_testabLastId c" "cp_testabInitialPageId (chosen_message c) = cp_testabInitialPageId c"
  "cp_id (without_test c) = cp_id c" "cp_id (chosen_message c) = cp_id c"
  "cp_spreadSending (without_test c) = cp_spreadSending c" "cp_spreadSending (chosen_message c) = cp_spreadSending c"
  by (simp_all add: spread_for_def without_test_def chosen_message_def)

lemma pages_ranges:
  assumes "queue_pages env testabMode c ends s = (Inr (), t)" and "ends \<noteq> []"
    and "cp_type c \<noteq> SPLIT \<Longrightarrow> cp_type c \<noteq> TESTAB \<Longrightarrow> last_sent c = 0"
    and "cp_type c = TESTAB \<Longrightarrow> length ends = 1 \<Longrightarrow> last_sent c = 0"
  obtains lo where "queued s t (ranges lo ends)" and "\<forall>n > 0. lo \<le> n \<longleftrightarrow> last_sent c < n" and "lo \<le> Suc (last_sent c)"
proof -
  define d where "d = (if cp_type c = SPLIT then (spread_for (length ends) c)\<lparr>cp_testabMode := False\<rparr> else spread_for (length ends) c)"
  have d: "cp_testabLastId d = cp_testabLastId c" "cp_type d = cp_type c" by (simp_all add: d_def)
  let ?k = "page_interval (spread_for (length ends) c) (length ends)"
  have "queue_pages env testabMode c ends = prog_then (addPageToQueue env d 1 (length ends) ?k (first_of_page_1 d ends) (hd ends))
      (\<lambda>_. if 1 < length ends then later_pages env testabMode d ends ?k else prog_ret ())"
    by (simp add: queue_pages_def Let_def d_def)
  with assms(1) obtain u where first: "addPageToQueue env d 1 (length ends) ?k (first_of_page_1 d ends) (hd ends) s = (Inr (), u)"
    and rest: "(if 1 < length ends then later_pages env testabMode d ends ?k else prog_ret ()) u = (Inr (), t)"
    by (auto simp: prog_then_Inr)
  note one = addPage_queued [OF first]
  show ?thesis
  proof (cases "1 < length ends")
    case True
    let ?lo = "if last_sent c = 0 then 0 else last_sent c + 1"
    have "first_of_page_1 d ends = ends ! 1 + 1" using True by (simp add: first_of_page_1_def Let_def)
    then have eq: "[(first_of_page_1 d ends, hd ends)] @ tl (ranges ?lo ends) = ranges ?lo ends"
      using True by (cases "(?lo, ends)" rule: ranges.cases) auto
    have "later_pages env testabMode d ends ?k u = (Inr (), t)" using rest True by simp
    from queued_append [OF one later_ranges [OF this True]] have "queued s t (ranges ?lo ends)" unfolding d eq .
    then show ?thesis by (rule that) auto
  next
    case False
    with assms(2) have single: "ends = [hd ends]" by (cases ends) auto
    then have len: "length ends = 1" by (metis One_nat_def length_Cons list.size(3))
    have "t = u" using rest False by (simp add: prog_ret_def)
    with one single have "queued s t (ranges (first_of_page_1 d ends) ends)" by (metis ranges.simps(2))
    then show ?thesis
      by (rule that) (use assms(3,4) len d in \<open>auto simp: first_of_page_1_def Let_def\<close>)
  qed
qed

section \<open>Every recipient on one page\<close>

definition in_group :: "campaign \<Rightarrow> nat \<Rightarrow> bool" where
  "in_group c n \<longleftrightarrow> (let d = without_test c; hi = or_0 (cp_testabInitialPageId d)
     in last_sent d < n \<and> (hi \<noteq> 0 \<longrightarrow> n \<le> hi))"

text \<open>The recipients a run of \<open>createBatches\<close> counts.\<close>

definition recipients :: "packer_env \<Rightarrow> campaign \<Rightarrow> nat list" where
  "recipients env c = filter (in_group c) (pe_rows env (cp_id c))"

lemma group_recipients:
  assumes "0 \<notin> set (pe_rows env (cp_id c))"
  shows "set (group_rows (last_sent (without_test c)) (or_0 (cp_testabInitialPageId (without_test c))) (pe_rows env (cp_id c))) =
    set (recipients env c)"
  using assms by (auto simp: group_rows_def recipients_def in_group_def Let_def) (metis gr0I)+

lemma without_chosen: "last_sent (without_test (chosen_message c)) = last_sent (without_test c)"
    "cp_testabInitialPageId (without_test (chosen_message c)) = cp_testabInitialPageId (without_test c)"
  by (auto simp: without_test_def)

lemma processed_pages:
  assumes "createBatches env c s = (Inr r, t)" and "cp_id c \<notin> ps_done s"
  obtains ends u where "countByTags env c (last_sent (without_test c)) (or_0 (cp_testabInitialPageId (without_test c))) = Inr ends"
    and "ends \<noteq> []" and "queue_pages env (cp_testabMode c) (without_test (chosen_message c)) ends s = (Inr (), u)"
    and "ps_jobs t = ps_jobs u"
proof -
  let ?d = "without_test (chosen_message c)"
  have count: "countByTags env ?d a b = countByTags env c a b" for a b
    by (simp add: countByTags_def getLimit_def)
  from assms obtain ends u where "countByTags env ?d (last_sent ?d) (or_0 (cp_testabInitialPageId ?d)) = Inr ends"
    "ends \<noteq> []" "queue_pages env (cp_testabMode c) ?d ends s = (Inr (), u)" "ps_jobs t = ps_jobs u"
    by (auto simp: createBatches_def Let_def prog_Inr split: if_splits)
  then show ?thesis using that by (simp add: count without_chosen)
qed

lemma length_group_rows:
  assumes "0 \<notin> set (pe_rows env (cp_id c))"
  shows "length (group_rows (last_sent (without_test c)) (or_0 (cp_testabInitialPageId (without_test c))) (pe_rows env (cp_id c))) =
    length (recipients env c)"
proof -
  have "filter (\<lambda>n. (last_sent (without_test c) \<noteq> 0 \<longrightarrow> last_sent (without_test c) < n) \<and>
      (or_0 (cp_testabInitialPageId (without_test c)) \<noteq> 0 \<longrightarrow> n \<le> or_0 (cp_testabInitialPageId (without_test c)))) (pe_rows env (cp_id c)) =
    recipients env c"
    unfolding recipients_def by (rule filter_cong) (use assms in \<open>auto simp: in_group_def Let_def intro: gr0I\<close>)
  then show ?thesis by (simp add: group_rows_def)
qed


text \<open>A group that fits on one page.\<close>

lemma page_ends_one:
  assumes "xs \<noteq> []" and "length xs \<le> limit"
  shows "page_ends limit xs = [last xs]"
proof -
  have "filter (\<lambda>i. Suc i mod limit = 0 \<or> Suc i = length xs) [0..<length xs] = filter (\<lambda>i. i = length xs - 1) [0..<length xs]"
    using assms by (intro filter_cong) (auto simp: mod_less_eq_dividend mod_eq_0_iff_dvd dvd_imp_le dest!: dvd_imp_le)
  also have "\<dots> = [length xs - 1]" using assms(1) by (cases xs rule: rev_cases) auto
  finally show ?thesis using assms(1) by (simp add: page_ends_def last_conv_nth)
qed

lemma one_page_job:
  assumes "createBatches env c s = (Inr r, t)" and "cp_id c \<notin> ps_done s" and "cp_type c = TESTAB" and "cp_testabMode c"
    and "0 \<notin> set (pe_rows env (cp_id c))" and "n \<in> set (recipients env c)" and "length (recipients env c) \<le> getLimit env c"
  obtains j where "ps_jobs t = ps_jobs s @ [j]" and "ps_done t = ps_done s" and "cp_messages (pj_campaign j) = cp_messages c"
    and "pj_first j = last_sent c" and "n \<le> pj_last j"
proof -
  let ?lo = "last_sent (without_test c)" and ?hi = "or_0 (cp_testabInitialPageId (without_test c))"
  let ?xs = "group_rows ?lo ?hi (pe_rows env (cp_id c))"
  have d: "without_test (chosen_message c) = c" "without_test c = c" using assms(3,4) by (simp_all add: without_test_def chosen_message_def)
  have xs: "n \<in> set ?xs" using group_recipients [OF assms(5)] assms(6) by blast
  then have "?xs \<noteq> []" by auto
  with assms(7) length_group_rows [OF assms(5)] have ends: "page_ends (getLimit env c) ?xs = [last ?xs]"
    by (intro page_ends_one) simp_all
  have n: "n \<le> last ?xs" by (rule sorted_last [OF _ xs]) (simp add: group_rows_def)
  have limit: "0 < getLimit env c" using assms(6,7) by (cases "recipients env c") auto
  let ?k = "page_interval (spread_for 1 c) 1"
  from assms(1-4) ends limit obtain u where "addPageToQueue env (spread_for 1 c) 1 1 ?k (first_of_page_1 (spread_for 1 c) [last ?xs]) (last ?xs) s = (Inr (), u)" "t = u"
    by (auto simp: createBatches_def Let_def prog_Inr d countByTags_def queue_pages_def)
  then show ?thesis using n
    by (intro that) (auto simp: addPageToQueue_def Let_def first_of_page_1_def assms(3) spread_for_def split: if_splits)
qed

text \<open>Result: in an A/B test of two messages whose groups fit on a page each, the last recipient of the
  first group gets both messages: the page of the second group starts at its number.\<close>

theorem boundary_recipient_tested_twice:
  assumes "createTest env c s = (Inr (), t)" and "cp_type c = TESTAB" and "cp_messages c = [m, m']"
    and "pe_groups env (cp_id c) 2 = [b, a]" and "0 < a" and "a < b" and "cp_id c \<notin> ps_done s"
    and "0 \<notin> set (pe_rows env (cp_id c))" and "a \<in> set (pe_rows env (cp_id c))" and "b \<in> set (pe_rows env (cp_id c))"
    and "length (pe_rows env (cp_id c)) \<le> getLimit env (test_campaign env c)"
  shows "\<exists>j j'. ps_jobs t = ps_jobs s @ [j, j'] \<and> on_page a j \<and> on_page a j' \<and>
    cp_messages (pj_campaign j) = [m] \<and> cp_messages (pj_campaign j') = [m']"
proof -
  define g where "g = group_campaign (test_campaign env c) [b, a]"
  have test: "cp_id (test_campaign env c) = cp_id c" "cp_type (test_campaign env c) = cp_type c"
      "cp_messages (test_campaign env c) = cp_messages c" by (simp_all add: test_campaign_def)
  have g: "cp_id (g i) = cp_id c" "cp_type (g i) = TESTAB" "cp_testabMode (g i)" "getLimit env (g i) = getLimit env (test_campaign env c)" for i
    using assms(2) test by (simp_all add: g_def group_campaign_def getLimit_def)
  have g0: "last_sent (g 0) = a" "cp_messages (g 0) = [m]" and g1: "last_sent (g 1) = 0" "cp_messages (g 1) = [m']"
    using assms(3) test by (simp_all add: g_def group_campaign_def or_0_def)
  from assms(1,3,4) obtain u v where u: "createBatches env (g 0) s = (Inr u, v)"
    and w: "\<exists>r w. createBatches env (g 1) v = (Inr r, w) \<and> ps_jobs t = ps_jobs w"
    by (fastforce simp: createTest_def Let_def prog_Inr g_def numeral_2_eq_2 upt_rec)
  have few: "length (recipients env (g i)) \<le> getLimit env (g i)" for i
    using le_trans [OF length_filter_le assms(11)] by (simp add: g recipients_def)
  have b: "b \<in> set (recipients env (g 0))" and a: "a \<in> set (recipients env (g 1))"
    using assms by (auto simp: recipients_def in_group_def without_test_def g_def group_campaign_def test or_0_def Let_def)
  obtain j where j: "ps_jobs v = ps_jobs s @ [j]" "ps_done v = ps_done s" "cp_messages (pj_campaign j) = [m]" "pj_first j = a" "b \<le> pj_last j"
    by (rule one_page_job [OF u _ g(2,3) _ b few]) (use assms(7,8) g g0 in auto)
  from w obtain r w where w: "createBatches env (g 1) v = (Inr r, w)" "ps_jobs t = ps_jobs w" by blast
  obtain j' where "ps_jobs w = ps_jobs v @ [j']" "cp_messages (pj_campaign j') = [m']" "pj_first j' = 0" "a \<le> pj_last j'"
    by (rule one_page_job [OF w(1) _ g(2,3) _ a few]) (use assms(7,8) g g1 j in auto)
  with j w(2) assms(6) show ?thesis by (intro exI [of _ j] exI [of _ j']) (simp add: on_page_def)
qed

section \<open>Examples\<close>

definition demo_message :: "nat \<Rightarrow> campaign_message" where
  "demo_message i = \<lparr>cm_messageId = i, cm_winner = False, cm_content = ''hello'', cm_fileName = [], cm_bucketName = []\<rparr>"

definition demo_campaign :: "campaign_type \<Rightarrow> campaign" where
  "demo_campaign ty = \<lparr>cp_id = 1, cp_type = ty, cp_messageType = EMAIL, cp_query = ''q'',
     cp_messages = [demo_message 1, demo_message 2], cp_spreadSending = 0, cp_testabMode = False,
     cp_testabLastId = None, cp_testabInitialPageId = None\<rparr>"

definition demo_packer :: "nat \<Rightarrow> packer_env" where
  "demo_packer limit = \<lparr>pe_rows = (\<lambda>_. [1, 2, 3, 4, 5]), pe_limit = limit, pe_accepts = (\<lambda>_. True), pe_redisSet = True,
     pe_groups = (\<lambda>_ _. [4, 2]), pe_minutes = (\<lambda>_. 60)\<rparr>"

definition no_jobs :: packer_state where
  "no_jobs = \<lparr>ps_jobs = [], ps_done = {}, ps_lastIds = []\<rparr>"

lemma demo_pages:
  "createBatches (demo_packer 2) (demo_campaign SIMPLE) no_jobs =
     (Inr (Some ''Processed''), snd (createBatches (demo_packer 2) (demo_campaign SIMPLE) no_jobs))"
  "map job_range (ps_jobs (snd (createBatches (demo_packer 2) (demo_campaign SIMPLE) no_jobs))) = [(5, 5), (3, 4), (0, 2)]"
  by code_simp+

lemma demo_test: "createTest (demo_packer 5) (demo_campaign TESTAB) no_jobs =
    (Inr (), snd (createTest (demo_packer 5) (demo_campaign TESTAB) no_jobs))"
  by code_simp


theorem boundary_recipient_tested_twice_witness:
  "\<exists>j j'. ps_jobs (snd (createTest (demo_packer 5) (demo_campaign TESTAB) no_jobs)) = [j, j'] \<and> on_page 2 j \<and> on_page 2 j' \<and>
    cp_messages (pj_campaign j) = [demo_message 1] \<and> cp_messages (pj_campaign j') = [demo_message 2]"
proof -
  have "\<exists>j j'. ps_jobs (snd (createTest (demo_packer 5) (demo_campaign TESTAB) no_jobs)) = ps_jobs no_jobs @ [j, j'] \<and>
      on_page 2 j \<and> on_page 2 j' \<and>
      cp_messages (pj_campaign j) = [demo_message 1] \<and> cp_messages (pj_campaign j') = [demo_message 2]"
    by (rule boundary_recipient_tested_twice [where a = 2 and b = 4, OF demo_test])
      (simp_all add: demo_campaign_def demo_packer_def no_jobs_def getLimit_def test_campaign_def)
  then show ?thesis by (simp add: no_jobs_def)
qed

section \<open>What a page sends\<close>

definition by_id :: "page_contact list \<Rightarrow> (nat, page_contact) jsmap" where
  "by_id cs = foldl (\<lambda>m c. jsset (pc_id c) c m) [] cs"

lemma set_jsset: "p \<in> set (jsset k v m) \<Longrightarrow> p = (k, v) \<or> p \<in> set m"
  by (induction m) (auto split: if_splits)

lemma keys_jsset: "fst ` set (jsset k v m) = insert k (fst ` set m)"
  by (induction m) auto

lemma by_id_props:
  "distinct (map fst (by_id cs)) \<and> (\<forall>p \<in> set (by_id cs). fst p = pc_id (snd p) \<and> snd p \<in> set cs) \<and>
     fst ` set (by_id cs) = pc_id ` set cs"
proof (induction cs rule: rev_induct)
  case (snoc c cs)
  have step: "by_id (cs @ [c]) = jsset (pc_id c) c (by_id cs)" by (simp add: by_id_def)
  have "\<forall>p \<in> set (by_id (cs @ [c])). fst p = pc_id (snd p) \<and> snd p \<in> set (cs @ [c])"
    using snoc.IH set_jsset unfolding step by fastforce
  moreover have "fst ` set (by_id (cs @ [c])) = pc_id ` set (cs @ [c])" using snoc.IH by (simp only: step keys_jsset) simp
  moreover have "distinct (map fst (by_id (cs @ [c])))" unfolding step by (rule keys_jsset_distinct) (use snoc.IH in blast)
  ultimately show ?case by blast
qed (simp add: by_id_def)

lemma unique_ids: "distinct (map pc_id (unique_contacts cs)) \<and> pc_id ` set (unique_contacts cs) = pc_id ` set cs"
proof -
  note props = by_id_props [of cs]
  have u: "unique_contacts cs = map snd (by_id cs)" by (simp add: unique_contacts_def by_id_def)
  have ids: "map pc_id (unique_contacts cs) = map fst (by_id cs)" using props by (simp add: u)
  then have "pc_id ` set (unique_contacts cs) = fst ` set (by_id cs)" by (metis set_map)
  with ids props show ?thesis by metis
qed

text \<open>Result: a page sends to nobody once its campaign is stopped, deleted or completed; otherwise to each
  recipient of its range once, and only to those the channel reaches.\<close>

theorem page_sends_once:
  assumes "processPage env contacts stopFlag fresh j = Inr (Some p)" and "0 < pj_last j"
  shows "still_sending stopFlag fresh \<and> distinct (map pc_id (pk_contacts p)) \<and>
    pc_id ` set (pk_contacts p) =
      pc_id ` {c \<in> set (contacts (cp_id (pj_campaign j))). on_page (pc_order c) j \<and> reachable (cp_messageType (pj_campaign j)) c}"
proof -
  have found: "set (findByTags env contacts (pj_campaign j) (pj_first j) (pj_last j)) =
      {c \<in> set (contacts (cp_id (pj_campaign j))). on_page (pc_order c) j \<and> reachable (cp_messageType (pj_campaign j)) c}"
    using assms(2) by (auto simp: findByTags_def on_page_def)
  from assms(1) have "still_sending stopFlag fresh"
    and "pk_contacts p = unique_contacts (findByTags env contacts (pj_campaign j) (pj_first j) (pj_last j))"
    by (auto simp: processPage_def split: if_splits sum.splits)
  then show ?thesis using unique_ids [of "findByTags env contacts (pj_campaign j) (pj_first j) (pj_last j)"] found by simp
qed

definition demo_recipient :: "nat \<Rightarrow> page_contact" where
  "demo_recipient i = \<lparr>pc_id = i, pc_order = i, pc_hasEmail = True, pc_isValid = True, pc_isUnsubscribed = i = 2,
     pc_hasBounced = False, pc_isBlocked = False, pc_hasPhone = False, pc_hasWhatsapp = False, pc_devices = []\<rparr>"

definition demo_job :: page_job where
  "demo_job = \<lparr>pj_campaign = demo_campaign SIMPLE, pj_page = 1, pj_totalPages = 1, pj_delay = 0, pj_first = 1, pj_last = 3\<rparr>"

theorem page_sends_once_witness:
  "\<exists>p. processPage (demo_packer 5) (\<lambda>_. map demo_recipient [3, 2, 1]) False (Some \<lparr>fc_deleted = False, fc_status = 2\<rparr>) demo_job = Inr (Some p) \<and>
     pc_id ` set (pk_contacts p) = {1, 3}"
proof -
  have p: "\<exists>p. processPage (demo_packer 5) (\<lambda>_. map demo_recipient [3, 2, 1]) False (Some \<lparr>fc_deleted = False, fc_status = 2\<rparr>) demo_job = Inr (Some p)"
    by (simp add: processPage_def still_sending_def validateCampaign_def demo_job_def demo_campaign_def demo_message_def)
  then obtain p where p: "processPage (demo_packer 5) (\<lambda>_. map demo_recipient [3, 2, 1]) False (Some \<lparr>fc_deleted = False, fc_status = 2\<rparr>) demo_job = Inr (Some p)"
    by blast
  have "{c \<in> set (map demo_recipient [3, 2, 1]). on_page (pc_order c) demo_job \<and> reachable (cp_messageType (pj_campaign demo_job)) c} =
      {demo_recipient 1, demo_recipient 3}"
    by (auto simp: demo_recipient_def on_page_def demo_job_def reachable_def demo_campaign_def)
  with page_sends_once [OF p] p show ?thesis by (auto simp: demo_job_def demo_recipient_def)
qed

text \<open>The winner of a test has the highest count; among equals it is the last message.\<close>

lemma winner_has_most:
  "winnerMessage (map (\<lambda>m. (m, Some (f m))) ms) = Some w \<Longrightarrow> \<exists>m \<in> set ms. w = (m, Some (f m)) \<and> (\<forall>m' \<in> set ms. f m' \<le> f m)"
proof (induction ms arbitrary: w rule: rev_induct)
  case (snoc m ms)
  show ?case
  proof (cases ms)
    case Nil
    with snoc.prems show ?thesis by (simp add: winnerMessage_def)
  next
    case (Cons m0 rest)
    then obtain w' where w': "winnerMessage (map (\<lambda>m. (m, Some (f m))) ms) = Some w'" by (simp add: winnerMessage_def)
    then have "w = (if more_than (snd w') (Some (f m)) then w' else (m, Some (f m)))"
      using snoc.prems Cons by (simp add: winnerMessage_def)
    with snoc.IH [OF w'] show ?thesis by (force simp: more_than_def split: if_splits)
  qed
qed (simp add: winnerMessage_def)

end
