(* ===== verification/BatchMail.thy ===== *)
theory BatchMail
  imports JsValue
begin

text \<open>
  Batches of e-mails: \<open>src/apps/send-email/src/batch/batch.service.ts\<close>. The contacts of a batch are
  filtered by the flags Redis holds for them, handed to the provider, and recorded in Redis. The
  provider, the clock and whether Redis answers are parameters; Redis is a map from keys to values
  with the lifetimes that were set. Characters are those of Latin-1. Log lines are left out.
\<close>

section \<open>Contacts, batches, Redis\<close>

record mail_contact =
  ma_id :: nat
  ma_email :: string

record mail_message =
  mm_name :: string
  mm_subject :: string
  mm_from :: string
  mm_content :: string
  mm_fileName :: string
  mm_bucketName :: string
  mm_ippool :: string

record mail_batch =
  mb_account :: nat
  mb_configs :: "(string \<times> string) list"
  mb_campaignId :: nat
  mb_warmupMode :: "nat option"
  mb_isWarmup :: bool
  mb_isRateLimit :: bool
  mb_message :: mail_message
  mb_contacts :: "mail_contact list"

datatype redis_value = Text string | Count nat

datatype mail_effect =
    MailTracker string nat nat
  | MailSent "mail_contact list"

record mail_state =
  ml_redis :: "string \<Rightarrow> redis_value option"
  ml_ttl :: "string \<Rightarrow> nat option"
  ml_log :: "mail_effect list"

record mail_env =
  me_reads :: bool
  me_writes :: bool
  me_publishes :: bool
  me_limit :: "nat option"
  me_provider :: "mail_contact list \<Rightarrow> string + bool"
  me_date :: "string \<Rightarrow> string"
  me_toNextDay :: "string \<Rightarrow> nat"
  me_hour :: string

datatype mail_result = NothingToSend | ProviderAnswer bool

type_synonym 'a mail = "(mail_state, 'a) prog"

section \<open>Names\<close>

text \<open>\<open>slugify\<close> replaces accented letters; the rest of the name is kept.\<close>

definition accents :: "(char \<times> nat list) list" where
  "accents = [(CHR ''a'', [225, 224, 227, 226, 192, 193, 195, 194]), (CHR ''e'', [233, 232, 234, 201, 200, 202]),
     (CHR ''i'', [237, 236, 238, 205, 204, 206]), (CHR ''o'', [243, 242, 244, 245, 211, 210, 212, 213]),
     (CHR ''u'', [250, 249, 251, 252, 218, 217, 219, 220]), (CHR ''c'', [231, 199]), (CHR ''n'', [241, 209])]"

definition plain_char :: "char \<Rightarrow> char" where
  "plain_char c = (case find (\<lambda>(p, cs). of_char c \<in> set cs) accents of None \<Rightarrow> c | Some (p, cs) \<Rightarrow> p)"

definition slugify :: "string \<Rightarrow> string" where
  "slugify s = map plain_char s"

definition MICROSOFT_HOSTS :: "string list" where
  "MICROSOFT_HOSTS = [''hotmail.com'', ''outlook.com'', ''live.com'', ''msn.com'', ''passport.com'']"

definition isMicrosoft :: "string \<Rightarrow> bool" where
  "isMicrosoft email \<longleftrightarrow> (case split_on (CHR ''@'') email of
     _ # provider # _ \<Rightarrow> \<exists>h \<in> set MICROSOFT_HOSTS. str_includes provider h
   | _ \<Rightarrow> False)"

definition removeMicrosoft :: "mail_contact list \<Rightarrow> mail_contact list" where
  "removeMicrosoft cs = filter (\<lambda>c. \<not> isMicrosoft (ma_email c)) cs"

section \<open>Filters\<close>

text \<open>The key of a contact: the category, or the account the caller gives, if any, with the name.\<close>

definition cleanup_key :: "string \<Rightarrow> nat option \<Rightarrow> string \<Rightarrow> string \<Rightarrow> string" where
  "cleanup_key category accountId title email =
     (if category = ''duplicated''
      then (case accountId of None \<Rightarrow> ''undefined'' | Some a \<Rightarrow> show_nat a) @ '':'' @ email @ '':'' @ slugify title
      else category @ '':'' @ email)"

definition cleanupContacts ::
  "mail_env \<Rightarrow> string \<Rightarrow> string \<Rightarrow> nat option \<Rightarrow> mail_contact list \<Rightarrow> mail_contact list mail"
where
  "cleanupContacts env category title accountId cs s =
     (if cs = [] then (Inr cs, s)
      else if \<not> me_reads env then (Inl ''redis'', s)
      else (Inr (filter (\<lambda>c. ml_redis s (cleanup_key category accountId title (ma_email c)) \<noteq> Some (Text ''true'')) cs), s))"

definition account_category :: "nat \<Rightarrow> string \<Rightarrow> string" where
  "account_category a category = show_nat a @ '':'' @ category"

definition send_key :: "mail_contact \<Rightarrow> string \<Rightarrow> string" where
  "send_key c date = ''contact_send:'' @ show_nat (ma_id c) @ '':'' @ date"

definition limit_reached :: "jsnum \<Rightarrow> redis_value option \<Rightarrow> bool" where
  "limit_reached most v = (case v of
     None \<Rightarrow> False
   | Some (Count n) \<Rightarrow> js_ge (Fin (real n)) most
   | Some (Text t) \<Rightarrow> t \<noteq> [] \<and> js_ge (parse_int10 t) most)"

definition cleanupContactsQuantity :: "mail_env \<Rightarrow> jsnum \<Rightarrow> string \<Rightarrow> mail_contact list \<Rightarrow> mail_contact list mail" where
  "cleanupContactsQuantity env most zone cs s =
     (if cs = [] then (Inr cs, s)
      else if \<not> me_reads env then (Inl ''redis'', s)
      else (Inr (filter (\<lambda>c. \<not> limit_reached most (ml_redis s (send_key c (me_date env zone)))) cs), s))"

section \<open>Validation\<close>

definition validateBatch :: "mail_env \<Rightarrow> mail_batch \<Rightarrow> string + unit" where
  "validateBatch env b =
     (let m = mb_message b in
      if (case me_limit env of None \<Rightarrow> False | Some l \<Rightarrow> l < length (mb_contacts b)) then Inl ''400: Limit of contacts per batch was exceeded''
      else if mm_subject m = [] \<or> mm_from m = [] then Inl ''400: Check if the forwarded body has the necessary information''
      else if mm_content m = [] \<and> (mm_fileName m = [] \<or> mm_bucketName m = []) then Inl ''400: Email must contain content or location''
      else Inr ())"

definition validateCampaignBatch :: "mail_env \<Rightarrow> mail_batch \<Rightarrow> string + unit" where
  "validateCampaignBatch env b = (if mb_contacts b = [] then Inl ''400: Need contacts to send email'' else validateBatch env b)"

section \<open>Recording a batch\<close>

definition put :: "string \<Rightarrow> redis_value \<Rightarrow> nat \<Rightarrow> mail_state \<Rightarrow> mail_state" where
  "put k v ttl s = s\<lparr>ml_redis := (ml_redis s)(k \<mapsto> v), ml_ttl := (ml_ttl s)(k \<mapsto> ttl)\<rparr>"

definition incr_by :: "string \<Rightarrow> nat \<Rightarrow> mail_state \<Rightarrow> mail_state" where
  "incr_by k n s = s\<lparr>ml_redis := (ml_redis s)(k \<mapsto> Count (case ml_redis s k of Some (Count m) \<Rightarrow> m + n | _ \<Rightarrow> n))\<rparr>"

definition record_contact :: "mail_env \<Rightarrow> mail_batch \<Rightarrow> string \<Rightarrow> bool \<Rightarrow> mail_contact \<Rightarrow> mail_state \<Rightarrow> mail_state" where
  "record_contact env b zone limited c s =
     (let s1 = put (show_nat (mb_account b) @ '':'' @ ma_email c @ '':'' @ slugify (mm_name (mb_message b))) (Text ''true'') 7200 s;
          k = send_key c (me_date env zone)
      in if limited
         then incr_by k 1 (if ml_redis s1 k = None then put k (Count 0) (me_toNextDay env zone) s1 else s1)
         else s1)"

text \<open>The callback of \<open>incrby\<close> sets a lifetime when the new total is one.\<close>

definition count_pool :: "string \<Rightarrow> nat \<Rightarrow> nat \<Rightarrow> mail_state \<Rightarrow> mail_state" where
  "count_pool k n ttl s =
     (let s1 = incr_by k n s in if ml_redis s1 k = Some (Count 1) then s1\<lparr>ml_ttl := (ml_ttl s1)(k \<mapsto> ttl)\<rparr> else s1)"

definition hourly_key :: "mail_env \<Rightarrow> mail_batch \<Rightarrow> string" where
  "hourly_key env b = ''pool_'' @ mm_ippool (mb_message b) @ '':sent-by-hour-'' @ me_hour env"

definition daily_key :: "mail_env \<Rightarrow> mail_batch \<Rightarrow> string \<Rightarrow> string" where
  "daily_key env b zone = ''pool_'' @ mm_ippool (mb_message b) @ '':sent-by-day-'' @ me_date env zone"

definition saveBatchToRedis :: "mail_env \<Rightarrow> mail_batch \<Rightarrow> string \<Rightarrow> bool \<Rightarrow> unit mail" where
  "saveBatchToRedis env b zone limited s =
     (if \<not> me_writes env then (Inl ''redis'', s)
      else (Inr (), count_pool (daily_key env b zone) (length (mb_contacts b)) 86400
             (count_pool (hourly_key env b) (length (mb_contacts b)) 7200
               (fold (record_contact env b zone limited) (mb_contacts b) s))))"

section \<open>Sending\<close>

definition sendTracker :: "mail_env \<Rightarrow> string \<Rightarrow> mail_batch \<Rightarrow> unit mail" where
  "sendTracker env event b s =
     (if me_publishes env
      then (Inr (), s\<lparr>ml_log := ml_log s @ [MailTracker event (mb_campaignId b) (length (mb_contacts b))]\<rparr>)
      else (Inl ''publish'', s))"

definition sendBatch :: "mail_env \<Rightarrow> mail_batch \<Rightarrow> bool mail" where
  "sendBatch env b s = (me_provider env (mb_contacts b), s\<lparr>ml_log := ml_log s @ [MailSent (mb_contacts b)]\<rparr>)"

definition time_zone_of :: "mail_batch \<Rightarrow> string" where
  "time_zone_of b = (case map_of (mb_configs b) ''time_zone'' of None \<Rightarrow> ''America/Sao_Paulo'' | Some z \<Rightarrow> if z = [] then ''America/Sao_Paulo'' else z)"

definition send_limit :: "mail_batch \<Rightarrow> string" where
  "send_limit b = (case map_of (mb_configs b) ''send_limit_per_user'' of None \<Rightarrow> [] | Some l \<Rightarrow> l)"

definition clean_flags :: "mail_env \<Rightarrow> mail_batch \<Rightarrow> mail_contact list \<Rightarrow> mail_contact list mail" where
  "clean_flags env b cs =
     (let title = mm_name (mb_message b); category = account_category (mb_account b) in
      prog_then (cleanupContacts env (category ''disengaged'') title None cs) (\<lambda>cs.
      prog_then (cleanupContacts env (category ''unsubscribed'') title None cs) (\<lambda>cs.
      cleanupContacts env (category ''blocked'') title None cs)))"

definition warmup_batch :: "mail_batch \<Rightarrow> mail_batch" where
  "warmup_batch b = (case mb_warmupMode b of None \<Rightarrow> b | Some i \<Rightarrow> b\<lparr>mb_campaignId := i\<rparr>)"

definition campaign_contacts :: "mail_env \<Rightarrow> mail_batch \<Rightarrow> mail_contact list mail" where
  "campaign_contacts env b =
     (let pool = mm_ippool (mb_message b);
          cs = (if mb_account b = 1 \<and> pool \<noteq> ''m02_brmailsrv_com'' \<and> pool \<noteq> ''microsoft_news_plusdin_com_br''
                then removeMicrosoft (mb_contacts b) else mb_contacts b)
      in prog_then (if mb_isWarmup b then prog_ret cs
                    else cleanupContacts env ''duplicated'' (mm_name (mb_message b)) None cs) (\<lambda>cs.
         prog_then (clean_flags env b cs) (\<lambda>cs.
         if send_limit b \<noteq> [] \<and> mb_isRateLimit b
         then cleanupContactsQuantity env (parse_int10 (send_limit b)) (time_zone_of b) cs
         else prog_ret cs)))"

text \<open>An error of the recording is logged; the answer of the provider is returned.\<close>

definition try_save :: "unit mail \<Rightarrow> unit mail" where
  "try_save m s = (Inr (), snd (m s))"

definition deliver_campaign :: "mail_env \<Rightarrow> bool \<Rightarrow> mail_batch \<Rightarrow> mail_result mail" where
  "deliver_campaign env debug b =
     (if mb_contacts b = [] then prog_then (sendTracker env ''SENT_EMAIL_BATCH'' b) (\<lambda>_. prog_ret NothingToSend)
      else
        prog_then (prog_lift (validateCampaignBatch env b)) (\<lambda>_.
        prog_then (sendBatch env b) (\<lambda>accepted.
        prog_then (if accepted then try_save (saveBatchToRedis env b (time_zone_of b) (send_limit b \<noteq> [])) else prog_ret ()) (\<lambda>_.
        prog_then (if \<not> debug \<and> mb_warmupMode b = None then sendTracker env ''SENT_EMAIL_BATCH'' b else prog_ret ()) (\<lambda>_.
        prog_ret (ProviderAnswer accepted))))))"

definition campaignBatch :: "mail_env \<Rightarrow> bool \<Rightarrow> mail_batch \<Rightarrow> mail_result mail" where
  "campaignBatch env debug b =
     prog_then (if debug then prog_ret () else sendTracker env ''EMAIL_BATCH'' b) (\<lambda>_.
     prog_then (campaign_contacts env (warmup_batch b)) (\<lambda>cs.
     deliver_campaign env debug ((warmup_batch b)\<lparr>mb_contacts := cs\<rparr>)))"

definition automation_contacts :: "mail_env \<Rightarrow> mail_batch \<Rightarrow> mail_contact list mail" where
  "automation_contacts env b =
     (let cs = (if mb_account b = 1 \<and> mm_ippool (mb_message b) \<noteq> ''m02_brmailsrv_com''
                then removeMicrosoft (mb_contacts b) else mb_contacts b)
      in prog_then (cleanupContacts env ''duplicated'' (mm_name (mb_message b)) (Some (mb_account b)) cs) (\<lambda>cs. clean_flags env b cs))"

definition deliver_automation :: "mail_env \<Rightarrow> mail_batch \<Rightarrow> mail_result mail" where
  "deliver_automation env b =
     (if mb_contacts b = [] then prog_ret NothingToSend
      else
        prog_then (sendBatch env b) (\<lambda>accepted.
        prog_then (if accepted then saveBatchToRedis env b (time_zone_of b) False else prog_ret ()) (\<lambda>_.
        prog_ret (ProviderAnswer accepted))))"

definition automationBatch :: "mail_env \<Rightarrow> mail_batch \<Rightarrow> mail_result mail" where
  "automationBatch env b =
     prog_then (prog_lift (validateBatch env b)) (\<lambda>_.
     prog_then (automation_contacts env b) (\<lambda>cs. deliver_automation env (b\<lparr>mb_contacts := cs\<rparr>)))"

section \<open>Who is handed to the provider\<close>

definition hands :: "(mail_contact list \<Rightarrow> bool) \<Rightarrow> 'a mail \<Rightarrow> mail_state \<Rightarrow> bool" where
  "hands P m s \<longleftrightarrow> (\<exists>out. ml_log (snd (m s)) = ml_log s @ out \<and> (\<forall>cs. MailSent cs \<in> set out \<longrightarrow> P cs))"

lemma handsD: "hands P m s \<Longrightarrow> ml_log (snd (m s)) = ml_log s @ out \<Longrightarrow> MailSent cs \<in> set out \<Longrightarrow> P cs"
  by (auto simp: hands_def)

lemma hands_same: "ml_log (snd (m s)) = ml_log s \<Longrightarrow> hands P m s"
  by (simp add: hands_def)

lemma hands_then:
  assumes "hands P m s" and "\<And>x t. m s = (Inr x, t) \<Longrightarrow> hands P (f x) t"
  shows "hands P (prog_then m f) s"
proof (cases "m s")
  case (Pair r t)
  with assms(1) obtain out where out: "ml_log t = ml_log s @ out" "\<forall>cs. MailSent cs \<in> set out \<longrightarrow> P cs"
    by (auto simp: hands_def)
  show ?thesis
  proof (cases r)
    case (Inr x)
    with assms(2) Pair obtain out' where "ml_log (snd (f x t)) = ml_log t @ out'" "\<forall>cs. MailSent cs \<in> set out' \<longrightarrow> P cs"
      by (auto simp: hands_def)
    with Pair Inr out show ?thesis by (auto simp: hands_def prog_then_def intro!: exI [of _ "out @ out'"])
  qed (use Pair out in \<open>auto simp: hands_def prog_then_def\<close>)
qed

lemma fold_log: "(\<And>c s. ml_log (f c s) = ml_log s) \<Longrightarrow> ml_log (fold f cs s) = ml_log s"
  by (induction cs arbitrary: s) auto

lemma record_log [simp]: "ml_log (record_contact env b zone limited c s) = ml_log s" "ml_log (count_pool k n ttl s) = ml_log s"
  by (simp_all add: record_contact_def put_def incr_by_def count_pool_def Let_def)

lemma save_log: "ml_log (snd (saveBatchToRedis env b zone limited s)) = ml_log s"
  by (simp add: saveBatchToRedis_def fold_log)

lemma hands_basic: "hands P (prog_ret x) s" "hands P (prog_lift r) s" "hands P (sendTracker env e b) s"
  "hands P (try_save (saveBatchToRedis env b zone limited)) s" "hands P (saveBatchToRedis env b zone limited) s"
  by (auto simp: hands_def prog_defs sendTracker_def try_save_def save_log)

lemma hands_send: "P (mb_contacts b) \<Longrightarrow> hands P (sendBatch env b) s"
  by (simp add: hands_def sendBatch_def)

lemma tracker_redis: "sendTracker env e b s = (Inr (), t) \<Longrightarrow> ml_redis t = ml_redis s"
  by (auto simp: sendTracker_def split: if_splits)

lemma cleanup_Inr:
  "cleanupContacts env category title a cs s = (Inr cs', t) \<longleftrightarrow>
     t = s \<and> (cs = [] \<or> me_reads env) \<and>
     cs' = filter (\<lambda>c. ml_redis s (cleanup_key category a title (ma_email c)) \<noteq> Some (Text ''true'')) cs"
  by (auto simp: cleanupContacts_def)

lemma quantity_Inr:
  "cleanupContactsQuantity env most zone cs s = (Inr cs', t) \<longleftrightarrow>
     t = s \<and> (cs = [] \<or> me_reads env) \<and>
     cs' = filter (\<lambda>c. \<not> limit_reached most (ml_redis s (send_key c (me_date env zone)))) cs"
  by (auto simp: cleanupContactsQuantity_def)

text \<open>The flags of an account.\<close>

definition suppressed :: "mail_state \<Rightarrow> nat \<Rightarrow> string \<Rightarrow> bool" where
  "suppressed s a email \<longleftrightarrow> (\<exists>category \<in> {''disengaged'', ''unsubscribed'', ''blocked''}.
     ml_redis s (show_nat a @ '':'' @ category @ '':'' @ email) = Some (Text ''true''))"

lemma digit_first: "is_digit (hd (show_nat n @ x))"
  using show_nat_digits [of n] show_nat_nonempty [of n] by (cases "show_nat n") auto

lemma account_key: "cleanup_key (account_category a category) i title email = show_nat a @ '':'' @ category @ '':'' @ email"
proof -
  have "is_digit (hd (account_category a category))" by (simp only: account_category_def digit_first)
  then have "account_category a category \<noteq> ''duplicated''" by (auto simp: is_digit_def)
  then show ?thesis by (simp add: cleanup_key_def account_category_def)
qed

lemma flags_Inr:
  "clean_flags env b cs s = (Inr cs', t) \<Longrightarrow> t = s \<and> cs' = filter (\<lambda>c. \<not> suppressed s (mb_account b) (ma_email c)) cs"
  by (auto simp: clean_flags_def Let_def prog_then_Inr cleanup_Inr account_key suppressed_def intro: filter_cong)

lemma microsoft_subset: "set (removeMicrosoft cs) \<subseteq> set cs"
  by (auto simp: removeMicrosoft_def)

lemma campaign_contacts_Inr:
  assumes "campaign_contacts env b s = (Inr cs, t)"
  shows "t = s" and "\<forall>c \<in> set cs. c \<in> set (mb_contacts b) \<and> \<not> suppressed s (mb_account b) (ma_email c)"
  using assms microsoft_subset [of "mb_contacts b"]
  by (auto simp: campaign_contacts_def Let_def prog_Inr cleanup_Inr quantity_Inr dest!: flags_Inr split: if_splits)

lemma automation_contacts_Inr:
  assumes "automation_contacts env b s = (Inr cs, t)"
  shows "t = s" and "\<forall>c \<in> set cs. c \<in> set (mb_contacts b) \<and> \<not> suppressed s (mb_account b) (ma_email c)"
  using assms microsoft_subset [of "mb_contacts b"]
  by (auto simp: automation_contacts_def Let_def prog_Inr cleanup_Inr dest!: flags_Inr split: if_splits)

lemma hands_contacts: "hands P (campaign_contacts env b) s" "hands P (automation_contacts env b) s"
proof -
  have clean: "hands P (cleanupContacts env x title i cs) u" for x title i cs u
    by (rule hands_same) (simp add: cleanupContacts_def)
  have quantity: "hands P (cleanupContactsQuantity env most zone cs) u" for most zone cs u
    by (rule hands_same) (simp add: cleanupContactsQuantity_def)
  have flags: "hands P (clean_flags env b cs) u" for cs u
    unfolding clean_flags_def Let_def by (intro hands_then clean)
  show "hands P (campaign_contacts env b) s"
    unfolding campaign_contacts_def Let_def
    by (intro hands_then) (auto intro: clean flags quantity hands_basic)
  show "hands P (automation_contacts env b) s"
    unfolding automation_contacts_def Let_def by (intro hands_then clean flags)
qed

lemma hands_deliver:
  assumes "P (mb_contacts b)"
  shows "hands P (deliver_campaign env debug b) s" and "hands P (deliver_automation env b) s"
  unfolding deliver_campaign_def deliver_automation_def
  using hands_send [of P, OF assms] by (auto intro!: hands_then simp: hands_basic)

text \<open>C15: a contact that Redis flags as disengaged, unsubscribed or blocked for the account is never
  handed to the provider, neither by a campaign nor by an automation, and nobody is who was not in
  the batch.\<close>

theorem suppressed_never_sent:
  assumes "run = campaignBatch env debug b \<or> run = automationBatch env b"
    and "ml_log (snd (run s)) = ml_log s @ out" and "MailSent cs \<in> set out" and "c \<in> set cs"
  shows "c \<in> set (mb_contacts b) \<and> \<not> suppressed s (mb_account b) (ma_email c)"
proof -
  let ?P = "\<lambda>c. c \<in> set (mb_contacts b) \<and> \<not> suppressed s (mb_account b) (ma_email c)"
  have warm: "mb_contacts (warmup_batch b) = mb_contacts b" "mb_account (warmup_batch b) = mb_account b"
    by (simp_all add: warmup_batch_def split: option.split)
  have "hands (\<lambda>cs. \<forall>c \<in> set cs. ?P c) (campaignBatch env debug b) s"
    unfolding campaignBatch_def
  proof (intro hands_then hands_deliver)
    fix x t cs u
    assume "(if debug then prog_ret () else sendTracker env ''EMAIL_BATCH'' b) s = (Inr x, t)"
      and u: "campaign_contacts env (warmup_batch b) t = (Inr cs, u)"
    then have "ml_redis t = ml_redis s" by (auto simp: prog_ret_def dest: tracker_redis split: if_splits)
    then show "\<forall>c \<in> set (mb_contacts ((warmup_batch b)\<lparr>mb_contacts := cs\<rparr>)). ?P c"
      using campaign_contacts_Inr(2) [OF u] by (simp add: warm suppressed_def)
  qed (auto simp: hands_basic hands_contacts)
  moreover have "hands (\<lambda>cs. \<forall>c \<in> set cs. ?P c) (automationBatch env b) s"
    unfolding automationBatch_def
  proof (intro hands_then hands_deliver)
    fix x t cs u
    assume "prog_lift (validateBatch env b) s = (Inr x, t)" and u: "automation_contacts env b t = (Inr cs, u)"
    then show "\<forall>c \<in> set (mb_contacts (b\<lparr>mb_contacts := cs\<rparr>)). ?P c"
      using automation_contacts_Inr(2) [OF u] by (auto simp: prog_lift_def)
  qed (auto simp: hands_basic hands_contacts)
  ultimately show ?thesis using assms handsD by blast
qed

section \<open>A second batch\<close>

text \<open>The keys a recording writes.\<close>

lemma put_redis [simp]: "ml_redis (put k v ttl s) k' = (if k' = k then Some v else ml_redis s k')"
  by (simp add: put_def)

lemma incr_redis: "k' \<noteq> k \<Longrightarrow> ml_redis (incr_by k n s) k' = ml_redis s k'"
  by (simp add: incr_by_def)

lemma pool_redis: "k' \<noteq> k \<Longrightarrow> ml_redis (count_pool k n ttl s) k' = ml_redis s k'"
  by (simp add: count_pool_def Let_def incr_by_def)

lemma fold_redis: "(\<And>c s. c \<in> set cs \<Longrightarrow> ml_redis (f c s) k = ml_redis s k) \<Longrightarrow> ml_redis (fold f cs s) k = ml_redis s k"
  by (induction cs arbitrary: s) auto

lemma head_differs: "x \<noteq> [] \<Longrightarrow> y \<noteq> [] \<Longrightarrow> hd x \<noteq> hd y \<Longrightarrow> x \<noteq> y"
  by auto

lemma save_other:
  assumes "\<forall>c \<in> set (mb_contacts b). k \<noteq> show_nat (mb_account b) @ '':'' @ ma_email c @ '':'' @ slugify (mm_name (mb_message b))"
    and "k \<noteq> []" and "hd k \<noteq> CHR ''c''" and "hd k \<noteq> CHR ''p''"
  shows "ml_redis (snd (saveBatchToRedis env b zone limited s)) k = ml_redis s k"
proof -
  have "k \<noteq> send_key c d" "k \<noteq> hourly_key env b" "k \<noteq> daily_key env b zone" for c d
    using assms(3,4) by (auto simp: send_key_def hourly_key_def daily_key_def)
  then show ?thesis
    using assms(1) by (auto simp: saveBatchToRedis_def pool_redis record_contact_def Let_def incr_redis intro!: fold_redis)
qed

text \<open>Addresses have an at sign and no colon.\<close>

definition plain_email :: "string \<Rightarrow> bool" where
  "plain_email e \<longleftrightarrow> CHR ''@'' \<in> set e \<and> CHR '':'' \<notin> set e"

lemma before_colon: "CHR '':'' \<notin> set x \<Longrightarrow> takeWhile (\<lambda>c. c \<noteq> CHR '':'') (x @ CHR '':'' # y) = x"
  by (induction x) auto

lemma flag_key_apart:
  assumes "plain_email e" and "CHR ''@'' \<notin> set category" and "CHR '':'' \<notin> set category"
  shows "show_nat a @ '':'' @ category @ '':'' @ e' \<noteq> show_nat a @ '':'' @ e @ '':'' @ title"
proof
  assume "show_nat a @ '':'' @ category @ '':'' @ e' = show_nat a @ '':'' @ e @ '':'' @ title"
  then have "category @ CHR '':'' # e' = e @ CHR '':'' # title" by simp
  then have "category = e" using before_colon [OF assms(3)] before_colon [of e] assms(1) by (metis plain_email_def)
  with assms(1,2) show False by (simp add: plain_email_def)
qed

definition same_answers :: "mail_batch \<Rightarrow> mail_state \<Rightarrow> mail_state \<Rightarrow> bool" where
  "same_answers b s t \<longleftrightarrow> (\<forall>e. suppressed t (mb_account b) e = suppressed s (mb_account b) e \<and>
     ml_redis t (cleanup_key ''duplicated'' None (mm_name (mb_message b)) e) = ml_redis s (cleanup_key ''duplicated'' None (mm_name (mb_message b)) e))"

lemma cleanup_reads:
  "me_reads env \<Longrightarrow> cleanupContacts env category title i cs s =
     (Inr (filter (\<lambda>c. ml_redis s (cleanup_key category i title (ma_email c)) \<noteq> Some (Text ''true'')) cs), s)"
  by (simp add: cleanupContacts_def)

lemma clean_flags_reads:
  "me_reads env \<Longrightarrow> clean_flags env b cs s = (Inr (filter (\<lambda>c. \<not> suppressed s (mb_account b) (ma_email c)) cs), s)"
  by (simp add: clean_flags_def Let_def prog_then_def cleanup_reads account_key suppressed_def del: append.simps cong: filter_cong)

lemma campaign_contacts_reads:
  assumes "me_reads env" and "\<not> mb_isWarmup b" and "send_limit b = []" and "same_answers b s t"
  shows "fst (campaign_contacts env b t) = fst (campaign_contacts env b s)" and "snd (campaign_contacts env b t) = t"
  using assms
  by (simp_all add: campaign_contacts_def Let_def prog_then_def prog_ret_def cleanup_reads clean_flags_reads same_answers_def)

lemma contacts_read:
  assumes "campaign_contacts env b s = (Inr cs, t)" and "cs \<noteq> []"
  shows "me_reads env"
proof (rule ccontr)
  assume "\<not> me_reads env"
  then have flags: "clean_flags env b xs u = (Inr ys, v) \<Longrightarrow> xs = [] \<and> ys = []" for xs ys u v
    by (auto simp: clean_flags_def Let_def prog_then_Inr cleanup_Inr)
  from assms(1) obtain xs u v ys where f: "clean_flags env b xs u = (Inr ys, v)" and "set cs \<subseteq> set ys"
    by (fastforce simp: campaign_contacts_def Let_def prog_Inr quantity_Inr split: if_splits)
  with flags [OF f] assms(2) show False by auto
qed

lemma saved_same:
  assumes "\<forall>c \<in> set (mb_contacts b). plain_email (ma_email c)"
  shows "same_answers b s (snd (saveBatchToRedis env b zone limited s))"
proof -
  have flag: "ml_redis (snd (saveBatchToRedis env b zone limited s)) (show_nat (mb_account b) @ '':'' @ category @ '':'' @ e) =
      ml_redis s (show_nat (mb_account b) @ '':'' @ category @ '':'' @ e)"
    if "category \<in> {''disengaged'', ''unsubscribed'', ''blocked''}" for category e
  proof (rule save_other)
    show "\<forall>c \<in> set (mb_contacts b). show_nat (mb_account b) @ '':'' @ category @ '':'' @ e \<noteq>
        show_nat (mb_account b) @ '':'' @ ma_email c @ '':'' @ slugify (mm_name (mb_message b))"
      using assms that by (intro ballI flag_key_apart) auto
    have "is_digit (hd (show_nat (mb_account b) @ '':'' @ category @ '':'' @ e))" by (rule digit_first)
    then show "hd (show_nat (mb_account b) @ '':'' @ category @ '':'' @ e) \<noteq> CHR ''c''"
      "hd (show_nat (mb_account b) @ '':'' @ category @ '':'' @ e) \<noteq> CHR ''p''" by (auto simp: is_digit_def)
  qed simp
  have dup: "ml_redis (snd (saveBatchToRedis env b zone limited s)) (cleanup_key ''duplicated'' None (mm_name (mb_message b)) e) =
      ml_redis s (cleanup_key ''duplicated'' None (mm_name (mb_message b)) e)" for e
  proof (rule save_other)
    show "\<forall>c \<in> set (mb_contacts b). cleanup_key ''duplicated'' None (mm_name (mb_message b)) e \<noteq>
        show_nat (mb_account b) @ '':'' @ ma_email c @ '':'' @ slugify (mm_name (mb_message b))"
    proof
      fix c
      have "is_digit (hd (show_nat (mb_account b) @ '':'' @ ma_email c @ '':'' @ slugify (mm_name (mb_message b))))" by (rule digit_first)
      moreover have "\<not> is_digit (hd (cleanup_key ''duplicated'' None (mm_name (mb_message b)) e))"
        by (simp add: cleanup_key_def is_digit_def)
      ultimately show "cleanup_key ''duplicated'' None (mm_name (mb_message b)) e \<noteq>
        show_nat (mb_account b) @ '':'' @ ma_email c @ '':'' @ slugify (mm_name (mb_message b))" by metis
    qed
  qed (simp_all add: cleanup_key_def)
  have "suppressed (snd (saveBatchToRedis env b zone limited s)) (mb_account b) e = suppressed s (mb_account b) e" for e
    unfolding suppressed_def by (rule bex_cong [OF refl]) (simp only: flag)
  with dup show ?thesis by (simp add: same_answers_def)
qed

text \<open>A delivery that the provider accepts, from any state.\<close>

definition accepts_batch :: "mail_env \<Rightarrow> bool \<Rightarrow> mail_batch \<Rightarrow> bool" where
  "accepts_batch env debug b \<longleftrightarrow> mb_contacts b \<noteq> [] \<and> validateCampaignBatch env b = Inr () \<and>
     me_provider env (mb_contacts b) = Inr True \<and> (\<not> debug \<and> mb_warmupMode b = None \<longrightarrow> me_publishes env)"

definition recorded :: "mail_env \<Rightarrow> mail_batch \<Rightarrow> mail_state \<Rightarrow> mail_state" where
  "recorded env b s = snd (saveBatchToRedis env b (time_zone_of b) (send_limit b \<noteq> []) (snd (sendBatch env b s)))"

lemma recorded_log: "ml_log (recorded env b s) = ml_log s @ [MailSent (mb_contacts b)]"
  by (simp add: recorded_def save_log sendBatch_def)

lemma deliver_accepted:
  "deliver_campaign env debug b s = (Inr (ProviderAnswer True), t) \<longleftrightarrow> accepts_batch env debug b \<and>
     (if \<not> debug \<and> mb_warmupMode b = None then sendTracker env ''SENT_EMAIL_BATCH'' b else prog_ret ()) (recorded env b s) = (Inr (), t)"
proof (cases "me_provider env (mb_contacts b) = Inr True \<and> validateCampaignBatch env b = Inr ()")
  case True
  then show ?thesis
    by (auto simp: deliver_campaign_def accepts_batch_def recorded_def prog_Inr sendBatch_def try_save_def
        sendTracker_def [of env "''SENT_EMAIL_BATCH''" b] split: if_splits)
next
  case False
  then show ?thesis
    by (auto simp: deliver_campaign_def accepts_batch_def prog_Inr sendBatch_def)
qed

lemma tracked:
  "(if P then sendTracker env e b else prog_ret ()) s = (Inr (), t) \<Longrightarrow> ml_redis t = ml_redis s \<and> (\<exists>out. ml_log t = ml_log s @ out)"
  by (auto simp: sendTracker_def prog_ret_def split: if_splits)

lemma tracks_again:
  "(if P then sendTracker env e b else prog_ret ()) s = (Inr (), t) \<Longrightarrow> \<exists>u. (if P then sendTracker env e b else prog_ret ()) x = (Inr (), u)"
  by (auto simp: sendTracker_def prog_ret_def split: if_splits)

lemma same_answers_cong: "ml_redis s' = ml_redis s \<Longrightarrow> ml_redis t' = ml_redis t \<Longrightarrow> same_answers b s t \<Longrightarrow> same_answers b s' t'"
  by (simp add: same_answers_def suppressed_def)

text \<open>Result: a campaign batch that the provider has accepted goes out a second time to the same contacts
  when it is delivered again: the key that is written names the account, the key that is read does
  not.\<close>

theorem campaign_batch_sent_again:
  assumes "campaignBatch env debug b s = (Inr (ProviderAnswer True), t)"
    and "\<not> mb_isWarmup b" and "send_limit b = []" and "\<forall>c \<in> set (mb_contacts b). plain_email (ma_email c)"
  shows "\<exists>cs u out out'. cs \<noteq> [] \<and> ml_log t = ml_log s @ out \<and> MailSent cs \<in> set out \<and>
    campaignBatch env debug b t = (Inr (ProviderAnswer True), u) \<and> ml_log u = ml_log t @ out' \<and> MailSent cs \<in> set out'"
proof -
  define w where "w = warmup_batch b"
  have w: "mb_contacts w = mb_contacts b" "mb_isWarmup w = mb_isWarmup b" "send_limit w = send_limit b"
    by (simp_all add: w_def warmup_batch_def send_limit_def split: option.split)
  let ?first = "if \<not> debug then sendTracker env ''EMAIL_BATCH'' b else prog_ret ()"
  have run: "campaignBatch env debug b = prog_then ?first (\<lambda>_. prog_then (campaign_contacts env w) (\<lambda>cs.
      deliver_campaign env debug (w\<lparr>mb_contacts := cs\<rparr>)))"
    by (simp add: campaignBatch_def w_def)
  from assms(1) obtain v cs v' where v: "?first s = (Inr (), v)" and cs: "campaign_contacts env w v = (Inr cs, v')"
    and d: "deliver_campaign env debug (w\<lparr>mb_contacts := cs\<rparr>) v' = (Inr (ProviderAnswer True), t)"
    unfolding run prog_then_Inr by auto
  let ?b = "w\<lparr>mb_contacts := cs\<rparr>"
  let ?last = "if \<not> debug \<and> mb_warmupMode ?b = None then sendTracker env ''SENT_EMAIL_BATCH'' ?b else prog_ret ()"
  have "v' = v" using campaign_contacts_Inr(1) [OF cs] by simp
  with d have ok: "accepts_batch env debug ?b" and t: "?last (recorded env ?b v) = (Inr (), t)"
    unfolding deliver_accepted by auto
  have some: "cs \<noteq> []" using ok by (simp add: accepts_batch_def)
  have "\<forall>c \<in> set (mb_contacts ?b). plain_email (ma_email c)"
    using campaign_contacts_Inr(2) [OF cs] assms(4) w(1) by auto
  from saved_same [OF this] have "same_answers ?b (snd (sendBatch env ?b v)) (recorded env ?b v)"
    unfolding recorded_def .
  then have same: "same_answers w v t"
    using tracked [OF t] by (simp add: same_answers_def suppressed_def sendBatch_def)
  obtain x where x: "?first t = (Inr (), x)" using tracks_again [OF v] by blast
  from same have "same_answers w v x" using tracked [OF x] by (simp add: same_answers_def suppressed_def)
  from campaign_contacts_reads [OF contacts_read [OF cs some] _ _ this] have "campaign_contacts env w x = (Inr cs, x)"
    using assms(2,3) w cs by (simp add: prod_eq_iff)
  moreover obtain u where u: "?last (recorded env ?b x) = (Inr (), u)" using tracks_again [OF t] by blast
  moreover from u ok have "deliver_campaign env debug ?b x = (Inr (ProviderAnswer True), u)" by (simp add: deliver_accepted)
  ultimately have "campaignBatch env debug b t = (Inr (ProviderAnswer True), u)"
    unfolding run prog_then_Inr using x by blast
  moreover obtain o1 o2 o3 o4 where "ml_log v = ml_log s @ o1" "ml_log t = ml_log (recorded env ?b v) @ o2"
      "ml_log x = ml_log t @ o3" "ml_log u = ml_log (recorded env ?b x) @ o4"
    using tracked [OF v] tracked [OF t] tracked [OF x] tracked [OF u] by blast
  then have "ml_log t = ml_log s @ o1 @ [MailSent cs] @ o2" "ml_log u = ml_log t @ o3 @ [MailSent cs] @ o4"
    by (simp_all add: recorded_log)
  moreover note some
  ultimately show ?thesis
    by (intro exI [of _ cs] exI [of _ u] exI [of _ "o1 @ [MailSent cs] @ o2"] exI [of _ "o3 @ [MailSent cs] @ o4"]) simp
qed

section \<open>The counters of a pool\<close>

text \<open>Batches recorded one after another, each with the clock and the settings of its moment.\<close>

fun record_batches :: "(mail_env \<times> mail_batch \<times> string \<times> bool) list \<Rightarrow> mail_state \<Rightarrow> mail_state" where
  "record_batches [] s = s"
| "record_batches ((env, b, zone, limited) # rs) s = record_batches rs (snd (saveBatchToRedis env b zone limited s))"

definition counting :: "string \<Rightarrow> mail_state \<Rightarrow> bool" where
  "counting k s \<longleftrightarrow> ml_ttl s k = None \<and> (\<exists>n \<ge> 2. ml_redis s k = Some (Count n))"

lemma record_other:
  assumes "hd k = CHR ''p''" and "k \<noteq> []"
  shows "ml_redis (record_contact env b zone limited c s) k = ml_redis s k" and "ml_ttl (record_contact env b zone limited c s) k = ml_ttl s k"
proof -
  let ?mark = "show_nat (mb_account b) @ '':'' @ ma_email c @ '':'' @ slugify (mm_name (mb_message b))"
  have "is_digit (hd ?mark)" by (rule digit_first)
  then have "k \<noteq> ?mark" using assms by (auto simp: is_digit_def)
  moreover have "k \<noteq> send_key c (me_date env zone)" using assms by (auto simp: send_key_def)
  ultimately show "ml_redis (record_contact env b zone limited c s) k = ml_redis s k" "ml_ttl (record_contact env b zone limited c s) k = ml_ttl s k"
    by (simp_all add: record_contact_def put_def incr_by_def Let_def)
qed

lemma records_other:
  assumes "hd k = CHR ''p''" and "k \<noteq> []"
  shows "ml_redis (fold (record_contact env b zone limited) cs s) k = ml_redis s k \<and> ml_ttl (fold (record_contact env b zone limited) cs s) k = ml_ttl s k"
  by (induction cs arbitrary: s) (simp_all add: record_other [OF assms])

lemma counting_pool: "counting k s \<Longrightarrow> counting k (count_pool k' n ttl s)"
  by (auto simp: counting_def count_pool_def incr_by_def Let_def)

lemma counting_save:
  assumes "hd k = CHR ''p''" and "k \<noteq> []" and "counting k s"
  shows "counting k (snd (saveBatchToRedis env b zone limited s))"
proof -
  have "counting k (fold (record_contact env b zone limited) (mb_contacts b) s)"
    using assms(3) records_other [OF assms(1,2)] by (simp add: counting_def)
  then show ?thesis by (simp add: saveBatchToRedis_def counting_pool assms(3))
qed

lemma counting_records: "hd k = CHR ''p'' \<Longrightarrow> k \<noteq> [] \<Longrightarrow> counting k s \<Longrightarrow> counting k (record_batches rs s)"
  by (induction rs s rule: record_batches.induct) (simp_all add: counting_save)

text \<open>Result: when the first batch recorded for a pool in an hour has two contacts or more, the hourly
  counter of the pool never gets a lifetime, whatever is recorded later (the key does not name the
  day, so the next days count on it).\<close>

theorem pool_counter_never_expires:
  assumes "me_writes env" and "2 \<le> length (mb_contacts b)" and "ml_redis s (hourly_key env b) = None" and "ml_ttl s (hourly_key env b) = None"
  shows "ml_ttl (record_batches ((env, b, zone, limited) # rs) s) (hourly_key env b) = None"
proof -
  let ?k = "hourly_key env b"
  have k: "hd ?k = CHR ''p''" "?k \<noteq> []" by (simp_all add: hourly_key_def)
  have "counting ?k (count_pool ?k (length (mb_contacts b)) 7200 (fold (record_contact env b zone limited) (mb_contacts b) s))"
    using assms(2-4) records_other [OF k] by (auto simp: counting_def count_pool_def incr_by_def Let_def)
  then have "counting ?k (snd (saveBatchToRedis env b zone limited s))"
    using assms(1) by (simp add: saveBatchToRedis_def counting_pool)
  from counting_records [OF k this] show ?thesis by (simp add: counting_def)
qed

section \<open>Examples\<close>

definition demo_mail_env :: mail_env where
  "demo_mail_env = \<lparr>me_reads = True, me_writes = True, me_publishes = True, me_limit = Some 9, me_provider = (\<lambda>_. Inr True),
     me_date = (\<lambda>_. ''2026-01-01''), me_toNextDay = (\<lambda>_. 9), me_hour = ''14''\<rparr>"

definition demo_mail :: mail_batch where
  "demo_mail = \<lparr>mb_account = 2, mb_configs = [], mb_campaignId = 7, mb_warmupMode = None, mb_isWarmup = False, mb_isRateLimit = False,
     mb_message = \<lparr>mm_name = ''n'', mm_subject = ''s'', mm_from = ''f'', mm_content = ''c'', mm_fileName = [], mm_bucketName = [],
       mm_ippool = ''x''\<rparr>,
     mb_contacts = [\<lparr>ma_id = 1, ma_email = ''a@b''\<rparr>, \<lparr>ma_id = 2, ma_email = ''c@d''\<rparr>]\<rparr>"

definition demo_mail_state :: mail_state where
  "demo_mail_state = \<lparr>ml_redis = [''2:blocked:c@d'' \<mapsto> Text ''true''], ml_ttl = Map.empty, ml_log = []\<rparr>"

lemma demo_account: "show_nat 2 = ''2''"
  by code_simp

lemma demo_campaign_run:
  "fst (campaignBatch demo_mail_env False demo_mail demo_mail_state) = Inr (ProviderAnswer True)"
  "ml_log (snd (campaignBatch demo_mail_env False demo_mail demo_mail_state)) =
     [MailTracker ''EMAIL_BATCH'' 7 2, MailSent [\<lparr>ma_id = 1, ma_email = ''a@b''\<rparr>], MailTracker ''SENT_EMAIL_BATCH'' 7 1]"
  by (simp_all add: campaignBatch_def campaign_contacts_def clean_flags_def cleanupContacts_def cleanup_key_def account_category_def
      deliver_campaign_def validateCampaignBatch_def validateBatch_def sendBatch_def sendTracker_def warmup_batch_def
      send_limit_def try_save_def save_log prog_defs Let_def demo_mail_env_def demo_mail_def demo_mail_state_def demo_account)

theorem suppressed_never_sent_witness:
  "\<lparr>ma_id = 1, ma_email = ''a@b''\<rparr> \<in> set (mb_contacts demo_mail) \<and> \<not> suppressed demo_mail_state (mb_account demo_mail) ''a@b''"
proof -
  have "ml_log (snd (campaignBatch demo_mail_env False demo_mail demo_mail_state)) = ml_log demo_mail_state @
      [MailTracker ''EMAIL_BATCH'' 7 2, MailSent [\<lparr>ma_id = 1, ma_email = ''a@b''\<rparr>], MailTracker ''SENT_EMAIL_BATCH'' 7 1]"
    unfolding demo_campaign_run by (simp add: demo_mail_state_def)
  from suppressed_never_sent [OF disjI1 [OF refl] this, of "[\<lparr>ma_id = 1, ma_email = ''a@b''\<rparr>]" "\<lparr>ma_id = 1, ma_email = ''a@b''\<rparr>"]
  show ?thesis by simp
qed

theorem campaign_batch_sent_again_witness:
  "\<exists>cs u out out'. cs \<noteq> [] \<and>
    ml_log (snd (campaignBatch demo_mail_env False demo_mail demo_mail_state)) = ml_log demo_mail_state @ out \<and> MailSent cs \<in> set out \<and>
    campaignBatch demo_mail_env False demo_mail (snd (campaignBatch demo_mail_env False demo_mail demo_mail_state)) = (Inr (ProviderAnswer True), u) \<and>
    ml_log u = ml_log (snd (campaignBatch demo_mail_env False demo_mail demo_mail_state)) @ out' \<and> MailSent cs \<in> set out'"
  by (rule campaign_batch_sent_again)
    (simp_all add: prod_eq_iff demo_campaign_run, simp_all add: demo_mail_def send_limit_def plain_email_def)

theorem pool_counter_never_expires_witness:
  "ml_ttl (record_batches [(demo_mail_env, demo_mail, ''UTC'', False), (demo_mail_env\<lparr>me_date := \<lambda>_. ''2026-01-02''\<rparr>, demo_mail, ''UTC'', False)]
     demo_mail_state) (hourly_key demo_mail_env demo_mail) = None"
  by (rule pool_counter_never_expires) (simp_all add: demo_mail_env_def demo_mail_def demo_mail_state_def hourly_key_def)

end
