(* ===== verification/EventFormat.thy ===== *)
theory EventFormat
  imports JsValue
begin

text \<open>
  The helpers of event-process: the classification of clicks
  (\<open>src/apps/event-process/src/utils/bot-detector.ts\<close>), the formatter
  (\<open>utils/formatter.utils.ts\<close>: categories, event names, mailbox providers, the check of email
  opens, time stamps, cleaning of objects) and the bounded caches (\<open>msgops/cache.service.ts\<close>).
  Time stamps are whole milliseconds or seconds, below \<open>10 ^ 21\<close> as \<open>Date\<close> demands;
  the calendar of \<open>Intl.DateTimeFormat\<close> is a parameter.
\<close>

section \<open>Clicks of programs\<close>

datatype bot_class =
    Gmail_prefetch
  | Outlook_prefetch
  | Yahoo_prefetch
  | Script_ua
  | Datacenter

record traits =
  t_asn :: "nat option"
  t_asnOrg :: "string option"
  t_userType :: "string option"

record bot_signals =
  isBot :: bool
  isDatacenter :: bool
  classification :: "bot_class option"
  sig_asn :: nat
  sig_asnOrg :: string
  sig_userType :: string

definition MAIL_SCANNER_ASNS :: "(nat \<times> bot_class) list" where
  "MAIL_SCANNER_ASNS =
     [(15169, Gmail_prefetch), (8075, Outlook_prefetch), (7233, Yahoo_prefetch), (36646, Yahoo_prefetch),
      (36647, Yahoo_prefetch), (10310, Yahoo_prefetch)]"

definition SCRIPT_UA_SUBSTRINGS :: "string list" where
  "SCRIPT_UA_SUBSTRINGS =
     [''Shop Service'', ''shop.app'', ''Microsoft Office'', ''Mailchimp'', ''Mandrill'',
      ''YahooMailProxy'', ''curl/'', ''Wget/'', ''python-requests/'', ''python-urllib'',
      ''aiohttp/'', ''httpx/'', ''Go-http-client/'', ''Java/'', ''okhttp/'', ''node-fetch'',
      ''axios/'', ''got (https://github.com/sindresorhus/got)'', ''libwww-perl/'',
      ''PostmanRuntime/'', ''HeadlessChrome'', ''PhantomJS'', ''Selenium'', ''Playwright'',
      ''Puppeteer'', ''Googlebot'', ''AdsBot-Google'', ''Bingbot'', ''Slurp'', ''DuckDuckBot'',
      ''Baiduspider'', ''YandexBot'', ''Applebot'', ''facebookexternalhit'', ''Twitterbot'',
      ''LinkedInBot'', ''WhatsApp'']"

text \<open>The pattern \<open>/bot\b/i\<close>: the word boundary after a letter is the end or a character that is
  no word character.\<close>

definition word_char :: "char \<Rightarrow> bool" where
  "word_char c \<longleftrightarrow> is_digit c \<or> c = CHR ''_'' \<or> (let n = (of_char c :: nat) in 65 \<le> n \<and> n \<le> 90 \<or> 97 \<le> n \<and> n \<le> 122)"

definition ascii_lower :: "char \<Rightarrow> char" where
  "ascii_lower c = (let n = (of_char c :: nat) in if 65 \<le> n \<and> n \<le> 90 then char_of (n + 32) else c)"

fun BOT_WORD :: "string \<Rightarrow> bool" where
  "BOT_WORD [] = False"
| "BOT_WORD (c # cs) =
     (map ascii_lower (take 3 (c # cs)) = ''bot'' \<and> (drop 2 cs = [] \<or> \<not> word_char (hd (drop 2 cs)))
      \<or> BOT_WORD cs)"

definition isScriptUserAgent :: "string option \<Rightarrow> bool" where
  "isScriptUserAgent ua = (case ua of
     None \<Rightarrow> False
   | Some u \<Rightarrow> u \<noteq> '''' \<and> (list_ex (str_includes u) SCRIPT_UA_SUBSTRINGS \<or> BOT_WORD u))"

definition classify :: "traits option \<Rightarrow> string option \<Rightarrow> bot_signals" where
  "classify traits userAgent =
     (let asn = (case Option.bind traits t_asn of None \<Rightarrow> 0 | Some n \<Rightarrow> n);
          asnOrg = (case Option.bind traits t_asnOrg of None \<Rightarrow> '''' | Some s \<Rightarrow> s);
          userType = (case Option.bind traits t_userType of None \<Rightarrow> '''' | Some s \<Rightarrow> s);
          datacenter = (userType = ''hosting'');
          scannerMatch = map_of MAIL_SCANNER_ASNS asn;
          uaScriptMatch = (datacenter \<and> isScriptUserAgent userAgent);
          bot = (datacenter \<and> (scannerMatch \<noteq> None \<or> uaScriptMatch))
      in \<lparr>isBot = bot, isDatacenter = datacenter,
          classification = (case scannerMatch of
             Some c \<Rightarrow> Some c
           | None \<Rightarrow> if uaScriptMatch then Some Script_ua else if datacenter then Some Datacenter else None),
          sig_asn = asn, sig_asnOrg = asnOrg, sig_userType = userType\<rparr>)"

section \<open>Categories, event names, mailbox providers\<close>

text \<open>The categories of a message are texts \<open><name>_<value>\<close>; the first with the name counts.\<close>

fun parseEventType_event :: "string list \<Rightarrow> string \<Rightarrow> string option" where
  "parseEventType_event [] eventType = None"
| "parseEventType_event (category # rest) eventType =
     (if starts_with (eventType @ ''_'') category
      then (let content = drop (length eventType + 1) category
            in if content = ''undefined'' then None else Some content)
      else parseEventType_event rest eventType)"

definition normalizeEvents :: "string \<Rightarrow> string" where
  "normalizeEvents eventType =
     (if eventType = ''out_of_band'' then ''bounce''
      else if eventType = ''delivery'' then ''delivered''
      else if eventType = ''initial_open'' then ''open''
      else if eventType \<in> {''list_unsubscribe'', ''group_unsubscribe''} then ''unsubscribe''
      else if eventType = ''spam_complaint'' then ''spamreport''
      else eventType)"

text \<open>An address without \<open>@\<close> has no domain: \<open>includes\<close> of undefined throws.\<close>

definition getMailBoxProvider_event :: "string \<Rightarrow> string + string" where
  "getMailBoxProvider_event email = (case split_on (CHR ''@'') (to_lower email) of
     _ # domain # _ \<Rightarrow> Inr
       (if domain \<in> {''gmail.com'', ''googlemail.com'', ''google.com''} then ''Gmail''
        else if str_includes domain ''yahoo'' then ''Yahoo''
        else if list_ex (str_includes domain)
                  [''hotmail.com'', ''outlook.com'', ''live.com'', ''msn.com'', ''passport.com''] then ''Microsoft''
        else if domain \<in> {''icloud.com'', ''me.com'', ''mac.com''} then ''iCloud''
        else ''Other'')
   | _ \<Rightarrow> Inl ''Cannot read properties of undefined (reading includes)'')"

section \<open>Opens of mail\<close>

definition knownBotAgents :: "string list" where
  "knownBotAgents =
     [''HubSpot Connect'',
      ''Mozilla/5.0 (Windows NT 10.0; Win64; x64) AppleWebKit/537.36 (KHTML, like Gecko) Chrome/42.0.2311.135 Safari/537.36 Edge/12.246 Mozilla/5.0'',
      ''AHC/2.1'', ''Amazon CloudFront'', ''Barracuda Sentinel (EE)'',
      ''python-requests/2.26.0'', ''Python/3.9 aiohttp/3.8.1'',
      ''lua-resty-http/0.07 (Lua) ngx_lua/10012'', ''lua-resty-http/0.10 (Lua) ngx_lua/10019'',
      ''okhttp/4.10.0'', ''python-requests/2.27.1'', ''python-requests/2.28.0'',
      ''lua-resty-http/0.07 (Lua) ngx_lua/10024'', ''cortex/1.0'',
      ''Aloha/1 CFNetwork/1404.0.5 Darwin/22.3.0'',
      ''Dalvik/2.1.0 (Linux; U; Android 8.0.0; SM-G930V Build/R16NW)'', ''Java/17.0.2'',
      ''macOS/13.4 (22F66) dataaccessd/1.0'',
      ''Snap URL Preview Service; bot; snapchat; https://developers.snap.com/robots'',
      ''iOS/16.5.1 (20F75) dataaccessd/1.0'',
      ''Dalvik/2.1.0 (Linux; U; Android 8.1.0; SM-J327V Build/M1AJQ)'',
      ''W3C-checklink/4.5 [4.160] libwww-perl/5.823'',
      ''yarn/1.22.4 npm/? node/v16.20.0 linux x64'',
      ''Microsoft Office/16.0 (Windows NT 10.0; Microsoft Outlook 16.0.14931; Pro)'',
      ''Microsoft Office/16.0 (Windows NT 10.0; Microsoft Outlook 16.0.16327; Pro)'',
      ''Social News Desk RSS Scraper'', ''iOS/16.3.1 (20D67) dataaccessd/1.0'',
      ''facebookexternalua'', ''Jetty/9.4.42.v20210604'',
      ''Microsoft Exchange/15.20 (Windows NT 10.0; Win64; x64)'',
      ''Dalvik/2.1.0 (Linux; U; Android 8.1.0; LM-Q710(FGN) Build/OPM1.171019.019)'',
      ''iOS/15.7 (19H12) dataaccessd/1.0'', ''Wget/1.9.1'', ''Office 365 Connectors'',
      ''Java/1.8.0_265'', ''iOS/15.7.6 (19H349) dataaccessd/1.0'',
      ''iOS/16.5 (20F66) dataaccessd/1.0'',
      ''Dalvik/2.1.0 (Linux; U; Android 12; SM-G970U Build/SP1A.210812.016)'',
      ''Slackbot-LinkExpanding 1.0 (+https://api.slack.com/robots)'',
      ''Microsoft Office/16.0 (Windows NT 10.0; Microsoft Outlook 16.0.16227; Pro)'',
      ''python-requests/2.28.2'', ''SCMGUARD'', ''Apache-HttpClient/4.5.1 (Java/1.8.0_172)'',
      ''FeedBurner/1.0 (http://www.FeedBurner.com)'']"

definition validEmailProxies :: "string list" where
  "validEmailProxies = [''GoogleImageProxy'', ''YahooMailProxy'', ''OutlookImageProxy'']"

definition browserIdentifiers :: "string list" where
  "browserIdentifiers = [''Chrome/'', ''Firefox/'', ''Safari/'', ''Edge/'', ''Opera/'']"

definition hasUnusualBrowserCombination :: "string \<Rightarrow> bool" where
  "hasUnusualBrowserCombination userAgent =
     (let lowerUserAgent = to_lower userAgent;
          browserCount = length (filter (\<lambda>i. str_includes lowerUserAgent (to_lower i)) browserIdentifiers)
      in if browserCount > 1
         then \<not> (str_includes lowerUserAgent ''chrome/'' \<and> str_includes lowerUserAgent ''safari/'')
         else False)"

definition isLikelyBrowser :: "string \<Rightarrow> bool" where
  "isLikelyBrowser userAgent =
     (let lowerUserAgent = to_lower userAgent in
      if list_ex (str_includes lowerUserAgent) [''iphone'', ''android'', ''ipad'', ''mobile''] then True
      else (str_includes lowerUserAgent ''mozilla/5.0'' \<or> str_includes lowerUserAgent ''mozilla/4.0'')
         \<and> list_ex (str_includes lowerUserAgent)
             [''chrome/'', ''firefox/'', ''safari/'', ''edge/'', ''msie'', ''trident/''])"

definition isValidEmailOpen :: "string option \<Rightarrow> bool" where
  "isValidEmailOpen userAgent = (case userAgent of
     None \<Rightarrow> False
   | Some ua \<Rightarrow>
       if js_trim ua = '''' then False
       else if ua \<in> set knownBotAgents then False
       else if to_lower (js_trim ua) = ''mozilla/5.0'' then True
       else if list_ex (\<lambda>proxy. str_includes (to_lower ua) (to_lower proxy)) validEmailProxies then True
       else if hasUnusualBrowserCombination ua then False
       else if isLikelyBrowser ua then True
       else True)"

section \<open>Time stamps\<close>

definition normalizeTimestamp :: "int \<Rightarrow> int" where
  "normalizeTimestamp timestamp =
     (let timestampString = show_nat (nat \<bar>timestamp\<bar>)
      in if length timestampString \<le> 10 then timestamp * 1000 else timestamp)"

definition getMinAllowableTimestamp :: "int \<Rightarrow> int" where
  "getMinAllowableTimestamp now = now - 12 * 60 * 60 * 1000"

definition effectiveTimestamp :: "int \<Rightarrow> int \<Rightarrow> int" where
  "effectiveTimestamp now timestamp =
     (let normalizedTimestamp = normalizeTimestamp timestamp;
          isTimestampValid = (getMinAllowableTimestamp now \<le> normalizedTimestamp \<and> normalizedTimestamp \<le> now)
      in if isTimestampValid then normalizedTimestamp else now)"

text \<open>The calendar: date and hour of a time in a zone, or the error text for a zone it does not
  know.\<close>

type_synonym calendar = "string \<Rightarrow> int \<Rightarrow> string + (string \<times> string)"

definition convertTimestampToTimezone ::
  "calendar \<Rightarrow> int \<Rightarrow> int \<Rightarrow> string \<Rightarrow> bool \<Rightarrow> string + string" where
  "convertTimestampToTimezone cal now timestamp timezone returnHour =
     (let t = effectiveTimestamp now timestamp in
      case cal timezone t of
        Inl e \<Rightarrow>
          if str_includes e ''Invalid time zone specified''
          then map_sum id (if returnHour then snd else fst) (cal ''UTC'' t) else Inl e
      | Inr (date, hour) \<Rightarrow> Inr (if returnHour then hour else date))"

section \<open>Objects\<close>

definition is_primitive :: "jsval \<Rightarrow> bool" where
  "is_primitive v = (case v of JNull \<Rightarrow> True | JStr _ \<Rightarrow> True | JNum _ \<Rightarrow> True | JBool _ \<Rightarrow> True | _ \<Rightarrow> False)"

definition isSimpleObject :: "jsval \<Rightarrow> bool" where
  "isSimpleObject v = (case v of JObj kvs \<Rightarrow> list_all (\<lambda>(k, x). is_primitive x) kvs | _ \<Rightarrow> False)"

definition has_content :: "jsval \<Rightarrow> bool" where
  "has_content v = (case v of JNull \<Rightarrow> False | JUndefined \<Rightarrow> False | JStr s \<Rightarrow> js_trim s \<noteq> '''' | _ \<Rightarrow> True)"

definition root_value :: "jsval \<Rightarrow> jsval" where
  "root_value v = (case v of JArr _ \<Rightarrow> JNull | JObj _ \<Rightarrow> JNull | JBuf _ \<Rightarrow> JNull | _ \<Rightarrow> v)"

text \<open>The values are those of JSON, in an object; the branch for \<open>Date\<close> values has no counterpart.\<close>

definition cleanObject :: "jsval \<Rightarrow> jsval" where
  "cleanObject v = (case v of
     JObj kvs \<Rightarrow> JObj (filter (\<lambda>(k, x). x \<noteq> JNull)
                  (map (\<lambda>(k, x). (k, root_value x)) (filter (\<lambda>(k, x). has_content x) kvs)))
   | _ \<Rightarrow> v)"

section \<open>The caches\<close>

text \<open>One of the five caches: a \<open>Map\<close> that drops its oldest key once it is full.\<close>

definition MAX_CACHE_SIZE :: nat where
  "MAX_CACHE_SIZE = 2000"

definition cache_get :: "('k, 'v) jsmap \<Rightarrow> 'k \<Rightarrow> 'v option" where
  "cache_get cache key = jsget cache key"

definition cache_set :: "'k \<Rightarrow> 'v \<Rightarrow> ('k, 'v) jsmap \<Rightarrow> ('k, 'v) jsmap" where
  "cache_set key value cache =
     (let room = (if length cache \<ge> MAX_CACHE_SIZE then tl cache else cache) in jsset key value room)"

section \<open>Laws of the helpers\<close>

text \<open>The flag and the class of a click.\<close>

lemma bot_flag_matches_class:
  "isBot (classify traits ua) \<longleftrightarrow>
     isDatacenter (classify traits ua) \<and> classification (classify traits ua) \<notin> {None, Some Datacenter}"
proof -
  have "c \<noteq> Datacenter" if "map_of MAIL_SCANNER_ASNS n = Some c" for n c
    using map_of_SomeD [OF that] by (auto simp: MAIL_SCANNER_ASNS_def)
  then show ?thesis by (auto simp: classify_def Let_def split: option.splits)
qed

definition bot_end :: "string \<Rightarrow> string \<Rightarrow> bool" where
  "bot_end word post \<longleftrightarrow> map ascii_lower word = ''bot'' \<and> (post = [] \<or> \<not> word_char (hd post))"

lemma bot_end_length: "bot_end word post \<Longrightarrow> length word = 3"
proof -
  assume "bot_end word post"
  then have "length (map ascii_lower word) = length ''bot''" by (simp only: bot_end_def)
  then show ?thesis by simp
qed

lemma BOT_WORD_Cons: "BOT_WORD (c # cs) \<longleftrightarrow> bot_end (take 3 (c # cs)) (drop 3 (c # cs)) \<or> BOT_WORD cs"
  unfolding BOT_WORD.simps bot_end_def by (simp only: numeral_3_eq_3 numeral_2_eq_2 drop_Suc_Cons)

lemma bot_end_here: "bot_end (take 3 s) (drop 3 s) \<longleftrightarrow> (\<exists>word post. s = word @ post \<and> bot_end word post)"
proof
  assume "bot_end (take 3 s) (drop 3 s)"
  then show "\<exists>word post. s = word @ post \<and> bot_end word post" by (metis append_take_drop_id)
next
  assume "\<exists>word post. s = word @ post \<and> bot_end word post"
  then obtain word post where s: "s = word @ post" and b: "bot_end word post" by blast
  then show "bot_end (take 3 s) (drop 3 s)" using bot_end_length [OF b] by simp
qed

lemma BOT_WORD_iff: "BOT_WORD ua \<longleftrightarrow> (\<exists>pre word post. ua = pre @ word @ post \<and> bot_end word post)"
proof (induction ua)
  case Nil
  show ?case by (auto dest: bot_end_length)
next
  case (Cons c cs)
  show ?case unfolding BOT_WORD_Cons bot_end_here Cons.IH
    by (metis append_Cons append_Nil list.inject neq_Nil_conv)
qed

lemma isValidEmailOpen_iff:
  "isValidEmailOpen (Some ua) \<longleftrightarrow> js_trim ua \<noteq> '''' \<and> ua \<notin> set knownBotAgents \<and>
     (to_lower (js_trim ua) = ''mozilla/5.0'' \<or>
      list_ex (\<lambda>proxy. str_includes (to_lower ua) (to_lower proxy)) validEmailProxies \<or>
      \<not> hasUnusualBrowserCombination ua)"
  by (simp add: isValidEmailOpen_def)

text \<open>Decimal length.\<close>

lemma length_show_nat: "length (show_nat n) \<le> Suc k \<longleftrightarrow> n < 10 ^ Suc k"
proof (induction k arbitrary: n)
  case 0
  then show ?case by (subst show_nat.simps) (auto simp: not_less)
next
  case (Suc k)
  show ?case
  proof (cases "n < 10")
    case True
    moreover have "(10::nat) \<le> 10 ^ Suc (Suc k)" by simp
    ultimately show ?thesis by (subst show_nat.simps) (simp add: less_le_trans)
  next
    case False
    then have "length (show_nat n) = Suc (length (show_nat (n div 10)))" by (subst show_nat.simps) simp
    moreover have "n div 10 < 10 ^ Suc k \<longleftrightarrow> n < 10 ^ Suc (Suc k)"
      by (simp add: div_less_iff_less_mult mult.commute)
    ultimately show ?thesis using Suc.IH [of "n div 10"] by simp
  qed
qed

lemma normalizeTimestamp_iff:
  "normalizeTimestamp t = (if \<bar>t\<bar> < 10 ^ 10 then t * 1000 else t)"
proof -
  have "length (show_nat (nat \<bar>t\<bar>)) \<le> 10 \<longleftrightarrow> nat \<bar>t\<bar> < 10 ^ 10"
    using length_show_nat [of "nat \<bar>t\<bar>" 9] by simp
  then show ?thesis by (simp add: normalizeTimestamp_def Let_def nat_less_iff)
qed

lemma effectiveTimestamp_range:
  "now - 43200000 \<le> effectiveTimestamp now t" "effectiveTimestamp now t \<le> now"
  by (simp_all add: effectiveTimestamp_def getMinAllowableTimestamp_def Let_def)

text \<open>A time in the last twelve hours keeps its value, given in seconds or in milliseconds.\<close>

lemma effectiveTimestamp_recent:
  assumes "now - 43200000 \<le> 1000 * s" "1000 * s \<le> now" "10 ^ 10 \<le> 1000 * s" "s < 10 ^ 10"
  shows "effectiveTimestamp now s = 1000 * s" "effectiveTimestamp now (1000 * s) = 1000 * s"
  using assms by (simp_all add: effectiveTimestamp_def getMinAllowableTimestamp_def normalizeTimestamp_iff Let_def)

text \<open>Cleaning.\<close>

lemma root_value_simple: "has_content v \<Longrightarrow> root_value v \<noteq> JNull \<Longrightarrow> is_primitive (root_value v)"
  by (cases v) (auto simp: has_content_def root_value_def is_primitive_def)

lemma cleanObject_simple: "isSimpleObject (cleanObject (JObj kvs))"
  by (auto simp: isSimpleObject_def cleanObject_def list_all_iff intro: root_value_simple)

lemma root_value_idem: "root_value v \<noteq> JNull \<Longrightarrow> has_content v \<Longrightarrow> has_content (root_value v) \<and> root_value (root_value v) = root_value v"
  by (cases v) (auto simp: has_content_def root_value_def)

lemma cleanObject_idem: "cleanObject (cleanObject (JObj kvs)) = cleanObject (JObj kvs)"
  by (induction kvs) (auto simp: cleanObject_def root_value_idem)

text \<open>Caches: bounded, and what was set last is found.\<close>

lemma length_jsset: "length (jsset k v m) \<le> Suc (length m)"
  by (induction m) auto

lemma cache_set_bounded:
  assumes "length cache \<le> MAX_CACHE_SIZE"
  shows "length (cache_set k v cache) \<le> MAX_CACHE_SIZE"
proof -
  let ?room = "if length cache \<ge> MAX_CACHE_SIZE then tl cache else cache"
  have "Suc (length ?room) \<le> MAX_CACHE_SIZE" using assms by (auto simp: MAX_CACHE_SIZE_def)
  then show ?thesis using length_jsset [of k v ?room] by (simp add: cache_set_def Let_def)
qed

lemma cache_get_set: "cache_get (cache_set k v cache) k = Some v"
  by (simp add: cache_get_def cache_set_def Let_def)

lemma map_of_tl: "distinct (map fst m) \<Longrightarrow> map_of (tl m) k = Some v \<Longrightarrow> map_of m k = Some v"
proof (cases m)
  case (Cons p ps)
  assume "distinct (map fst m)" and found: "map_of (tl m) k = Some v"
  then have "fst p \<notin> fst ` set ps" by (simp add: Cons)
  moreover have "k \<in> fst ` set ps" using map_of_SomeD [OF found] by (force simp: Cons)
  ultimately have "fst p \<noteq> k" by blast
  then show ?thesis using found by (cases p) (simp add: Cons)
qed simp

lemma cache_set_keeps:
  assumes "distinct (map fst cache)" "k' \<noteq> k" "cache_get (cache_set k v cache) k' = Some x"
  shows "cache_get cache k' = Some x"
  using assms map_of_tl [OF assms(1)] by (auto simp: cache_get_def cache_set_def Let_def split: if_splits)

lemma cache_set_distinct: "distinct (map fst cache) \<Longrightarrow> distinct (map fst (cache_set k v cache))"
  by (auto simp: cache_set_def Let_def distinct_tl map_tl intro!: distinct_update)

interpretation cache: machine "[]" "\<lambda>(k, v). cache_set k v"
  "\<lambda>m. length m \<le> MAX_CACHE_SIZE \<and> distinct (map fst m)"
  by unfold_locales (auto intro: cache_set_bounded cache_set_distinct)

end
