(* ===== verification/EventStats.thy ===== *)
theory EventStats
  imports EventFormat Prelude
begin

text \<open>
  The counters of an event: the Redis commands \<open>updateEventStatistics\<close> of
  \<open>src/apps/event-process/src/events/services/events.service.ts\<close> puts in a pipeline, the store
  they change, and the side that reads them back,
  \<open>transferRedisDataToPostgres\<close> and \<open>aggregateRedisData\<close> of
  \<open>src/apps/msgops-api/src/modules/statistics/statistics.aggregation.ts\<close>. Writer and reader share
  only the texts of the keys. The parser of user agents and the calendar are parameters.
\<close>

section \<open>Events\<close>

datatype platform = WEBPUSH | MOBILEPUSH | CUSTOMEVENTS | INTERNALEVENTS | EMAIL | SMS | WHATSAPP

definition platform_str :: "platform \<Rightarrow> string" where
  "platform_str p = (case p of WEBPUSH \<Rightarrow> ''web-push'' | MOBILEPUSH \<Rightarrow> ''mobile-push''
     | CUSTOMEVENTS \<Rightarrow> ''custom_events'' | INTERNALEVENTS \<Rightarrow> ''internal'' | EMAIL \<Rightarrow> ''email''
     | SMS \<Rightarrow> ''sms'' | WHATSAPP \<Rightarrow> ''whatsapp'')"

datatype message_kind = Automation | Campaign | Transactional

text \<open>A numeric option: missing, the \<open>NaN\<close> of a failed \<open>Number(...)\<close>, or a number.\<close>

datatype jsid = NoId | NaNId | Id nat

fun id_str :: "jsid \<Rightarrow> string" where
  "id_str NoId = ''undefined''"
| "id_str NaNId = ''NaN''"
| "id_str (Id n) = show_nat n"

fun id_truthy :: "jsid \<Rightarrow> bool" where
  "id_truthy (Id n) = (n \<noteq> 0)"
| "id_truthy _ = False"

record geo =
  country :: string
  region :: string
  city :: string
  g_traits :: "traits option"

text \<open>Texts that are missing are empty here: both are falsy, and the client of Redis writes the empty
  text for a missing one. \<open>sent_at\<close> is missing when it is no number: no comparison holds then.\<close>

record stat_options =
  accountId :: jsid
  messageId :: jsid
  eventId :: jsid
  so_event :: string
  contactId :: jsid
  so_platform :: platform
  so_type :: "message_kind option"
  timeZone :: string
  so_timestamp :: int
  pool :: string
  utmCampaign :: string
  providerAccount :: string
  linkPosition :: "nat option"
  userAgent :: string
  emailProvider :: string
  isTestAb :: bool
  sent_at :: "int option"
  so_email :: string
  uuid :: string
  geoData :: "geo option"

record parsed_agent =
  browser :: "string option"
  os :: "string option"
  is_mobile :: bool

record stat_env =
  se_cal :: calendar
  se_now :: int
  se_parser :: "string \<Rightarrow> parsed_agent"

section \<open>Commands and the store\<close>

datatype redis_cmd =
    HIncr string string
  | HSet string string string
  | SAdd string string
  | SetKey string string

datatype hash_value = Count nat | Text string

record stat_store =
  hashes :: "string \<Rightarrow> (string, hash_value) jsmap"
  sets :: "string \<Rightarrow> string list"
  texts :: "string \<Rightarrow> string option"

definition incr_value :: "hash_value option \<Rightarrow> hash_value" where
  "incr_value v = (case v of Some (Count n) \<Rightarrow> Count (Suc n) | Some (Text t) \<Rightarrow> Text t | None \<Rightarrow> Count 1)"

fun run_cmd :: "redis_cmd \<Rightarrow> stat_store \<Rightarrow> stat_store" where
  "run_cmd (HIncr k f) s = s\<lparr>hashes := (hashes s)(k := jsset f (incr_value (jsget (hashes s k) f)) (hashes s k))\<rparr>"
| "run_cmd (HSet k f v) s = s\<lparr>hashes := (hashes s)(k := jsset f (Text v) (hashes s k))\<rparr>"
| "run_cmd (SAdd k m) s = s\<lparr>sets := (sets s)(k := set_add m (sets s k))\<rparr>"
| "run_cmd (SetKey k v) s = s\<lparr>texts := (texts s)(k \<mapsto> v)\<rparr>"

definition run_pipeline :: "redis_cmd list \<Rightarrow> stat_store \<Rightarrow> stat_store" where
  "run_pipeline cmds s = fold run_cmd cmds s"

section \<open>The writer\<close>

definition kind_str :: "message_kind option \<Rightarrow> string" where
  "kind_str k = (case k of None \<Rightarrow> ''undefined'' | Some Automation \<Rightarrow> ''automation''
     | Some Campaign \<Rightarrow> ''campaign'' | Some Transactional \<Rightarrow> ''transactional'')"

definition colon_if :: "bool \<Rightarrow> string \<Rightarrow> string" where
  "colon_if b s = (if b then CHR '':'' # s else '''')"

text \<open>The keys of one event on day \<open>d\<close>.\<close>

definition message_entry :: "stat_options \<Rightarrow> string" where
  "message_entry o1 = kind_str (so_type o1) @ '':'' @ id_str (eventId o1) @ '':'' @ id_str (messageId o1) @
     colon_if (providerAccount o1 \<noteq> '''') (providerAccount o1) @ colon_if (isTestAb o1) ''testab''"

definition day_prefix :: "stat_options \<Rightarrow> string \<Rightarrow> string" where
  "day_prefix o1 d = id_str (accountId o1) @ '':'' @ d @ '':'' @ platform_str (so_platform o1)"

definition statistics_key :: "stat_options \<Rightarrow> string \<Rightarrow> string" where
  "statistics_key o1 d =
     (if so_platform o1 = CUSTOMEVENTS then ''statistics:'' @ day_prefix o1 d @ '':'' @ id_str (eventId o1)
      else ''statistics:'' @ day_prefix o1 d @ '':'' @ message_entry o1)"

definition global_key :: "stat_options \<Rightarrow> string \<Rightarrow> string" where
  "global_key o1 d = ''account_events_statistics:'' @ id_str (accountId o1) @ '':'' @
     platform_str (so_platform o1) @ '':'' @ d"

definition unique_events_key :: "stat_options \<Rightarrow> string \<Rightarrow> string \<Rightarrow> string" where
  "unique_events_key o1 event d =
     ''statistics_unique:'' @ day_prefix o1 d @ '':'' @
     (if so_type o1 \<noteq> None then kind_str (so_type o1) @ '':'' else '''') @ id_str (eventId o1) @
     colon_if (id_truthy (messageId o1)) (id_str (messageId o1)) @
     colon_if (providerAccount o1 \<noteq> '''') (providerAccount o1) @ colon_if (isTestAb o1) ''testab'' @
     colon_if (so_platform o1 \<noteq> CUSTOMEVENTS) event"

definition account_unique_key :: "stat_options \<Rightarrow> string \<Rightarrow> string \<Rightarrow> string \<Rightarrow> string" where
  "account_unique_key o1 event d middle =
     ''account_events_unique:'' @ id_str (accountId o1) @ '':'' @ platform_str (so_platform o1) @ '':'' @ d @ '':'' @
     middle @ (if so_platform o1 = CUSTOMEVENTS then id_str (eventId o1) else event)"

definition eventsToTrackUnique :: "string list" where
  "eventsToTrackUnique = [''delivered'', ''open'', ''click'', ''unsubscribe'', ''bounce'', ''blocked'']"

text \<open>Opens by the seconds since sending; the difference is floored, both in seconds.\<close>

definition open_delay_field :: "int \<Rightarrow> string" where
  "open_delay_field secondsSinceSent =
     (if secondsSinceSent < 5 then ''open_under_5_seconds''
      else if secondsSinceSent < 10 then ''open_under_10_seconds''
      else if secondsSinceSent < 30 then ''open_under_30_seconds''
      else if secondsSinceSent < 60 then ''open_under_60_seconds''
      else if secondsSinceSent < 300 then ''open_under_5_minutes''
      else ''open_over_5_minutes'')"

definition only_if :: "bool \<Rightarrow> redis_cmd list \<Rightarrow> redis_cmd list" where
  "only_if b cs = (if b then cs else [])"

definition mail_counters :: "stat_options \<Rightarrow> string \<Rightarrow> string \<Rightarrow> redis_cmd list" where
  "mail_counters o1 event key =
     HSet key ''pool'' (pool o1) #
     (case linkPosition o1 of
        Some p \<Rightarrow> only_if (event = ''click'') [HIncr key (''click_position_'' @ show_nat p)] | None \<Rightarrow> []) @
     only_if (emailProvider o1 \<noteq> '''') [HIncr key (''email_provider_'' @ event @ ''_'' @ emailProvider o1)] @
     (case sent_at o1 of
        Some sent \<Rightarrow> only_if (event = ''open'' \<and> so_timestamp o1 \<noteq> 0)
          [HIncr key (open_delay_field (\<lfloor>real_of_int (so_timestamp o1) - real_of_int sent / 1000\<rfloor>))]
      | None \<Rightarrow> [])"

definition who :: "stat_options \<Rightarrow> string" where
  "who o1 = (if id_truthy (contactId o1) then id_str (contactId o1)
             else if so_email o1 \<noteq> '''' then so_email o1 else uuid o1)"

definition agent_counters :: "stat_env \<Rightarrow> stat_options \<Rightarrow> string \<Rightarrow> string \<Rightarrow> redis_cmd list" where
  "agent_counters env o1 event key =
     (let a = se_parser env (userAgent o1) in
      only_if (userAgent o1 \<noteq> '''')
        ((case browser a of Some b \<Rightarrow> [HIncr key (''browser_'' @ event @ ''_'' @ b)] | None \<Rightarrow> []) @
         (case os a of Some b \<Rightarrow> [HIncr key (''os_'' @ event @ ''_'' @ b)] | None \<Rightarrow> []) @
         only_if (is_mobile a) [HIncr key (if is_mobile a then ''mobile_'' @ event else ''desktop_'' @ event)]))"

definition geo_counters :: "stat_options \<Rightarrow> string \<Rightarrow> string \<Rightarrow> redis_cmd list" where
  "geo_counters o1 event key = (case geoData o1 of
     None \<Rightarrow> []
   | Some g \<Rightarrow>
       only_if (country g \<noteq> '''') [HIncr key (''country_'' @ event @ ''_'' @ country g)] @
       only_if (region g \<noteq> '''') [HIncr key (''region_'' @ event @ ''_'' @ region g)] @
       only_if (city g \<noteq> '''') [HIncr key (''city_'' @ event @ ''_'' @ city g)])"

definition click_counters :: "stat_options \<Rightarrow> string \<Rightarrow> string \<Rightarrow> string \<Rightarrow> redis_cmd list" where
  "click_counters o1 event key globalKey =
     (let signals = classify (Option.bind (geoData o1) g_traits) (Some (userAgent o1)) in
      only_if (event = ''click'')
        (only_if (isBot signals) [HIncr key ''bot_click'', HIncr globalKey ''bot_click''] @
         only_if (isDatacenter signals) [HIncr key ''datacenter_click'', HIncr globalKey ''datacenter_click'']))"

definition unique_counters :: "stat_options \<Rightarrow> string \<Rightarrow> string \<Rightarrow> string \<Rightarrow> redis_cmd list" where
  "unique_counters o1 event d h =
     only_if (id_truthy (contactId o1) \<and> (event \<in> set eventsToTrackUnique \<or> so_platform o1 = CUSTOMEVENTS))
       [SAdd (account_unique_key o1 event d '''') (id_str (contactId o1)),
        SAdd (account_unique_key o1 event d (''hourly:'' @ h @ '':'')) (id_str (contactId o1))]"

definition processed_lists :: "stat_options \<Rightarrow> string \<Rightarrow> redis_cmd list" where
  "processed_lists o1 d =
     (if so_platform o1 \<noteq> CUSTOMEVENTS
      then [SAdd (''statistics_processed_messages:'' @ day_prefix o1 d) (message_entry o1)]
      else [SAdd (''statistics_processed_custom_events:'' @ id_str (accountId o1) @ '':'' @ d) (id_str (eventId o1)),
            SetKey (''statistics:'' @ id_str (accountId o1) @ '':'' @ platform_str (so_platform o1) @ '':'' @
              id_str (eventId o1) @ '':last_occurrence'') (show_int (so_timestamp o1))])"

definition statistics_commands :: "stat_env \<Rightarrow> stat_options \<Rightarrow> string \<Rightarrow> string \<Rightarrow> redis_cmd list" where
  "statistics_commands env o1 d h =
     (let event = (if so_platform o1 = CUSTOMEVENTS then ''count'' else so_event o1);
          key = statistics_key o1 d;
          globalKey = global_key o1 d
      in [HIncr key event, HIncr key (''hourly_'' @ event @ '':'' @ h)] @
         only_if (utmCampaign o1 \<noteq> '''') [HSet key ''utm_campaign'' (utmCampaign o1)] @
         only_if (providerAccount o1 \<noteq> '''') [HSet key ''provider_account'' (providerAccount o1)] @
         only_if (so_platform o1 = EMAIL) (mail_counters o1 event key) @
         processed_lists o1 d @
         [HIncr globalKey event, HIncr globalKey (''hourly_'' @ event @ '':'' @ h)] @
         unique_counters o1 event d h @
         only_if (event = ''click'' \<or> event = ''open'' \<or> so_platform o1 = CUSTOMEVENTS)
           (SAdd (unique_events_key o1 event d) (who o1) #
            agent_counters env o1 event key @ geo_counters o1 event key @ click_counters o1 event key globalKey))"

definition updateEventStatistics :: "stat_env \<Rightarrow> stat_options \<Rightarrow> string + redis_cmd list" where
  "updateEventStatistics env o1 =
     (case convertTimestampToTimezone (se_cal env) (se_now env) (so_timestamp o1) (timeZone o1) False of
        Inl e \<Rightarrow> Inl e
      | Inr d \<Rightarrow>
          (case convertTimestampToTimezone (se_cal env) (se_now env) (so_timestamp o1) (timeZone o1) True of
             Inl e \<Rightarrow> Inl e
           | Inr h \<Rightarrow> Inr (statistics_commands env o1 d h)))"

section \<open>The reader\<close>

record message_info =
  mi_type :: string
  mi_eventId :: string
  mi_messageId :: string
  mi_isTestAb :: bool
  mi_statisticsKey :: string
  mi_uniqueOpenKey :: string
  mi_uniqueClickKey :: string

text \<open>\<open>const [a, b, c, d, e] = message.split(':')\<close>: a missing part is undefined.\<close>

definition part :: "string list \<Rightarrow> nat \<Rightarrow> string option" where
  "part ps i = (if i < length ps then Some (ps ! i) else None)"

definition opt_str :: "string option \<Rightarrow> string" where
  "opt_str s = (case s of None \<Rightarrow> ''undefined'' | Some t \<Rightarrow> t)"

definition read_entry :: "string \<Rightarrow> string \<Rightarrow> string \<Rightarrow> string \<Rightarrow> message_info" where
  "read_entry account date platform message =
     (let ps = split_on (CHR '':'') message;
          messageType = opt_str (part ps 0);
          eventId = opt_str (part ps 1);
          messageId = opt_str (part ps 2);
          account1 = part ps 3;
          isTestAb = (part ps 4 = Some ''testab'' \<or> account1 = Some ''testab'');
          providerKey = (case account1 of Some p \<Rightarrow> colon_if (p \<noteq> '''' \<and> p \<noteq> ''testab'') p | None \<Rightarrow> '''');
          testAbKey = colon_if isTestAb ''testab'';
          rest = account @ '':'' @ date @ '':'' @ platform @ '':'' @ messageType @ '':'' @ eventId @ '':'' @ messageId @
                 providerKey @ testAbKey
      in \<lparr>mi_type = messageType, mi_eventId = eventId, mi_messageId = messageId, mi_isTestAb = isTestAb,
          mi_statisticsKey = ''statistics:'' @ rest, mi_uniqueOpenKey = ''statistics_unique:'' @ rest @ '':open'',
          mi_uniqueClickKey = ''statistics_unique:'' @ rest @ '':click''\<rparr>)"

fun parse_value :: "hash_value \<Rightarrow> jsnum" where
  "parse_value (Count n) = Fin (real n)"
| "parse_value (Text t) = parse_int10 t"

definition read_count :: "(string, hash_value) jsmap \<Rightarrow> string \<Rightarrow> jsnum" where
  "read_count statistics field = (case jsget statistics field of
     None \<Rightarrow> Fin 0 | Some v \<Rightarrow> if v = Text '''' then Fin 0 else parse_value v)"

definition field_value :: "(string, hash_value) jsmap \<Rightarrow> string \<Rightarrow> jsnum" where
  "field_value statistics key = (case jsget statistics key of None \<Rightarrow> NaN | Some v \<Rightarrow> parse_value v)"

definition plain_fields :: "string list" where
  "plain_fields = [''processed'', ''delivered'', ''open'', ''unique_open'', ''click'', ''unique_click'', ''bounce'',
     ''blocked'', ''bot_click'', ''datacenter_click'', ''spam_report'', ''unsubscribe'', ''deferred'', ''sent'',
     ''close'']"

definition device_fields :: "string list" where
  "device_fields = [''mobile_open'', ''desktop_open'', ''mobile_click'', ''desktop_click'']"

record aggregated =
  ag_counts :: "(string, jsnum) jsmap"
  ag_isTestAb :: bool
  ag_positions :: "(string, jsnum) jsmap"
  ag_providers :: "(string, (string, jsnum) jsmap) jsmap"
  ag_browsers :: "(string, (string, jsnum) jsmap) jsmap"
  ag_os :: "(string, (string, jsnum) jsmap) jsmap"
  ag_countries :: "(string, (string, jsnum) jsmap) jsmap"
  ag_regions :: "(string, (string, jsnum) jsmap) jsmap"
  ag_devices :: "(string, jsnum) jsmap"

text \<open>One loop of the aggregation: the keys with a prefix, cut at the underscores; \<open>i\<close> is the place
  of the event, the name is the next part.\<close>

definition by_event :: "string \<Rightarrow> nat \<Rightarrow> (string, hash_value) jsmap \<Rightarrow> (string, (string, jsnum) jsmap) jsmap" where
  "by_event prefix i statistics =
     fold (\<lambda>key m.
         if starts_with prefix key
         then (let ps = split_on (CHR ''_'') key;
                   event = opt_str (part ps i);
                   inner = (case jsget m event of None \<Rightarrow> [] | Some x \<Rightarrow> x)
               in jsset event (jsset (opt_str (part ps (Suc i))) (field_value statistics key) inner) m)
         else m) (map fst statistics) []"

definition click_positions :: "(string, hash_value) jsmap \<Rightarrow> (string, jsnum) jsmap" where
  "click_positions statistics =
     fold (\<lambda>key m.
         if starts_with ''click_position_'' key
         then jsset (opt_str (part (split_on (CHR ''_'') key) 2)) (field_value statistics key) m else m)
       (map fst statistics) []"

definition aggregateRedisData :: "(string, hash_value) jsmap \<Rightarrow> bool \<Rightarrow> aggregated" where
  "aggregateRedisData statistics testAb =
     \<lparr>ag_counts = map (\<lambda>f. (f, read_count statistics f)) plain_fields,
      ag_isTestAb = testAb,
      ag_positions = click_positions statistics,
      ag_providers = by_event ''email_provider_'' 2 statistics,
      ag_browsers = by_event ''browser_'' 1 statistics,
      ag_os = by_event ''os_'' 1 statistics,
      ag_countries = by_event ''country_'' 1 statistics,
      ag_regions = by_event ''region_'' 1 statistics,
      ag_devices = map (\<lambda>f. (f, read_count statistics f)) device_fields\<rparr>"

text \<open>The aggregate of one entry of the day's list: the hash with the two set sizes added.\<close>

definition message_aggregate :: "stat_store \<Rightarrow> message_info \<Rightarrow> aggregated" where
  "message_aggregate st info =
     (let statistics = jsset ''unique_click'' (Count (length (sets st (mi_uniqueClickKey info))))
          (jsset ''unique_open'' (Count (length (sets st (mi_uniqueOpenKey info)))) (hashes st (mi_statisticsKey info)))
      in aggregateRedisData statistics (mi_isTestAb info))"

definition aggregates_of_day :: "stat_store \<Rightarrow> string \<Rightarrow> string \<Rightarrow> string \<Rightarrow> aggregated list" where
  "aggregates_of_day st account date platform =
     map (\<lambda>m. message_aggregate st (read_entry account date platform m))
       (sets st (''statistics_processed_messages:'' @ account @ '':'' @ date @ '':'' @ platform))"

section \<open>Texts of keys\<close>

lemma kind_no_colon: "CHR '':'' \<notin> set (kind_str k)"
  by (auto simp: kind_str_def split: option.splits message_kind.splits)

lemma platform_no_colon: "CHR '':'' \<notin> set (platform_str p)"
  by (cases p) (auto simp: platform_str_def)

lemma id_no_colon: "CHR '':'' \<notin> set (id_str i)"
proof (cases i)
  case (Id n)
  have "\<not> is_digit (CHR '':'')" by (simp add: is_digit_def)
  then show ?thesis using show_nat_digits [of n] Id by auto
qed auto

lemma platform_str_inj: "platform_str p = platform_str q \<Longrightarrow> p = q"
  by (cases p; cases q) (simp_all add: platform_str_def)

lemma split_on_free: "d \<notin> set s \<Longrightarrow> split_on d s = [s]"
  by (induction s) auto

lemma split_on_first: "d \<notin> set s \<Longrightarrow> split_on d (s @ d # t) = s # split_on d t"
  by (induction s) (auto split: list.splits)

lemma cut_at_colon:
  assumes "c \<notin> set a" "c \<notin> set a'" "a @ c # r = a' @ c # r'"
  shows "a = a'" "r = r'"
proof -
  have tw: "takeWhile (\<lambda>x. x \<noteq> c) (b @ c # s) = b" if "c \<notin> set b" for b s
    using that by (induction b) auto
  show "a = a'" using arg_cong [OF assms(3), of "takeWhile (\<lambda>x. x \<noteq> c)"] by (simp add: tw assms(1,2))
  then show "r = r'" using assms(3) by simp
qed

text \<open>What an entry can carry: a provider account the reader tells from the mark of a test.\<close>

definition plain_provider :: "stat_options \<Rightarrow> bool" where
  "plain_provider o1 \<longleftrightarrow> CHR '':'' \<notin> set (providerAccount o1) \<and> providerAccount o1 \<noteq> ''testab''"

lemma entry_parts:
  assumes "plain_provider o1"
  shows "split_on (CHR '':'') (message_entry o1) =
    [kind_str (so_type o1), id_str (eventId o1), id_str (messageId o1)] @
    (if providerAccount o1 \<noteq> '''' then [providerAccount o1] else []) @ (if isTestAb o1 then [''testab''] else [])"
  using assms kind_no_colon [of "so_type o1"] id_no_colon [of "eventId o1"] id_no_colon [of "messageId o1"]
  by (simp add: message_entry_def colon_if_def plain_provider_def split_on_first split_on_free)

lemma entry_read_back:
  assumes "plain_provider o1"
  shows "read_entry a d p (message_entry o1) =
    \<lparr>mi_type = kind_str (so_type o1), mi_eventId = id_str (eventId o1), mi_messageId = id_str (messageId o1),
     mi_isTestAb = isTestAb o1,
     mi_statisticsKey = ''statistics:'' @ a @ '':'' @ d @ '':'' @ p @ '':'' @ message_entry o1,
     mi_uniqueOpenKey = ''statistics_unique:'' @ a @ '':'' @ d @ '':'' @ p @ '':'' @ message_entry o1 @ '':open'',
     mi_uniqueClickKey = ''statistics_unique:'' @ a @ '':'' @ d @ '':'' @ p @ '':'' @ message_entry o1 @ '':click''\<rparr>"
  using assms unfolding read_entry_def Let_def entry_parts [OF assms]
  by (auto simp: part_def opt_str_def message_entry_def colon_if_def plain_provider_def)

section \<open>Counting\<close>

definition hits :: "string \<Rightarrow> string \<Rightarrow> redis_cmd list \<Rightarrow> nat" where
  "hits k f cmds = length (filter (\<lambda>c. c = HIncr k f) cmds)"

lemma hits_simps [simp]:
  "hits k f [] = 0"
  "hits k f (c # cs) = (if c = HIncr k f then Suc (hits k f cs) else hits k f cs)"
  "hits k f (cs @ ds) = hits k f cs + hits k f ds"
  "hits k f (only_if b cs) = (if b then hits k f cs else 0)"
  by (simp_all add: hits_def only_if_def)

definition holds_count :: "stat_store \<Rightarrow> string \<Rightarrow> string \<Rightarrow> nat \<Rightarrow> bool" where
  "holds_count st k f n \<longleftrightarrow> jsget (hashes st k) f = (if n = 0 then None else Some (Count n))"

lemma run_cmd_count:
  assumes "holds_count st k f n" "\<And>v. c \<noteq> HSet k f v"
  shows "holds_count (run_cmd c st) k f (if c = HIncr k f then Suc n else n)"
  using assms by (cases c) (auto simp: holds_count_def incr_value_def)

lemma run_pipeline_count:
  assumes "holds_count st k f n" "\<forall>c \<in> set cmds. \<forall>v. c \<noteq> HSet k f v"
  shows "holds_count (run_pipeline cmds st) k f (n + hits k f cmds)"
  using assms
proof (induction cmds arbitrary: st n)
  case Nil
  then show ?case by (simp add: run_pipeline_def)
next
  case (Cons c cs)
  have "holds_count (run_cmd c st) k f (if c = HIncr k f then Suc n else n)"
    using Cons.prems by (intro run_cmd_count) auto
  from Cons.IH [OF this] Cons.prems(2) show ?case by (cases "c = HIncr k f") (simp_all add: run_pipeline_def)
qed

lemma read_count_holds: "holds_count st k f n \<Longrightarrow> read_count (hashes st k) f = Fin (real n)"
  by (auto simp: holds_count_def read_count_def split: if_splits)

text \<open>The columns that are plain counters of events, and the names all other counters start with.\<close>

definition event_fields :: "string list" where
  "event_fields = [''processed'', ''delivered'', ''open'', ''click'', ''bounce'', ''blocked'', ''unsubscribe'',
     ''deferred'', ''sent'', ''close'', ''spam_report'']"

definition side_field :: "string \<Rightarrow> bool" where
  "side_field g \<longleftrightarrow> list_ex (\<lambda>p. starts_with p g)
     [''hourly_'', ''click_position_'', ''email_provider_'', ''open_under_'', ''open_over_'', ''browser_'', ''os_'',
      ''mobile_'', ''country_'', ''region_'', ''city_'', ''bot_'', ''datacenter_'']"

lemma event_field_plain: "f \<in> set event_fields \<Longrightarrow> \<not> side_field f"
proof -
  have "list_all (\<lambda>f. \<not> side_field f) event_fields" by code_simp
  then show "f \<in> set event_fields \<Longrightarrow> \<not> side_field f" by (simp add: list_all_iff)
qed

definition side_cmd :: "redis_cmd \<Rightarrow> bool" where
  "side_cmd c = (case c of HIncr k g \<Rightarrow> side_field g | _ \<Rightarrow> True)"

lemma side_cmd_simps [simp]:
  "side_cmd (HIncr k g) = side_field g" "side_cmd (HSet k g v)" "side_cmd (SAdd k m)" "side_cmd (SetKey k v)"
  by (simp_all add: side_cmd_def)

lemma side_only_if [simp]: "list_all side_cmd (only_if b cs) \<longleftrightarrow> (b \<longrightarrow> list_all side_cmd cs)"
  by (simp add: only_if_def)

lemma hits_side: "list_all side_cmd cs \<Longrightarrow> \<not> side_field f \<Longrightarrow> hits k f cs = 0"
  by (induction cs) auto

lemma side_mail: "list_all side_cmd (mail_counters o1 event key)"
  by (simp add: mail_counters_def side_field_def open_delay_field_def split: option.split)

lemma side_agent: "list_all side_cmd (agent_counters env o1 event key)"
  by (simp add: agent_counters_def side_field_def Let_def split: option.split)

lemma side_geo: "list_all side_cmd (geo_counters o1 event key)"
  by (simp add: geo_counters_def side_field_def split: option.split)

lemma side_click: "list_all side_cmd (click_counters o1 event key g)"
  by (simp add: click_counters_def side_field_def Let_def)

lemma side_sets: "list_all side_cmd (processed_lists o1 d)" "list_all side_cmd (unique_counters o1 event d h)"
  by (simp_all add: processed_lists_def unique_counters_def)

lemma side_hourly: "side_field (''hourly_'' @ x)"
  by (simp add: side_field_def)

definition counted_event :: "stat_options \<Rightarrow> string" where
  "counted_event o1 = (if so_platform o1 = CUSTOMEVENTS then ''count'' else so_event o1)"

lemma global_key_apart: "global_key o1 d \<noteq> ''statistics:'' @ k"
  by (simp add: global_key_def)

lemma commands_shape:
  obtains A B where "statistics_commands env o1 d h =
      HIncr (statistics_key o1 d) (counted_event o1) # A @ HIncr (global_key o1 d) (counted_event o1) # B"
    and "list_all side_cmd A" and "list_all side_cmd B"
proof -
  let ?e = "counted_event o1" and ?k = "statistics_key o1 d" and ?g = "global_key o1 d"
  let ?A = "HIncr ?k (''hourly_'' @ ?e @ '':'' @ h) #
       only_if (utmCampaign o1 \<noteq> '''') [HSet ?k ''utm_campaign'' (utmCampaign o1)] @
       only_if (providerAccount o1 \<noteq> '''') [HSet ?k ''provider_account'' (providerAccount o1)] @
       only_if (so_platform o1 = EMAIL) (mail_counters o1 ?e ?k) @ processed_lists o1 d"
  let ?B = "HIncr ?g (''hourly_'' @ ?e @ '':'' @ h) # unique_counters o1 ?e d h @
       only_if (?e = ''click'' \<or> ?e = ''open'' \<or> so_platform o1 = CUSTOMEVENTS)
         (SAdd (unique_events_key o1 ?e d) (who o1) #
          agent_counters env o1 ?e ?k @ geo_counters o1 ?e ?k @ click_counters o1 ?e ?k ?g)"
  have "statistics_commands env o1 d h = HIncr ?k ?e # ?A @ HIncr ?g ?e # ?B"
    unfolding statistics_commands_def Let_def counted_event_def by (simp only: append.simps append_assoc)
  moreover have "list_all side_cmd ?A" using side_hourly by (simp add: side_mail side_sets)
  moreover have "list_all side_cmd ?B" using side_hourly by (simp add: side_agent side_geo side_click side_sets)
  ultimately show ?thesis by (rule that)
qed

lemma hits_event:
  assumes "\<not> side_field f"
  shows "hits (''statistics:'' @ k) f (statistics_commands env o1 d h) =
    (if statistics_key o1 d = ''statistics:'' @ k \<and> counted_event o1 = f then 1 else 0)"
proof -
  obtain A B where "statistics_commands env o1 d h =
      HIncr (statistics_key o1 d) (counted_event o1) # A @ HIncr (global_key o1 d) (counted_event o1) # B"
    and "list_all side_cmd A" "list_all side_cmd B" by (rule commands_shape)
  then show ?thesis using global_key_apart [of o1 d k] by (simp add: hits_side [OF _ assms])
qed

text \<open>The fields that hold texts.\<close>

definition text_cmd :: "redis_cmd \<Rightarrow> bool" where
  "text_cmd c = (case c of HSet k g v \<Rightarrow> g \<in> {''utm_campaign'', ''provider_account'', ''pool''} | _ \<Rightarrow> True)"

lemma text_cmd_simps [simp]:
  "text_cmd (HIncr k g)" "text_cmd (HSet k g v) \<longleftrightarrow> g \<in> {''utm_campaign'', ''provider_account'', ''pool''}"
  "text_cmd (SAdd k m)" "text_cmd (SetKey k v)"
  by (simp_all add: text_cmd_def)

lemma text_only_if [simp]: "list_all text_cmd (only_if b cs) \<longleftrightarrow> (b \<longrightarrow> list_all text_cmd cs)"
  by (simp add: only_if_def)

lemma texts_apart: "list_all text_cmd (statistics_commands env o1 d h)"
  by (simp add: statistics_commands_def Let_def mail_counters_def processed_lists_def unique_counters_def
      agent_counters_def geo_counters_def click_counters_def split: option.split)

section \<open>The sets\<close>

lemma run_pipeline_append: "run_pipeline (cs @ ds) st = run_pipeline ds (run_pipeline cs st)"
  by (simp add: run_pipeline_def)

lemma run_pipeline_sets: "set (sets (run_pipeline cs st) k) = set (sets st k) \<union> {m. SAdd k m \<in> set cs}"
proof (induction cs arbitrary: st)
  case Nil
  then show ?case by (simp add: run_pipeline_def)
next
  case (Cons c cs)
  have "set (sets (run_cmd c st) k) = set (sets st k) \<union> {m. SAdd k m = c}" by (cases c) auto
  with Cons.IH [of "run_cmd c st"] show ?case by (auto simp: run_pipeline_def)
qed

lemma run_pipeline_distinct: "distinct (sets st k) \<Longrightarrow> distinct (sets (run_pipeline cs st) k)"
proof (induction cs arbitrary: st)
  case Nil
  then show ?case by (simp add: run_pipeline_def)
next
  case (Cons c cs)
  have "distinct (sets (run_cmd c st) k)" using Cons.prems by (cases c) auto
  from Cons.IH [OF this] show ?case by (simp add: run_pipeline_def)
qed

definition day_list :: "string \<Rightarrow> string \<Rightarrow> string \<Rightarrow> string" where
  "day_list a d p = ''statistics_processed_messages:'' @ a @ '':'' @ d @ '':'' @ p"

lemma sadd_elsewhere:
  "SAdd (day_list a d' p) m \<notin> set (mail_counters o1 e k)" "SAdd (day_list a d' p) m \<notin> set (agent_counters env o1 e k)"
  "SAdd (day_list a d' p) m \<notin> set (geo_counters o1 e k)" "SAdd (day_list a d' p) m \<notin> set (click_counters o1 e k g)"
  "SAdd (day_list a d' p) m \<notin> set (unique_counters o1 e d h)"
  by (auto simp: mail_counters_def agent_counters_def geo_counters_def click_counters_def unique_counters_def
      only_if_def Let_def day_list_def account_unique_key_def split: option.splits if_splits)

lemma unique_key_apart: "unique_events_key o1 e d \<noteq> day_list a d' p"
  by (simp add: unique_events_key_def day_list_def)

lemma set_only_if: "set (only_if b cs) = (if b then set cs else {})"
  by (simp add: only_if_def)

lemma entry_listed:
  "SAdd (day_list a d' p) m \<in> set (statistics_commands env o1 d h) \<longleftrightarrow>
     so_platform o1 \<noteq> CUSTOMEVENTS \<and> day_list a d' p = ''statistics_processed_messages:'' @ day_prefix o1 d \<and>
     m = message_entry o1"
proof -
  have "SAdd (day_list a d' p) m \<in> set (statistics_commands env o1 d h) \<longleftrightarrow>
      SAdd (day_list a d' p) m \<in> set (processed_lists o1 d)"
    unfolding statistics_commands_def Let_def
    by (simp add: set_only_if sadd_elsewhere unique_key_apart [THEN not_sym] del: append.simps)
  then show ?thesis by (auto simp: processed_lists_def day_list_def)
qed

section \<open>A day of events\<close>

text \<open>An event of the day: its options, its date and its hour.\<close>

type_synonym day_event = "stat_options \<times> string \<times> string"

definition day_run :: "stat_env \<Rightarrow> day_event list \<Rightarrow> stat_store \<Rightarrow> stat_store" where
  "day_run env evs st = fold (\<lambda>(o1, d, h). run_pipeline (statistics_commands env o1 d h)) evs st"

definition no_store :: stat_store where
  "no_store = \<lparr>hashes = \<lambda>_. [], sets = \<lambda>_. [], texts = \<lambda>_. None\<rparr>"

definition well_keyed :: "day_event \<Rightarrow> bool" where
  "well_keyed = (\<lambda>(o1, d, h). plain_provider o1 \<and> CHR '':'' \<notin> set d)"

definition belongs :: "string \<Rightarrow> string \<Rightarrow> platform \<Rightarrow> day_event \<Rightarrow> bool" where
  "belongs a date p = (\<lambda>(o1, d, h). id_str (accountId o1) = a \<and> d = date \<and> so_platform o1 = p)"

lemma prefix_iff:
  assumes "CHR '':'' \<notin> set a" "CHR '':'' \<notin> set d'" "CHR '':'' \<notin> set d"
  shows "a @ '':'' @ d' @ '':'' @ platform_str p @ '':'' @ m = day_prefix o1 d @ '':'' @ m' \<longleftrightarrow>
    belongs a d' p (o1, d, h) \<and> m = m'" (is "?l \<longleftrightarrow> ?r")
proof
  assume ?l
  then have "a @ CHR '':'' # (d' @ '':'' @ platform_str p @ '':'' @ m) =
      id_str (accountId o1) @ CHR '':'' # (d @ '':'' @ platform_str (so_platform o1) @ '':'' @ m')"
    by (simp add: day_prefix_def)
  note c1 = cut_at_colon [OF assms(1) id_no_colon this]
  from c1(2) have "d' @ CHR '':'' # (platform_str p @ '':'' @ m) = d @ CHR '':'' # (platform_str (so_platform o1) @ '':'' @ m')"
    by simp
  note c2 = cut_at_colon [OF assms(2,3) this]
  from c2(2) have "platform_str p @ CHR '':'' # m = platform_str (so_platform o1) @ CHR '':'' # m'" by simp
  note c3 = cut_at_colon [OF platform_no_colon platform_no_colon this]
  show ?r using c1(1) c2(1) c3 by (simp add: belongs_def platform_str_inj)
qed (simp add: belongs_def day_prefix_def)

lemma key_iff:
  assumes "CHR '':'' \<notin> set a" "CHR '':'' \<notin> set d'" "CHR '':'' \<notin> set d" "p \<noteq> CUSTOMEVENTS"
  shows "statistics_key o1 d = ''statistics:'' @ (a @ '':'' @ d' @ '':'' @ platform_str p @ '':'' @ m) \<longleftrightarrow>
    belongs a d' p (o1, d, h) \<and> m = message_entry o1"
proof (cases "so_platform o1 = CUSTOMEVENTS")
  case True
  then have "\<not> belongs a d' p (o1, d, h)" using assms(4) by (simp add: belongs_def)
  then show ?thesis
    using prefix_iff [OF assms(1-3), of p m o1 "id_str (eventId o1)" h] True
    by (auto simp: statistics_key_def dest: sym)
next
  case False
  then show ?thesis using prefix_iff [OF assms(1-3), of p m o1 "message_entry o1" h]
    by (auto simp: statistics_key_def dest: sym)
qed

lemma list_iff:
  assumes "CHR '':'' \<notin> set a" "CHR '':'' \<notin> set d'" "CHR '':'' \<notin> set d"
  shows "day_list a d' (platform_str p) = ''statistics_processed_messages:'' @ day_prefix o1 d \<longleftrightarrow>
    belongs a d' p (o1, d, h)"
  using prefix_iff [OF assms, of p "''''" o1 "''''" h] by (simp add: day_list_def)

lemma hits_key:
  assumes "\<not> side_field f" "K = ''statistics:'' @ k"
  shows "hits K f (statistics_commands env o1 d h) = (if statistics_key o1 d = K \<and> counted_event o1 = f then 1 else 0)"
  unfolding assms(2) by (rule hits_event [OF assms(1)])

definition counter_name :: "string \<Rightarrow> bool" where
  "counter_name f \<longleftrightarrow> \<not> side_field f \<and> f \<notin> set [''utm_campaign'', ''provider_account'', ''pool'']"

lemma event_field_counter: "f \<in> set event_fields \<Longrightarrow> counter_name f"
proof -
  have "list_all counter_name event_fields" by code_simp
  then show "f \<in> set event_fields \<Longrightarrow> counter_name f" by (simp add: list_all_iff)
qed

lemma no_text_field:
  assumes "counter_name f"
  shows "\<forall>c \<in> set (statistics_commands env o1 d h). \<forall>v. c \<noteq> HSet K f v"
proof (intro ballI allI notI)
  fix c v assume "c \<in> set (statistics_commands env o1 d h)" "c = HSet K f v"
  then have "f \<in> {''utm_campaign'', ''provider_account'', ''pool''}"
    using texts_apart [of env o1 d h] by (auto simp: list_all_iff)
  then show False using assms by (auto simp: counter_name_def)
qed

lemma day_run_count:
  assumes "counter_name f" "K = ''statistics:'' @ k" "holds_count st K f n"
  shows "holds_count (day_run env evs st) K f
    (n + length (filter (\<lambda>(o1, d, h). statistics_key o1 d = K \<and> counted_event o1 = f) evs))"
  using assms(3)
proof (induction evs arbitrary: st n)
  case Nil
  then show ?case by (simp add: day_run_def)
next
  case (Cons x evs)
  obtain o1 d h where x: "x = (o1, d, h)" by (cases x) auto
  have hit: "hits K f (statistics_commands env o1 d h) = (if statistics_key o1 d = K \<and> counted_event o1 = f then 1 else 0)"
    using assms(1) by (intro hits_key [OF _ assms(2)]) (simp add: counter_name_def)
  from Cons.IH [OF run_pipeline_count [OF Cons.prems no_text_field [OF assms(1), of env o1 d h K]]]
  show ?case
    by (cases "statistics_key o1 d = K \<and> counted_event o1 = f") (auto simp: x day_run_def hit)
qed

lemma day_run_entries:
  "set (sets (day_run env evs st) (day_list a d' p)) = set (sets st (day_list a d' p)) \<union>
     {message_entry o1 | o1 d h. (o1, d, h) \<in> set evs \<and> so_platform o1 \<noteq> CUSTOMEVENTS \<and>
        day_list a d' p = ''statistics_processed_messages:'' @ day_prefix o1 d}"
proof (induction evs arbitrary: st)
  case (Cons x evs)
  obtain o1 d h where x: "x = (o1, d, h)" by (cases x) auto
  have step: "day_run env (x # evs) st = day_run env evs (run_pipeline (statistics_commands env o1 d h) st)"
    by (simp add: x day_run_def)
  show ?case unfolding step Cons.IH run_pipeline_sets entry_listed by (auto simp: x)
qed (simp add: day_run_def)

lemma day_run_distinct: "distinct (sets st k) \<Longrightarrow> distinct (sets (day_run env evs st) k)"
  by (induction evs arbitrary: st) (auto simp: day_run_def intro: run_pipeline_distinct)

lemma sum_by_entry:
  assumes "distinct es" "\<And>x. x \<in> set xs \<Longrightarrow> Q x \<Longrightarrow> e x \<in> set es"
  shows "sum_list (map (\<lambda>m. length (filter (\<lambda>x. Q x \<and> e x = m) xs)) es) = length (filter Q xs)"
  using assms(2)
proof (induction xs)
  case (Cons x xs)
  have "sum_list (map (\<lambda>m. length (filter (\<lambda>y. Q y \<and> e y = m) (x # xs))) es) =
      sum_list (map (\<lambda>m. (if Q x \<and> e x = m then 1 else 0) + length (filter (\<lambda>y. Q y \<and> e y = m) xs)) es)"
    by (rule arg_cong [where f = sum_list]) simp
  also have "\<dots> = sum_list (map (\<lambda>m. if Q x \<and> e x = m then 1 else 0) es) + length (filter Q xs)"
    using Cons by (simp add: sum_list_addf)
  also have "sum_list (map (\<lambda>m. if Q x \<and> e x = m then 1 else 0) es) = (if Q x then 1 else (0::nat))"
    using assms(1) Cons.prems [of x]
    by (simp add: sum_list_distinct_conv_sum_set)
  finally show ?case by simp
qed simp

lemma sum_list_real: "sum_list (map (\<lambda>m. real (g m)) es) = real (sum_list (map g es))"
  by (induction es) auto

text \<open>The sum of a column over the messages of a day.\<close>

definition fin_value :: "jsnum option \<Rightarrow> real" where
  "fin_value v = (case v of Some (Fin x) \<Rightarrow> x | _ \<Rightarrow> 0)"

definition day_total :: "string \<Rightarrow> aggregated list \<Rightarrow> real" where
  "day_total f as = sum_list (map (\<lambda>a. fin_value (jsget (ag_counts a) f)) as)"

lemma event_columns: "f \<in> set event_fields \<Longrightarrow> f \<in> set plain_fields \<and> f \<noteq> ''unique_open'' \<and> f \<noteq> ''unique_click''"
proof -
  have "list_all (\<lambda>f. f \<in> set plain_fields \<and> f \<noteq> ''unique_open'' \<and> f \<noteq> ''unique_click'') event_fields" by code_simp
  then show "f \<in> set event_fields \<Longrightarrow> f \<in> set plain_fields \<and> f \<noteq> ''unique_open'' \<and> f \<noteq> ''unique_click''"
    by (simp add: list_all_iff)
qed

lemma map_of_table: "x \<in> set xs \<Longrightarrow> map_of (map (\<lambda>y. (y, g y)) xs) x = Some (g x)"
  by (induction xs) auto

lemma read_count_jsset: "g \<noteq> f \<Longrightarrow> read_count (jsset g v m) f = read_count m f"
  by (simp add: read_count_def)

lemma aggregate_count:
  assumes "f \<in> set event_fields" "holds_count st (mi_statisticsKey info) f n"
  shows "fin_value (jsget (ag_counts (message_aggregate st info)) f) = real n"
  using event_columns [OF assms(1)] read_count_holds [OF assms(2)]
  by (simp add: message_aggregate_def aggregateRedisData_def Let_def map_of_table read_count_jsset not_sym fin_value_def)

section \<open>Properties\<close>

text \<open>Result: The statistics job reads the counters where the event service wrote them: from the entry an event
  left in the list of the day it rebuilds the key of the event's hash and, for a message of a known kind with
  a number, the keys of its sets of openers and clickers.\<close>

theorem reader_finds_counters:
  assumes "plain_provider o1" and "so_platform o1 \<noteq> CUSTOMEVENTS"
    and "so_type o1 \<noteq> None" and "id_truthy (messageId o1)"
  shows "mi_statisticsKey (read_entry (id_str (accountId o1)) d (platform_str (so_platform o1)) (message_entry o1))
           = statistics_key o1 d \<and>
         mi_uniqueOpenKey (read_entry (id_str (accountId o1)) d (platform_str (so_platform o1)) (message_entry o1))
           = unique_events_key o1 ''open'' d \<and>
         mi_uniqueClickKey (read_entry (id_str (accountId o1)) d (platform_str (so_platform o1)) (message_entry o1))
           = unique_events_key o1 ''click'' d \<and>
         mi_isTestAb (read_entry (id_str (accountId o1)) d (platform_str (so_platform o1)) (message_entry o1))
           = isTestAb o1"
  unfolding entry_read_back [OF assms(1)] using assms(2-4)
  by (simp add: statistics_key_def day_prefix_def unique_events_key_def message_entry_def colon_if_def)

lemma message_counts:
  assumes "f \<in> set event_fields" "p \<noteq> CUSTOMEVENTS" "CHR '':'' \<notin> set date" "\<forall>x \<in> set evs. well_keyed x"
    and "(o1, d, h) \<in> set evs" "belongs (id_str a) date p (o1, d, h)"
  shows "fin_value (jsget (ag_counts (message_aggregate (day_run env evs no_store)
      (read_entry (id_str a) date (platform_str p) (message_entry o1)))) f)
    = real (length (filter (\<lambda>x. (belongs (id_str a) date p x \<and> so_event (fst x) = f) \<and> message_entry (fst x) = message_entry o1) evs))"
proof -
  let ?m = "message_entry o1"
  let ?K = "''statistics:'' @ (id_str a @ '':'' @ date @ '':'' @ platform_str p @ '':'' @ ?m)"
  have plain: "plain_provider o1" using assms(4,5) by (auto simp: well_keyed_def)
  have "holds_count no_store ?K f 0" by (simp add: holds_count_def no_store_def)
  note counted = day_run_count [OF event_field_counter [OF assms(1)] refl this, of env evs]
  have "filter (\<lambda>(o2, d2, h2). statistics_key o2 d2 = ?K \<and> counted_event o2 = f) evs =
      filter (\<lambda>x. (belongs (id_str a) date p x \<and> so_event (fst x) = f) \<and> message_entry (fst x) = ?m) evs"
  proof (rule filter_cong [OF refl])
    fix x assume x: "x \<in> set evs"
    obtain o2 d2 h2 where e: "x = (o2, d2, h2)" by (cases x) auto
    have "CHR '':'' \<notin> set d2" using assms(4) x by (auto simp: e well_keyed_def)
    note k = key_iff [OF id_no_colon assms(3) this assms(2), of o2 a ?m h2]
    show "(case x of (o2, d2, h2) \<Rightarrow> statistics_key o2 d2 = ?K \<and> counted_event o2 = f) \<longleftrightarrow>
        (belongs (id_str a) date p x \<and> so_event (fst x) = f) \<and> message_entry (fst x) = ?m"
      unfolding e prod.case k using assms(2) by (auto simp: counted_event_def belongs_def)
  qed
  with aggregate_count [OF assms(1), of "day_run env evs no_store"
      "read_entry (id_str a) date (platform_str p) ?m"] counted
  show ?thesis by (simp only: entry_read_back [OF plain] message_info.simps add_0_left)
qed

lemma daily_report:
  assumes "f \<in> set event_fields" and "p \<noteq> CUSTOMEVENTS" and "CHR '':'' \<notin> set date"
    and "\<forall>x \<in> set evs. well_keyed x"
  shows "day_total f (aggregates_of_day (day_run env evs no_store) (id_str a) date (platform_str p)) =
    real (length (filter (\<lambda>x. belongs (id_str a) date p x \<and> so_event (fst x) = f) evs))"
proof -
  let ?st = "day_run env evs no_store" and ?p = "platform_str p" and ?a = "id_str a"
  let ?es = "sets ?st (day_list ?a date ?p)" and ?Q = "\<lambda>x. belongs ?a date p x \<and> so_event (fst x) = f"
  let ?n = "\<lambda>m. length (filter (\<lambda>x. ?Q x \<and> message_entry (fst x) = m) evs)"
  have entries: "set ?es = {message_entry o1 | o1 d h. (o1, d, h) \<in> set evs \<and> belongs ?a date p (o1, d, h)}"
  proof -
    have listed: "(so_platform o1 \<noteq> CUSTOMEVENTS \<and> day_list ?a date ?p = ''statistics_processed_messages:'' @ day_prefix o1 d) \<longleftrightarrow>
        belongs ?a date p (o1, d, h)" if "(o1, d, h) \<in> set evs" for o1 d h
    proof -
      have "CHR '':'' \<notin> set d" using assms(4) that by (auto simp: well_keyed_def)
      from list_iff [OF id_no_colon assms(3) this, of a p o1 h] assms(2) show ?thesis by (auto simp: belongs_def)
    qed
    show ?thesis unfolding day_run_entries
      by (simp only: no_store_def stat_store.simps list.set Un_empty_left) (use listed in blast)
  qed
  have "day_total f (aggregates_of_day ?st ?a date ?p) =
      sum_list (map (\<lambda>m. fin_value (jsget (ag_counts (message_aggregate ?st (read_entry ?a date ?p m))) f)) ?es)"
    by (simp add: day_total_def aggregates_of_day_def day_list_def comp_def)
  also have "\<dots> = sum_list (map (\<lambda>m. real (?n m)) ?es)"
  proof (rule arg_cong [where f = sum_list], rule map_cong [OF refl])
    fix m assume "m \<in> set ?es"
    then obtain o1 d h where "m = message_entry o1" "(o1, d, h) \<in> set evs" "belongs ?a date p (o1, d, h)"
      unfolding entries by blast
    with message_counts [OF assms this(2,3)]
    show "fin_value (jsget (ag_counts (message_aggregate ?st (read_entry ?a date ?p m))) f) = real (?n m)" by simp
  qed
  also have "\<dots> = real (sum_list (map ?n ?es))" by (rule sum_list_real)
  also have "sum_list (map ?n ?es) = length (filter ?Q evs)"
  proof (rule sum_by_entry)
    show "distinct ?es" by (rule day_run_distinct) (simp add: no_store_def)
    fix x assume "x \<in> set evs" "?Q x"
    moreover obtain o1 d h where "x = (o1, d, h)" by (cases x)
    ultimately show "message_entry (fst x) \<in> set ?es" unfolding entries by auto
  qed
  finally show ?thesis .
qed

text \<open>C19: Nothing is lost and nothing is counted twice between the two services: for every account, day and
  platform, the column of an event name summed over the messages of the day's report is the number of events
  of that name the event service took that day, whatever other accounts, days, platforms and custom events it
  counted in between.\<close>

theorem daily_report_exact:
  assumes "f \<in> set event_fields" and "p \<noteq> CUSTOMEVENTS" and "CHR '':'' \<notin> set date"
    and "\<forall>x \<in> set evs. well_keyed x"
  shows "day_total f (aggregates_of_day (day_run env evs no_store) (id_str a) date (platform_str p)) =
    real (length (filter (\<lambda>x. belongs (id_str a) date p x \<and> so_event (fst x) = f) evs))"
  by (rule daily_report [OF assms])

text \<open>The event names of the providers (\<open>EventsType\<close>).\<close>

definition EventsType :: "string list" where
  "EventsType = [''processed'', ''dropped'', ''delivered'', ''deferred'', ''bounce'', ''blocked'', ''open'', ''click'',
     ''spamreport'', ''unsubscribe'', ''group_unsubscribe'', ''group_resubscribe'', ''account_status_change'',
     ''sent'', ''read'', ''inbound'']"

lemma uncounted_field:
  assumes "counter_name f" "f \<notin> set EventsType" "f \<noteq> ''count''"
    and "\<forall>x \<in> set evs. so_event (fst x) \<in> set EventsType"
  shows "read_count (hashes (day_run env evs no_store) (''statistics:'' @ k)) f = Fin 0"
proof -
  have "holds_count no_store (''statistics:'' @ k) f 0" by (simp add: holds_count_def no_store_def)
  note counted = day_run_count [OF assms(1) refl this, of env evs]
  have "filter (\<lambda>(o1, d, h). statistics_key o1 d = ''statistics:'' @ k \<and> counted_event o1 = f) evs = []"
  proof (rule filter_False, intro ballI)
    fix x assume x: "x \<in> set evs"
    then have "so_event (fst x) \<noteq> f" using assms(2,4) by blast
    then have "counted_event (fst x) \<noteq> f" using assms(3) by (auto simp: counted_event_def)
    then show "\<not> (case x of (o1, d, h) \<Rightarrow> statistics_key o1 d = ''statistics:'' @ k \<and> counted_event o1 = f)"
      by (cases x) simp
  qed
  with read_count_holds [OF counted] show ?thesis by (simp only: list.size add_0_left of_nat_0)
qed

lemma statisticsKey_shape: "\<exists>k. mi_statisticsKey (read_entry a d p m) = ''statistics:'' @ k"
  by (simp add: read_entry_def Let_def)

text \<open>Result: Three columns of the report stay at zero whatever happens: the service counts a complaint under the
  provider's name, spamreport, where the report reads spam_report, and it counts a device only when it is a
  mobile one, so no open or click ever comes from a desktop.\<close>

theorem columns_always_zero:
  assumes "\<forall>x \<in> set evs. so_event (fst x) \<in> set EventsType"
    and "agg \<in> set (aggregates_of_day (day_run env evs no_store) account date pf)"
  shows "jsget (ag_counts agg) ''spam_report'' = Some (Fin 0) \<and>
    jsget (ag_devices agg) ''desktop_open'' = Some (Fin 0) \<and> jsget (ag_devices agg) ''desktop_click'' = Some (Fin 0)"
proof -
  obtain m where m: "agg = message_aggregate (day_run env evs no_store) (read_entry account date pf m)"
    using assms(2) by (auto simp: aggregates_of_day_def)
  obtain k where k: "mi_statisticsKey (read_entry account date pf m) = ''statistics:'' @ k"
    using statisticsKey_shape by blast
  have names: "list_all (\<lambda>f. counter_name f \<and> f \<notin> set EventsType \<and> f \<noteq> ''count'' \<and> f \<noteq> ''unique_open'' \<and> f \<noteq> ''unique_click'')
      [''spam_report'', ''desktop_open'', ''desktop_click'']" by code_simp
  have zero: "read_count (hashes (day_run env evs no_store) (''statistics:'' @ k)) f = Fin 0 \<and>
      f \<noteq> ''unique_open'' \<and> f \<noteq> ''unique_click''"
    if "f \<in> set [''spam_report'', ''desktop_open'', ''desktop_click'']" for f
    using names that uncounted_field [OF _ _ _ assms(1), of f env k] by (auto simp: list_all_iff)
  have known: "''spam_report'' \<in> set plain_fields" "''desktop_open'' \<in> set device_fields"
    "''desktop_click'' \<in> set device_fields" by (simp_all add: plain_fields_def device_fields_def)
  show ?thesis
    using zero [of "''spam_report''"] zero [of "''desktop_open''"] zero [of "''desktop_click''"] known
    unfolding m message_aggregate_def Let_def aggregateRedisData_def k
    by (simp add: map_of_table read_count_jsset not_sym)
qed

section \<open>A day of two events\<close>

definition demo_event :: "string \<Rightarrow> nat \<Rightarrow> stat_options" where
  "demo_event e contact = \<lparr>accountId = Id 1, messageId = Id 7, eventId = Id 3, so_event = e, contactId = Id contact,
     so_platform = EMAIL, so_type = Some Campaign, timeZone = ''UTC'', so_timestamp = 5, pool = ''p'',
     utmCampaign = '''', providerAccount = ''main'', linkPosition = None, userAgent = ''Mozilla'',
     emailProvider = ''Gmail'', isTestAb = False, sent_at = None, so_email = ''a@b.c'', uuid = '''', geoData = None\<rparr>"

definition demo_stat_env :: stat_env where
  "demo_stat_env = \<lparr>se_cal = \<lambda>z t. Inr (''2023-11-14'', ''22''), se_now = 10000,
     se_parser = \<lambda>u. \<lparr>browser = Some ''Chrome'', os = None, is_mobile = False\<rparr>\<rparr>"

definition demo_day :: "day_event list" where
  "demo_day = [(demo_event ''open'' 5, ''2023-11-14'', ''22''), (demo_event ''spamreport'' 6, ''2023-11-14'', ''23'')]"

lemma reader_finds_counters_witness:
  "mi_uniqueOpenKey (read_entry ''1'' ''2023-11-14'' ''email'' (message_entry (demo_event ''open'' 5)))
     = unique_events_key (demo_event ''open'' 5) ''open'' ''2023-11-14''"
proof -
  have "plain_provider (demo_event ''open'' 5)" by code_simp
  moreover have "so_platform (demo_event ''open'' 5) \<noteq> CUSTOMEVENTS" "so_type (demo_event ''open'' 5) \<noteq> None"
    "id_truthy (messageId (demo_event ''open'' 5))" by (simp_all add: demo_event_def)
  moreover have "id_str (accountId (demo_event ''open'' 5)) = ''1''" "platform_str (so_platform (demo_event ''open'' 5)) = ''email''"
    by code_simp+
  ultimately show ?thesis using reader_finds_counters [of "demo_event ''open'' 5" "''2023-11-14''"] by simp
qed

lemma demo_day_well: "list_all well_keyed demo_day" "list_all (\<lambda>x. so_event (fst x) \<in> set EventsType) demo_day"
  by code_simp+

lemma daily_report_exact_witness:
  "day_total ''open'' (aggregates_of_day (day_run demo_stat_env demo_day no_store) (id_str (Id 1)) ''2023-11-14'' (platform_str EMAIL)) = 1"
proof -
  have f: "''open'' \<in> set event_fields" by code_simp
  have e: "EMAIL \<noteq> CUSTOMEVENTS" by simp
  have c: "CHR '':'' \<notin> set ''2023-11-14''" by code_simp
  have w: "\<forall>x \<in> set demo_day. well_keyed x" using demo_day_well by (simp add: list_all_iff)
  have "length (filter (\<lambda>x. belongs (id_str (Id 1)) ''2023-11-14'' EMAIL x \<and> so_event (fst x) = ''open'') demo_day) = 1"
    by code_simp
  with daily_report_exact [OF f e c w, of demo_stat_env "Id 1"] show ?thesis by simp
qed

lemma columns_always_zero_witness:
  "\<exists>agg. agg \<in> set (aggregates_of_day (day_run demo_stat_env demo_day no_store) ''1'' ''2023-11-14'' ''email'') \<and>
     jsget (ag_counts agg) ''spam_report'' = Some (Fin 0)"
proof -
  have "day_list ''1'' ''2023-11-14'' ''email'' = ''statistics_processed_messages:'' @ day_prefix (demo_event ''open'' 5) ''2023-11-14''"
    by code_simp
  then have "message_entry (demo_event ''open'' 5) \<in> set (sets (day_run demo_stat_env demo_day no_store) (day_list ''1'' ''2023-11-14'' ''email''))"
    unfolding day_run_entries by (auto simp: demo_day_def demo_event_def)
  then have "message_aggregate (day_run demo_stat_env demo_day no_store)
      (read_entry ''1'' ''2023-11-14'' ''email'' (message_entry (demo_event ''open'' 5)))
      \<in> set (aggregates_of_day (day_run demo_stat_env demo_day no_store) ''1'' ''2023-11-14'' ''email'')"
    by (simp add: aggregates_of_day_def day_list_def)
  moreover have "\<forall>x \<in> set demo_day. so_event (fst x) \<in> set EventsType"
    using demo_day_well(2) by (simp add: list_all_iff)
  ultimately show ?thesis using columns_always_zero [of demo_day _ demo_stat_env "''1''" "''2023-11-14''" "''email''"] by blast
qed

text \<open>An event name with an underscore is cut: its counts by provider go to another event and to no
  provider.\<close>

lemma underscore_event_cut:
  "by_event ''email_provider_'' 2 [(''email_provider_group_unsubscribe_Gmail'', Count 4)] =
     [(''group'', [(''unsubscribe'', Fin 4)])]"
  "by_event ''email_provider_'' 2 [(''email_provider_open_Gmail'', Count 4)] = [(''open'', [(''Gmail'', Fin 4)])]"
  by (simp_all add: by_event_def Let_def part_def opt_str_def field_value_def)

end
