(* ===== verification/EventIntake.thy ===== *)
theory EventIntake
  imports EventStats
begin

text \<open>
  Taking in events once: \<open>processWithIdempotency\<close> of
  \<open>src/apps/event-process/src/events/services/events.service.ts\<close> with its lock and its marker in
  Redis. The processor is a parameter: an arbitrary program over the state, so it may let time pass
  and stand for whatever other workers do to Redis meanwhile.
\<close>

section \<open>The keys\<close>

datatype change_value = CTime int | CDate string | CBool bool | CNull

type_synonym changes = "(string \<times> change_value) list"

record trigger =
  tr_accountId :: jsid
  tr_event :: string
  tr_contactId :: jsid
  tr_messageId :: string
  tr_isTriggerCampaign :: bool

record event_log =
  lg_time :: int
  lg_date :: string
  lg_accountId :: jsid
  lg_event :: string
  lg_email :: string
  lg_contactId :: jsid
  lg_automationId :: jsid
  lg_campaignId :: jsid
  lg_messageId :: jsid
  lg_utmCampaign :: "string option"
  lg_provider_account :: string
  lg_isTestAb :: bool
  lg_reason :: string
  lg_pool :: "string option"
  lg_linkPosition :: "nat option"
  lg_ip :: string
  lg_secondsSinceSent :: "int option"
  lg_attempt :: "nat option"
  lg_bounce :: "(string \<times> string \<times> string) option"
  lg_delivered_id :: string

datatype intake_effect =
    Slack string
  | PublishTarget jsid jsid jsid
  | PublishActivations "jsid list"
  | PublishTrigger trigger
  | UpdateContacts "nat list" jsid changes
  | UpdateValidation "string list" changes
  | ClearValidationUnsubscribed "string list"
  | BounceContacts "(nat \<times> int) list" string jsid
  | BounceValidation "(string \<times> int) list"
  | AnalyticsEvent event_log
  | SaveLogs "event_log list"
  | CountTest string string

text \<open>Text keys with the time they expire, the counters, and what left the service.\<close>

record intake =
  in_now :: int
  in_keys :: "string \<Rightarrow> (string \<times> int) option"
  in_stats :: stat_store
  in_out :: "intake_effect list"

type_synonym 'a intake_prog = "(intake, 'a) prog"

definition live_key :: "intake \<Rightarrow> string \<Rightarrow> string option" where
  "live_key s k = (case in_keys s k of None \<Rightarrow> None | Some (v, e) \<Rightarrow> if in_now s < e then Some v else None)"

definition set_ex :: "string \<Rightarrow> string \<Rightarrow> int \<Rightarrow> intake \<Rightarrow> intake" where
  "set_ex k v seconds s = s\<lparr>in_keys := (in_keys s)(k \<mapsto> (v, in_now s + 1000 * seconds))\<rparr>"

definition set_nx :: "string \<Rightarrow> string \<Rightarrow> int \<Rightarrow> bool intake_prog" where
  "set_nx k v seconds s =
     (if live_key s k = None then (Inr True, set_ex k v seconds s) else (Inr False, s))"

definition del_key :: "string \<Rightarrow> intake \<Rightarrow> intake" where
  "del_key k s = s\<lparr>in_keys := (in_keys s)(k := None)\<rparr>"

definition emit :: "intake_effect \<Rightarrow> unit intake_prog" where
  "emit e = prog_set (\<lambda>s. s\<lparr>in_out := in_out s @ [e]\<rparr>)"

section \<open>Once\<close>

definition PROCESSED_TTL_SECONDS :: int where
  "PROCESSED_TTL_SECONDS = 60 * 60"

definition lock_key :: "string \<Rightarrow> string" where
  "lock_key key = ''event-process:processing_lock:'' @ key"

definition processed_key :: "string \<Rightarrow> string" where
  "processed_key key = ''event-process:processed_message:'' @ key"

definition acquireLock :: "string \<Rightarrow> string \<Rightarrow> string option intake_prog" where
  "acquireLock key token =
     prog_then (set_nx (lock_key key) token 60) (\<lambda>ok. prog_ret (if ok then Some token else None))"

definition releaseLock :: "string \<Rightarrow> string \<Rightarrow> intake \<Rightarrow> intake" where
  "releaseLock key token s =
     (if live_key s (lock_key key) = Some token then del_key (lock_key key) s else s)"

definition isMessageProcessed :: "string \<Rightarrow> intake \<Rightarrow> bool" where
  "isMessageProcessed key s \<longleftrightarrow> live_key s (processed_key key) \<noteq> None"

definition markMessageAsProcessed :: "string \<Rightarrow> intake \<Rightarrow> intake" where
  "markMessageAsProcessed key s = set_ex (processed_key key) ''1'' PROCESSED_TTL_SECONDS s"

datatype intake_result = Done | Skipped string

definition processWithIdempotency :: "string \<Rightarrow> string \<Rightarrow> intake_result intake_prog \<Rightarrow> intake_result intake_prog" where
  "processWithIdempotency key token processor s =
     (if key = '''' then (Inl ''Message ID is required'', s)
      else if isMessageProcessed key s then (Inr (Skipped ''Message already processed''), s)
      else (case acquireLock key token s of
          (Inr (Some lockToken), s1) \<Rightarrow>
            (let (r, s2) =
               (if isMessageProcessed key s1 then (Inr (Skipped ''Message already processed''), s1)
                else (case processor s1 of
                    (Inl e, s2) \<Rightarrow> (Inl e, s2)
                  | (Inr r, s2) \<Rightarrow> (Inr r, markMessageAsProcessed key s2)))
             in (r, releaseLock key lockToken s2))
        | (Inr None, s1) \<Rightarrow> (Inr (Skipped ''Message is currently being processed''), s1)
        | (Inl e, s1) \<Rightarrow> (Inl e, s1)))"

section \<open>Laws of the lock and the marker\<close>

lemma keys_apart: "lock_key m \<noteq> processed_key m'" "processed_key m' \<noteq> lock_key m"
  by (simp_all add: lock_key_def processed_key_def)

lemma live_set_ex: "0 < seconds \<Longrightarrow> live_key (set_ex k v seconds s) k' = (if k' = k then Some v else live_key s k')"
  by (simp add: live_key_def set_ex_def split: option.split)

lemma live_del: "live_key (del_key k s) k' = (if k' = k then None else live_key s k')"
  by (simp add: live_key_def del_key_def split: option.split)

lemma live_release:
  "live_key (releaseLock m t s) k =
     (if k = lock_key m \<and> live_key s (lock_key m) = Some t then None else live_key s k)"
  by (simp add: releaseLock_def live_del)

lemma processed_release [simp]: "isMessageProcessed m (releaseLock m' t s) = isMessageProcessed m s"
  by (simp add: isMessageProcessed_def live_release keys_apart)

lemma processed_marked: "isMessageProcessed m (markMessageAsProcessed m s)"
  by (simp add: isMessageProcessed_def markMessageAsProcessed_def live_set_ex PROCESSED_TTL_SECONDS_def)

text \<open>Taking the lock.\<close>

definition locked :: "string \<Rightarrow> string \<Rightarrow> intake \<Rightarrow> intake" where
  "locked m t s = set_ex (lock_key m) t 60 s"

lemma acquireLock_free: "live_key s (lock_key m) = None \<Longrightarrow> acquireLock m t s = (Inr (Some t), locked m t s)"
  by (simp add: acquireLock_def set_nx_def prog_defs locked_def)

lemma acquireLock_taken: "live_key s (lock_key m) \<noteq> None \<Longrightarrow> acquireLock m t s = (Inr None, s)"
  by (simp add: acquireLock_def set_nx_def prog_defs)

lemma processed_locked [simp]: "isMessageProcessed m (locked m' t s) = isMessageProcessed m s"
  by (simp add: isMessageProcessed_def locked_def live_set_ex keys_apart)

text \<open>What a call does with a free lock and no marker.\<close>

lemma process_runs:
  assumes "m \<noteq> ''''" "\<not> isMessageProcessed m s" "live_key s (lock_key m) = None"
  shows "processWithIdempotency m t processor s = (case processor (locked m t s) of
      (Inl e, s2) \<Rightarrow> (Inl e, releaseLock m t s2)
    | (Inr r, s2) \<Rightarrow> (Inr r, releaseLock m t (markMessageAsProcessed m s2)))"
  using assms(1,2)
  by (simp add: processWithIdempotency_def acquireLock_free [OF assms(3)] split: prod.split sum.split)

lemma process_busy:
  assumes "m \<noteq> ''''" "\<not> isMessageProcessed m s" "live_key s (lock_key m) \<noteq> None"
  shows "processWithIdempotency m t processor s = (Inr (Skipped ''Message is currently being processed''), s)"
  using assms by (simp add: processWithIdempotency_def acquireLock_taken)

lemma process_marked:
  assumes "m \<noteq> ''''" "isMessageProcessed m s"
  shows "processWithIdempotency m t processor s = (Inr (Skipped ''Message already processed''), s)"
  using assms by (simp add: processWithIdempotency_def)

lemma process_skips:
  assumes "processWithIdempotency m t processor s = (Inr r, s')" "s' \<noteq> s"
  shows "m \<noteq> ''''" "\<not> isMessageProcessed m s" "live_key s (lock_key m) = None"
proof -
  show m: "m \<noteq> ''''" using assms by (auto simp: processWithIdempotency_def)
  show p: "\<not> isMessageProcessed m s" using assms process_marked [OF m] by auto
  show "live_key s (lock_key m) = None" using assms process_busy [OF m p] by fastforce
qed

section \<open>Properties\<close>

text \<open>C22: An event that was processed is not processed again: after a call that ran the processor and returned,
  every further call with the same key within the hour returns at once, leaves Redis and the outside world as
  they are, and never runs its processor.\<close>

theorem processed_once:
  assumes "processWithIdempotency m t processor s = (Inr r, s')" and "s' \<noteq> s"
    and "now' < in_now (snd (processor (locked m t s))) + 3600000"
    and "s2 = s'\<lparr>in_now := now'\<rparr>"
  shows "processWithIdempotency m t' processor' s2 = (Inr (Skipped ''Message already processed''), s2)"
proof -
  have free: "m \<noteq> ''''" "\<not> isMessageProcessed m s" "live_key s (lock_key m) = None"
    using process_skips [OF assms(1,2)] by blast+
  obtain x u where p: "processor (locked m t s) = (x, u)" by (cases "processor (locked m t s)")
  have s': "s' = releaseLock m t (markMessageAsProcessed m u)"
    using assms(1) by (cases x) (auto simp: process_runs [OF free] p)
  have "in_keys s' (processed_key m) = Some (''1'', in_now u + 3600000)"
    by (auto simp: s' releaseLock_def del_key_def markMessageAsProcessed_def set_ex_def keys_apart PROCESSED_TTL_SECONDS_def)
  then have "isMessageProcessed m s2"
    using assms(3) by (simp add: isMessageProcessed_def live_key_def assms(4) p)
  then show ?thesis by (rule process_marked [OF free(1)])
qed

text \<open>Result: A failed event can be tried again and never keeps another worker out: when the processor throws, the
  call ends with its error, no marker is set, the call's own lock is gone, and a lock that another worker took
  meanwhile is still there.\<close>

theorem failed_call_leaves_no_trace:
  assumes "m \<noteq> ''''" and "\<not> isMessageProcessed m s" and "live_key s (lock_key m) = None"
    and "processor (locked m t s) = (Inl e, u)"
  shows "fst (processWithIdempotency m t processor s) = Inl e \<and>
    isMessageProcessed m (snd (processWithIdempotency m t processor s)) = isMessageProcessed m u \<and>
    live_key (snd (processWithIdempotency m t processor s)) (lock_key m) \<noteq> Some t \<and>
    (live_key u (lock_key m) \<noteq> Some t \<longrightarrow> snd (processWithIdempotency m t processor s) = u)"
  unfolding process_runs [OF assms(1-3)] assms(4) by (simp add: live_release) (simp add: releaseLock_def)

definition empty_intake :: intake where
  "empty_intake = \<lparr>in_now = 0, in_keys = \<lambda>_. None, in_stats = no_store, in_out = []\<rparr>"

lemma processed_once_witness:
  "processWithIdempotency ''m'' ''t2'' (prog_throw ''boom'')
      ((snd (processWithIdempotency ''m'' ''t'' (prog_ret Done) empty_intake))\<lparr>in_now := 5\<rparr>) =
    (Inr (Skipped ''Message already processed''),
     (snd (processWithIdempotency ''m'' ''t'' (prog_ret Done) empty_intake))\<lparr>in_now := 5\<rparr>)"
proof -
  have free: "''m'' \<noteq> ''''" "\<not> isMessageProcessed ''m'' empty_intake" "live_key empty_intake (lock_key ''m'') = None"
    by (simp_all add: isMessageProcessed_def live_key_def empty_intake_def)
  let ?s = "releaseLock ''m'' ''t'' (markMessageAsProcessed ''m'' (locked ''m'' ''t'' empty_intake))"
  have run: "processWithIdempotency ''m'' ''t'' (prog_ret Done) empty_intake = (Inr Done, ?s)"
    unfolding process_runs [OF free] by (simp add: prog_ret_def)
  have marked: "isMessageProcessed ''m'' ?s" by (simp add: processed_marked)
  have other: "?s \<noteq> empty_intake"
  proof
    assume "?s = empty_intake"
    with marked free(2) show False by (simp only: not_False_eq_True)
  qed
  have time: "5 < in_now (snd (prog_ret Done (locked ''m'' ''t'' empty_intake))) + 3600000"
    by (simp add: prog_ret_def locked_def set_ex_def empty_intake_def)
  show ?thesis using processed_once [OF run other time refl, of "''t2''" "prog_throw ''boom''"] by (simp add: run)
qed

lemma failed_call_leaves_no_trace_witness:
  "fst (processWithIdempotency ''m'' ''t'' (prog_throw ''boom'') empty_intake) = Inl ''boom''"
proof -
  have free: "''m'' \<noteq> ''''" "\<not> isMessageProcessed ''m'' empty_intake" "live_key empty_intake (lock_key ''m'') = None"
    by (simp_all add: isMessageProcessed_def live_key_def empty_intake_def)
  have "prog_throw ''boom'' (locked ''m'' ''t'' empty_intake) = (Inl ''boom'', locked ''m'' ''t'' empty_intake)"
    by (simp add: prog_throw_def)
  then show ?thesis using failed_call_leaves_no_trace [OF free] by blast
qed

end
