(* ===== verification/SendgridEvents.thy ===== *)
theory SendgridEvents
  imports EventIntake
begin

text \<open>
  The webhook batches of SendGrid (\<open>src/apps/event-process/src/events/services/sendgrid.service.ts\<close>,
  with \<open>eventsTrigger\<close>, \<open>createRedisKey\<close> and \<open>deleteRedisKey\<close> of \<open>events.service.ts\<close>): the filter of
  events seen before, the loop that sorts a batch into groups by account and kind, the counters and logs, and
  the changes of contacts by kind. The database, the lookup of addresses and the calendar are parameters; the
  url and the parsed user agent of a log entry are left out. Identifiers are texts of decimal digits: any
  other text counts as no number.
\<close>

section \<open>Events of a batch\<close>

record sg_event =
  sg_email :: string
  sg_timestamp :: int
  sg_kind :: string
  sg_category :: "string list"
  sg_event_id :: string
  sg_message_id :: string
  sg_reason :: string
  sg_response :: string
  sg_attempt :: "nat option"
  sg_status :: string
  sg_type :: string
  sg_ip :: string
  sg_useragent :: string
  sg_position :: "nat option"
  sg_contactId :: "string option"
  sg_sent_at :: "int option"
  sg_bounce_classification :: string
  sg_geo :: "geo option"

record contact =
  ct_last_open :: "int option"

record sg_env =
  se_stat :: stat_env
  se_zone :: "jsid \<Rightarrow> string"
  se_contact :: "jsid \<Rightarrow> jsid \<Rightarrow> contact option"
  se_geo :: "string \<Rightarrow> geo option"
  se_database :: "intake_effect \<Rightarrow> string option"
  se_connected :: "string + unit"

text \<open>\<open>Number(text)\<close> of an identifier, and the text and truth of a missing one.\<close>

definition to_id :: "string \<Rightarrow> jsid" where
  "to_id s = (if js_trim s = '''' then Id 0 else if all_digits s then Id (digits_val s) else NaNId)"

definition opt_id :: "string option \<Rightarrow> jsid" where
  "opt_id s = (case s of None \<Rightarrow> NaNId | Some t \<Rightarrow> to_id t)"

definition text_truthy :: "string option \<Rightarrow> bool" where
  "text_truthy s = (case s of None \<Rightarrow> False | Some t \<Rightarrow> t \<noteq> '''')"

definition id_or_null :: "jsid \<Rightarrow> jsid" where
  "id_or_null i = (if id_truthy i then i else NoId)"

definition uniq :: "'a list \<Rightarrow> 'a list" where
  "uniq xs = fold set_add xs []"

definition forEach :: "('a \<Rightarrow> unit intake_prog) \<Rightarrow> 'a list \<Rightarrow> unit intake_prog" where
  "forEach f xs = foldr (\<lambda>x m. prog_then (f x) (\<lambda>_. m)) xs (prog_ret ())"

text \<open>\<open>Promise.all\<close>: all of them run, the first that failed decides.\<close>

fun promise_all :: "unit intake_prog list \<Rightarrow> unit intake_prog" where
  "promise_all [] s = (Inr (), s)"
| "promise_all (p # ps) s =
     (case p s of (r, s1) \<Rightarrow> (case promise_all ps s1 of (rs, s2) \<Rightarrow> (case r of Inl e \<Rightarrow> Inl e | Inr _ \<Rightarrow> rs, s2)))"

definition database :: "sg_env \<Rightarrow> intake_effect \<Rightarrow> unit intake_prog" where
  "database env e = (case se_database env e of
     None \<Rightarrow> emit e | Some err \<Rightarrow> prog_throw err)"

section \<open>Events seen before\<close>

definition seen_key :: "string \<Rightarrow> string" where
  "seen_key i = ''event:sendgrid:'' @ i"

text \<open>The pipeline has one command for every event with an id; its results are read by the index of the
  event, and a result that is not there throws.\<close>

fun mark_seen :: "string list \<Rightarrow> bool list intake_prog" where
  "mark_seen [] s = (Inr [], s)"
| "mark_seen (i # ids) s =
     (if i = '''' then mark_seen ids s
      else prog_then (set_nx (seen_key i) ''1'' 600) (\<lambda>ok. prog_then (mark_seen ids) (\<lambda>rs. prog_ret (ok # rs))) s)"

fun keep_new :: "sg_event list \<Rightarrow> bool list \<Rightarrow> string + sg_event list" where
  "keep_new [] rs = Inr []"
| "keep_new (e # es) [] = Inl ''Cannot read properties of undefined (reading 1)''"
| "keep_new (e # es) (r # rs) =
     (case keep_new es rs of Inl err \<Rightarrow> Inl err | Inr ys \<Rightarrow> Inr (if r then e # ys else ys))"

definition filterDuplicateEvents :: "sg_event list \<Rightarrow> sg_event list intake_prog" where
  "filterDuplicateEvents events =
     prog_then (mark_seen (map sg_event_id events)) (\<lambda>results. prog_lift (keep_new events results))"

section \<open>Bounces\<close>

definition recipientIssueReasons :: "string list" where
  "recipientIssueReasons =
     [''The email account that you tried to reach is over quota'',
      ''The email account that you tried to reach does not exist'', ''Quota exceeded'', ''User unknown'',
      ''mailbox not found'', ''mailbox is over quota'']"

definition isRecipientIssueBounce :: "string \<Rightarrow> string \<Rightarrow> bool" where
  "isRecipientIssueBounce reason bounceClass =
     (if bounceClass \<in> {''Invalid Address'', ''Mailbox Unavailable''} then True
      else if reason \<noteq> '''' \<and> list_ex (\<lambda>item. str_includes (to_lower reason) (to_lower item)) recipientIssueReasons
      then True else False)"

definition is_bounce :: "sg_event \<Rightarrow> bool" where
  "is_bounce e \<longleftrightarrow> sg_kind e = ''bounce'' \<or> sg_kind e = ''blocked''"

definition sender_issue :: "sg_event \<Rightarrow> bool" where
  "sender_issue e \<longleftrightarrow> is_bounce e \<and> \<not> isRecipientIssueBounce (sg_reason e) (sg_bounce_classification e)"

section \<open>The loop over a batch\<close>

record group =
  gr_accountId :: jsid
  gr_timeZone :: string
  gr_events :: "(string, sg_event list) jsmap"
  gr_logs :: "event_log list"

record testab_event =
  ta_campaignId :: "string option"
  ta_messageId :: string
  ta_eventType :: string

record organized =
  og_groups :: "(string, group) jsmap"
  og_testAb :: "testab_event list"
  og_targets :: "(jsid \<times> jsid \<times> jsid) list"
  og_activations :: "jsid list"
  og_pipeline :: "redis_cmd list"

definition to_group :: "string \<Rightarrow> sg_event \<Rightarrow> group \<Rightarrow> group" where
  "to_group type e g =
     g\<lparr>gr_events := jsset type ((case jsget (gr_events g) type of None \<Rightarrow> [] | Some es \<Rightarrow> es) @ [e]) (gr_events g)\<rparr>"

definition route_dropped :: "sg_event \<Rightarrow> group \<Rightarrow> group" where
  "route_dropped e g =
     (if sg_reason e = ''Unsubscribed Address'' \<or> sg_reason e = ''Spam Reporting Address''
      then to_group ''unsubscribe'' e g
      else if sg_reason e = ''Bounced Address'' then to_group ''bounce'' (e\<lparr>sg_type := ''bounce''\<rparr>) g
      else g)"

definition route_event :: "sg_event \<Rightarrow> group \<Rightarrow> group" where
  "route_event e g =
     (if sg_kind e = ''dropped'' then route_dropped e g
      else if sender_issue e then g else to_group (sg_kind e) e g)"

definition category :: "sg_event \<Rightarrow> string \<Rightarrow> string option" where
  "category e name = parseEventType_event (sg_category e) name"

definition month_ago :: "int \<Rightarrow> int" where
  "month_ago now = now - 1000 * 60 * 60 * 24 * 30"

definition inactive :: "int \<Rightarrow> contact option \<Rightarrow> bool" where
  "inactive now c = (case c of None \<Rightarrow> False
     | Some x \<Rightarrow> (case ct_last_open x of None \<Rightarrow> True | Some t \<Rightarrow> t < month_ago now))"

definition delay :: "sg_event \<Rightarrow> int option" where
  "delay e = (case sg_sent_at e of
     None \<Rightarrow> None
   | Some sent \<Rightarrow> if sg_timestamp e \<noteq> 0 then Some \<lfloor>real_of_int (sg_timestamp e) - real_of_int sent / 1000\<rfloor> else None)"

definition first_text :: "string \<Rightarrow> string \<Rightarrow> string" where
  "first_text a b = (if a \<noteq> '''' then a else b)"

definition event_log_of :: "string \<Rightarrow> string \<Rightarrow> jsid \<Rightarrow> jsid \<Rightarrow> sg_event \<Rightarrow> event_log" where
  "event_log_of providerName date acc msg e =
     \<lparr>lg_time = sg_timestamp e * 1000, lg_date = date, lg_accountId = acc,
      lg_event = normalizeEvents (sg_kind e), lg_email = sg_email e,
      lg_contactId = (if sg_contactId e = Some ''undefined'' then NoId else id_or_null (opt_id (sg_contactId e))),
      lg_automationId = id_or_null (opt_id (category e ''automation-id'')),
      lg_campaignId = id_or_null (opt_id (category e ''campaign'')), lg_messageId = id_or_null msg,
      lg_utmCampaign = category e ''utmcampaign'', lg_provider_account = providerName,
      lg_isTestAb = text_truthy (category e ''testab-message''), lg_reason = first_text (sg_reason e) (sg_response e),
      lg_pool = category e ''pool'', lg_linkPosition = (if sg_kind e = ''click'' then sg_position e else None),
      lg_ip = (if sg_kind e \<in> {''delivered'', ''deferred'', ''open'', ''click''} \<and> sg_ip e \<noteq> ''unknown''
               then sg_ip e else ''''),
      lg_secondsSinceSent = (if sg_kind e \<in> {''delivered'', ''deferred'', ''open''} then delay e else None),
      lg_attempt = (if sg_kind e = ''deferred'' then sg_attempt e else None),
      lg_bounce = (if is_bounce e
        then Some (sg_bounce_classification e,
                   if sg_type e = ''blocked'' \<or> sg_kind e = ''blocked'' then ''SOFT'' else ''HARD'', sg_status e)
        else None),
      lg_delivered_id = sg_message_id e\<rparr>"

definition message_kind_of :: "sg_event \<Rightarrow> message_kind" where
  "message_kind_of e =
     (if category e ''type'' = Some ''email'' then Automation
      else if category e ''type'' = Some ''campaign'' then Campaign else Transactional)"

definition statistics_event :: "sg_event \<Rightarrow> string" where
  "statistics_event e = (if sender_issue e then ''blocked'' else sg_kind e)"

definition or_empty :: "string option \<Rightarrow> string" where
  "or_empty s = (case s of None \<Rightarrow> '''' | Some t \<Rightarrow> t)"

definition statistics_of :: "string \<Rightarrow> string \<Rightarrow> jsid \<Rightarrow> jsid \<Rightarrow> string \<Rightarrow> sg_event \<Rightarrow> stat_options" where
  "statistics_of providerName zone acc msg mailbox e =
     \<lparr>accountId = acc, messageId = msg,
      eventId = (if message_kind_of e = Campaign \<and> id_truthy (opt_id (category e ''campaign''))
                 then opt_id (category e ''campaign'')
                 else if id_truthy (opt_id (category e ''automation-id'')) then opt_id (category e ''automation-id'')
                 else Id 0),
      so_event = statistics_event e, contactId = opt_id (sg_contactId e), so_platform = EMAIL,
      so_type = Some (message_kind_of e), timeZone = zone, so_timestamp = sg_timestamp e,
      pool = or_empty (category e ''pool''), utmCampaign = or_empty (category e ''utmcampaign''),
      providerAccount = providerName, linkPosition = sg_position e, userAgent = sg_useragent e,
      emailProvider = mailbox, isTestAb = text_truthy (category e ''testab-message''), sent_at = sg_sent_at e,
      so_email = sg_email e, uuid = '''', geoData = sg_geo e\<rparr>"

definition new_group :: "sg_env \<Rightarrow> string \<Rightarrow> group" where
  "new_group env accountText = \<lparr>gr_accountId = to_id accountText, gr_timeZone = se_zone env (to_id accountText),
     gr_events = [], gr_logs = []\<rparr>"

definition account_group :: "sg_env \<Rightarrow> organized \<Rightarrow> string \<Rightarrow> group" where
  "account_group env o1 accountText =
     (case jsget (og_groups o1) accountText of Some x \<Rightarrow> x | None \<Rightarrow> new_group env accountText)"

text \<open>The enrichment of an open or a click: the reactivated contact, the place, the target of an automation.\<close>

definition is_engagement :: "sg_event \<Rightarrow> bool" where
  "is_engagement e \<longleftrightarrow> sg_kind e = ''open'' \<or> sg_kind e = ''click''"

definition activated :: "sg_env \<Rightarrow> jsid \<Rightarrow> sg_event \<Rightarrow> jsid list" where
  "activated env acc e =
     (if is_engagement e \<and> text_truthy (sg_contactId e)
         \<and> inactive (se_now (se_stat env)) (se_contact env acc (opt_id (sg_contactId e)))
      then [opt_id (sg_contactId e)] else [])"

definition located :: "sg_env \<Rightarrow> sg_event \<Rightarrow> sg_event" where
  "located env e =
     (if is_engagement e \<and> sg_ip e \<noteq> '''' then
        (case se_geo env (sg_ip e) of
           Some g \<Rightarrow> if country g \<noteq> '''' \<or> g_traits g \<noteq> None then e\<lparr>sg_geo := Some g\<rparr> else e
         | None \<Rightarrow> e)
      else e)"

definition target_key_event :: "jsid \<Rightarrow> jsid \<Rightarrow> string \<Rightarrow> string" where
  "target_key_event acc automation kind =
     ''automation_target:'' @ id_str acc @ '':'' @ id_str automation @ '':'' @ kind"

definition targets :: "intake \<Rightarrow> jsid \<Rightarrow> sg_event \<Rightarrow> (jsid \<times> jsid \<times> jsid) list" where
  "targets s acc e =
     (if is_engagement e \<and> sg_ip e \<noteq> '''' \<and> text_truthy (category e ''automation-id'')
         \<and> live_key s (target_key_event acc (opt_id (category e ''automation-id'')) (sg_kind e)) \<noteq> None
      then [(opt_id (category e ''automation-id''), acc, opt_id (sg_contactId e))] else [])"

definition test_event :: "string \<Rightarrow> sg_event \<Rightarrow> testab_event list" where
  "test_event messageText e =
     (if text_truthy (category e ''testab-message'')
      then [\<lparr>ta_campaignId = category e ''campaign'', ta_messageId = messageText, ta_eventType = statistics_event e\<rparr>]
      else [])"

definition date_of :: "sg_env \<Rightarrow> int \<Rightarrow> string \<Rightarrow> string intake_prog" where
  "date_of env t zone =
     prog_lift (convertTimestampToTimezone (se_cal (se_stat env)) (se_now (se_stat env)) t zone False)"

definition log_event :: "sg_env \<Rightarrow> string \<Rightarrow> jsid \<Rightarrow> jsid \<Rightarrow> sg_event \<Rightarrow> group \<Rightarrow> group intake_prog" where
  "log_event env providerName acc msg e g =
     (if sg_kind e \<noteq> ''processed''
      then prog_then (date_of env (sg_timestamp e) (gr_timeZone g)) (\<lambda>date.
        prog_ret (g\<lparr>gr_logs := gr_logs g @ [event_log_of providerName date acc msg e]\<rparr>))
      else prog_ret g)"

definition count_event :: "sg_env \<Rightarrow> string \<Rightarrow> string \<Rightarrow> jsid \<Rightarrow> jsid \<Rightarrow> sg_event \<Rightarrow> redis_cmd list intake_prog" where
  "count_event env providerName zone acc msg e =
     (if sg_reason e = ''Invalid SMTPAPI header'' then prog_ret []
      else prog_then (prog_lift (getMailBoxProvider_event (sg_email e))) (\<lambda>mailbox.
        prog_lift (updateEventStatistics (se_stat env) (statistics_of providerName zone acc msg mailbox e))))"

definition slack_dropped :: "sg_event \<Rightarrow> unit intake_prog" where
  "slack_dropped e =
     (if sg_kind e = ''dropped'' \<and> sg_reason e = ''Invalid SMTPAPI header''
      then emit (Slack ''Invalid SMTPAPI header'') else prog_ret ())"

definition organize_event :: "sg_env \<Rightarrow> string \<Rightarrow> sg_event \<Rightarrow> organized \<Rightarrow> organized intake_prog" where
  "organize_event env providerName e0 o1 =
     (if sg_kind e0 = ''account_status_change''
      then prog_then (emit (Slack ''account status change'')) (\<lambda>_. prog_ret o1)
      else (case (category e0 ''message'', category e0 ''account'') of
         (Some messageText, Some accountText) \<Rightarrow>
           if messageText = '''' \<or> accountText = '''' then prog_ret o1
           else (let acc = to_id accountText; msg = to_id messageText;
                     g = account_group env o1 accountText
             in if sg_kind e0 \<notin> set EventsType then prog_ret (o1\<lparr>og_groups := jsset accountText g (og_groups o1)\<rparr>)
             else (let e = located env e0 in
               prog_then (slack_dropped e) (\<lambda>_.
               prog_then (log_event env providerName acc msg e (route_event e g)) (\<lambda>g2.
               prog_then (count_event env providerName (gr_timeZone g) acc msg e) (\<lambda>cmds s.
                 (Inr (o1\<lparr>og_groups := jsset accountText g2 (og_groups o1),
                        og_testAb := og_testAb o1 @ test_event messageText e,
                        og_targets := og_targets o1 @ targets s acc e,
                        og_activations := og_activations o1 @ activated env acc e,
                        og_pipeline := og_pipeline o1 @ cmds\<rparr>), s))))))
       | _ \<Rightarrow> prog_ret o1))"

fun organize_loop :: "sg_env \<Rightarrow> string \<Rightarrow> sg_event list \<Rightarrow> organized \<Rightarrow> organized intake_prog" where
  "organize_loop env providerName [] o1 = prog_ret o1"
| "organize_loop env providerName (e # es) o1 =
     prog_then (organize_event env providerName e o1) (organize_loop env providerName es)"

definition no_groups :: organized where
  "no_groups = \<lparr>og_groups = [], og_testAb = [], og_targets = [], og_activations = [], og_pipeline = []\<rparr>"

definition organizeEventsData :: "sg_env \<Rightarrow> string \<Rightarrow> sg_event list \<Rightarrow> organized intake_prog" where
  "organizeEventsData env providerName events = organize_loop env providerName events no_groups"

section \<open>Contacts\<close>

text \<open>The number of the contact, for an event that names one.\<close>

definition event_contact :: "sg_event \<Rightarrow> nat option" where
  "event_contact e =
     (if text_truthy (sg_contactId e) then (case opt_id (sg_contactId e) of Id n \<Rightarrow> Some n | _ \<Rightarrow> None) else None)"

definition contact_ids :: "sg_event list \<Rightarrow> nat list" where
  "contact_ids events = uniq (List.map_filter event_contact events)"

definition emails_of :: "sg_event list \<Rightarrow> string list" where
  "emails_of events = uniq (map sg_email events)"

definition createRedisKey :: "string \<Rightarrow> string list \<Rightarrow> int \<Rightarrow> unit intake_prog" where
  "createRedisKey keyName emails expireInHours =
     prog_set (fold (\<lambda>email. set_ex (keyName @ '':'' @ email) ''true'' (60 * 60 * expireInHours)) emails)"

definition deleteRedisKey :: "string \<Rightarrow> string list \<Rightarrow> unit intake_prog" where
  "deleteRedisKey keyName emails = prog_set (fold (\<lambda>email. del_key (keyName @ '':'' @ email)) emails)"

text \<open>The latest time for each key, in the order the keys appear.\<close>

definition keep_latest :: "'k \<Rightarrow> int \<Rightarrow> ('k, int) jsmap \<Rightarrow> ('k, int) jsmap" where
  "keep_latest k ts m = (case jsget m k of
     None \<Rightarrow> jsset k ts m | Some existing \<Rightarrow> if ts > existing then jsset k ts m else m)"

definition contact_map :: "sg_event list \<Rightarrow> (nat, int) jsmap" where
  "contact_map events = fold (\<lambda>e m. case event_contact e of
     Some n \<Rightarrow> keep_latest n (sg_timestamp e * 1000) m | None \<Rightarrow> m) events []"

definition email_map :: "sg_event list \<Rightarrow> (string, int) jsmap" where
  "email_map events = fold (\<lambda>e. keep_latest (sg_email e) (sg_timestamp e * 1000)) events []"

definition updateContactsWithBounceType :: "sg_env \<Rightarrow> jsid \<Rightarrow> sg_event list \<Rightarrow> string \<Rightarrow> unit intake_prog" where
  "updateContactsWithBounceType env acc events bounceType =
     prog_then (promise_all [database env (BounceContacts (contact_map events) bounceType acc),
                             database env (BounceValidation (email_map events))]) (\<lambda>_.
     createRedisKey (id_str acc @ '':disengaged'') (emails_of events) 48)"

definition hard_bounces :: "string \<Rightarrow> sg_event list \<Rightarrow> sg_event list" where
  "hard_bounces type events = filter (\<lambda>e. type = ''bounce'' \<and> sg_type e \<noteq> ''blocked'') events"

definition soft_bounces :: "string \<Rightarrow> sg_event list \<Rightarrow> sg_event list" where
  "soft_bounces type events =
     (let hardContactIds = List.map_filter event_contact (hard_bounces type events)
      in filter (\<lambda>e. case event_contact e of None \<Rightarrow> True | Some n \<Rightarrow> n \<notin> set hardContactIds)
           (filter (\<lambda>e. type = ''blocked'' \<or> sg_type e = ''blocked'') events))"

definition updateBouncedContacts :: "sg_env \<Rightarrow> string \<Rightarrow> jsid \<Rightarrow> sg_event list \<Rightarrow> unit intake_prog" where
  "updateBouncedContacts env type acc events =
     (let hardBounces = hard_bounces type events; softBounces = soft_bounces type events in
      prog_then (if hardBounces \<noteq> [] then updateContactsWithBounceType env acc hardBounces ''HARD'' else prog_ret ())
        (\<lambda>_. if softBounces \<noteq> [] then updateContactsWithBounceType env acc softBounces ''SOFT'' else prog_ret ()))"

definition apply_changes ::
  "sg_env \<Rightarrow> jsid \<Rightarrow> sg_event list \<Rightarrow> changes \<Rightarrow> changes \<Rightarrow> unit intake_prog" where
  "apply_changes env acc events changes changesValidate =
     prog_then (if contact_ids events \<noteq> [] then database env (UpdateContacts (contact_ids events) acc changes)
                else prog_ret ()) (\<lambda>_.
     if emails_of events \<noteq> [] \<and> changesValidate \<noteq> []
     then database env (UpdateValidation (emails_of events) changesValidate) else prog_ret ())"

definition updateContact :: "sg_env \<Rightarrow> string \<Rightarrow> jsid \<Rightarrow> string \<Rightarrow> sg_event list \<Rightarrow> unit intake_prog" where
  "updateContact env type acc zone events =
     (let averageTimestamp = sg_timestamp (hd events) * 1000; emails = emails_of events in
      if type = ''delivered'' then
        prog_then (date_of env averageTimestamp zone) (\<lambda>d.
        apply_changes env acc events [(''lastSent'', CTime averageTimestamp), (''lastSentDate'', CDate d)] [])
      else if type = ''open'' then
        prog_then (date_of env averageTimestamp zone) (\<lambda>d.
        apply_changes env acc events
          [(''lastOpen'', CTime averageTimestamp), (''lastOpenDate'', CDate d), (''isActive'', CBool True)]
          [(''lastOpen'', CTime averageTimestamp)])
      else if type = ''click'' then
        prog_then (date_of env averageTimestamp zone) (\<lambda>d.
        apply_changes env acc events
          [(''lastOpen'', CTime averageTimestamp), (''lastOpenDate'', CDate d), (''lastClick'', CTime averageTimestamp),
           (''lastClickDate'', CDate d), (''isActive'', CBool True)]
          [(''lastClick'', CTime averageTimestamp)])
      else if type \<in> {''unsubscribe'', ''group_unsubscribe'', ''spamreport''} then
        prog_then (createRedisKey (id_str acc @ '':unsubscribed'') emails 168) (\<lambda>_.
        apply_changes env acc events
          [(''isUnsubscribed'', CBool True), (''unsubscribedAt'', CTime averageTimestamp)]
          [(''unsubscribedAt'', CTime averageTimestamp)])
      else if type = ''bounce'' \<or> type = ''blocked'' then updateBouncedContacts env type acc events
      else if type = ''group_resubscribe'' then
        prog_then (database env (ClearValidationUnsubscribed emails)) (\<lambda>_.
        prog_then (deleteRedisKey (id_str acc @ '':unsubscribed'') emails) (\<lambda>_.
        apply_changes env acc events [(''isUnsubscribed'', CBool False), (''unsubscribedAt'', CNull)] []))
      else prog_ret ())"

section \<open>Triggers\<close>

definition trigger_key :: "jsid \<Rightarrow> string \<Rightarrow> string \<Rightarrow> string" where
  "trigger_key acc kind messageText = ''events_trigger:'' @ id_str acc @ '':'' @ kind @ '':'' @ messageText"

definition campaign_trigger_key :: "jsid \<Rightarrow> string \<Rightarrow> string \<Rightarrow> string" where
  "campaign_trigger_key acc kind messageText =
     ''events_trigger:campaign:'' @ id_str acc @ '':'' @ kind @ '':'' @ messageText"

definition has_key :: "intake \<Rightarrow> string \<Rightarrow> bool" where
  "has_key s k \<longleftrightarrow> live_key s k \<noteq> None"

text \<open>One message of \<open>eventsTrigger\<close>: the payload is one object, so a mark set on it stays.\<close>

definition publish_if :: "bool \<Rightarrow> trigger \<Rightarrow> unit intake_prog" where
  "publish_if b t = (if b then emit (PublishTrigger t) else prog_ret ())"

definition first_open_trigger :: "sg_env \<Rightarrow> jsid \<Rightarrow> sg_event \<Rightarrow> unit intake_prog" where
  "first_open_trigger env acc e s =
     publish_if (has_key s (''events_trigger:'' @ id_str acc @ '':first_open_30_days:0'') \<and>
         inactive (se_now (se_stat env)) (se_contact env acc (opt_id (sg_contactId e))))
       \<lparr>tr_accountId = acc, tr_event = ''first_open_30_days'', tr_contactId = opt_id (sg_contactId e),
        tr_messageId = ''0'', tr_isTriggerCampaign = False\<rparr> s"

text \<open>The messages of one event, by whether there are triggers for its message (\<open>own\<close>) and for any message
  (\<open>any\<close>), of automations and of campaigns.\<close>

definition publish_triggers :: "bool \<Rightarrow> bool \<Rightarrow> bool \<Rightarrow> bool \<Rightarrow> bool \<Rightarrow> bool \<Rightarrow> trigger \<Rightarrow> unit intake_prog" where
  "publish_triggers specific named own ownCampaign any anyCampaign payload =
     (let getAllEvents = (\<not> own);
          getAllEventsCampaign = (\<not> ownCampaign);
          hasTrigger = (own \<or> any);
          hasTriggerCampaign = (ownCampaign \<or> anyCampaign);
          marked = (specific \<and> hasTriggerCampaign \<and> \<not> getAllEventsCampaign);
          general = payload\<lparr>tr_messageId := ''0'', tr_isTriggerCampaign := marked\<rparr>
      in if \<not> (hasTrigger \<or> hasTriggerCampaign) then prog_ret ()
         else prog_then (publish_if (specific \<and> hasTrigger \<and> \<not> getAllEvents) payload) (\<lambda>_.
              prog_then (publish_if marked (payload\<lparr>tr_isTriggerCampaign := True\<rparr>)) (\<lambda>_.
              prog_then (publish_if (named \<and> hasTrigger \<and> getAllEvents) general) (\<lambda>_.
              publish_if (named \<and> hasTriggerCampaign \<and> getAllEventsCampaign)
                (general\<lparr>tr_isTriggerCampaign := True\<rparr>)))))"

definition message_triggers :: "jsid \<Rightarrow> string \<Rightarrow> sg_event \<Rightarrow> unit intake_prog" where
  "message_triggers acc kind e s =
     (let msg = or_empty (category e ''message'');
          specific = (text_truthy (sg_contactId e) \<and> msg \<noteq> '''')
      in publish_triggers specific (sg_contactId e \<noteq> None)
           (specific \<and> has_key s (trigger_key acc kind msg))
           (specific \<and> has_key s (campaign_trigger_key acc kind msg))
           (has_key s (trigger_key acc kind ''0'')) (has_key s (campaign_trigger_key acc kind ''0''))
           \<lparr>tr_accountId = acc, tr_event = kind, tr_contactId = opt_id (sg_contactId e),
            tr_messageId = msg, tr_isTriggerCampaign = False\<rparr> s)"

definition trigger_event :: "sg_env \<Rightarrow> jsid \<Rightarrow> string \<Rightarrow> sg_event \<Rightarrow> unit intake_prog" where
  "trigger_event env acc kind e =
     (if kind = ''open'' \<and> text_truthy (sg_contactId e) then
        (case opt_id (sg_contactId e) of
           Id n \<Rightarrow> prog_then (first_open_trigger env acc e) (\<lambda>_. message_triggers acc kind e)
         | _ \<Rightarrow> prog_ret ())
      else message_triggers acc kind e)"

definition eventsTrigger_event :: "sg_env \<Rightarrow> string \<Rightarrow> sg_event list \<Rightarrow> jsid \<Rightarrow> unit intake_prog" where
  "eventsTrigger_event env kind events acc = forEach (trigger_event env acc kind) events"

section \<open>A batch\<close>

definition process_group :: "sg_env \<Rightarrow> group \<Rightarrow> unit intake_prog list" where
  "process_group env g = map (\<lambda>(type, eventList).
     prog_then (if type = ''open'' \<or> type = ''click'' then eventsTrigger_event env type eventList (gr_accountId g) else prog_ret ())
       (\<lambda>_. updateContact env type (gr_accountId g) (gr_timeZone g) eventList)) (gr_events g)"

definition processAllEvents :: "sg_env \<Rightarrow> group list \<Rightarrow> unit intake_prog" where
  "processAllEvents env groups = promise_all (concat (map (process_group env) groups))"

definition save_account_logs :: "sg_env \<Rightarrow> event_log list \<Rightarrow> unit intake_prog" where
  "save_account_logs env logs =
     prog_then (promise_all (map (\<lambda>l. database env (AnalyticsEvent l)) logs)) (\<lambda>_. database env (SaveLogs logs))"

definition saveLogs :: "sg_env \<Rightarrow> event_log list list \<Rightarrow> unit intake_prog" where
  "saveLogs env eventLogs = promise_all (map (save_account_logs env) eventLogs)"

definition testab_counter :: "string \<Rightarrow> string option" where
  "testab_counter kind =
     (if kind \<in> {''delivered'', ''open'', ''click'', ''bounce'', ''blocked''} then Some kind
      else if kind \<in> {''unsubscribe'', ''group_unsubscribe'', ''spamreport''} then Some ''unsubscribe'' else None)"

definition count_test :: "testab_event \<Rightarrow> unit intake_prog" where
  "count_test t s =
     (let k = ''testab:campaign:'' @ opt_str (ta_campaignId t) @ '':message:'' @ ta_messageId t in
      case testab_counter (ta_eventType t) of
        Some counter \<Rightarrow> if has_key s k then emit (CountTest k counter) s else (Inr (), s)
      | None \<Rightarrow> (Inr (), s))"

definition processTestAbEvent :: "testab_event list \<Rightarrow> unit intake_prog" where
  "processTestAbEvent events = forEach count_test events"

definition processAutomationTargetEvents :: "(jsid \<times> jsid \<times> jsid) list \<Rightarrow> unit intake_prog" where
  "processAutomationTargetEvents events = forEach (\<lambda>(automation, acc, c). emit (PublishTarget automation acc c)) events"

definition publish_activations :: "jsid list \<Rightarrow> unit intake_prog" where
  "publish_activations cs = (if cs \<noteq> [] then emit (PublishActivations cs) else prog_ret ())"

definition run_counters :: "redis_cmd list \<Rightarrow> unit intake_prog" where
  "run_counters cmds = prog_set (\<lambda>s. s\<lparr>in_stats := run_pipeline cmds (in_stats s)\<rparr>)"

definition process_new_events :: "sg_env \<Rightarrow> string \<Rightarrow> sg_event list \<Rightarrow> intake_result intake_prog" where
  "process_new_events env providerName uniqueEvents =
     prog_then (organizeEventsData env providerName uniqueEvents) (\<lambda>o1.
     prog_then (processTestAbEvent (og_testAb o1)) (\<lambda>_.
     prog_then (processAutomationTargetEvents (og_targets o1)) (\<lambda>_.
     prog_then (publish_activations (og_activations o1)) (\<lambda>_.
     prog_then (promise_all [processAllEvents env (map snd (og_groups o1)),
                             saveLogs env (map (gr_logs \<circ> snd) (og_groups o1))]) (\<lambda>_.
     prog_then (run_counters (og_pipeline o1)) (\<lambda>_. prog_ret Done))))))"

definition processSendgrid :: "sg_env \<Rightarrow> string \<Rightarrow> sg_event list \<Rightarrow> intake_result intake_prog" where
  "processSendgrid env providerName payload =
     prog_then (prog_lift (se_connected env)) (\<lambda>_.
     prog_then (filterDuplicateEvents payload) (\<lambda>uniqueEvents.
     if uniqueEvents = [] then prog_ret (Skipped ''All events were duplicates'')
     else process_new_events env providerName uniqueEvents))"

section \<open>Events are marked before they are worked on\<close>

lemma mark_seen_labelled:
  assumes "\<forall>i \<in> set ids. i \<noteq> ''''"
  shows "\<exists>rs s'. mark_seen ids s = (Inr rs, s') \<and> length rs = length ids \<and> in_now s' = in_now s \<and>
    in_out s' = in_out s \<and> in_stats s' = in_stats s"
  using assms
proof (induction ids arbitrary: s)
  case (Cons i ids)
  obtain ok s1 where s1: "set_nx (seen_key i) ''1'' 600 s = (Inr ok, s1)" "in_now s1 = in_now s"
    "in_out s1 = in_out s" "in_stats s1 = in_stats s"
    by (cases "live_key s (seen_key i)") (auto simp: set_nx_def set_ex_def)
  from Cons.IH [of s1] Cons.prems obtain rs s2 where "mark_seen ids s1 = (Inr rs, s2)" "length rs = length ids"
    "in_now s2 = in_now s1" "in_out s2 = in_out s1" "in_stats s2 = in_stats s1" by auto
  with s1 Cons.prems show ?case by (simp add: prog_then_def prog_ret_def)
qed simp

text \<open>The reference: an event is new when its id was not seen before the batch or earlier in it.\<close>

fun first_seen :: "(string \<Rightarrow> bool) \<Rightarrow> sg_event list \<Rightarrow> sg_event list" where
  "first_seen old [] = []"
| "first_seen old (e # es) =
     (if old (sg_event_id e) then first_seen old es
      else e # first_seen (\<lambda>i. i = sg_event_id e \<or> old i) es)"

definition seen :: "intake \<Rightarrow> string \<Rightarrow> bool" where
  "seen s i \<longleftrightarrow> live_key s (seen_key i) \<noteq> None"

lemma seen_key_inj: "seen_key i = seen_key j \<longleftrightarrow> i = j"
  by (simp add: seen_key_def)

lemma seen_set: "seen (set_ex (seen_key i) ''1'' 600 s) = (\<lambda>j. j = i \<or> seen s j)"
  by (rule ext) (simp add: seen_def live_set_ex seen_key_inj)

lemma set_nx_seen: "set_nx (seen_key i) ''1'' 600 s =
    (if seen s i then (Inr False, s) else (Inr True, set_ex (seen_key i) ''1'' 600 s))"
  by (simp add: set_nx_def seen_def)

lemma filter_step:
  assumes "sg_event_id e \<noteq> ''''"
  shows "filterDuplicateEvents (e # es) s =
    (if seen s (sg_event_id e) then filterDuplicateEvents es s
     else (case filterDuplicateEvents es (set_ex (seen_key (sg_event_id e)) ''1'' 600 s) of
         (Inl err, s') \<Rightarrow> (Inl err, s') | (Inr ys, s') \<Rightarrow> (Inr (e # ys), s')))"
  using assms
  by (auto simp: filterDuplicateEvents_def prog_defs set_nx_seen split: prod.split sum.split)

lemma filter_first_seen:
  assumes "\<forall>e \<in> set events. sg_event_id e \<noteq> ''''"
  shows "\<exists>s'. filterDuplicateEvents events s = (Inr (first_seen (seen s) events), s') \<and>
    in_now s' = in_now s \<and> in_out s' = in_out s \<and> in_stats s' = in_stats s \<and>
    (\<forall>k. (\<forall>i. k \<noteq> seen_key i) \<longrightarrow> in_keys s' k = in_keys s k) \<and>
    (\<forall>i. seen s' i \<longleftrightarrow> seen s i \<or> i \<in> sg_event_id ` set events) \<and>
    (\<forall>i \<in> sg_event_id ` set events. \<not> seen s i \<longrightarrow> in_keys s' (seen_key i) = Some (''1'', in_now s + 600000)) \<and>
    (\<forall>i. seen s i \<longrightarrow> in_keys s' (seen_key i) = in_keys s (seen_key i))"
  using assms
proof (induction events arbitrary: s)
  case Nil
  then show ?case by (simp add: filterDuplicateEvents_def prog_defs)
next
  case (Cons e es)
  have label: "sg_event_id e \<noteq> ''''" and labels: "\<forall>e \<in> set es. sg_event_id e \<noteq> ''''" using Cons.prems by simp_all
  show ?case
  proof (cases "seen s (sg_event_id e)")
    case True
    obtain s' where "filterDuplicateEvents es s = (Inr (first_seen (seen s) es), s')"
      "in_now s' = in_now s" "in_out s' = in_out s" "in_stats s' = in_stats s"
      "\<forall>k. (\<forall>i. k \<noteq> seen_key i) \<longrightarrow> in_keys s' k = in_keys s k"
      "\<forall>i. seen s' i \<longleftrightarrow> seen s i \<or> i \<in> sg_event_id ` set es"
      "\<forall>i \<in> sg_event_id ` set es. \<not> seen s i \<longrightarrow> in_keys s' (seen_key i) = Some (''1'', in_now s + 600000)"
      "\<forall>i. seen s i \<longrightarrow> in_keys s' (seen_key i) = in_keys s (seen_key i)"
      using Cons.IH [OF labels, of s] by blast
    with True show ?thesis by (intro exI [of _ s']) (auto simp: filter_step [OF label])
  next
    case False
    let ?s1 = "set_ex (seen_key (sg_event_id e)) ''1'' 600 s"
    obtain s' where s': "filterDuplicateEvents es ?s1 = (Inr (first_seen (seen ?s1) es), s')"
      "in_now s' = in_now ?s1" "in_out s' = in_out ?s1" "in_stats s' = in_stats ?s1"
      "\<forall>k. (\<forall>i. k \<noteq> seen_key i) \<longrightarrow> in_keys s' k = in_keys ?s1 k"
      "\<forall>i. seen s' i \<longleftrightarrow> seen ?s1 i \<or> i \<in> sg_event_id ` set es"
      and marked: "\<forall>i \<in> sg_event_id ` set es. \<not> seen ?s1 i \<longrightarrow> in_keys s' (seen_key i) = Some (''1'', in_now ?s1 + 600000)"
      and kept: "\<forall>i. seen ?s1 i \<longrightarrow> in_keys s' (seen_key i) = in_keys ?s1 (seen_key i)"
      using Cons.IH [OF labels, of ?s1] by blast
    have "filterDuplicateEvents (e # es) s = (Inr (first_seen (seen s) (e # es)), s')"
      using False by (simp add: filter_step [OF label] s'(1) seen_set)
    moreover have "in_now s' = in_now s \<and> in_out s' = in_out s \<and> in_stats s' = in_stats s"
      using s'(2-4) by (simp add: set_ex_def)
    moreover have "\<forall>k. (\<forall>i. k \<noteq> seen_key i) \<longrightarrow> in_keys s' k = in_keys s k"
      using s'(5) by (simp add: set_ex_def)
    moreover have "\<forall>i. seen s' i \<longleftrightarrow> seen s i \<or> i \<in> sg_event_id ` set (e # es)"
      using s'(6) by (auto simp: seen_set)
    moreover have "\<forall>i \<in> sg_event_id ` set (e # es). \<not> seen s i \<longrightarrow> in_keys s' (seen_key i) = Some (''1'', in_now s + 600000)"
    proof (intro ballI impI)
      fix i assume i: "i \<in> sg_event_id ` set (e # es)" "\<not> seen s i"
      show "in_keys s' (seen_key i) = Some (''1'', in_now s + 600000)"
      proof (cases "i = sg_event_id e")
        case True
        then show ?thesis using kept by (simp add: seen_set) (simp add: set_ex_def)
      next
        case other: False
        with i have "i \<in> sg_event_id ` set es" "\<not> seen ?s1 i" by (simp_all add: seen_set)
        with marked have "in_keys s' (seen_key i) = Some (''1'', in_now ?s1 + 600000)" by blast
        then show ?thesis by (simp add: set_ex_def)
      qed
    qed
    moreover have "\<forall>i. seen s i \<longrightarrow> in_keys s' (seen_key i) = in_keys s (seen_key i)"
    proof (intro allI impI)
      fix i assume i: "seen s i"
      then have "in_keys s' (seen_key i) = in_keys ?s1 (seen_key i)" using kept by (simp add: seen_set)
      moreover have "i \<noteq> sg_event_id e" using i False by blast
      ultimately show "in_keys s' (seen_key i) = in_keys s (seen_key i)" by (simp add: set_ex_def seen_key_inj)
    qed
    ultimately show ?thesis by blast
  qed
qed

lemma first_seen_none: "\<forall>e \<in> set events. old (sg_event_id e) \<Longrightarrow> first_seen old events = []"
  by (induction events) auto

lemma mark_seen_length: "mark_seen ids s = (Inr rs, s') \<Longrightarrow> length rs = length (filter (\<lambda>i. i \<noteq> '''') ids)"
  by (induction ids arbitrary: s rs s') (auto simp: prog_then_Inr prog_ret_Inr split: if_splits)

lemma keep_new_short: "length rs < length es \<Longrightarrow> \<exists>err. keep_new es rs = Inl err"
  by (induction es rs rule: keep_new.induct) (auto split: sum.split)

lemma mark_seen_returns: "\<exists>rs s'. mark_seen ids s = (Inr rs, s')"
proof (induction ids arbitrary: s)
  case (Cons i ids)
  obtain ok s1 where "set_nx (seen_key i) ''1'' 600 s = (Inr ok, s1)"
    by (cases "seen s i") (auto simp: set_nx_seen)
  then show ?case using Cons.IH [of s] Cons.IH [of s1] by (auto simp: prog_then_def prog_ret_def)
qed simp

section \<open>What a batch leaves alone\<close>

text \<open>No step of a batch writes a key whose name starts with \<open>event\<close>, and none lets time pass.\<close>

definition calm :: "'a intake_prog \<Rightarrow> bool" where
  "calm m \<longleftrightarrow> (\<forall>s. in_now (snd (m s)) = in_now s \<and>
     (\<forall>k. starts_with ''event'' k \<longrightarrow> in_keys (snd (m s)) k = in_keys s k))"

named_theorems calm_intros

lemma calm_ret [calm_intros]: "calm (prog_ret x)"
  by (simp add: calm_def prog_ret_def)

lemma calm_throw [calm_intros]: "calm (prog_throw e)"
  by (simp add: calm_def prog_throw_def)

lemma calm_lift [calm_intros]: "calm (prog_lift r)"
  by (simp add: calm_def prog_lift_def)

lemma calm_then [calm_intros]:
  assumes "calm m" "\<And>x. calm (f x)"
  shows "calm (prog_then m f)"
  unfolding calm_def
proof
  fix s
  obtain r s1 where m: "m s = (r, s1)" by (cases "m s")
  have now: "in_now s1 = in_now s" and keys: "starts_with ''event'' k \<Longrightarrow> in_keys s1 k = in_keys s k" for k
    using assms(1) m by (auto simp: calm_def dest: spec [of _ s])
  show "in_now (snd (prog_then m f s)) = in_now s \<and>
      (\<forall>k. starts_with ''event'' k \<longrightarrow> in_keys (snd (prog_then m f s)) k = in_keys s k)"
  proof (cases r)
    case (Inl e)
    then show ?thesis by (simp add: prog_then_def m now keys)
  next
    case (Inr x)
    have "in_now (snd (f x s1)) = in_now s1" "\<forall>k. starts_with ''event'' k \<longrightarrow> in_keys (snd (f x s1)) k = in_keys s1 k"
      using assms(2) [of x] by (simp_all add: calm_def)
    then show ?thesis by (simp add: prog_then_def m Inr now keys)
  qed
qed

lemma calm_if [calm_intros]: "calm a \<Longrightarrow> calm b \<Longrightarrow> calm (if c then a else b)"
  by simp

lemma calm_emit [calm_intros]: "calm (emit e)"
  by (simp add: calm_def emit_def prog_set_def)

lemma calm_database [calm_intros]: "calm (database env e)"
  by (auto simp: database_def split: option.split intro: calm_intros)

lemma calm_forEach [calm_intros]: "(\<And>x. calm (f x)) \<Longrightarrow> calm (forEach f xs)"
  by (induction xs) (auto simp: forEach_def intro: calm_intros)

lemma calm_promise_all [calm_intros]: "(\<And>p. p \<in> set ps \<Longrightarrow> calm p) \<Longrightarrow> calm (promise_all ps)"
proof (induction ps)
  case (Cons p ps)
  then have "calm p" "calm (promise_all ps)" by simp_all
  then show ?case by (simp add: calm_def split: prod.split) (metis snd_conv)
qed (simp add: calm_def)

lemma calm_read: "(\<And>s. calm (m s)) \<Longrightarrow> calm (\<lambda>s. m s s)"
  by (simp add: calm_def)

lemma id_str_start: "\<not> starts_with ''event'' (id_str acc @ CHR '':'' # k)"
proof (cases acc)
  case (Id n)
  obtain c cs where c: "show_nat n = c # cs" by (cases "show_nat n") auto
  then have "is_digit c" using show_nat_digits [of n] by simp
  then have "c \<noteq> CHR ''e''" by (auto simp: is_digit_def)
  then show ?thesis by (simp add: Id c)
qed simp_all

lemma calm_createRedisKey: "calm (createRedisKey (id_str acc @ CHR '':'' # name) emails hours)"
proof -
  have "in_now (fold (\<lambda>email. set_ex ((id_str acc @ CHR '':'' # name) @ '':'' @ email) ''true'' n) es s) = in_now s \<and>
      (\<forall>k. starts_with ''event'' k \<longrightarrow>
        in_keys (fold (\<lambda>email. set_ex ((id_str acc @ CHR '':'' # name) @ '':'' @ email) ''true'' n) es s) k = in_keys s k)"
    for n s es
    by (induction es arbitrary: s) (use id_str_start in \<open>auto simp: set_ex_def\<close>)
  then show ?thesis by (simp add: createRedisKey_def calm_def prog_set_def)
qed

lemma calm_deleteRedisKey: "calm (deleteRedisKey (id_str acc @ CHR '':'' # name) emails)"
proof -
  have "in_now (fold (\<lambda>email. del_key ((id_str acc @ CHR '':'' # name) @ '':'' @ email)) es s) = in_now s \<and>
      (\<forall>k. starts_with ''event'' k \<longrightarrow>
        in_keys (fold (\<lambda>email. del_key ((id_str acc @ CHR '':'' # name) @ '':'' @ email)) es s) k = in_keys s k)"
    for s es
    by (induction es arbitrary: s) (use id_str_start in \<open>auto simp: del_key_def\<close>)
  then show ?thesis by (simp add: deleteRedisKey_def calm_def prog_set_def)
qed

lemmas calm_keys = calm_createRedisKey [of _ "''disengaged''"] calm_createRedisKey [of _ "''unsubscribed''"]
  calm_deleteRedisKey [of _ "''unsubscribed''"]

lemma calm_publish_if [calm_intros]: "calm (publish_if b t)"
  by (auto simp: publish_if_def intro: calm_intros)

lemma calm_run_counters [calm_intros]: "calm (run_counters cmds)"
  by (simp add: run_counters_def calm_def prog_set_def)

lemma calm_at: "(\<And>s. \<exists>m'. calm m' \<and> m s = m' s) \<Longrightarrow> calm m"
  unfolding calm_def by metis

lemma calm_publish_triggers [calm_intros]: "calm (publish_triggers a b c d f g p)"
  by (auto simp: publish_triggers_def Let_def intro!: calm_intros)

lemma calm_first_open [calm_intros]: "calm (first_open_trigger env acc e)"
  by (rule calm_at, rule exI, rule conjI, rule calm_publish_if, rule first_open_trigger_def)

lemma calm_message_triggers [calm_intros]: "calm (message_triggers acc kind e)"
  by (rule calm_at, rule exI, rule conjI, rule calm_publish_triggers, unfold message_triggers_def Let_def, rule refl)

lemma calm_trigger_event [calm_intros]: "calm (trigger_event env acc kind e)"
  by (auto simp: trigger_event_def intro!: calm_intros split: jsid.split)

lemma calm_bounce [calm_intros]: "calm (updateContactsWithBounceType env acc events bounceType)"
  using calm_keys(1) by (auto simp: updateContactsWithBounceType_def intro!: calm_intros)

lemma calm_bounced [calm_intros]: "calm (updateBouncedContacts env type acc events)"
  by (auto simp: updateBouncedContacts_def Let_def intro!: calm_intros)

lemma calm_apply [calm_intros]: "calm (apply_changes env acc events c v)"
  by (auto simp: apply_changes_def intro!: calm_intros)

lemma calm_date_of [calm_intros]: "calm (date_of env t z)"
  by (simp add: date_of_def calm_intros)

lemma calm_updateContact [calm_intros]: "calm (updateContact env type acc zone events)"
  unfolding updateContact_def Let_def append.simps
  by (intro calm_intros calm_keys [unfolded append.simps])

lemma calm_all_events [calm_intros]: "calm (processAllEvents env groups)"
  by (auto simp: processAllEvents_def process_group_def eventsTrigger_event_def intro!: calm_intros split: prod.split)

lemma calm_saveLogs [calm_intros]: "calm (saveLogs env logs)"
  by (auto simp: saveLogs_def save_account_logs_def intro!: calm_intros)

lemma calm_count_test [calm_intros]: "calm (count_test t)"
  by (simp add: count_test_def calm_def emit_def prog_set_def Let_def split: option.split)

lemma calm_log_event [calm_intros]: "calm (log_event env p acc msg e g)"
  by (auto simp: log_event_def intro!: calm_intros)

lemma calm_count_event [calm_intros]: "calm (count_event env p z acc msg e)"
  by (auto simp: count_event_def intro!: calm_intros)

lemma calm_result [calm_intros]: "calm (\<lambda>s. (Inr (f s), s))"
  by (simp add: calm_def)

lemma calm_organize_event [calm_intros]: "calm (organize_event env p e og)"
  by (auto simp: organize_event_def slack_dropped_def Let_def intro!: calm_intros split: option.split)

lemma calm_organize_loop [calm_intros]: "calm (organize_loop env p es og)"
  by (induction es arbitrary: og) (auto intro!: calm_intros)

lemma calm_new_events: "calm (process_new_events env p events)"
  by (auto simp: process_new_events_def organizeEventsData_def processTestAbEvent_def processAutomationTargetEvents_def
      publish_activations_def intro!: calm_intros split: prod.split)

section \<open>Properties of the intake\<close>

text \<open>Result: The filter lets through the events whose id was not seen in the last ten minutes and does not come
  earlier in the batch, in their order, and then every id of the batch counts as seen: a batch that comes again
  at once has no new events.\<close>

theorem filter_takes_new_events:
  assumes "\<forall>e \<in> set events. sg_event_id e \<noteq> ''''"
  shows "fst (filterDuplicateEvents events s) = Inr (first_seen (\<lambda>i. live_key s (seen_key i) \<noteq> None) events) \<and>
    fst (filterDuplicateEvents events (snd (filterDuplicateEvents events s))) = Inr []"
proof -
  obtain s' where s': "filterDuplicateEvents events s = (Inr (first_seen (seen s) events), s')"
    "\<forall>i. seen s' i \<longleftrightarrow> seen s i \<or> i \<in> sg_event_id ` set events"
    using filter_first_seen [OF assms, of s] by blast
  obtain s2 where "filterDuplicateEvents events s' = (Inr (first_seen (seen s') events), s2)"
    using filter_first_seen [OF assms, of s'] by blast
  moreover have "first_seen (seen s') events = []" using s'(2) by (intro first_seen_none) simp
  moreover have "seen s = (\<lambda>i. live_key s (seen_key i) \<noteq> None)" by (rule ext) (simp add: seen_def)
  ultimately show ?thesis using s'(1) by simp
qed

text \<open>Result: One event without an id makes the whole batch fail, on every delivery: its command is missing from
  the pipeline, so the results are one short and reading the last of them throws.\<close>

theorem unlabelled_event_fails_batch:
  assumes "e \<in> set payload" and "sg_event_id e = ''''" and "se_connected env = Inr ()"
  shows "\<exists>err. fst (processSendgrid env providerName payload s) = Inl err"
proof -
  obtain rs s' where m: "mark_seen (map sg_event_id payload) s = (Inr rs, s')" using mark_seen_returns by blast
  have "length rs = length (filter (\<lambda>i. i \<noteq> '''') (map sg_event_id payload))" by (rule mark_seen_length [OF m])
  also have "\<dots> < length payload"
  proof -
    have member: "'''' \<in> set (map sg_event_id payload)" using assms(1) by (metis assms(2) imageI list.set_map)
    have "length (filter (\<lambda>i. i \<noteq> '''') (map sg_event_id payload)) < length (map sg_event_id payload)"
      by (rule length_filter_less [OF member]) simp
    then show ?thesis by simp
  qed
  finally obtain err where "keep_new payload rs = Inl err" using keep_new_short by blast
  then show ?thesis by (simp add: processSendgrid_def filterDuplicateEvents_def prog_defs assms(3) m)
qed

lemma new_events_keep_seen:
  assumes "process_new_events env p events s = (r, u)"
  shows "in_now u = in_now s" "in_keys u (seen_key i) = in_keys s (seen_key i)"
    "in_keys u (lock_key m) = in_keys s (lock_key m)" "in_keys u (processed_key m) = in_keys s (processed_key m)"
proof -
  have c: "in_now (snd (process_new_events env p events s)) = in_now s"
    "\<forall>k. starts_with ''event'' k \<longrightarrow> in_keys (snd (process_new_events env p events s)) k = in_keys s k"
    using calm_new_events [of env p events] by (simp_all add: calm_def)
  show "in_now u = in_now s" using c(1) by (simp add: assms)
  have "starts_with ''event'' (seen_key i)" "starts_with ''event'' (lock_key m)" "starts_with ''event'' (processed_key m)"
    by (simp_all add: seen_key_def lock_key_def processed_key_def)
  then show "in_keys u (seen_key i) = in_keys s (seen_key i)" "in_keys u (lock_key m) = in_keys s (lock_key m)"
    "in_keys u (processed_key m) = in_keys s (processed_key m)" using c(2) by (simp_all add: assms)
qed

text \<open>The keys a failed batch leaves behind.\<close>

lemma failed_batch_keys:
  assumes "\<forall>e \<in> set payload. sg_event_id e \<noteq> '''' \<and> \<not> seen s (sg_event_id e)" and "se_connected env = Inr ()"
    and "processSendgrid env p payload s = (Inl err, u)" and "e \<in> set payload"
  shows "in_now u = in_now s" "in_keys u (seen_key (sg_event_id e)) = Some (''1'', in_now s + 600000)"
    "in_keys u (lock_key m) = in_keys s (lock_key m)" "in_keys u (processed_key m) = in_keys s (processed_key m)"
proof -
  have labels: "\<forall>e \<in> set payload. sg_event_id e \<noteq> ''''" using assms(1) by simp
  obtain s' where s': "filterDuplicateEvents payload s = (Inr (first_seen (seen s) payload), s')" "in_now s' = in_now s"
    "\<forall>k. (\<forall>i. k \<noteq> seen_key i) \<longrightarrow> in_keys s' k = in_keys s k"
    "\<forall>i \<in> sg_event_id ` set payload. \<not> seen s i \<longrightarrow> in_keys s' (seen_key i) = Some (''1'', in_now s + 600000)"
    using filter_first_seen [OF labels, of s] by blast
  have "process_new_events env p (first_seen (seen s) payload) s' = (Inl err, u)"
    using assms(3) by (simp add: processSendgrid_def prog_defs assms(2) s'(1) split: if_splits)
  note kept = new_events_keep_seen [OF this]
  show "in_now u = in_now s" using kept(1) s'(2) by simp
  show "in_keys u (seen_key (sg_event_id e)) = Some (''1'', in_now s + 600000)"
    using kept(2) s'(4) assms(1,4) by simp
  show "in_keys u (lock_key m) = in_keys s (lock_key m)" "in_keys u (processed_key m) = in_keys s (processed_key m)"
    using kept(3,4) s'(3) by (simp_all add: seen_key_def lock_key_def processed_key_def)
qed

lemma seen_batch_skipped:
  assumes "\<forall>e \<in> set payload. sg_event_id e \<noteq> '''' \<and> seen s (sg_event_id e)" and "se_connected env = Inr ()"
  shows "\<exists>s'. processSendgrid env p payload s = (Inr (Skipped ''All events were duplicates''), s') \<and>
    in_out s' = in_out s \<and> in_stats s' = in_stats s"
proof -
  have labels: "\<forall>e \<in> set payload. sg_event_id e \<noteq> ''''" using assms(1) by simp
  obtain s' where s': "filterDuplicateEvents payload s = (Inr (first_seen (seen s) payload), s')"
    "in_out s' = in_out s" "in_stats s' = in_stats s" using filter_first_seen [OF labels, of s] by blast
  have "first_seen (seen s) payload = []" using assms(1) by (intro first_seen_none) simp
  then show ?thesis using s' by (simp add: processSendgrid_def prog_defs assms(2))
qed


section \<open>Bounces of contacts\<close>

definition contact_times :: "nat \<Rightarrow> sg_event list \<Rightarrow> int list" where
  "contact_times n events = map (\<lambda>e. sg_timestamp e * 1000) (filter (\<lambda>e. event_contact e = Some n) events)"

lemma jsget_keep_latest:
  "jsget (keep_latest k ts m) k' =
     (if k' = k then Some (case jsget m k of None \<Rightarrow> ts | Some x \<Rightarrow> max x ts) else jsget m k')"
  by (auto simp: keep_latest_def max_def split: option.split)

lemma contact_map_latest:
  "jsget (contact_map events) n =
     (if contact_times n events = [] then None else Some (Max (set (contact_times n events))))"
proof (induction events rule: rev_induct)
  case Nil
  then show ?case by (simp add: contact_map_def contact_times_def)
next
  case (snoc e es)
  have step: "contact_map (es @ [e]) = (case event_contact e of
      Some k \<Rightarrow> keep_latest k (sg_timestamp e * 1000) (contact_map es) | None \<Rightarrow> contact_map es)"
    by (cases "event_contact e") (simp_all add: contact_map_def)
  have times: "contact_times n (es @ [e]) =
      contact_times n es @ (if event_contact e = Some n then [sg_timestamp e * 1000] else [])"
    by (simp add: contact_times_def)
  show ?case
  proof (cases "event_contact e = Some n")
    case True
    then show ?thesis using snoc.IH by (simp add: step times jsget_keep_latest max.commute)
  next
    case False
    then show ?thesis using snoc.IH by (simp add: step times jsget_keep_latest split: option.split)
  qed
qed

text \<open>The marks a list of effects puts on a contact.\<close>

fun marks :: "nat \<Rightarrow> intake_effect list \<Rightarrow> (string \<times> int) list" where
  "marks n [] = []"
| "marks n (BounceContacts m type acc # es) =
     (case jsget m n of Some ts \<Rightarrow> [(type, ts)] | None \<Rightarrow> []) @ marks n es"
| "marks n (_ # es) = marks n es"

lemma marks_append: "marks n (xs @ ys) = marks n xs @ marks n ys"
  by (induction n xs rule: marks.induct) auto

lemma keys_out: "in_out (snd (createRedisKey k emails h s)) = in_out s"
proof -
  have "in_out (fold (\<lambda>email. set_ex (k @ '':'' @ email) ''true'' x) es s) = in_out s" for x es s
    by (induction es arbitrary: s) (auto simp: set_ex_def)
  then show ?thesis by (simp add: createRedisKey_def prog_set_def)
qed

lemma bounce_type_effects:
  assumes "\<forall>e. se_database env e = None"
  shows "fst (updateContactsWithBounceType env acc events type s) = Inr ()"
    "in_out (snd (updateContactsWithBounceType env acc events type s)) =
      in_out s @ [BounceContacts (contact_map events) type acc, BounceValidation (email_map events)]"
proof -
  let ?s = "s\<lparr>in_out := in_out s @ [BounceContacts (contact_map events) type acc, BounceValidation (email_map events)]\<rparr>"
  have both: "promise_all [database env (BounceContacts (contact_map events) type acc),
      database env (BounceValidation (email_map events))] s = (Inr (), ?s)"
    using assms by (simp add: database_def emit_def prog_set_def)
  have "updateContactsWithBounceType env acc events type s =
      createRedisKey (id_str acc @ '':disengaged'') (emails_of events) 48 ?s"
    unfolding updateContactsWithBounceType_def prog_then_def both by simp
  then show "fst (updateContactsWithBounceType env acc events type s) = Inr ()"
    "in_out (snd (updateContactsWithBounceType env acc events type s)) =
      in_out s @ [BounceContacts (contact_map events) type acc, BounceValidation (email_map events)]"
    by (simp_all add: keys_out) (simp add: createRedisKey_def prog_set_def)
qed

lemma bounced_effects:
  assumes "\<forall>e. se_database env e = None"
  shows "in_out (snd (updateBouncedContacts env type acc events s)) = in_out s @
    (if hard_bounces type events \<noteq> [] then
       [BounceContacts (contact_map (hard_bounces type events)) ''HARD'' acc,
        BounceValidation (email_map (hard_bounces type events))] else []) @
    (if soft_bounces type events \<noteq> [] then
       [BounceContacts (contact_map (soft_bounces type events)) ''SOFT'' acc,
        BounceValidation (email_map (soft_bounces type events))] else [])"
proof -
  note hard = bounce_type_effects [OF assms, of acc "hard_bounces type events" "''HARD''" s]
  obtain s1 where s1: "updateContactsWithBounceType env acc (hard_bounces type events) ''HARD'' s = (Inr (), s1)"
    "in_out s1 = in_out s @ [BounceContacts (contact_map (hard_bounces type events)) ''HARD'' acc,
        BounceValidation (email_map (hard_bounces type events))]"
    using hard by (metis prod.collapse)
  note soft = bounce_type_effects(2) [OF assms, of acc "soft_bounces type events" "''SOFT''"]
  show ?thesis using s1 soft by (simp add: updateBouncedContacts_def Let_def prog_then_def prog_ret_def)
qed

lemma set_map_filter_iff: "n \<in> set (List.map_filter f xs) \<longleftrightarrow> (\<exists>x \<in> set xs. f x = Some n)"
  by (induction xs) (auto simp: List.map_filter_simps split: option.split)

lemma times_empty: "contact_times n events = [] \<longleftrightarrow> n \<notin> set (List.map_filter event_contact events)"
  by (auto simp: contact_times_def filter_empty_conv set_map_filter_iff)

lemma soft_times:
  "contact_times n (soft_bounces type events) =
     (if contact_times n (hard_bounces type events) = []
      then contact_times n (filter (\<lambda>e. type = ''blocked'' \<or> sg_type e = ''blocked'') events) else [])"
proof -
  let ?hard = "set (List.map_filter event_contact (hard_bounces type events))"
  have "filter (\<lambda>e. event_contact e = Some n)
        (filter (\<lambda>e. case event_contact e of None \<Rightarrow> True | Some k \<Rightarrow> k \<notin> ?hard) xs) =
      (if n \<in> ?hard then [] else filter (\<lambda>e. event_contact e = Some n) xs)" for xs
    by (induction xs) (auto split: option.splits)
  note filtered = this
  show ?thesis unfolding times_empty soft_bounces_def Let_def unfolding contact_times_def
    by (simp only: filtered) simp
qed

text \<open>C21: A batch of bounces marks every contact once, with the worst kind and the latest time: HARD with the time
  of its last hard bounce when it has one, otherwise SOFT with the time of its last soft bounce, and a contact
  without bounces is left alone, whatever the order and the repetitions in the batch.\<close>

theorem worst_and_latest_bounce:
  assumes "\<forall>e. se_database env e = None"
    and "hard = contact_times n (filter (\<lambda>e. type = ''bounce'' \<and> sg_type e \<noteq> ''blocked'') events)"
    and "soft = contact_times n (filter (\<lambda>e. type = ''blocked'' \<or> sg_type e = ''blocked'') events)"
    and "in_out s = []"
  shows "marks n (in_out (snd (updateBouncedContacts env type acc events s))) =
    (if hard \<noteq> [] then [(''HARD'', Max (set hard))] else if soft \<noteq> [] then [(''SOFT'', Max (set soft))] else [])"
proof -
  have h: "hard = contact_times n (hard_bounces type events)" by (simp add: assms(2) hard_bounces_def)
  have "contact_times n [] = []" by (simp add: contact_times_def)
  then have none: "hard_bounces type events = [] \<Longrightarrow> hard = []" "soft_bounces type events = [] \<Longrightarrow> hard \<noteq> [] \<or> soft = []"
    using soft_times [of n type events] h assms(3) by auto
  have out: "in_out (snd (updateBouncedContacts env type acc events s)) =
    (if hard_bounces type events \<noteq> [] then
       [BounceContacts (contact_map (hard_bounces type events)) ''HARD'' acc,
        BounceValidation (email_map (hard_bounces type events))] else []) @
    (if soft_bounces type events \<noteq> [] then
       [BounceContacts (contact_map (soft_bounces type events)) ''SOFT'' acc,
        BounceValidation (email_map (soft_bounces type events))] else [])"
    unfolding bounced_effects [OF assms(1)] assms(4) by simp
  show ?thesis unfolding out marks_append
    using none by (auto simp: contact_map_latest soft_times h [symmetric] assms(3) [symmetric])
qed

section \<open>Groups\<close>

definition may_mark :: "string \<Rightarrow> sg_event \<Rightarrow> bool" where
  "may_mark type e \<longleftrightarrow> (type = ''bounce'' \<or> type = ''blocked'') \<longrightarrow>
     is_bounce e \<and> isRecipientIssueBounce (sg_reason e) (sg_bounce_classification e) \<or>
     sg_kind e = ''dropped'' \<and> sg_reason e = ''Bounced Address''"

definition group_ok :: "group \<Rightarrow> bool" where
  "group_ok g \<longleftrightarrow> (\<forall>(type, es) \<in> set (gr_events g). \<forall>e \<in> set es. may_mark type e)"

definition groups_ok :: "organized \<Rightarrow> bool" where
  "groups_ok o1 \<longleftrightarrow> (\<forall>(k, g) \<in> set (og_groups o1). group_ok g)"

lemma set_jsset_bound: "set (jsset k v m) \<subseteq> insert (k, v) (set m)"
  by (induction m) auto

lemma group_okD: "group_ok g \<Longrightarrow> jsget (gr_events g) type = Some es \<Longrightarrow> e \<in> set es \<Longrightarrow> may_mark type e"
  unfolding group_ok_def by (drule map_of_SomeD) blast

lemma groups_okD: "groups_ok og \<Longrightarrow> jsget (og_groups og) k = Some g \<Longrightarrow> group_ok g"
  unfolding groups_ok_def by (drule map_of_SomeD) blast

lemma group_ok_to_group:
  assumes "group_ok g" "may_mark type e"
  shows "group_ok (to_group type e g)"
proof -
  let ?old = "case jsget (gr_events g) type of None \<Rightarrow> [] | Some es \<Rightarrow> es"
  have "\<forall>e \<in> set ?old. may_mark type e"
    using group_okD [OF assms(1)] by (cases "jsget (gr_events g) type") auto
  then have "\<forall>e' \<in> set (?old @ [e]). may_mark type e'" using assms(2) by simp
  moreover have "set (gr_events (to_group type e g)) \<subseteq> insert (type, ?old @ [e]) (set (gr_events g))"
    unfolding to_group_def by (simp add: set_jsset_bound)
  ultimately show ?thesis using assms(1) unfolding group_ok_def by (intro ballI) (drule (1) subsetD, blast)
qed

lemma group_ok_route: "group_ok g \<Longrightarrow> group_ok (route_event e g)"
  by (auto simp: route_event_def route_dropped_def sender_issue_def may_mark_def is_bounce_def intro!: group_ok_to_group)

lemma group_ok_log:
  "log_event env p acc msg e g s = (Inr g2, s') \<Longrightarrow> gr_events g2 = gr_events g"
  by (auto simp: log_event_def prog_Inr split: if_splits)

lemma groups_ok_set: "groups_ok og \<Longrightarrow> group_ok g \<Longrightarrow> groups_ok (og\<lparr>og_groups := jsset k g (og_groups og)\<rparr>)"
  using set_jsset_bound [of k g "og_groups og"] by (auto simp: groups_ok_def)

lemma groups_ok_event:
  assumes "organize_event env p e og s = (Inr og', s')" "groups_ok og"
  shows "groups_ok og'"
proof -
  have old: "group_ok (account_group env og k)" for k
    using groups_okD [OF assms(2), of k]
    by (cases "jsget (og_groups og) k") (auto simp: account_group_def group_ok_def new_group_def)
  have done_case: "groups_ok (og\<lparr>og_groups := jsset k g2 (og_groups og), og_testAb := a, og_targets := b,
      og_activations := c, og_pipeline := d\<rparr>)"
    if "log_event env p acc msg e2 (route_event e2 (account_group env og k)) t = (Inr g2, t')"
    for k g2 acc msg e2 t t' a b c d
  proof -
    have "gr_events g2 = gr_events (route_event e2 (account_group env og k))"
      by (rule group_ok_log [OF that])
    then have "group_ok g2" using group_ok_route [OF old, of e2] by (simp add: group_ok_def)
    from groups_ok_set [OF assms(2) this] show ?thesis by (simp add: groups_ok_def)
  qed
  show ?thesis using assms groups_ok_set [OF assms(2) old]
    by (auto simp: organize_event_def Let_def prog_Inr split: if_splits option.splits intro: done_case)
qed

lemma groups_ok_loop: "organize_loop env p es og s = (Inr og', s') \<Longrightarrow> groups_ok og \<Longrightarrow> groups_ok og'"
  by (induction es arbitrary: og s) (auto simp: prog_Inr dest: groups_ok_event)


section \<open>Triggers of any message\<close>

text \<open>C29: An automation on the opens of any message misses the events that also start a campaign: when a campaign
  listens to this message and an automation to any, the payload keeps the campaign's mark, so both messages are
  marked as campaign triggers and none reaches the automation.\<close>

theorem automation_trigger_marked_campaign:
  assumes "sg_contactId e = Some c" and "c \<noteq> ''''" and "category e ''message'' = Some msg" and "msg \<noteq> ''''"
    and "has_key s (campaign_trigger_key acc kind msg)" and "\<not> has_key s (trigger_key acc kind msg)"
    and "has_key s (trigger_key acc kind ''0'')"
  shows "map (\<lambda>x. case x of PublishTrigger t \<Rightarrow> (tr_messageId t, tr_isTriggerCampaign t) | _ \<Rightarrow> ('''', False))
      (drop (length (in_out s)) (in_out (snd (message_triggers acc kind e s)))) = [(msg, True), (''0'', True)]"
  using assms
  by (simp add: message_triggers_def publish_triggers_def Let_def text_truthy_def or_empty_def publish_if_def
      prog_defs emit_def)

section \<open>Small batches\<close>

definition demo_sg :: "string \<Rightarrow> string \<Rightarrow> int \<Rightarrow> sg_event" where
  "demo_sg kind i t = \<lparr>sg_email = ''x@gmail.com'', sg_timestamp = t, sg_kind = kind,
     sg_category = [''message_7'', ''account_1'', ''type_campaign'', ''campaign_3''], sg_event_id = i,
     sg_message_id = ''m'', sg_reason = ''User unknown'', sg_response = '''', sg_attempt = None, sg_status = ''5.1.1'',
     sg_type = ''bounce'', sg_ip = '''', sg_useragent = '''', sg_position = None, sg_contactId = Some ''5'',
     sg_sent_at = None, sg_bounce_classification = '''', sg_geo = None\<rparr>"

definition demo_sg_env :: sg_env where
  "demo_sg_env = \<lparr>se_stat = demo_stat_env, se_zone = \<lambda>_. ''UTC'', se_contact = \<lambda>_ _. None, se_geo = \<lambda>_. None,
     se_database = \<lambda>_. None, se_connected = Inr ()\<rparr>"

lemma filter_takes_new_events_witness:
  "fst (filterDuplicateEvents [demo_sg ''open'' ''a'' 5, demo_sg ''open'' ''a'' 6] empty_intake) = Inr [demo_sg ''open'' ''a'' 5]"
proof -
  have "\<forall>e \<in> set [demo_sg ''open'' ''a'' 5, demo_sg ''open'' ''a'' 6]. sg_event_id e \<noteq> ''''" by (simp add: demo_sg_def)
  from filter_takes_new_events [OF this, of empty_intake] show ?thesis
    by (simp add: live_key_def empty_intake_def) (simp add: demo_sg_def)
qed

lemma unlabelled_event_fails_batch_witness:
  "\<exists>err. fst (processSendgrid demo_sg_env ''main'' [demo_sg ''open'' ''a'' 5, demo_sg ''open'' '''' 6] empty_intake) = Inl err"
proof (rule unlabelled_event_fails_batch)
  show "demo_sg ''open'' '''' 6 \<in> set [demo_sg ''open'' ''a'' 5, demo_sg ''open'' '''' 6]" by simp
  show "sg_event_id (demo_sg ''open'' '''' 6) = ''''" by (simp add: demo_sg_def)
  show "se_connected demo_sg_env = Inr ()" by (simp add: demo_sg_env_def)
qed

text \<open>An address without \<open>@\<close> is enough to fail a batch.\<close>

lemma address_without_at_fails:
  assumes "category e ''message'' = Some msg" "category e ''account'' = Some acc" "msg \<noteq> ''''" "acc \<noteq> ''''"
    and "sg_kind e \<in> set EventsType" "sg_kind e \<noteq> ''account_status_change''" "\<not> is_engagement e"
    and "sg_reason e \<noteq> ''Invalid SMTPAPI header''" "getMailBoxProvider_event (sg_email e) = Inl err"
    and "\<And>zone. \<exists>d. date_of env (sg_timestamp e) zone s = (Inr d, s)"
  shows "fst (organizeEventsData env p (e # es) s) = Inl err"
proof -
  have here: "located env e = e" using assms(7) by (simp add: located_def)
  obtain g2 where "log_event env p (to_id acc) (to_id msg) e (route_event e (account_group env no_groups acc)) s = (Inr g2, s)"
    using assms(10) [of "gr_timeZone (route_event e (account_group env no_groups acc))"]
    by (cases "sg_kind e = ''processed''") (auto simp: log_event_def prog_defs)
  then show ?thesis using assms
    by (simp add: organizeEventsData_def organize_event_def here slack_dropped_def count_event_def prog_defs Let_def)
qed

lemma organize_failure:
  assumes "se_connected env = Inr ()" "filterDuplicateEvents payload s = (Inr new, s')" "new \<noteq> []"
    and "fst (organizeEventsData env p new s') = Inl err"
  shows "fst (processSendgrid env p payload s) = Inl err"
proof -
  obtain u where "organizeEventsData env p new s' = (Inl err, u)" using assms(4) by (metis prod.collapse)
  then show ?thesis by (simp add: processSendgrid_def process_new_events_def prog_then_def prog_lift_def assms(1-3))
qed

definition demo_broken :: "sg_event list" where
  "demo_broken = [(demo_sg ''delivered'' ''a'' 5)\<lparr>sg_email := ''nobody''\<rparr>, demo_sg ''open'' ''b'' 5]"

lemma demo_broken_fails:
  "fst (processWithIdempotency ''m'' ''t'' (processSendgrid demo_sg_env ''main'' demo_broken) empty_intake) =
     Inl ''Cannot read properties of undefined (reading includes)''"
proof -
  let ?e = "(demo_sg ''delivered'' ''a'' 5)\<lparr>sg_email := ''nobody''\<rparr>" and ?s = "locked ''m'' ''t'' empty_intake"
  have labels: "\<forall>e \<in> set demo_broken. sg_event_id e \<noteq> ''''" by (simp add: demo_broken_def demo_sg_def)
  obtain s' where s': "filterDuplicateEvents demo_broken ?s = (Inr (first_seen (seen ?s) demo_broken), s')"
    using filter_first_seen [OF labels, of ?s] by blast
  have "seen ?s i = False" for i
    by (simp add: seen_def locked_def live_set_ex seen_key_def lock_key_def) (simp add: live_key_def empty_intake_def)
  then have new: "first_seen (seen ?s) demo_broken = demo_broken" by (simp add: demo_broken_def demo_sg_def)
  have "category ?e ''message'' = Some ''7''" "category ?e ''account'' = Some ''1''" by code_simp+
  moreover have "sg_kind ?e \<in> set EventsType" "sg_kind ?e \<noteq> ''account_status_change''" "\<not> is_engagement ?e"
    "sg_reason ?e \<noteq> ''Invalid SMTPAPI header''" by (simp_all add: demo_sg_def EventsType_def is_engagement_def)
  moreover have "getMailBoxProvider_event (sg_email ?e) = Inl ''Cannot read properties of undefined (reading includes)''" by code_simp
  moreover have "\<exists>d. date_of demo_sg_env (sg_timestamp ?e) zone s' = (Inr d, s')" for zone
    by (simp add: date_of_def demo_sg_env_def demo_stat_env_def convertTimestampToTimezone_def prog_lift_def)
  ultimately have "fst (organizeEventsData demo_sg_env ''main'' demo_broken s') =
      Inl ''Cannot read properties of undefined (reading includes)''"
    unfolding demo_broken_def by (intro address_without_at_fails [of _ "''7''" "''1''"]) simp_all
  then have "fst (processSendgrid demo_sg_env ''main'' demo_broken ?s) =
      Inl ''Cannot read properties of undefined (reading includes)''"
    by (intro organize_failure [OF _ s' [unfolded new]]) (simp_all add: demo_sg_env_def demo_broken_def)
  moreover have "''m'' \<noteq> ''''" "\<not> isMessageProcessed ''m'' empty_intake" "live_key empty_intake (lock_key ''m'') = None"
    by (simp_all add: isMessageProcessed_def live_key_def empty_intake_def)
  ultimately show ?thesis
    by (cases "processSendgrid demo_sg_env ''main'' demo_broken ?s") (simp add: process_runs)
qed


lemma worst_and_latest_bounce_witness:
  "marks 5 (in_out (snd (updateBouncedContacts demo_sg_env ''bounce'' (Id 1)
     [demo_sg ''bounce'' ''a'' 5, (demo_sg ''bounce'' ''b'' 9)\<lparr>sg_type := ''blocked''\<rparr>, demo_sg ''bounce'' ''c'' 3] empty_intake)))
   = [(''HARD'', 5000)]"
proof -
  let ?es = "[demo_sg ''bounce'' ''a'' 5, (demo_sg ''bounce'' ''b'' 9)\<lparr>sg_type := ''blocked''\<rparr>, demo_sg ''bounce'' ''c'' 3]"
  have db: "\<forall>e. se_database demo_sg_env e = None" by (simp add: demo_sg_env_def)
  have hard: "[5000, 3000] = contact_times 5 (filter (\<lambda>e. ''bounce'' = ''bounce'' \<and> sg_type e \<noteq> ''blocked'') ?es)"
    by code_simp
  have soft: "[9000] = contact_times 5 (filter (\<lambda>e. ''bounce'' = ''blocked'' \<or> sg_type e = ''blocked'') ?es)"
    by code_simp
  have out: "in_out empty_intake = []" by (simp add: empty_intake_def)
  show ?thesis using worst_and_latest_bounce [OF db hard soft out, of "Id 1"] by simp
qed


lemma automation_trigger_marked_campaign_witness:
  "map (\<lambda>x. case x of PublishTrigger t \<Rightarrow> (tr_messageId t, tr_isTriggerCampaign t) | _ \<Rightarrow> ('''', False))
     (in_out (snd (message_triggers (Id 1) ''open'' (demo_sg ''open'' ''a'' 5)
        (set_ex (trigger_key (Id 1) ''open'' ''0'') ''1'' 60
          (set_ex (campaign_trigger_key (Id 1) ''open'' ''7'') ''1'' 60 empty_intake)))))
   = [(''7'', True), (''0'', True)]"
proof -
  let ?s = "set_ex (trigger_key (Id 1) ''open'' ''0'') ''1'' 60
      (set_ex (campaign_trigger_key (Id 1) ''open'' ''7'') ''1'' 60 empty_intake)"
  have named: "sg_contactId (demo_sg ''open'' ''a'' 5) = Some ''5''" "''5'' \<noteq> ''''" by (simp_all add: demo_sg_def)
  have msg: "category (demo_sg ''open'' ''a'' 5) ''message'' = Some ''7''" by code_simp
  have m: "''7'' \<noteq> ''''" by simp
  have keys: "has_key ?s (campaign_trigger_key (Id 1) ''open'' ''7'')" "\<not> has_key ?s (trigger_key (Id 1) ''open'' ''7'')"
    "has_key ?s (trigger_key (Id 1) ''open'' ''0'')" by code_simp+
  have out: "in_out ?s = []" by (simp add: set_ex_def empty_intake_def)
  show ?thesis using automation_trigger_marked_campaign [OF named msg m keys] by (simp only: out list.size drop_0)
qed

end
