(* ===== verification/AutomationFlow.thy ===== *)
theory AutomationFlow
  imports JsValue
begin

text \<open>
  The automation editor's two formats (\<open>apps/frontend-react/src/features/automations/editor\<close>): the tree of
  steps the API stores and the nodes and edges on the canvas (\<open>editor-serializer.ts\<close>), the
  checks before a save (\<open>automation-form-page.tsx\<close>, \<open>validate-conditionals.ts\<close>). Proved: opening and
  saving an automation gives its steps back wherever its boxes are; a save ends on every drawing and holds
  exactly the steps the root reaches, each once; which drawings pass the checks and still lose steps.
  The order of handles that are neither yes, no nor numbered is the locale's (\<open>lc\<close>, \<open>localeCompare\<close>).
\<close>

section \<open>Steps, nodes and edges\<close>

text \<open>A step's id is a number or a text such as \<open>path_42_0\<close>; \<open>settings\<close> is a dynamic value.\<close>

datatype api_id = IdNum nat | IdText string

fun id_text :: "api_id \<Rightarrow> string" where
  "id_text (IdNum n) = show_nat n"
| "id_text (IdText s) = s"

fun numeric_id :: "api_id \<Rightarrow> nat option" where
  "numeric_id (IdNum n) = Some n"
| "numeric_id (IdText s) = (case parse_int10 s of Fin x \<Rightarrow> Some (nat \<lfloor>x\<rfloor>) | _ \<Rightarrow> None)"

datatype api_step = Step (api_id: api_id) (step_type: string) (step_settings: jsval) (step_children: "api_step list")

record flow_node =
  node_id :: string
  node_type :: string
  node_x :: real
  node_y :: real
  node_step :: api_id
  original_type :: "string option"
  node_settings :: jsval

record flow_edge =
  edge_id :: string
  edge_source :: string
  edge_target :: string
  source_handle :: "string option"
  target_handle :: "string option"

definition KNOWN_STEP_TYPES :: "string list" where
  "KNOWN_STEP_TYPES =
     [''trigger'', ''wait'', ''email'', ''webPush'', ''mobilePush'', ''sms'', ''whatsapp'', ''testAB'',
      ''randomMessage'', ''randomWebPush'', ''randomMobilePush'', ''addTag'', ''removeTag'',
      ''updateCustomField'', ''contactTransfer'', ''removeAutomation'', ''split'', ''splitPath'',
      ''conditional'', ''conditionalTrue'', ''conditionalFalse'', ''conditionalTime'', ''httpRequest'',
      ''end'']"

definition BRANCHING_STEP_TYPES :: "string list" where
  "BRANCHING_STEP_TYPES = [''split'', ''conditional'']"

definition SUB_NODE_TYPES :: "string list" where
  "SUB_NODE_TYPES = [''splitPath'', ''conditionalTrue'', ''conditionalFalse'']"

definition NODE_SPACING :: real where
  "NODE_SPACING = 150"

section \<open>From the tree to the canvas\<close>

record opened_flow =
  flow_nodes :: "flow_node list"
  flow_edges :: "flow_edge list"
  maxStepId :: nat

definition step_node :: "api_step \<Rightarrow> nat \<Rightarrow> flow_node" where
  "step_node t index =
     (let known = step_type t \<in> set KNOWN_STEP_TYPES in
      \<lparr>node_id = id_text (api_id t), node_type = (if known then step_type t else ''unsupported''),
       node_x = 0, node_y = real index * NODE_SPACING, node_step = api_id t,
       original_type = (if known then None else Some (step_type t)), node_settings = step_settings t\<rparr>)"

text \<open>\<open>if (parentId)\<close> and \<open>sourceHandle && ...\<close>: an empty text counts as absent.\<close>

definition parent_edge :: "string option \<Rightarrow> string option \<Rightarrow> string \<Rightarrow> flow_edge list" where
  "parent_edge parent handle nid =
     (case parent of
        None \<Rightarrow> []
      | Some p \<Rightarrow> if p = [] then []
                  else [\<lparr>edge_id = CHR ''e'' # p @ ''-'' @ nid, edge_source = p, edge_target = nid,
                         source_handle = (if handle = Some [] then None else handle),
                         target_handle = None\<rparr>])"

text \<open>\<open>child.settings?.path ?? String(i + 1)\<close>; a path is a text, or a whole number where older data has one.\<close>

definition path_key :: "api_step \<Rightarrow> nat \<Rightarrow> string" where
  "path_key c i =
     (case step_settings c of
        JObj m \<Rightarrow> (case obj_get m ''path'' of JStr s \<Rightarrow> s
                 | JNum (Fin x) \<Rightarrow> show_int \<lfloor>x\<rfloor> | _ \<Rightarrow> show_nat (i + 1))
      | _ \<Rightarrow> show_nat (i + 1))"

definition child_handle :: "string \<Rightarrow> nat \<Rightarrow> api_step \<Rightarrow> string option" where
  "child_handle ty i c =
     (if ty = ''split'' then Some (''path-'' @ path_key c i)
      else if ty = ''conditional'' then Some (if i = 0 then ''yes'' else ''no'') else None)"

fun walk :: "opened_flow \<Rightarrow> string option \<Rightarrow> string option \<Rightarrow> api_step \<Rightarrow> opened_flow"
  and walk_children :: "opened_flow \<Rightarrow> string \<Rightarrow> string \<Rightarrow> nat \<Rightarrow> api_step list \<Rightarrow> opened_flow" where
  "walk st parent handle (Step sid ty s cs) =
     (let st1 = \<lparr>flow_nodes = flow_nodes st @ [step_node (Step sid ty s cs) (length (flow_nodes st))],
                 flow_edges = flow_edges st @ parent_edge parent handle (id_text sid),
                 maxStepId = (case numeric_id sid of
                                None \<Rightarrow> maxStepId st
                              | Some n \<Rightarrow> if n > maxStepId st then n else maxStepId st)\<rparr>
      in walk_children st1 (id_text sid) ty 0 cs)"
| "walk_children st pid ty i [] = st"
| "walk_children st pid ty i (c # cs) =
     walk_children (walk st (Some pid) (child_handle ty i c) c) pid ty (i + 1) cs"

definition deserializeStepsToFlow :: "api_step \<Rightarrow> opened_flow" where
  "deserializeStepsToFlow t = walk \<lparr>flow_nodes = [], flow_edges = [], maxStepId = 0\<rparr> None None t"

section \<open>From the canvas to the tree\<close>

definition find_node :: "flow_node list \<Rightarrow> string \<Rightarrow> flow_node option" where
  "find_node ns k = find (\<lambda>n. node_id n = k) ns"

definition childrenOf :: "flow_edge list \<Rightarrow> (string, (string \<times> string option) list) jsmap" where
  "childrenOf es =
     fold (\<lambda>e m. jsset (edge_source e)
                   ((case jsget m (edge_source e) of None \<Rightarrow> [] | Some cs \<Rightarrow> cs) @ [(edge_target e, source_handle e)]) m)
       es []"

definition path_number :: "string \<Rightarrow> nat option" where
  "path_number h =
     (if starts_with ''path-'' h \<and> all_digits (drop 5 h) then Some (digits_val (drop 5 h)) else None)"

definition compareSourceHandles :: "(string \<Rightarrow> string \<Rightarrow> int) \<Rightarrow> string \<Rightarrow> string \<Rightarrow> int" where
  "compareSourceHandles lc ah bh =
     (if ah = bh then 0
      else if ah = ''yes'' \<and> bh = ''no'' then -1
      else if ah = ''no'' \<and> bh = ''yes'' then 1
      else (case (path_number ah, path_number bh) of
              (Some m, Some n) \<Rightarrow> int m - int n
            | _ \<Rightarrow> lc ah bh))"

text \<open>The comparator of one step's children, with the sign of its answer.\<close>

definition node_pos_y :: "flow_node list \<Rightarrow> string \<Rightarrow> real" where
  "node_pos_y ns k = (case find_node ns k of None \<Rightarrow> 0 | Some n \<Rightarrow> node_y n)"

fun not_after :: "(string \<Rightarrow> string \<Rightarrow> int) \<Rightarrow> flow_node list \<Rightarrow> string \<times> string option \<Rightarrow> string \<times> string option \<Rightarrow> bool" where
  "not_after lc ns (a, ha) (b, hb) =
     (if ha \<noteq> None \<and> ha \<noteq> Some [] \<and> hb \<noteq> None \<and> hb \<noteq> Some []
      then compareSourceHandles lc (the ha) (the hb) \<le> 0
      else node_pos_y ns a - node_pos_y ns b \<le> 0)"

text \<open>\<open>Array.prototype.sort\<close> is stable; where the comparator is no order its result is not specified, and
  this insertion is one of the results.\<close>

fun sort_insert :: "('a \<Rightarrow> 'a \<Rightarrow> bool) \<Rightarrow> 'a \<Rightarrow> 'a list \<Rightarrow> 'a list" where
  "sort_insert le x [] = [x]"
| "sort_insert le x (y # ys) = (if le x y then x # y # ys else y # sort_insert le x ys)"

definition stable_sort :: "('a \<Rightarrow> 'a \<Rightarrow> bool) \<Rightarrow> 'a list \<Rightarrow> 'a list" where
  "stable_sort le xs = foldr (sort_insert le) xs []"

definition sortedEntries :: "(string \<Rightarrow> string \<Rightarrow> int) \<Rightarrow> flow_node list \<Rightarrow> flow_edge list \<Rightarrow> string \<Rightarrow> (string \<times> string option) list" where
  "sortedEntries lc ns es k =
     stable_sort (not_after lc ns) (case jsget (childrenOf es) k of None \<Rightarrow> [] | Some cs \<Rightarrow> cs)"

text \<open>The type of the step, and the settings that a \<open>conditionalTrue\<close> takes from its conditional.\<close>

definition node_step_type :: "flow_node \<Rightarrow> string" where
  "node_step_type n = (case original_type n of Some t \<Rightarrow> t | None \<Rightarrow> node_type n)"

definition parentEdge :: "flow_node list \<Rightarrow> flow_edge list \<Rightarrow> string \<Rightarrow> flow_edge option" where
  "parentEdge ns es k =
     (let incoming = filter (\<lambda>e. edge_target e = k) es in
      case find (\<lambda>e. source_handle e = Some ''yes'') incoming of
        Some e \<Rightarrow> Some e
      | None \<Rightarrow> find (\<lambda>e. case find_node ns (edge_source e) of
                             Some p \<Rightarrow> node_type p = ''conditional''
                           | None \<Rightarrow> False) incoming)"

definition saved_settings :: "flow_node list \<Rightarrow> flow_edge list \<Rightarrow> flow_node \<Rightarrow> string \<Rightarrow> jsval" where
  "saved_settings ns es n k =
     (if node_step_type n = ''conditionalTrue'' then
        (case parentEdge ns es k of
           None \<Rightarrow> node_settings n
         | Some e \<Rightarrow> (case find_node ns (edge_source e) of
                         None \<Rightarrow> node_settings n
                       | Some p \<Rightarrow> if node_settings p \<noteq> JUndefined then node_settings p else node_settings n))
      else node_settings n)"

text \<open>
  \<open>buildTree\<close> for the nodes of a list in turn: a node that was visited and an id without a node give
  \<open>null\<close>, which the caller leaves out. The second result is the set of visited ids.
\<close>

function buildTrees :: "(string \<Rightarrow> string \<Rightarrow> int) \<Rightarrow> flow_node list \<Rightarrow> flow_edge list \<Rightarrow> string list \<Rightarrow> string list \<Rightarrow> api_step list \<times> string list" where
  "buildTrees lc ns es [] visited = ([], visited)"
| "buildTrees lc ns es (k # ks) visited =
     (if k \<in> set visited then buildTrees lc ns es ks visited
      else (case find_node ns k of
              None \<Rightarrow> buildTrees lc ns es ks (k # visited)
            | Some n \<Rightarrow>
                (let below = buildTrees lc ns es (map fst (sortedEntries lc ns es k)) (k # visited);
                     others = buildTrees lc ns es ks (snd below)
                 in (Step (node_step n) (node_step_type n) (saved_settings ns es n k) (fst below) # fst others,
                     snd others))))"
  by pat_completeness auto

lemma buildTrees_visited_dom:
  "buildTrees_dom (lc, ns, es, ks, visited) \<Longrightarrow> set visited \<subseteq> set (snd (buildTrees lc ns es ks visited))"
proof (induction lc ns es ks visited rule: buildTrees.pinduct)
  case (2 lc ns es k ks visited)
  show ?case
  proof (cases "k \<in> set visited \<or> find_node ns k = None")
    case True
    then show ?thesis using 2 by (auto simp: buildTrees.psimps)
  next
    case False
    then obtain n where n: "find_node ns k = Some n" "k \<notin> set visited" by auto
    show ?thesis using 2(1) 2(4) [OF n(2) n(1)] 2(5) [OF n(2) n(1) refl] n
      by (auto simp: buildTrees.psimps Let_def)
  qed
qed (simp add: buildTrees.psimps)

lemma find_node_ids: "find_node ns k = Some n \<Longrightarrow> n \<in> set ns \<and> node_id n = k"
  by (auto simp: find_node_def find_Some_iff)

lemma find_node_None: "find_node ns k = None \<longleftrightarrow> k \<notin> node_id ` set ns"
  by (auto simp: find_node_def find_None_iff)

termination buildTrees
proof (relation "inv_image (finite_psubset <*lex*> less_than)
    (\<lambda>(lc, ns, es, ks, visited). (node_id ` set ns - set visited, length ks))", goal_cases)
  case 1
  show ?case by auto
next
  case (2 lc ns es k ks visited)
  then show ?case by simp
next
  case (3 lc ns es k ks visited)
  then have "node_id ` set ns - set (k # visited) = node_id ` set ns - set visited"
    by (auto simp: find_node_None)
  then show ?case by simp
next
  case (4 lc ns es k ks visited n)
  then show ?case by (auto simp: finite_psubset_def dest!: find_node_ids)
next
  case (5 lc ns es k ks visited n below)
  then have "set (k # visited) \<subseteq> set (snd below)" by (metis buildTrees_visited_dom)
  then show ?case using 5 by (auto simp: finite_psubset_def dest!: find_node_ids)
qed

declare buildTrees.simps(2) [simp del]

datatype serialize_result = Serialized api_step | SerializeError string

definition has_incoming :: "flow_edge list \<Rightarrow> string \<Rightarrow> bool" where
  "has_incoming es k \<longleftrightarrow> k \<in> edge_target ` set es"

definition serializeFlowToSteps :: "(string \<Rightarrow> string \<Rightarrow> int) \<Rightarrow> flow_node list \<Rightarrow> flow_edge list \<Rightarrow> serialize_result" where
  "serializeFlowToSteps lc ns es =
     (if ns = [] then SerializeError ''No nodes in the flow''
      else (case find (\<lambda>n. \<not> has_incoming es (node_id n)) ns of
              None \<Rightarrow> SerializeError ''No root node found (all nodes have incoming edges - possible cycle)''
            | Some r \<Rightarrow>
                (case fst (buildTrees lc ns es [node_id r] []) of
                   [] \<Rightarrow> SerializeError ''Failed to build tree from root node''
                 | t # _ \<Rightarrow> Serialized t)))"


section \<open>What a save holds\<close>

definition outgoing :: "flow_edge list \<Rightarrow> string \<Rightarrow> (string \<times> string option) list" where
  "outgoing es k = map (\<lambda>e. (edge_target e, source_handle e)) (filter (\<lambda>e. edge_source e = k) es)"

lemma outgoing_simps [simp]:
  "outgoing [] k = []"
  "outgoing (e # es) k = (if edge_source e = k then [(edge_target e, source_handle e)] else []) @ outgoing es k"
  "outgoing (es @ fs) k = outgoing es k @ outgoing fs k"
  by (simp_all add: outgoing_def)

lemma childrenOf_fold:
  "(case jsget (fold (\<lambda>e m. jsset (edge_source e)
        ((case jsget m (edge_source e) of None \<Rightarrow> [] | Some cs \<Rightarrow> cs) @ [(edge_target e, source_handle e)]) m) es m) k
      of None \<Rightarrow> [] | Some cs \<Rightarrow> cs)
   = (case jsget m k of None \<Rightarrow> [] | Some cs \<Rightarrow> cs) @ outgoing es k"
  by (induction es arbitrary: m) (auto split: option.splits)

lemma childrenOf_outgoing [simp]:
  "(case jsget (childrenOf es) k of None \<Rightarrow> [] | Some cs \<Rightarrow> cs) = outgoing es k"
  using childrenOf_fold [of es "[]" k] by (simp add: childrenOf_def)

lemma set_sort_insert [simp]: "set (sort_insert le x xs) = insert x (set xs)"
  by (induction xs) auto

lemma set_stable_sort [simp]: "set (stable_sort le xs) = set xs"
  by (induction xs) (auto simp: stable_sort_def)

lemma stable_sort_sorted: "sorted_wrt le xs \<Longrightarrow> stable_sort le xs = xs"
proof (induction xs)
  case (Cons x xs)
  then have "stable_sort le (x # xs) = sort_insert le x xs" by (simp add: stable_sort_def)
  then show ?case using Cons.prems by (cases xs) auto
qed (simp add: stable_sort_def)

text \<open>The next steps of a step, and what can be reached: an edge counts where its source is a node.\<close>

definition successors :: "flow_edge list \<Rightarrow> string \<Rightarrow> string set" where
  "successors es k = {edge_target e | e. e \<in> set es \<and> edge_source e = k}"

definition flow_rel :: "flow_node list \<Rightarrow> flow_edge list \<Rightarrow> (string \<times> string) set" where
  "flow_rel ns es = {(a, b). a \<in> node_id ` set ns \<and> b \<in> successors es a}"

lemma set_sortedEntries: "fst ` set (sortedEntries lc ns es k) = successors es k"
  by (auto simp: sortedEntries_def outgoing_def successors_def image_image)

fun tree_ids :: "api_step \<Rightarrow> string list" where
  "tree_ids (Step sid ty s cs) = id_text sid # concat (map tree_ids cs)"

definition well_named :: "flow_node list \<Rightarrow> bool" where
  "well_named ns \<longleftrightarrow> (\<forall>n \<in> set ns. id_text (node_step n) = node_id n)"

lemmas buildTrees_step = buildTrees.simps(2)

lemma buildTrees_visited: "set visited \<subseteq> set (snd (buildTrees lc ns es ks visited))"
proof (induction lc ns es ks visited rule: buildTrees.induct)
  case (2 lc ns es k ks visited)
  then show ?case by (fastforce simp: buildTrees_step Let_def split: option.splits)
qed simp

lemma buildTrees_covers: "set ks \<subseteq> set (snd (buildTrees lc ns es ks visited))"
proof (induction lc ns es ks visited rule: buildTrees.induct)
  case (2 lc ns es k ks visited)
  show ?case
  proof (cases "k \<in> set visited \<or> find_node ns k = None")
    case True
    then show ?thesis using 2 buildTrees_visited [of visited lc ns es ks] buildTrees_visited [of "k # visited" lc ns es ks]
      by (auto simp: buildTrees_step)
  next
    case False
    then obtain n where n: "find_node ns k = Some n" "k \<notin> set visited" by auto
    let ?b = "buildTrees lc ns es (map fst (sortedEntries lc ns es k)) (k # visited)"
    have "k \<in> set (snd ?b)" using buildTrees_visited [of "k # visited" lc ns es] by auto
    then have "k \<in> set (snd (buildTrees lc ns es ks (snd ?b)))"
      using buildTrees_visited [of "snd ?b" lc ns es ks] by auto
    then show ?thesis using 2(4) [OF n(2) n(1) refl] n by (auto simp: buildTrees_step Let_def)
  qed
qed simp

lemma buildTrees_closed:
  "x \<in> set (snd (buildTrees lc ns es ks visited)) \<Longrightarrow> x \<notin> set visited \<Longrightarrow> x \<in> node_id ` set ns \<Longrightarrow>
   successors es x \<subseteq> set (snd (buildTrees lc ns es ks visited))"
proof (induction lc ns es ks visited arbitrary: x rule: buildTrees.induct)
  case (2 lc ns es k ks visited)
  consider "k \<in> set visited" | "k \<notin> set visited" "find_node ns k = None" | "k \<notin> set visited" "find_node ns k \<noteq> None"
    by blast
  then show ?case
  proof cases
    case 1
    then show ?thesis using 2(1) [OF 1] 2(5-) by (simp add: buildTrees_step)
  next
    case none: 2
    have "x \<noteq> k" using 2(7) none by (auto simp: find_node_None)
    then show ?thesis using 2(2) [OF none, of x] 2(5-) none by (simp add: buildTrees_step)
  next
    case 3
    then obtain n where n: "find_node ns k = Some n" "k \<notin> set visited" by auto
    let ?b = "buildTrees lc ns es (map fst (sortedEntries lc ns es k)) (k # visited)"
    let ?o = "buildTrees lc ns es ks (snd ?b)"
    have eq: "snd (buildTrees lc ns es (k # ks) visited) = snd ?o" using n by (simp add: buildTrees_step Let_def)
    have mono: "set (snd ?b) \<subseteq> set (snd ?o)" by (rule buildTrees_visited)
    have "successors es x \<subseteq> set (snd ?o)"
    proof (cases "x \<in> set (snd ?b)")
      case False
      then show ?thesis using 2(4) [OF n(2) n(1) refl, of x] 2(5-) eq by simp
    next
      case b: True
      show ?thesis
      proof (cases "x = k")
        case True
        have "successors es k \<subseteq> set (snd ?b)"
          using buildTrees_covers [of "map fst (sortedEntries lc ns es k)" lc ns es "k # visited"]
          by (simp add: set_sortedEntries)
        then show ?thesis using mono True by blast
      next
        case False
        then show ?thesis using 2(3) [OF n(2) n(1), of x] 2(6,7) b mono by auto
      qed
    qed
    then show ?thesis using eq by simp
  qed
qed simp

lemma buildTrees_reached:
  "x \<in> set (snd (buildTrees lc ns es ks visited)) \<Longrightarrow> x \<in> set visited \<or> (\<exists>k \<in> set ks. (k, x) \<in> (flow_rel ns es)\<^sup>*)"
proof (induction lc ns es ks visited arbitrary: x rule: buildTrees.induct)
  case (2 lc ns es k ks visited)
  show ?case
  proof (cases "k \<in> set visited \<or> find_node ns k = None")
    case True
    then show ?thesis using 2 by (cases "k \<in> set visited") (fastforce simp: buildTrees_step)+
  next
    case False
    then obtain n where n: "find_node ns k = Some n" "k \<notin> set visited" by auto
    then have kn: "k \<in> node_id ` set ns" by (auto dest: find_node_ids)
    let ?b = "buildTrees lc ns es (map fst (sortedEntries lc ns es k)) (k # visited)"
    have "x \<in> set (snd (buildTrees lc ns es ks (snd ?b)))" using 2(5) n by (simp add: buildTrees_step Let_def)
    from 2(4) [OF n(2) n(1) refl this] consider "x \<in> set (snd ?b)" | k' where "k' \<in> set ks" "(k', x) \<in> (flow_rel ns es)\<^sup>*" by auto
    then show ?thesis
    proof cases
      case 1
      from 2(3) [OF n(2) n(1) this] consider "x = k \<or> x \<in> set visited"
        | c where "c \<in> successors es k" "(c, x) \<in> (flow_rel ns es)\<^sup>*"
        using set_sortedEntries [of lc ns es k] by auto
      then show ?thesis
      proof cases
        case 2
        then have "(k, c) \<in> flow_rel ns es" using kn by (simp add: flow_rel_def)
        then show ?thesis using 2 by (meson converse_rtrancl_into_rtrancl list.set_intros(1))
      qed auto
    qed auto
  qed
qed simp

lemma buildTrees_ids:
  "well_named ns \<Longrightarrow>
   distinct (concat (map tree_ids (fst (buildTrees lc ns es ks visited)))) \<and>
   set (concat (map tree_ids (fst (buildTrees lc ns es ks visited))))
     = (set (snd (buildTrees lc ns es ks visited)) - set visited) \<inter> node_id ` set ns"
proof (induction lc ns es ks visited rule: buildTrees.induct)
  case (2 lc ns es k ks visited)
  consider "k \<in> set visited" | "k \<notin> set visited" "find_node ns k = None" | "k \<notin> set visited" "find_node ns k \<noteq> None"
    by blast
  then show ?case
  proof cases
    case 1
    then show ?thesis using 2(1) [OF 1 2(5)] by (simp add: buildTrees_step)
  next
    case none: 2
    then have "(X - set (k # visited)) \<inter> node_id ` set ns = (X - set visited) \<inter> node_id ` set ns" for X
      by (auto simp: find_node_None)
    then show ?thesis using 2(2) [OF none 2(5)] none by (simp add: buildTrees_step)
  next
    case 3
    then obtain n where n: "find_node ns k = Some n" "k \<notin> set visited" by auto
    then have idk: "id_text (node_step n) = k" "k \<in> node_id ` set ns"
      using 2(5) by (auto simp: well_named_def dest: find_node_ids)
    let ?b = "buildTrees lc ns es (map fst (sortedEntries lc ns es k)) (k # visited)"
    let ?o = "buildTrees lc ns es ks (snd ?b)"
    have b: "distinct (concat (map tree_ids (fst ?b)))"
      "set (concat (map tree_ids (fst ?b))) = (set (snd ?b) - set (k # visited)) \<inter> node_id ` set ns"
      using 2(3) [OF n(2) n(1) 2(5)] by auto
    have o: "distinct (concat (map tree_ids (fst ?o)))"
      "set (concat (map tree_ids (fst ?o))) = (set (snd ?o) - set (snd ?b)) \<inter> node_id ` set ns"
      using 2(4) [OF n(2) n(1) refl 2(5)] by auto
    have eq: "fst (buildTrees lc ns es (k # ks) visited)
        = Step (node_step n) (node_step_type n) (saved_settings ns es n k) (fst ?b) # fst ?o"
      "snd (buildTrees lc ns es (k # ks) visited) = snd ?o"
      using n by (simp_all add: buildTrees_step Let_def)
    have sub: "insert k (set visited) \<subseteq> set (snd ?b)" "set (snd ?b) \<subseteq> set (snd ?o)"
      using buildTrees_visited [of "k # visited" lc ns es] buildTrees_visited [of "snd ?b" lc ns es ks] by auto
    show ?thesis
      unfolding eq list.map(2) concat.simps tree_ids.simps distinct_append set_append append_Cons list.set(2) distinct.simps b(2) o(2) idk(1)
      using b(1) o(1) sub idk(2) n(2) by auto
  qed
qed simp


text \<open>A save gives a tree exactly where some node has no edge into it.\<close>

lemma save_answers:
  "(\<exists>t. serializeFlowToSteps lc ns es = Serialized t) \<longleftrightarrow> (\<exists>n \<in> set ns. \<not> has_incoming es (node_id n))"
proof (cases "find (\<lambda>n. \<not> has_incoming es (node_id n)) ns")
  case None
  then have "\<forall>n \<in> set ns. has_incoming es (node_id n)" by (simp add: find_None_iff)
  then show ?thesis by (simp add: serializeFlowToSteps_def None)
next
  case (Some r)
  then have r: "r \<in> set ns" "\<not> has_incoming es (node_id r)" by (auto simp: find_Some_iff)
  then have "find_node ns (node_id r) \<noteq> None" by (auto simp: find_node_None)
  then have "fst (buildTrees lc ns es [node_id r] []) \<noteq> []" by (auto simp: buildTrees_step Let_def)
  then show ?thesis using r Some by (auto simp: serializeFlowToSteps_def neq_Nil_conv)
qed

lemma closed_rtrancl:
  assumes "(a, b) \<in> R\<^sup>*" "a \<in> S" "\<And>x y. (x, y) \<in> R \<Longrightarrow> x \<in> S \<Longrightarrow> y \<in> S"
  shows "b \<in> S"
  using assms by (induction rule: rtrancl_induct) auto

text \<open>C7: The save ends on every drawing, loops included; what it stores are the steps that the first node without an
  incoming edge reaches along the edges, each of them once.\<close>

theorem saved_steps_are_the_reached:
  assumes "serializeFlowToSteps lc ns es = Serialized t" "well_named ns"
  shows "\<exists>r. find (\<lambda>n. \<not> has_incoming es (node_id n)) ns = Some r \<and> distinct (tree_ids t) \<and>
             set (tree_ids t) = {k \<in> node_id ` set ns. (node_id r, k) \<in> (flow_rel ns es)\<^sup>*}"
proof -
  from assms(1) obtain r where r: "find (\<lambda>n. \<not> has_incoming es (node_id n)) ns = Some r"
    by (auto simp: serializeFlowToSteps_def split: if_splits option.splits)
  then have rn: "r \<in> set ns" by (auto simp: find_Some_iff)
  let ?k = "node_id r"
  let ?b = "buildTrees lc ns es [?k] []"
  obtain n where n: "find_node ns ?k = Some n" using rn by (cases "find_node ns ?k") (auto simp: find_node_None)
  then have one: "fst ?b = [t]"
    using assms(1) r by (auto simp: serializeFlowToSteps_def buildTrees_step Let_def split: if_splits)
  have ids: "distinct (tree_ids t)" "set (tree_ids t) = set (snd ?b) \<inter> node_id ` set ns"
    using buildTrees_ids [OF assms(2), of lc es "[?k]" "[]"] by (simp_all add: one)
  have "x \<in> set (snd ?b)" if "(?k, x) \<in> (flow_rel ns es)\<^sup>*" for x
  proof (rule closed_rtrancl [OF that])
    show "?k \<in> set (snd ?b)" using buildTrees_covers [of "[?k]" lc ns es "[]"] by simp
    show "b \<in> set (snd ?b)" if "(a, b) \<in> flow_rel ns es" "a \<in> set (snd ?b)" for a b
      using that buildTrees_closed [of a lc ns es "[?k]" "[]"] by (auto simp: flow_rel_def)
  qed
  moreover have "(?k, x) \<in> (flow_rel ns es)\<^sup>*" if "x \<in> set (snd ?b)" for x
    using buildTrees_reached [OF that] by simp
  ultimately show ?thesis using r ids by auto
qed

section \<open>Opening and saving\<close>

text \<open>The tree as a save writes it: a \<open>conditionalTrue\<close> has the rules of its conditional.\<close>

definition rules_below :: "string \<Rightarrow> jsval \<Rightarrow> jsval option" where
  "rules_below ty s = (if ty = ''conditional'' \<and> s \<noteq> JUndefined then Some s else None)"

definition mirrored :: "jsval option \<Rightarrow> string \<Rightarrow> jsval \<Rightarrow> jsval" where
  "mirrored p ty s = (if ty = ''conditionalTrue'' then (case p of Some v \<Rightarrow> v | None \<Rightarrow> s) else s)"

fun mirror :: "jsval option \<Rightarrow> api_step \<Rightarrow> api_step" where
  "mirror p (Step sid ty s cs) = Step sid ty (mirrored p ty s) (map (mirror (rules_below ty s)) cs)"

text \<open>
  The children of a split carry numbers, in order; a step that neither splits nor decides has at most one
  child.
\<close>

definition children_in_order :: "string \<Rightarrow> api_step list \<Rightarrow> bool" where
  "children_in_order ty cs =
     (if ty = ''split'' then
        list_all (\<lambda>(i, c). all_digits (path_key c i)) (enumerate 0 cs) \<and>
        sorted (map (\<lambda>(i, c). digits_val (path_key c i)) (enumerate 0 cs))
      else ty = ''conditional'' \<or> length cs \<le> 1)"

fun orderly :: "api_step \<Rightarrow> bool" where
  "orderly (Step sid ty s cs) = (children_in_order ty cs \<and> (\<forall>c \<in> set cs. orderly c))"

definition entries :: "string \<Rightarrow> nat \<Rightarrow> api_step list \<Rightarrow> (string \<times> string option) list" where
  "entries ty i cs = map (\<lambda>(j, c). (id_text (api_id c), child_handle ty j c)) (enumerate i cs)"

lemma entries_simps [simp]:
  "entries ty i [] = []"
  "entries ty i (c # cs) = (id_text (api_id c), child_handle ty i c) # entries ty (Suc i) cs"
  by (simp_all add: entries_def)

lemma fst_entries [simp]: "map fst (entries ty i cs) = map (\<lambda>c. id_text (api_id c)) cs"
  by (induction cs arbitrary: i) auto

lemma path_prefix_kept [simp]: "starts_with p (p @ s)"
  by (induction p) auto

lemma path_number_key: "all_digits k \<Longrightarrow> path_number (''path-'' @ k) = Some (digits_val k)"
  using path_prefix_kept [of "''path-''" k] by (simp add: path_number_def)

lemma entries_sorted:
  assumes "children_in_order ty cs"
  shows "sorted_wrt (not_after lc ns) (entries ty 0 cs)"
proof -
  consider "ty = ''split''" | "ty = ''conditional''" | "ty \<noteq> ''split''" "ty \<noteq> ''conditional''" by blast
  then show ?thesis
  proof cases
    case 1
    have "compareSourceHandles lc (''path-'' @ path_key (cs ! i) i) (''path-'' @ path_key (cs ! j) j) \<le> 0"
      if "i < j" "j < length cs" for i j
    proof -
      have "all_digits (path_key (cs ! i) i)" "all_digits (path_key (cs ! j) j)"
        "digits_val (path_key (cs ! i) i) \<le> digits_val (path_key (cs ! j) j)"
        using assms 1 that
        by (auto simp: children_in_order_def list_all_length nth_enumerate_eq sorted_iff_nth_mono)
      then show ?thesis
        using path_number_key [of "path_key (cs ! i) i"] path_number_key [of "path_key (cs ! j) j"]
        by (simp add: compareSourceHandles_def)
    qed
    then show ?thesis using 1
      by (auto simp: sorted_wrt_iff_nth_less entries_def nth_enumerate_eq child_handle_def)
  next
    case 2
    then show ?thesis
      by (auto simp: sorted_wrt_iff_nth_less entries_def nth_enumerate_eq child_handle_def compareSourceHandles_def)
  next
    case 3
    then have "length cs \<le> 1" using assms by (simp add: children_in_order_def)
    then show ?thesis by (cases cs) auto
  qed
qed

text \<open>A drawing holds a tree: its nodes, its edges and the settings a save would give them.\<close>

fun hosts :: "flow_node list \<Rightarrow> flow_edge list \<Rightarrow> jsval option \<Rightarrow> api_step \<Rightarrow> bool" where
  "hosts ns es p (Step sid ty s cs) =
     ((case find_node ns (id_text sid) of
         None \<Rightarrow> False
       | Some n \<Rightarrow> node_step n = sid \<and> node_step_type n = ty \<and> saved_settings ns es n (id_text sid) = mirrored p ty s) \<and>
      outgoing es (id_text sid) = entries ty 0 cs \<and>
      (\<forall>c \<in> set cs. hosts ns es (rules_below ty s) c))"

lemma hosts_build:
  "ks = map (\<lambda>c. id_text (api_id c)) ts \<Longrightarrow> \<forall>c \<in> set ts. hosts ns es p c \<and> orderly c \<Longrightarrow>
   distinct (concat (map tree_ids ts)) \<Longrightarrow> set (concat (map tree_ids ts)) \<inter> set visited = {} \<Longrightarrow>
   fst (buildTrees lc ns es ks visited) = map (mirror p) ts \<and>
   set (snd (buildTrees lc ns es ks visited)) = set visited \<union> set (concat (map tree_ids ts))"
proof (induction lc ns es ks visited arbitrary: ts p rule: buildTrees.induct)
  case (2 lc ns es k ks visited)
  then obtain sid ty s cs rest where ts: "ts = Step sid ty s cs # rest" "k = id_text sid"
      "ks = map (\<lambda>c. id_text (api_id c)) rest"
    by (cases ts) (auto, metis api_step.exhaust_sel)
  from 2(6) ts obtain n where n: "find_node ns k = Some n" "node_step n = sid" "node_step_type n = ty"
      "saved_settings ns es n k = mirrored p ty s"
    and out: "outgoing es k = entries ty 0 cs" and below: "\<forall>c \<in> set cs. hosts ns es (rules_below ty s) c \<and> orderly c"
    and ord: "children_in_order ty cs" and rest: "\<forall>c \<in> set rest. hosts ns es p c \<and> orderly c"
    by (auto split: option.splits)
  have kv: "k \<notin> set visited" using 2(8) ts by auto
  have srt: "map fst (sortedEntries lc ns es k) = map (\<lambda>c. id_text (api_id c)) cs"
    using stable_sort_sorted [OF entries_sorted [OF ord, of lc ns]] out by (simp add: sortedEntries_def)
  let ?b = "buildTrees lc ns es (map fst (sortedEntries lc ns es k)) (k # visited)"
  have b: "fst ?b = map (mirror (rules_below ty s)) cs"
    "set (snd ?b) = insert k (set visited) \<union> set (concat (map tree_ids cs))"
    using 2(3) [OF kv n(1) srt below] 2(7,8) ts by auto
  let ?o = "buildTrees lc ns es ks (snd ?b)"
  have "set (concat (map tree_ids rest)) \<inter> set (snd ?b) = {}" "distinct (concat (map tree_ids rest))"
    using 2(7,8) ts b(2) by auto
  then have "fst ?o = map (mirror p) rest" "set (snd ?o) = set (snd ?b) \<union> set (concat (map tree_ids rest))"
    using 2(4) [OF kv n(1) refl ts(3) rest] by auto
  then show ?case using kv n b ts by (auto simp: buildTrees_step Let_def)
qed simp


text \<open>The steps of a tree in the order they are drawn, and the edges drawn for them.\<close>

fun subs :: "api_step \<Rightarrow> api_step list" where
  "subs (Step sid ty s cs) = Step sid ty s cs # concat (map subs cs)"

fun tree_edges :: "string option \<Rightarrow> string option \<Rightarrow> api_step \<Rightarrow> flow_edge list"
  and child_edges :: "string \<Rightarrow> string \<Rightarrow> nat \<Rightarrow> api_step list \<Rightarrow> flow_edge list" where
  "tree_edges p h (Step sid ty s cs) = parent_edge p h (id_text sid) @ child_edges (id_text sid) ty 0 cs"
| "child_edges pid ty i [] = []"
| "child_edges pid ty i (c # cs) = tree_edges (Some pid) (child_handle ty i c) c @ child_edges pid ty (i + 1) cs"

lemma tree_ids_subs: "tree_ids t = map (\<lambda>u. id_text (api_id u)) (subs t)"
  by (induction t rule: tree_ids.induct) (simp add: map_concat cong: map_cong)

lemma self_in_subs [simp]: "t \<in> set (subs t)"
  by (cases t) simp

lemma walk_draws:
  "(\<exists>ns. flow_nodes (walk st p h t) = flow_nodes st @ ns \<and>
         list_all2 (\<lambda>u n. \<exists>i. n = step_node u i) (subs t) ns) \<and>
   flow_edges (walk st p h t) = flow_edges st @ tree_edges p h t"
  "(\<exists>ns. flow_nodes (walk_children st pid ty i cs) = flow_nodes st @ ns \<and>
         list_all2 (\<lambda>u n. \<exists>i. n = step_node u i) (concat (map subs cs)) ns) \<and>
   flow_edges (walk_children st pid ty i cs) = flow_edges st @ child_edges pid ty i cs"
proof (induction st p h t and st pid ty i cs rule: walk_walk_children.induct)
  case (1 st p h sid ty s cs)
  then show ?case by (fastforce simp: Let_def)
next
  case (3 st pid ty i c cs)
  then show ?case by (fastforce intro: list_all2_appendI)
qed simp

lemma edge_targets:
  "p \<noteq> Some [] \<Longrightarrow> [] \<notin> set (tree_ids t) \<Longrightarrow>
   map edge_target (tree_edges p h t) = (if p = None then tl (tree_ids t) else tree_ids t)"
  "pid \<noteq> [] \<Longrightarrow> [] \<notin> set (concat (map tree_ids cs)) \<Longrightarrow>
   map edge_target (child_edges pid ty i cs) = concat (map tree_ids cs)"
  by (induction p h t and pid ty i cs rule: tree_edges_child_edges.induct)
    (auto simp: parent_edge_def split: option.splits)

lemma edge_sources:
  "edge_source ` set (tree_edges p h t) \<subseteq> set_option p \<union> set (tree_ids t)"
  "edge_source ` set (child_edges pid ty i cs) \<subseteq> insert pid (set (concat (map tree_ids cs)))"
  by (induction p h t and pid ty i cs rule: tree_edges_child_edges.induct)
    (auto simp: parent_edge_def split: option.splits if_splits)

lemma outgoing_none: "k \<notin> edge_source ` set es \<Longrightarrow> outgoing es k = []"
  by (auto simp: outgoing_def filter_empty_conv)

lemma child_handle_full [simp]: "child_handle ty i c \<noteq> Some []"
  by (simp add: child_handle_def)

lemma outgoing_drawn:
  "distinct (tree_ids t) \<Longrightarrow> [] \<notin> set (tree_ids t) \<Longrightarrow> set_option p \<inter> set (tree_ids t) = {} \<Longrightarrow> h \<noteq> Some [] \<Longrightarrow> p \<noteq> Some [] \<Longrightarrow>
   (\<forall>u \<in> set (subs t). outgoing (tree_edges p h t) (id_text (api_id u)) = entries (step_type u) 0 (step_children u)) \<and>
   (\<forall>k. p = Some k \<longrightarrow> outgoing (tree_edges p h t) k = [(id_text (api_id t), h)])"
  "distinct (concat (map tree_ids cs)) \<Longrightarrow> [] \<notin> set (concat (map tree_ids cs)) \<Longrightarrow> pid \<notin> set (concat (map tree_ids cs)) \<Longrightarrow> pid \<noteq> [] \<Longrightarrow>
   (\<forall>u \<in> set (concat (map subs cs)). outgoing (child_edges pid ty i cs) (id_text (api_id u)) = entries (step_type u) 0 (step_children u)) \<and>
   outgoing (child_edges pid ty i cs) pid = entries ty i cs"
proof (induction p h t and pid ty i cs rule: tree_edges_child_edges.induct)
  case (1 p h sid ty s cs)
  let ?k = "id_text sid"
  have ih: "\<forall>u \<in> set (concat (map subs cs)). outgoing (child_edges ?k ty 0 cs) (id_text (api_id u)) = entries (step_type u) 0 (step_children u)"
    "outgoing (child_edges ?k ty 0 cs) ?k = entries ty 0 cs"
    using 1 by auto
  have par: "outgoing (parent_edge p h ?k) x = (if p = Some x then [(?k, h)] else [])" for x
    using 1(5,6) by (auto simp: parent_edge_def split: option.splits)
  have "p \<noteq> Some (id_text (api_id u))" if "u \<in> set (concat (map subs cs))" for u
    using that 1(4) by (auto simp: tree_ids_subs)
  moreover have "outgoing (child_edges ?k ty 0 cs) x = []" if "p = Some x" for x
    using that 1(4) edge_sources(2) [of ?k ty 0 cs] by (intro outgoing_none) auto
  ultimately show ?case using ih par 1(4) by auto
next
  case (3 pid ty i c cs)
  have c: "\<forall>u \<in> set (subs c). outgoing (tree_edges (Some pid) (child_handle ty i c) c) (id_text (api_id u))
              = entries (step_type u) 0 (step_children u)"
    "outgoing (tree_edges (Some pid) (child_handle ty i c) c) pid = [(id_text (api_id c), child_handle ty i c)]"
    using 3(1) 3(3-) by auto
  have cs: "\<forall>u \<in> set (concat (map subs cs)). outgoing (child_edges pid ty (i + 1) cs) (id_text (api_id u))
              = entries (step_type u) 0 (step_children u)"
    "outgoing (child_edges pid ty (i + 1) cs) pid = entries ty (i + 1) cs"
    using 3(2) 3(3-) by auto
  have n1: "outgoing (child_edges pid ty (i + 1) cs) (id_text (api_id u)) = []" if "u \<in> set (subs c)" for u
  proof (rule outgoing_none)
    have "id_text (api_id u) \<in> set (tree_ids c)" using that by (auto simp: tree_ids_subs)
    then show "id_text (api_id u) \<notin> edge_source ` set (child_edges pid ty (i + 1) cs)"
      using edge_sources(2) [of pid ty "i + 1" cs] 3(3,5) by auto
  qed
  have n2: "outgoing (tree_edges (Some pid) (child_handle ty i c) c) (id_text (api_id u)) = []"
    if "u \<in> set (concat (map subs cs))" for u
  proof (rule outgoing_none)
    have "id_text (api_id u) \<in> set (concat (map tree_ids cs))" using that by (auto simp: tree_ids_subs)
    then show "id_text (api_id u) \<notin> edge_source ` set (tree_edges (Some pid) (child_handle ty i c) c)"
      using edge_sources(1) [of "Some pid" "child_handle ty i c" c] 3(3,5) by auto
  qed
  show ?case using c cs n1 n2 by fastforce
qed simp


text \<open>The boxes may be anywhere: \<open>pos\<close> gives each node its place.\<close>

definition relocated :: "(string \<Rightarrow> real \<times> real) \<Rightarrow> flow_node list \<Rightarrow> flow_node list" where
  "relocated pos ns = map (\<lambda>n. n\<lparr>node_x := fst (pos (node_id n)), node_y := snd (pos (node_id n))\<rparr>) ns"

definition drawn :: "api_step \<Rightarrow> flow_node list \<Rightarrow> flow_edge list \<Rightarrow> bool" where
  "drawn t ns es \<longleftrightarrow>
     list_all2 (\<lambda>u n. node_id n = id_text (api_id u) \<and> node_step n = api_id u \<and> node_step_type n = step_type u \<and>
                      node_settings n = step_settings u \<and> (node_type n = ''conditional'' \<longleftrightarrow> step_type u = ''conditional''))
       (subs t) ns \<and>
     es = tree_edges None None t"

lemma step_node_facts:
  "node_id (step_node u i) = id_text (api_id u)" "node_step (step_node u i) = api_id u"
  "node_settings (step_node u i) = step_settings u" "node_step_type (step_node u i) = step_type u"
  "node_type (step_node u i) = ''conditional'' \<longleftrightarrow> step_type u = ''conditional''"
proof -
  have "''conditional'' \<in> set KNOWN_STEP_TYPES" by (simp add: KNOWN_STEP_TYPES_def)
  then show "node_type (step_node u i) = ''conditional'' \<longleftrightarrow> step_type u = ''conditional''"
    by (auto simp: step_node_def Let_def)
qed (simp_all add: step_node_def node_step_type_def Let_def)

lemma node_step_type_relocated [simp]: "node_step_type (n\<lparr>node_x := x, node_y := y\<rparr>) = node_step_type n"
  by (simp add: node_step_type_def split: option.split)

lemma deserialize_drawn:
  "drawn t (relocated pos (flow_nodes (deserializeStepsToFlow t))) (flow_edges (deserializeStepsToFlow t))"
proof -
  obtain ns where ns: "flow_nodes (deserializeStepsToFlow t) = ns" "list_all2 (\<lambda>u n. \<exists>i. n = step_node u i) (subs t) ns"
      "flow_edges (deserializeStepsToFlow t) = tree_edges None None t"
    using walk_draws(1) [of "\<lparr>flow_nodes = [], flow_edges = [], maxStepId = 0\<rparr>" None None t]
    by (auto simp: deserializeStepsToFlow_def)
  from ns(2) show ?thesis
    unfolding drawn_def ns(1,3) relocated_def list_all2_map2
    by (auto elim!: list_all2_mono simp: step_node_facts)
qed

lemma find_node_distinct:
  "distinct (map node_id ns) \<Longrightarrow> n \<in> set ns \<Longrightarrow> find_node ns (node_id n) = Some n"
  by (induction ns) (auto simp: find_node_def)

lemma drawn_node:
  assumes "drawn t ns es" "distinct (tree_ids t)" "u \<in> set (subs t)"
  obtains n where "find_node ns (id_text (api_id u)) = Some n" "node_step n = api_id u" "node_step_type n = step_type u"
    "node_settings n = step_settings u" "node_type n = ''conditional'' \<longleftrightarrow> step_type u = ''conditional''"
proof -
  have ids: "map node_id ns = tree_ids t"
    using assms(1) by (auto simp: drawn_def tree_ids_subs list_all2_conv_all_nth intro!: nth_equalityI)
  from assms(3) obtain i where i: "i < length (subs t)" "subs t ! i = u" by (auto simp: in_set_conv_nth)
  let ?n = "ns ! i"
  have n: "?n \<in> set ns" "node_id ?n = id_text (api_id u)" "node_step ?n = api_id u" "node_step_type ?n = step_type u"
      "node_settings ?n = step_settings u" "node_type ?n = ''conditional'' \<longleftrightarrow> step_type u = ''conditional''"
    using assms(1) i by (auto simp: drawn_def list_all2_conv_all_nth)
  then have "find_node ns (id_text (api_id u)) = Some ?n"
    using find_node_distinct [of ns ?n] ids assms(2) by simp
  then show thesis using n that by blast
qed

lemma subs_trans: "u \<in> set (subs t) \<Longrightarrow> c \<in> set (step_children u) \<Longrightarrow> c \<in> set (subs t)"
proof (induction t rule: subs.induct)
  case (1 sid ty s cs)
  then show ?case by (cases "u = Step sid ty s cs") (auto intro: self_in_subs)
qed

lemma filter_one: "distinct (map f xs) \<Longrightarrow> x \<in> set xs \<Longrightarrow> filter (\<lambda>y. f y = f x) xs = [x]"
  by (induction xs) (auto simp: filter_empty_conv, metis image_eqI)

lemma drawn_child_settings:
  assumes d: "drawn t ns es" "distinct (tree_ids t)" "[] \<notin> set (tree_ids t)"
    and u: "u \<in> set (subs t)" and c: "c \<in> set (step_children u)"
    and n: "find_node ns (id_text (api_id c)) = Some n"
  shows "saved_settings ns es n (id_text (api_id c))
           = mirrored (rules_below (step_type u) (step_settings u)) (step_type c) (step_settings c)"
proof -
  obtain p where p: "find_node ns (id_text (api_id u)) = Some p" "node_settings p = step_settings u"
      "node_type p = ''conditional'' \<longleftrightarrow> step_type u = ''conditional''"
    using drawn_node [OF d(1,2) u] by metis
  have n': "node_step_type n = step_type c" "node_settings n = step_settings c"
    using drawn_node [OF d(1,2) subs_trans [OF u c]] n by (metis option.inject)+
  have out: "outgoing es (id_text (api_id u)) = entries (step_type u) 0 (step_children u)"
    using outgoing_drawn(1) [OF d(2,3), of None None] u d(1) by (auto simp: drawn_def)
  obtain j where j: "j < length (step_children u)" "step_children u ! j = c" using c by (auto simp: in_set_conv_nth)
  have "entries (step_type u) 0 (step_children u) ! j = (id_text (api_id c), child_handle (step_type u) j c)"
    using j by (simp add: entries_def nth_enumerate_eq)
  then have "(id_text (api_id c), child_handle (step_type u) j c) \<in> set (outgoing es (id_text (api_id u)))"
    unfolding out using j(1) by (metis entries_def length_enumerate length_map nth_mem)
  then obtain e where e: "e \<in> set es" "edge_source e = id_text (api_id u)" "edge_target e = id_text (api_id c)"
      "source_handle e = child_handle (step_type u) j c"
    by (auto simp: outgoing_def)
  have "map edge_target es = tl (tree_ids t)"
    using edge_targets(1) [of None t None] d(1,3) by (simp add: drawn_def)
  then have "distinct (map edge_target es)" using d(2) by (simp add: distinct_tl)
  then have inc: "filter (\<lambda>f. edge_target f = id_text (api_id c)) es = [e]" using filter_one [of edge_target es e] e by simp
  show ?thesis
    using p n' e by (auto simp: saved_settings_def parentEdge_def mirrored_def rules_below_def inc child_handle_def)
qed

lemma drawn_hosts:
  assumes d: "drawn t ns es" "distinct (tree_ids t)" "[] \<notin> set (tree_ids t)"
  shows "u \<in> set (subs t) \<Longrightarrow>
    (\<And>n. find_node ns (id_text (api_id u)) = Some n \<Longrightarrow>
       saved_settings ns es n (id_text (api_id u)) = mirrored p (step_type u) (step_settings u)) \<Longrightarrow>
    hosts ns es p u"
proof (induction u arbitrary: p rule: tree_ids.induct)
  case (1 sid ty s cs)
  let ?u = "Step sid ty s cs"
  obtain n where n: "find_node ns (id_text sid) = Some n" "node_step n = sid" "node_step_type n = ty"
    using drawn_node [OF d(1,2) 1(2)] by auto
  have out: "outgoing es (id_text sid) = entries ty 0 cs"
    using outgoing_drawn(1) [OF d(2,3), of None None] 1(2) d(1) by (auto simp: drawn_def)
  have "hosts ns es (rules_below ty s) c" if "c \<in> set cs" for c
  proof (rule 1(1) [OF that])
    show "c \<in> set (subs t)" using subs_trans [OF 1(2), of c] that by simp
    show "saved_settings ns es m (id_text (api_id c)) = mirrored (rules_below ty s) (step_type c) (step_settings c)"
      if "find_node ns (id_text (api_id c)) = Some m" for m
      using drawn_child_settings [OF d 1(2) _ that] \<open>c \<in> set cs\<close> by simp
  qed
  then show ?case using n out 1(3) by simp
qed

lemma drawn_saved:
  assumes d: "drawn t ns es" "distinct (tree_ids t)" "[] \<notin> set (tree_ids t)" and ord: "orderly t"
  shows "serializeFlowToSteps lc ns es = Serialized (mirror None t)"
proof -
  let ?k = "id_text (api_id t)"
  have ids: "map node_id ns = tree_ids t"
    using d(1) by (auto simp: drawn_def tree_ids_subs list_all2_conv_all_nth intro!: nth_equalityI)
  have tids: "tree_ids t = ?k # tl (tree_ids t)" by (cases t) simp
  have tgt: "map edge_target es = tl (tree_ids t)"
    using edge_targets(1) [of None t None] d(1,3) by (simp add: drawn_def)
  have fresh: "?k \<notin> edge_target ` set es"
    using d(2) tids tgt by (metis distinct.simps(2) image_set)
  obtain r rs where ns: "ns = r # rs" "node_id r = ?k" 
  proof (cases ns)
    case (Cons r rs)
    then have "node_id r = hd (tree_ids t)" by (simp flip: ids)
    then show thesis using that Cons tids by (metis list.sel(1))
  qed (use ids tids in auto)
  have root: "find (\<lambda>n. \<not> has_incoming es (node_id n)) ns = Some r" using ns fresh by (simp add: has_incoming_def)
  have none: "filter (\<lambda>e. edge_target e = ?k) es = []" 
    using fresh unfolding filter_empty_conv by (metis image_eqI)
  have "hosts ns es None t"
  proof (rule drawn_hosts [OF d self_in_subs])
    fix n assume n: "find_node ns ?k = Some n"
    have "node_step_type n = step_type t" "node_settings n = step_settings t"
      using drawn_node [OF d(1,2) self_in_subs] n by (metis option.inject)+
    then show "saved_settings ns es n ?k = mirrored None (step_type t) (step_settings t)"
      by (simp add: saved_settings_def parentEdge_def mirrored_def none)
  qed
  then have "fst (buildTrees lc ns es [?k] []) = [mirror None t]"
    using hosts_build [of "[?k]" "[t]" ns es None "[]" lc] ord d(2) by simp
  then show ?thesis using root ns by (simp add: serializeFlowToSteps_def)
qed

section \<open>The layout kept beside the steps\<close>

record flow_layout =
  layout_nodes :: "(string \<times> real \<times> real) list"
  layout_edges :: "flow_edge list"
  layout_viewport :: "(real \<times> real \<times> real) option"

definition buildFlowLayout :: "flow_node list \<Rightarrow> flow_edge list \<Rightarrow> (real \<times> real \<times> real) option \<Rightarrow> flow_layout" where
  "buildFlowLayout ns es viewport =
     \<lparr>layout_nodes = map (\<lambda>n. (node_id n, node_x n, node_y n)) ns,
      layout_edges = map (\<lambda>e. \<lparr>edge_id = edge_id e, edge_source = edge_source e, edge_target = edge_target e,
                                source_handle = source_handle e, target_handle = target_handle e\<rparr>) es,
      layout_viewport = viewport\<rparr>"

text \<open>\<open>new Map(pairs)\<close>: a later pair replaces an earlier one with its key.\<close>

definition position_map :: "(string \<times> real \<times> real) list \<Rightarrow> (string, real \<times> real) jsmap" where
  "position_map ps = fold (\<lambda>(k, p) m. jsset k p m) ps []"

definition deserializeWithLayout :: "api_step \<Rightarrow> flow_layout option \<Rightarrow> opened_flow" where
  "deserializeWithLayout t flowLayout =
     (let result = deserializeStepsToFlow t in
      case flowLayout of
        None \<Rightarrow> result
      | Some l \<Rightarrow>
          \<lparr>flow_nodes = map (\<lambda>n. case jsget (position_map (layout_nodes l)) (node_id n) of
                                    Some p \<Rightarrow> n\<lparr>node_x := fst p, node_y := snd p\<rparr>
                                  | None \<Rightarrow> n) (flow_nodes result),
           flow_edges = (if layout_edges l \<noteq> [] then layout_edges l else flow_edges result),
           maxStepId = maxStepId result\<rparr>)"

lemma edge_rebuilt [simp]:
  "\<lparr>edge_id = edge_id e, edge_source = edge_source e, edge_target = edge_target e,
    source_handle = source_handle e, target_handle = target_handle e\<rparr> = (e :: flow_edge)"
  by simp

lemma layout_edges_kept [simp]: "layout_edges (buildFlowLayout ns es v) = es"
  by (simp add: buildFlowLayout_def)

lemma position_map_fold:
  "distinct (map fst ps) \<Longrightarrow>
   jsget (fold (\<lambda>(k, p) m. jsset k p m) ps m) k = (case map_of ps k of Some p \<Rightarrow> Some p | None \<Rightarrow> jsget m k)"
proof (induction ps arbitrary: m)
  case (Cons a ps)
  then show ?case by (cases a) (auto split: option.splits dest: map_of_SomeD intro: rev_image_eqI)
qed simp

lemma mirror_ids [simp]: "tree_ids (mirror p t) = tree_ids t"
  by (induction t arbitrary: p rule: tree_ids.induct) (simp add: comp_def cong: map_cong)

lemma mirror_root [simp]:
  "api_id (mirror p t) = api_id t" "step_type (mirror p t) = step_type t"
  "step_settings (mirror p t) = mirrored p (step_type t) (step_settings t)"
  by (cases t; simp)+

lemma mirrored_twice [simp]: "mirrored p ty (mirrored p ty s) = mirrored p ty s"
  by (auto simp: mirrored_def split: option.split)

lemma rules_below_mirrored [simp]: "rules_below ty (mirrored p ty s) = rules_below ty s"
  by (simp add: rules_below_def mirrored_def)

lemma mirror_twice [simp]: "mirror p (mirror p t) = mirror p t"
  by (induction t arbitrary: p rule: tree_ids.induct) (simp cong: map_cong)

lemma child_handle_mirror [simp]: "child_handle ty i (mirror (rules_below ty s) c) = child_handle ty i c"
  by (simp add: child_handle_def path_key_def mirrored_def rules_below_def split: option.split)

lemma mirror_edges [simp]:
  "tree_edges p h (mirror q t) = tree_edges p h t"
  "child_edges pid ty i (map (mirror (rules_below ty s)) cs) = child_edges pid ty i cs"
  by (induction p h t and pid ty i cs arbitrary: q and s rule: tree_edges_child_edges.induct) simp_all

lemma path_key_mirror [simp]: "path_key (mirror None c) i = path_key c i"
  by (simp add: path_key_def mirrored_def)

lemma mirror_in_order [simp]: "children_in_order ty (map (mirror (rules_below ty s)) cs) = children_in_order ty cs"
  by (simp add: children_in_order_def rules_below_def list_all_length nth_enumerate_eq sorted_iff_nth_mono)

lemma mirror_orderly [simp]: "orderly (mirror p t) = orderly t"
  by (induction t arbitrary: p rule: tree_ids.induct) simp

lemma node_ids_drawn: "map node_id (flow_nodes (deserializeStepsToFlow t)) = tree_ids t"
proof -
  obtain ns where "flow_nodes (deserializeStepsToFlow t) = ns" "list_all2 (\<lambda>u n. \<exists>i. n = step_node u i) (subs t) ns"
    using walk_draws(1) [of "\<lparr>flow_nodes = [], flow_edges = [], maxStepId = 0\<rparr>" None None t]
    by (auto simp: deserializeStepsToFlow_def)
  then show ?thesis
    by (auto simp: tree_ids_subs list_all2_conv_all_nth step_node_facts intro!: nth_equalityI)
qed

lemma edges_drawn: "flow_edges (deserializeStepsToFlow t) = tree_edges None None t"
  using deserialize_drawn [of t "\<lambda>_. (0, 0)"] by (simp add: drawn_def)

lemma layout_relocates:
  assumes "distinct (map node_id ns)" "map node_id ms = map node_id ns"
  shows "map (\<lambda>n. case jsget (position_map (layout_nodes (buildFlowLayout (relocated pos ns) es v))) (node_id n) of
                    Some p \<Rightarrow> n\<lparr>node_x := fst p, node_y := snd p\<rparr> | None \<Rightarrow> n) ms = relocated pos ms"
proof -
  let ?l = "layout_nodes (buildFlowLayout (relocated pos ns) es v)"
  have l: "?l = map (\<lambda>k. (k, pos k)) (map node_id ns)" by (simp add: buildFlowLayout_def relocated_def comp_def)
  have "jsget (position_map (map (\<lambda>k. (k, pos k)) ks)) k = Some (pos k)" if "distinct ks" "k \<in> set ks" for ks k
    using that unfolding position_map_def
    by (subst position_map_fold) (simp_all add: map_of_map_restrict comp_def)
  from this [OF assms(1)] have "jsget (position_map ?l) k = Some (pos k)" if "k \<in> set (map node_id ns)" for k
    unfolding l using that by blast
  then have "jsget (position_map ?l) (node_id m) = Some (pos (node_id m))" if "m \<in> set ms" for m
    using that assms(2) by (metis image_eqI image_set)
  then show ?thesis unfolding relocated_def [of pos ms] by (intro map_cong refl) simp
qed

text \<open>C8: An automation that is opened, whose boxes are moved anywhere, and that is saved, stores its own steps (with
  the rules of each conditional repeated in its first branch); opened again it shows the boxes where they were and
  the same edges, and a second save stores the same steps.\<close>

theorem reopened_as_left:
  assumes "distinct (tree_ids t)" "[] \<notin> set (tree_ids t)" "orderly t" "s = mirror None t"
    and "ns = relocated pos (flow_nodes (deserializeStepsToFlow t))" "es = flow_edges (deserializeStepsToFlow t)"
    and "r = deserializeWithLayout s (Some (buildFlowLayout ns es v))"
  shows "serializeFlowToSteps lc ns es = Serialized s \<and>
         flow_nodes r = relocated pos (flow_nodes (deserializeStepsToFlow s)) \<and> flow_edges r = es \<and>
         serializeFlowToSteps lc (flow_nodes r) (flow_edges r) = Serialized s"
proof -
  have first: "serializeFlowToSteps lc ns es = Serialized s"
    using drawn_saved [OF deserialize_drawn assms(1-3)] assms(4-6) by simp
  have es: "flow_edges r = es"
    by (simp add: assms(4,6,7) deserializeWithLayout_def Let_def edges_drawn)
  have ns: "flow_nodes r = relocated pos (flow_nodes (deserializeStepsToFlow s))"
    unfolding assms(5,7) deserializeWithLayout_def Let_def option.simps opened_flow.simps
    using assms(1) by (intro layout_relocates) (simp_all add: node_ids_drawn assms(4))
  have "drawn s (flow_nodes r) (flow_edges r)"
    using deserialize_drawn [of s pos] unfolding ns es by (simp add: edges_drawn assms(4,6))
  then have "serializeFlowToSteps lc (flow_nodes r) (flow_edges r) = Serialized (mirror None s)"
    by (rule drawn_saved) (use assms(1-4) in simp_all)
  then show ?thesis using first es ns assms(4) by simp
qed

section \<open>The checks before a save\<close>

record conditional_error =
  ce_type :: string
  ce_step :: api_id
  ce_cardIndex :: nat
  ce_stepIndex :: "nat option"

definition TIMED_STEP_TYPES :: "string list" where
  "TIMED_STEP_TYPES = [''interation'', ''automation_state'']"

definition hasValidPeriod_rule :: "(string \<times> jsval) list \<Rightarrow> bool" where
  "hasValidPeriod_rule rule \<longleftrightarrow> obj_get rule ''time'' \<notin> {JNull, JUndefined, JStr []}"

definition rule_errors :: "api_id \<Rightarrow> nat \<Rightarrow> jsval \<Rightarrow> conditional_error list" where
  "rule_errors sid i rule =
     (case rule of
        JObj m \<Rightarrow>
          (case obj_get m ''type'' of
             JStr ty \<Rightarrow>
               if ty \<noteq> [] \<and> ty \<in> set TIMED_STEP_TYPES \<and> \<not> hasValidPeriod_rule m
               then [\<lparr>ce_type = ''missing_period'', ce_step = sid, ce_cardIndex = 0, ce_stepIndex = Some i\<rparr>] else []
           | _ \<Rightarrow> [])
      | _ \<Rightarrow> [])"

definition step_errors :: "api_id \<Rightarrow> string \<Rightarrow> jsval \<Rightarrow> conditional_error list" where
  "step_errors sid ty s =
     (if ty = ''conditional'' then
        (case s of
           JArr (r # rs) \<Rightarrow> concat (map (\<lambda>(i, rule). rule_errors sid i rule) (enumerate 0 (r # rs)))
         | _ \<Rightarrow> [\<lparr>ce_type = ''empty_card'', ce_step = sid, ce_cardIndex = 0, ce_stepIndex = None\<rparr>])
      else [])"

fun validateAutomationConditionals :: "api_step \<Rightarrow> conditional_error list" where
  "validateAutomationConditionals (Step sid ty s cs) =
     step_errors sid ty s @ concat (map validateAutomationConditionals cs)"

text \<open>
  \<open>handleSave\<close> up to the request: the form's fields, the live state of the editor, and what is sent. The labels
  and the constant \<open>type\<close> of the request are left out, and the dash of one error text is ASCII here.
\<close>

record automation_form =
  form_id :: "nat option"
  form_title :: string
  form_description :: string
  form_isActive :: bool
  form_isRateLimit :: bool
  form_verticalType :: string
  form_target :: string
  form_updatedAt :: "string option"

record editor_state =
  ed_nodes :: "flow_node list"
  ed_edges :: "flow_edge list"
  ed_counter :: nat
  ed_viewport :: "(real \<times> real \<times> real) option"

record automation_payload =
  pl_id :: "nat option"
  pl_title :: string
  pl_description :: "string option"
  pl_isActive :: bool
  pl_isRateLimit :: bool
  pl_stepId :: nat
  pl_steps :: api_step
  pl_verticalType :: "string option"
  pl_target :: "string option"
  pl_flowLayout :: flow_layout
  pl_updatedAt :: "string option"

datatype save_outcome =
    AlreadySaving
  | TitleRequired
  | NoEditorState
  | DisconnectedNode string
  | NotSerialized string
  | ConditionalRefused conditional_error
  | Sends automation_payload

definition text_or_undefined :: "string \<Rightarrow> string option" where
  "text_or_undefined s = (if s = [] then None else Some s)"

definition disconnected :: "flow_node list \<Rightarrow> flow_edge list \<Rightarrow> flow_node option" where
  "disconnected ns es = find (\<lambda>n. node_type n \<noteq> ''trigger'' \<and> \<not> has_incoming es (node_id n)) ns"

definition handleSave :: "(string \<Rightarrow> string \<Rightarrow> int) \<Rightarrow> bool \<Rightarrow> automation_form \<Rightarrow> bool option \<Rightarrow> editor_state option \<Rightarrow> save_outcome" where
  "handleSave lc saving f activeOverride editor =
     (if saving then AlreadySaving
      else if js_trim (form_title f) = [] then TitleRequired
      else (case editor of
              None \<Rightarrow> NoEditorState
            | Some st \<Rightarrow>
                (case disconnected (ed_nodes st) (ed_edges st) of
                   Some n \<Rightarrow> DisconnectedNode (node_id n)
                 | None \<Rightarrow>
                     (case serializeFlowToSteps lc (ed_nodes st) (ed_edges st) of
                        SerializeError e \<Rightarrow> NotSerialized e
                      | Serialized t \<Rightarrow>
                          (case validateAutomationConditionals t of
                             err # _ \<Rightarrow> ConditionalRefused err
                           | [] \<Rightarrow>
                               Sends \<lparr>pl_id = form_id f, pl_title = js_trim (form_title f),
                                      pl_description = text_or_undefined (js_trim (form_description f)),
                                      pl_isActive = (case activeOverride of None \<Rightarrow> form_isActive f | Some b \<Rightarrow> b),
                                      pl_isRateLimit = form_isRateLimit f, pl_stepId = ed_counter st, pl_steps = t,
                                      pl_verticalType = text_or_undefined (form_verticalType f),
                                      pl_target = text_or_undefined (form_target f),
                                      pl_flowLayout = buildFlowLayout (ed_nodes st) (ed_edges st) (ed_viewport st),
                                      pl_updatedAt = (if form_id f = None then None else form_updatedAt f)\<rparr>)))))"

lemma handleSave_Sends:
  "handleSave lc saving f act (Some st) = Sends p \<Longrightarrow>
   disconnected (ed_nodes st) (ed_edges st) = None \<and>
   serializeFlowToSteps lc (ed_nodes st) (ed_edges st) = Serialized (pl_steps p) \<and>
   validateAutomationConditionals (pl_steps p) = [] \<and>
   pl_flowLayout p = buildFlowLayout (ed_nodes st) (ed_edges st) (ed_viewport st)"
  by (auto simp: handleSave_def split: if_splits option.splits serialize_result.splits list.splits)

lemma finite_flow_rel: "finite (flow_rel ns es)"
proof (rule finite_subset)
  show "flow_rel ns es \<subseteq> (\<lambda>e. (edge_source e, edge_target e)) ` set es"
    by (auto simp: flow_rel_def successors_def intro: rev_image_eqI)
qed simp

text \<open>C9: When a drawing without cycles, with one trigger and edges that start at nodes, passes the checks of the save
  button, every node of it is in the steps that are sent, exactly once.\<close>

theorem acyclic_drawing_saved_whole:
  assumes "handleSave lc saving f act (Some st) = Sends p"
    and "well_named (ed_nodes st)" "acyclic (flow_rel (ed_nodes st) (ed_edges st))"
    and "edge_source ` set (ed_edges st) \<subseteq> node_id ` set (ed_nodes st)"
    and "\<forall>m \<in> set (ed_nodes st). \<forall>n \<in> set (ed_nodes st).
           node_type m = ''trigger'' \<and> node_type n = ''trigger'' \<longrightarrow> node_id m = node_id n"
  shows "distinct (tree_ids (pl_steps p)) \<and> set (tree_ids (pl_steps p)) = node_id ` set (ed_nodes st)"
proof -
  let ?ns = "ed_nodes st" and ?es = "ed_edges st"
  note s = handleSave_Sends [OF assms(1)]
  obtain r where r: "find (\<lambda>n. \<not> has_incoming ?es (node_id n)) ?ns = Some r" "distinct (tree_ids (pl_steps p))"
      "set (tree_ids (pl_steps p)) = {k \<in> node_id ` set ?ns. (node_id r, k) \<in> (flow_rel ?ns ?es)\<^sup>*}"
    using saved_steps_are_the_reached [OF conjunct1 [OF conjunct2 [OF s]] assms(2)] by auto
  have trig: "node_type n = ''trigger''" if "n \<in> set ?ns" "\<not> has_incoming ?es (node_id n)" for n
    using s that by (auto simp: disconnected_def find_None_iff)
  have rt: "r \<in> set ?ns" "node_type r = ''trigger''" using r(1) trig by (auto simp: find_Some_iff)
  have "k \<in> node_id ` set ?ns \<longrightarrow> (node_id r, k) \<in> (flow_rel ?ns ?es)\<^sup>*" for k
  proof (induction k rule: wf_induct [OF finite_acyclic_wf [OF finite_flow_rel assms(3)]])
    case (1 k)
    show ?case
    proof
      assume k: "k \<in> node_id ` set ?ns"
      show "(node_id r, k) \<in> (flow_rel ?ns ?es)\<^sup>*"
      proof (cases "has_incoming ?es k")
        case True
        then obtain e where e: "e \<in> set ?es" "edge_target e = k" by (auto simp: has_incoming_def)
        then have "edge_source e \<in> node_id ` set ?ns" "(edge_source e, k) \<in> flow_rel ?ns ?es"
          using assms(4) by (auto simp: flow_rel_def successors_def)
        then show ?thesis using 1 by (meson rtrancl.rtrancl_into_rtrancl)
      next
        case False
        obtain n where n: "n \<in> set ?ns" "node_id n = k" using k by auto
        then have "node_type n = ''trigger''" using trig False by simp
        then have "k = node_id r" using assms(5) n rt by metis
        then show ?thesis by simp
      qed
    qed
  qed
  then show ?thesis using r(2,3) by auto
qed


text \<open>
  Nodes and edges of their own, apart from the rest of the drawing, change nothing of what a save reads.
\<close>

definition apart :: "flow_node list \<Rightarrow> flow_edge list \<Rightarrow> flow_edge list \<Rightarrow> bool" where
  "apart ms es fs \<longleftrightarrow>
     (\<forall>e \<in> set es. edge_source e \<notin> node_id ` set ms \<and> edge_target e \<notin> node_id ` set ms) \<and>
     (\<forall>e \<in> set fs. edge_source e \<in> node_id ` set ms \<and> edge_target e \<in> node_id ` set ms)"

lemma find_appended: "find P (xs @ ys) = (case find P xs of Some x \<Rightarrow> Some x | None \<Rightarrow> find P ys)"
  by (induction xs) auto

lemma find_node_apart: "k \<notin> node_id ` set ms \<Longrightarrow> find_node (ns @ ms) k = find_node ns k"
  using find_node_None [of ms k] by (simp add: find_node_def find_appended split: option.split)

lemma sort_insert_cong:
  "(\<And>y. y \<in> set xs \<Longrightarrow> le x y = le' x y) \<Longrightarrow> sort_insert le x xs = sort_insert le' x xs"
  by (induction xs) auto

lemma stable_sort_cong:
  assumes "\<And>x y. x \<in> set xs \<Longrightarrow> y \<in> set xs \<Longrightarrow> le x y = le' x y"
  shows "stable_sort le xs = stable_sort le' xs"
  using assms
proof (induction xs)
  case (Cons x xs)
  have ih: "stable_sort le xs = stable_sort le' xs" by (rule Cons.IH) (rule Cons.prems; simp)
  have "sort_insert le x (stable_sort le' xs) = sort_insert le' x (stable_sort le' xs)"
    by (rule sort_insert_cong) (rule Cons.prems; simp)
  with ih show ?case by (simp add: stable_sort_def)
qed (simp add: stable_sort_def)

lemma outgoing_apart:
  "apart ms es fs \<Longrightarrow> k \<notin> node_id ` set ms \<Longrightarrow> outgoing (es @ fs) k = outgoing es k"
  by (auto simp: apart_def intro!: outgoing_none)

lemma outgoing_targets: "apart ms es fs \<Longrightarrow> c \<in> set (outgoing es k) \<Longrightarrow> fst c \<notin> node_id ` set ms"
  unfolding apart_def outgoing_def by auto

lemma sortedEntries_apart:
  assumes "apart ms es fs" "k \<notin> node_id ` set ms"
  shows "sortedEntries lc (ns @ ms) (es @ fs) k = sortedEntries lc ns es k"
proof -
  have "not_after lc (ns @ ms) x y = not_after lc ns x y" if "x \<in> set (outgoing es k)" "y \<in> set (outgoing es k)" for x y
    using outgoing_targets [OF assms(1) that(1)] outgoing_targets [OF assms(1) that(2)]
    by (cases x, cases y) (simp add: node_pos_y_def find_node_apart)
  then show ?thesis
    unfolding sortedEntries_def childrenOf_outgoing outgoing_apart [OF assms] by (rule stable_sort_cong)
qed

lemma find_cong_set: "(\<And>x. x \<in> set xs \<Longrightarrow> P x = Q x) \<Longrightarrow> find P xs = find Q xs"
  by (induction xs) auto

lemma parentEdge_in: "parentEdge ns es k = Some e \<Longrightarrow> e \<in> set es \<and> edge_target e = k"
  unfolding parentEdge_def Let_def find_Some_iff by (auto split: option.splits simp: find_Some_iff dest!: nth_mem)

lemma parentEdge_apart:
  assumes "apart ms es fs" "k \<notin> node_id ` set ms"
  shows "parentEdge (ns @ ms) (es @ fs) k = parentEdge ns es k"
proof -
  have "filter (\<lambda>e. edge_target e = k) fs = []" using assms by (auto simp: apart_def filter_empty_conv)
  then have f: "filter (\<lambda>e. edge_target e = k) (es @ fs) = filter (\<lambda>e. edge_target e = k) es" by simp
  have g: "find (\<lambda>e. case find_node (ns @ ms) (edge_source e) of Some p \<Rightarrow> node_type p = ''conditional'' | None \<Rightarrow> False)
             (filter (\<lambda>e. edge_target e = k) es)
         = find (\<lambda>e. case find_node ns (edge_source e) of Some p \<Rightarrow> node_type p = ''conditional'' | None \<Rightarrow> False)
             (filter (\<lambda>e. edge_target e = k) es)"
    using assms(1) by (intro find_cong_set) (auto simp: apart_def find_node_apart)
  show ?thesis unfolding parentEdge_def Let_def f g by (rule refl)
qed

lemma saved_settings_apart:
  assumes "apart ms es fs" "k \<notin> node_id ` set ms"
  shows "saved_settings (ns @ ms) (es @ fs) n k = saved_settings ns es n k"
proof (cases "parentEdge ns es k")
  case None
  then show ?thesis by (simp add: saved_settings_def parentEdge_apart [OF assms])
next
  case (Some e)
  then have "edge_source e \<notin> node_id ` set ms" using assms(1) parentEdge_in [OF Some] by (auto simp: apart_def)
  then show ?thesis by (simp add: saved_settings_def parentEdge_apart [OF assms] Some find_node_apart)
qed

lemma buildTrees_apart:
  "apart ms es fs \<Longrightarrow> set ks \<inter> node_id ` set ms = {} \<Longrightarrow>
   buildTrees lc (ns @ ms) (es @ fs) ks visited = buildTrees lc ns es ks visited"
proof (induction lc ns es ks visited rule: buildTrees.induct)
  case (2 lc ns es k ks visited)
  then have k: "k \<notin> node_id ` set ms" by auto
  have "fst ` set (sortedEntries lc ns es k) \<inter> node_id ` set ms = {}"
    using 2(5) unfolding set_sortedEntries successors_def apart_def by blast
  then show ?case using 2
    by (auto simp: buildTrees_step find_node_apart [OF k] sortedEntries_apart [OF 2(5) k] saved_settings_apart [OF 2(5) k] Let_def
        split: option.split)
qed simp

text \<open>C28: Steps that form loops of their own, apart from the rest, pass the checks of the save button: the request
  holds the steps it would hold without them, and the stored layout still has their edges.\<close>

theorem detached_cycle_not_noticed:
  assumes "handleSave lc saving f act (Some st) = Sends p"
    and "apart ms (ed_edges st) fs" "node_id ` set ms \<inter> node_id ` set (ed_nodes st) = {}"
    and "\<forall>m \<in> set ms. \<exists>e \<in> set fs. edge_target e = node_id m"
  shows "\<exists>q. handleSave lc saving f act (Some (st\<lparr>ed_nodes := ed_nodes st @ ms, ed_edges := ed_edges st @ fs\<rparr>)) = Sends q \<and>
             pl_steps q = pl_steps p \<and> layout_edges (pl_flowLayout q) = ed_edges st @ fs"
proof -
  let ?ns = "ed_nodes st" and ?es = "ed_edges st"
  note s = handleSave_Sends [OF assms(1)]
  obtain r where r: "find (\<lambda>n. \<not> has_incoming ?es (node_id n)) ?ns = Some r"
    using s by (auto simp: serializeFlowToSteps_def split: if_splits option.splits)
  have inc: "has_incoming (?es @ fs) (node_id n) = has_incoming ?es (node_id n)" if "n \<in> set ?ns" for n
  proof -
    have "node_id n \<notin> node_id ` set ms" using that assms(3) by blast
    then have "node_id n \<notin> edge_target ` set fs" using assms(2) unfolding apart_def by force
    then show ?thesis by (simp add: has_incoming_def image_Un)
  qed
  have "has_incoming (?es @ fs) (node_id m)" if "m \<in> set ms" for m
    using assms(4) that unfolding has_incoming_def set_append by (metis UnCI image_eqI)
  then have d: "disconnected (?ns @ ms) (?es @ fs) = None"
    using s inc by (auto simp: disconnected_def find_None_iff)
  have "find (\<lambda>n. \<not> has_incoming (?es @ fs) (node_id n)) ?ns = Some r"
    using find_cong_set [of ?ns "\<lambda>n. \<not> has_incoming (?es @ fs) (node_id n)" "\<lambda>n. \<not> has_incoming ?es (node_id n)"] inc r by simp
  then have r': "find (\<lambda>n. \<not> has_incoming (?es @ fs) (node_id n)) (?ns @ ms) = Some r" by (simp add: find_appended)
  have "set [node_id r] \<inter> node_id ` set ms = {}"
  proof -
    have "node_id r \<in> node_id ` set ?ns" using r by (auto simp: find_Some_iff)
    then show ?thesis using assms(3) by auto
  qed
  then have "buildTrees lc (?ns @ ms) (?es @ fs) [node_id r] [] = buildTrees lc ?ns ?es [node_id r] []"
    by (rule buildTrees_apart [OF assms(2)])
  then have "serializeFlowToSteps lc (?ns @ ms) (?es @ fs) = Serialized (pl_steps p)"
    using s r r' by (auto simp: serializeFlowToSteps_def split: if_splits)
  then show ?thesis using assms(1) d s
    by (auto simp: handleSave_def split: if_splits)
qed


section \<open>Concrete drawings\<close>

definition demo_node :: "nat \<Rightarrow> string \<Rightarrow> flow_node" where
  "demo_node k ty = \<lparr>node_id = show_nat k, node_type = ty, node_x = 0, node_y = 0, node_step = IdNum k,
                      original_type = None, node_settings = JObj []\<rparr>"

definition demo_edge :: "nat \<Rightarrow> nat \<Rightarrow> string option \<Rightarrow> flow_edge" where
  "demo_edge a b h = \<lparr>edge_id = CHR ''e'' # show_nat a @ ''-'' @ show_nat b, edge_source = show_nat a,
                       edge_target = show_nat b, source_handle = h, target_handle = None\<rparr>"

definition demo_joined_nodes :: "flow_node list" where
  "demo_joined_nodes = [demo_node 1 ''trigger'', demo_node 2 ''split'', demo_node 3 ''splitPath'',
     demo_node 4 ''splitPath'', demo_node 5 ''email'', demo_node 6 ''end'']"

definition demo_joined_edges :: "flow_edge list" where
  "demo_joined_edges = [demo_edge 1 2 None, demo_edge 2 3 (Some ''path-1''), demo_edge 2 4 (Some ''path-2''),
     demo_edge 3 5 None, demo_edge 4 5 None, demo_edge 5 6 None]"

definition demo_step :: "nat \<Rightarrow> string \<Rightarrow> api_step list \<Rightarrow> api_step" where
  "demo_step k ty cs = Step (IdNum k) ty (JObj []) cs"

definition demo_joined_saved :: api_step where
  "demo_joined_saved = demo_step 1 ''trigger'' [demo_step 2 ''split''
     [demo_step 3 ''splitPath'' [demo_step 5 ''email'' [demo_step 6 ''end'' []]], demo_step 4 ''splitPath'' []]]"

text \<open>Both paths of a split lead to one e-mail: the save keeps it on the first path and ends the second.\<close>

lemma joined_branch_is_cut:
  "disconnected demo_joined_nodes demo_joined_edges = None"
  "serializeFlowToSteps (\<lambda>_ _. 0) demo_joined_nodes demo_joined_edges = Serialized demo_joined_saved"
  by code_simp+

definition demo_form :: automation_form where
  "demo_form = \<lparr>form_id = Some 9, form_title = ''Welcome'', form_description = [], form_isActive = True,
                form_isRateLimit = False, form_verticalType = ''cc'', form_target = [], form_updatedAt = None\<rparr>"

definition demo_linear :: editor_state where
  "demo_linear = \<lparr>ed_nodes = [demo_node 1 ''trigger'', demo_node 2 ''email'', demo_node 3 ''end''],
                  ed_edges = [demo_edge 1 2 None, demo_edge 2 3 None], ed_counter = 3, ed_viewport = None\<rparr>"

definition demo_payload :: automation_payload where
  "demo_payload =
     \<lparr>pl_id = Some 9, pl_title = ''Welcome'', pl_description = None, pl_isActive = True, pl_isRateLimit = False,
      pl_stepId = 3, pl_steps = demo_step 1 ''trigger'' [demo_step 2 ''email'' [demo_step 3 ''end'' []]],
      pl_verticalType = Some ''cc'', pl_target = None,
      pl_flowLayout = buildFlowLayout (ed_nodes demo_linear) (ed_edges demo_linear) None, pl_updatedAt = None\<rparr>"

lemma demo_linear_sent: "handleSave (\<lambda>_ _. 0) False demo_form None (Some demo_linear) = Sends demo_payload"
  by code_simp

lemma saved_steps_are_the_reached_witness:
  "\<exists>r. find (\<lambda>n. \<not> has_incoming demo_joined_edges (node_id n)) demo_joined_nodes = Some r \<and>
       distinct (tree_ids demo_joined_saved) \<and>
       set (tree_ids demo_joined_saved)
         = {k \<in> node_id ` set demo_joined_nodes. (node_id r, k) \<in> (flow_rel demo_joined_nodes demo_joined_edges)\<^sup>*}"
proof (rule saved_steps_are_the_reached [OF joined_branch_is_cut(2)])
  show "well_named demo_joined_nodes" by code_simp
qed

lemma acyclic_drawing_saved_whole_witness:
  "distinct (tree_ids (pl_steps demo_payload)) \<and>
   set (tree_ids (pl_steps demo_payload)) = node_id ` set (ed_nodes demo_linear)"
proof (rule acyclic_drawing_saved_whole [OF demo_linear_sent])
  show "well_named (ed_nodes demo_linear)" by code_simp
  show "edge_source ` set (ed_edges demo_linear) \<subseteq> node_id ` set (ed_nodes demo_linear)" by code_simp
  show "\<forall>m \<in> set (ed_nodes demo_linear). \<forall>n \<in> set (ed_nodes demo_linear).
          node_type m = ''trigger'' \<and> node_type n = ''trigger'' \<longrightarrow> node_id m = node_id n"
    by (simp add: demo_linear_def demo_node_def)
  have "\<forall>e \<in> set (ed_edges demo_linear). digits_val (edge_source e) < digits_val (edge_target e)" by code_simp
  then show "acyclic (flow_rel (ed_nodes demo_linear) (ed_edges demo_linear))"
    by (intro wf_acyclic wf_subset [OF wf_measure [of digits_val]]) (auto simp: flow_rel_def successors_def)
qed

lemma detached_cycle_not_noticed_witness:
  "\<exists>q. handleSave (\<lambda>_ _. 0) False demo_form None
         (Some (demo_linear\<lparr>ed_nodes := ed_nodes demo_linear @ [demo_node 4 ''wait'', demo_node 5 ''email''],
                             ed_edges := ed_edges demo_linear @ [demo_edge 4 5 None, demo_edge 5 4 None]\<rparr>)) = Sends q \<and>
       pl_steps q = pl_steps demo_payload \<and>
       layout_edges (pl_flowLayout q) = ed_edges demo_linear @ [demo_edge 4 5 None, demo_edge 5 4 None]"
proof (rule detached_cycle_not_noticed [OF demo_linear_sent])
  show "apart [demo_node 4 ''wait'', demo_node 5 ''email''] (ed_edges demo_linear) [demo_edge 4 5 None, demo_edge 5 4 None]"
    by code_simp
  show "node_id ` set [demo_node 4 ''wait'', demo_node 5 ''email''] \<inter> node_id ` set (ed_nodes demo_linear) = {}"
    by code_simp
  show "\<forall>m \<in> set [demo_node 4 ''wait'', demo_node 5 ''email''].
          \<exists>e \<in> set [demo_edge 4 5 None, demo_edge 5 4 None]. edge_target e = node_id m"
    by code_simp
qed

definition demo_rules :: jsval where
  "demo_rules = JArr [JObj [(''type'', JStr ''tag'')]]"

definition demo_tree :: api_step where
  "demo_tree = demo_step 1 ''trigger'' [Step (IdNum 2) ''conditional'' demo_rules
     [Step (IdText ''conditional_2_1'') ''conditionalTrue'' (JArr []) [demo_step 3 ''carrierPigeon'' [demo_step 4 ''end'' []]],
      demo_step 5 ''conditionalFalse'' [demo_step 6 ''split''
        [Step (IdText ''path_6_0'') ''splitPath'' (JObj [(''path'', JStr ''2'')]) [demo_step 7 ''end'' []],
         Step (IdText ''path_6_1'') ''splitPath'' (JObj [(''path'', JStr ''10'')]) [demo_step 8 ''end'' []]]]]]"

lemma reopened_as_left_witness:
  "serializeFlowToSteps (\<lambda>_ _. 0) (relocated (\<lambda>_. (7, 7)) (flow_nodes (deserializeStepsToFlow demo_tree)))
      (flow_edges (deserializeStepsToFlow demo_tree)) = Serialized (mirror None demo_tree)"
proof (rule conjunct1 [OF reopened_as_left [where v = None, OF _ _ _ refl refl refl refl]])
  show "distinct (tree_ids demo_tree)" "[] \<notin> set (tree_ids demo_tree)" "orderly demo_tree" by code_simp+
qed

end
