(* ===== verification/FlowEditor.thy ===== *)
theory FlowEditor
  imports AutomationFlow
begin

text \<open>
  Editing an automation on the canvas (\<open>apps/frontend-react/src/features/automations/editor\<close>: the handlers of
  \<open>automation-editor.tsx\<close> and the geometry of \<open>edge-utils.ts\<close>): connecting, removing edges, dropping a block
  (with the sub-nodes of a split or a conditional, and spliced into the nearest edge), deleting a step,
  saving its settings, changing the paths of a split. Proved: what the nearest edge is, and what every
  session keeps. \<open>addEdge\<close> and the removal of edges by id belong to React Flow: parameters. So are the
  measured sizes of the boxes. A handler runs on the state of the last render.
\<close>

section \<open>Geometry\<close>

definition NODE_WIDTH :: real where
  "NODE_WIDTH = 240"

definition NODE_HEIGHT :: real where
  "NODE_HEIGHT = 60"

text \<open>\<open>node.measured\<close>: a width and a height, each possibly missing.\<close>

type_synonym measures = "string \<Rightarrow> real option \<times> real option"

definition node_width :: "measures \<Rightarrow> flow_node \<Rightarrow> real" where
  "node_width ms n = (case fst (ms (node_id n)) of Some w \<Rightarrow> w | None \<Rightarrow> NODE_WIDTH)"

definition node_height :: "measures \<Rightarrow> flow_node \<Rightarrow> real" where
  "node_height ms n = (case snd (ms (node_id n)) of Some h \<Rightarrow> h | None \<Rightarrow> NODE_HEIGHT)"

definition sourceHandlePos :: "measures \<Rightarrow> flow_node \<Rightarrow> real \<times> real" where
  "sourceHandlePos ms n = (node_x n + node_width ms n / 2, node_y n + node_height ms n)"

definition targetHandlePos :: "measures \<Rightarrow> flow_node \<Rightarrow> real \<times> real" where
  "targetHandlePos ms n = (node_x n + node_width ms n / 2, node_y n)"

definition isInsideNode :: "measures \<Rightarrow> real \<times> real \<Rightarrow> flow_node \<Rightarrow> real \<Rightarrow> bool" where
  "isInsideNode ms point n padding \<longleftrightarrow>
     fst point \<ge> node_x n - padding \<and> fst point \<le> node_x n + node_width ms n + padding \<and>
     snd point \<ge> node_y n - padding \<and> snd point \<le> node_y n + node_height ms n + padding"

definition distanceToSegment :: "real \<times> real \<Rightarrow> real \<times> real \<Rightarrow> real \<times> real \<Rightarrow> real" where
  "distanceToSegment point segStart segEnd =
     (let dx = fst segEnd - fst segStart;
          dy = snd segEnd - snd segStart;
          lenSq = dx * dx + dy * dy
      in if lenSq = 0 then
           (let px = fst point - fst segStart; py = snd point - snd segStart in sqrt (px * px + py * py))
         else
           (let t0 = ((fst point - fst segStart) * dx + (snd point - snd segStart) * dy) / lenSq;
                t = max 0 (min 1 t0);
                px = fst point - (fst segStart + t * dx);
                py = snd point - (snd segStart + t * dy)
            in sqrt (px * px + py * py)))"

text \<open>The distance of an edge whose two nodes exist and which does not lead to a sub-node.\<close>

definition edge_distance :: "measures \<Rightarrow> flow_node list \<Rightarrow> real \<times> real \<Rightarrow> flow_edge \<Rightarrow> real option" where
  "edge_distance ms ns point e =
     (case (find_node ns (edge_source e), find_node ns (edge_target e)) of
        (Some s, Some t) \<Rightarrow>
          if node_type t \<in> set SUB_NODE_TYPES then None
          else Some (distanceToSegment point (sourceHandlePos ms s) (targetHandlePos ms t))
      | _ \<Rightarrow> None)"

fun nearest_from :: "(flow_edge \<Rightarrow> real option) \<Rightarrow> flow_edge list \<Rightarrow> flow_edge option \<times> real \<Rightarrow> flow_edge option \<times> real" where
  "nearest_from d [] acc = acc"
| "nearest_from d (e # es) acc =
     nearest_from d es (case d e of None \<Rightarrow> acc | Some x \<Rightarrow> if x < snd acc then (Some e, x) else acc)"

definition findNearestEdge :: "measures \<Rightarrow> flow_node list \<Rightarrow> flow_edge list \<Rightarrow> real \<times> real \<Rightarrow> real \<Rightarrow> flow_edge option" where
  "findNearestEdge ms ns es point threshold =
     (if \<exists>n \<in> set ns. isInsideNode ms point n 10 then None
      else fst (nearest_from (edge_distance ms ns point) es (None, threshold)))"

definition SPLICE_THRESHOLD :: real where
  "SPLICE_THRESHOLD = 80"

lemma nearest_from_spec:
  "nearest_from d es (b, x) = (b', x') \<Longrightarrow>
   x' \<le> x \<and> (\<forall>e \<in> set es. \<forall>y. d e = Some y \<longrightarrow> x' \<le> y) \<and>
   ((b' = b \<and> x' = x) \<or> (\<exists>e \<in> set es. b' = Some e \<and> d e = Some x' \<and> x' < x))"
proof (induction es arbitrary: b x)
  case (Cons e es)
  consider "d e = None \<or> (\<exists>y. d e = Some y \<and> \<not> y < x)" | y where "d e = Some y" "y < x" by (cases "d e") auto
  then show ?case
  proof cases
    case 1
    then have "nearest_from d es (b, x) = (b', x')" using Cons.prems by auto
    from Cons.IH [OF this] 1 show ?thesis by auto
  next
    case 2
    then have "nearest_from d es (Some e, y) = (b', x')" using Cons.prems by simp
    from Cons.IH [OF this] 2 show ?thesis by auto
  qed
qed simp

lemma nearest_edge_exists:
  assumes "findNearestEdge ms ns es point threshold = Some e"
  shows "e \<in> set es \<and> (\<exists>s t. find_node ns (edge_source e) = Some s \<and> find_node ns (edge_target e) = Some t \<and>
           node_type t \<notin> set SUB_NODE_TYPES)"
proof -
  obtain x where "nearest_from (edge_distance ms ns point) es (None, threshold) = (Some e, x)"
    using assms by (cases "nearest_from (edge_distance ms ns point) es (None, threshold)")
      (auto simp: findNearestEdge_def split: if_splits)
  from nearest_from_spec [OF this] show ?thesis
    by (auto simp: edge_distance_def split: option.splits if_splits)
qed

text \<open>
  With the pointer over no box, the edge found is one of those within the threshold at the least distance; none is
  found only where no edge is within the threshold.
\<close>

lemma nearest_edge_is_nearest:
  assumes "\<forall>n \<in> set ns. \<not> isInsideNode ms point n 10"
  shows "case findNearestEdge ms ns es point threshold of
           Some e \<Rightarrow> e \<in> set es \<and> (\<exists>x. edge_distance ms ns point e = Some x \<and> x < threshold \<and>
                       (\<forall>f \<in> set es. \<forall>y. edge_distance ms ns point f = Some y \<longrightarrow> x \<le> y))
         | None \<Rightarrow> \<forall>f \<in> set es. \<forall>y. edge_distance ms ns point f = Some y \<longrightarrow> threshold \<le> y"
proof -
  obtain b x where r: "nearest_from (edge_distance ms ns point) es (None, threshold) = (b, x)" by fastforce
  then have "findNearestEdge ms ns es point threshold = b" using assms by (simp add: findNearestEdge_def)
  then show ?thesis using nearest_from_spec [OF r] by (auto split: option.split)
qed

section \<open>Connecting and removing edges\<close>

record connection =
  con_source :: string
  con_target :: string
  con_sourceHandle :: "string option"
  con_targetHandle :: "string option"

definition is_sub_id :: "flow_node list \<Rightarrow> string \<Rightarrow> bool" where
  "is_sub_id ns k = (case find_node ns k of Some n \<Rightarrow> node_type n \<in> set SUB_NODE_TYPES | None \<Rightarrow> False)"

definition is_branching_id :: "flow_node list \<Rightarrow> string \<Rightarrow> bool" where
  "is_branching_id ns k = (case find_node ns k of Some n \<Rightarrow> node_type n \<in> set BRANCHING_STEP_TYPES | None \<Rightarrow> False)"

definition onConnect :: "(connection \<Rightarrow> flow_edge list \<Rightarrow> flow_edge list) \<Rightarrow> bool \<Rightarrow> connection \<Rightarrow> editor_state \<Rightarrow> editor_state" where
  "onConnect addEdge readOnly c st =
     (let ns = ed_nodes st; es = ed_edges st; isBranching = is_branching_id ns (con_source c) in
      if readOnly \<or> con_source c = [] \<or> con_target c = [] then st
      else if isBranching \<and> con_sourceHandle c \<notin> {None, Some []} \<and>
              (case find (\<lambda>e. edge_source e = con_source c \<and> source_handle e = con_sourceHandle c) es of
                 Some e \<Rightarrow> is_sub_id ns (edge_target e)
               | None \<Rightarrow> False) then st
      else if is_sub_id ns (con_target c) then st
      else st\<lparr>ed_edges := addEdge c
                (if isBranching
                 then filter (\<lambda>e. \<not> (edge_source e = con_source c \<and> source_handle e = con_sourceHandle c)) es
                 else filter (\<lambda>e. edge_source e \<noteq> con_source c) es)\<rparr>)"

text \<open>\<open>onEdgesChange\<close> with the ids of the edges to remove; edges to sub-nodes are left out.\<close>

definition onEdgesChange :: "(string list \<Rightarrow> flow_edge list \<Rightarrow> flow_edge list) \<Rightarrow> string list \<Rightarrow> editor_state \<Rightarrow> editor_state" where
  "onEdgesChange removeEdges ids st =
     (let filtered = filter (\<lambda>i. case find (\<lambda>e. edge_id e = i) (ed_edges st) of
                                   None \<Rightarrow> True
                                 | Some e \<Rightarrow> \<not> is_sub_id (ed_nodes st) (edge_target e)) ids
      in if filtered = [] then st else st\<lparr>ed_edges := removeEdges filtered (ed_edges st)\<rparr>)"

section \<open>Dropping a block\<close>

definition empty_message :: jsval where
  "empty_message = JObj [(''title'', JStr []), (''subject'', JStr [])]"

definition empty_random :: jsval where
  "empty_random = JObj [(''messages'', JArr [])]"

definition DEFAULT_SETTINGS :: "(string, jsval) jsmap" where
  "DEFAULT_SETTINGS =
     [(''wait'', JObj [(''timer'', JNum (Fin 1)), (''timerType'', JStr ''hours'')]),
      (''email'', empty_message), (''webPush'', empty_message), (''mobilePush'', empty_message),
      (''sms'', empty_message), (''whatsapp'', empty_message),
      (''testAB'', JObj [(''messages'', JArr []), (''winnerCriteria'', JStr ''open''), (''status'', JStr ''notStarted''),
                         (''duration'', JNum (Fin 24)), (''durationType'', JStr ''day'')]),
      (''randomMessage'', empty_random), (''randomWebPush'', empty_random), (''randomMobilePush'', empty_random),
      (''addTag'', JArr []), (''removeTag'', JArr []),
      (''updateCustomField'', JObj [(''customFieldValue'', JStr []), (''customFieldSelected'', JNull)]),
      (''contactTransfer'', JObj [(''accountId'', JNum (Fin 0)), (''accountName'', JStr []), (''tagId'', JNum (Fin 0)),
                                  (''tagName'', JStr []), (''apiKey'', JStr [])]),
      (''removeAutomation'', JObj [(''automations'', JArr [])]),
      (''httpRequest'', JObj [(''operation'', JStr ''get''), (''url'', JStr []), (''headers'', JArr []), (''body'', JArr []),
                              (''queryString'', JStr []), (''newTry'', JBool False), (''quantityTry'', JNum (Fin 0))]),
      (''split'', JObj [(''1'', JNum (Fin 50)), (''2'', JNum (Fin 50))]),
      (''conditionalTime'', JObj [(''initialTime'', JNum (Fin 9)), (''endTime'', JNum (Fin 18))]),
      (''conditional'', JArr []),
      (''end'', JObj [])]"

definition placed_node :: "api_id \<Rightarrow> string \<Rightarrow> real \<Rightarrow> real \<Rightarrow> jsval \<Rightarrow> flow_node" where
  "placed_node sid ty x y settings =
     \<lparr>node_id = id_text sid, node_type = ty, node_x = x, node_y = y, node_step = sid, original_type = None,
      node_settings = settings\<rparr>"

definition plain_edge :: "string \<Rightarrow> string \<Rightarrow> string option \<Rightarrow> flow_edge" where
  "plain_edge a b h =
     \<lparr>edge_id = CHR ''e'' # a @ ''-'' @ b, edge_source = a, edge_target = b, source_handle = h, target_handle = None\<rparr>"

text \<open>The ids of the sub-nodes of step \<open>k\<close>, and the five nodes and four edges of a split or a conditional.\<close>

definition path_name :: "string \<Rightarrow> nat \<Rightarrow> string" where
  "path_name k i = ''path_'' @ k @ ''_'' @ show_nat i"

definition branch_name :: "nat \<Rightarrow> nat \<Rightarrow> string" where
  "branch_name k i = ''conditional_'' @ show_nat k @ ''_'' @ show_nat i"

definition split_nodes :: "nat \<Rightarrow> real \<Rightarrow> real \<Rightarrow> flow_node list" where
  "split_nodes k x y =
     [placed_node (IdText (path_name (show_nat k) 0)) ''splitPath'' (x - 120) (y + 100)
        (JObj [(''path'', JStr ''1''), (''value'', JNum (Fin 50))]),
      placed_node (IdText (path_name (show_nat k) 1)) ''splitPath'' (x + 120) (y + 100)
        (JObj [(''path'', JStr ''2''), (''value'', JNum (Fin 50))]),
      placed_node (IdNum (k + 1)) ''end'' (x - 120) (y + 200) (JObj []),
      placed_node (IdNum (k + 2)) ''end'' (x + 120) (y + 200) (JObj [])]"

definition split_edges :: "nat \<Rightarrow> flow_edge list" where
  "split_edges k =
     [plain_edge (show_nat k) (path_name (show_nat k) 0) (Some ''path-1''),
      plain_edge (show_nat k) (path_name (show_nat k) 1) (Some ''path-2''),
      plain_edge (path_name (show_nat k) 0) (show_nat (k + 1)) None,
      plain_edge (path_name (show_nat k) 1) (show_nat (k + 2)) None]"

definition conditional_nodes :: "nat \<Rightarrow> real \<Rightarrow> real \<Rightarrow> flow_node list" where
  "conditional_nodes k x y =
     [placed_node (IdText (branch_name k 1)) ''conditionalTrue'' (x - 100) (y + 100) (JArr []),
      placed_node (IdText (branch_name k 2)) ''conditionalFalse'' (x + 100) (y + 100) (JObj []),
      placed_node (IdNum (k + 1)) ''end'' (x - 100) (y + 200) (JObj []),
      placed_node (IdNum (k + 2)) ''end'' (x + 100) (y + 200) (JObj [])]"

definition conditional_edges :: "nat \<Rightarrow> flow_edge list" where
  "conditional_edges k =
     [plain_edge (show_nat k) (branch_name k 1) (Some ''yes''),
      plain_edge (show_nat k) (branch_name k 2) (Some ''no''),
      plain_edge (branch_name k 1) (show_nat (k + 1)) None,
      plain_edge (branch_name k 2) (show_nat (k + 2)) None]"

definition COMPOUND_STEP_TYPES :: "string list" where
  "COMPOUND_STEP_TYPES = [''split'', ''conditional'']"

definition spliceNodeIntoEdge :: "flow_edge list \<Rightarrow> flow_edge \<Rightarrow> string \<Rightarrow> flow_edge list" where
  "spliceNodeIntoEdge es edgeToSplice newNodeId =
     filter (\<lambda>e. edge_id e \<noteq> edge_id edgeToSplice) es @
     [plain_edge (edge_source edgeToSplice) newNodeId None, plain_edge newNodeId (edge_target edgeToSplice) None]"

text \<open>The first path of a block that is spliced into an edge leads to where the edge led.\<close>

definition splice_compound :: "flow_edge list \<Rightarrow> flow_edge \<Rightarrow> string \<Rightarrow> string \<Rightarrow> string \<Rightarrow> flow_edge list \<Rightarrow> flow_edge list" where
  "splice_compound es spliced newNodeId firstPathId firstEndId subEdges =
     filter (\<lambda>e. edge_id e \<noteq> edge_id spliced) es @ [plain_edge (edge_source spliced) newNodeId None] @
     map (\<lambda>e. if edge_source e = firstPathId \<and> edge_target e = firstEndId
              then e\<lparr>edge_id := CHR ''e'' # firstPathId @ ''-'' @ edge_target spliced, edge_target := edge_target spliced\<rparr>
              else e) subEdges"

definition onDrop :: "measures \<Rightarrow> bool \<Rightarrow> string \<Rightarrow> real \<times> real \<Rightarrow> editor_state \<Rightarrow> editor_state" where
  "onDrop ms readOnly ty position st =
     (if readOnly \<or> ty = [] then st
      else
        let ns = ed_nodes st; es = ed_edges st; newId = ed_counter st + 1; newNodeId = show_nat newId;
            newNode = placed_node (IdNum newId) ty (fst position) (snd position)
                        (case jsget DEFAULT_SETTINGS ty of Some s \<Rightarrow> s | None \<Rightarrow> JObj []);
            splicedEdge = findNearestEdge ms ns es position SPLICE_THRESHOLD
        in if ty \<in> set COMPOUND_STEP_TYPES then
             let subNodes = newNode # (if ty = ''split'' then split_nodes newId (fst position) (snd position)
                                       else conditional_nodes newId (fst position) (snd position));
                 subEdges = (if ty = ''split'' then split_edges newId else conditional_edges newId);
                 firstPathId = (if ty = ''split'' then path_name newNodeId 0 else branch_name newId 1);
                 firstEndId = show_nat (newId + 1)
             in (case splicedEdge of
                   Some e \<Rightarrow> st\<lparr>ed_nodes := ns @ filter (\<lambda>n. node_id n \<noteq> firstEndId) subNodes,
                                ed_edges := splice_compound es e newNodeId firstPathId firstEndId subEdges,
                                ed_counter := newId + 2\<rparr>
                 | None \<Rightarrow> st\<lparr>ed_nodes := ns @ subNodes, ed_edges := es @ subEdges, ed_counter := newId + 2\<rparr>)
           else st\<lparr>ed_nodes := ns @ [newNode],
                   ed_edges := (case splicedEdge of Some e \<Rightarrow> spliceNodeIntoEdge es e newNodeId | None \<Rightarrow> es),
                   ed_counter := newId\<rparr>)"

section \<open>Deleting a step, saving its settings, moving boxes\<close>

definition removed_with :: "flow_node list \<Rightarrow> flow_edge list \<Rightarrow> flow_node \<Rightarrow> string list" where
  "removed_with ns es node =
     node_id node #
     (if node_type node \<in> set BRANCHING_STEP_TYPES then
        concat (map (\<lambda>e. case find_node ns (edge_target e) of
            Some t \<Rightarrow>
              if node_type t \<in> set SUB_NODE_TYPES then
                node_id t # concat (map (\<lambda>de. case find_node ns (edge_target de) of
                                              Some d \<Rightarrow> if node_type d = ''end'' then [node_id d] else []
                                            | None \<Rightarrow> [])
                                     (filter (\<lambda>f. edge_source f = node_id t) es))
              else []
          | None \<Rightarrow> []) (filter (\<lambda>e. edge_source e = node_id node) es))
      else [])"

text \<open>The parent and the child of a deleted step that does not branch are joined.\<close>

definition reconnected :: "flow_edge list \<Rightarrow> string \<Rightarrow> bool \<Rightarrow> flow_edge list" where
  "reconnected es nodeId isBranching =
     (case (find (\<lambda>e. edge_target e = nodeId) es, find (\<lambda>e. edge_source e = nodeId) es) of
        (Some i, Some out) \<Rightarrow> if isBranching then [] else [plain_edge (edge_source i) (edge_target out) None]
      | _ \<Rightarrow> [])"

definition handleDeleteNode :: "bool \<Rightarrow> string \<Rightarrow> editor_state \<Rightarrow> editor_state" where
  "handleDeleteNode readOnly nodeId st =
     (let ns = ed_nodes st; es = ed_edges st in
      if readOnly then st
      else (case find_node ns nodeId of
              None \<Rightarrow> st
            | Some node \<Rightarrow>
                if node_type node = ''trigger'' then st
                else
                  let isBranching = node_type node \<in> set BRANCHING_STEP_TYPES;
                      gone = removed_with ns es node;
                      filtered = filter (\<lambda>e. edge_source e \<notin> set gone \<and> edge_target e \<notin> set gone) es
                  in st\<lparr>ed_nodes := filter (\<lambda>n. node_id n \<notin> set gone) ns, ed_edges := filtered @ reconnected es nodeId isBranching\<rparr>))"

definition handleUpdateNodeSettings :: "string option \<Rightarrow> jsval \<Rightarrow> editor_state \<Rightarrow> editor_state" where
  "handleUpdateNodeSettings selected settings st =
     (case selected of
        None \<Rightarrow> st
      | Some k \<Rightarrow> if k = [] then st
                  else st\<lparr>ed_nodes := map (\<lambda>n. if node_id n = k then n\<lparr>node_settings := settings\<rparr> else n) (ed_nodes st)\<rparr>)"

section \<open>Changing the paths of a split\<close>

text \<open>\<open>s.replace(pat, '')\<close> with a text: the first occurrence.\<close>

fun remove_first :: "string \<Rightarrow> string \<Rightarrow> string" where
  "remove_first pat [] = []"
| "remove_first pat (c # cs) = (if starts_with pat (c # cs) then drop (length pat) (c # cs) else c # remove_first pat cs)"

record desired_path =
  dp_key :: string
  dp_value :: real
  dp_nodeId :: string
  dp_index :: nat

definition desiredPaths :: "string \<Rightarrow> (string \<times> real) list \<Rightarrow> desired_path list" where
  "desiredPaths splitId paths =
     map (\<lambda>(i, key, v). \<lparr>dp_key = key, dp_value = v, dp_nodeId = path_name splitId i, dp_index = i\<rparr>) (enumerate 0 paths)"

definition existingPathNodeIds :: "flow_edge list \<Rightarrow> string \<Rightarrow> string list" where
  "existingPathNodeIds es splitId =
     remdups (map edge_target (filter (\<lambda>e. edge_source e = splitId \<and>
       (case source_handle e of Some h \<Rightarrow> starts_with ''path-'' h | None \<Rightarrow> False)) es))"

definition path_settings :: "desired_path \<Rightarrow> jsval" where
  "path_settings p = JObj [(''path'', JStr (dp_key p)), (''value'', JNum (Fin (dp_value p)))]"

definition new_path_nodes :: "flow_node \<Rightarrow> nat \<Rightarrow> desired_path \<Rightarrow> nat \<Rightarrow> flow_node list" where
  "new_path_nodes split count p endId =
     (let x = node_x split + (real (dp_index p) - (real count - 1) / 2) * 200 in
      [placed_node (IdText (dp_nodeId p)) ''splitPath'' x (node_y split + 100) (path_settings p),
       placed_node (IdNum endId) ''end'' x (node_y split + 200) (JObj [])])"

definition new_path_edges :: "string \<Rightarrow> desired_path \<Rightarrow> nat \<Rightarrow> flow_edge list" where
  "new_path_edges splitId p endId =
     [plain_edge splitId (dp_nodeId p) (Some (''path-'' @ dp_key p)), plain_edge (dp_nodeId p) (show_nat endId) None]"

definition path_node_kept :: "flow_edge list \<Rightarrow> string list \<Rightarrow> flow_node \<Rightarrow> bool" where
  "path_node_kept es toRemove n \<longleftrightarrow>
     node_id n \<notin> set toRemove \<and>
     \<not> (case find (\<lambda>e. edge_target e = node_id n) es of
          Some e \<Rightarrow> edge_source e \<in> set toRemove \<and> node_type n = ''end''
        | None \<Rightarrow> False)"

definition path_node_updated :: "desired_path list \<Rightarrow> flow_node \<Rightarrow> flow_node" where
  "path_node_updated desired n =
     (case find (\<lambda>p. dp_nodeId p = node_id n) desired of
        Some p \<Rightarrow> if node_type n = ''splitPath'' then n\<lparr>node_settings := path_settings p\<rparr> else n
      | None \<Rightarrow> n)"

definition path_edge_kept :: "string \<Rightarrow> string list \<Rightarrow> string list \<Rightarrow> flow_edge \<Rightarrow> bool" where
  "path_edge_kept splitId keys toRemove e \<longleftrightarrow>
     edge_source e \<notin> set toRemove \<and> edge_target e \<notin> set toRemove \<and>
     \<not> (edge_source e = splitId \<and>
        (case source_handle e of Some h \<Rightarrow> h \<noteq> [] \<and> remove_first ''path-'' h \<notin> set keys | None \<Rightarrow> False))"

definition syncSplitPaths :: "bool \<Rightarrow> string \<Rightarrow> (string \<times> real) list \<Rightarrow> editor_state \<Rightarrow> editor_state" where
  "syncSplitPaths readOnly splitId paths st =
     (let ns = ed_nodes st; es = ed_edges st in
      if readOnly then st
      else (case find_node ns splitId of
              None \<Rightarrow> st
            | Some split \<Rightarrow>
                let existing = existingPathNodeIds es splitId;
                    desired = desiredPaths splitId paths;
                    toAdd = filter (\<lambda>p. dp_nodeId p \<notin> set existing) desired;
                    toRemove = filter (\<lambda>k. k \<notin> set (map dp_nodeId desired)) existing;
                    added = enumerate (ed_counter st + 1) toAdd
                in st\<lparr>ed_nodes := map (path_node_updated desired) (filter (path_node_kept es toRemove) ns) @
                                   concat (map (\<lambda>(endId, p). new_path_nodes split (length desired) p endId) added),
                      ed_edges := filter (path_edge_kept splitId (map fst paths) toRemove) es @
                                   concat (map (\<lambda>(endId, p). new_path_edges splitId p endId) added),
                      ed_counter := ed_counter st + length toAdd\<rparr>))"

text \<open>
  More paths, or other percentages: where no path of the split is to go, every step stays and every edge of
  the drawing stays; the new paths with their ends are added.
\<close>

lemma more_paths_keep_steps:
  assumes "set (existingPathNodeIds (ed_edges st) splitId) \<subseteq> set (map dp_nodeId (desiredPaths splitId paths))"
    and "\<forall>e \<in> set (ed_edges st). \<forall>h. edge_source e = splitId \<and> source_handle e = Some h \<and> h \<noteq> [] \<longrightarrow> remove_first ''path-'' h \<in> fst ` set paths"
  shows "\<exists>ms fs. ed_nodes (syncSplitPaths readOnly splitId paths st) = map (path_node_updated ms) (ed_nodes st) @ fs \<and>
           (\<exists>gs. ed_edges (syncSplitPaths readOnly splitId paths st) = ed_edges st @ gs)"
proof -
  have gone: "filter (\<lambda>k. k \<notin> set (map dp_nodeId (desiredPaths splitId paths))) (existingPathNodeIds (ed_edges st) splitId) = []"
    using assms(1) by (auto simp: filter_empty_conv)
  have nodes: "filter (path_node_kept (ed_edges st) []) (ed_nodes st) = ed_nodes st"
    by (auto simp: filter_id_conv path_node_kept_def split: option.split)
  have edges: "filter (path_edge_kept splitId (map fst paths) []) (ed_edges st) = ed_edges st"
    using assms(2) by (auto simp: filter_id_conv path_edge_kept_def split: option.split)
  have "path_node_updated [] = (\<lambda>n. n)" by (auto simp: path_node_updated_def)
  then show ?thesis
    unfolding syncSplitPaths_def Let_def gone nodes edges
    by (cases "readOnly"; cases "find_node (ed_nodes st) splitId") (auto intro: exI [of _ "[]"])
qed

section \<open>A session\<close>

text \<open>
  What the page offers: lines between nodes on the canvas, the blocks of the sidebar, and a delete button on
  every node but the trigger and the sub-nodes.
\<close>

definition BLOCK_TYPES :: "string list" where
  "BLOCK_TYPES =
     [''email'', ''webPush'', ''mobilePush'', ''sms'', ''whatsapp'', ''testAB'', ''randomMessage'', ''randomWebPush'',
      ''randomMobilePush'', ''addTag'', ''removeTag'', ''updateCustomField'', ''contactTransfer'', ''removeAutomation'',
      ''wait'', ''conditionalTime'', ''split'', ''conditional'', ''httpRequest'', ''end'']"

datatype editor_event =
    Connect connection
  | RemoveEdges "string list"
  | Drop string "real \<times> real"
  | Delete string
  | UpdateSettings "string option" jsval
  | MoveBoxes "string \<Rightarrow> real \<times> real"

fun editor_step :: "(connection \<Rightarrow> flow_edge list \<Rightarrow> flow_edge list) \<Rightarrow> (string list \<Rightarrow> flow_edge list \<Rightarrow> flow_edge list) \<Rightarrow> measures \<Rightarrow>
    editor_event \<Rightarrow> editor_state \<Rightarrow> editor_state" where
  "editor_step addE remE ms (Connect c) st =
     (if con_source c \<in> node_id ` set (ed_nodes st) \<and> con_target c \<in> node_id ` set (ed_nodes st)
      then onConnect addE False c st else st)"
| "editor_step addE remE ms (RemoveEdges ids) st = onEdgesChange remE ids st"
| "editor_step addE remE ms (Drop ty p) st = (if ty \<in> set BLOCK_TYPES then onDrop ms False ty p st else st)"
| "editor_step addE remE ms (Delete k) st = (if is_sub_id (ed_nodes st) k then st else handleDeleteNode False k st)"
| "editor_step addE remE ms (UpdateSettings k s) st = handleUpdateNodeSettings k s st"
| "editor_step addE remE ms (MoveBoxes pos) st = st\<lparr>ed_nodes := relocated pos (ed_nodes st)\<rparr>"

definition numbered :: "nat \<Rightarrow> string set" where
  "numbered k = {show_nat k, path_name (show_nat k) 0, path_name (show_nat k) 1, branch_name k 1, branch_name k 2}"

definition used_names :: "editor_state \<Rightarrow> string set" where
  "used_names st = node_id ` set (ed_nodes st) \<union> edge_source ` set (ed_edges st) \<union> edge_target ` set (ed_edges st)"

text \<open>
  What a session keeps: ids differ and name their steps; the ids of the steps to come are free; a node that
  does not branch has one way out at most; an edge into a sub-node comes from a branching node, and a
  sub-node has one way in at most.
\<close>

definition editor_ok :: "editor_state \<Rightarrow> bool" where
  "editor_ok st \<longleftrightarrow>
     distinct (map node_id (ed_nodes st)) \<and> well_named (ed_nodes st) \<and>
     (\<forall>k > ed_counter st. numbered k \<inter> used_names st = {}) \<and>
     (\<forall>k. \<not> is_branching_id (ed_nodes st) k \<longrightarrow> length (filter (\<lambda>e. edge_source e = k) (ed_edges st)) \<le> 1) \<and>
     (\<forall>e \<in> set (ed_edges st). is_sub_id (ed_nodes st) (edge_target e) \<longrightarrow> is_branching_id (ed_nodes st) (edge_source e)) \<and>
     (\<forall>k. is_sub_id (ed_nodes st) k \<longrightarrow> length (filter (\<lambda>e. edge_target e = k) (ed_edges st)) \<le> 1)"

lemma editor_okI:
  assumes "distinct (map node_id (ed_nodes st))" "well_named (ed_nodes st)"
    and "\<And>k. ed_counter st < k \<Longrightarrow> numbered k \<inter> used_names st = {}"
    and "\<And>k. \<not> is_branching_id (ed_nodes st) k \<Longrightarrow> length (filter (\<lambda>e. edge_source e = k) (ed_edges st)) \<le> 1"
    and "\<And>e. e \<in> set (ed_edges st) \<Longrightarrow> is_sub_id (ed_nodes st) (edge_target e) \<Longrightarrow> is_branching_id (ed_nodes st) (edge_source e)"
    and "\<And>k. is_sub_id (ed_nodes st) k \<Longrightarrow> length (filter (\<lambda>e. edge_target e = k) (ed_edges st)) \<le> 1"
  shows "editor_ok st"
  using assms unfolding editor_ok_def by blast

lemma editor_okD:
  assumes "editor_ok st"
  shows "distinct (map node_id (ed_nodes st))" "well_named (ed_nodes st)"
    and "ed_counter st < j \<Longrightarrow> numbered j \<inter> used_names st = {}"
    and "\<not> is_branching_id (ed_nodes st) k \<Longrightarrow> length (filter (\<lambda>e. edge_source e = k) (ed_edges st)) \<le> 1"
    and "e \<in> set (ed_edges st) \<Longrightarrow> is_sub_id (ed_nodes st) (edge_target e) \<Longrightarrow> is_branching_id (ed_nodes st) (edge_source e)"
    and "is_sub_id (ed_nodes st) k \<Longrightarrow> length (filter (\<lambda>e. edge_target e = k) (ed_edges st)) \<le> 1"
  using assms unfolding editor_ok_def by blast+

lemma digits_before [simp]: "takeWhile is_digit (show_nat j @ CHR ''_'' # r) = show_nat j"
  using show_nat_digits [of j] by (simp add: is_digit_def)

lemma show_nat_eq [simp]: "show_nat j = show_nat k \<longleftrightarrow> j = k"
  using show_nat_inj by auto

lemma show_nat_no_letter [simp]: "show_nat j \<noteq> CHR ''p'' # r" "show_nat j \<noteq> CHR ''c'' # r"
  "CHR ''p'' # r \<noteq> show_nat j" "CHR ''c'' # r \<noteq> show_nat j"
proof -
  have "c \<noteq> CHR ''p'' \<and> c \<noteq> CHR ''c''" if "c \<in> set (show_nat j)" for c
    using show_nat_digits [of j] that by (auto simp: is_digit_def)
  then show "show_nat j \<noteq> CHR ''p'' # r" "show_nat j \<noteq> CHR ''c'' # r" "CHR ''p'' # r \<noteq> show_nat j" "CHR ''c'' # r \<noteq> show_nat j"
    by (metis list.set_intros(1))+
qed

lemma path_name_eq [simp]: "path_name (show_nat j) a = path_name (show_nat k) b \<longleftrightarrow> j = k \<and> a = b"
proof
  assume "path_name (show_nat j) a = path_name (show_nat k) b"
  then have eq: "show_nat j @ CHR ''_'' # show_nat a = show_nat k @ CHR ''_'' # show_nat b" by (simp add: path_name_def)
  then have "show_nat j = show_nat k" by (metis digits_before)
  then show "j = k \<and> a = b" using eq by simp
qed simp

lemma branch_name_eq [simp]: "branch_name j a = branch_name k b \<longleftrightarrow> j = k \<and> a = b"
proof
  assume "branch_name j a = branch_name k b"
  then have eq: "show_nat j @ CHR ''_'' # show_nat a = show_nat k @ CHR ''_'' # show_nat b" by (simp add: branch_name_def)
  then have "show_nat j = show_nat k" by (metis digits_before)
  then show "j = k \<and> a = b" using eq by simp
qed simp

lemma names_differ [simp]:
  "show_nat j \<noteq> path_name s a" "path_name s a \<noteq> show_nat j" "show_nat j \<noteq> branch_name k b" "branch_name k b \<noteq> show_nat j"
  "path_name s a \<noteq> branch_name k b" "branch_name k b \<noteq> path_name s a"
  by (simp_all add: path_name_def branch_name_def)

lemma numbered_apart: "j \<noteq> k \<Longrightarrow> numbered j \<inter> numbered k = {}"
  by (auto simp: numbered_def)

lemma find_node_append: "find_node (ns @ ms) k = (case find_node ns k of Some n \<Rightarrow> Some n | None \<Rightarrow> find_node ms k)"
  by (simp add: find_node_def find_appended split: option.split)

lemma kind_nodes: "is_sub_id ns k \<Longrightarrow> k \<in> node_id ` set ns" "is_branching_id ns k \<Longrightarrow> k \<in> node_id ` set ns"
  by (auto simp: is_sub_id_def is_branching_id_def dest: find_node_ids split: option.splits)

lemma kind_append:
  "is_sub_id (ns @ ms) k \<longleftrightarrow> (if k \<in> node_id ` set ns then is_sub_id ns k else is_sub_id ms k)"
  "is_branching_id (ns @ ms) k \<longleftrightarrow> (if k \<in> node_id ` set ns then is_branching_id ns k else is_branching_id ms k)"
  using find_node_None [of ns k] by (auto simp: is_sub_id_def is_branching_id_def find_node_append split: option.split)

lemma filter_filter_le: "length (filter P xs) \<le> 1 \<Longrightarrow> length (filter P (filter Q xs)) \<le> 1"
proof (induction xs)
  case (Cons x xs)
  show ?case
  proof (cases "P x")
    case True
    then have "filter P xs = []" using Cons.prems by simp
    then have "filter P (filter Q xs) = []" by (auto simp: filter_empty_conv)
    then show ?thesis using True by simp
  qed (use Cons in simp)
qed simp

lemma only_one_removed:
  assumes "length (filter P xs) \<le> 1" "x \<in> set xs" "P x" "\<not> Q x"
  shows "filter P (filter Q xs) = []"
  using assms
proof (induction xs)
  case (Cons y xs)
  show ?case
  proof (cases "P y")
    case True
    then have "filter P xs = []" using Cons.prems by simp
    then show ?thesis using Cons.prems by (auto simp: filter_empty_conv)
  next
    case False
    then have "filter P (filter Q xs) = []" using Cons by (intro Cons.IH) auto
    then show ?thesis using False by simp
  qed
qed simp

lemma added_ok:
  assumes ok: "editor_ok st"
    and new: "distinct (map node_id ms)" "well_named ms" "node_id ` set ms \<inter> used_names st = {}"
    and outs: "\<And>k. \<not> is_branching_id ms k \<Longrightarrow> length (filter (\<lambda>e. edge_source e = k) fs) \<le> 1"
    and src: "\<And>f. f \<in> set fs \<Longrightarrow> edge_source f \<in> node_id ` set ms \<or>
                (edge_source f \<in> used_names st \<and>
                 (is_branching_id (ed_nodes st) (edge_source f) \<or>
                  filter (\<lambda>e. edge_source e = edge_source f) (filter P (ed_edges st)) = []))"
    and tgt: "\<And>f. f \<in> set fs \<Longrightarrow> edge_target f \<in> node_id ` set ms \<or>
                (edge_target f \<in> used_names st \<and> \<not> is_sub_id (ed_nodes st) (edge_target f))"
    and sub: "\<And>f. f \<in> set fs \<Longrightarrow> is_sub_id ms (edge_target f) \<Longrightarrow> is_branching_id ms (edge_source f)"
    and ins: "\<And>k. is_sub_id ms k \<Longrightarrow> length (filter (\<lambda>e. edge_target e = k) fs) \<le> 1"
    and cnt: "ed_counter st \<le> c" "\<And>k. c < k \<Longrightarrow> numbered k \<inter> node_id ` set ms = {}"
  shows "editor_ok (st\<lparr>ed_nodes := ed_nodes st @ ms, ed_edges := filter P (ed_edges st) @ fs, ed_counter := c\<rparr>)"
proof -
  let ?ns = "ed_nodes st" and ?es = "ed_edges st" and ?N = "node_id ` set (ed_nodes st)" and ?M = "node_id ` set ms"
  let ?st = "st\<lparr>ed_nodes := ?ns @ ms, ed_edges := filter P ?es @ fs, ed_counter := c\<rparr>"
  have fresh: "k \<in> ?M \<Longrightarrow> k \<notin> ?N \<and> (\<forall>e \<in> set ?es. edge_source e \<noteq> k \<and> edge_target e \<noteq> k)" for k
    using new(3) by (auto simp: used_names_def)
  have "edge_source f \<in> used_names st \<union> ?M" "edge_target f \<in> used_names st \<union> ?M" if "f \<in> set fs" for f
  proof -
    show "edge_source f \<in> used_names st \<union> ?M"
      using src [OF that] by blast
    show "edge_target f \<in> used_names st \<union> ?M" using tgt [OF that] by blast
  qed
  then have used: "used_names ?st \<subseteq> used_names st \<union> ?M"
    unfolding used_names_def by auto
  have 1: "distinct (map node_id (?ns @ ms))" using ok new fresh by (auto simp: editor_ok_def)
  have 2: "well_named (?ns @ ms)" using ok new by (auto simp: editor_ok_def well_named_def)
  have 3: "numbered k \<inter> used_names ?st = {}" if "c < k" for k
  proof -
    have "numbered k \<inter> used_names st = {}" using ok cnt(1) that by (simp add: editor_ok_def)
    then show ?thesis using cnt(2) [OF that] used by blast
  qed
  have 4: "length (filter (\<lambda>e. edge_source e = k) (filter P ?es @ fs)) \<le> 1" if k: "\<not> is_branching_id (?ns @ ms) k" for k
  proof (cases "k \<in> ?M")
    case True
    then have "filter (\<lambda>e. edge_source e = k) (filter P ?es) = []" "\<not> is_branching_id ms k"
      using fresh k by (auto simp: filter_empty_conv kind_append)
    then show ?thesis using outs by simp
  next
    case False
    then have nb: "\<not> is_branching_id ?ns k" "\<not> is_branching_id ms k"
      using k kind_nodes(2) [of ?ns k] kind_nodes(2) [of ms k] by (auto simp: kind_append split: if_splits)
    have le: "length (filter (\<lambda>e. edge_source e = k) ?es) \<le> 1" using ok nb by (simp add: editor_ok_def)
    show ?thesis
    proof (cases "filter (\<lambda>e. edge_source e = k) fs = []")
      case True
      then show ?thesis using filter_filter_le [OF le] by simp
    next
      case f: False
      then obtain f where "f \<in> set fs" "edge_source f = k" by (auto simp: filter_empty_conv)
      then have "filter (\<lambda>e. edge_source e = k) (filter P ?es) = []" using src False nb(1) by blast
      then show ?thesis using outs [OF nb(2)] by simp
    qed
  qed
  have 5: "is_branching_id (?ns @ ms) (edge_source e)"
    if "e \<in> set (filter P ?es @ fs)" "is_sub_id (?ns @ ms) (edge_target e)" for e
  proof (cases "e \<in> set fs")
    case False
    then have e: "e \<in> set ?es" using that(1) by simp
    then have "edge_target e \<notin> ?M" using fresh by blast
    then have "is_sub_id ?ns (edge_target e)" using that(2) kind_nodes(1) [of ms] by (metis kind_append(1))
    then have b: "is_branching_id ?ns (edge_source e)" using ok e by (simp add: editor_ok_def)
    then show ?thesis using kind_nodes(2) [OF b] by (simp add: kind_append)
  next
    case True
    have "is_sub_id ms (edge_target e)"
      using tgt [OF True] that(2) fresh [of "edge_target e"] by (metis kind_append(1))
    then have b: "is_branching_id ms (edge_source e)" by (rule sub [OF True])
    then show ?thesis using fresh [OF kind_nodes(2) [OF b]] by (simp add: kind_append)
  qed
  have 6: "length (filter (\<lambda>e. edge_target e = k) (filter P ?es @ fs)) \<le> 1" if k: "is_sub_id (?ns @ ms) k" for k
  proof (cases "k \<in> ?M")
    case True
    then have "filter (\<lambda>e. edge_target e = k) (filter P ?es) = []" "is_sub_id ms k"
      using fresh k by (auto simp: filter_empty_conv kind_append)
    then show ?thesis using ins by simp
  next
    case False
    then have k': "is_sub_id ?ns k" using k kind_nodes(1) [of ms k] by (auto simp: kind_append split: if_splits)
    have "filter (\<lambda>e. edge_target e = k) fs = []" using tgt False k' by (auto simp: filter_empty_conv)
    moreover have "length (filter (\<lambda>e. edge_target e = k) ?es) \<le> 1" using ok k' by (simp add: editor_ok_def)
    ultimately show ?thesis using filter_filter_le [of "\<lambda>e. edge_target e = k" ?es P] by simp
  qed
  show ?thesis using 1 2 3 4 5 6 by (simp add: editor_ok_def)
qed


lemma same_kinds:
  assumes "map node_id ms = map node_id ns" "map node_type ms = map node_type ns"
  shows "is_sub_id ms k = is_sub_id ns k \<and> is_branching_id ms k = is_branching_id ns k"
proof -
  have "length ms = length ns" using assms(1) by (metis length_map)
  then show ?thesis using assms
    by (induction ms ns rule: list_induct2) (auto simp: is_sub_id_def is_branching_id_def find_node_def)
qed

lemma well_named_map: "well_named ns \<longleftrightarrow> map id_text (map node_step ns) = map node_id ns"
  by (induction ns) (auto simp: well_named_def)

text \<open>Nodes that keep their ids, steps and types, in an editor with the same edges or fewer.\<close>

lemma same_nodes_ok:
  assumes ok: "editor_ok st"
    and "map node_id ms = map node_id (ed_nodes st)" "map node_type ms = map node_type (ed_nodes st)"
    and "map node_step ms = map node_step (ed_nodes st)"
  shows "editor_ok (st\<lparr>ed_nodes := ms, ed_edges := filter P (ed_edges st)\<rparr>)"
proof -
  let ?st = "st\<lparr>ed_nodes := ms, ed_edges := filter P (ed_edges st)\<rparr>"
  have ids: "node_id ` set ms = node_id ` set (ed_nodes st)" using assms(2) by (metis list.set_map)
  then have used: "used_names ?st \<subseteq> used_names st" by (auto simp: used_names_def)
  have "well_named ms" using ok assms(2,4) by (simp add: editor_ok_def well_named_map)
  note kinds = same_kinds [OF assms(2,3)]
  show ?thesis
  proof (rule editor_okI)
    show "numbered k \<inter> used_names ?st = {}" if "ed_counter ?st < k" for k
      using editor_okD(3) [OF ok, of k] that used by auto
    show "length (filter (\<lambda>e. edge_source e = k) (ed_edges ?st)) \<le> 1" if "\<not> is_branching_id (ed_nodes ?st) k" for k
      using filter_filter_le [OF editor_okD(4) [OF ok, of k], of P] that kinds by (simp del: filter_filter)
    show "length (filter (\<lambda>e. edge_target e = k) (ed_edges ?st)) \<le> 1" if "is_sub_id (ed_nodes ?st) k" for k
      using filter_filter_le [OF editor_okD(6) [OF ok, of k], of P] that kinds by (simp del: filter_filter)
  qed (use editor_okD [OF ok] kinds \<open>well_named ms\<close> assms(2) in auto)
qed

lemma node_used: "k \<in> node_id ` set (ed_nodes st) \<Longrightarrow> k \<in> used_names st"
  by (simp add: used_names_def)

lemma no_kind_Nil [simp]: "\<not> is_sub_id [] k" "\<not> is_branching_id [] k"
  by (simp_all add: is_sub_id_def is_branching_id_def find_node_def)

lemma connect_ok:
  assumes ok: "editor_ok st"
    and law: "\<And>es. addEdge c es = es \<or>
                (\<exists>e. addEdge c es = es @ [e] \<and> edge_source e = con_source c \<and> edge_target e = con_target c)"
    and known: "con_source c \<in> node_id ` set (ed_nodes st)" "con_target c \<in> node_id ` set (ed_nodes st)"
  shows "editor_ok (onConnect addEdge readOnly c st)"
proof -
  let ?ns = "ed_nodes st" and ?es = "ed_edges st"
  have join: "editor_ok (st\<lparr>ed_edges := addEdge c (filter P ?es)\<rparr>)"
    if "\<not> is_sub_id ?ns (con_target c)" "is_branching_id ?ns (con_source c) \<or> P = (\<lambda>e. edge_source e \<noteq> con_source c)" for P
    using law [of "filter P ?es"]
  proof
    assume "addEdge c (filter P ?es) = filter P ?es"
    then show ?thesis using same_nodes_ok [OF ok refl refl refl, of P] by simp
  next
    assume "\<exists>e. addEdge c (filter P ?es) = filter P ?es @ [e] \<and> edge_source e = con_source c \<and> edge_target e = con_target c"
    then obtain e where e: "addEdge c (filter P ?es) = filter P ?es @ [e]" "edge_source e = con_source c" "edge_target e = con_target c"
      by blast
    have "editor_ok (st\<lparr>ed_nodes := ?ns @ [], ed_edges := filter P ?es @ [e], ed_counter := ed_counter st\<rparr>)"
      using that e known node_used
      by (intro added_ok [OF ok]) (auto simp: well_named_def filter_empty_conv)
    then show ?thesis using e by simp
  qed
  have id: "addEdge c ?es = addEdge c (filter (\<lambda>_. True) ?es)" by simp
  show ?thesis
    unfolding onConnect_def Let_def using ok join by auto
qed

lemma remove_edges_ok:
  assumes "editor_ok st" "\<And>ids es. removeEdges ids es = filter (\<lambda>e. edge_id e \<notin> set ids) es"
  shows "editor_ok (onEdgesChange removeEdges ids st)"
proof -
  have "editor_ok (st\<lparr>ed_edges := removeEdges is (ed_edges st)\<rparr>)" for "is"
    using same_nodes_ok [OF assms(1) refl refl refl, of "\<lambda>e. edge_id e \<notin> set is"] assms(2) by simp
  then show ?thesis using assms(1) by (simp add: onEdgesChange_def Let_def)
qed

lemma update_ok: "editor_ok st \<Longrightarrow> editor_ok (handleUpdateNodeSettings k s st)"
  using same_nodes_ok [of st "map (\<lambda>n. if node_id n = the k then n\<lparr>node_settings := s\<rparr> else n) (ed_nodes st)" "\<lambda>_. True"]
  by (cases k) (auto simp: handleUpdateNodeSettings_def comp_def)

lemma move_ok: "editor_ok st \<Longrightarrow> editor_ok (st\<lparr>ed_nodes := relocated pos (ed_nodes st)\<rparr>)"
  using same_nodes_ok [of st "relocated pos (ed_nodes st)" "\<lambda>_. True"] by (simp add: relocated_def comp_def)

lemma nearest_target:
  assumes "editor_ok st" "findNearestEdge ms (ed_nodes st) (ed_edges st) p t = Some e"
  shows "e \<in> set (ed_edges st)" "edge_target e \<in> used_names st" "edge_source e \<in> used_names st"
    "\<not> is_sub_id (ed_nodes st) (edge_target e)"
    "is_branching_id (ed_nodes st) (edge_source e) \<or>
     filter (\<lambda>f. edge_source f = edge_source e) (filter (\<lambda>f. edge_id f \<noteq> edge_id e) (ed_edges st)) = []"
proof -
  note n = nearest_edge_exists [OF assms(2)]
  show e: "e \<in> set (ed_edges st)" using n by simp
  show "edge_target e \<in> used_names st" "edge_source e \<in> used_names st" using e by (auto simp: used_names_def)
  show "\<not> is_sub_id (ed_nodes st) (edge_target e)" using n by (auto simp: is_sub_id_def)
  show "is_branching_id (ed_nodes st) (edge_source e) \<or>
     filter (\<lambda>f. edge_source f = edge_source e) (filter (\<lambda>f. edge_id f \<noteq> edge_id e) (ed_edges st)) = []"
    using only_one_removed [of "\<lambda>f. edge_source f = edge_source e" "ed_edges st" e] assms(1) e
    by (auto simp: editor_ok_def simp del: filter_filter)
qed

lemma editor_same: "st\<lparr>ed_nodes := ed_nodes st @ ms, ed_edges := ed_edges st @ fs, ed_counter := c\<rparr>
    = st\<lparr>ed_nodes := ed_nodes st @ ms, ed_edges := filter (\<lambda>_. True) (ed_edges st) @ fs, ed_counter := c\<rparr>"
  by simp

lemma plain_edge_ends [simp]: "edge_source (plain_edge a b h) = a" "edge_target (plain_edge a b h) = b"
  by (simp_all add: plain_edge_def)

lemma placed_node_fields [simp]: "node_id (placed_node i ty x y s) = id_text i" "node_type (placed_node i ty x y s) = ty"
    "node_step (placed_node i ty x y s) = i"
  by (simp_all add: placed_node_def)

lemma fresh_names:
  assumes "editor_ok st" "ed_counter st < k"
  shows "show_nat k \<notin> used_names st" "path_name (show_nat k) 0 \<notin> used_names st" "path_name (show_nat k) 1 \<notin> used_names st"
    "branch_name k 1 \<notin> used_names st" "branch_name k 2 \<notin> used_names st"
  using editor_okD(3) [OF assms] by (auto simp: numbered_def)

lemma simple_added:
  assumes ok: "editor_ok st" and k: "node_id n = show_nat (ed_counter st + 1)" "well_named [n]"
    and ty: "node_type n \<notin> set BRANCHING_STEP_TYPES" "node_type n \<notin> set SUB_NODE_TYPES"
    and e: "\<And>e. spliced = Some e \<Longrightarrow> findNearestEdge ms (ed_nodes st) (ed_edges st) p t = Some e"
  shows "editor_ok (st\<lparr>ed_nodes := ed_nodes st @ [n],
           ed_edges := (case spliced of Some e \<Rightarrow> spliceNodeIntoEdge (ed_edges st) e (show_nat (ed_counter st + 1)) | None \<Rightarrow> ed_edges st),
           ed_counter := ed_counter st + 1\<rparr>)"
proof -
  let ?k = "show_nat (ed_counter st + 1)"
  have fresh: "?k \<notin> used_names st" by (rule fresh_names(1) [OF ok]) simp
  have kinds: "\<not> is_sub_id [n] k" "\<not> is_branching_id [n] k" for k
    using ty by (auto simp: is_sub_id_def is_branching_id_def find_node_def)
  have num: "numbered j \<inter> {?k} = {}" if "ed_counter st + 1 < j" for j
    using that by (auto simp: numbered_def)
  show ?thesis
  proof (cases spliced)
    case None
    have "editor_ok (st\<lparr>ed_nodes := ed_nodes st @ [n], ed_edges := filter (\<lambda>_. True) (ed_edges st) @ [],
        ed_counter := ed_counter st + 1\<rparr>)"
      using k fresh num kinds by (intro added_ok [OF ok]) simp_all
    then show ?thesis using None by simp
  next
    case (Some e)
    note t = nearest_target [OF ok assms(6) [OF Some]]
    have "edge_source e \<noteq> ?k" using t(3) fresh by auto
    then have "editor_ok (st\<lparr>ed_nodes := ed_nodes st @ [n],
        ed_edges := filter (\<lambda>f. edge_id f \<noteq> edge_id e) (ed_edges st) @ [plain_edge (edge_source e) ?k None, plain_edge ?k (edge_target e) None],
        ed_counter := ed_counter st + 1\<rparr>)"
      using k fresh num kinds t by (intro added_ok [OF ok]) auto
    then show ?thesis using Some by (simp add: spliceNodeIntoEdge_def)
  qed
qed

text \<open>A branching node with two sub-nodes and an end below each.\<close>

lemma compound_added:
  assumes ok: "editor_ok st"
    and ns: "ns = [n, a, b, x, y]" "well_named ns" "distinct (map node_id ns)" "node_id ` set ns \<inter> used_names st = {}"
    and ty: "node_type n \<in> set BRANCHING_STEP_TYPES" "node_type n \<notin> set SUB_NODE_TYPES"
      "node_type a \<in> set SUB_NODE_TYPES" "node_type b \<in> set SUB_NODE_TYPES" "node_type a \<notin> set BRANCHING_STEP_TYPES"
      "node_type b \<notin> set BRANCHING_STEP_TYPES" "node_type x = ''end''" "node_type y = ''end''"
    and fs: "fs = [plain_edge (node_id n) (node_id a) h1, plain_edge (node_id n) (node_id b) h2,
                   plain_edge (node_id a) (node_id x) None, plain_edge (node_id b) (node_id y) None]"
    and cnt: "ed_counter st \<le> c" "\<And>k. c < k \<Longrightarrow> numbered k \<inter> node_id ` set ns = {}"
  shows "editor_ok (st\<lparr>ed_nodes := ed_nodes st @ ns, ed_edges := ed_edges st @ fs, ed_counter := c\<rparr>)"
    and "findNearestEdge ms (ed_nodes st) (ed_edges st) p t = Some e \<Longrightarrow>
         editor_ok (st\<lparr>ed_nodes := ed_nodes st @ filter (\<lambda>m. node_id m \<noteq> node_id x) ns,
                       ed_edges := splice_compound (ed_edges st) e (node_id n) (node_id a) (node_id x) fs, ed_counter := c\<rparr>)"
proof -
  have kinds: "is_branching_id ns k \<longleftrightarrow> k = node_id n" "is_sub_id ns k \<longleftrightarrow> k = node_id a \<or> k = node_id b" for k
    using ns(1,3) ty by (auto simp: is_sub_id_def is_branching_id_def find_node_def BRANCHING_STEP_TYPES_def SUB_NODE_TYPES_def)
  have "editor_ok (st\<lparr>ed_nodes := ed_nodes st @ ns, ed_edges := filter (\<lambda>_. True) (ed_edges st) @ fs, ed_counter := c\<rparr>)"
    using ns fs cnt by (intro added_ok [OF ok]) (auto simp: kinds [unfolded ns(1)])
  then show "editor_ok (st\<lparr>ed_nodes := ed_nodes st @ ns, ed_edges := ed_edges st @ fs, ed_counter := c\<rparr>)" by simp
  assume e: "findNearestEdge ms (ed_nodes st) (ed_edges st) p t = Some e"
  note t = nearest_target [OF ok e]
  let ?ns = "[n, a, b, y]"
  let ?fs = "[plain_edge (edge_source e) (node_id n) None, plain_edge (node_id n) (node_id a) h1, plain_edge (node_id n) (node_id b) h2,
              plain_edge (node_id a) (edge_target e) None, plain_edge (node_id b) (node_id y) None]"
  have f: "filter (\<lambda>m. node_id m \<noteq> node_id x) ns = ?ns" using ns(1,3) by auto
  have s: "splice_compound (ed_edges st) e (node_id n) (node_id a) (node_id x) fs
      = filter (\<lambda>f. edge_id f \<noteq> edge_id e) (ed_edges st) @ ?fs"
    using ns(1,3) by (auto simp: splice_compound_def fs plain_edge_def)
  have kinds': "is_branching_id ?ns k \<longleftrightarrow> k = node_id n" "is_sub_id ?ns k \<longleftrightarrow> k = node_id a \<or> k = node_id b" for k
    using ns(1,3) ty by (auto simp: is_sub_id_def is_branching_id_def find_node_def BRANCHING_STEP_TYPES_def SUB_NODE_TYPES_def)
  have src: "edge_source e \<notin> node_id ` set ns" "edge_target e \<notin> node_id ` set ns" using t(2,3) ns(4) by auto
  have "editor_ok (st\<lparr>ed_nodes := ed_nodes st @ ?ns, ed_edges := filter (\<lambda>f. edge_id f \<noteq> edge_id e) (ed_edges st) @ ?fs, ed_counter := c\<rparr>)"
  proof (rule added_ok [OF ok])
    show "distinct (map node_id ?ns)" "well_named ?ns" "node_id ` set ?ns \<inter> used_names st = {}"
      using ns by (auto simp: well_named_def)
    show "numbered k \<inter> node_id ` set ?ns = {}" if "c < k" for k using cnt(2) [OF that] ns(1) by auto
    show "length (filter (\<lambda>f. edge_source f = k) ?fs) \<le> 1" if "\<not> is_branching_id ?ns k" for k
      using that src ns(1,3) by (auto simp: kinds')
    show "length (filter (\<lambda>f. edge_target f = k) ?fs) \<le> 1" if "is_sub_id ?ns k" for k
      using that src ns(1,3) by (auto simp: kinds')
    show "edge_source f \<in> node_id ` set ?ns \<or> edge_source f \<in> used_names st \<and>
        (is_branching_id (ed_nodes st) (edge_source f) \<or>
         filter (\<lambda>g. edge_source g = edge_source f) (filter (\<lambda>f. edge_id f \<noteq> edge_id e) (ed_edges st)) = [])" if "f \<in> set ?fs" for f
      using that t(3,5) by auto
    show "edge_target f \<in> node_id ` set ?ns \<or> edge_target f \<in> used_names st \<and> \<not> is_sub_id (ed_nodes st) (edge_target f)"
      if "f \<in> set ?fs" for f
      using that t(2,4) by auto
    show "is_branching_id ?ns (edge_source f)" if "f \<in> set ?fs" "is_sub_id ?ns (edge_target f)" for f
      using that src ns(1,3) unfolding kinds' by auto
  qed (rule cnt(1))
  then show "editor_ok (st\<lparr>ed_nodes := ed_nodes st @ filter (\<lambda>m. node_id m \<noteq> node_id x) ns,
      ed_edges := splice_compound (ed_edges st) e (node_id n) (node_id a) (node_id x) fs, ed_counter := c\<rparr>)"
    unfolding f s .
qed

lemma split_drop_ok:
  assumes ok: "editor_ok st"
  shows "editor_ok (onDrop ms False ''split'' p st)"
proof -
  let ?k = "ed_counter st + 1"
  let ?n = "placed_node (IdNum ?k) ''split'' (fst p) (snd p) (case jsget DEFAULT_SETTINGS ''split'' of Some s \<Rightarrow> s | None \<Rightarrow> JObj [])"
  obtain a b x y where sn: "split_nodes ?k (fst p) (snd p) = [a, b, x, y]" by (simp add: split_nodes_def)
  have ids: "node_id ?n = show_nat ?k" "node_id a = path_name (show_nat ?k) 0" "node_id b = path_name (show_nat ?k) 1" "node_id x = show_nat (?k + 1)" "node_id y = show_nat (?k + 2)"
    and tys: "node_type ?n = ''split''" "node_type a = ''splitPath''" "node_type b = ''splitPath''" "node_type x = ''end''" "node_type y = ''end''"
    and nm: "well_named [?n, a, b, x, y]"
    using sn by (auto simp: split_nodes_def placed_node_def well_named_def)
  have se: "split_edges ?k = [plain_edge (node_id ?n) (node_id a) (Some ''path-1''), plain_edge (node_id ?n) (node_id b) (Some ''path-2''),
      plain_edge (node_id a) (node_id x) None, plain_edge (node_id b) (node_id y) None]"
    by (simp add: split_edges_def ids)
  have new: "distinct (map node_id [?n, a, b, x, y])" "node_id ` set [?n, a, b, x, y] \<inter> used_names st = {}"
    using fresh_names [OF ok, of ?k] fresh_names(1) [OF ok, of "?k + 1"] fresh_names(1) [OF ok, of "?k + 2"] by (auto simp: ids)
  have num: "numbered j \<inter> node_id ` set [?n, a, b, x, y] = {}" if "?k + 2 < j" for j
    using that by (auto simp: ids numbered_def)
  have kinds: "node_type ?n \<in> set BRANCHING_STEP_TYPES" "node_type ?n \<notin> set SUB_NODE_TYPES" "node_type a \<in> set SUB_NODE_TYPES"
    "node_type b \<in> set SUB_NODE_TYPES" "node_type a \<notin> set BRANCHING_STEP_TYPES" "node_type b \<notin> set BRANCHING_STEP_TYPES"
    by (simp_all add: tys BRANCHING_STEP_TYPES_def SUB_NODE_TYPES_def)
  note add = compound_added [OF ok refl nm new kinds tys(4,5) se, of "?k + 2", OF _ num]
  show ?thesis
  proof (cases "findNearestEdge ms (ed_nodes st) (ed_edges st) p SPLICE_THRESHOLD")
    case None
    then show ?thesis using add(1) sn by (simp add: onDrop_def Let_def COMPOUND_STEP_TYPES_def)
  next
    case (Some e)
    then show ?thesis using add(2) [OF _ _ Some] sn ids by (simp add: onDrop_def Let_def COMPOUND_STEP_TYPES_def)
  qed
qed

lemma conditional_drop_ok:
  assumes ok: "editor_ok st"
  shows "editor_ok (onDrop ms False ''conditional'' p st)"
proof -
  let ?k = "ed_counter st + 1"
  let ?n = "placed_node (IdNum ?k) ''conditional'' (fst p) (snd p) (case jsget DEFAULT_SETTINGS ''conditional'' of Some s \<Rightarrow> s | None \<Rightarrow> JObj [])"
  obtain a b x y where sn: "conditional_nodes ?k (fst p) (snd p) = [a, b, x, y]" by (simp add: conditional_nodes_def)
  have ids: "node_id ?n = show_nat ?k" "node_id a = branch_name ?k 1" "node_id b = branch_name ?k 2" "node_id x = show_nat (?k + 1)" "node_id y = show_nat (?k + 2)"
    and tys: "node_type ?n = ''conditional''" "node_type a = ''conditionalTrue''" "node_type b = ''conditionalFalse''" "node_type x = ''end''" "node_type y = ''end''"
    and nm: "well_named [?n, a, b, x, y]"
    using sn by (auto simp: conditional_nodes_def placed_node_def well_named_def)
  have se: "conditional_edges ?k = [plain_edge (node_id ?n) (node_id a) (Some ''yes''), plain_edge (node_id ?n) (node_id b) (Some ''no''),
      plain_edge (node_id a) (node_id x) None, plain_edge (node_id b) (node_id y) None]"
    by (simp add: conditional_edges_def ids)
  have new: "distinct (map node_id [?n, a, b, x, y])" "node_id ` set [?n, a, b, x, y] \<inter> used_names st = {}"
    using fresh_names [OF ok, of ?k] fresh_names(1) [OF ok, of "?k + 1"] fresh_names(1) [OF ok, of "?k + 2"] by (auto simp: ids)
  have num: "numbered j \<inter> node_id ` set [?n, a, b, x, y] = {}" if "?k + 2 < j" for j
    using that by (auto simp: ids numbered_def)
  have kinds: "node_type ?n \<in> set BRANCHING_STEP_TYPES" "node_type ?n \<notin> set SUB_NODE_TYPES" "node_type a \<in> set SUB_NODE_TYPES"
    "node_type b \<in> set SUB_NODE_TYPES" "node_type a \<notin> set BRANCHING_STEP_TYPES" "node_type b \<notin> set BRANCHING_STEP_TYPES"
    by (simp_all add: tys BRANCHING_STEP_TYPES_def SUB_NODE_TYPES_def)
  note add = compound_added [OF ok refl nm new kinds tys(4,5) se, of "?k + 2", OF _ num]
  show ?thesis
  proof (cases "findNearestEdge ms (ed_nodes st) (ed_edges st) p SPLICE_THRESHOLD")
    case None
    then show ?thesis using add(1) sn by (simp add: onDrop_def Let_def COMPOUND_STEP_TYPES_def)
  next
    case (Some e)
    then show ?thesis using add(2) [OF _ _ Some] sn ids by (simp add: onDrop_def Let_def COMPOUND_STEP_TYPES_def)
  qed
qed

lemma drop_ok:
  assumes ok: "editor_ok st" and ty: "ty \<in> set BLOCK_TYPES"
  shows "editor_ok (onDrop ms False ty p st)"
proof -
  consider "ty = ''split''" | "ty = ''conditional''" | "ty \<notin> set COMPOUND_STEP_TYPES" by (auto simp: COMPOUND_STEP_TYPES_def)
  then show ?thesis
  proof cases
    case 3
    let ?n = "placed_node (IdNum (ed_counter st + 1)) ty (fst p) (snd p)
      (case jsget DEFAULT_SETTINGS ty of Some s \<Rightarrow> s | None \<Rightarrow> JObj [])"
    have "ty \<notin> set BRANCHING_STEP_TYPES" using 3 by (simp add: COMPOUND_STEP_TYPES_def BRANCHING_STEP_TYPES_def)
    moreover have "ty \<noteq> [] \<and> ty \<notin> set SUB_NODE_TYPES" using ty by (auto simp: BLOCK_TYPES_def SUB_NODE_TYPES_def)
    ultimately show ?thesis
      using simple_added [OF ok, of ?n "findNearestEdge ms (ed_nodes st) (ed_edges st) p SPLICE_THRESHOLD" ms p SPLICE_THRESHOLD] 3
      by (simp add: onDrop_def Let_def well_named_def cong: option.case_cong)
  qed (simp_all add: split_drop_ok [OF ok] conditional_drop_ok [OF ok])
qed

lemma find_node_kept: "find_node (filter (\<lambda>n. node_id n \<notin> set gone) ns) k = (if k \<in> set gone then None else find_node ns k)"
  by (induction ns) (auto simp: find_node_def)

lemma kind_kept:
  "is_sub_id (filter (\<lambda>n. node_id n \<notin> set gone) ns) k \<longleftrightarrow> k \<notin> set gone \<and> is_sub_id ns k"
  "is_branching_id (filter (\<lambda>n. node_id n \<notin> set gone) ns) k \<longleftrightarrow> k \<notin> set gone \<and> is_branching_id ns k"
  by (auto simp: is_sub_id_def is_branching_id_def find_node_kept)

lemma find_in: "find P xs = Some x \<Longrightarrow> x \<in> set xs \<and> P x"
  by (auto simp: find_Some_iff)

lemma reconnected_spec:
  assumes ok: "editor_ok st" and b: "is_branching_id (ed_nodes st) k = b" and k: "k \<in> set gone"
    and f: "f \<in> set (reconnected (ed_edges st) k b)"
  shows "\<not> is_sub_id (ed_nodes st) (edge_target f)" "edge_target f \<in> used_names st" "edge_source f \<in> used_names st"
    "is_branching_id (ed_nodes st) (edge_source f) \<or>
     filter (\<lambda>e. edge_source e = edge_source f)
       (filter (\<lambda>e. edge_source e \<notin> set gone \<and> edge_target e \<notin> set gone) (ed_edges st)) = []"
proof -
  obtain i out where i: "f = plain_edge (edge_source i) (edge_target out) None" "i \<in> set (ed_edges st)"
      "out \<in> set (ed_edges st)" "edge_target i = k" "edge_source out = k" "\<not> b"
    using f by (cases "find (\<lambda>e. edge_target e = k) (ed_edges st)"; cases "find (\<lambda>e. edge_source e = k) (ed_edges st)")
      (auto simp: reconnected_def dest!: find_in split: if_splits)
  show "\<not> is_sub_id (ed_nodes st) (edge_target f)" using editor_okD(5) [OF ok i(3)] i(1,5,6) b by auto
  show "edge_target f \<in> used_names st" "edge_source f \<in> used_names st" using i(1-3) by (auto simp: used_names_def)
  show "is_branching_id (ed_nodes st) (edge_source f) \<or>
     filter (\<lambda>e. edge_source e = edge_source f)
       (filter (\<lambda>e. edge_source e \<notin> set gone \<and> edge_target e \<notin> set gone) (ed_edges st)) = []"
    using only_one_removed [OF editor_okD(4) [OF ok, of "edge_source i"] i(2) refl,
        of "\<lambda>e. edge_source e \<notin> set gone \<and> edge_target e \<notin> set gone"] i(1,4) k
    by (cases "is_branching_id (ed_nodes st) (edge_source i)") (simp_all del: filter_filter)
qed

lemma length_reconnected: "length (reconnected es k b) \<le> 1"
  by (simp add: reconnected_def split: option.split)

lemma removed_ok:
  fixes st gone
  defines "P \<equiv> \<lambda>e. edge_source e \<notin> set gone \<and> edge_target e \<notin> set gone"
  assumes ok: "editor_ok st" and k: "k \<in> set gone" and b: "is_branching_id (ed_nodes st) k = b"
  shows "editor_ok (st\<lparr>ed_nodes := filter (\<lambda>n. node_id n \<notin> set gone) (ed_nodes st),
                       ed_edges := filter P (ed_edges st) @ reconnected (ed_edges st) k b\<rparr>)"
proof -
  let ?ns = "ed_nodes st" and ?es = "ed_edges st" and ?j = "reconnected (ed_edges st) k b"
  let ?st = "st\<lparr>ed_nodes := filter (\<lambda>n. node_id n \<notin> set gone) ?ns, ed_edges := filter P ?es @ ?j\<rparr>"
  note j = reconnected_spec [OF ok b k, folded P_def]
  have outs: "length (filter (\<lambda>e. edge_source e = m) (ed_edges ?st)) \<le> 1" if m: "\<not> is_branching_id (ed_nodes ?st) m" for m
  proof -
    have le: "length (filter (\<lambda>e. edge_source e = m) (filter P ?es)) \<le> 1"
    proof (cases "m \<in> set gone")
      case True
      then have "filter (\<lambda>e. edge_source e = m) (filter P ?es) = []" by (auto simp: filter_empty_conv P_def)
      then show ?thesis by (simp del: filter_filter)
    next
      case False
      then show ?thesis using filter_filter_le [OF editor_okD(4) [OF ok, of m], of P] m by (simp add: kind_kept del: filter_filter)
    qed
    show ?thesis
    proof (cases "\<exists>f \<in> set ?j. edge_source f = m")
      case True
      then obtain f where f: "f \<in> set ?j" "edge_source f = m" by auto
      have "filter (\<lambda>e. edge_source e = m) (filter P ?es) = []"
        using j(4) [OF f(1)] m f(2) by (cases "m \<in> set gone") (auto simp: kind_kept filter_empty_conv P_def)
      then show ?thesis using length_reconnected [of ?es k b]
        by (simp del: filter_filter) (meson le_trans length_filter_le)
    next
      case False
      then have "filter (\<lambda>e. edge_source e = m) ?j = []" by (auto simp: filter_empty_conv)
      then show ?thesis using le by (simp del: filter_filter)
    qed
  qed
  show ?thesis
  proof (rule editor_okI [OF _ _ _ outs])
    show "distinct (map node_id (ed_nodes ?st))" "well_named (ed_nodes ?st)"
      using editor_okD(1,2) [OF ok] by (auto simp: distinct_map_filter well_named_def)
    show "numbered m \<inter> used_names ?st = {}" if "ed_counter ?st < m" for m
    proof -
      have "used_names ?st \<subseteq> used_names st" using j(2,3) by (auto simp: used_names_def)
      then show ?thesis using editor_okD(3) [OF ok, of m] that by auto
    qed
    show "is_branching_id (ed_nodes ?st) (edge_source e)" if "e \<in> set (ed_edges ?st)" "is_sub_id (ed_nodes ?st) (edge_target e)" for e
      using that j(1) [of e] editor_okD(5) [OF ok, of e] by (auto simp: kind_kept P_def)
    show "length (filter (\<lambda>e. edge_target e = m) (ed_edges ?st)) \<le> 1" if "is_sub_id (ed_nodes ?st) m" for m
    proof -
      have m: "is_sub_id ?ns m" using that by (simp add: kind_kept)
      then have "filter (\<lambda>e. edge_target e = m) ?j = []" using j(1) by (auto simp: filter_empty_conv)
      then show ?thesis using filter_filter_le [OF editor_okD(6) [OF ok m], of P] by (simp del: filter_filter)
    qed
  qed
qed

lemma delete_ok:
  assumes "editor_ok st"
  shows "editor_ok (handleDeleteNode readOnly k st)"
proof (cases "find_node (ed_nodes st) k")
  case (Some n)
  have "k \<in> set (removed_with (ed_nodes st) (ed_edges st) n)" using find_node_ids [OF Some] by (simp add: removed_with_def)
  moreover have "is_branching_id (ed_nodes st) k = (node_type n \<in> set BRANCHING_STEP_TYPES)" using Some by (simp add: is_branching_id_def)
  ultimately show ?thesis using removed_ok [OF assms] assms Some by (simp add: handleDeleteNode_def Let_def)
qed (use assms in \<open>simp add: handleDeleteNode_def Let_def\<close>)

lemma session_keeps_drawing:
  assumes "editor_ok st"
    and "\<And>c es. addE c es = es \<or> (\<exists>e. addE c es = es @ [e] \<and> edge_source e = con_source c \<and> edge_target e = con_target c)"
    and "\<And>ids es. remE ids es = filter (\<lambda>e. edge_id e \<notin> set ids) es"
  shows "editor_ok (fold (editor_step addE remE ms) events st)"
proof (rule machine.inv_fold_from [where init = st])
  show "machine st (editor_step addE remE ms) editor_ok"
  proof
    show "editor_ok (editor_step addE remE ms e s)" if "editor_ok s" for e s
      using that assms(2,3)
      by (cases e) (simp_all add: connect_ok remove_edges_ok drop_ok delete_ok update_ok move_ok)
  qed (rule assms(1))
qed (rule assms(1))

section \<open>Sessions from an opened automation\<close>

text \<open>Sub-nodes only below a step that branches, and at most one child below a step that does not.\<close>

fun well_built :: "bool \<Rightarrow> api_step \<Rightarrow> bool" where
  "well_built branched (Step sid ty s cs) =
     ((ty \<in> set SUB_NODE_TYPES \<longrightarrow> branched) \<and> (ty \<in> set BRANCHING_STEP_TYPES \<or> length cs \<le> 1) \<and>
      (\<forall>c \<in> set cs. well_built (ty \<in> set BRANCHING_STEP_TYPES) c))"

text \<open>The editor's first state: \<open>automation-form-page.tsx\<close> sets the counter to \<open>maxStepId + 1\<close>.\<close>

definition opened_editor :: "opened_flow \<Rightarrow> editor_state" where
  "opened_editor f = \<lparr>ed_nodes = flow_nodes f, ed_edges = flow_edges f, ed_counter = maxStepId f + 1, ed_viewport = None\<rparr>"

definition createEmptyFlow :: editor_state where
  "createEmptyFlow =
     \<lparr>ed_nodes = [placed_node (IdNum 1) ''trigger'' 250 50 (JObj []), placed_node (IdNum 2) ''end'' 250 (50 + NODE_SPACING) (JObj [])],
      ed_edges = [plain_edge ''1'' ''2'' None], ed_counter = 3, ed_viewport = None\<rparr>"

lemma walk_max:
  "maxStepId st \<le> maxStepId (walk st p h t) \<and>
   (\<forall>u \<in> set (subs t). \<forall>n. numeric_id (api_id u) = Some n \<longrightarrow> n \<le> maxStepId (walk st p h t))"
  "maxStepId st \<le> maxStepId (walk_children st pid ty i cs) \<and>
   (\<forall>u \<in> set (concat (map subs cs)). \<forall>n. numeric_id (api_id u) = Some n \<longrightarrow> n \<le> maxStepId (walk_children st pid ty i cs))"
proof (induction st p h t and st pid ty i cs rule: walk_walk_children.induct)
  case (1 st p h sid ty s cs)
  then show ?case by (auto simp: Let_def split: option.splits if_splits)
next
  case (3 st pid ty i c cs)
  then show ?case by (auto intro: le_trans)
qed simp

lemma drawn_nodes:
  obtains ns where "flow_nodes (deserializeStepsToFlow t) = ns" "list_all2 (\<lambda>u n. \<exists>i. n = step_node u i) (subs t) ns"
  using walk_draws(1) [of "\<lparr>flow_nodes = [], flow_edges = [], maxStepId = 0\<rparr>" None None t]
  by (auto simp: deserializeStepsToFlow_def)

lemma step_node_kind:
  "''unsupported'' \<notin> X \<Longrightarrow> X \<subseteq> set KNOWN_STEP_TYPES \<Longrightarrow> node_type (step_node u i) \<in> X \<longleftrightarrow> step_type u \<in> X"
  by (auto simp: step_node_def Let_def)

lemma known_kinds: "''unsupported'' \<notin> set SUB_NODE_TYPES" "set SUB_NODE_TYPES \<subseteq> set KNOWN_STEP_TYPES"
    "''unsupported'' \<notin> set BRANCHING_STEP_TYPES" "set BRANCHING_STEP_TYPES \<subseteq> set KNOWN_STEP_TYPES"
  by (simp_all add: SUB_NODE_TYPES_def BRANCHING_STEP_TYPES_def KNOWN_STEP_TYPES_def)

lemma opened_kinds:
  assumes "distinct (tree_ids t)" "u \<in> set (subs t)"
  shows "is_sub_id (flow_nodes (deserializeStepsToFlow t)) (id_text (api_id u)) \<longleftrightarrow> step_type u \<in> set SUB_NODE_TYPES"
    "is_branching_id (flow_nodes (deserializeStepsToFlow t)) (id_text (api_id u)) \<longleftrightarrow> step_type u \<in> set BRANCHING_STEP_TYPES"
proof -
  obtain ns where ns: "flow_nodes (deserializeStepsToFlow t) = ns" "list_all2 (\<lambda>u n. \<exists>i. n = step_node u i) (subs t) ns"
    by (rule drawn_nodes)
  obtain j where j: "j < length (subs t)" "subs t ! j = u" using assms(2) by (auto simp: in_set_conv_nth)
  have "\<exists>i. ns ! j = step_node u i" "ns ! j \<in> set ns"
    using list_all2_nthD [OF ns(2) j(1)] j list_all2_lengthD [OF ns(2)] by simp_all
  then obtain i where i: "ns ! j = step_node u i" "ns ! j \<in> set ns" by blast
  then have "find_node ns (id_text (api_id u)) = Some (step_node u i)"
    using find_node_distinct [of ns "ns ! j"] node_ids_drawn [of t] assms(1) ns(1) by (simp add: step_node_facts)
  then show "is_sub_id (flow_nodes (deserializeStepsToFlow t)) (id_text (api_id u)) \<longleftrightarrow> step_type u \<in> set SUB_NODE_TYPES"
    "is_branching_id (flow_nodes (deserializeStepsToFlow t)) (id_text (api_id u)) \<longleftrightarrow> step_type u \<in> set BRANCHING_STEP_TYPES"
    using ns(1) by (simp_all add: is_sub_id_def is_branching_id_def step_node_kind known_kinds)
qed

lemma well_built_subs:
  "well_built branched t \<Longrightarrow> u \<in> set (subs t) \<Longrightarrow>
   (step_type u \<in> set BRANCHING_STEP_TYPES \<or> length (step_children u) \<le> 1) \<and>
   (\<forall>c \<in> set (step_children u). step_type c \<in> set SUB_NODE_TYPES \<longrightarrow> step_type u \<in> set BRANCHING_STEP_TYPES)"
proof (induction branched t rule: well_built.induct)
  case (1 branched sid ty s cs)
  show ?case
  proof (cases "u = Step sid ty s cs")
    case True
    have "well_built (ty \<in> set BRANCHING_STEP_TYPES) c \<Longrightarrow> step_type c \<in> set SUB_NODE_TYPES \<longrightarrow> ty \<in> set BRANCHING_STEP_TYPES" for c
      by (cases c) simp
    then show ?thesis using 1 True by auto
  qed (use 1 in auto)
qed

lemma opened_named: "well_named (flow_nodes (deserializeStepsToFlow t))"
proof -
  obtain ns where ns: "flow_nodes (deserializeStepsToFlow t) = ns" "list_all2 (\<lambda>u n. \<exists>i. n = step_node u i) (subs t) ns"
    by (rule drawn_nodes)
  from ns(2) have "well_named ns"
    by (induction rule: list_all2_induct) (auto simp: well_named_def step_node_facts)
  then show ?thesis using ns(1) by simp
qed

lemma tree_id_of: "k \<in> set (tree_ids t) \<longleftrightarrow> (\<exists>u \<in> set (subs t). k = id_text (api_id u))"
  by (auto simp: tree_ids_subs)

lemma opened_used:
  assumes "[] \<notin> set (tree_ids t)"
  shows "used_names (opened_editor (deserializeStepsToFlow t)) \<subseteq> set (tree_ids t)"
proof -
  have "set (tl (tree_ids t)) \<subseteq> set (tree_ids t)" by (cases "tree_ids t") auto
  then have "edge_target ` set (tree_edges None None t) \<subseteq> set (tree_ids t)"
    using edge_targets(1) [of None t None] assms by (metis list.set_map option.distinct(1))
  moreover have "node_id ` set (flow_nodes (deserializeStepsToFlow t)) = set (tree_ids t)"
    using node_ids_drawn [of t] by (metis list.set_map)
  ultimately show ?thesis
    using edge_sources(1) [of None None t] by (simp add: used_names_def opened_editor_def edges_drawn)
qed

lemma opened_fresh:
  assumes "\<forall>k > maxStepId (deserializeStepsToFlow t). \<forall>s. IdText s \<in> api_id ` set (subs t) \<longrightarrow> s \<notin> numbered k"
    and "maxStepId (deserializeStepsToFlow t) < k"
  shows "numbered k \<inter> set (tree_ids t) = {}"
proof -
  have "id_text (api_id u) \<notin> numbered k" if u: "u \<in> set (subs t)" for u
  proof (cases "api_id u")
    case (IdNum n)
    have "n \<le> maxStepId (deserializeStepsToFlow t)" using walk_max(1) u IdNum by (simp add: deserializeStepsToFlow_def)
    then show ?thesis using assms(2) IdNum by (auto simp: numbered_def)
  next
    case (IdText s)
    then have "IdText s \<in> api_id ` set (subs t)" using u by (metis image_eqI)
    then show ?thesis using assms IdText by simp
  qed
  then show ?thesis by (auto simp: tree_id_of)
qed

lemma drawn_edge_ends:
  assumes "distinct (tree_ids t)" "[] \<notin> set (tree_ids t)" "e \<in> set (tree_edges None None t)"
  obtains u c where "u \<in> set (subs t)" "edge_source e = id_text (api_id u)" "c \<in> set (step_children u)" "edge_target e = id_text (api_id c)"
proof -
  have "edge_source e \<in> set (tree_ids t)" using edge_sources(1) [of None None t] assms(3) by auto
  then obtain u where u: "u \<in> set (subs t)" "edge_source e = id_text (api_id u)" by (auto simp: tree_id_of)
  have out: "outgoing (tree_edges None None t) (id_text (api_id u)) = entries (step_type u) 0 (step_children u)"
    using outgoing_drawn(1) [OF assms(1,2), of None None] u(1) by auto
  have "edge_target e \<in> fst ` set (outgoing (tree_edges None None t) (edge_source e))"
    using assms(3) by (auto simp: outgoing_def image_image)
  then have "edge_target e \<in> set (map fst (entries (step_type u) 0 (step_children u)))" unfolding u(2) out by (simp only: set_map)
  then have "edge_target e \<in> set (map (\<lambda>c. id_text (api_id c)) (step_children u))" by (simp only: fst_entries)
  then show thesis using that u by auto
qed

lemma opened_editor_ok:
  assumes "distinct (tree_ids t)" "[] \<notin> set (tree_ids t)" "well_built False t"
    and "\<forall>k > maxStepId (deserializeStepsToFlow t). \<forall>s. IdText s \<in> api_id ` set (subs t) \<longrightarrow> s \<notin> numbered k"
  shows "editor_ok (opened_editor (deserializeStepsToFlow t))"
proof -
  let ?st = "opened_editor (deserializeStepsToFlow t)" and ?es = "tree_edges None None t"
  have st: "ed_nodes ?st = flow_nodes (deserializeStepsToFlow t)" "ed_edges ?st = ?es"
    "ed_counter ?st = maxStepId (deserializeStepsToFlow t) + 1"
    by (simp_all add: opened_editor_def edges_drawn)
  show ?thesis
  proof (rule editor_okI)
    show "distinct (map node_id (ed_nodes ?st))" using assms(1) by (simp add: st node_ids_drawn)
    show "well_named (ed_nodes ?st)" by (simp add: st opened_named)
    show "numbered k \<inter> used_names ?st = {}" if "ed_counter ?st < k" for k
      using opened_fresh [OF assms(4), of k] opened_used [OF assms(2)] that st(3) by auto
    show "length (filter (\<lambda>e. edge_source e = k) (ed_edges ?st)) \<le> 1" if nb: "\<not> is_branching_id (ed_nodes ?st) k" for k
    proof (cases "k \<in> set (tree_ids t)")
      case True
      then obtain u where u: "u \<in> set (subs t)" "k = id_text (api_id u)" by (auto simp: tree_id_of)
      then have "length (outgoing ?es k) = length (step_children u)"
        using outgoing_drawn(1) [OF assms(1,2), of None None] by (auto simp: entries_def)
      then show ?thesis using nb u well_built_subs [OF assms(3) u(1)] opened_kinds(2) [OF assms(1) u(1)]
        by (simp add: st outgoing_def)
    next
      case False
      then have "outgoing ?es k = []" using edge_sources(1) [of None None t] by (intro outgoing_none) auto
      then show ?thesis by (simp add: st outgoing_def)
    qed
    show "is_branching_id (ed_nodes ?st) (edge_source e)" if e: "e \<in> set (ed_edges ?st)" "is_sub_id (ed_nodes ?st) (edge_target e)" for e
    proof -
      obtain u c where u: "u \<in> set (subs t)" "edge_source e = id_text (api_id u)" "c \<in> set (step_children u)" "edge_target e = id_text (api_id c)"
        using drawn_edge_ends [OF assms(1,2)] e(1) st(2) by metis
      have "step_type c \<in> set SUB_NODE_TYPES"
        using e(2) opened_kinds(1) [OF assms(1) subs_trans [OF u(1,3)]] u(4) by (simp add: st)
      then show ?thesis using well_built_subs [OF assms(3) u(1)] u opened_kinds(2) [OF assms(1) u(1)] by (auto simp: st)
    qed
    have "distinct (map edge_target ?es)" using edge_targets(1) [of None t None] assms(1,2) by (simp add: distinct_tl)
    then have "e \<in> set ?es \<Longrightarrow> filter (\<lambda>f. edge_target f = edge_target e) ?es = [e]" for e using filter_one by fast
    then show "length (filter (\<lambda>e. edge_target e = k) (ed_edges ?st)) \<le> 1" for k
      by (cases "\<exists>e \<in> set ?es. edge_target e = k") (auto simp: st filter_empty_conv)
  qed
qed


text \<open>
  An instance: into \<open>demo_tree\<close> (a conditional whose second branch splits) a wait is dropped, the first
  conditional is deleted, and two steps are connected.
\<close>

definition demo_addEdge :: "connection \<Rightarrow> flow_edge list \<Rightarrow> flow_edge list" where
  "demo_addEdge c es = es @ [plain_edge (con_source c) (con_target c) (con_sourceHandle c)]"

definition demo_removeEdges :: "string list \<Rightarrow> flow_edge list \<Rightarrow> flow_edge list" where
  "demo_removeEdges ids es = filter (\<lambda>e. edge_id e \<notin> set ids) es"

definition demo_events :: "editor_event list" where
  "demo_events = [Drop ''wait'' (900, 900), Delete ''2'',
     Connect \<lparr>con_source = ''1'', con_target = ''10'', con_sourceHandle = None, con_targetHandle = None\<rparr>]"


lemma nearest_edge_is_nearest_witness:
  "case findNearestEdge (\<lambda>_. (None, None)) (ed_nodes createEmptyFlow) (ed_edges createEmptyFlow) (0, 0) 80 of
     Some e \<Rightarrow> e \<in> set (ed_edges createEmptyFlow) \<and>
       (\<exists>x. edge_distance (\<lambda>_. (None, None)) (ed_nodes createEmptyFlow) (0, 0) e = Some x \<and> x < 80 \<and>
         (\<forall>f \<in> set (ed_edges createEmptyFlow). \<forall>y. edge_distance (\<lambda>_. (None, None)) (ed_nodes createEmptyFlow) (0, 0) f = Some y \<longrightarrow> x \<le> y))
   | None \<Rightarrow> \<forall>f \<in> set (ed_edges createEmptyFlow). \<forall>y. edge_distance (\<lambda>_. (None, None)) (ed_nodes createEmptyFlow) (0, 0) f = Some y \<longrightarrow> 80 \<le> y"
  by (rule nearest_edge_is_nearest) (simp add: createEmptyFlow_def isInsideNode_def placed_node_def)

text \<open>An end block dropped near an edge becomes a step with a step after it.\<close>

lemma end_spliced_in:
  assumes "findNearestEdge ms (ed_nodes st) (ed_edges st) p SPLICE_THRESHOLD = Some e"
  shows "plain_edge (show_nat (ed_counter st + 1)) (edge_target e) None \<in> set (ed_edges (editor_step addE remE ms (Drop ''end'' p) st))"
  using assms by (simp add: onDrop_def Let_def BLOCK_TYPES_def COMPOUND_STEP_TYPES_def spliceNodeIntoEdge_def)

end
