(* ===== verification/Spec2Isabelle.thy ===== *)
theory Spec2Isabelle
  imports Connection Bridge Thresholds SmsEncoding Authz FilterParser SegmentQuery SegmentTables
    SegmentLock SegmentPeriods SegmentRun SegmentEvents TagBatch AutomationRuns CampaignPages BatchMail SendgridEvents
    FlowEditor
begin

text \<open>
  Open BMS, a platform for messages to contacts: a model of its core services in HOL and what has
  been proved about them. The paths are those of the repository, below \<open>src/\<close>.

  \<^bold>\<open>The program.\<close> The React application (\<open>apps/frontend-react\<close>) edits segments, automations and
  campaigns; \<open>apps/msgops-api\<close> stores them. A recalculation (\<open>apps/tag-process\<close>) turns a segment into
  a query (\<open>packages/segment-query-builder\<close>), runs it and starts automations for the contacts that
  came or went; \<open>apps/message-trigger\<close> walks the steps of an automation, one queued message at a time;
  \<open>apps/campaign-packer\<close> cuts a campaign into pages; \<open>apps/send-email\<close> hands batches to a provider;
  \<open>apps/event-process\<close> takes the provider's events back, updates contacts and counts; the statistics job
  of \<open>msgops-api\<close> reads the counters. The services talk over RabbitMQ through
  \<open>packages/messaging\<close>, and share Redis (locks, markers, flags, counters), Postgres and ClickHouse.

  \<^bold>\<open>How it is modelled.\<close> Records and datatypes follow the interfaces of the sources, a function of the
  model keeps the name of the function it translates. A JavaScript object or \<open>Map\<close> is an association
  list in insertion order (\<open>jsmap\<close>), a dynamic value a \<open>jsval\<close>, a number a natural, an integer or a
  \<open>jsnum\<close> (a real, the infinities, NaN) by its use. An async function with effects is a
  program over an explicit state that ends with a value or a thrown text (\<open>prog\<close> in \<open>Prelude\<close>), or a
  step relation where several workers interleave. Redis, the tables, the broker and what left a
  service are parts of the state; dates, third-party code, JSON and the answers of databases whose query
  is not modelled are parameters.

  \<^bold>\<open>The theories.\<close>
  \<^item> \<open>Prelude\<close>, \<open>JsValue\<close>: maps, array methods, programs with errors, the locale \<open>machine\<close> for invariants;
    JavaScript numbers, texts and conversions.
  \<^item> \<open>Retry\<close>, \<open>Connection\<close>, \<open>Consumer\<close>, \<open>Bridge\<close> (\<open>packages/messaging/src\<close>, the consumer service and the
    trigger endpoint of message-trigger): back-off, the life of a connection, settlement, retries and
    dead letters of a consumer as atomic steps between awaits, the path from a delivery to the engine.
  \<^item> \<open>SafeEvaluator\<close>, \<open>Engine\<close>, \<open>Conditional\<close>, \<open>HttpRequest\<close>, \<open>Automation\<close> (\<open>apps/message-trigger/src\<close>): the
    evaluator of conditions, queues and delays, every kind of step, and the execution of one message.
  \<^item> \<open>Thresholds\<close> (\<open>packages/shared/src/thresholds.ts\<close>), \<open>SmsEncoding\<close> (\<open>apps/frontend-react\<close>).
  \<^item> \<open>Authz\<close>, \<open>FilterParser\<close> (\<open>apps/msgops-api/src/modules/authz\<close>, \<open>accounts\<close>, \<open>activity\<close>): principals and
    their cache, guards, managed keys; the search text and the where clause made of it.
  \<^item> \<open>AutomationFlow\<close>, \<open>FlowEditor\<close> (\<open>apps/frontend-react/src/features/automations\<close>): the steps of an automation and
    their drawing, the checks of a save, the handlers of the canvas and whole sessions.
  \<^item> \<open>SegmentBuilder\<close>, \<open>SegmentEditor\<close>, \<open>SegmentStore\<close> (\<open>apps/frontend-react/src/features/segments/builder\<close>): the
    reducer, whole editing sessions, the stored form.
  \<^item> \<open>SegmentSql\<close>, \<open>SegmentQuery\<close>, \<open>SegmentTables\<close> (\<open>packages/segment-query-builder/src\<close>): both generators as
    edits of one text, what that text says card by card, and its temporary tables.
  \<^item> \<open>SegmentTime\<close>, \<open>SegmentPeriods\<close>, \<open>SegmentLock\<close>, \<open>SegmentDb\<close>, \<open>SegmentRun\<close>, \<open>SegmentEvents\<close>, \<open>TagBatch\<close>,
    \<open>AutomationRuns\<close> (\<open>apps/tag-process/src\<close>): period markers, the lock with its expiry, the membership
    transaction, one recalculation from lock to release, the analytics of its contacts, batches of tags and
    contacts, the rows and flags of automation runs.
  \<^item> \<open>CampaignPages\<close> (\<open>apps/campaign-packer/src\<close>), \<open>BatchMail\<close> (\<open>apps/send-email/src/batch\<close>): pages, test groups and
    winners; the filters, checks and records of a batch.
  \<^item> \<open>EventFormat\<close>, \<open>EventStats\<close>, \<open>EventIntake\<close>, \<open>SendgridEvents\<close> (\<open>apps/event-process/src\<close> and
    \<open>apps/msgops-api/src/modules/statistics/statistics.aggregation.ts\<close>): bot detection, formatter and caches;
    the counters written and read back; processing once; the batches of SendGrid.

  \<^bold>\<open>Interfaces.\<close> \<open>machine\<close> (an invariant every event keeps) is interpreted on the connection, the consumer, the
  principals, the segment editor and the caches, and gives the sessions of the automation editor under the laws of React Flow; \<open>backoff_policy\<close> on the back-off; \<open>marker\<close> (a pattern and its
  replacement) on both kinds of period markers, where it gives the equality of the loop and a single pass.

  \<^bold>\<open>What the lemmas show.\<close> Safety over all interleavings: a delivery is settled at most once and a dead letter
  only after the broker's confirmation; two workers recalculate a segment together only past the lifetime of the
  lock; a cached principal is at most 300 seconds stale; no guard lets a request through without its permissions;
  a contact has one running run per automation; suppressed contacts reach no provider; only a recipient's fault
  marks a contact as bounced. Exact results: the clause of a search keeps every value in its literal, the
  generated query is the card-by-card query, the transaction leaves the contacts of the query, every recipient is on
  one page, a drawing saves the steps its root reaches and opens as it was left, an automation message hands on one continuation and the walk ends, the report sums to the events counted.
  Errors are proved as behaviour too: a rolled back recalculation counted as a success, a failed step acknowledged, a
  campaign batch sent again, a failed batch of events lost, flags nobody reads, columns that stay zero, loops of steps that a save drops.

  \<^bold>\<open>Loops and bounds.\<close> No definition uses fuel. The replacement of period markers, a loop until no match is
  left, is a partial function, proved to return for every text (\<open>SegmentTime\<close>, with the length of the unread rest as
  the measure); the words of a search and the chunks of a list end by the length of their rest; messages of an automation
  are bounded by the weight of its step tree; the depth-first walk of a drawing ends by the nodes not yet visited
  (\<open>AutomationFlow\<close>). Times are unbounded integers or naturals; the numbers of the sources are
  doubles, and no value here comes near \<open>2 ^ 53\<close> except where \<open>jsnum\<close> models the conversion.

  \<^bold>\<open>Not modelled.\<close> The screens of the React application, the CRUD modules of \<open>msgops-api\<close> with their entities and
  migrations, the adapters of single providers (SparkPost, SES, Resend, MailerSend, Mandrill, Twilio, push, WhatsApp), the
  tracker, the import from another installation, geolocation, and the rendering of messages: their logic is queries
  of TypeORM, calls of third-party services and mapping of fields. Within the modelled files: log and tracker lines, \<open>layoutLinearFlow\<close> (nothing calls it),
  message headers, the condition on the trigger of an automation (a text given to \<open>eval\<close>), \<open>updateManagedApiKey\<close>,
  \<open>createContactsSend\<close>, the account-wide rates of the report and its clean-up job, and the branch of the event triggers
  for custom events.
\<close>

end
